(* ===== verification/Go_Prelude.thy ===== *)
theory Go_Prelude
  imports Main "HOL-Library.AList" "HOL-Library.Char_ord" "HOL-Library.List_Lexorder"
    "HOL-Library.Sublist" "HOL-Library.Multiset"
begin

text \<open>
  Shared vocabulary of the development: Go strings (byte sequences), maps, errors as values,
  the functions of \<open>strings\<close> and \<open>strconv\<close> the sources call, and the generic lemmas on lists and
  maps the component theories use.

  A Go map is an association list with distinct keys. The order of the list stands for the order
  in which a \<open>range\<close> loop happens to visit the map, which Go leaves open: a theorem about every
  such list is a theorem about every iteration order.
\<close>

section \<open>Errors and results\<close>

text \<open>
  The sentinel errors of the packages are constructors; \<open>errors.New\<close> and \<open>fmt.Errorf\<close> give
  \<open>Errorf\<close> with the format string and its rendered arguments; an error of the file system, the
  network or a codec is \<open>IOError\<close>; \<open>%w\<close> wrapping is \<open>Wrap\<close>; a run-time panic is \<open>Panic\<close>.
\<close>

datatype goerror =
    Errorf string "string list"
  | IOError string
  | Wrap string "string list" goerror
  | ErrDropped
  | ErrTenantNotFound
  | ErrQueryConcurrencyExceeded
  | ErrTopicRequired
  | ErrMemberNotFound
  | ErrConflict
  | ErrKeyRequired
  | ErrObjectConflict
  | ErrUnauthorized
  | ErrNotExist
  | ErrUnexpectedEOF
  | ErrCanceled
  | Panic string

type_synonym 'a result = "goerror + 'a"

fun errors_is :: "goerror \<Rightarrow> goerror \<Rightarrow> bool" where
  "errors_is (Wrap f as e) t = (Wrap f as e = t \<or> errors_is e t)"
| "errors_is e t = (e = t)"

lemma first_error_None [simp]:
  "(case x of None \<Rightarrow> y | Some err \<Rightarrow> Some err) = None \<longleftrightarrow> x = None \<and> y = None"
  by (cases x) simp_all

lemma if_error_None [simp]:
  "(if b then Some err else y) = None \<longleftrightarrow> \<not> b \<and> y = None"
  by simp

text \<open>Facts that unfold the operations of a component, and facts about its invariant.\<close>

named_theorems go_defs \<open>definitions that unfold in step-by-step proofs\<close>
named_theorems go_inv \<open>preservation of well-formedness invariants\<close>

section \<open>Maps\<close>

type_synonym ('k, 'v) gomap = "('k \<times> 'v) list"
type_synonym strmap = "(string, string) gomap"

definition wf_map :: "('k, 'v) gomap \<Rightarrow> bool" where
  "wf_map m \<longleftrightarrow> distinct (map fst m)"

text \<open>Reading a missing key of a \<open>map[string]string\<close> gives the empty string.\<close>

definition mget :: "('k, string) gomap \<Rightarrow> 'k \<Rightarrow> string" where
  "mget m k = (case map_of m k of None \<Rightarrow> [] | Some v \<Rightarrow> v)"

definition same_map :: "('k, 'v) gomap \<Rightarrow> ('k, 'v) gomap \<Rightarrow> bool" where
  "same_map m n \<longleftrightarrow> wf_map m \<and> wf_map n \<and> set m = set n"

lemma wf_map_Nil [simp, intro]: "wf_map []"
  by (simp add: wf_map_def)

lemma wf_map_update [simp, intro]: "wf_map m \<Longrightarrow> wf_map (AList.update k v m)"
  by (simp add: wf_map_def distinct_update)

lemma wf_map_delete [simp, intro]: "wf_map m \<Longrightarrow> wf_map (AList.delete k m)"
  by (simp add: wf_map_def distinct_delete)

lemma wf_map_Cons: "wf_map (kv # m) \<longleftrightarrow> fst kv \<notin> fst ` set m \<and> wf_map m"
  by (simp add: wf_map_def)

lemma mget_update: "mget (AList.update k v m) k' = (if k' = k then v else mget m k')"
  by (simp add: mget_def update_conv')

lemma mget_update_same [simp]: "mget (AList.update k v m) k = v"
  by (simp add: mget_update)

lemma mget_delete: "mget (AList.delete k m) k' = (if k' = k then [] else mget m k')"
  by (simp add: mget_def delete_conv')

lemma mget_Nil [simp]: "mget [] k = []"
  by (simp add: mget_def)

lemma mget_nonempty: "mget m k \<noteq> [] \<longleftrightarrow> (\<exists>v. map_of m k = Some v \<and> v \<noteq> [])"
  by (auto simp: mget_def split: option.splits)

lemma map_of_Some_in: "wf_map m \<Longrightarrow> (k, v) \<in> set m \<longleftrightarrow> map_of m k = Some v"
  by (simp add: wf_map_def)

lemma mget_in: "wf_map m \<Longrightarrow> (k, v) \<in> set m \<Longrightarrow> mget m k = v"
  by (simp add: mget_def map_of_Some_in)

lemma same_map_refl [simp]: "same_map m m \<longleftrightarrow> wf_map m"
  by (simp add: same_map_def)

lemma same_map_sym: "same_map m n \<Longrightarrow> same_map n m"
  by (auto simp: same_map_def)

lemma same_map_map_of: "same_map m n \<Longrightarrow> map_of m = map_of n"
  unfolding same_map_def wf_map_def by (metis map_of_inject_set)

lemma same_map_mset: "same_map m n \<Longrightarrow> mset m = mset n"
  unfolding same_map_def wf_map_def by (metis distinct_map set_eq_iff_mset_eq_distinct)

lemma same_map_length: "same_map m n \<Longrightarrow> length m = length n"
  using same_map_mset by (metis size_mset)

lemma same_map_mget: "same_map m n \<Longrightarrow> mget m k = mget n k"
  by (simp add: mget_def same_map_map_of)

section \<open>Bytes and strings\<close>

text \<open>The numeric value of a byte; the top bit is clear on ASCII.\<close>

definition byte_val :: "char \<Rightarrow> int" where
  "byte_val c = of_char c"

definition is_ascii :: "char \<Rightarrow> bool" where
  "is_ascii c \<longleftrightarrow> \<not> digit7 c"

definition ascii_lower :: "char \<Rightarrow> char" where
  "ascii_lower c = (if 65 \<le> byte_val c \<and> byte_val c \<le> 90 then char_of (byte_val c + 32) else c)"

text \<open>
  \<open>strings.ToLower\<close>: bytewise on ASCII strings; other strings go through the Unicode case tables,
  which are the parameter \<open>uni\<close>.
\<close>

definition ToLower :: "(string \<Rightarrow> string) \<Rightarrow> string \<Rightarrow> string" where
  "ToLower uni s = (if list_all is_ascii s then map ascii_lower s else uni s)"

text \<open>The UTF-8 encodings of the runes \<open>unicode.IsSpace\<close> accepts.\<close>

definition space_encodings :: "string list" where
  "space_encodings =
     [[CHR 0x09], [CHR 0x0A], [CHR 0x0B], [CHR 0x0C], [CHR 0x0D], [CHR 0x20],
      [CHR 0xC2, CHR 0x85], [CHR 0xC2, CHR 0xA0], [CHR 0xE1, CHR 0x9A, CHR 0x80],
      [CHR 0xE2, CHR 0x80, CHR 0x80], [CHR 0xE2, CHR 0x80, CHR 0x81], [CHR 0xE2, CHR 0x80, CHR 0x82],
      [CHR 0xE2, CHR 0x80, CHR 0x83], [CHR 0xE2, CHR 0x80, CHR 0x84], [CHR 0xE2, CHR 0x80, CHR 0x85],
      [CHR 0xE2, CHR 0x80, CHR 0x86], [CHR 0xE2, CHR 0x80, CHR 0x87], [CHR 0xE2, CHR 0x80, CHR 0x88],
      [CHR 0xE2, CHR 0x80, CHR 0x89], [CHR 0xE2, CHR 0x80, CHR 0x8A], [CHR 0xE2, CHR 0x80, CHR 0xA8],
      [CHR 0xE2, CHR 0x80, CHR 0xA9], [CHR 0xE2, CHR 0x80, CHR 0xAF], [CHR 0xE2, CHR 0x81, CHR 0x9F],
      [CHR 0xE3, CHR 0x80, CHR 0x80]]"

definition starts_with :: "string \<Rightarrow> string \<Rightarrow> bool" where
  "starts_with s p \<longleftrightarrow> take (length p) s = p"

definition ends_with :: "string \<Rightarrow> string \<Rightarrow> bool" where
  "ends_with s p \<longleftrightarrow> length p \<le> length s \<and> drop (length s - length p) s = p"

text \<open>Bytes taken by the white-space rune at the head of the string, 0 when there is none.\<close>

definition space_len :: "string \<Rightarrow> nat" where
  "space_len s = (case find (starts_with s) space_encodings of None \<Rightarrow> 0 | Some p \<Rightarrow> length p)"

definition rspace_len :: "string \<Rightarrow> nat" where
  "rspace_len r = (case find (starts_with r) (map rev space_encodings) of None \<Rightarrow> 0 | Some p \<Rightarrow> length p)"

fun trim_with :: "(string \<Rightarrow> nat) \<Rightarrow> string \<Rightarrow> string" where
  "trim_with f [] = []"
| "trim_with f (c # cs) = (case f (c # cs) of 0 \<Rightarrow> c # cs | Suc n \<Rightarrow> trim_with f (drop n cs))"

definition TrimSpace :: "string \<Rightarrow> string" where
  "TrimSpace s = rev (trim_with rspace_len (rev (trim_with space_len s)))"

text \<open>\<open>strings.FieldsFunc\<close> for a predicate that only looks at ASCII bytes.\<close>

function FieldsFunc :: "(char \<Rightarrow> bool) \<Rightarrow> string \<Rightarrow> string list" where
  "FieldsFunc p s = (case dropWhile p s of [] \<Rightarrow> []
     | c # cs \<Rightarrow> takeWhile (\<lambda>x. \<not> p x) (c # cs) # FieldsFunc p (dropWhile (\<lambda>x. \<not> p x) (c # cs)))"
  by pat_completeness auto
termination
proof (relation "measure (\<lambda>(p, s). length s)", simp)
  fix p :: "char \<Rightarrow> bool" and s c cs
  assume d: "dropWhile p s = c # cs"
  have np: "\<not> p c"
    using d by (metis hd_dropWhile list.distinct(1) list.sel(1))
  have "length (dropWhile p s) \<le> length s"
    by (rule length_dropWhile_le)
  then have "Suc (length cs) \<le> length s"
    using d by simp
  moreover have "length (dropWhile (\<lambda>x. \<not> p x) cs) \<le> length cs"
    by (rule length_dropWhile_le)
  ultimately show "((p, dropWhile (\<lambda>x. \<not> p x) (c # cs)), p, s) \<in> measure (\<lambda>(p, s). length s)"
    using np by simp
qed

declare FieldsFunc.simps [simp del]

text \<open>\<open>strings.Fields\<close>: split around runs of white space.\<close>

function fields_aux :: "string \<Rightarrow> string \<Rightarrow> string list" where
  "fields_aux cur [] = (if cur = [] then [] else [rev cur])"
| "fields_aux cur (c # cs) = (case space_len (c # cs) of
       0 \<Rightarrow> fields_aux (c # cur) cs
     | Suc n \<Rightarrow> (if cur = [] then [] else [rev cur]) @ fields_aux [] (drop n cs))"
  by pat_completeness auto
termination by (relation "measure (\<lambda>(cur, s). length s)") auto

definition Fields :: "string \<Rightarrow> string list" where
  "Fields s = fields_aux [] s"

definition TrimLeftChars :: "string \<Rightarrow> string \<Rightarrow> string" where
  "TrimLeftChars s cs = dropWhile (\<lambda>c. c \<in> set cs) s"

definition TrimRightChars :: "string \<Rightarrow> string \<Rightarrow> string" where
  "TrimRightChars s cs = rev (dropWhile (\<lambda>c. c \<in> set cs) (rev s))"

definition TrimChars :: "string \<Rightarrow> string \<Rightarrow> string" where
  "TrimChars s cs = TrimRightChars (TrimLeftChars s cs) cs"

definition TrimPrefix :: "string \<Rightarrow> string \<Rightarrow> string" where
  "TrimPrefix s p = (if starts_with s p then drop (length p) s else s)"

fun Contains :: "string \<Rightarrow> string \<Rightarrow> bool" where
  "Contains [] t = (t = [])"
| "Contains (c # cs) t = (starts_with (c # cs) t \<or> Contains cs t)"

text \<open>\<open>strings.Cut\<close>: the text before and after the first separator, when there is one.\<close>

fun Cut :: "string \<Rightarrow> string \<Rightarrow> (string \<times> string) option" where
  "Cut [] sep = (if sep = [] then Some ([], []) else None)"
| "Cut (c # cs) sep = (if starts_with (c # cs) sep then Some ([], drop (length sep) (c # cs))
     else map_option (\<lambda>(a, b). (c # a, b)) (Cut cs sep))"

text \<open>\<open>strings.ReplaceAll\<close> with a nonempty first argument.\<close>

function ReplaceAll :: "string \<Rightarrow> string \<Rightarrow> string \<Rightarrow> string" where
  "ReplaceAll [] old new = []"
| "ReplaceAll (c # cs) old new =
     (if old \<noteq> [] \<and> starts_with (c # cs) old then new @ ReplaceAll (drop (length old) (c # cs)) old new
      else c # ReplaceAll cs old new)"
  by pat_completeness auto
termination
  by (relation "measure (\<lambda>(s, old, new). length s)") (auto simp: neq_Nil_conv)

fun Join :: "string list \<Rightarrow> string \<Rightarrow> string" where
  "Join [] sep = []"
| "Join [x] sep = x"
| "Join (x # y # ys) sep = x @ sep @ Join (y # ys) sep"

text \<open>\<open>strings.Split\<close> at a one-byte separator.\<close>

fun split_char :: "char \<Rightarrow> string \<Rightarrow> string list" where
  "split_char x [] = [[]]"
| "split_char x (c # cs) = (if c = x then [] # split_char x cs
     else case split_char x cs of [] \<Rightarrow> [[c]] | w # ws \<Rightarrow> (c # w) # ws)"

text \<open>\<open>firstNonEmpty\<close> of the pipeline and gateway packages.\<close>

fun firstNonEmpty :: "string list \<Rightarrow> string" where
  "firstNonEmpty [] = []"
| "firstNonEmpty (v # vs) = (if TrimSpace v \<noteq> [] then v else firstNonEmpty vs)"

section \<open>Decimal numbers\<close>

definition digit :: "nat \<Rightarrow> char" where
  "digit d = char_of (48 + int d)"

definition is_digit :: "char \<Rightarrow> bool" where
  "is_digit c \<longleftrightarrow> 48 \<le> byte_val c \<and> byte_val c \<le> 57"

definition digit_val :: "char \<Rightarrow> nat" where
  "digit_val c = nat (byte_val c - 48)"

text \<open>\<open>fmt.Sprintf("%d", n)\<close> for a nonnegative \<open>n\<close>.\<close>

fun show_nat :: "nat \<Rightarrow> string" where
  "show_nat n = (if n < 10 then [digit n] else show_nat (n div 10) @ [digit (n mod 10)])"

declare show_nat.simps [simp del]

definition show_int :: "int \<Rightarrow> string" where
  "show_int i = (if i < 0 then CHR ''-'' # show_nat (nat (- i)) else show_nat (nat i))"

text \<open>Zero padding to a field width, as \<open>%0wd\<close> and the fields of \<open>time.Format\<close> do.\<close>

definition pad :: "nat \<Rightarrow> nat \<Rightarrow> string" where
  "pad w n = (let s = show_nat n in replicate (w - length s) (CHR ''0'') @ s)"

definition digits_val :: "string \<Rightarrow> nat" where
  "digits_val s = foldl (\<lambda>a c. 10 * a + digit_val c) 0 s"

definition min_int64 :: int where
  "min_int64 = - (2 ^ 63)"

definition max_int64 :: int where
  "max_int64 = 2 ^ 63 - 1"

definition int64_digits :: "bool \<Rightarrow> string \<Rightarrow> int option" where
  "int64_digits neg s = (if s = [] \<or> \<not> list_all is_digit s then None else
     let v = (if neg then - int (digits_val s) else int (digits_val s))
     in if min_int64 \<le> v \<and> v \<le> max_int64 then Some v else None)"

text \<open>\<open>strconv.Atoi\<close> and \<open>strconv.ParseInt(s, 10, 64)\<close>: an optional sign, digits, and a range check.\<close>

definition Atoi :: "string \<Rightarrow> int option" where
  "Atoi s = (case s of [] \<Rightarrow> None
     | c # cs \<Rightarrow> if c = CHR ''-'' then int64_digits True cs
                else if c = CHR ''+'' then int64_digits False cs
                else int64_digits False s)"

section \<open>Lemmas on strings and numbers\<close>

lemma starts_with_iff: "starts_with s p \<longleftrightarrow> (\<exists>r. s = p @ r)"
  unfolding starts_with_def by (metis append_eq_conv_conj append_take_drop_id)

lemma starts_with_Nil [simp]: "starts_with s []"
  by (simp add: starts_with_def)

lemma Contains_iff: "Contains s t \<longleftrightarrow> (\<exists>a b. s = a @ t @ b)"
proof (induction s)
  case Nil
  then show ?case by auto
next
  case (Cons c cs)
  show ?case
  proof
    assume "Contains (c # cs) t"
    then consider "starts_with (c # cs) t" | "Contains cs t" by auto
    then show "\<exists>a b. c # cs = a @ t @ b"
    proof cases
      case 1
      then show ?thesis by (metis append_Nil starts_with_iff)
    next
      case 2
      then show ?thesis using Cons.IH by (metis append_Cons)
    qed
  next
    assume "\<exists>a b. c # cs = a @ t @ b"
    then obtain a b where ab: "c # cs = a @ t @ b" by blast
    show "Contains (c # cs) t"
    proof (cases a)
      case Nil
      with ab have "starts_with (c # cs) t" by (auto simp: starts_with_iff)
      then show ?thesis by simp
    next
      case (Cons x a')
      with ab have "cs = a' @ t @ b" by simp
      with Cons.IH show ?thesis by auto
    qed
  qed
qed

lemma Contains_Nil [simp]: "Contains s []"
  by (cases s) simp_all

lemma Contains_refl [simp]: "Contains s s"
  unfolding Contains_iff by (metis append_Nil append_Nil2)

lemma Cut_Some: "Cut s sep = Some (a, b) \<Longrightarrow> s = a @ sep @ b"
proof (induction s arbitrary: a)
  case Nil
  then show ?case by (auto split: if_splits)
next
  case (Cons c cs)
  then show ?case
    by (auto simp: starts_with_iff split: if_splits)
qed

lemma Cut_char:
  "x \<notin> set a \<Longrightarrow> Cut (a @ x # b) [x] = Some (a, b)"
  by (induction a) (auto simp: starts_with_def)

lemma Cut_char_None: "x \<notin> set s \<Longrightarrow> Cut s [x] = None"
  by (induction s) (auto simp: starts_with_def)

lemma FieldsFunc_token:
  "t \<in> set (FieldsFunc p s) \<Longrightarrow> t \<noteq> [] \<and> (\<forall>c \<in> set t. \<not> p c) \<and> set t \<subseteq> set s"
proof (induction p s rule: FieldsFunc.induct)
  case (1 p s)
  show ?case
  proof (cases "dropWhile p s")
    case Nil
    with "1.prems" show ?thesis by (simp add: FieldsFunc.simps [of p s])
  next
    case (Cons c cs)
    have np: "\<not> p c"
      using Cons by (metis hd_dropWhile list.distinct(1) list.sel(1))
    have sub: "set (c # cs) \<subseteq> set s"
      using Cons by (metis set_dropWhileD subsetI)
    consider "t = takeWhile (\<lambda>x. \<not> p x) (c # cs)"
      | "t \<in> set (FieldsFunc p (dropWhile (\<lambda>x. \<not> p x) (c # cs)))"
      using "1.prems" Cons by (auto simp: FieldsFunc.simps [of p s])
    then show ?thesis
    proof cases
      case 1
      then show ?thesis using np sub by (auto dest: set_takeWhileD)
    next
      case 2
      then show ?thesis using "1.IH" [OF Cons 2] sub by (meson set_dropWhileD subset_iff)
    qed
  qed
qed

lemma byte_val_digit: "d < 10 \<Longrightarrow> byte_val (digit d) = 48 + int d"
  by (simp add: digit_def byte_val_def)

lemma digit_simps [simp]:
  assumes "d < 10"
  shows "is_digit (digit d)" and "digit_val (digit d) = d"
  using assms by (simp_all add: is_digit_def digit_val_def byte_val_digit)

lemma show_nat_not_Nil [simp]: "show_nat n \<noteq> []"
  by (subst show_nat.simps) simp

lemma digits_val_snoc: "digits_val (s @ [c]) = 10 * digits_val s + digit_val c"
  by (simp add: digits_val_def)

lemma show_nat_digits: "list_all is_digit (show_nat n) \<and> digits_val (show_nat n) = n"
proof (induction n rule: show_nat.induct)
  case (1 n)
  show ?case
  proof (cases "n < 10")
    case True
    then show ?thesis by (simp add: show_nat.simps [of n] digits_val_def)
  next
    case False
    with 1 show ?thesis by (simp add: show_nat.simps [of n] digits_val_snoc)
  qed
qed

lemma show_nat_inj [simp]: "show_nat m = show_nat n \<longleftrightarrow> m = n"
  by (metis show_nat_digits)

lemma show_nat_hd:
  "show_nat n = c # cs \<Longrightarrow> is_digit c"
  using show_nat_digits [of n] by auto

lemma is_digit_sign [simp]: "\<not> is_digit CHR ''-''" "\<not> is_digit CHR ''+''"
  by (simp_all add: is_digit_def byte_val_def)

lemma Atoi_show_nat:
  assumes "int n \<le> max_int64"
  shows "Atoi (show_nat n) = Some (int n)"
proof -
  obtain c cs where c: "show_nat n = c # cs"
    by (cases "show_nat n") auto
  then have "is_digit c" by (rule show_nat_hd)
  then have "c \<noteq> CHR ''-''" "c \<noteq> CHR ''+''" by auto
  then have "Atoi (show_nat n) = int64_digits False (show_nat n)"
    by (simp add: Atoi_def c)
  also have "\<dots> = Some (int n)"
    using assms show_nat_digits [of n] by (simp add: int64_digits_def min_int64_def)
  finally show ?thesis .
qed

lemma Atoi_bounds: "Atoi s = Some v \<Longrightarrow> min_int64 \<le> v \<and> v \<le> max_int64"
  by (auto simp: Atoi_def int64_digits_def Let_def split: list.splits if_splits)

lemma digits_val_replicate0: "digits_val (replicate k (CHR ''0'') @ s) = digits_val s"
  by (induction k) (simp_all add: digits_val_def digit_val_def byte_val_def)

lemma pad_digits: "list_all is_digit (pad w n)"
proof -
  have "is_digit (CHR ''0'')" by (simp add: is_digit_def byte_val_def)
  then show ?thesis using show_nat_digits [of n]
    by (auto simp: pad_def Let_def list_all_iff)
qed

lemma pad_val [simp]: "digits_val (pad w n) = n"
  using show_nat_digits [of n] by (simp add: pad_def Let_def digits_val_replicate0)

lemma pad_inj [simp]: "pad w m = pad w n \<longleftrightarrow> m = n"
  by (metis pad_val)

section \<open>Lemmas on lists\<close>

text \<open>A separator that occurs in neither prefix fixes where the prefix ends.\<close>

lemma sep_append_eq:
  assumes "x \<notin> set a" and "x \<notin> set b"
  shows "a @ x # r = b @ x # s \<longleftrightarrow> a = b \<and> r = s"
  using assms
proof (induction a arbitrary: b)
  case Nil
  then show ?case by (cases b) auto
next
  case (Cons c cs)
  then show ?case by (cases b) auto
qed

lemma Join_Cons: "xs \<noteq> [] \<Longrightarrow> Join (x # xs) sep = x @ sep @ Join xs sep"
  by (cases xs) simp_all

lemma Join_char_inj:
  assumes "\<forall>p \<in> set xs. c \<notin> set p" and "\<forall>p \<in> set ys. c \<notin> set p"
    and "xs \<noteq> []" and "ys \<noteq> []" and "Join xs [c] = Join ys [c]"
  shows "xs = ys"
  using assms
proof (induction xs arbitrary: ys)
  case Nil
  then show ?case by simp
next
  case (Cons x xs)
  obtain y ys' where ys: "ys = y # ys'" using Cons.prems(4) by (cases ys) auto
  show ?case
  proof (cases "xs = [] \<or> ys' = []")
    case True
    then show ?thesis
      using Cons.prems ys by (cases xs; cases ys') (auto simp: Join_Cons)
  next
    case False
    then have "x @ c # Join xs [c] = y @ c # Join ys' [c]"
      using Cons.prems(5) ys by (simp add: Join_Cons)
    then have "x = y" "Join xs [c] = Join ys' [c]"
      using Cons.prems(1,2) ys by (auto simp: sep_append_eq)
    then show ?thesis using Cons.IH [of ys'] Cons.prems(1,2) ys False by auto
  qed
qed

lemma split_char_not_Nil [simp]: "split_char x s \<noteq> []"
  by (induction s) (auto split: list.splits)

lemma split_char_free: "w \<in> set (split_char x s) \<Longrightarrow> x \<notin> set w"
  by (induction s arbitrary: w) (auto split: list.splits if_splits)

lemma split_char_append: "x \<notin> set w \<Longrightarrow> split_char x (w @ x # s) = w # split_char x s"
  by (induction w) auto

lemma split_char_word: "x \<notin> set w \<Longrightarrow> split_char x w = [w]"
  by (induction w) auto

lemma split_Join: "cs \<noteq> [] \<Longrightarrow> \<forall>c \<in> set cs. x \<notin> set c \<Longrightarrow> split_char x (Join cs [x]) = cs"
proof (induction cs)
  case Nil
  then show ?case by simp
next
  case (Cons c cs)
  then show ?case by (cases "cs = []") (simp_all add: split_char_word Join_Cons split_char_append)
qed

lemma mset_sort_eq: "mset xs = mset ys \<Longrightarrow> sort xs = sort ys"
  by (metis properties_for_sort mset_sort sorted_sort)

lemma sort_key_stable_filter:
  "filter (\<lambda>x. f x = k) (sort_key f xs) = filter (\<lambda>x. f x = k) xs"
  by (simp add: sort_key_stable)

lemma foldl_inv:
  assumes "P a" and "\<And>a x. P a \<Longrightarrow> x \<in> set xs \<Longrightarrow> P (f a x)"
  shows "P (foldl f a xs)"
  using assms by (induction xs arbitrary: a) auto

lemma fold_inv:
  assumes "P a" and "\<And>a x. P a \<Longrightarrow> x \<in> set xs \<Longrightarrow> P (f x a)"
  shows "P (fold f xs a)"
  using assms by (induction xs arbitrary: a) auto

section \<open>Sorting by a comparison\<close>

text \<open>
  \<open>sort.Slice\<close> with a comparison function. Where the comparison is a strict total order on the elements the
  result is the only sorted arrangement, so the choice of algorithm does not matter.
\<close>

fun insort_slice :: "('a \<Rightarrow> 'a \<Rightarrow> bool) \<Rightarrow> 'a \<Rightarrow> 'a list \<Rightarrow> 'a list" where
  "insort_slice lt x [] = [x]"
| "insort_slice lt x (y # ys) = (if lt y x then y # insort_slice lt x ys else x # y # ys)"

definition sort_slice :: "('a \<Rightarrow> 'a \<Rightarrow> bool) \<Rightarrow> 'a list \<Rightarrow> 'a list" where
  "sort_slice lt xs = foldr (insort_slice lt) xs []"

definition strict_total_on :: "'a set \<Rightarrow> ('a \<Rightarrow> 'a \<Rightarrow> bool) \<Rightarrow> bool" where
  "strict_total_on A lt \<longleftrightarrow> (\<forall>x \<in> A. \<not> lt x x) \<and> (\<forall>x \<in> A. \<forall>y \<in> A. \<forall>z \<in> A. lt x y \<longrightarrow> lt y z \<longrightarrow> lt x z) \<and>
     (\<forall>x \<in> A. \<forall>y \<in> A. x \<noteq> y \<longrightarrow> lt x y \<or> lt y x)"

lemma mset_insort_slice [simp]: "mset (insort_slice lt x xs) = add_mset x (mset xs)"
  by (induction xs) auto

lemma mset_sort_slice [simp]: "mset (sort_slice lt xs) = mset xs"
  by (induction xs) (simp_all add: sort_slice_def)

lemma set_sort_slice [simp]: "set (sort_slice lt xs) = set xs"
  by (metis mset_sort_slice set_mset_mset)

lemma length_sort_slice [simp]: "length (sort_slice lt xs) = length xs"
  by (metis mset_sort_slice size_mset)

lemma distinct_sort_slice [simp]: "distinct (sort_slice lt xs) \<longleftrightarrow> distinct xs"
  by (metis mset_sort_slice mset_eq_imp_distinct_iff)

lemma set_insort_slice [simp]: "set (insort_slice lt x xs) = insert x (set xs)"
  by (metis mset_insort_slice set_mset_add_mset_insert set_mset_mset)

lemma strict_total_on_subset: "strict_total_on A lt \<Longrightarrow> B \<subseteq> A \<Longrightarrow> strict_total_on B lt"
  unfolding strict_total_on_def by blast

lemma sorted_insort_slice:
  "strict_total_on (insert x (set xs)) lt \<Longrightarrow> x \<notin> set xs \<Longrightarrow> sorted_wrt lt xs \<Longrightarrow> sorted_wrt lt (insort_slice lt x xs)"
proof (induction xs)
  case (Cons y ys)
  have "strict_total_on (insert x (set ys)) lt" by (rule strict_total_on_subset [OF Cons.prems(1)]) auto
  then have IH: "sorted_wrt lt (insort_slice lt x ys)" using Cons by simp
  show ?case
  proof (cases "lt y x")
    case True
    then show ?thesis using IH Cons.prems by simp
  next
    case False
    then have "lt x y" using Cons.prems(1,2) by (auto simp: strict_total_on_def)
    moreover have "lt x z" if "z \<in> set ys" for z
    proof -
      have "lt y z" using that Cons.prems(3) by simp
      then show ?thesis using \<open>lt x y\<close> Cons.prems(1) that unfolding strict_total_on_def
        by (meson insertI1 insertI2 list.set_intros)
    qed
    ultimately show ?thesis using False Cons.prems(3) by simp
  qed
qed simp

lemma sorted_sort_slice: "strict_total_on (set xs) lt \<Longrightarrow> distinct xs \<Longrightarrow> sorted_wrt lt (sort_slice lt xs)"
proof (induction xs)
  case (Cons x xs)
  have "strict_total_on (set xs) lt" by (rule strict_total_on_subset [OF Cons.prems(1)]) auto
  then have "sorted_wrt lt (sort_slice lt xs)" using Cons by simp
  moreover have "strict_total_on (insert x (set (sort_slice lt xs))) lt" "x \<notin> set (sort_slice lt xs)"
    using Cons.prems by simp_all
  ultimately have "sorted_wrt lt (insort_slice lt x (sort_slice lt xs))" by (rule sorted_insort_slice [rotated 2])
  then show ?case by (simp add: sort_slice_def)
qed (simp add: sort_slice_def)

lemma sorted_wrt_unique:
  assumes "strict_total_on (set xs) lt" and "sorted_wrt lt xs" and "sorted_wrt lt ys" and "set xs = set ys"
  shows "xs = ys"
  using assms
proof (induction xs arbitrary: ys)
  case (Cons x xs)
  then obtain y ys' where ys: "ys = y # ys'" by (cases ys) auto
  have irr: "\<not> lt u v \<or> \<not> lt v u" "\<not> lt u u" if "u \<in> set (x # xs)" "v \<in> set (x # xs)" for u v
    using Cons.prems(1) that unfolding strict_total_on_def by blast+
  have "x = y"
  proof (rule ccontr)
    assume "x \<noteq> y"
    then have "lt x y" "lt y x" using Cons.prems(2-4) ys by auto
    then show False using irr [of x y] Cons.prems(4) ys by auto
  qed
  moreover have "x \<notin> set xs" using Cons.prems(2) irr(2) [of x] by auto
  moreover have "y \<notin> set ys'" using Cons.prems(3) ys irr(2) [of x] \<open>x = y\<close> by auto
  ultimately have "set xs = set ys'" using Cons.prems(4) ys by auto
  moreover have "strict_total_on (set xs) lt" using strict_total_on_subset [OF Cons.prems(1)] by auto
  ultimately show ?case using Cons.IH [of ys'] Cons.prems(2,3) ys \<open>x = y\<close> by simp
qed simp

lemma filter_sort_slice:
  assumes "strict_total_on (set xs) lt" and "distinct xs"
  shows "filter P (sort_slice lt xs) = sort_slice lt (filter P xs)"
proof (rule sorted_wrt_unique)
  show "strict_total_on (set (filter P (sort_slice lt xs))) lt" by (rule strict_total_on_subset [OF assms(1)]) auto
  show "sorted_wrt lt (filter P (sort_slice lt xs))" by (simp add: sorted_sort_slice assms sorted_wrt_filter)
  have "strict_total_on (set (filter P xs)) lt" by (rule strict_total_on_subset [OF assms(1)]) auto
  then show "sorted_wrt lt (sort_slice lt (filter P xs))" by (simp add: sorted_sort_slice assms)
qed simp

lemma sort_slice_cong:
  assumes "strict_total_on (set xs) lt" and "distinct xs" and "distinct ys" and "set xs = set ys"
  shows "sort_slice lt xs = sort_slice lt ys"
proof (rule sorted_wrt_unique)
  show "sorted_wrt lt (sort_slice lt xs)" "sorted_wrt lt (sort_slice lt ys)"
    using assms by (simp_all add: sorted_sort_slice)
qed (use assms in simp_all)

text \<open>Removing an element beyond the first \<open>n\<close> leaves them, removing one of them keeps the others in place.\<close>

lemma take_filter_prefix: "prefix (filter P (take n xs)) (take n (filter P xs))"
proof -
  have "filter P xs = filter P (take n xs) @ filter P (drop n xs)" by (metis append_take_drop_id filter_append)
  moreover have "length (filter P (take n xs)) \<le> n" by (metis dual_order.trans length_filter_le length_take min.cobounded2)
  ultimately show ?thesis by (simp add: take_append prefix_def)
qed

lemma take_filter_id:
  assumes "\<forall>x \<in> set (take n xs). P x"
  shows "take n (filter P xs) = take n xs"
proof -
  have f: "filter P (take n xs) = take n xs" using assms by simp
  have "filter P xs = take n xs @ filter P (drop n xs)" by (metis f append_take_drop_id filter_append)
  then show ?thesis by (cases "n \<le> length xs") simp_all
qed

section \<open>Texts that trimming leaves alone\<close>

definition graphic :: "char \<Rightarrow> bool" where
  "graphic c \<longleftrightarrow> 32 < byte_val c \<and> byte_val c < 127"

lemma space_len_graphic: "graphic c \<Longrightarrow> space_len (c # cs) = 0"
proof -
  assume "graphic c"
  then have "\<forall>p \<in> set space_encodings. \<not> starts_with (c # cs) p"
    by (auto simp: space_encodings_def starts_with_def graphic_def byte_val_def)
  then show ?thesis by (simp add: space_len_def find_None_iff split: option.split) (metis find_Some_iff nth_mem option.exhaust)
qed

lemma rspace_len_graphic: "graphic c \<Longrightarrow> rspace_len (c # cs) = 0"
proof -
  assume "graphic c"
  then have "\<forall>p \<in> set (map rev space_encodings). \<not> starts_with (c # cs) p"
    by (auto simp: space_encodings_def starts_with_def graphic_def byte_val_def)
  then have "find (starts_with (c # cs)) (map rev space_encodings) = None" unfolding find_None_iff by blast
  then show ?thesis by (simp add: rspace_len_def)
qed

lemma TrimSpace_graphic:
  assumes "s \<noteq> []" and "graphic (hd s)" and "graphic (last s)"
  shows "TrimSpace s = s"
proof -
  obtain c cs where s: "s = c # cs" using assms(1) by (cases s) auto
  obtain d ds where r: "rev s = d # ds" using assms(1) by (cases "rev s") auto
  have "d = last s" using r by (metis last_rev list.sel(1) rev_rev_ident hd_rev)
  then have "rspace_len (d # ds) = 0" using assms(3) rspace_len_graphic by simp
  then have "trim_with rspace_len (rev s) = rev s" unfolding r by simp
  moreover have "trim_with space_len s = s" using assms(2) s space_len_graphic by simp
  ultimately show ?thesis by (simp add: TrimSpace_def)
qed

lemma TrimSpace_space: "TrimSpace (CHR 0x20 # s) = TrimSpace s"
proof -
  have "space_len (CHR 0x20 # s) = Suc 0" by (simp add: space_len_def space_encodings_def starts_with_def)
  then show ?thesis by (simp add: TrimSpace_def)
qed


end
