(* ===== verification/Go_Time.thy ===== *)
theory Go_Time
  imports Go_Prelude
begin

text \<open>
  The parts of package \<open>time\<close> the sources use. A \<open>time.Time\<close> is an instant: the nanoseconds since
  0001-01-01T00:00:00Z, Go's zero time, so that \<open>IsZero\<close> is equality with 0 and \<open>Before\<close>, \<open>After\<close>
  and \<open>Equal\<close> are the order of the integers. Locations and the monotonic reading are left out: the
  sources compare instants and convert to UTC before formatting. A \<open>time.Duration\<close> is a number of
  nanoseconds.
\<close>

type_synonym time = int
type_synonym duration = int

section \<open>Instants\<close>

definition second :: duration where "second = 1000000000"
definition minute :: duration where "minute = 60 * second"
definition hour :: duration where "hour = 60 * minute"
definition day :: duration where "day = 24 * hour"
definition millisecond :: duration where "millisecond = 1000000"

definition IsZero :: "time \<Rightarrow> bool" where
  "IsZero t \<longleftrightarrow> t = 0"

text \<open>\<open>t.Sub(u)\<close> saturates at the range of an int64.\<close>

definition time_sub :: "time \<Rightarrow> time \<Rightarrow> duration" where
  "time_sub t u = max min_int64 (min max_int64 (t - u))"

text \<open>Seconds from the zero time to the Unix epoch.\<close>

definition unix_epoch :: int where "unix_epoch = 62135596800"

definition Unix :: "time \<Rightarrow> int" where
  "Unix t = t div second - unix_epoch"

definition time_Unix :: "int \<Rightarrow> int \<Rightarrow> time" where
  "time_Unix sec nsec = (sec + unix_epoch) * second + nsec"

text \<open>Go's integer division truncates towards zero.\<close>

definition quot :: "int \<Rightarrow> int \<Rightarrow> int" where
  "quot a b = sgn a * sgn b * (\<bar>a\<bar> div \<bar>b\<bar>)"

fun floor_log2 :: "nat \<Rightarrow> nat" where
  "floor_log2 n = (if n \<le> 1 then 0 else Suc (floor_log2 (n div 2)))"

declare floor_log2.simps [simp del]

text \<open>
  \<open>int64(d.Seconds())\<close>. \<open>Seconds\<close> returns the float64 nearest to the seconds and the fraction, which is the
  next whole second when what is missing to it is less than half a unit in the last of 53 binary places; no
  duration is exactly between two floats.
\<close>

definition seconds_int64 :: "duration \<Rightarrow> int" where
  "seconds_int64 d = (let a = \<bar>d\<bar>; sec = a div second; nsec = a mod second;
      r = (if 0 < sec \<and> (second - nsec) * 2 ^ 53 < second * 2 ^ floor_log2 (nat sec) then sec + 1 else sec)
    in if d < 0 then - r else r)"

section \<open>The calendar\<close>

text \<open>
  Year, month and day of a day number (0 is 0001-01-01), in the proleptic Gregorian calendar: the
  day is located in its 400-year era, which starts on a first of March, then in its century, its
  four-year cycle and its year, as package \<open>time\<close> does.
\<close>

definition cycle_century :: "int \<Rightarrow> int" where
  "cycle_century doe = min 3 (doe div 36524)"

definition cycle_four :: "int \<Rightarrow> int" where
  "cycle_four doc = doc div 1461"

definition cycle_one :: "int \<Rightarrow> int" where
  "cycle_one dof = min 3 (dof div 365)"

definition civil_yoe :: "int \<Rightarrow> int" where
  "civil_yoe doe = (let n100 = cycle_century doe; doc = doe - 36524 * n100;
      n4 = cycle_four doc; dof = doc - 1461 * n4
    in 100 * n100 + 4 * n4 + cycle_one dof)"

definition civil_doy :: "int \<Rightarrow> int" where
  "civil_doy doe = (let doc = doe - 36524 * cycle_century doe; dof = doc - 1461 * cycle_four doc
    in dof - 365 * cycle_one dof)"

definition civil :: "int \<Rightarrow> int \<times> int \<times> int" where
  "civil d = (let z = d + 306; era = z div 146097; doe = z mod 146097;
      doy = civil_doy doe; mp = (5 * doy + 2) div 153;
      m = (if mp < 10 then mp + 3 else mp - 9)
    in (civil_yoe doe + era * 400 + (if m \<le> 2 then 1 else 0), m, doy - (153 * mp + 2) div 5 + 1))"

definition days_of_civil :: "int \<times> int \<times> int \<Rightarrow> int" where
  "days_of_civil = (\<lambda>(y, m, d). let y' = (if m \<le> 2 then y - 1 else y);
      era = y' div 400; yoe = y' mod 400; mp = (if m > 2 then m - 3 else m + 9);
      doy = (153 * mp + 2) div 5 + d - 1
    in era * 146097 + yoe * 365 + yoe div 4 - yoe div 100 + doy - 306)"

section \<open>Formatting\<close>

text \<open>The year field, four digits wide, and the two-digit fields.\<close>

definition fmt_year :: "int \<Rightarrow> string" where
  "fmt_year y = (if y < 0 then CHR ''-'' # pad 4 (nat (- y)) else pad 4 (nat y))"

definition time_days :: "time \<Rightarrow> int" where "time_days t = t div day"
definition time_hour :: "time \<Rightarrow> int" where "time_hour t = t mod day div hour"
definition time_minute :: "time \<Rightarrow> int" where "time_minute t = t mod hour div minute"
definition time_second :: "time \<Rightarrow> int" where "time_second t = t mod minute div second"
definition time_nanos :: "time \<Rightarrow> int" where "time_nanos t = t mod second"

text \<open>Layout \<open>2006-01-02\<close>, with the given separator between the fields.\<close>

definition fmt_date :: "string \<Rightarrow> time \<Rightarrow> string" where
  "fmt_date sep t = (case civil (time_days t) of (y, m, d) \<Rightarrow>
     fmt_year y @ sep @ pad 2 (nat m) @ sep @ pad 2 (nat d))"

text \<open>Layout \<open>15\<close>.\<close>

definition fmt_hour :: "time \<Rightarrow> string" where
  "fmt_hour t = pad 2 (nat (time_hour t))"

text \<open>Layout \<open>15:04:05\<close>, with the given separator.\<close>

definition fmt_clock :: "string \<Rightarrow> time \<Rightarrow> string" where
  "fmt_clock sep t = fmt_hour t @ sep @ pad 2 (nat (time_minute t)) @ sep @ pad 2 (nat (time_second t))"

text \<open>\<open>time.RFC3339Nano\<close> of a UTC instant: trailing zeros of the fraction are dropped.\<close>

definition fmt_RFC3339Nano :: "time \<Rightarrow> string" where
  "fmt_RFC3339Nano t = fmt_date ''-'' t @ ''T'' @ fmt_clock '':'' t @
     (let f = TrimRightChars (pad 9 (nat (time_nanos t))) ''0'' in if f = [] then [] else CHR ''.'' # f) @ ''Z''"

definition fmt_RFC3339 :: "time \<Rightarrow> string" where
  "fmt_RFC3339 t = fmt_date ''-'' t @ ''T'' @ fmt_clock '':'' t @ ''Z''"

text \<open>Layout \<open>20060102T150405.000000000Z\<close>.\<close>

definition fmt_compact :: "time \<Rightarrow> string" where
  "fmt_compact t = fmt_date [] t @ ''T'' @ fmt_clock [] t @ ''.'' @ pad 9 (nat (time_nanos t)) @ ''Z''"

lemmas time_units = second_def minute_def hour_def day_def

lemma floor_log2_less: "n < 2 ^ Suc k \<Longrightarrow> floor_log2 n \<le> k"
proof (induction k arbitrary: n)
  case 0
  then show ?case by (simp add: floor_log2.simps [of n])
next
  case (Suc k)
  then have "n div 2 < 2 ^ Suc k" by simp
  then show ?case using Suc.IH by (simp add: floor_log2.simps [of n])
qed

text \<open>Whole seconds and durations below a second convert exactly.\<close>

lemma seconds_int64_whole:
  assumes "0 \<le> n" and "n < 2 ^ 53"
  shows "seconds_int64 (n * second) = n"
proof -
  have "nat n < 2 ^ Suc 52" using assms by simp
  then have "floor_log2 (nat n) \<le> 52" by (rule floor_log2_less)
  then have "(2 :: int) ^ floor_log2 (nat n) \<le> 2 ^ 52" by (intro power_increasing) simp_all
  then show ?thesis using assms by (simp add: seconds_int64_def second_def Let_def)
qed

lemma seconds_int64_below: "0 \<le> d \<Longrightarrow> d < second \<Longrightarrow> seconds_int64 d = 0"
  by (simp add: seconds_int64_def second_def)

section \<open>Day numbers and dates correspond\<close>

lemma civil_parts:
  assumes "0 \<le> doe" and "doe < 146097"
  shows "0 \<le> civil_yoe doe" and "civil_yoe doe < 400"
    and "0 \<le> civil_doy doe" and "civil_doy doe < 366"
    and "doe = 365 * civil_yoe doe + civil_yoe doe div 4 - civil_yoe doe div 100 + civil_doy doe"
proof -
  define n100 where "n100 = cycle_century doe"
  define doc where "doc = doe - 36524 * n100"
  define n4 where "n4 = cycle_four doc"
  define dof where "dof = doc - 1461 * n4"
  define n1 where "n1 = cycle_one dof"
  have a: "0 \<le> n100" "n100 \<le> 3" "0 \<le> doc" "doc \<le> 36524"
    using assms unfolding n100_def doc_def cycle_century_def by auto
  have b: "0 \<le> n4" "n4 \<le> 24" "0 \<le> dof" "dof \<le> 1460"
    using a unfolding n4_def dof_def cycle_four_def by auto
  have c: "0 \<le> n1" "n1 \<le> 3" "0 \<le> dof - 365 * n1" "dof - 365 * n1 \<le> 365"
    using b unfolding n1_def cycle_one_def by auto
  have y: "civil_yoe doe = 100 * n100 + 4 * n4 + n1"
    by (simp add: civil_yoe_def Let_def n100_def doc_def n4_def dof_def n1_def)
  have d: "civil_doy doe = dof - 365 * n1"
    by (simp add: civil_doy_def Let_def n100_def doc_def n4_def dof_def n1_def)
  have q: "civil_yoe doe div 100 = n100" "civil_yoe doe div 4 = 25 * n100 + n4"
    using b c unfolding y by auto
  show "0 \<le> civil_yoe doe" "civil_yoe doe < 400" using a b c unfolding y by auto
  show "0 \<le> civil_doy doe" "civil_doy doe < 366" using c unfolding d by auto
  show "doe = 365 * civil_yoe doe + civil_yoe doe div 4 - civil_yoe doe div 100 + civil_doy doe"
    unfolding q unfolding y d by (simp add: dof_def doc_def)
qed

lemma month_range:
  fixes doy :: int
  assumes "0 \<le> doy" and "doy < 366"
  shows "0 \<le> (5 * doy + 2) div 153" and "(5 * doy + 2) div 153 < 12"
    and "0 \<le> doy - (153 * ((5 * doy + 2) div 153) + 2) div 5"
  using assms by auto

lemma days_of_civil_civil: "days_of_civil (civil d) = d"
proof -
  define z where "z = d + 306"
  define era where "era = z div 146097"
  define doe where "doe = z mod 146097"
  define yoe where "yoe = civil_yoe doe"
  define doy where "doy = civil_doy doe"
  define mp where "mp = (5 * doy + 2) div 153"
  have r: "0 \<le> doe" "doe < 146097" by (simp_all add: doe_def)
  note parts = civil_parts [OF r, folded yoe_def doy_def]
  have m: "0 \<le> mp" "mp < 12" using month_range [OF parts(3,4)] by (simp_all add: mp_def)
  have z: "d = era * 146097 + doe - 306" by (simp add: era_def doe_def z_def)
  have e: "(yoe + era * 400) div 400 = era" "(yoe + era * 400) mod 400 = yoe"
    using parts(1,2) by simp_all
  have c: "civil d = (yoe + era * 400 + (if (if mp < 10 then mp + 3 else mp - 9) \<le> 2 then 1 else 0),
      (if mp < 10 then mp + 3 else mp - 9), doy - (153 * mp + 2) div 5 + 1)"
    by (simp add: civil_def Let_def z_def era_def doe_def yoe_def doy_def mp_def)
  have "days_of_civil (civil d) = era * 146097 + (yoe * 365 + yoe div 4 - yoe div 100 + doy) - 306"
  proof (cases "mp < 10")
    case True
    then show ?thesis using m e by (simp add: c days_of_civil_def Let_def)
  next
    case False
    then show ?thesis using m e by (simp add: c days_of_civil_def Let_def)
  qed
  then show ?thesis using z parts(5) by simp
qed

lemma civil_inj [simp]: "civil a = civil b \<longleftrightarrow> a = b"
  by (metis days_of_civil_civil)

lemma civil_month_day_pos:
  assumes "civil d = (y, m, dd)"
  shows "0 < m" and "0 < dd"
proof -
  define doe where "doe = (d + 306) mod 146097"
  have r: "0 \<le> doe" "doe < 146097" by (simp_all add: doe_def)
  note mr = month_range [OF civil_parts(3,4) [OF r]]
  show "0 < m" "0 < dd"
    using assms mr unfolding civil_def Let_def doe_def [symmetric]
    by (auto split: if_splits)
qed

section \<open>Formatted dates are unambiguous\<close>

lemma digits_sep_eq:
  assumes "list_all is_digit a" and "list_all is_digit b" and "\<not> is_digit x"
  shows "a @ x # r = b @ x # s \<longleftrightarrow> a = b \<and> r = s"
  using assms by (intro sep_append_eq) (auto simp: list_all_iff)

lemma fmt_year_sep_eq:
  "fmt_year y @ CHR ''-'' # r = fmt_year z @ CHR ''-'' # s \<longleftrightarrow> y = z \<and> r = s"
proof -
  have hd: "pad 4 n @ u \<noteq> CHR ''-'' # v" for n u v
  proof
    assume e: "pad 4 n @ u = CHR ''-'' # v"
    have "pad 4 n \<noteq> []" by (simp add: pad_def Let_def)
    then obtain c cs where "pad 4 n = c # cs" by (cases "pad 4 n") auto
    with e pad_digits [of 4 n] show False by simp
  qed
  consider "y < 0" "z < 0" | "y < 0" "0 \<le> z" | "0 \<le> y" "z < 0" | "0 \<le> y" "0 \<le> z"
    by linarith
  then show ?thesis
  proof cases
    case 1
    then show ?thesis by (simp add: fmt_year_def digits_sep_eq pad_digits eq_nat_nat_iff)
  next
    case 2
    then show ?thesis using hd [of "nat z" "CHR ''-'' # s", symmetric] by (simp add: fmt_year_def)
  next
    case 3
    then show ?thesis using hd [of "nat y" "CHR ''-'' # r"] by (simp add: fmt_year_def)
  next
    case 4
    then show ?thesis by (simp add: fmt_year_def digits_sep_eq pad_digits eq_nat_nat_iff)
  qed
qed

lemma fmt_date_hour_inj:
  assumes "fmt_date ''-'' t @ CHR ''/'' # fmt_hour t = fmt_date ''-'' u @ CHR ''/'' # fmt_hour u"
  shows "t div hour = u div hour"
proof -
  obtain y m d where t: "civil (time_days t) = (y, m, d)" by (cases "civil (time_days t)") auto
  obtain y' m' d' where u: "civil (time_days u) = (y', m', d')" by (cases "civil (time_days u)") auto
  have sl: "\<not> is_digit CHR ''/''" by (simp add: is_digit_def byte_val_def)
  note p = civil_month_day_pos [OF t] civil_month_day_pos [OF u]
  have "y = y'" and "nat m = nat m'" and "nat d = nat d'" and h: "nat (time_hour t) = nat (time_hour u)"
    using assms by (simp_all add: fmt_date_def t u fmt_year_sep_eq digits_sep_eq pad_digits sl fmt_hour_def)
  then have "civil (time_days t) = civil (time_days u)"
    using p t u by (simp add: eq_nat_nat_iff)
  then have dd: "t div day = u div day" by (simp add: time_days_def)
  have hh: "t mod day div hour = u mod day div hour"
    using h by (simp add: time_hour_def time_units eq_nat_nat_iff pos_imp_zdiv_nonneg_iff)
  have "x div hour = 24 * (x div day) + x mod day div hour" for x :: int
  proof -
    have "hour * 24 = day" by (simp add: time_units)
    then have "hour * (24 * (x div day)) + x mod day = x"
      using mult_div_mod_eq [of day x] by (simp add: mult.assoc [symmetric])
    moreover have "(hour * (24 * (x div day)) + x mod day) div hour = 24 * (x div day) + x mod day div hour"
      by (rule div_mult_self4) (simp add: time_units)
    ultimately show ?thesis by simp
  qed
  then show ?thesis using dd hh by metis
qed

end
