(* ===== verification/Core_Model.thy ===== *)
theory Core_Model
  imports Go_Time
begin

text \<open>
  Package \<open>internal/core/model\<close>: events, tenants, pipelines and queries, their validation, the
  stream key that identifies a log stream, and the query cursor. An \<open>error\<close> result is an option:
  \<open>None\<close> is \<open>nil\<close>. The field prefixes (\<open>st_\<close>, \<open>pl_\<close>, \<open>t_\<close>, \<open>q_\<close>, \<open>r_\<close>, \<open>tail_\<close>) keep the fields of
  different structs apart.
\<close>

section \<open>Data\<close>

record event =
  Timestamp :: time
  TenantID :: string
  StreamLabels :: strmap
  Body :: string
  Severity :: string
  ResourceAttrs :: strmap
  LogAttrs :: strmap
  ParsedFields :: strmap
  TraceID :: string
  SpanID :: string

text \<open>The zero value \<open>model.Event{}\<close>.\<close>

definition zero_event :: event where
  "zero_event = \<lparr>Timestamp = 0, TenantID = [], StreamLabels = [], Body = [], Severity = [],
     ResourceAttrs = [], LogAttrs = [], ParsedFields = [], TraceID = [], SpanID = []\<rparr>"

record pipeline_stage =
  st_Name :: string
  st_Type :: string
  st_Config :: strmap

record parse_pipeline =
  pl_ID :: string
  pl_Description :: string
  pl_Stages :: "pipeline_stage list"

record parse_stats =
  StageErrors :: "(string, nat) gomap"
  DroppedEvents :: nat

record tenant_limits =
  IngestRateMBPerSecond :: int
  QueryConcurrency :: int
  MaxLabelsPerStream :: int
  MaxBodyBytes :: int
  MaxParsedFields :: int
  MaxFieldValueBytes :: int
  RetentionClass :: string
  Retention :: duration

record tenant_config =
  t_ID :: string
  t_Name :: string
  t_Version :: int
  t_UpdatedAt :: time
  t_Protected :: bool
  t_LegalHoldUntil :: time
  t_SearchableFields :: "string list"
  t_ReservedLabels :: "string list"
  t_LabelPromotionAllow :: "string list"
  t_LabelPromotionDeny :: "string list"
  t_StructuredFieldPolicy :: strmap
  t_Pipelines :: "parse_pipeline list"
  t_ActivePipelineID :: string
  t_Limits :: tenant_limits

record query_request =
  q_TenantID :: string
  q_LabelSelectors :: strmap
  q_FieldPredicates :: strmap
  q_TextContains :: string
  q_TextRegex :: string
  q_Start :: time
  q_End :: time
  q_Limit :: int
  q_Cursor :: string
  q_Tail :: bool
  q_PartitionKey :: string

record tail_request =
  tail_TenantID :: string
  tail_LabelSelectors :: strmap
  tail_FieldPredicates :: strmap
  tail_Limit :: int
  tail_Since :: time

record query_stats =
  CandidateStreams :: nat
  CandidateChunks :: nat
  ScannedEvents :: nat

record query_result =
  r_Events :: "event list"
  r_Scanned :: nat
  r_Matched :: nat
  r_Partial :: bool
  r_NextCursor :: string
  r_Stats :: query_stats

record plan_node =
  n_Type :: string
  n_Description :: string
  n_Inputs :: nat
  n_Outputs :: nat

record query_fragment =
  fr_PartitionKey :: string
  fr_ChunkCount :: nat

record query_plan =
  p_Request :: query_request
  p_Fragments :: "query_fragment list"
  p_Nodes :: "plan_node list"
  p_CandidateStreams :: nat
  p_CandidateChunks :: nat
  p_EstimatedCost :: nat
  p_Partial :: bool

definition zero_result :: query_result where
  "zero_result = \<lparr>r_Events = [], r_Scanned = 0, r_Matched = 0, r_Partial = False, r_NextCursor = [],
     r_Stats = \<lparr>CandidateStreams = 0, CandidateChunks = 0, ScannedEvents = 0\<rparr>\<rparr>"

section \<open>Events\<close>

text \<open>The loop of \<open>Event.Validate\<close> over the stream labels.\<close>

fun validate_labels :: "strmap \<Rightarrow> goerror option" where
  "validate_labels [] = None"
| "validate_labels ((k, v) # m) =
     (if TrimSpace k = [] then Some (Errorf ''stream label key is required'' [])
      else if TrimSpace v = [] then Some (Errorf ''stream label %q value is required'' [k])
      else validate_labels m)"

definition Event_Validate :: "event \<Rightarrow> goerror option" where
  "Event_Validate e =
     (if IsZero (Timestamp e) then Some (Errorf ''timestamp is required'' [])
      else if TrimSpace (TenantID e) = [] then Some (Errorf ''tenant_id is required'' [])
      else if TrimSpace (Body e) = [] then Some (Errorf ''body is required'' [])
      else validate_labels (StreamLabels e))"

text \<open>The loops of \<open>ValidateWithLimits\<close> over the values of a map.\<close>

fun value_too_long :: "string \<Rightarrow> int \<Rightarrow> strmap \<Rightarrow> goerror option" where
  "value_too_long f lim [] = None"
| "value_too_long f lim ((k, v) # m) =
     (if int (length v) > lim
      then Some (Errorf f [k, show_nat (length v), show_int lim])
      else value_too_long f lim m)"

definition ValidateWithLimits :: "event \<Rightarrow> tenant_limits \<Rightarrow> goerror option" where
  "ValidateWithLimits e lim =
    (case Event_Validate e of Some err \<Rightarrow> Some err | None \<Rightarrow>
     if MaxLabelsPerStream lim > 0 \<and> int (length (StreamLabels e)) > MaxLabelsPerStream lim
     then Some (Errorf ''stream label count %d exceeds limit %d''
            [show_nat (length (StreamLabels e)), show_int (MaxLabelsPerStream lim)])
     else if MaxBodyBytes lim > 0 \<and> int (length (Body e)) > MaxBodyBytes lim
     then Some (Errorf ''body size %d exceeds limit %d''
            [show_nat (length (Body e)), show_int (MaxBodyBytes lim)])
     else if MaxParsedFields lim > 0 \<and> int (length (ParsedFields e)) > MaxParsedFields lim
     then Some (Errorf ''parsed field count %d exceeds limit %d''
            [show_nat (length (ParsedFields e)), show_int (MaxParsedFields lim)])
     else if MaxFieldValueBytes lim > 0 then
       (case value_too_long ''stream label %q value size %d exceeds limit %d''
               (MaxFieldValueBytes lim) (StreamLabels e) of
          Some err \<Rightarrow> Some err
        | None \<Rightarrow> value_too_long ''parsed field %q value size %d exceeds limit %d''
               (MaxFieldValueBytes lim) (ParsedFields e))
     else None)"

definition StreamKey :: "event \<Rightarrow> string" where
  "StreamKey e =
     (if StreamLabels e = [] then TenantID e
      else Join (TenantID e #
        map (\<lambda>k. k @ ''='' @ mget (StreamLabels e) k) (sort (map fst (StreamLabels e)))) ''|'')"

text \<open>
  \<open>cloneMap\<close> copies into a fresh map, which a value model does not distinguish from the original;
  only the nil map becomes an empty one, and both are the empty list.
\<close>

definition cloneMap :: "strmap \<Rightarrow> strmap" where
  "cloneMap m = (if m = [] then [] else fold (\<lambda>(k, v) out. AList.update k v out) m [])"

definition Event_Clone :: "event \<Rightarrow> event" where
  "Event_Clone e = \<lparr>Timestamp = Timestamp e, TenantID = TenantID e,
     StreamLabels = cloneMap (StreamLabels e), Body = Body e, Severity = Severity e,
     ResourceAttrs = cloneMap (ResourceAttrs e), LogAttrs = cloneMap (LogAttrs e),
     ParsedFields = cloneMap (ParsedFields e), TraceID = TraceID e, SpanID = SpanID e\<rparr>"

text \<open>The maps of an event are maps: no key occurs twice.\<close>

definition wf_event :: "event \<Rightarrow> bool" where
  "wf_event e \<longleftrightarrow> wf_map (StreamLabels e) \<and> wf_map (ResourceAttrs e) \<and> wf_map (LogAttrs e)
     \<and> wf_map (ParsedFields e)"

section \<open>Tenants and queries\<close>

definition TenantConfig_Validate :: "tenant_config \<Rightarrow> goerror option" where
  "TenantConfig_Validate t =
     (if TrimSpace (t_ID t) = [] then Some (Errorf ''tenant id is required'' [])
      else if TrimSpace (t_Name t) = [] then Some (Errorf ''tenant name is required'' [])
      else if MaxLabelsPerStream (t_Limits t) \<le> 0 then Some (Errorf ''max_labels_per_stream must be positive'' [])
      else if MaxBodyBytes (t_Limits t) \<le> 0 then Some (Errorf ''max_body_bytes must be positive'' [])
      else if MaxParsedFields (t_Limits t) \<le> 0 then Some (Errorf ''max_parsed_fields must be positive'' [])
      else if MaxFieldValueBytes (t_Limits t) \<le> 0 then Some (Errorf ''max_field_value_bytes must be positive'' [])
      else if Retention (t_Limits t) \<le> 0 then Some (Errorf ''retention must be positive'' [])
      else None)"

definition Query_Validate :: "query_request \<Rightarrow> goerror option" where
  "Query_Validate q =
     (if q_TenantID q = [] then Some (Errorf ''tenant_id is required'' [])
      else if IsZero (q_Start q) \<or> IsZero (q_End q) then Some (Errorf ''start and end are required'' [])
      else if q_End q < q_Start q then Some (Errorf ''end must be after start'' [])
      else if q_Limit q < 0 then Some (Errorf ''limit must be non-negative'' [])
      else None)"

definition CursorOffset :: "query_request \<Rightarrow> nat result" where
  "CursorOffset q =
     (if q_Cursor q = [] then Inr 0
      else case Atoi (q_Cursor q) of
          None \<Rightarrow> Inl (Errorf ''cursor must be a non-negative integer offset'' [])
        | Some n \<Rightarrow> if n < 0 then Inl (Errorf ''cursor must be a non-negative integer offset'' [])
                    else Inr (nat n))"

section \<open>Lemmas\<close>

lemma fold_update_fresh:
  "distinct (map fst m) \<Longrightarrow> fst ` set m \<inter> fst ` set acc = {} \<Longrightarrow>
   fold (\<lambda>(k, v) out. AList.update k v out) m acc = acc @ m"
proof (induction m arbitrary: acc)
  case Nil
  then show ?case by simp
next
  case (Cons kv m)
  obtain k v where kv: "kv = (k, v)" by (cases kv)
  have "AList.update k v acc = acc @ [(k, v)]"
    using Cons.prems(2) kv by (induction acc) auto
  then show ?case using Cons kv by auto
qed

lemma cloneMap_id [simp]: "wf_map m \<Longrightarrow> cloneMap m = m"
  using fold_update_fresh [of m "[]"] by (simp add: cloneMap_def wf_map_def)

lemma wf_cloneMap [simp, intro]: "wf_map (cloneMap m)"
proof -
  have "wf_map (fold (\<lambda>(k, v) out. AList.update k v out) m [])"
    by (rule fold_inv [where P = wf_map]) (simp_all split: prod.splits)
  then show ?thesis by (simp add: cloneMap_def)
qed

lemma Clone_id [simp]: "wf_event e \<Longrightarrow> Event_Clone e = e"
  by (simp add: Event_Clone_def wf_event_def)

lemma wf_Clone [simp, intro]: "wf_event (Event_Clone e)"
  by (simp add: Event_Clone_def wf_event_def)

lemma validate_labels_None:
  "validate_labels m = None \<longleftrightarrow> (\<forall>(k, v) \<in> set m. TrimSpace k \<noteq> [] \<and> TrimSpace v \<noteq> [])"
  by (induction m rule: validate_labels.induct) auto

lemma value_too_long_None:
  "value_too_long f lim m = None \<longleftrightarrow> (\<forall>(k, v) \<in> set m. int (length v) \<le> lim)"
  by (induction f lim m rule: value_too_long.induct) auto

lemma map_keys_mget: "wf_map m \<Longrightarrow> set m = (\<lambda>k. (k, mget m k)) ` fst ` set m"
  by (force simp: mget_in image_iff)

lemma key_value_inj:
  assumes "CHR ''='' \<notin> set k" and "CHR ''='' \<notin> set l"
  shows "k @ ''='' @ v = l @ ''='' @ w \<longleftrightarrow> k = l \<and> v = w"
  using sep_append_eq [OF assms] by simp

lemma map_key_value_inj:
  assumes "map (\<lambda>k. k @ ''='' @ f k) ks = map (\<lambda>k. k @ ''='' @ g k) ls"
    and "\<forall>k \<in> set ks \<union> set ls. CHR ''='' \<notin> set k"
  shows "(\<lambda>k. (k, f k)) ` set ks = (\<lambda>k. (k, g k)) ` set ls"
  using assms
proof (induction ks arbitrary: ls)
  case Nil
  then show ?case by simp
next
  case (Cons k ks)
  then obtain l ls' where ls: "ls = l # ls'" by (cases ls) auto
  then have "k = l \<and> f k = g l"
    using Cons.prems by (auto simp: sep_append_eq)
  then show ?case using Cons.IH [of ls'] Cons.prems ls by auto
qed

text \<open>No separator of the stream key occurs in the tenant id, the label keys or the label values.\<close>

definition separator_free :: "event \<Rightarrow> bool" where
  "separator_free e \<longleftrightarrow> CHR ''|'' \<notin> set (TenantID e) \<and>
     (\<forall>(k, v) \<in> set (StreamLabels e). CHR ''|'' \<notin> set k \<and> CHR ''='' \<notin> set k \<and> CHR ''|'' \<notin> set v)"

definition key_parts :: "event \<Rightarrow> string list" where
  "key_parts e = TenantID e #
     map (\<lambda>k. k @ ''='' @ mget (StreamLabels e) k) (sort (map fst (StreamLabels e)))"

lemma StreamKey_parts: "StreamKey e = Join (key_parts e) ''|''"
  by (simp add: StreamKey_def key_parts_def)

lemma key_parts_not_Nil: "key_parts e \<noteq> []"
  by (simp add: key_parts_def)

lemma key_parts_separator_free:
  assumes "wf_event e" and "separator_free e" and "p \<in> set (key_parts e)"
  shows "CHR ''|'' \<notin> set p"
proof -
  have "CHR ''|'' \<notin> set (k @ ''='' @ mget (StreamLabels e) k)" if k: "(k, v) \<in> set (StreamLabels e)" for k v
  proof -
    have "mget (StreamLabels e) k = v" using assms(1) k by (simp add: wf_event_def mget_in)
    then show ?thesis using assms(2) k by (auto simp: separator_free_def)
  qed
  then show ?thesis using assms(2,3) by (auto simp: key_parts_def separator_free_def)
qed

section \<open>Properties\<close>

text \<open>
  The stream key depends only on the tenant and the set of labels: whatever order a Go map
  iteration visits the labels in, events of one stream get one key.
\<close>

theorem StreamKey_iteration_order:
  assumes "TenantID e = TenantID e'" and "same_map (StreamLabels e) (StreamLabels e')"
  shows "StreamKey e = StreamKey e'"
proof -
  have "mset (map fst (StreamLabels e)) = mset (map fst (StreamLabels e'))"
    using same_map_mset [OF assms(2)] by (simp add: mset_map)
  then have "sort (map fst (StreamLabels e)) = sort (map fst (StreamLabels e'))"
    by (rule mset_sort_eq)
  moreover have "mget (StreamLabels e) k = mget (StreamLabels e') k" for k
    using assms(2) by (rule same_map_mget)
  ultimately have "key_parts e = key_parts e'" using assms(1) by (simp add: key_parts_def)
  then show ?thesis by (simp add: StreamKey_parts)
qed

theorem StreamKey_iteration_order_witness:
  "StreamKey (zero_event\<lparr>TenantID := ''t'', StreamLabels := [(''svc'', ''api''), (''env'', ''prod'')]\<rparr>)
   = StreamKey (zero_event\<lparr>TenantID := ''t'', StreamLabels := [(''env'', ''prod''), (''svc'', ''api'')]\<rparr>)"
  by (rule StreamKey_iteration_order) (auto simp: zero_event_def same_map_def wf_map_def)

text \<open>
  C18. The stream key identifies the stream: events whose tenant id, label keys and label values
  hold no separator and whose keys agree belong to the same tenant and carry the same labels.
\<close>

theorem StreamKey_identifies_stream:
  assumes "wf_event e" and "wf_event e'" and "separator_free e" and "separator_free e'"
    and "StreamKey e = StreamKey e'"
  shows "TenantID e = TenantID e' \<and> same_map (StreamLabels e) (StreamLabels e')"
proof -
  have "key_parts e = key_parts e'"
    using assms(5) unfolding StreamKey_parts
    by (intro Join_char_inj [of _ "CHR ''|''"] ballI)
      (simp_all add: key_parts_separator_free [OF assms(1,3)] key_parts_separator_free [OF assms(2,4)] key_parts_not_Nil)
  then have t: "TenantID e = TenantID e'"
    and m: "map (\<lambda>k. k @ ''='' @ mget (StreamLabels e) k) (sort (map fst (StreamLabels e))) =
            map (\<lambda>k. k @ ''='' @ mget (StreamLabels e') k) (sort (map fst (StreamLabels e')))"
    by (simp_all add: key_parts_def)
  have "set (StreamLabels e) = set (StreamLabels e')"
  proof -
    have "(\<lambda>k. (k, mget (StreamLabels e) k)) ` set (sort (map fst (StreamLabels e))) =
          (\<lambda>k. (k, mget (StreamLabels e') k)) ` set (sort (map fst (StreamLabels e')))"
      by (rule map_key_value_inj [OF m]) (use assms(3,4) in \<open>auto simp: separator_free_def\<close>)
    then show ?thesis
      using map_keys_mget [of "StreamLabels e"] map_keys_mget [of "StreamLabels e'"] assms(1,2)
      by (simp add: wf_event_def)
  qed
  then show ?thesis using t assms(1,2) by (simp add: same_map_def wf_event_def)
qed

theorem StreamKey_identifies_stream_witness:
  "same_map (StreamLabels (zero_event\<lparr>TenantID := ''t'', StreamLabels := [(''svc'', ''api''), (''env'', ''prod'')]\<rparr>))
     (StreamLabels (zero_event\<lparr>TenantID := ''t'', StreamLabels := [(''env'', ''prod''), (''svc'', ''api'')]\<rparr>))"
proof -
  let ?e = "zero_event\<lparr>TenantID := ''t'', StreamLabels := [(''svc'', ''api''), (''env'', ''prod'')]\<rparr>"
  let ?f = "zero_event\<lparr>TenantID := ''t'', StreamLabels := [(''env'', ''prod''), (''svc'', ''api'')]\<rparr>"
  have "wf_event ?e" "wf_event ?f" "separator_free ?e" "separator_free ?f"
    by (auto simp: zero_event_def wf_event_def wf_map_def separator_free_def)
  moreover have "StreamKey ?e = StreamKey ?f" by code_simp
  ultimately show ?thesis using StreamKey_identifies_stream [of ?e ?f] by blast
qed

text \<open>
  Without that restriction the key is ambiguous across tenants: two events that pass
  validation and belong to different tenants can have the same stream key.
\<close>

theorem StreamKey_tenant_collision:
  "\<exists>e e'. Event_Validate e = None \<and> Event_Validate e' = None \<and> wf_event e \<and> wf_event e' \<and>
     TenantID e \<noteq> TenantID e' \<and> StreamKey e = StreamKey e'"
proof -
  let ?e = "zero_event\<lparr>Timestamp := 1, TenantID := ''a'', Body := ''x'', StreamLabels := [(''b'', ''c'')]\<rparr>"
  let ?f = "zero_event\<lparr>Timestamp := 1, TenantID := ''a|b=c'', Body := ''x''\<rparr>"
  have "Event_Validate ?e = None" "Event_Validate ?f = None" "StreamKey ?e = StreamKey ?f"
    by code_simp+
  moreover have "wf_event ?e" "wf_event ?f" "TenantID ?e \<noteq> TenantID ?f"
    by (simp_all add: zero_event_def wf_event_def wf_map_def)
  ultimately show ?thesis by blast
qed

text \<open>
  \<open>ValidateWithLimits\<close> accepts exactly the events that are complete and within every limit
  that is switched on (a limit of 0 or less is off).
\<close>

theorem ValidateWithLimits_accepts:
  "ValidateWithLimits e lim = None \<longleftrightarrow>
     Timestamp e \<noteq> 0 \<and> TrimSpace (TenantID e) \<noteq> [] \<and> TrimSpace (Body e) \<noteq> [] \<and>
     (\<forall>(k, v) \<in> set (StreamLabels e). TrimSpace k \<noteq> [] \<and> TrimSpace v \<noteq> []) \<and>
     (MaxLabelsPerStream lim > 0 \<longrightarrow> int (length (StreamLabels e)) \<le> MaxLabelsPerStream lim) \<and>
     (MaxBodyBytes lim > 0 \<longrightarrow> int (length (Body e)) \<le> MaxBodyBytes lim) \<and>
     (MaxParsedFields lim > 0 \<longrightarrow> int (length (ParsedFields e)) \<le> MaxParsedFields lim) \<and>
     (MaxFieldValueBytes lim > 0 \<longrightarrow>
        (\<forall>(k, v) \<in> set (StreamLabels e) \<union> set (ParsedFields e). int (length v) \<le> MaxFieldValueBytes lim))"
proof -
  have v: "Event_Validate e = None \<longleftrightarrow> Timestamp e \<noteq> 0 \<and> TrimSpace (TenantID e) \<noteq> [] \<and>
     TrimSpace (Body e) \<noteq> [] \<and>
     (\<forall>(k, v) \<in> set (StreamLabels e). TrimSpace k \<noteq> [] \<and> TrimSpace v \<noteq> [])"
    by (simp add: Event_Validate_def IsZero_def validate_labels_None)
  show ?thesis
    unfolding ValidateWithLimits_def first_error_None if_error_None v
    by (auto simp: value_too_long_None not_less)
qed

definition sample_limits :: tenant_limits where
  "sample_limits = \<lparr>IngestRateMBPerSecond = 1, QueryConcurrency = 1, MaxLabelsPerStream = 1,
     MaxBodyBytes = 5, MaxParsedFields = 1, MaxFieldValueBytes = 2, RetentionClass = ''standard'',
     Retention = 1\<rparr>"

theorem ValidateWithLimits_accepts_witness:
  "ValidateWithLimits (zero_event\<lparr>Timestamp := 1, TenantID := ''t'', Body := ''hello'',
       StreamLabels := [(''a'', ''bc'')]\<rparr>) sample_limits = None"
  unfolding ValidateWithLimits_accepts
  by (simp add: zero_event_def sample_limits_def) code_simp

text \<open>
  Cursor round trip: the cursor a page reports (the offset printed in decimal) is read back as
  that offset by the next request, for every offset an int64 can hold.
\<close>

theorem CursorOffset_roundtrip:
  assumes "int n \<le> max_int64"
  shows "CursorOffset (q\<lparr>q_Cursor := show_nat n\<rparr>) = Inr n"
  using Atoi_show_nat [OF assms] by (simp add: CursorOffset_def)

definition sample_query :: query_request where
  "sample_query = \<lparr>q_TenantID = ''t'', q_LabelSelectors = [], q_FieldPredicates = [], q_TextContains = [],
     q_TextRegex = [], q_Start = 1, q_End = 100, q_Limit = 0, q_Cursor = [], q_Tail = False, q_PartitionKey = []\<rparr>"

theorem CursorOffset_roundtrip_witness:
  "CursorOffset (sample_query\<lparr>q_Cursor := show_nat 12\<rparr>) = Inr 12"
  by (rule CursorOffset_roundtrip) (simp add: max_int64_def)

end
