(* ===== verification/Chunk.thy ===== *)
theory Chunk
  imports Core_Model "HOL-Library.Word"
begin

text \<open>
  Package \<open>internal/engine/chunk\<close>: the builder that groups the events of a stream into chunks, the
  metadata of a chunk (labels, fields, tokens, time range) and the Bloom filter over body tokens.
  \<open>uni\<close> is the Unicode part of \<open>strings.ToLower\<close>. JSON and zstd are parameters of the codec.
\<close>

unbundle bit_operations_syntax

section \<open>Data\<close>

type_synonym u64 = "64 word"
type_synonym bloom = "u64 list"

record metadata =
  EventCount :: nat
  ApproxBytes :: nat
  md_StreamLabels :: strmap
  LabelKeys :: "string list"
  SearchableFields :: "string list"
  BodyTokens :: "string list"
  BodyBloom :: bloom
  MinTimestamp :: time
  MaxTimestamp :: time

record chunk =
  ch_StreamKey :: string
  ch_Start :: time
  ch_End :: time
  ch_ObjectKey :: string
  ch_Checksum :: string
  ch_Metadata :: metadata
  ch_Events :: "event list"

record builder_options =
  MaxEvents :: int
  MaxBytes :: int
  MaxDuration :: duration

record builder =
  b_streamKey :: string
  b_options :: builder_options
  b_events :: "event list"
  b_bytes :: nat
  b_start :: time

section \<open>Tokens and the Bloom filter\<close>

definition is_token_char :: "char \<Rightarrow> bool" where
  "is_token_char c \<longleftrightarrow> (97 \<le> byte_val c \<and> byte_val c \<le> 122) \<or> (48 \<le> byte_val c \<and> byte_val c \<le> 57)"

definition tokenize :: "(string \<Rightarrow> string) \<Rightarrow> string \<Rightarrow> string list" where
  "tokenize uni body = filter (\<lambda>f. f \<noteq> []) (FieldsFunc (\<lambda>c. \<not> is_token_char c) (ToLower uni body))"

text \<open>\<open>hash/fnv\<close>, 64-bit FNV-1a.\<close>

definition fnv64a :: "string \<Rightarrow> u64" where
  "fnv64a s = fold (\<lambda>c h. (h XOR word_of_int (byte_val c)) * 1099511628211) s 14695981039346656037"

definition bloom_mask :: "u64 \<Rightarrow> nat \<Rightarrow> u64" where
  "bloom_mask hash i = push_bit (unat (drop_bit (16 * i) hash AND 63)) 1"

definition addBloomToken :: "bloom \<Rightarrow> string \<Rightarrow> bloom" where
  "addBloomToken b token =
     (if token = [] then b
      else let hash = fnv64a token in map (\<lambda>i. b ! i OR bloom_mask hash i) [0..<length b])"

definition BloomContains :: "bloom \<Rightarrow> string \<Rightarrow> bool" where
  "BloomContains b token =
     (token = [] \<or> (let hash = fnv64a token in list_all (\<lambda>i. b ! i AND bloom_mask hash i \<noteq> 0) [0..<length b]))"

section \<open>Metadata\<close>

definition mapKeys :: "string list \<Rightarrow> string list" where
  "mapKeys s = sort s"

definition sum_len :: "strmap \<Rightarrow> nat" where
  "sum_len m = sum_list (map (\<lambda>(k, v). length k + length v) m)"

definition estimateEventBytes :: "event \<Rightarrow> nat" where
  "estimateEventBytes e = length (Body e) + length (Severity e) + length (TraceID e)
     + length (SpanID e) + length (TenantID e) + sum_len (StreamLabels e) + sum_len (ParsedFields e)"

text \<open>The variables of the loop of \<open>buildMetadata\<close>; the three sets are lists of distinct keys.\<close>

record meta_acc =
  a_labelSet :: "string list"
  a_fieldSet :: "string list"
  a_tokenSet :: "string list"
  a_streamLabels :: strmap
  a_minTS :: time
  a_maxTS :: time
  a_bloom :: bloom

definition meta_label :: "strmap \<Rightarrow> string \<Rightarrow> meta_acc \<Rightarrow> meta_acc" where
  "meta_label labels key a = a\<lparr>a_labelSet := List.insert key (a_labelSet a),
     a_streamLabels := (if map_of (a_streamLabels a) key = None
        then AList.update key (mget labels key) (a_streamLabels a) else a_streamLabels a)\<rparr>"

definition meta_token :: "string \<Rightarrow> meta_acc \<Rightarrow> meta_acc" where
  "meta_token token a = a\<lparr>a_tokenSet := List.insert token (a_tokenSet a),
     a_bloom := addBloomToken (a_bloom a) token\<rparr>"

definition meta_event :: "(string \<Rightarrow> string) \<Rightarrow> event \<Rightarrow> meta_acc \<Rightarrow> meta_acc" where
  "meta_event uni e a =
     (let a = a\<lparr>a_minTS := (if Timestamp e < a_minTS a then Timestamp e else a_minTS a)\<rparr>;
          a = a\<lparr>a_maxTS := (if Timestamp e > a_maxTS a then Timestamp e else a_maxTS a)\<rparr>;
          a = fold (meta_label (StreamLabels e)) (map fst (StreamLabels e)) a;
          a = fold (\<lambda>key a. a\<lparr>a_fieldSet := List.insert key (a_fieldSet a)\<rparr>) (map fst (ParsedFields e)) a
      in fold meta_token (tokenize uni (Body e)) a)"

text \<open>\<open>events[0]\<close> is read first: the callers pass a nonempty slice.\<close>

definition meta_init :: "event \<Rightarrow> meta_acc" where
  "meta_init e = \<lparr>a_labelSet = [], a_fieldSet = [], a_tokenSet = [], a_streamLabels = [],
     a_minTS = Timestamp e, a_maxTS = Timestamp e, a_bloom = [0, 0, 0, 0]\<rparr>"

definition buildMetadata :: "(string \<Rightarrow> string) \<Rightarrow> event list \<Rightarrow> nat \<Rightarrow> metadata" where
  "buildMetadata uni events approxBytes =
     (let a = fold (meta_event uni) events (meta_init (hd events)) in
      \<lparr>EventCount = length events, ApproxBytes = approxBytes, md_StreamLabels = a_streamLabels a,
       LabelKeys = mapKeys (a_labelSet a), SearchableFields = mapKeys (a_fieldSet a),
       BodyTokens = mapKeys (a_tokenSet a), BodyBloom = a_bloom a,
       MinTimestamp = a_minTS a, MaxTimestamp = a_maxTS a\<rparr>)"

section \<open>The builder\<close>

definition NewBuilderWithOptions :: "string \<Rightarrow> builder_options \<Rightarrow> builder" where
  "NewBuilderWithOptions key opts = \<lparr>b_streamKey = key,
     b_options = \<lparr>MaxEvents = (if MaxEvents opts \<le> 0 then 1000 else MaxEvents opts),
       MaxBytes = (if MaxBytes opts \<le> 0 then 256 * 1024 else MaxBytes opts),
       MaxDuration = (if MaxDuration opts \<le> 0 then minute else MaxDuration opts)\<rparr>,
     b_events = [], b_bytes = 0, b_start = 0\<rparr>"

definition NewBuilder :: "string \<Rightarrow> int \<Rightarrow> builder" where
  "NewBuilder key maxEvents =
     NewBuilderWithOptions key \<lparr>MaxEvents = maxEvents, MaxBytes = 256 * 1024, MaxDuration = minute\<rparr>"

definition shouldFlush :: "builder \<Rightarrow> time \<Rightarrow> bool" where
  "shouldFlush b ts \<longleftrightarrow> int (length (b_events b)) \<ge> MaxEvents (b_options b)
     \<or> int (b_bytes b) \<ge> MaxBytes (b_options b)
     \<or> (\<not> IsZero (b_start b) \<and> time_sub ts (b_start b) \<ge> MaxDuration (b_options b))"

definition Builder_Flush :: "(string \<Rightarrow> string) \<Rightarrow> builder \<Rightarrow> chunk option \<times> builder" where
  "Builder_Flush uni b =
     (if b_events b = [] then (None, b)
      else (Some \<lparr>ch_StreamKey = b_streamKey b, ch_Start = Timestamp (hd (b_events b)),
              ch_End = Timestamp (last (b_events b)), ch_ObjectKey = [], ch_Checksum = [],
              ch_Metadata = buildMetadata uni (b_events b) (b_bytes b), ch_Events = b_events b\<rparr>,
            b\<lparr>b_events := [], b_bytes := 0, b_start := 0\<rparr>))"

definition Builder_Add :: "(string \<Rightarrow> string) \<Rightarrow> builder \<Rightarrow> event \<Rightarrow> (bool \<times> chunk option) \<times> builder" where
  "Builder_Add uni b e =
     (let b = (if b_events b = [] then b\<lparr>b_start := Timestamp e\<rparr> else b);
          b = b\<lparr>b_events := b_events b @ [Event_Clone e], b_bytes := b_bytes b + estimateEventBytes e\<rparr>
      in if \<not> shouldFlush b (Timestamp e) then ((False, None), b)
         else let (c, b) = Builder_Flush uni b in ((True, c), b))"

section \<open>The codec\<close>

definition Chunk_Encode ::
  "(chunk \<Rightarrow> string result) \<Rightarrow> (string \<Rightarrow> string result) \<Rightarrow> chunk \<Rightarrow> string result" where
  "Chunk_Encode json_Marshal zstd_compress c =
     (case json_Marshal c of Inl err \<Rightarrow> Inl err | Inr payload \<Rightarrow> zstd_compress payload)"

definition Chunk_Decode ::
  "(string \<Rightarrow> string result) \<Rightarrow> (string \<Rightarrow> chunk result) \<Rightarrow> string \<Rightarrow> chunk result" where
  "Chunk_Decode zstd_decompress json_Unmarshal data =
     (case zstd_decompress data of Inl err \<Rightarrow> Inl err | Inr payload \<Rightarrow> json_Unmarshal payload)"

section \<open>Lemmas on the Bloom filter\<close>

lemma bloom_mask_nonzero: "bloom_mask h i \<noteq> 0"
proof -
  let ?n = "unat (drop_bit (16 * i) h AND 63)"
  have "unat (drop_bit (16 * i) h AND 63) \<le> unat (63 :: u64)"
    using word_and_le1 [of "drop_bit (16 * i) h" 63] by (simp add: word_le_nat_alt)
  then have n: "?n < 64" by simp
  have "bit (push_bit ?n (1 :: u64)) ?n"
    using n by (simp add: bit_exp_iff possible_bit_word)
  then show ?thesis unfolding bloom_mask_def by (metis bit_0_eq bot_apply bot_bool_def)
qed

lemma length_addBloomToken [simp]: "length (addBloomToken b t) = length b"
  by (simp add: addBloomToken_def Let_def)

lemma BloomContains_add_same: "BloomContains (addBloomToken b t) t"
proof (cases "t = []")
  case True
  then show ?thesis by (simp add: BloomContains_def)
next
  case False
  have "(w OR m) AND m = m" for w m :: u64 by (auto simp: bit_eq_iff bit_and_iff bit_or_iff)
  then show ?thesis using False bloom_mask_nonzero
    by (simp add: BloomContains_def addBloomToken_def Let_def list_all_iff)
qed

lemma or_keeps_bits: "(w AND m :: u64) \<noteq> 0 \<Longrightarrow> (w OR v) AND m \<noteq> 0"
proof -
  assume "w AND m \<noteq> 0"
  then obtain k where "bit (w AND m) k" by (metis bit_0_eq bit_eq_iff bot_apply bot_bool_def)
  then have "bit ((w OR v) AND m) k" by (simp add: bit_and_iff bit_or_iff)
  then show ?thesis by (metis bit_0_eq bot_apply bot_bool_def)
qed

lemma BloomContains_add_mono: "BloomContains b t \<Longrightarrow> BloomContains (addBloomToken b u) t"
  by (auto simp: BloomContains_def addBloomToken_def Let_def list_all_iff or_keeps_bits)

lemma BloomContains_fold: "BloomContains b t \<Longrightarrow> BloomContains (fold (\<lambda>u b. addBloomToken b u) us b) t"
  by (induction us arbitrary: b) (auto simp: BloomContains_add_mono)

section \<open>What the metadata loop computes\<close>

lemma fold_meta_label:
  "a_labelSet (fold (meta_label m) ks a) = fold List.insert ks (a_labelSet a)"
  "a_fieldSet (fold (meta_label m) ks a) = a_fieldSet a"
  "a_tokenSet (fold (meta_label m) ks a) = a_tokenSet a"
  "a_minTS (fold (meta_label m) ks a) = a_minTS a"
  "a_maxTS (fold (meta_label m) ks a) = a_maxTS a"
  "a_bloom (fold (meta_label m) ks a) = a_bloom a"
  by (induction ks arbitrary: a) (simp_all add: meta_label_def)

lemma fold_meta_label_streamLabels:
  "map_of (a_streamLabels (fold (meta_label m) ks a)) k =
     (case map_of (a_streamLabels a) k of Some v \<Rightarrow> Some v
      | None \<Rightarrow> if k \<in> set ks then Some (mget m k) else None)"
proof (induction ks arbitrary: a)
  case Nil
  then show ?case by (simp split: option.split)
next
  case (Cons x ks)
  have "map_of (a_streamLabels (meta_label m x a)) k =
     (case map_of (a_streamLabels a) k of Some v \<Rightarrow> Some v | None \<Rightarrow> if k = x then Some (mget m k) else None)"
    by (auto simp: meta_label_def update_conv' split: option.splits)
  then show ?case by (auto simp: Cons.IH split: option.splits)
qed

lemma fold_meta_field:
  fixes a :: meta_acc
  defines "f \<equiv> \<lambda>key a :: meta_acc. a\<lparr>a_fieldSet := List.insert key (a_fieldSet a)\<rparr>"
  shows "a_labelSet (fold f ks a) = a_labelSet a"
    "a_fieldSet (fold f ks a) = fold List.insert ks (a_fieldSet a)"
    "a_tokenSet (fold f ks a) = a_tokenSet a"
    "a_streamLabels (fold f ks a) = a_streamLabels a"
    "a_minTS (fold f ks a) = a_minTS a"
    "a_maxTS (fold f ks a) = a_maxTS a"
    "a_bloom (fold f ks a) = a_bloom a"
  by (induction ks arbitrary: a) (simp_all add: f_def)

lemma fold_meta_token:
  "a_labelSet (fold meta_token ts a) = a_labelSet a"
  "a_fieldSet (fold meta_token ts a) = a_fieldSet a"
  "a_tokenSet (fold meta_token ts a) = fold List.insert ts (a_tokenSet a)"
  "a_streamLabels (fold meta_token ts a) = a_streamLabels a"
  "a_minTS (fold meta_token ts a) = a_minTS a"
  "a_maxTS (fold meta_token ts a) = a_maxTS a"
  "a_bloom (fold meta_token ts a) = fold (\<lambda>t b. addBloomToken b t) ts (a_bloom a)"
  by (induction ts arbitrary: a) (simp_all add: meta_token_def)

lemmas meta_folds = fold_meta_label fold_meta_field fold_meta_token

lemma meta_event_simps:
  "a_labelSet (meta_event uni e a) = fold List.insert (map fst (StreamLabels e)) (a_labelSet a)"
  "a_fieldSet (meta_event uni e a) = fold List.insert (map fst (ParsedFields e)) (a_fieldSet a)"
  "a_tokenSet (meta_event uni e a) = fold List.insert (tokenize uni (Body e)) (a_tokenSet a)"
  "a_minTS (meta_event uni e a) = min (Timestamp e) (a_minTS a)"
  "a_maxTS (meta_event uni e a) = max (Timestamp e) (a_maxTS a)"
  "a_bloom (meta_event uni e a) = fold (\<lambda>t b. addBloomToken b t) (tokenize uni (Body e)) (a_bloom a)"
  by (simp_all add: meta_event_def Let_def meta_folds)

lemma set_fold_insert: "set (fold List.insert ks xs) = set xs \<union> set ks"
  by (induction ks arbitrary: xs) auto

lemma distinct_fold_insert: "distinct xs \<Longrightarrow> distinct (fold List.insert ks xs)"
  by (induction ks arbitrary: xs) auto

lemma meta_fold_sets:
  "set (a_labelSet (fold (meta_event uni) es a)) = set (a_labelSet a) \<union> (\<Union>e \<in> set es. fst ` set (StreamLabels e))"
  "set (a_fieldSet (fold (meta_event uni) es a)) = set (a_fieldSet a) \<union> (\<Union>e \<in> set es. fst ` set (ParsedFields e))"
  "set (a_tokenSet (fold (meta_event uni) es a)) = set (a_tokenSet a) \<union> (\<Union>e \<in> set es. set (tokenize uni (Body e)))"
  by (induction es arbitrary: a) (auto simp: meta_event_simps set_fold_insert)

lemma meta_fold_bloom_mono:
  "BloomContains (a_bloom a) t \<Longrightarrow> BloomContains (a_bloom (fold (meta_event uni) es a)) t"
  by (induction es arbitrary: a) (auto simp: meta_event_simps BloomContains_fold)

lemma BloomContains_fold_in:
  "t \<in> set us \<Longrightarrow> BloomContains (fold (\<lambda>u b. addBloomToken b u) us b) t"
  by (induction us arbitrary: b) (auto intro: BloomContains_fold BloomContains_add_same)

lemma meta_fold_bloom:
  "e \<in> set es \<Longrightarrow> t \<in> set (tokenize uni (Body e)) \<Longrightarrow>
   BloomContains (a_bloom (fold (meta_event uni) es a)) t"
proof (induction es arbitrary: a)
  case Nil
  then show ?case by simp
next
  case (Cons x xs)
  show ?case
  proof (cases "e = x")
    case True
    then have "BloomContains (a_bloom (meta_event uni x a)) t"
      using Cons.prems by (simp add: meta_event_simps BloomContains_fold_in)
    then show ?thesis by (simp add: meta_fold_bloom_mono)
  next
    case False
    then show ?thesis using Cons by simp
  qed
qed

lemma meta_fold_time:
  "a_minTS (fold (meta_event uni) es a) = fold (\<lambda>e. min (Timestamp e)) es (a_minTS a)"
  "a_maxTS (fold (meta_event uni) es a) = fold (\<lambda>e. max (Timestamp e)) es (a_maxTS a)"
  by (induction es arbitrary: a) (simp_all add: meta_event_simps)

lemma fold_min_eq_Min:
  assumes "(m :: int) \<in> f ` set es"
  shows "fold (\<lambda>e. min (f e)) es m = Min (f ` set es)"
proof -
  have "fold (\<lambda>e. min (f e)) es m = Min (insert m (f ` set es))" for m :: int
  proof (induction es arbitrary: m)
    case Nil
    then show ?case by simp
  next
    case (Cons x xs)
    show ?case
    proof (cases "xs = []")
      case True
      then show ?thesis by (simp add: min.commute)
    next
      case False
      then show ?thesis using Cons.IH [of "min (f x) m"] by (simp add: min.assoc min.left_commute)
    qed
  qed
  then show ?thesis using assms by (simp add: insert_absorb)
qed

lemma fold_max_eq_Max:
  assumes "(m :: int) \<in> f ` set es"
  shows "fold (\<lambda>e. max (f e)) es m = Max (f ` set es)"
proof -
  have "fold (\<lambda>e. max (f e)) es m = Max (insert m (f ` set es))" for m :: int
  proof (induction es arbitrary: m)
    case Nil
    then show ?case by simp
  next
    case (Cons x xs)
    show ?case
    proof (cases "xs = []")
      case True
      then show ?thesis by (simp add: max.commute)
    next
      case False
      then show ?thesis using Cons.IH [of "max (f x) m"] by (simp add: max.assoc max.left_commute)
    qed
  qed
  then show ?thesis using assms by (simp add: insert_absorb)
qed

lemma meta_event_streamLabels:
  "map_of (a_streamLabels (meta_event uni e a)) k =
     (case map_of (a_streamLabels a) k of Some v \<Rightarrow> Some v
      | None \<Rightarrow> if k \<in> fst ` set (StreamLabels e) then Some (mget (StreamLabels e) k) else None)"
  by (simp add: meta_event_def Let_def fold_meta_field fold_meta_token fold_meta_label_streamLabels)

text \<open>When all events carry the same labels, these are the labels of the chunk.\<close>

lemma meta_fold_streamLabels:
  assumes "\<forall>e \<in> set es. map_of (StreamLabels e) = m" and "es \<noteq> []"
    and "a_streamLabels a = []"
  shows "map_of (a_streamLabels (fold (meta_event uni) es a)) = m"
proof -
  have stay: "map_of (a_streamLabels (fold (meta_event uni) xs a)) = m"
    if "map_of (a_streamLabels a) = m" and "\<forall>e \<in> set xs. map_of (StreamLabels e) = m" for xs a
    using that
  proof (induction xs arbitrary: a)
    case Nil
    then show ?case by simp
  next
    case (Cons x xs)
    have "map_of (a_streamLabels (meta_event uni x a)) = m"
      using Cons.prems
      by (auto simp: meta_event_streamLabels fun_eq_iff dom_map_of_conv_image_fst [symmetric] split: option.splits)
    then show ?case using Cons by simp
  qed
  obtain x xs where es: "es = x # xs" using assms(2) by (cases es) auto
  have "map_of (a_streamLabels (meta_event uni x a)) = m"
  proof
    fix k
    show "map_of (a_streamLabels (meta_event uni x a)) k = m k"
      using assms(1,3) es
      by (auto simp: meta_event_streamLabels dom_map_of_conv_image_fst [symmetric] mget_def split: option.splits)
  qed
  then show ?thesis using stay [of "meta_event uni x a" xs] assms(1) es by simp
qed

section \<open>The builder's invariant\<close>

definition wf_options :: "builder_options \<Rightarrow> bool" where
  "wf_options opts \<longleftrightarrow> 0 < MaxEvents opts \<and> 0 < MaxBytes opts \<and> 0 < MaxDuration opts"

text \<open>
  Between calls a builder is below its event and byte limits, its byte count is the size of the
  pending events and its start is the timestamp of the first of them.
\<close>

definition wf_builder :: "builder \<Rightarrow> bool" where
  "wf_builder b \<longleftrightarrow> wf_options (b_options b) \<and> list_all wf_event (b_events b)
     \<and> int (length (b_events b)) < MaxEvents (b_options b) \<and> int (b_bytes b) < MaxBytes (b_options b)
     \<and> b_bytes b = sum_list (map estimateEventBytes (b_events b))
     \<and> b_start b = (if b_events b = [] then 0 else Timestamp (hd (b_events b)))"

text \<open>Adding a sequence of events: the chunks that came out, and the builder at the end.\<close>

fun run_builder :: "(string \<Rightarrow> string) \<Rightarrow> builder \<Rightarrow> event list \<Rightarrow> chunk list \<times> builder" where
  "run_builder uni b [] = ([], b)"
| "run_builder uni b (e # es) =
     (case Builder_Add uni b e of ((_, c), b') \<Rightarrow>
      case run_builder uni b' es of (cs, b'') \<Rightarrow>
        (case c of None \<Rightarrow> (cs, b'') | Some c \<Rightarrow> (c # cs, b'')))"

definition flushed_chunk :: "(string \<Rightarrow> string) \<Rightarrow> builder \<Rightarrow> event \<Rightarrow> chunk" where
  "flushed_chunk uni b e = (let es = b_events b @ [Event_Clone e] in
     \<lparr>ch_StreamKey = b_streamKey b, ch_Start = Timestamp (hd es), ch_End = Timestamp e,
      ch_ObjectKey = [], ch_Checksum = [],
      ch_Metadata = buildMetadata uni es (b_bytes b + estimateEventBytes e), ch_Events = es\<rparr>)"

lemma Timestamp_Clone [simp]: "Timestamp (Event_Clone e) = Timestamp e"
  by (simp add: Event_Clone_def)

lemma NewBuilder_wf [simp]: "wf_builder (NewBuilderWithOptions key opts)"
  by (simp add: NewBuilderWithOptions_def wf_builder_def wf_options_def time_units)

text \<open>The two outcomes of \<open>Add\<close>: the event stays pending, or everything pending is flushed.\<close>

lemma Builder_Add_cases:
  obtains (keep) b' where "Builder_Add uni b e = ((False, None), b')"
      and "b_events b' = b_events b @ [Event_Clone e]" and "b_bytes b' = b_bytes b + estimateEventBytes e"
      and "b_options b' = b_options b" and "b_streamKey b' = b_streamKey b"
      and "b_start b' = (if b_events b = [] then Timestamp e else b_start b)"
      and "\<not> shouldFlush b' (Timestamp e)"
  | (flush) "Builder_Add uni b e =
      ((True, Some (flushed_chunk uni b e)), b\<lparr>b_events := [], b_bytes := 0, b_start := 0\<rparr>)"
proof -
  define b1 where "b1 = (if b_events b = [] then b\<lparr>b_start := Timestamp e\<rparr> else b)"
  define b2 where "b2 = b1\<lparr>b_events := b_events b1 @ [Event_Clone e], b_bytes := b_bytes b1 + estimateEventBytes e\<rparr>"
  have a: "Builder_Add uni b e = (if \<not> shouldFlush b2 (Timestamp e) then ((False, None), b2)
         else let (c, b) = Builder_Flush uni b2 in ((True, c), b))"
    unfolding Builder_Add_def Let_def b2_def b1_def by (rule refl)
  show ?thesis
  proof (cases "shouldFlush b2 (Timestamp e)")
    case True
    then show ?thesis using a
      by (intro flush) (simp add: Builder_Flush_def flushed_chunk_def b2_def b1_def Let_def)
  next
    case False
    then show ?thesis using a
      by (intro keep [of b2]) (simp_all add: b2_def b1_def)
  qed
qed

lemma wf_builder_Add:
  assumes "wf_builder b" and "wf_event e"
  shows "wf_builder (snd (Builder_Add uni b e))"
proof (cases rule: Builder_Add_cases [of uni b e])
  case (keep b')
  then show ?thesis using assms
    by (auto simp: wf_builder_def shouldFlush_def not_le hd_append)
next
  case flush
  then show ?thesis using assms(1) by (auto simp: wf_builder_def wf_options_def)
qed

lemma Builder_Add_pending:
  "(case Builder_Add uni b e of ((_, c), b') \<Rightarrow>
     (case c of None \<Rightarrow> [] | Some c \<Rightarrow> ch_Events c) @ b_events b') = b_events b @ [Event_Clone e]"
  by (cases rule: Builder_Add_cases [of uni b e]) (simp_all add: flushed_chunk_def Let_def)

section \<open>Properties\<close>

text \<open>
  C19. The builder neither loses, reorders nor duplicates events: after any sequence of \<open>Add\<close>s the
  events of the emitted chunks, in order, followed by the pending ones, are the pending events of
  the start followed by the added ones.
\<close>

theorem builder_conserves_events:
  "case run_builder uni b es of (cs, b') \<Rightarrow>
     concat (map ch_Events cs) @ b_events b' = b_events b @ map Event_Clone es"
proof (induction es arbitrary: b)
  case Nil
  then show ?case by simp
next
  case (Cons e es)
  obtain f c b' where add: "Builder_Add uni b e = ((f, c), b')" by (metis surj_pair)
  obtain cs b'' where run: "run_builder uni b' es = (cs, b'')" by (metis surj_pair)
  have "concat (map ch_Events cs) @ b_events b'' = b_events b' @ map Event_Clone es"
    using Cons.IH [of b'] run by simp
  moreover have "(case c of None \<Rightarrow> [] | Some c \<Rightarrow> ch_Events c) @ b_events b' = b_events b @ [Event_Clone e]"
    using Builder_Add_pending [of uni b e] add by simp
  ultimately show ?case using add run by (cases c) auto
qed

text \<open>
  \<open>Add\<close> keeps the builder below its limits, and a chunk it emits is nonempty, has at most
  \<open>MaxEvents\<close> events, reached a limit only with its last event, and is labelled with the
  builder's stream and the exact number of its events.
\<close>

theorem builder_Add_bounded:
  assumes "wf_builder b" and "wf_event e"
  shows "wf_builder (snd (Builder_Add uni b e)) \<and>
    (\<forall>c. snd (fst (Builder_Add uni b e)) = Some c \<longrightarrow>
       ch_Events c \<noteq> [] \<and> int (length (ch_Events c)) \<le> MaxEvents (b_options b) \<and>
       int (sum_list (map estimateEventBytes (butlast (ch_Events c)))) < MaxBytes (b_options b) \<and>
       ch_StreamKey c = b_streamKey b \<and> EventCount (ch_Metadata c) = length (ch_Events c) \<and>
       ApproxBytes (ch_Metadata c) = sum_list (map estimateEventBytes (ch_Events c)))"
proof (cases rule: Builder_Add_cases [of uni b e])
  case (keep b')
  then show ?thesis using wf_builder_Add [OF assms, of uni] by simp
next
  case flush
  then show ?thesis using wf_builder_Add [OF assms, of uni] assms
    by (auto simp: flushed_chunk_def Let_def wf_builder_def butlast_append buildMetadata_def)
qed

theorem builder_Add_bounded_witness:
  "wf_builder (snd (Builder_Add id (NewBuilder ''t'' 2) zero_event))"
proof -
  have "wf_event zero_event" by (simp add: wf_event_def zero_event_def)
  then show ?thesis
    using builder_Add_bounded [of "NewBuilder ''t'' 2" zero_event id] by (simp add: NewBuilder_def)
qed

text \<open>
  C20. The Bloom filter has no false negatives: every token of the body of every event of a chunk
  is reported as possibly present by the chunk's filter.
\<close>

theorem bloom_no_false_negatives:
  assumes "e \<in> set events" and "t \<in> set (tokenize uni (Body e))"
  shows "BloomContains (BodyBloom (buildMetadata uni events n)) t"
  using meta_fold_bloom [OF assms] by (simp add: buildMetadata_def Let_def)

theorem bloom_no_false_negatives_witness:
  "BloomContains (BodyBloom (buildMetadata id [zero_event\<lparr>Body := ''Disk FULL on /dev/sda1''\<rparr>] 0)) ''full''"
  by (rule bloom_no_false_negatives) (simp, code_simp)

text \<open>
  The metadata of a nonempty slice of events is exact: the time range is attained and covers
  every event, and the label keys, field names and tokens are the sorted sets of those that occur.
\<close>

theorem metadata_exact:
  assumes "events \<noteq> []"
  shows "MinTimestamp (buildMetadata uni events n) = Min (Timestamp ` set events) \<and>
    MaxTimestamp (buildMetadata uni events n) = Max (Timestamp ` set events) \<and>
    LabelKeys (buildMetadata uni events n) = sorted_list_of_set (\<Union>e \<in> set events. fst ` set (StreamLabels e)) \<and>
    SearchableFields (buildMetadata uni events n) = sorted_list_of_set (\<Union>e \<in> set events. fst ` set (ParsedFields e)) \<and>
    BodyTokens (buildMetadata uni events n) = sorted_list_of_set (\<Union>e \<in> set events. set (tokenize uni (Body e)))"
proof -
  let ?a = "fold (meta_event uni) events (meta_init (hd events))"
  have keys: "mapKeys xs = sorted_list_of_set (set xs)" if "distinct xs" for xs :: "string list"
    using that by (simp add: mapKeys_def sorted_list_of_set_sort_remdups distinct_remdups_id)
  have d: "distinct (a_labelSet ?a) \<and> distinct (a_fieldSet ?a) \<and> distinct (a_tokenSet ?a)"
    by (rule fold_inv) (auto simp: meta_init_def meta_event_simps distinct_fold_insert)
  have hd: "Timestamp (hd events) \<in> Timestamp ` set events" using assms by simp
  have mn: "a_minTS ?a = Min (Timestamp ` set events)"
    unfolding meta_fold_time using hd
    by (simp add: meta_init_def fold_min_eq_Min assms)
  have mx: "a_maxTS ?a = Max (Timestamp ` set events)"
    unfolding meta_fold_time using hd
    by (simp add: meta_init_def fold_max_eq_Max assms)
  show ?thesis
    using d mn mx by (simp add: buildMetadata_def Let_def keys meta_fold_sets) (simp add: meta_init_def)
qed

theorem metadata_exact_witness:
  "MinTimestamp (buildMetadata id [zero_event\<lparr>Timestamp := 7\<rparr>, zero_event\<lparr>Timestamp := 3\<rparr>] 0) = 3"
  using metadata_exact [of "[zero_event\<lparr>Timestamp := 7\<rparr>, zero_event\<lparr>Timestamp := 3\<rparr>]" id 0]
  by (simp add: zero_event_def)

end
