(* ===== verification/Segment.thy ===== *)
theory Segment
  imports Chunk
begin

text \<open>
  Package \<open>internal/engine/segment\<close>: the store that groups chunks into time buckets. The chunks of a
  segment are values here; the store never mutates a chunk it holds. A bucket shorter than a second
  makes \<open>bucketStart\<close> divide by zero, which is the \<open>Panic\<close> outcome of \<open>Add\<close>.
\<close>

section \<open>Data\<close>

record segment =
  seg_PartitionKey :: string
  seg_Start :: time
  seg_End :: time
  seg_Chunks :: "chunk list"

record seg_store =
  s_bucketSize :: duration
  s_segments :: "(string, segment) gomap"

section \<open>Operations\<close>

definition NewStore :: "duration \<Rightarrow> seg_store" where
  "NewStore bucketSize = \<lparr>s_bucketSize = (if bucketSize \<le> 0 then hour else bucketSize), s_segments = []\<rparr>"

text \<open>\<open>int64(bucketSize.Seconds())\<close>.\<close>

definition bucket_seconds :: "duration \<Rightarrow> int" where
  "bucket_seconds bucketSize = seconds_int64 bucketSize"

definition bucketStart :: "time \<Rightarrow> duration \<Rightarrow> time result" where
  "bucketStart ts bucketSize =
     (let unix = Unix ts; size = bucket_seconds bucketSize in
      if size = 0 then Inl (Panic ''integer divide by zero'')
      else Inr (time_Unix (quot unix size * size) 0))"

definition partitionKey :: "time \<Rightarrow> duration \<Rightarrow> string result" where
  "partitionKey ts bucketSize =
     (case bucketStart ts bucketSize of Inl err \<Rightarrow> Inl err
      | Inr start \<Rightarrow> Inr (fmt_date ''-'' start @ ''/'' @ fmt_hour start))"

definition Segment_Add :: "seg_store \<Rightarrow> chunk \<Rightarrow> (segment \<times> seg_store) result" where
  "Segment_Add s c =
     (case partitionKey (ch_Start c) (s_bucketSize s) of Inl err \<Rightarrow> Inl err | Inr key \<Rightarrow>
      case bucketStart (ch_Start c) (s_bucketSize s) of Inl err \<Rightarrow> Inl err | Inr start \<Rightarrow>
      let seg = (case map_of (s_segments s) key of
            Some seg \<Rightarrow> seg
          | None \<Rightarrow> \<lparr>seg_PartitionKey = key, seg_Start = start, seg_End = start + s_bucketSize s, seg_Chunks = []\<rparr>);
          seg = seg\<lparr>seg_Chunks := seg_Chunks seg @ [c]\<rparr>
      in Inr (seg, s\<lparr>s_segments := AList.update key seg (s_segments s)\<rparr>))"

definition Segment_List :: "seg_store \<Rightarrow> segment list" where
  "Segment_List s = map (\<lambda>k. the (map_of (s_segments s) k)) (sort (map fst (s_segments s)))"

definition Segment_Clear :: "seg_store \<Rightarrow> seg_store" where
  "Segment_Clear s = s\<lparr>s_segments := []\<rparr>"

section \<open>Invariant\<close>

text \<open>Every segment is filed under the partition key of each of its chunks.\<close>

definition wf_store :: "seg_store \<Rightarrow> bool" where
  "wf_store s \<longleftrightarrow> wf_map (s_segments s) \<and> 0 < s_bucketSize s \<and>
     (\<forall>(k, seg) \<in> set (s_segments s). seg_PartitionKey seg = k \<and> seg_Chunks seg \<noteq> [] \<and>
        (\<forall>c \<in> set (seg_Chunks seg). partitionKey (ch_Start c) (s_bucketSize s) = Inr k))"

definition all_chunks :: "seg_store \<Rightarrow> chunk set" where
  "all_chunks s = (\<Union>seg \<in> set (Segment_List s). set (seg_Chunks seg))"

text \<open>The window of every segment is the bucket of every chunk in it.\<close>

definition windows_exact :: "seg_store \<Rightarrow> bool" where
  "windows_exact s \<longleftrightarrow> (\<forall>(k, seg) \<in> set (s_segments s).
     seg_End seg = seg_Start seg + s_bucketSize s \<and>
     (\<forall>c \<in> set (seg_Chunks seg). bucketStart (ch_Start c) (s_bucketSize s) = Inr (seg_Start seg)))"

section \<open>Lemmas\<close>

lemma wf_NewStore [simp, intro]: "wf_store (NewStore d)" "windows_exact (NewStore d)"
  by (simp_all add: NewStore_def wf_store_def windows_exact_def time_units)

lemma wf_Clear [simp, intro]: "wf_store s \<Longrightarrow> wf_store (Segment_Clear s)" "windows_exact (Segment_Clear s)"
  by (simp_all add: Segment_Clear_def wf_store_def windows_exact_def)

lemma set_Segment_List: "wf_map (s_segments s) \<Longrightarrow> set (Segment_List s) = snd ` set (s_segments s)"
  by (force simp: Segment_List_def map_of_Some_in image_iff)

lemma all_chunks_eq:
  "wf_map (s_segments s) \<Longrightarrow> all_chunks s = (\<Union>(k, seg) \<in> set (s_segments s). set (seg_Chunks seg))"
  by (force simp: all_chunks_def set_Segment_List)

lemma set_update: "wf_map m \<Longrightarrow> set (AList.update k v m) = insert (k, v) {p \<in> set m. fst p \<noteq> k}"
  by (induction m) (auto simp: wf_map_Cons image_iff)

lemma Segment_Add_cases:
  assumes "Segment_Add s c = Inr (seg, s')"
  obtains (new) key start where "partitionKey (ch_Start c) (s_bucketSize s) = Inr key"
      and "bucketStart (ch_Start c) (s_bucketSize s) = Inr start" and "map_of (s_segments s) key = None"
      and "seg = \<lparr>seg_PartitionKey = key, seg_Start = start, seg_End = start + s_bucketSize s, seg_Chunks = [c]\<rparr>"
      and "s' = s\<lparr>s_segments := AList.update key seg (s_segments s)\<rparr>"
  | (old) key start old where "partitionKey (ch_Start c) (s_bucketSize s) = Inr key"
      and "bucketStart (ch_Start c) (s_bucketSize s) = Inr start" and "map_of (s_segments s) key = Some old"
      and "seg = old\<lparr>seg_Chunks := seg_Chunks old @ [c]\<rparr>"
      and "s' = s\<lparr>s_segments := AList.update key seg (s_segments s)\<rparr>"
  using assms by (auto simp: Segment_Add_def Let_def split: sum.splits option.splits)

lemma wf_Segment_Add:
  assumes "wf_store s" and "Segment_Add s c = Inr (seg, s')"
  shows "wf_store s'"
  using assms(2)
proof (cases rule: Segment_Add_cases)
  case (new key start)
  then show ?thesis using assms(1) by (auto simp: wf_store_def set_update)
next
  case (old key start old)
  then have "(key, old) \<in> set (s_segments s)"
    using assms(1) by (simp add: wf_store_def map_of_Some_in)
  then show ?thesis using old assms(1) by (fastforce simp: wf_store_def set_update)
qed

lemma all_chunks_Add:
  assumes "wf_store s" and "Segment_Add s c = Inr (seg, s')"
  shows "all_chunks s' = insert c (all_chunks s)"
proof -
  have w: "wf_map (s_segments s)" "wf_map (s_segments s')"
    using assms(1) wf_Segment_Add [OF assms] by (simp_all add: wf_store_def)
  from assms(2) show ?thesis
  proof (cases rule: Segment_Add_cases)
    case (new key start)
    then have "(key, x) \<notin> set (s_segments s)" for x
      using w(1) by (auto simp: map_of_Some_in)
    then have "{p \<in> set (s_segments s). fst p \<noteq> key} = set (s_segments s)" by auto
    then show ?thesis using new w by (simp add: all_chunks_eq set_update)
  next
    case (old key start old)
    then have o: "(key, old) \<in> set (s_segments s)" using w(1) by (simp add: map_of_Some_in)
    have "set (s_segments s) = insert (key, old) {p \<in> set (s_segments s). fst p \<noteq> key}"
      using o w(1) by (auto simp: map_of_Some_in)
    then have "all_chunks s = set (seg_Chunks old) \<union>
        (\<Union>(k, seg) \<in> {p \<in> set (s_segments s). fst p \<noteq> key}. set (seg_Chunks seg))"
      using all_chunks_eq [OF w(1)] by (metis (no_types, lifting) UN_insert case_prod_conv)
    moreover have "all_chunks s' = set (seg_Chunks seg) \<union>
        (\<Union>(k, seg) \<in> {p \<in> set (s_segments s). fst p \<noteq> key}. set (seg_Chunks seg))"
      using old w by (simp add: all_chunks_eq set_update)
    ultimately show ?thesis using old by auto
  qed
qed

lemma floor_bounds:
  fixes d x :: int
  assumes "0 < d"
  shows "x div d * d \<le> x" and "x < x div d * d + d"
proof -
  have "x div d * d + x mod d = x" by (rule div_mult_mod_eq)
  moreover have "0 \<le> x mod d" "x mod d < d" using assms by simp_all
  ultimately show "x div d * d \<le> x" and "x < x div d * d + d" by linarith+
qed

lemma unix_epoch_hours: "unix_epoch * second = 17259888 * hour"
  by (simp add: unix_epoch_def time_units)

lemma bucketStart_whole_seconds:
  assumes "bucketSize = n * second" and "0 < n" and "n < 2 ^ 53" and "unix_epoch * second \<le> ts"
  shows "bucketStart ts bucketSize = Inr (unix_epoch * second + (ts - unix_epoch * second) div bucketSize * bucketSize)"
proof -
  have "unix_epoch \<le> ts div second"
    using assms(4) by (simp add: second_def unix_epoch_def)
  then have u: "0 \<le> Unix ts" by (simp add: Unix_def)
  have n: "bucket_seconds bucketSize = n" using assms(1-3) by (simp add: bucket_seconds_def seconds_int64_whole)
  have "quot (Unix ts) n = Unix ts div n"
    using u assms(2) by (cases "Unix ts = 0") (simp_all add: quot_def)
  moreover have "Unix ts = (ts - unix_epoch * second) div second"
    by (simp add: Unix_def second_def unix_epoch_def)
  ultimately have "quot (Unix ts) n = (ts - unix_epoch * second) div bucketSize"
    using assms(1,2) by (simp add: mult.commute [of n] zdiv_zmult2_eq)
  then show ?thesis
    using n assms(1,2) by (simp add: bucketStart_def Let_def time_Unix_def algebra_simps)
qed

lemma bucketStart_dvd:
  assumes "bucketStart t d = Inr b" and "d = n * hour" and "0 < n" and "n < 2 ^ 40"
  shows "hour dvd b"
proof -
  have "d = (n * 3600) * second" using assms(2) by (simp add: time_units)
  then have s: "bucket_seconds d = n * 3600"
    using assms(3,4) seconds_int64_whole [of "n * 3600"] by (simp add: bucket_seconds_def)
  then have "b = (quot (Unix t) (n * 3600) * (n * 3600) + unix_epoch) * second"
    using assms(1,3) by (simp add: bucketStart_def Let_def time_Unix_def)
  also have "\<dots> = (quot (Unix t) (n * 3600) * n + 17259888) * hour"
    using unix_epoch_hours by (simp add: algebra_simps time_units)
  finally show ?thesis by simp
qed

text \<open>With whole-hour buckets the partition key determines the bucket.\<close>

lemma partitionKey_bucket:
  assumes "s_bucketSize s = n * hour" and "0 < n" and "n < 2 ^ 40"
    and "partitionKey t (s_bucketSize s) = Inr k" and "partitionKey u (s_bucketSize s) = Inr k"
  shows "bucketStart t (s_bucketSize s) = bucketStart u (s_bucketSize s)"
proof -
  obtain b where b: "bucketStart t (s_bucketSize s) = Inr b" "k = fmt_date ''-'' b @ ''/'' @ fmt_hour b"
    using assms(4) by (auto simp: partitionKey_def split: sum.splits)
  obtain c where c: "bucketStart u (s_bucketSize s) = Inr c" "k = fmt_date ''-'' c @ ''/'' @ fmt_hour c"
    using assms(5) by (auto simp: partitionKey_def split: sum.splits)
  have "b div hour = c div hour" using b c by (intro fmt_date_hour_inj) simp
  moreover have "hour dvd b" "hour dvd c" using b(1) c(1) assms(1-3) by (auto intro: bucketStart_dvd)
  ultimately have "b = c" by (metis dvd_div_mult_self)
  then show ?thesis using b c by simp
qed

fun add_all :: "seg_store \<Rightarrow> chunk list \<Rightarrow> seg_store result" where
  "add_all s [] = Inr s"
| "add_all s (c # cs) = (case Segment_Add s c of Inl err \<Rightarrow> Inl err | Inr (_, s') \<Rightarrow> add_all s' cs)"

lemma Segment_Add_bucketSize: "Segment_Add s c = Inr (seg, s') \<Longrightarrow> s_bucketSize s' = s_bucketSize s"
  by (auto elim: Segment_Add_cases)

lemma windows_exact_Add:
  assumes "wf_store s" and "windows_exact s" and "s_bucketSize s = n * hour" and "0 < n" and "n < 2 ^ 40"
    and "Segment_Add s c = Inr (seg, s')"
  shows "windows_exact s'"
  using assms(6)
proof (cases rule: Segment_Add_cases)
  case (new key start)
  then show ?thesis using assms(1,2) by (auto simp: windows_exact_def set_update wf_store_def)
next
  case (old key start old)
  have w: "wf_map (s_segments s)" using assms(1) by (simp add: wf_store_def)
  have o: "(key, old) \<in> set (s_segments s)" using w old by (simp add: map_of_Some_in)
  then obtain d where d: "d \<in> set (seg_Chunks old)" "partitionKey (ch_Start d) (s_bucketSize s) = Inr key"
    using assms(1) by (fastforce simp: wf_store_def neq_Nil_conv)
  have "bucketStart (ch_Start c) (s_bucketSize s) = bucketStart (ch_Start d) (s_bucketSize s)"
    using partitionKey_bucket [OF assms(3-5)] old d by blast
  moreover have "bucketStart (ch_Start d) (s_bucketSize s) = Inr (seg_Start old)"
      "seg_End old = seg_Start old + s_bucketSize s"
    using assms(2) o d by (auto simp: windows_exact_def)
  ultimately show ?thesis using old assms(2) w o by (auto simp: windows_exact_def set_update)
qed

lemma add_all_inv:
  assumes "add_all s cs = Inr s'" and "wf_store s" and "windows_exact s"
    and "s_bucketSize s = n * hour" and "0 < n" and "n < 2 ^ 40"
  shows "wf_store s' \<and> windows_exact s' \<and> s_bucketSize s' = s_bucketSize s \<and> all_chunks s' = all_chunks s \<union> set cs"
  using assms
proof (induction cs arbitrary: s)
  case Nil
  then show ?case by simp
next
  case (Cons c cs)
  from Cons.prems(1) obtain seg t where t: "Segment_Add s c = Inr (seg, t)" "add_all t cs = Inr s'"
    by (auto split: sum.splits)
  show ?case
    using Cons.IH [OF t(2)] wf_Segment_Add [OF Cons.prems(2) t(1)] all_chunks_Add [OF Cons.prems(2) t(1)]
      windows_exact_Add [OF Cons.prems(2-6) t(1)] Segment_Add_bucketSize [OF t(1)] Cons.prems(4-6) by auto
qed

lemma add_all_succeeds:
  assumes "bucket_seconds (s_bucketSize s) \<noteq> 0"
  shows "\<exists>s'. add_all s cs = Inr s'"
  using assms
proof (induction cs arbitrary: s)
  case Nil
  then show ?case by simp
next
  case (Cons c cs)
  obtain seg t where t: "Segment_Add s c = Inr (seg, t)"
    using Cons.prems by (auto simp: Segment_Add_def partitionKey_def bucketStart_def Let_def split: option.splits)
  then have "s_bucketSize t = s_bucketSize s" by (rule Segment_Add_bucketSize)
  then show ?case using Cons t by simp
qed

section \<open>Properties\<close>

text \<open>
  C21. With buckets of whole hours the segments partition the chunks by time: filing any chunks that
  start at or after the Unix epoch succeeds, the store then lists exactly these chunks, and the window
  of every segment contains the start of every chunk filed in it.
\<close>

theorem segments_partition_chunks:
  assumes "bucketSize = n * hour" and "0 < n" and "bucketSize \<le> max_int64" and "\<forall>c \<in> set cs. unix_epoch * second \<le> ch_Start c"
  shows "\<exists>s. add_all (NewStore bucketSize) cs = Inr s \<and> all_chunks s = set cs \<and>
     (\<forall>seg \<in> set (Segment_List s). \<forall>c \<in> set (seg_Chunks seg).
        seg_Start seg \<le> ch_Start c \<and> ch_Start c < seg_End seg)"
proof -
  have size: "s_bucketSize (NewStore bucketSize) = n * hour"
    using assms(1,2) by (simp add: NewStore_def hour_def minute_def second_def zero_less_mult_iff not_le)
  have n: "n < 2 ^ 40" using assms(1,3) by (simp add: time_units max_int64_def)
  have "seconds_int64 (n * hour) = n * 3600"
    using seconds_int64_whole [of "n * 3600"] assms(2) n by (simp add: time_units mult.commute)
  then have "bucket_seconds (s_bucketSize (NewStore bucketSize)) \<noteq> 0"
    using assms(2) size by (simp add: bucket_seconds_def)
  then obtain s where s: "add_all (NewStore bucketSize) cs = Inr s"
    using add_all_succeeds by blast
  have "all_chunks (NewStore bucketSize) = {}" by (simp add: all_chunks_def NewStore_def Segment_List_def)
  then have inv: "wf_store s" "windows_exact s" "s_bucketSize s = n * hour" "all_chunks s = set cs"
    using add_all_inv [OF s _ _ size assms(2) n] size by auto
  have "seg_Start seg \<le> ch_Start c \<and> ch_Start c < seg_End seg"
    if "seg \<in> set (Segment_List s)" and "c \<in> set (seg_Chunks seg)" for seg c
  proof -
    have w: "wf_map (s_segments s)" using inv(1) by (simp add: wf_store_def)
    have "seg \<in> snd ` set (s_segments s)" using that(1) by (simp add: set_Segment_List [OF w])
    then obtain k where k: "(k, seg) \<in> set (s_segments s)" by auto
    have b: "bucketStart (ch_Start c) (s_bucketSize s) = Inr (seg_Start seg)" "seg_End seg = seg_Start seg + s_bucketSize s"
      using inv(2) k that(2) by (auto simp: windows_exact_def)
    have "c \<in> set cs" using inv(4) that by (auto simp: all_chunks_def)
    then have e: "unix_epoch * second \<le> ch_Start c" using assms(4) by blast
    define m where "m = n * 3600"
    have m: "s_bucketSize s = m * second" "0 < m" "m < 2 ^ 53" using inv(3) assms(2) n by (simp_all add: m_def time_units)
    have "0 < s_bucketSize s" using m by (simp add: second_def)
    then show ?thesis
      using b bucketStart_whole_seconds [OF m e]
        floor_bounds [of "s_bucketSize s" "ch_Start c - unix_epoch * second"] by simp
  qed
  then show ?thesis using s inv(4) by blast
qed

definition sample_chunk :: "time \<Rightarrow> chunk" where
  "sample_chunk ts = \<lparr>ch_StreamKey = ''t'', ch_Start = ts, ch_End = ts, ch_ObjectKey = [], ch_Checksum = [],
     ch_Metadata = buildMetadata id [] 0, ch_Events = []\<rparr>"

lemma sample_chunk_Start [simp]: "ch_Start (sample_chunk ts) = ts"
  by (simp add: sample_chunk_def)

theorem segments_partition_chunks_witness:
  "\<exists>s. add_all (NewStore hour) [sample_chunk (unix_epoch * second)] = Inr s \<and>
       all_chunks s = {sample_chunk (unix_epoch * second)}"
  using segments_partition_chunks [of hour 1 "[sample_chunk (unix_epoch * second)]"]
  by (auto simp: time_units max_int64_def)

text \<open>
  Buckets shorter than an hour share a partition key, so a chunk is filed in a segment whose
  window, that of the first chunk of the hour, does not contain it: with 15-minute buckets the chunk of
  00:30 lands in the segment that claims to end at 00:15. A bucket below one second panics.
\<close>

theorem sub_hour_buckets_collide:
  "(case add_all (NewStore (15 * minute))
       [sample_chunk (unix_epoch * second), sample_chunk (unix_epoch * second + 30 * minute)] of
     Inl _ \<Rightarrow> False
   | Inr s \<Rightarrow> (\<exists>seg. Segment_List s = [seg] \<and> length (seg_Chunks seg) = 2 \<and>
       seg_End seg = unix_epoch * second + 15 * minute \<and>
       seg_End seg < ch_Start (seg_Chunks seg ! 1))) \<and>
   Segment_Add (NewStore millisecond) c = Inl (Panic ''integer divide by zero'')"
proof
  show "Segment_Add (NewStore millisecond) c = Inl (Panic ''integer divide by zero'')"
    by (simp add: Segment_Add_def NewStore_def partitionKey_def bucketStart_def bucket_seconds_def
        seconds_int64_below millisecond_def second_def)
next
  have size: "s_bucketSize (NewStore (15 * minute)) = 15 * minute" "s_segments (NewStore (15 * minute)) = []"
    by (simp_all add: NewStore_def minute_def second_def)
  let ?e = "unix_epoch * second" and ?l = "unix_epoch * second + 30 * minute"
  have b1: "bucketStart ?e (15 * minute) = Inr ?e" and b2: "bucketStart ?l (15 * minute) = Inr ?l"
    using bucketStart_whole_seconds [of "15 * minute" 900 ?e] bucketStart_whole_seconds [of "15 * minute" 900 ?l]
    by (simp_all add: minute_def second_def)
  have "time_days ?l = time_days ?e" "time_hour ?l = time_hour ?e"
    by (simp_all add: time_days_def time_hour_def time_units unix_epoch_def)
  then have "fmt_date ''-'' ?l @ ''/'' @ fmt_hour ?l = fmt_date ''-'' ?e @ ''/'' @ fmt_hour ?e"
    by (simp add: fmt_date_def fmt_hour_def)
  moreover define k where "k = fmt_date ''-'' ?e @ ''/'' @ fmt_hour ?e"
  ultimately have k1: "partitionKey ?e (15 * minute) = Inr k" and k2: "partitionKey ?l (15 * minute) = Inr k"
    by (simp_all only: partitionKey_def b1 b2 sum.case)
  show "case add_all (NewStore (15 * minute))
       [sample_chunk (unix_epoch * second), sample_chunk (unix_epoch * second + 30 * minute)] of
     Inl _ \<Rightarrow> False
   | Inr s \<Rightarrow> (\<exists>seg. Segment_List s = [seg] \<and> length (seg_Chunks seg) = 2 \<and>
       seg_End seg = unix_epoch * second + 15 * minute \<and>
       seg_End seg < ch_Start (seg_Chunks seg ! 1))"
    by (simp add: Segment_Add_def Segment_List_def Let_def k1 k2 b1 b2 size) (simp add: minute_def second_def)
qed

end
