(* ===== verification/Query_Common.thy ===== *)
theory Query_Common
  imports Core_Model
begin

text \<open>
  What the hot index and the query planner share: compiling the text regex, the text conditions, and the
  page of a list of matches that a cursor and a limit select. The regular expression engine is a
  pair of parameters: \<open>Compile\<close> (\<open>regexp.Compile\<close>) and \<open>MatchString\<close>.

  The locale \<open>paged_query\<close> is the contract of a paged query executor; inside it, following the
  returned cursors is shown to enumerate the whole answer. Both executors interpret it.
\<close>

section \<open>Operations\<close>

definition compileRegex :: "(string \<Rightarrow> 're result) \<Rightarrow> string \<Rightarrow> 're option result" where
  "compileRegex Compile pattern =
     (if pattern = [] then Inr None
      else if length pattern > 256 then Inl (Errorf ''text_regex exceeds 256 characters'' [])
      else case Compile pattern of Inl err \<Rightarrow> Inl err | Inr re \<Rightarrow> Inr (Some re))"

text \<open>The text conditions, checked on each remaining candidate.\<close>

definition text_match ::
  "(string \<Rightarrow> string) \<Rightarrow> ('re \<Rightarrow> string \<Rightarrow> bool) \<Rightarrow> query_request \<Rightarrow> 're option \<Rightarrow> event \<Rightarrow> bool" where
  "text_match uni MatchString req matcher event \<longleftrightarrow>
     \<not> (q_TextContains req \<noteq> [] \<and> \<not> Contains (ToLower uni (Body event)) (ToLower uni (q_TextContains req))) \<and>
     (case matcher of None \<Rightarrow> True | Some re \<Rightarrow> MatchString re (Body event))"

text \<open>The tail of \<open>Execute\<close>: the page of the matches, and the cursor of the next one.\<close>

definition page :: "nat \<Rightarrow> int \<Rightarrow> event list \<Rightarrow> event list \<times> string" where
  "page offset limit matches =
     (let offset = min offset (length matches); remaining = drop offset matches in
      if 0 < limit \<and> limit < int (length remaining) then
        (let events = take (nat limit) remaining; next = offset + length events in
         (events, if next < length matches then show_nat next else []))
      else (remaining, []))"

text \<open>A client that follows the returned cursors and collects the pages, for at most \<open>fuel\<close> requests.\<close>

fun follow_cursor :: "nat \<Rightarrow> (query_request \<Rightarrow> query_result result) \<Rightarrow> query_request \<Rightarrow> event list option" where
  "follow_cursor 0 exec req = None"
| "follow_cursor (Suc fuel) exec req = (case exec req of Inl _ \<Rightarrow> None
     | Inr res \<Rightarrow> if r_NextCursor res = [] then Some (r_Events res)
         else map_option ((@) (r_Events res)) (follow_cursor fuel exec (req\<lparr>q_Cursor := r_NextCursor res\<rparr>)))"

section \<open>Lemmas\<close>

lemma page_drop_take:
  "page offset limit xs =
     (let rest = drop offset xs in
      if 0 < limit \<and> limit < int (length rest) then (take (nat limit) rest, show_nat (offset + nat limit))
      else (rest, []))"
proof (cases "offset \<le> length xs")
  case True
  then show ?thesis by (auto simp: page_def Let_def)
next
  case False
  then show ?thesis by (auto simp: page_def Let_def)
qed

lemma CursorOffset_simps:
  "CursorOffset (req\<lparr>q_Cursor := []\<rparr>) = Inr 0"
  "int n \<le> max_int64 \<Longrightarrow> CursorOffset (req\<lparr>q_Cursor := show_nat n\<rparr>) = Inr n"
  by (simp_all add: CursorOffset_def Atoi_show_nat)

section \<open>The contract of a paged executor\<close>

locale paged_query =
  fixes ready :: "'s \<Rightarrow> query_request \<Rightarrow> bool"
    and exec :: "'s \<Rightarrow> query_request \<Rightarrow> query_result result"
    and answer :: "'s \<Rightarrow> query_request \<Rightarrow> event list"
  assumes exec_page: "ready s req \<Longrightarrow> CursorOffset req = Inr offset \<Longrightarrow>
      \<exists>res. exec s req = Inr res \<and> (r_Events res, r_NextCursor res) = page offset (q_Limit req) (answer s req)"
    and ready_cursor: "ready s (req\<lparr>q_Cursor := c\<rparr>) = ready s req"
    and answer_cursor: "answer s (req\<lparr>q_Cursor := c\<rparr>) = answer s req"
begin

lemma follow_from:
  assumes "ready s req" and "0 < q_Limit req" and "int (length (answer s req)) \<le> max_int64"
    and "CursorOffset req = Inr n" and "n \<le> length (answer s req)" and "length (answer s req) - n < fuel"
  shows "follow_cursor fuel (exec s) req = Some (drop n (answer s req))"
  using assms
proof (induction fuel arbitrary: n req)
  case 0
  then show ?case by simp
next
  case (Suc fuel)
  obtain res where res: "exec s req = Inr res"
      "(r_Events res, r_NextCursor res) = page n (q_Limit req) (answer s req)"
    using exec_page Suc.prems(1,4) by blast
  show ?case
  proof (cases "q_Limit req < int (length (answer s req) - n)")
    case False
    then have "r_Events res = drop n (answer s req)" "r_NextCursor res = []"
      using res(2) by (simp_all add: page_drop_take Let_def)
    then show ?thesis using res(1) by simp
  next
    case True
    let ?m = "n + nat (q_Limit req)"
    have r: "r_Events res = take (nat (q_Limit req)) (drop n (answer s req))" "r_NextCursor res = show_nat ?m"
      using res(2) True Suc.prems(2) by (simp_all add: page_drop_take Let_def split: if_splits)
    have m: "?m \<le> length (answer s req)" "n < ?m" using True Suc.prems(2) by linarith+
    have "int ?m \<le> max_int64" "length (answer s req) - ?m < fuel"
      using m Suc.prems(3,6) by linarith+
    then have "follow_cursor fuel (exec s) (req\<lparr>q_Cursor := show_nat ?m\<rparr>) =
        Some (drop ?m (answer s (req\<lparr>q_Cursor := show_nat ?m\<rparr>)))"
      using Suc.prems m by (intro Suc.IH) (simp_all add: ready_cursor answer_cursor CursorOffset_simps del: of_nat_add)
    then show ?thesis using res(1) r
      by (simp add: answer_cursor) (metis add.commute append_take_drop_id drop_drop)
  qed
qed

lemma follow_complete:
  assumes "ready s req" and "0 < q_Limit req" and "int (length (answer s req)) \<le> max_int64"
    and "length (answer s req) < fuel"
  shows "follow_cursor fuel (exec s) (req\<lparr>q_Cursor := []\<rparr>) = Some (answer s req)"
  using follow_from [of s "req\<lparr>q_Cursor := []\<rparr>" 0 fuel] assms
  by (simp add: ready_cursor answer_cursor CursorOffset_simps)

end

end
