(* ===== verification/Mem_Index.thy ===== *)
theory Mem_Index
  imports Query_Common
begin

text \<open>
  Package \<open>internal/engine/index\<close>: the inverted index over the hot (not yet flushed) events. Go's
  \<open>map[int]struct{}\<close> is a list of distinct positions.

  The specification is a plain scan: \<open>Execute\<close> on an index answers exactly the page of
  the indexed events that satisfy the request.
\<close>

section \<open>Data\<close>

type_synonym positions = "nat list"
type_synonym postings = "(string, (string, positions) gomap) gomap"

record mem_index =
  ix_events :: "event list"
  ix_labelIndex :: postings
  ix_fieldIndex :: postings
  ix_streamIndex :: "(string, positions) gomap"

section \<open>Operations\<close>

definition NewMemoryIndex :: mem_index where
  "NewMemoryIndex = \<lparr>ix_events = [], ix_labelIndex = [], ix_fieldIndex = [], ix_streamIndex = []\<rparr>"

text \<open>A nil map reads as the empty map.\<close>

definition mapget :: "('k, 'v list) gomap \<Rightarrow> 'k \<Rightarrow> 'v list" where
  "mapget m k = (case map_of m k of None \<Rightarrow> [] | Some v \<Rightarrow> v)"

definition addPosting :: "postings \<Rightarrow> string \<Rightarrow> string \<Rightarrow> nat \<Rightarrow> postings" where
  "addPosting target key val position =
     (let target = (if map_of target key = None then AList.update key [] target else target);
          inner = mapget target key;
          inner = (if map_of inner val = None then AList.update val [] inner else inner);
          inner = AList.update val (List.insert position (mapget inner val)) inner
      in AList.update key inner target)"

definition MemoryIndex_Index :: "mem_index \<Rightarrow> event \<Rightarrow> mem_index" where
  "MemoryIndex_Index m event =
     (let position = length (ix_events m);
          streamKey = StreamKey event;
          streams = (if map_of (ix_streamIndex m) streamKey = None
            then AList.update streamKey [] (ix_streamIndex m) else ix_streamIndex m)
      in m\<lparr>ix_events := ix_events m @ [Event_Clone event],
           ix_streamIndex := AList.update streamKey (List.insert position (mapget streams streamKey)) streams,
           ix_labelIndex := fold (\<lambda>(k, v) t. addPosting t k v position) (StreamLabels event) (ix_labelIndex m),
           ix_fieldIndex := fold (\<lambda>(k, v) t. addPosting t k v position) (ParsedFields event) (ix_fieldIndex m)\<rparr>)"

definition intersect :: "positions \<Rightarrow> positions \<Rightarrow> positions" where
  "intersect left right = (if left = [] \<or> right = [] then [] else filter (\<lambda>id. id \<in> set right) left)"

text \<open>The swap loop of \<open>reverseInts\<close>, with its two cursors.\<close>

function reverse_loop :: "'a list \<Rightarrow> nat \<Rightarrow> nat \<Rightarrow> 'a list" where
  "reverse_loop values left right =
     (if left < right then reverse_loop (values[left := values ! right, right := values ! left]) (left + 1) (right - 1)
      else values)"
  by pat_completeness auto
termination by (relation "measure (\<lambda>(values, left, right). right - left)") auto

declare reverse_loop.simps [simp del]

definition reverseInts :: "'a list \<Rightarrow> 'a list" where
  "reverseInts values = reverse_loop values 0 (length values - 1)"

text \<open>The first loop of \<open>Execute\<close>: positions and streams of the tenant's events in the time range.\<close>

definition initial_candidates :: "mem_index \<Rightarrow> query_request \<Rightarrow> positions \<times> string list" where
  "initial_candidates m req =
     fold (\<lambda>(idx, event) (candidates, streams).
         if TenantID event \<noteq> q_TenantID req then (candidates, streams)
         else if Timestamp event < q_Start req \<or> q_End req < Timestamp event then (candidates, streams)
         else (List.insert idx candidates, List.insert (StreamKey event) streams))
       (List.enumerate 0 (ix_events m)) ([], [])"

definition MemoryIndex_Execute ::
  "(string \<Rightarrow> string) \<Rightarrow> (string \<Rightarrow> 're result) \<Rightarrow> ('re \<Rightarrow> string \<Rightarrow> bool) \<Rightarrow> mem_index \<Rightarrow> query_request \<Rightarrow> query_result result" where
  "MemoryIndex_Execute uni Compile MatchString m req =
     (case Query_Validate req of Some err \<Rightarrow> Inl err | None \<Rightarrow>
      case CursorOffset req of Inl err \<Rightarrow> Inl err | Inr offset \<Rightarrow>
      case compileRegex Compile (q_TextRegex req) of Inl err \<Rightarrow> Inl err | Inr matcher \<Rightarrow>
      let (candidates, streams) = initial_candidates m req;
          candidates = fold (\<lambda>(k, v) c. intersect c (mapget (mapget (ix_labelIndex m) k) v)) (q_LabelSelectors req) candidates;
          candidates = fold (\<lambda>(k, v) c. intersect c (mapget (mapget (ix_fieldIndex m) k) v)) (q_FieldPredicates req) candidates;
          ids = sort candidates;
          ids = (if q_Tail req then reverseInts ids else ids);
          matches = map Event_Clone (filter (text_match uni MatchString req matcher) (map (\<lambda>id. ix_events m ! id) ids));
          (events, next) = page offset (q_Limit req) matches
      in Inr \<lparr>r_Events = events, r_Scanned = length ids, r_Matched = length events, r_Partial = False,
           r_NextCursor = next,
           r_Stats = \<lparr>CandidateStreams = length streams, CandidateChunks = length streams, ScannedEvents = length ids\<rparr>\<rparr>)"

section \<open>Specification\<close>

text \<open>What a request asks of an event of the hot index.\<close>

definition hot_matches ::
  "(string \<Rightarrow> string) \<Rightarrow> ('re \<Rightarrow> string \<Rightarrow> bool) \<Rightarrow> query_request \<Rightarrow> 're option \<Rightarrow> event \<Rightarrow> bool" where
  "hot_matches uni MatchString req matcher e \<longleftrightarrow>
     TenantID e = q_TenantID req \<and> q_Start req \<le> Timestamp e \<and> Timestamp e \<le> q_End req \<and>
     set (q_LabelSelectors req) \<subseteq> set (StreamLabels e) \<and>
     set (q_FieldPredicates req) \<subseteq> set (ParsedFields e) \<and>
     text_match uni MatchString req matcher e"

definition index_all :: "event list \<Rightarrow> mem_index" where
  "index_all es = fold (\<lambda>e m. MemoryIndex_Index m e) es NewMemoryIndex"

definition wf_index :: "mem_index \<Rightarrow> bool" where
  "wf_index m \<longleftrightarrow> list_all wf_event (ix_events m) \<and>
     (\<forall>k v i. i \<in> set (mapget (mapget (ix_labelIndex m) k) v) \<longleftrightarrow>
        i < length (ix_events m) \<and> (k, v) \<in> set (StreamLabels (ix_events m ! i))) \<and>
     (\<forall>k v i. i \<in> set (mapget (mapget (ix_fieldIndex m) k) v) \<longleftrightarrow>
        i < length (ix_events m) \<and> (k, v) \<in> set (ParsedFields (ix_events m ! i))) \<and>
     (\<forall>k i. i \<in> set (mapget (ix_streamIndex m) k) \<longleftrightarrow>
        i < length (ix_events m) \<and> k = StreamKey (ix_events m ! i))"

section \<open>Lemmas\<close>

lemma mapget_update: "mapget (AList.update k v m) k' = (if k' = k then v else mapget m k')"
  by (simp add: mapget_def update_conv')

lemma mapget_Nil [simp]: "mapget [] k = []"
  by (simp add: mapget_def)

lemma mapget_ensure [simp]: "mapget (if map_of m k = None then AList.update k [] m else m) k' = mapget m k'"
  by (simp add: mapget_update) (simp add: mapget_def)

lemma mapget_addPosting:
  "set (mapget (mapget (addPosting t key val p) k) v) =
     (if k = key \<and> v = val then {p} else {}) \<union> set (mapget (mapget t k) v)"
  by (simp add: addPosting_def Let_def mapget_update mapget_ensure split del: if_split) (simp add: mapget_update)

lemma mapget_fold_addPosting:
  "set (mapget (mapget (fold (\<lambda>(k, v) t. addPosting t k v p) kvs t) k) v) =
     (if (k, v) \<in> set kvs then {p} else {}) \<union> set (mapget (mapget t k) v)"
  by (induction kvs arbitrary: t) (auto simp: mapget_addPosting split: if_splits)

lemma wf_NewMemoryIndex [simp, intro]: "wf_index NewMemoryIndex"
  by (simp add: wf_index_def NewMemoryIndex_def)

lemma wf_Index [go_inv]:
  assumes "wf_index m" and "wf_event e"
  shows "wf_index (MemoryIndex_Index m e)"
  using assms
  by (auto simp: wf_index_def MemoryIndex_Index_def Let_def mapget_fold_addPosting mapget_update nth_append
      less_Suc_eq split: if_splits)

lemma index_all_snoc: "index_all (es @ [e]) = MemoryIndex_Index (index_all es) e"
  by (simp add: index_all_def)

lemma index_all_wf:
  "list_all wf_event es \<Longrightarrow> wf_index (index_all es) \<and> ix_events (index_all es) = es"
proof (induction es rule: rev_induct)
  case Nil
  then show ?case by (simp add: index_all_def) (simp add: NewMemoryIndex_def)
next
  case (snoc e es)
  then show ?case by (auto simp: index_all_snoc wf_Index) (simp add: MemoryIndex_Index_def Let_def)
qed

lemma set_intersect [simp]: "set (intersect l r) = set l \<inter> set r"
  by (auto simp: intersect_def)

lemma distinct_intersect [simp]: "distinct l \<Longrightarrow> distinct (intersect l r)"
  by (simp add: intersect_def)

lemma fold_intersect:
  "set (fold (\<lambda>(k, v) c. intersect c (f k v)) kvs c) = {i \<in> set c. \<forall>(k, v) \<in> set kvs. i \<in> set (f k v)}"
  "distinct c \<Longrightarrow> distinct (fold (\<lambda>(k, v) c. intersect c (f k v)) kvs c)"
  by (induction kvs arbitrary: c) auto

lemma length_reverse_loop [simp]: "length (reverse_loop xs a b) = length xs"
  by (induction xs a b rule: reverse_loop.induct) (subst reverse_loop.simps, simp)

lemma reverse_loop_rev:
  "b < length xs \<Longrightarrow> i < length xs \<Longrightarrow>
   reverse_loop xs a b ! i = (if a \<le> i \<and> i \<le> b then xs ! (a + b - i) else xs ! i)"
proof (induction xs a b rule: reverse_loop.induct)
  case (1 xs a b)
  show ?case
  proof (cases "a < b")
    case True
    let ?ys = "xs[a := xs ! b, b := xs ! a]"
    have "reverse_loop ?ys (a + 1) (b - 1) ! i =
        (if a + 1 \<le> i \<and> i \<le> b - 1 then ?ys ! (a + 1 + (b - 1) - i) else ?ys ! i)"
      using True "1.prems" by (intro "1.IH") auto
    then show ?thesis using True "1.prems" by (auto simp: reverse_loop.simps [of xs a b] nth_list_update)
  next
    case False
    then have "a + b - i = i" if "a \<le> i" "i \<le> b" using that by linarith
    then show ?thesis using False by (auto simp: reverse_loop.simps [of xs a b])
  qed
qed

lemma reverseInts_rev: "reverseInts xs = rev xs"
proof (cases "xs = []")
  case True
  then show ?thesis by (simp add: reverseInts_def reverse_loop.simps)
next
  case False
  then show ?thesis
    by (intro nth_equalityI) (auto simp: reverseInts_def rev_nth reverse_loop_rev)
qed

lemma initial_candidates_eq:
  "set (fst (initial_candidates m req)) =
     {i. i < length (ix_events m) \<and> TenantID (ix_events m ! i) = q_TenantID req \<and>
         q_Start req \<le> Timestamp (ix_events m ! i) \<and> Timestamp (ix_events m ! i) \<le> q_End req}"
  "distinct (fst (initial_candidates m req))"
proof -
  define ok where "ok e \<longleftrightarrow> TenantID e = q_TenantID req \<and> q_Start req \<le> Timestamp e \<and> Timestamp e \<le> q_End req" for e :: event
  let ?f = "\<lambda>(idx, event) (candidates, streams).
         if TenantID event \<noteq> q_TenantID req then (candidates, streams)
         else if Timestamp event < q_Start req \<or> q_End req < Timestamp event then (candidates, streams)
         else (List.insert idx candidates, List.insert (StreamKey event) streams)"
  have "set (fst (fold ?f ps (c, s))) = set c \<union> {i. \<exists>e. (i, e) \<in> set ps \<and> ok e} \<and>
        (distinct c \<longrightarrow> distinct (fst (fold ?f ps (c, s))))" for ps c s
  proof (induction ps arbitrary: c s)
    case Nil
    then show ?case by simp
  next
    case (Cons p ps)
    obtain i e where p: "p = (i, e)" by (cases p)
    show ?case
    proof (cases "ok e")
      case True
      then have "fold ?f (p # ps) (c, s) = fold ?f ps (List.insert i c, List.insert (StreamKey e) s)"
        using p by (simp add: ok_def not_less)
      then show ?thesis using Cons.IH [of "List.insert i c" "List.insert (StreamKey e) s"] True p by auto
    next
      case False
      then have "fold ?f (p # ps) (c, s) = fold ?f ps (c, s)" using p by (auto simp: ok_def not_le)
      then show ?thesis using Cons.IH [of c s] False p by auto
    qed
  qed
  from this [of "List.enumerate 0 (ix_events m)" "[]" "[]"]
  show "set (fst (initial_candidates m req)) =
     {i. i < length (ix_events m) \<and> TenantID (ix_events m ! i) = q_TenantID req \<and>
         q_Start req \<le> Timestamp (ix_events m ! i) \<and> Timestamp (ix_events m ! i) \<le> q_End req}"
    and "distinct (fst (initial_candidates m req))"
    by (auto simp: initial_candidates_def in_set_enumerate_eq ok_def)
qed

lemma map_nth_filter_upt: "map ((!) xs) (filter (\<lambda>i. P (xs ! i)) [0..<length xs]) = filter P xs"
proof -
  have "filter P xs = filter P (map ((!) xs) [0..<length xs])" by (simp add: map_nth)
  then show ?thesis by (simp add: filter_map o_def)
qed

lemma sorted_positions:
  assumes "distinct c" and "set c = {i. i < length xs \<and> P (xs ! i)}"
  shows "map ((!) xs) (sort c) = filter P xs"
proof -
  have "sort c = filter (\<lambda>i. P (xs ! i)) [0..<length xs]"
    by (rule sorted_distinct_set_unique) (use assms in \<open>auto simp: sorted_filter [of id, simplified]\<close>)
  then show ?thesis by (simp add: map_nth_filter_upt)
qed

text \<open>The positions that survive the selectors are those of the events the request selects.\<close>

lemma candidate_events:
  assumes "wf_index m"
  shows "map ((!) (ix_events m)) (sort (fold (\<lambda>(k, v) c. intersect c (mapget (mapget (ix_fieldIndex m) k) v)) (q_FieldPredicates req)
          (fold (\<lambda>(k, v) c. intersect c (mapget (mapget (ix_labelIndex m) k) v)) (q_LabelSelectors req)
            (fst (initial_candidates m req))))) =
     filter (\<lambda>e. TenantID e = q_TenantID req \<and> q_Start req \<le> Timestamp e \<and> Timestamp e \<le> q_End req \<and>
        set (q_LabelSelectors req) \<subseteq> set (StreamLabels e) \<and> set (q_FieldPredicates req) \<subseteq> set (ParsedFields e)) (ix_events m)"
  using assms
  by (intro sorted_positions) (auto simp: fold_intersect initial_candidates_eq wf_index_def)

lemma clone_filter_events:
  assumes "wf_index m" and "set xs \<subseteq> set (ix_events m)"
  shows "map Event_Clone (filter P xs) = filter P xs"
  using assms by (auto simp: wf_index_def list_all_iff intro!: map_idI)

text \<open>\<open>Execute\<close> answers the requested page of a scan over the indexed events, in index order or, for a
  tail request, backwards.\<close>

lemma Execute_scan:
  assumes "wf_index m" and "Query_Validate req = None" and "CursorOffset req = Inr offset"
    and "compileRegex Compile (q_TextRegex req) = Inr matcher"
  shows "\<exists>res. MemoryIndex_Execute uni Compile MatchString m req = Inr res \<and>
     (r_Events res, r_NextCursor res) = page offset (q_Limit req)
       (filter (hot_matches uni MatchString req matcher) (if q_Tail req then rev (ix_events m) else ix_events m)) \<and>
     r_Matched res = length (r_Events res)"
proof -
  let ?c = "fold (\<lambda>(k, v) c. intersect c (mapget (mapget (ix_fieldIndex m) k) v)) (q_FieldPredicates req)
          (fold (\<lambda>(k, v) c. intersect c (mapget (mapget (ix_labelIndex m) k) v)) (q_LabelSelectors req)
            (fst (initial_candidates m req)))"
  let ?t = "text_match uni MatchString req matcher"
  let ?ids = "if q_Tail req then reverseInts (sort ?c) else sort ?c"
  define sel where "sel e \<longleftrightarrow> TenantID e = q_TenantID req \<and> q_Start req \<le> Timestamp e \<and> Timestamp e \<le> q_End req \<and>
        set (q_LabelSelectors req) \<subseteq> set (StreamLabels e) \<and> set (q_FieldPredicates req) \<subseteq> set (ParsedFields e)" for e :: event
  have "map (\<lambda>id. ix_events m ! id) ?ids = filter sel (if q_Tail req then rev (ix_events m) else ix_events m)"
    using candidate_events [OF assms(1), of req, folded sel_def] by (simp add: reverseInts_rev rev_map [symmetric] rev_filter)
  moreover have "filter ?t (filter sel xs) = filter (hot_matches uni MatchString req matcher) xs" for xs
    by (auto simp: sel_def hot_matches_def intro!: filter_cong)
  ultimately have "filter ?t (map (\<lambda>id. ix_events m ! id) ?ids) =
      filter (hot_matches uni MatchString req matcher) (if q_Tail req then rev (ix_events m) else ix_events m)"
    by metis
  moreover have "map Event_Clone (filter (hot_matches uni MatchString req matcher) (if q_Tail req then rev (ix_events m) else ix_events m)) =
      filter (hot_matches uni MatchString req matcher) (if q_Tail req then rev (ix_events m) else ix_events m)"
    by (intro clone_filter_events [OF assms(1)]) simp_all
  ultimately have m: "map Event_Clone (filter ?t (map (\<lambda>id. ix_events m ! id) ?ids)) =
      filter (hot_matches uni MatchString req matcher) (if q_Tail req then rev (ix_events m) else ix_events m)"
    by (simp only:)
  obtain c0 s0 where i: "initial_candidates m req = (c0, s0)" by (cases "initial_candidates m req")
  obtain ev nx where pg: "page offset (q_Limit req) (filter (hot_matches uni MatchString req matcher)
      (if q_Tail req then rev (ix_events m) else ix_events m)) = (ev, nx)"
    by (metis surj_pair)
  show ?thesis
    using assms(2-4) m [unfolded i fst_conv] pg
    by (simp add: MemoryIndex_Execute_def i Let_def split del: if_split)
qed

lemma page_cursor_irrelevant [simp]:
  "hot_matches uni MatchString (req\<lparr>q_Cursor := c\<rparr>) = hot_matches uni MatchString req"
  by (simp add: fun_eq_iff hot_matches_def text_match_def)

definition hot_ready :: "(string \<Rightarrow> 're result) \<Rightarrow> mem_index \<Rightarrow> query_request \<Rightarrow> bool" where
  "hot_ready Compile m req \<longleftrightarrow> wf_index m \<and> Query_Validate req = None \<and>
     (\<exists>matcher. compileRegex Compile (q_TextRegex req) = Inr matcher)"

definition hot_answer ::
  "(string \<Rightarrow> string) \<Rightarrow> (string \<Rightarrow> 're result) \<Rightarrow> ('re \<Rightarrow> string \<Rightarrow> bool) \<Rightarrow> mem_index \<Rightarrow> query_request \<Rightarrow> event list" where
  "hot_answer uni Compile MatchString m req =
     (case compileRegex Compile (q_TextRegex req) of Inl _ \<Rightarrow> []
      | Inr matcher \<Rightarrow> filter (hot_matches uni MatchString req matcher) (if q_Tail req then rev (ix_events m) else ix_events m))"

interpretation hot: paged_query "hot_ready Compile" "MemoryIndex_Execute uni Compile MatchString" "hot_answer uni Compile MatchString"
  for uni Compile MatchString
proof
  fix m req offset
  assume "hot_ready Compile m req" and "CursorOffset req = Inr offset"
  then show "\<exists>res. MemoryIndex_Execute uni Compile MatchString m req = Inr res \<and>
      (r_Events res, r_NextCursor res) = page offset (q_Limit req) (hot_answer uni Compile MatchString m req)"
    using Execute_scan [of m req offset Compile] by (fastforce simp: hot_ready_def hot_answer_def)
next
  fix m req c
  show "hot_ready Compile m (req\<lparr>q_Cursor := c\<rparr>) = hot_ready Compile m req"
    by (simp add: hot_ready_def Query_Validate_def)
next
  fix m req c
  show "hot_answer uni Compile MatchString m (req\<lparr>q_Cursor := c\<rparr>) = hot_answer uni Compile MatchString m req"
    by (simp add: hot_answer_def split: sum.split)
qed

section \<open>Properties\<close>

text \<open>
  C22. The inverted index answers like a scan: on the index of any events, a valid request gets
  the page, at its cursor and with its limit, of the indexed events that match its tenant, time range,
  label selectors, field predicates and text conditions, in arrival order or, for a tail request, backwards.
\<close>

theorem hot_query_is_scan:
  assumes "list_all wf_event es" and "Query_Validate req = None" and "CursorOffset req = Inr offset"
    and "compileRegex Compile (q_TextRegex req) = Inr matcher"
  shows "\<exists>res. MemoryIndex_Execute uni Compile MatchString (index_all es) req = Inr res \<and>
     (r_Events res, r_NextCursor res) = page offset (q_Limit req)
       (filter (hot_matches uni MatchString req matcher) (if q_Tail req then rev es else es)) \<and>
     r_Matched res = length (r_Events res)"
proof -
  have ix: "wf_index (index_all es)" "ix_events (index_all es) = es"
    using index_all_wf [OF assms(1)] by simp_all
  show ?thesis using Execute_scan [OF ix(1) assms(2-4), of uni MatchString] unfolding ix(2) .
qed

definition sample_event :: "time \<Rightarrow> string \<Rightarrow> event" where
  "sample_event ts body = zero_event\<lparr>Timestamp := ts, TenantID := ''t'', Body := body,
     StreamLabels := [(''svc'', ''api'')], ParsedFields := [(''code'', ''500'')]\<rparr>"

lemma sample_event_wf [simp]: "wf_event (sample_event ts body)"
  by (simp add: sample_event_def wf_event_def zero_event_def wf_map_def)

theorem hot_query_is_scan_witness:
  "\<exists>res. MemoryIndex_Execute id Inr (\<lambda>_ _. True) (index_all [sample_event 5 ''a'', sample_event 6 ''b''])
       (sample_query\<lparr>q_LabelSelectors := [(''svc'', ''api'')]\<rparr>) = Inr res \<and> r_Matched res = length (r_Events res)"
  using hot_query_is_scan [of "[sample_event 5 ''a'', sample_event 6 ''b'']"
      "sample_query\<lparr>q_LabelSelectors := [(''svc'', ''api'')]\<rparr>" 0 Inr None id "\<lambda>_ _. True"]
  by (simp add: sample_query_def Query_Validate_def CursorOffset_def compileRegex_def IsZero_def) blast

text \<open>
  C23. Paging through the hot index is complete: starting without a cursor and following each
  \<open>NextCursor\<close>, a client with a positive limit receives every matching event exactly once, in order,
  and stops after at most one request per match and one more.
\<close>

theorem hot_paging_complete:
  assumes "hot_ready Compile m req" and "0 < q_Limit req"
    and "int (length (ix_events m)) \<le> max_int64" and "length (hot_answer uni Compile MatchString m req) < fuel"
  shows "follow_cursor fuel (MemoryIndex_Execute uni Compile MatchString m) (req\<lparr>q_Cursor := []\<rparr>) =
     Some (hot_answer uni Compile MatchString m req)"
proof -
  have "length (hot_answer uni Compile MatchString m req) \<le> length (ix_events m)"
    by (auto simp: hot_answer_def length_filter_le split: sum.split intro: order_trans [OF length_filter_le])
  then show ?thesis using assms by (intro hot.follow_complete) auto
qed

theorem hot_paging_complete_witness:
  "follow_cursor 3 (MemoryIndex_Execute id Inr (\<lambda>_ _. True) (index_all [sample_event 5 ''a'', sample_event 6 ''b'']))
     (sample_query\<lparr>q_Limit := 1, q_Cursor := []\<rparr>) = Some [sample_event 5 ''a'', sample_event 6 ''b'']"
proof -
  let ?es = "[sample_event 5 ''a'', sample_event 6 ''b'']" and ?q = "sample_query\<lparr>q_Limit := 1\<rparr>"
  have ix: "wf_index (index_all ?es)" "ix_events (index_all ?es) = ?es"
    using index_all_wf [of ?es] by simp_all
  have a: "hot_answer id Inr (\<lambda>_ _. True) (index_all ?es) ?q = ?es"
    unfolding hot_answer_def ix
    by (simp add: compileRegex_def hot_matches_def text_match_def sample_query_def sample_event_def zero_event_def)
  have r: "hot_ready Inr (index_all ?es) ?q"
    by (simp add: hot_ready_def ix Query_Validate_def sample_query_def compileRegex_def IsZero_def)
  show ?thesis
    using hot_paging_complete [OF r, of id "\<lambda>_ _. True" 3] a by (simp add: ix max_int64_def)
qed

end
