(* ===== verification/Cache.thy ===== *)
theory Cache
  imports Chunk
begin

text \<open>
  Package \<open>internal/engine/cache\<close>: the query-result cache and the chunk cache. Both keep a
  doubly linked list (\<open>container/list\<close>, most recently used first) and a map from keys to list
  elements. A list element is a reference; here it is a number, fresh for each \<open>PushFront\<close>, paired in
  \<open>order\<close> with the entry it points to.

  The locale \<open>lru_cache\<close> states what both promise over the abstract content, an association
  list in order of recency, and derives from it that a key read or written recently survives.
\<close>

section \<open>The list of \<open>container/list\<close>\<close>

type_synonym 'e elements = "(nat \<times> 'e) list"

definition list_Remove :: "nat \<Rightarrow> 'e elements \<Rightarrow> 'e elements" where
  "list_Remove el l = filter (\<lambda>p. fst p \<noteq> el) l"

definition list_MoveToFront :: "nat \<Rightarrow> 'e elements \<Rightarrow> 'e elements" where
  "list_MoveToFront el l = filter (\<lambda>p. fst p = el) l @ list_Remove el l"

definition list_Back :: "'e elements \<Rightarrow> nat option" where
  "list_Back l = (if l = [] then None else Some (fst (last l)))"

section \<open>The query cache\<close>

record cache_stats =
  Entries :: nat
  Hits :: u64
  Misses :: u64
  Evictions :: u64

record query_entry =
  qe_key :: string
  qe_value :: query_result
  qe_expiresAt :: time

record query_cache =
  qc_maxItems :: int
  qc_ttl :: duration
  qc_items :: "(string, nat) gomap"
  qc_order :: "query_entry elements"
  qc_hits :: u64
  qc_misses :: u64
  qc_evicted :: u64
  qc_next :: nat

definition NewQueryCache :: "int \<Rightarrow> duration \<Rightarrow> query_cache" where
  "NewQueryCache maxItems ttl = \<lparr>qc_maxItems = (if maxItems \<le> 0 then 256 else maxItems),
     qc_ttl = (if ttl \<le> 0 then 30 * second else ttl), qc_items = [], qc_order = [],
     qc_hits = 0, qc_misses = 0, qc_evicted = 0, qc_next = 0\<rparr>"

definition QueryCache_removeElement :: "query_cache \<Rightarrow> nat option \<Rightarrow> query_cache" where
  "QueryCache_removeElement c element = (case element of None \<Rightarrow> c | Some el \<Rightarrow>
     case map_of (qc_order c) el of None \<Rightarrow> c | Some entry \<Rightarrow>
       c\<lparr>qc_items := AList.delete (qe_key entry) (qc_items c), qc_order := list_Remove el (qc_order c),
         qc_evicted := qc_evicted c + 1\<rparr>)"

definition QueryCache_Get :: "time \<Rightarrow> query_cache \<Rightarrow> string \<Rightarrow> query_result option \<times> query_cache" where
  "QueryCache_Get now c key =
     (case map_of (qc_items c) key of
        None \<Rightarrow> (None, c\<lparr>qc_misses := qc_misses c + 1\<rparr>)
      | Some element \<Rightarrow> (case map_of (qc_order c) element of None \<Rightarrow> (None, c) | Some entry \<Rightarrow>
          if qe_expiresAt entry < now then
            (let c = QueryCache_removeElement c (Some element) in (None, c\<lparr>qc_misses := qc_misses c + 1\<rparr>))
          else (Some (qe_value entry),
            c\<lparr>qc_order := list_MoveToFront element (qc_order c), qc_hits := qc_hits c + 1\<rparr>)))"

definition QueryCache_Put :: "time \<Rightarrow> query_cache \<Rightarrow> string \<Rightarrow> query_result \<Rightarrow> query_cache" where
  "QueryCache_Put now c key val =
     (case map_of (qc_items c) key of
        Some element \<Rightarrow> c\<lparr>qc_order := list_MoveToFront element
          (map (\<lambda>(el, entry). if el = element then (el, entry\<lparr>qe_value := val, qe_expiresAt := now + qc_ttl c\<rparr>)
             else (el, entry)) (qc_order c))\<rparr>
      | None \<Rightarrow>
          let c = (if int (length (qc_order c)) \<ge> qc_maxItems c
                then QueryCache_removeElement c (list_Back (qc_order c)) else c);
              entry = \<lparr>qe_key = key, qe_value = val, qe_expiresAt = now + qc_ttl c\<rparr>
          in c\<lparr>qc_order := (qc_next c, entry) # qc_order c,
               qc_items := AList.update key (qc_next c) (qc_items c), qc_next := qc_next c + 1\<rparr>)"

definition QueryCache_Stats :: "query_cache \<Rightarrow> cache_stats" where
  "QueryCache_Stats c = \<lparr>Entries = length (qc_order c), Hits = qc_hits c, Misses = qc_misses c, Evictions = qc_evicted c\<rparr>"

definition QueryCache_Reset :: "query_cache \<Rightarrow> query_cache" where
  "QueryCache_Reset c = c\<lparr>qc_items := [], qc_order := [], qc_hits := 0, qc_misses := 0, qc_evicted := 0\<rparr>"

section \<open>The chunk cache\<close>

record chunk_entry =
  ce_key :: string
  ce_value :: "chunk option"

record chunk_cache =
  cc_maxItems :: int
  cc_items :: "(string, nat) gomap"
  cc_order :: "chunk_entry elements"
  cc_hits :: u64
  cc_misses :: u64
  cc_evicted :: u64
  cc_next :: nat

definition NewChunkCache :: "int \<Rightarrow> chunk_cache" where
  "NewChunkCache maxItems = \<lparr>cc_maxItems = (if maxItems \<le> 0 then 512 else maxItems), cc_items = [],
     cc_order = [], cc_hits = 0, cc_misses = 0, cc_evicted = 0, cc_next = 0\<rparr>"

text \<open>A shallow copy with its own event slice: the same value.\<close>

definition cloneChunk :: "chunk option \<Rightarrow> chunk option" where
  "cloneChunk ch = (case ch of None \<Rightarrow> None | Some ch \<Rightarrow>
     Some (if 0 < length (ch_Events ch) then ch\<lparr>ch_Events := [] @ ch_Events ch\<rparr> else ch))"

definition ChunkCache_removeElement :: "chunk_cache \<Rightarrow> nat option \<Rightarrow> chunk_cache" where
  "ChunkCache_removeElement c element = (case element of None \<Rightarrow> c | Some el \<Rightarrow>
     case map_of (cc_order c) el of None \<Rightarrow> c | Some entry \<Rightarrow>
       c\<lparr>cc_items := AList.delete (ce_key entry) (cc_items c), cc_order := list_Remove el (cc_order c),
         cc_evicted := cc_evicted c + 1\<rparr>)"

definition ChunkCache_Get :: "chunk_cache \<Rightarrow> string \<Rightarrow> chunk option \<times> chunk_cache" where
  "ChunkCache_Get c key =
     (case map_of (cc_items c) key of
        None \<Rightarrow> (None, c\<lparr>cc_misses := cc_misses c + 1\<rparr>)
      | Some element \<Rightarrow>
          let c' = c\<lparr>cc_order := list_MoveToFront element (cc_order c), cc_hits := cc_hits c + 1\<rparr>
          in case map_of (cc_order c) element of None \<Rightarrow> (None, c') | Some entry \<Rightarrow>
             (cloneChunk (ce_value entry), c'))"

definition ChunkCache_Put :: "chunk_cache \<Rightarrow> string \<Rightarrow> chunk option \<Rightarrow> chunk_cache" where
  "ChunkCache_Put c key val = (if val = None then c else
     case map_of (cc_items c) key of
        Some element \<Rightarrow> c\<lparr>cc_order := list_MoveToFront element
          (map (\<lambda>(el, entry). if el = element then (el, entry\<lparr>ce_value := cloneChunk val\<rparr>) else (el, entry)) (cc_order c))\<rparr>
      | None \<Rightarrow>
          let c = (if int (length (cc_order c)) \<ge> cc_maxItems c
                then ChunkCache_removeElement c (list_Back (cc_order c)) else c);
              entry = \<lparr>ce_key = key, ce_value = cloneChunk val\<rparr>
          in c\<lparr>cc_order := (cc_next c, entry) # cc_order c,
               cc_items := AList.update key (cc_next c) (cc_items c), cc_next := cc_next c + 1\<rparr>)"

definition ChunkCache_Stats :: "chunk_cache \<Rightarrow> cache_stats" where
  "ChunkCache_Stats c = \<lparr>Entries = length (cc_order c), Hits = cc_hits c, Misses = cc_misses c, Evictions = cc_evicted c\<rparr>"

definition ChunkCache_Reset :: "chunk_cache \<Rightarrow> chunk_cache" where
  "ChunkCache_Reset c = c\<lparr>cc_items := [], cc_order := [], cc_hits := 0, cc_misses := 0, cc_evicted := 0\<rparr>"

section \<open>Specification: recency lists\<close>

text \<open>The content of an LRU cache is an association list, most recently used key first.\<close>

definition lru_put :: "int \<Rightarrow> string \<Rightarrow> 'e \<Rightarrow> (string \<times> 'e) list \<Rightarrow> (string \<times> 'e) list" where
  "lru_put cap k e xs = (k, e) #
     (if k \<in> fst ` set xs then AList.delete k xs
      else if int (length xs) \<ge> cap then butlast xs else xs)"

definition lru_touch :: "string \<Rightarrow> (string \<times> 'e) list \<Rightarrow> (string \<times> 'e) list" where
  "lru_touch k xs = filter (\<lambda>p. fst p = k) xs @ AList.delete k xs"

definition rank :: "string \<Rightarrow> (string \<times> 'e) list \<Rightarrow> nat" where
  "rank k xs = length (takeWhile (\<lambda>p. fst p \<noteq> k) xs)"

text \<open>A request to a cache: a read or a write.\<close>

datatype 'v cache_op = CGet time string | CPut time string 'v

fun op_key :: "'v cache_op \<Rightarrow> string" where
  "op_key (CGet now k) = k"
| "op_key (CPut now k v) = k"

fun cache_step ::
  "(time \<Rightarrow> 's \<Rightarrow> string \<Rightarrow> 'v option \<times> 's) \<Rightarrow> (time \<Rightarrow> 's \<Rightarrow> string \<Rightarrow> 'v \<Rightarrow> 's) \<Rightarrow> 's \<Rightarrow> 'v cache_op \<Rightarrow> 's" where
  "cache_step get put s (CGet now k) = snd (get now s k)"
| "cache_step get put s (CPut now k v) = put now s k v"

text \<open>The value last written under a key.\<close>

fun last_put :: "string \<Rightarrow> 'v cache_op list \<Rightarrow> 'v option" where
  "last_put k [] = None"
| "last_put k (CGet now j # ops) = last_put k ops"
| "last_put k (CPut now j v # ops) =
     (case last_put k ops of Some w \<Rightarrow> Some w | None \<Rightarrow> if j = k then Some v else None)"

lemma last_put_snoc:
  "last_put k (ops @ [ope]) = (case ope of CGet now j \<Rightarrow> last_put k ops
     | CPut now j v \<Rightarrow> if j = k then Some v else last_put k ops)"
  by (induction k ops rule: last_put.induct) (auto split: cache_op.splits option.splits)

locale lru_cache =
  fixes inv :: "'s \<Rightarrow> bool"
    and content :: "'s \<Rightarrow> (string \<times> 'e) list"
    and cap :: "'s \<Rightarrow> int"
    and entry :: "time \<Rightarrow> 's \<Rightarrow> string \<Rightarrow> 'v \<Rightarrow> 'e"
    and val :: "'e \<Rightarrow> 'v"
    and live :: "time \<Rightarrow> 'e \<Rightarrow> bool"
    and get :: "time \<Rightarrow> 's \<Rightarrow> string \<Rightarrow> 'v option \<times> 's"
    and put :: "time \<Rightarrow> 's \<Rightarrow> string \<Rightarrow> 'v \<Rightarrow> 's"
  assumes content_distinct: "inv s \<Longrightarrow> distinct (map fst (content s))"
    and content_bounded: "inv s \<Longrightarrow> int (length (content s)) \<le> cap s \<and> 0 < cap s"
    and val_entry: "val (entry now s k v) = v"
    and put_inv: "inv s \<Longrightarrow> inv (put now s k v)"
    and put_content: "inv s \<Longrightarrow> content (put now s k v) = lru_put (cap s) k (entry now s k v) (content s)"
    and put_cap: "inv s \<Longrightarrow> cap (put now s k v) = cap s"
    and get_inv: "inv s \<Longrightarrow> inv (snd (get now s k))"
    and get_cap: "inv s \<Longrightarrow> cap (snd (get now s k)) = cap s"
    and get_miss: "inv s \<Longrightarrow> map_of (content s) k = None \<Longrightarrow>
        fst (get now s k) = None \<and> content (snd (get now s k)) = content s"
    and get_hit: "inv s \<Longrightarrow> map_of (content s) k = Some e \<Longrightarrow> live now e \<Longrightarrow>
        fst (get now s k) = Some (val e) \<and> content (snd (get now s k)) = lru_touch k (content s)"
    and get_dead: "inv s \<Longrightarrow> map_of (content s) k = Some e \<Longrightarrow> \<not> live now e \<Longrightarrow>
        fst (get now s k) = None \<and> content (snd (get now s k)) = AList.delete k (content s)"
begin

abbreviation step :: "'s \<Rightarrow> 'v cache_op \<Rightarrow> 's" where
  "step \<equiv> cache_step get put"

lemma get_after_put:
  assumes "inv s" and "live now' (entry now s k v)"
  shows "fst (get now' (put now s k v) k) = Some v"
proof -
  have "map_of (content (put now s k v)) k = Some (entry now s k v)"
    using put_content [OF assms(1), of now k v] by (simp add: lru_put_def)
  then show ?thesis using get_hit put_inv assms val_entry by metis
qed

text \<open>An entry of the content after a request was there before, or the request wrote it.\<close>

lemma step_content:
  assumes "inv s" and "map_of (content (step s ope)) k = Some e"
  shows "case ope of CGet now j \<Rightarrow> map_of (content s) k = Some e
     | CPut now j v \<Rightarrow> if j = k then e = entry now s k v else map_of (content s) k = Some e"
proof (cases ope)
  case (CGet now j)
  have touch: "map_of (lru_touch j xs) k = Some e \<Longrightarrow> map_of xs k = Some e" for xs :: "(string \<times> 'e) list"
  proof (cases "k = j")
    case True
    have "map_of (filter (\<lambda>p. fst p = j) xs) j = map_of xs j" by (induction xs) auto
    then show "map_of (lru_touch j xs) k = Some e \<Longrightarrow> map_of xs k = Some e"
      using True by (simp add: lru_touch_def map_add_def delete_conv' split: option.splits)
  next
    case False
    have "map_of (filter (\<lambda>p. fst p = j) xs) k = None" using False by (auto simp: map_of_eq_None_iff)
    then show "map_of (lru_touch j xs) k = Some e \<Longrightarrow> map_of xs k = Some e"
      using False by (simp add: lru_touch_def map_add_def delete_conv')
  qed
  consider "map_of (content s) j = None" | d where "map_of (content s) j = Some d" "live now d"
    | d where "map_of (content s) j = Some d" "\<not> live now d" by (cases "map_of (content s) j") auto
  then show ?thesis
  proof cases
    case 1
    then show ?thesis using get_miss [OF assms(1) 1, of now] assms(2) CGet by simp
  next
    case (2 d)
    then show ?thesis using get_hit [OF assms(1) 2] assms(2) CGet touch by simp
  next
    case (3 d)
    then show ?thesis
      using get_dead [OF assms(1) 3] assms(2) CGet by (simp add: delete_conv' restrict_map_def split: if_splits)
  qed
next
  case (CPut now j v)
  have b: "map_of (butlast xs) k = Some e \<Longrightarrow> map_of xs k = Some e" for xs :: "(string \<times> 'e) list"
    by (induction xs) (auto split: if_splits)
  have c: "map_of (lru_put (cap s) j (entry now s j v) (content s)) k = Some e"
    using assms(2) put_content [OF assms(1), of now j v] CPut by simp
  show ?thesis
  proof (cases "j = k")
    case True
    then show ?thesis using c CPut by (simp add: lru_put_def)
  next
    case False
    then have "map_of (content s) k = Some e"
      using c b [of "content s"] by (simp add: lru_put_def delete_conv' split: if_splits)
    then show ?thesis using CPut False by simp
  qed
qed

lemma step_inv: "inv s \<Longrightarrow> inv (step s ope)"
  by (cases ope) (simp_all add: put_inv get_inv)

lemma run_inv: "inv s \<Longrightarrow> inv (foldl step s ops)"
  by (induction ops arbitrary: s) (simp_all add: step_inv)

lemma content_latest:
  assumes "inv s" and "content s = []" and "map_of (content (foldl step s ops)) k = Some e"
  shows "last_put k ops = Some (val e)"
  using assms(3)
proof (induction ops rule: rev_induct)
  case Nil
  then show ?case using assms(2) by simp
next
  case (snoc ope ops)
  then have "map_of (content (step (foldl step s ops) ope)) k = Some e" by simp
  from step_content [OF run_inv [OF assms(1)] this] show ?case
    using snoc.IH by (auto simp: last_put_snoc val_entry split: cache_op.splits if_splits)
qed

text \<open>A cache that was empty at first only returns the value last written under the key.\<close>

lemma get_latest:
  assumes "inv s" and "content s = []" and "fst (get now (foldl step s ops) k) = Some v"
  shows "last_put k ops = Some v"
proof (cases "map_of (content (foldl step s ops)) k")
  case None
  then show ?thesis using get_miss [OF run_inv [OF assms(1)] None, of now] assms(3) by simp
next
  case (Some e)
  have "val e = v"
    using get_hit [OF run_inv [OF assms(1)] Some, of now] get_dead [OF run_inv [OF assms(1)] Some, of now] assms(3)
    by (cases "live now e") simp_all
  then show ?thesis using content_latest [OF assms(1,2) Some] by simp
qed

lemma rank_Cons: "fst p \<noteq> k \<Longrightarrow> rank k (p # xs) = Suc (rank k xs)"
  by (simp add: rank_def)

lemma rank_filter: "rank k (filter P xs) \<le> rank k xs" if "\<forall>p \<in> set xs. fst p = k \<longrightarrow> P p"
  using that by (induction xs) (auto simp: rank_def)

lemma rank_delete: "j \<noteq> k \<Longrightarrow> rank k (AList.delete j xs) \<le> rank k xs"
  unfolding AList.delete_eq by (rule rank_filter) auto

lemma map_of_butlast:
  "map_of xs k = Some e \<Longrightarrow> Suc (rank k xs) < length xs \<Longrightarrow>
   map_of (butlast xs) k = Some e \<and> rank k (butlast xs) = rank k xs"
  by (induction xs) (auto simp: rank_def split: if_splits)

lemma rank_length: "map_of xs k = Some e \<Longrightarrow> rank k xs < length xs"
  by (induction xs) (auto simp: rank_def split: if_splits)

lemma step_other:
  assumes "inv s" and "op_key ope \<noteq> k" and "map_of (content s) k = Some e" and "int (rank k (content s)) + 1 < cap s"
  shows "inv (step s ope) \<and> cap (step s ope) = cap s \<and> map_of (content (step s ope)) k = Some e \<and>
     rank k (content (step s ope)) \<le> Suc (rank k (content s))"
proof (cases ope)
  case (CGet now j)
  have jk: "j \<noteq> k" using assms(2) CGet by simp
  have i: "inv (snd (get now s j))" "cap (snd (get now s j)) = cap s" using get_inv get_cap assms(1) by blast+
  consider "map_of (content s) j = None" | d where "map_of (content s) j = Some d" "live now d"
    | d where "map_of (content s) j = Some d" "\<not> live now d" by (cases "map_of (content s) j") auto
  then show ?thesis
  proof cases
    case 1
    then show ?thesis using get_miss [OF assms(1) 1, of now] i assms(3) CGet by simp
  next
    case (2 d)
    have len: "length (filter (\<lambda>p. fst p = j) (content s)) \<le> 1"
      using content_distinct [OF assms(1)] distinct_length_filter [of "map fst (content s)" "\<lambda>x. x = j"]
      card_mono [of "{j}" "{j} \<inter> fst ` set (content s)"] by (simp add: filter_map o_def)
    have "rank k (lru_touch j (content s)) \<le> Suc (rank k (content s))"
    proof -
      have "\<forall>p \<in> set (filter (\<lambda>p. fst p = j) (content s)). fst p \<noteq> k" using jk by auto
      then have "rank k (lru_touch j (content s)) = length (filter (\<lambda>p. fst p = j) (content s)) + rank k (AList.delete j (content s))"
        unfolding lru_touch_def rank_def by (subst takeWhile_append2) auto
      then show ?thesis using len rank_delete [OF jk, of "content s"] by linarith
    qed
    moreover have "map_of (lru_touch j (content s)) k = Some e"
    proof -
      have "map_of (filter (\<lambda>p. fst p = j) (content s)) k = None" using jk by (auto simp: map_of_eq_None_iff)
      then show ?thesis using assms(3) jk by (simp add: lru_touch_def map_add_def delete_conv')
    qed
    ultimately show ?thesis using get_hit [OF assms(1) 2] i CGet by simp
  next
    case (3 d)
    then show ?thesis
      using get_dead [OF assms(1) 3] i assms(3) jk rank_delete [OF jk, of "content s"] CGet
      by (simp add: delete_conv')
  qed
next
  case (CPut now j v)
  have jk: "j \<noteq> k" using assms(2) CPut by simp
  have c: "content (step s ope) = lru_put (cap s) j (entry now s j v) (content s)"
    using put_content assms(1) CPut by simp
  have "map_of (content (step s ope)) k = Some e \<and> rank k (content (step s ope)) \<le> Suc (rank k (content s))"
  proof (cases "j \<in> fst ` set (content s)")
    case True
    then show ?thesis
      using c jk assms(3) rank_delete [OF jk, of "content s"] by (simp add: lru_put_def rank_Cons delete_conv')
  next
    case False
    then show ?thesis
      using c jk assms(3,4) map_of_butlast [OF assms(3)] by (auto simp: lru_put_def rank_Cons)
  qed
  then show ?thesis using put_inv put_cap assms(1) CPut by simp
qed

text \<open>A key keeps its entry through fewer than \<open>cap\<close> requests for other keys.\<close>

lemma recent_survives:
  assumes "inv s" and "\<forall>ope \<in> set ops. op_key ope \<noteq> k" and "map_of (content s) k = Some e"
    and "int (rank k (content s)) + int (length ops) < cap s"
  shows "inv (foldl step s ops) \<and> map_of (content (foldl step s ops)) k = Some e"
  using assms
proof (induction ops arbitrary: s)
  case Nil
  then show ?case by simp
next
  case (Cons ope ops)
  have "inv (step s ope) \<and> cap (step s ope) = cap s \<and> map_of (content (step s ope)) k = Some e \<and>
     rank k (content (step s ope)) \<le> Suc (rank k (content s))"
    using Cons.prems by (intro step_other) auto
  then show ?case using Cons by auto
qed

lemma put_survives:
  assumes "inv s" and "\<forall>ope \<in> set ops. op_key ope \<noteq> k" and "int (length ops) < cap s"
    and "live now' (entry now s k v)"
  shows "fst (get now' (foldl step (put now s k v) ops) k) = Some v"
proof -
  let ?s = "put now s k v"
  have c: "content ?s = lru_put (cap s) k (entry now s k v) (content s)" using put_content assms(1) by blast
  have "map_of (content ?s) k = Some (entry now s k v)" "rank k (content ?s) = 0"
    by (simp_all add: c lru_put_def rank_def)
  then have "inv (foldl step ?s ops) \<and> map_of (content (foldl step ?s ops)) k = Some (entry now s k v)"
    using assms put_inv put_cap by (intro recent_survives) auto
  then show ?thesis using get_hit assms(4) val_entry by metis
qed

end

section \<open>The two caches implement the contract\<close>

text \<open>
  The invariant shared by both: elements are distinct and were all handed out by \<open>PushFront\<close>, keys are
  distinct, and the map points each key to the element that holds it.
\<close>

definition lru_links :: "('e \<Rightarrow> string) \<Rightarrow> (string, nat) gomap \<Rightarrow> 'e elements \<Rightarrow> nat \<Rightarrow> bool" where
  "lru_links key items order next \<longleftrightarrow> wf_map order \<and> (\<forall>el \<in> fst ` set order. el < next) \<and>
     distinct (map (key \<circ> snd) order) \<and>
     (\<forall>k el. map_of items k = Some el \<longleftrightarrow> (\<exists>e. (el, e) \<in> set order \<and> key e = k))"

definition lru_content :: "('e \<Rightarrow> string) \<Rightarrow> 'e elements \<Rightarrow> (string \<times> 'e) list" where
  "lru_content key order = map (\<lambda>(el, e). (key e, e)) order"

lemma lru_content_map_of:
  assumes "lru_links key items order next"
  shows "map_of (lru_content key order) k = Some e \<longleftrightarrow> (\<exists>el. map_of items k = Some el \<and> map_of order el = Some e)"
proof -
  have "distinct (map fst (lru_content key order))"
    using assms by (simp add: lru_links_def lru_content_def o_def split_def)
  then have "map_of (lru_content key order) k = Some e \<longleftrightarrow> (k, e) \<in> set (lru_content key order)" by simp
  also have "\<dots> \<longleftrightarrow> (\<exists>el. (el, e) \<in> set order \<and> key e = k)" by (auto simp: lru_content_def)
  also have "\<dots> \<longleftrightarrow> (\<exists>el. map_of items k = Some el \<and> map_of order el = Some e)"
    using assms map_of_Some_in [of order] unfolding lru_links_def by (metis option.inject)
  finally show ?thesis .
qed

lemma lru_content_None:
  assumes "lru_links key items order next"
  shows "map_of (lru_content key order) k = None \<longleftrightarrow> map_of items k = None"
  using lru_content_map_of [OF assms, of k] assms
  by (cases "map_of items k"; cases "map_of (lru_content key order) k") (fastforce simp: lru_links_def map_of_Some_in)+

lemma lru_links_key:
  assumes "lru_links key items order next" and "map_of items k = Some el" and "p \<in> set order"
  shows "fst p = el \<longleftrightarrow> key (snd p) = k"
proof -
  obtain e where e: "(el, e) \<in> set order" "key e = k" using assms(1,2) by (auto simp: lru_links_def)
  have "inj_on (key \<circ> snd) (set order)" "wf_map order"
    using assms(1) by (auto simp: lru_links_def distinct_map)
  then show ?thesis using e assms(3)
    by (metis comp_apply inj_onD map_of_Some_in option.inject prod.collapse snd_conv fst_conv)
qed

lemma lru_content_touch:
  assumes "lru_links key items order next" and "map_of items k = Some el"
  shows "lru_content key (list_MoveToFront el order) = lru_touch k (lru_content key order)"
    and "lru_content key (list_Remove el order) = AList.delete k (lru_content key order)"
proof -
  have k: "filter (\<lambda>p. fst p = el) order = filter (\<lambda>p. key (snd p) = k) order"
    and nk: "filter (\<lambda>p. fst p \<noteq> el) order = filter (\<lambda>p. key (snd p) \<noteq> k) order"
    using lru_links_key [OF assms] by (simp_all cong: filter_cong)
  show r: "lru_content key (list_Remove el order) = AList.delete k (lru_content key order)"
    by (simp add: lru_content_def list_Remove_def nk AList.delete_eq filter_map o_def split_def eq_commute [of k])
  then show "lru_content key (list_MoveToFront el order) = lru_touch k (lru_content key order)"
    by (simp add: lru_content_def list_MoveToFront_def lru_touch_def k filter_map o_def split_def)
qed

lemma lru_links_move:
  assumes "lru_links key items order next" and "map_of items k = Some el"
  shows "lru_links key items (list_MoveToFront el order) next"
proof -
  have m: "mset (list_MoveToFront el order) = mset order"
    using multiset_partition [of "mset order" "\<lambda>p. fst p = el"] by (simp add: list_MoveToFront_def list_Remove_def)
  then have s: "set (list_MoveToFront el order) = set order" by (rule mset_eq_setD)
  have d: "distinct (map f (list_MoveToFront el order)) = distinct (map f order)" for f :: "nat \<times> 'a \<Rightarrow> 'c"
    using m by (intro mset_eq_imp_distinct_iff) simp
  show ?thesis using assms(1) unfolding lru_links_def wf_map_def s d .
qed

lemma lru_links_remove:
  assumes "lru_links key items order next" and "map_of order el = Some e"
  shows "lru_links key (AList.delete (key e) items) (list_Remove el order) next"
proof -
  have e: "(el, e) \<in> set order" using assms by (simp add: lru_links_def map_of_Some_in)
  then have k: "map_of items (key e) = Some el" using assms(1) by (auto simp: lru_links_def)
  have d: "distinct (map f (filter P order))" if "distinct (map f order)" for f :: "nat \<times> 'a \<Rightarrow> 'c" and P
    using that by (simp add: distinct_map_filter)
  have "map_of (AList.delete (key e) items) j = Some el' \<longleftrightarrow> (\<exists>e'. (el', e') \<in> set (list_Remove el order) \<and> key e' = j)" for j el'
  proof -
    have "map_of (AList.delete (key e) items) j = Some el' \<longleftrightarrow> j \<noteq> key e \<and> map_of items j = Some el'"
      by (simp add: delete_conv' restrict_map_def)
    also have "\<dots> \<longleftrightarrow> j \<noteq> key e \<and> (\<exists>e'. (el', e') \<in> set order \<and> key e' = j)"
      using assms(1) by (simp add: lru_links_def)
    also have "\<dots> \<longleftrightarrow> (\<exists>e'. (el', e') \<in> set (list_Remove el order) \<and> key e' = j)"
      using lru_links_key [OF assms(1) k] by (auto simp: list_Remove_def)
    finally show ?thesis .
  qed
  then show ?thesis
    using assms(1) by (auto simp: lru_links_def wf_map_def d list_Remove_def)
qed

lemma lru_links_push:
  assumes "lru_links key items order next" and "map_of items (key e) = None"
  shows "lru_links key (AList.update (key e) next items) ((next, e) # order) (next + 1)"
proof -
  have k: "key e' \<noteq> key e" if "(el, e') \<in> set order" for el e'
  proof
    assume "key e' = key e"
    then have "map_of items (key e) = Some el" using assms(1) that unfolding lru_links_def by blast
    then show False using assms(2) by simp
  qed
  then have "key e \<notin> (key \<circ> snd) ` set order" by (metis comp_apply imageE prod.collapse)
  moreover have "next \<notin> fst ` set order" using assms(1) by (auto simp: lru_links_def)
  moreover have "map_of (AList.update (key e) next items) j = Some el \<longleftrightarrow>
      (\<exists>e'. (el, e') \<in> set ((next, e) # order) \<and> key e' = j)" for j el
    using assms(1) k by (auto simp: lru_links_def update_conv')
  ultimately show ?thesis using assms(1) by (auto simp: lru_links_def wf_map_def less_Suc_eq)
qed

lemma lru_content_butlast:
  assumes "lru_links key items order next" and "order \<noteq> []"
  shows "list_Remove (fst (last order)) order = butlast order"
proof -
  have o: "order = butlast order @ [last order]" using assms(2) by simp
  have "distinct (map fst (butlast order @ [last order]))"
    using assms(1) o by (metis lru_links_def wf_map_def)
  then have "fst (last order) \<notin> fst ` set (butlast order)" by simp
  then have "filter (\<lambda>p. fst p \<noteq> fst (last order)) (butlast order) = butlast order"
    by (intro filter_True) (metis imageI)
  then show ?thesis unfolding list_Remove_def by (subst o, subst filter_append) simp
qed

definition wf_query_cache :: "query_cache \<Rightarrow> bool" where
  "wf_query_cache c \<longleftrightarrow> lru_links qe_key (qc_items c) (qc_order c) (qc_next c) \<and>
     int (length (qc_order c)) \<le> qc_maxItems c \<and> 0 < qc_maxItems c \<and> 0 < qc_ttl c"

definition query_content :: "query_cache \<Rightarrow> (string \<times> query_entry) list" where
  "query_content c = lru_content qe_key (qc_order c)"

definition wf_chunk_cache :: "chunk_cache \<Rightarrow> bool" where
  "wf_chunk_cache c \<longleftrightarrow> lru_links ce_key (cc_items c) (cc_order c) (cc_next c) \<and>
     int (length (cc_order c)) \<le> cc_maxItems c \<and> 0 < cc_maxItems c \<and>
     (\<forall>e \<in> snd ` set (cc_order c). ce_value e \<noteq> None)"

lemma filter_key: "wf_map m \<Longrightarrow> (k, v) \<in> set m \<Longrightarrow> filter (\<lambda>p. fst p = k) m = [(k, v)]"
  by (induction m) (auto simp: wf_map_Cons filter_empty_conv image_iff)

text \<open>A present key is moved to the front with its new entry; the other entries stay.\<close>

lemma lru_content_replace:
  assumes "lru_links key items order next" and "map_of items k = Some el" and "map_of order el = Some e0"
    and "\<And>e. key (f e) = key e"
  shows "lru_content key (list_MoveToFront el (map (\<lambda>(i, e). if i = el then (i, f e) else (i, e)) order)) =
           (k, f e0) # AList.delete k (lru_content key order)"
    and "lru_links key items (list_MoveToFront el (map (\<lambda>(i, e). if i = el then (i, f e) else (i, e)) order)) next"
proof -
  let ?g = "\<lambda>(i, e). if i = el then (i, f e) else (i, e)"
  have fst: "fst (?g p) = fst p" and key: "key (snd (?g p)) = key (snd p)" for p
    using assms(4) by (auto split: prod.splits)
  have e0: "(el, e0) \<in> set order" "key e0 = k"
    using assms(1-3) by (auto simp: lru_links_def map_of_Some_in)
  have uniq: "e = e0" if "(el, e) \<in> set order" for e
    using that assms(1,3) by (simp add: lru_links_def map_of_Some_in)
  have set: "(i, e) \<in> set (map ?g order) \<longleftrightarrow> (if i = el then e = f e0 else (i, e) \<in> set order)" for i e
  proof
    assume "(i, e) \<in> set (map ?g order)"
    then show "if i = el then e = f e0 else (i, e) \<in> set order" using uniq by (auto split: if_splits)
  next
    assume h: "if i = el then e = f e0 else (i, e) \<in> set order"
    then have "(i, e) = ?g (i, if i = el then e0 else e)" "(i, if i = el then e0 else e) \<in> set order"
      using e0(1) by (auto split: if_splits)
    then show "(i, e) \<in> set (map ?g order)" unfolding set_map by (rule image_eqI)
  qed
  have links: "lru_links key items (map ?g order) next"
  proof -
    have f: "map fst (map ?g order) = map fst order" and k: "map (key \<circ> snd) (map ?g order) = map (key \<circ> snd) order"
      using fst key by (simp_all add: o_def split_def)
    have ex: "(\<exists>e. (i, e) \<in> set (map ?g order) \<and> key e = j) \<longleftrightarrow> (\<exists>e. (i, e) \<in> set order \<and> key e = j)" for i j
      unfolding set using e0 assms(4) by (cases "i = el") (auto dest: uniq)
    have i: "fst ` set (map ?g order) = fst ` set order" using fst by (simp add: image_image)
    show ?thesis using assms(1) unfolding lru_links_def wf_map_def f k ex i .
  qed
  then show "lru_links key items (list_MoveToFront el (map ?g order)) next"
    using assms(2) by (rule lru_links_move)
  have "filter (\<lambda>p. fst p = el) (map ?g order) = [(el, f e0)]"
  proof -
    have "filter (\<lambda>p. fst p = el) order = [(el, e0)]"
      using e0(1) assms(1) by (simp add: lru_links_def filter_key)
    then show ?thesis by (simp add: filter_map o_def fst split_def)
  qed
  moreover have "list_Remove el (map ?g order) = list_Remove el order"
    unfolding list_Remove_def by (induction order) (auto split: prod.splits)
  ultimately show "lru_content key (list_MoveToFront el (map ?g order)) = (k, f e0) # AList.delete k (lru_content key order)"
    using lru_content_touch(2) [OF assms(1,2)] e0 assms(4)
    by (simp add: list_MoveToFront_def lru_content_def)
qed

subsection \<open>The query cache\<close>

definition query_entry_of :: "time \<Rightarrow> query_cache \<Rightarrow> string \<Rightarrow> query_result \<Rightarrow> query_entry" where
  "query_entry_of now c k v = \<lparr>qe_key = k, qe_value = v, qe_expiresAt = now + qc_ttl c\<rparr>"

lemma wf_NewQueryCache [simp]: "wf_query_cache (NewQueryCache n ttl)"
  by (simp add: wf_query_cache_def NewQueryCache_def lru_links_def second_def)

lemma wf_QueryCache_Reset [simp]: "wf_query_cache c \<Longrightarrow> wf_query_cache (QueryCache_Reset c)"
  by (simp add: wf_query_cache_def QueryCache_Reset_def lru_links_def)

lemma length_Remove: "wf_map order \<Longrightarrow> map_of order el = Some e \<Longrightarrow> Suc (length (list_Remove el order)) = length order"
proof (induction order)
  case Nil
  then show ?case by simp
next
  case (Cons p order)
  show ?case
  proof (cases "fst p = el")
    case True
    then have "filter (\<lambda>q. fst q \<noteq> el) order = order"
      using Cons.prems(1) by (intro filter_True) (auto simp: wf_map_Cons image_iff)
    then show ?thesis using True by (simp add: list_Remove_def)
  next
    case False
    then show ?thesis using Cons by (cases p) (simp add: list_Remove_def wf_map_Cons)
  qed
qed

lemma length_MoveToFront [simp]: "length (list_MoveToFront el order) = length order"
  using sum_length_filter_compl [of "\<lambda>p. fst p = el" order] by (simp add: list_MoveToFront_def list_Remove_def)

lemma QueryCache_Get_cases:
  assumes "wf_query_cache c"
  obtains (miss) "map_of (query_content c) k = None" and "QueryCache_Get now c k = (None, c\<lparr>qc_misses := qc_misses c + 1\<rparr>)"
  | (dead) e c' where "map_of (query_content c) k = Some e" and "qe_expiresAt e < now"
      and "QueryCache_Get now c k = (None, c')" and "wf_query_cache c'"
      and "query_content c' = AList.delete k (query_content c)" and "qc_maxItems c' = qc_maxItems c"
  | (hit) e c' where "map_of (query_content c) k = Some e" and "\<not> qe_expiresAt e < now"
      and "QueryCache_Get now c k = (Some (qe_value e), c')" and "wf_query_cache c'"
      and "query_content c' = lru_touch k (query_content c)" and "qc_maxItems c' = qc_maxItems c"
proof (cases "map_of (qc_items c) k")
  case None
  then show ?thesis
    using miss assms lru_content_None [of qe_key "qc_items c" "qc_order c" "qc_next c" k]
    by (simp add: QueryCache_Get_def wf_query_cache_def query_content_def)
next
  case (Some el)
  have l: "lru_links qe_key (qc_items c) (qc_order c) (qc_next c)" using assms by (simp add: wf_query_cache_def)
  then obtain e where e: "map_of (qc_order c) el = Some e" "qe_key e = k"
    using Some by (auto simp: lru_links_def map_of_Some_in)
  have m: "map_of (query_content c) k = Some e"
    using lru_content_map_of [OF l] Some e by (auto simp: query_content_def)
  show ?thesis
  proof (cases "qe_expiresAt e < now")
    case True
    let ?c = "c\<lparr>qc_items := AList.delete k (qc_items c), qc_order := list_Remove el (qc_order c),
         qc_evicted := qc_evicted c + 1, qc_misses := qc_misses c + 1\<rparr>"
    have "QueryCache_Get now c k = (None, ?c)"
      using Some e True by (simp add: QueryCache_Get_def QueryCache_removeElement_def)
    moreover have "wf_query_cache ?c"
      using assms lru_links_remove [OF l e(1)] e(2) length_Remove [OF _ e(1)] l by (auto simp: wf_query_cache_def lru_links_def)
    moreover have "query_content ?c = AList.delete k (query_content c)"
      using lru_content_touch(2) [OF l Some] by (simp add: query_content_def)
    ultimately show ?thesis using dead m True by simp
  next
    case False
    let ?c = "c\<lparr>qc_order := list_MoveToFront el (qc_order c), qc_hits := qc_hits c + 1\<rparr>"
    have "QueryCache_Get now c k = (Some (qe_value e), ?c)"
      using Some e False by (simp add: QueryCache_Get_def)
    moreover have "wf_query_cache ?c" using assms lru_links_move [OF l Some] by (simp add: wf_query_cache_def)
    moreover have "query_content ?c = lru_touch k (query_content c)"
      using lru_content_touch(1) [OF l Some] by (simp add: query_content_def)
    ultimately show ?thesis using hit m False by simp
  qed
qed

lemma QueryCache_Put_lru:
  assumes "wf_query_cache c"
  shows "wf_query_cache (QueryCache_Put now c k v) \<and> qc_maxItems (QueryCache_Put now c k v) = qc_maxItems c \<and>
     query_content (QueryCache_Put now c k v) = lru_put (qc_maxItems c) k (query_entry_of now c k v) (query_content c)"
proof (cases "map_of (qc_items c) k")
  have l: "lru_links qe_key (qc_items c) (qc_order c) (qc_next c)" using assms by (simp add: wf_query_cache_def)
  case (Some el)
  then obtain e where e: "map_of (qc_order c) el = Some e" "qe_key e = k"
    using l by (auto simp: lru_links_def map_of_Some_in)
  have "map_of (query_content c) k = Some e"
    using lru_content_map_of [OF l] Some e by (auto simp: query_content_def)
  then have k: "k \<in> fst ` set (query_content c)" by (metis domI dom_map_of_conv_image_fst)
  let ?f = "\<lambda>e. e\<lparr>qe_value := v, qe_expiresAt := now + qc_ttl c\<rparr>"
  have "?f e = query_entry_of now c k v" using e(2) by (cases e) (simp add: query_entry_of_def)
  then show ?thesis
    using lru_content_replace [OF l Some e(1), of ?f] assms k Some
    by (simp add: QueryCache_Put_def wf_query_cache_def query_content_def lru_put_def)
next
  have l: "lru_links qe_key (qc_items c) (qc_order c) (qc_next c)" using assms by (simp add: wf_query_cache_def)
  case None
  then have k: "k \<notin> fst ` set (query_content c)"
    using lru_content_None [OF l, of k] by (simp add: query_content_def map_of_eq_None_iff)
  show ?thesis
  proof (cases "int (length (qc_order c)) \<ge> qc_maxItems c")
    case True
    then have ne: "qc_order c \<noteq> []" using assms by (auto simp: wf_query_cache_def)
    obtain b eb where b: "last (qc_order c) = (b, eb)" by (cases "last (qc_order c)")
    have eb: "map_of (qc_order c) b = Some eb"
      using l last_in_set [OF ne] b by (simp add: lru_links_def map_of_Some_in)
    let ?c = "c\<lparr>qc_items := AList.delete (qe_key eb) (qc_items c), qc_order := butlast (qc_order c), qc_evicted := qc_evicted c + 1\<rparr>"
    have rm: "QueryCache_removeElement c (list_Back (qc_order c)) = ?c"
      using ne b eb lru_content_butlast [OF l ne] by (simp add: QueryCache_removeElement_def list_Back_def)
    have l': "lru_links qe_key (qc_items ?c) (butlast (qc_order c)) (qc_next c)"
      using lru_links_remove [OF l eb] lru_content_butlast [OF l ne] b by simp
    moreover have "map_of (qc_items ?c) k = None" using None by (simp add: delete_conv' restrict_map_def)
    ultimately have "lru_links qe_key (AList.update k (qc_next c) (qc_items ?c))
        ((qc_next c, query_entry_of now c k v) # butlast (qc_order c)) (qc_next c + 1)"
      using lru_links_push [OF l', of "query_entry_of now c k v"] by (simp add: query_entry_of_def)
    then show ?thesis
      using None True assms k rm ne
      by (simp add: QueryCache_Put_def wf_query_cache_def query_content_def lru_put_def lru_content_def
          query_entry_of_def map_butlast Let_def)
  next
    case False
    then show ?thesis
      using None assms k lru_links_push [OF l, of "query_entry_of now c k v"]
      by (simp add: QueryCache_Put_def wf_query_cache_def query_content_def lru_put_def lru_content_def
          query_entry_of_def Let_def)
  qed
qed

interpretation query_lru: lru_cache wf_query_cache query_content qc_maxItems query_entry_of qe_value
  "\<lambda>now e. \<not> qe_expiresAt e < now" QueryCache_Get QueryCache_Put
proof
  fix c :: query_cache and now k v e
  show "qe_value (query_entry_of now c k v) = v" by (simp add: query_entry_of_def)
  assume w: "wf_query_cache c"
  then show "distinct (map fst (query_content c))"
    by (simp add: wf_query_cache_def query_content_def lru_links_def lru_content_def o_def split_def)
  show "int (length (query_content c)) \<le> qc_maxItems c \<and> 0 < qc_maxItems c"
    using w by (simp add: wf_query_cache_def query_content_def lru_content_def)
  show "wf_query_cache (QueryCache_Put now c k v)" "qc_maxItems (QueryCache_Put now c k v) = qc_maxItems c"
    "query_content (QueryCache_Put now c k v) = lru_put (qc_maxItems c) k (query_entry_of now c k v) (query_content c)"
    using QueryCache_Put_lru [OF w] by blast+
  have misses: "wf_query_cache (c\<lparr>qc_misses := qc_misses c + 1\<rparr>)" "query_content (c\<lparr>qc_misses := qc_misses c + 1\<rparr>) = query_content c"
    using w by (simp_all add: wf_query_cache_def query_content_def)
  show "wf_query_cache (snd (QueryCache_Get now c k))" "qc_maxItems (snd (QueryCache_Get now c k)) = qc_maxItems c"
    by (cases rule: QueryCache_Get_cases [OF w, of k now]; simp add: misses)+
  show "map_of (query_content c) k = None \<Longrightarrow>
      fst (QueryCache_Get now c k) = None \<and> query_content (snd (QueryCache_Get now c k)) = query_content c"
    by (cases rule: QueryCache_Get_cases [OF w, of k now]) (simp_all add: misses)
  show "map_of (query_content c) k = Some e \<Longrightarrow> \<not> qe_expiresAt e < now \<Longrightarrow>
      fst (QueryCache_Get now c k) = Some (qe_value e) \<and> query_content (snd (QueryCache_Get now c k)) = lru_touch k (query_content c)"
    by (cases rule: QueryCache_Get_cases [OF w, of k now]) simp_all
  show "map_of (query_content c) k = Some e \<Longrightarrow> \<not> \<not> qe_expiresAt e < now \<Longrightarrow>
      fst (QueryCache_Get now c k) = None \<and> query_content (snd (QueryCache_Get now c k)) = AList.delete k (query_content c)"
    by (cases rule: QueryCache_Get_cases [OF w, of k now]) simp_all
qed

subsection \<open>The chunk cache\<close>

definition chunk_content :: "chunk_cache \<Rightarrow> (string \<times> chunk_entry) list" where
  "chunk_content c = lru_content ce_key (cc_order c)"

definition chunk_entry_of :: "time \<Rightarrow> chunk_cache \<Rightarrow> string \<Rightarrow> chunk \<Rightarrow> chunk_entry" where
  "chunk_entry_of now c k v = \<lparr>ce_key = k, ce_value = Some v\<rparr>"

lemma cloneChunk_id [simp]: "cloneChunk ch = ch"
  by (cases ch) (simp_all add: cloneChunk_def)

lemma wf_NewChunkCache [simp]: "wf_chunk_cache (NewChunkCache n)"
  by (simp add: wf_chunk_cache_def NewChunkCache_def lru_links_def)

lemma wf_ChunkCache_Reset [simp]: "wf_chunk_cache c \<Longrightarrow> wf_chunk_cache (ChunkCache_Reset c)"
  by (simp add: wf_chunk_cache_def ChunkCache_Reset_def lru_links_def)

lemma ChunkCache_Get_cases:
  assumes "wf_chunk_cache c"
  obtains (miss) "map_of (chunk_content c) k = None" and "ChunkCache_Get c k = (None, c\<lparr>cc_misses := cc_misses c + 1\<rparr>)"
  | (hit) e v c' where "map_of (chunk_content c) k = Some e" and "ce_value e = Some v"
      and "ChunkCache_Get c k = (Some v, c')" and "wf_chunk_cache c'"
      and "chunk_content c' = lru_touch k (chunk_content c)" and "cc_maxItems c' = cc_maxItems c"
proof (cases "map_of (cc_items c) k")
  case None
  then show ?thesis
    using miss assms lru_content_None [of ce_key "cc_items c" "cc_order c" "cc_next c" k]
    by (simp add: ChunkCache_Get_def wf_chunk_cache_def chunk_content_def)
next
  case (Some el)
  have l: "lru_links ce_key (cc_items c) (cc_order c) (cc_next c)" using assms by (simp add: wf_chunk_cache_def)
  then obtain e where e: "map_of (cc_order c) el = Some e" "ce_key e = k"
    using Some by (auto simp: lru_links_def map_of_Some_in)
  then have "e \<in> snd ` set (cc_order c)" by (metis map_of_SomeD image_eqI snd_conv)
  then obtain v where v: "ce_value e = Some v" using assms by (auto simp: wf_chunk_cache_def)
  have m: "map_of (chunk_content c) k = Some e"
    using lru_content_map_of [OF l] Some e by (auto simp: chunk_content_def)
  let ?c = "c\<lparr>cc_order := list_MoveToFront el (cc_order c), cc_hits := cc_hits c + 1\<rparr>"
  have "ChunkCache_Get c k = (Some v, ?c)" using Some e v by (simp add: ChunkCache_Get_def)
  moreover have "snd ` set (list_MoveToFront el (cc_order c)) = snd ` set (cc_order c)"
    by (auto simp: list_MoveToFront_def list_Remove_def)
  then have "wf_chunk_cache ?c" using assms lru_links_move [OF l Some] by (simp add: wf_chunk_cache_def)
  moreover have "chunk_content ?c = lru_touch k (chunk_content c)"
    using lru_content_touch(1) [OF l Some] by (simp add: chunk_content_def)
  ultimately show ?thesis using hit m v by simp
qed

lemma ChunkCache_Put_lru:
  assumes "wf_chunk_cache c"
  shows "wf_chunk_cache (ChunkCache_Put c k (Some v)) \<and> cc_maxItems (ChunkCache_Put c k (Some v)) = cc_maxItems c \<and>
     chunk_content (ChunkCache_Put c k (Some v)) = lru_put (cc_maxItems c) k (chunk_entry_of now c k v) (chunk_content c)"
proof (cases "map_of (cc_items c) k")
  have l: "lru_links ce_key (cc_items c) (cc_order c) (cc_next c)" using assms by (simp add: wf_chunk_cache_def)
  case (Some el)
  then obtain e where e: "map_of (cc_order c) el = Some e" "ce_key e = k"
    using l by (auto simp: lru_links_def map_of_Some_in)
  have "map_of (chunk_content c) k = Some e"
    using lru_content_map_of [OF l] Some e by (auto simp: chunk_content_def)
  then have k: "k \<in> fst ` set (chunk_content c)" by (metis domI dom_map_of_conv_image_fst)
  let ?f = "\<lambda>e. e\<lparr>ce_value := cloneChunk (Some v)\<rparr>"
  have "?f e = chunk_entry_of now c k v" using e(2) by (cases e) (simp add: chunk_entry_of_def)
  moreover have "\<forall>x \<in> snd ` set (list_MoveToFront el (map (\<lambda>(i, e). if i = el then (i, ?f e) else (i, e)) (cc_order c))). ce_value x \<noteq> None"
    using assms by (auto simp: wf_chunk_cache_def list_MoveToFront_def list_Remove_def split: if_splits)
  ultimately show ?thesis
    using lru_content_replace [OF l Some e(1), of ?f] assms k Some
    by (simp add: ChunkCache_Put_def wf_chunk_cache_def chunk_content_def lru_put_def del: cloneChunk_id)
next
  have l: "lru_links ce_key (cc_items c) (cc_order c) (cc_next c)" using assms by (simp add: wf_chunk_cache_def)
  case None
  then have k: "k \<notin> fst ` set (chunk_content c)"
    using lru_content_None [OF l, of k] by (simp add: chunk_content_def map_of_eq_None_iff)
  show ?thesis
  proof (cases "int (length (cc_order c)) \<ge> cc_maxItems c")
    case True
    then have ne: "cc_order c \<noteq> []" using assms by (auto simp: wf_chunk_cache_def)
    obtain b eb where b: "last (cc_order c) = (b, eb)" by (cases "last (cc_order c)")
    have eb: "map_of (cc_order c) b = Some eb"
      using l last_in_set [OF ne] b by (simp add: lru_links_def map_of_Some_in)
    let ?c = "c\<lparr>cc_items := AList.delete (ce_key eb) (cc_items c), cc_order := butlast (cc_order c), cc_evicted := cc_evicted c + 1\<rparr>"
    have rm: "ChunkCache_removeElement c (list_Back (cc_order c)) = ?c"
      using ne b eb lru_content_butlast [OF l ne] by (simp add: ChunkCache_removeElement_def list_Back_def)
    have l': "lru_links ce_key (cc_items ?c) (butlast (cc_order c)) (cc_next c)"
      using lru_links_remove [OF l eb] lru_content_butlast [OF l ne] b by simp
    moreover have "map_of (cc_items ?c) k = None" using None by (simp add: delete_conv' restrict_map_def)
    ultimately have "lru_links ce_key (AList.update k (cc_next c) (cc_items ?c))
        ((cc_next c, chunk_entry_of now c k v) # butlast (cc_order c)) (cc_next c + 1)"
      using lru_links_push [OF l', of "chunk_entry_of now c k v"] by (simp add: chunk_entry_of_def)
    moreover have "\<forall>x \<in> snd ` set (butlast (cc_order c)). ce_value x \<noteq> None"
      using assms by (auto simp: wf_chunk_cache_def dest!: in_set_butlastD)
    ultimately show ?thesis
      using None True assms k rm ne
      by (simp add: ChunkCache_Put_def wf_chunk_cache_def chunk_content_def lru_put_def lru_content_def
          chunk_entry_of_def map_butlast Let_def)
  next
    case False
    then show ?thesis
      using None assms k lru_links_push [OF l, of "chunk_entry_of now c k v"]
      by (simp add: ChunkCache_Put_def wf_chunk_cache_def chunk_content_def lru_put_def lru_content_def
          chunk_entry_of_def Let_def)
  qed
qed

interpretation chunk_lru: lru_cache wf_chunk_cache chunk_content cc_maxItems chunk_entry_of "\<lambda>e. the (ce_value e)"
  "\<lambda>now e. True" "\<lambda>now c k. ChunkCache_Get c k" "\<lambda>now c k v. ChunkCache_Put c k (Some v)"
proof
  fix c :: chunk_cache and now :: time and k v e
  show "the (ce_value (chunk_entry_of now c k v)) = v" by (simp add: chunk_entry_of_def)
  assume w: "wf_chunk_cache c"
  then show "distinct (map fst (chunk_content c))"
    by (simp add: wf_chunk_cache_def chunk_content_def lru_links_def lru_content_def o_def split_def)
  show "int (length (chunk_content c)) \<le> cc_maxItems c \<and> 0 < cc_maxItems c"
    using w by (simp add: wf_chunk_cache_def chunk_content_def lru_content_def)
  show "wf_chunk_cache (ChunkCache_Put c k (Some v))" "cc_maxItems (ChunkCache_Put c k (Some v)) = cc_maxItems c"
    "chunk_content (ChunkCache_Put c k (Some v)) = lru_put (cc_maxItems c) k (chunk_entry_of now c k v) (chunk_content c)"
    using ChunkCache_Put_lru [OF w] by blast+
  have misses: "wf_chunk_cache (c\<lparr>cc_misses := cc_misses c + 1\<rparr>)" "chunk_content (c\<lparr>cc_misses := cc_misses c + 1\<rparr>) = chunk_content c"
    using w by (simp_all add: wf_chunk_cache_def chunk_content_def)
  show "wf_chunk_cache (snd (ChunkCache_Get c k))" "cc_maxItems (snd (ChunkCache_Get c k)) = cc_maxItems c"
    by (cases rule: ChunkCache_Get_cases [OF w, of k]; simp add: misses)+
  show "map_of (chunk_content c) k = None \<Longrightarrow>
      fst (ChunkCache_Get c k) = None \<and> chunk_content (snd (ChunkCache_Get c k)) = chunk_content c"
    by (cases rule: ChunkCache_Get_cases [OF w, of k]) (simp_all add: misses)
  show "map_of (chunk_content c) k = Some e \<Longrightarrow> True \<Longrightarrow>
      fst (ChunkCache_Get c k) = Some (the (ce_value e)) \<and> chunk_content (snd (ChunkCache_Get c k)) = lru_touch k (chunk_content c)"
    by (cases rule: ChunkCache_Get_cases [OF w, of k]) simp_all
qed simp

section \<open>Properties\<close>

text \<open>
  A query result survives in the cache until it expires or is displaced: after a \<open>Put\<close> and fewer
  than \<open>maxItems\<close> requests for other keys, in any order and with any clock readings, a \<open>Get\<close> not
  later than the time to live returns the stored result.
\<close>

theorem query_cache_retains:
  assumes "wf_query_cache c" and "\<forall>ope \<in> set ops. op_key ope \<noteq> k"
    and "int (length ops) < qc_maxItems c" and "now' \<le> now + qc_ttl c"
  shows "fst (QueryCache_Get now' (foldl (cache_step QueryCache_Get QueryCache_Put) (QueryCache_Put now c k v) ops) k) = Some v"
  using query_lru.put_survives [OF assms(1-3), where now' = now' and now = now and v = v] assms(4) by (simp add: query_entry_of_def)

theorem query_cache_retains_witness:
  "fst (QueryCache_Get 20 (foldl (cache_step QueryCache_Get QueryCache_Put)
     (QueryCache_Put 10 (NewQueryCache 2 50) ''a'' zero_result) [CPut 15 ''b'' zero_result]) ''a'') = Some zero_result"
  by (rule query_cache_retains) (simp_all add: NewQueryCache_def [of 2 50] wf_query_cache_def lru_links_def)

text \<open>
  The chunk cache is coherent and bounded: after any requests to a fresh cache it holds at
  most \<open>maxItems\<close> chunks, and a hit returns the chunk that was last \<open>Put\<close> under the key.
\<close>

theorem chunk_cache_coherent:
  assumes "s = foldl (cache_step (\<lambda>now c k. ChunkCache_Get c k) (\<lambda>now c k v. ChunkCache_Put c k (Some v))) (NewChunkCache n) ops"
  shows "int (length (cc_order s)) \<le> cc_maxItems s \<and> (\<forall>v. fst (ChunkCache_Get s k) = Some v \<longrightarrow> last_put k ops = Some v)"
proof -
  have e: "chunk_content (NewChunkCache n) = []" by (simp add: chunk_content_def NewChunkCache_def lru_content_def)
  have "wf_chunk_cache s" using chunk_lru.run_inv [of "NewChunkCache n" ops] assms by simp
  then have "int (length (cc_order s)) \<le> cc_maxItems s" by (simp add: wf_chunk_cache_def)
  moreover have "last_put k ops = Some v" if "fst (ChunkCache_Get s k) = Some v" for v
    using that chunk_lru.get_latest [OF _ e, of ops k v] assms by simp
  ultimately show ?thesis by blast
qed

definition empty_chunk :: chunk where
  "empty_chunk = \<lparr>ch_StreamKey = [], ch_Start = 0, ch_End = 0, ch_ObjectKey = [], ch_Checksum = [],
     ch_Metadata = buildMetadata id [] 0, ch_Events = []\<rparr>"

theorem chunk_cache_coherent_witness:
  "int (length (cc_order (ChunkCache_Put (NewChunkCache 1) ''k'' (Some empty_chunk)))) \<le> 1"
  using chunk_cache_coherent [of "ChunkCache_Put (NewChunkCache 1) ''k'' (Some empty_chunk)" 1 "[CPut 0 ''k'' empty_chunk]" "''k''"]
  by (simp add: NewChunkCache_def ChunkCache_Put_def Let_def)

end
