(* ===== verification/Object_Store.thy ===== *)
theory Object_Store
  imports Go_Time
begin

text \<open>
  Package \<open>internal/storage/object\<close>: the file-backed object store and its retrying wrapper.

  The file system below the store's root is a value: files and directories named by the components
  of their path relative to the root, with the failures the operating system is going to report as a
  list that each system call consumes (\<open>None\<close>: the call runs; \<open>Some (err, n)\<close>: it fails with
  \<open>err\<close>, a write after \<open>n\<close> bytes). SHA-256 in hex is the parameter \<open>sha\<close>.

  The locale \<open>object_store\<close> is the contract that the engine and the compactor rely on: objects are
  written once and never change. The file store meets it while no system call fails; the retrying
  store meets it over every store that does.
\<close>

section \<open>Paths\<close>

text \<open>\<open>filepath.Clean\<close> on components; the stack holds the output in reverse.\<close>

fun clean_components :: "bool \<Rightarrow> string list \<Rightarrow> string list \<Rightarrow> string list" where
  "clean_components rooted stack [] = rev stack"
| "clean_components rooted stack (c # cs) =
     (if c = [] \<or> c = ''.'' then clean_components rooted stack cs
      else if c = ''..'' then
        (case stack of
           [] \<Rightarrow> if rooted then clean_components rooted [] cs else clean_components rooted [c] cs
         | x # xs \<Rightarrow> if x = ''..'' then clean_components rooted (c # stack) cs else clean_components rooted xs cs)
      else clean_components rooted (c # stack) cs)"

definition filepath_Clean :: "string \<Rightarrow> string" where
  "filepath_Clean path =
     (let rooted = starts_with path ''/''; cs = clean_components rooted [] (split_char (CHR ''/'') path) in
      if rooted then CHR ''/'' # Join cs ''/'' else if cs = [] then ''.'' else Join cs ''/'')"

definition filepath_IsAbs :: "string \<Rightarrow> bool" where
  "filepath_IsAbs path = starts_with path ''/''"

section \<open>The file system\<close>

type_synonym path = "string list"
type_synonym fault = "(goerror \<times> nat) option"

record fsys =
  fs_files :: "(path, string \<times> time) gomap"
  fs_dirs :: "path list"
  fs_faults :: "fault list"

definition next_fault :: "fsys \<Rightarrow> fault \<times> fsys" where
  "next_fault fs = (case fs_faults fs of [] \<Rightarrow> (None, fs) | f # rest \<Rightarrow> (f, fs\<lparr>fs_faults := rest\<rparr>))"

text \<open>The error of looking up a path that is not a file.\<close>

definition lookup_error :: "fsys \<Rightarrow> path \<Rightarrow> goerror" where
  "lookup_error fs p =
     (if p \<in> set (fs_dirs fs) then IOError ''is a directory''
      else if list_ex (\<lambda>q. map_of (fs_files fs) q \<noteq> None) (butlast (prefixes p)) then IOError ''not a directory''
      else ErrNotExist)"

definition os_ReadFile :: "fsys \<Rightarrow> path \<Rightarrow> string result \<times> fsys" where
  "os_ReadFile fs p = (case next_fault fs of
       (Some (err, _), fs) \<Rightarrow> (Inl err, fs)
     | (None, fs) \<Rightarrow> (case map_of (fs_files fs) p of
           Some (data, _) \<Rightarrow> (Inr data, fs)
         | None \<Rightarrow> (Inl (lookup_error fs p), fs)))"

definition os_Stat :: "fsys \<Rightarrow> path \<Rightarrow> (nat \<times> time) result \<times> fsys" where
  "os_Stat fs p = (case next_fault fs of
       (Some (err, _), fs) \<Rightarrow> (Inl err, fs)
     | (None, fs) \<Rightarrow> (case map_of (fs_files fs) p of
           Some (data, mtime) \<Rightarrow> (Inr (length data, mtime), fs)
         | None \<Rightarrow> (if p \<in> set (fs_dirs fs) then Inr (0, 0) else Inl (lookup_error fs p), fs)))"

text \<open>\<open>os.MkdirAll\<close> creates every missing ancestor, root first, up to one that is a file.\<close>

fun mkdir_list :: "path list \<Rightarrow> fsys \<Rightarrow> goerror option \<times> fsys" where
  "mkdir_list [] fs = (None, fs)"
| "mkdir_list (p # ps) fs =
     (if map_of (fs_files fs) p \<noteq> None then (Some (IOError ''not a directory''), fs)
      else mkdir_list ps (fs\<lparr>fs_dirs := List.insert p (fs_dirs fs)\<rparr>))"

definition os_MkdirAll :: "fsys \<Rightarrow> path \<Rightarrow> goerror option \<times> fsys" where
  "os_MkdirAll fs p = (case next_fault fs of
       (Some (err, _), fs) \<Rightarrow> (Some err, fs)
     | (None, fs) \<Rightarrow> mkdir_list (prefixes p) fs)"

definition os_WriteFile :: "time \<Rightarrow> fsys \<Rightarrow> path \<Rightarrow> string \<Rightarrow> goerror option \<times> fsys" where
  "os_WriteFile now fs p data = (case next_fault fs of
       (Some (err, n), fs) \<Rightarrow> (Some err, fs\<lparr>fs_files := AList.update p (take n data, now) (fs_files fs)\<rparr>)
     | (None, fs) \<Rightarrow>
         if p \<in> set (fs_dirs fs) then (Some (IOError ''is a directory''), fs)
         else if butlast p \<notin> set (fs_dirs fs) then (Some (lookup_error fs p), fs)
         else (None, fs\<lparr>fs_files := AList.update p (data, now) (fs_files fs)\<rparr>))"

definition os_Remove :: "fsys \<Rightarrow> path \<Rightarrow> goerror option \<times> fsys" where
  "os_Remove fs p = (case next_fault fs of
       (Some (err, _), fs) \<Rightarrow> (Some err, fs)
     | (None, fs) \<Rightarrow>
         if map_of (fs_files fs) p \<noteq> None then (None, fs\<lparr>fs_files := AList.delete p (fs_files fs)\<rparr>)
         else if p \<in> set (fs_dirs fs) then
           (if list_ex (\<lambda>q. strict_prefix p q) (map fst (fs_files fs) @ fs_dirs fs)
            then (Some (IOError ''directory not empty''), fs)
            else (None, fs\<lparr>fs_dirs := removeAll p (fs_dirs fs)\<rparr>))
         else (Some (lookup_error fs p), fs))"

section \<open>The file store\<close>

record obj_meta =
  om_Key :: string
  om_Size :: nat
  om_Checksum :: string
  om_CreatedAt :: time

text \<open>\<open>FileStore.path\<close>: the components below the root that the key names.\<close>

definition FileStore_path :: "string \<Rightarrow> path result" where
  "FileStore_path key =
     (let cleaned = filepath_Clean key in
      if cleaned = ''.'' \<or> starts_with cleaned ''..'' \<or> filepath_IsAbs cleaned then Inl ErrKeyRequired
      else Inr (split_char (CHR ''/'') cleaned))"

definition FileStore_Put ::
  "(string \<Rightarrow> string) \<Rightarrow> time \<Rightarrow> fsys \<Rightarrow> string \<Rightarrow> string \<Rightarrow> obj_meta result \<times> fsys" where
  "FileStore_Put sha now fs key data =
     (if TrimSpace key = [] then (Inl ErrKeyRequired, fs) else
      case FileStore_path key of Inl err \<Rightarrow> (Inl err, fs) | Inr path \<Rightarrow>
      let checksum = sha data in
      case os_ReadFile fs path of
        (Inr existing, fs) \<Rightarrow>
          if sha existing \<noteq> checksum then (Inl ErrObjectConflict, fs)
          else (case os_Stat fs path of
              (Inl err, fs) \<Rightarrow> (Inl err, fs)
            | (Inr (sz, mtime), fs) \<Rightarrow>
                (Inr \<lparr>om_Key = key, om_Size = sz, om_Checksum = checksum, om_CreatedAt = mtime\<rparr>, fs))
      | (Inl _, fs) \<Rightarrow>
          (case os_MkdirAll fs (butlast path) of (Some err, fs) \<Rightarrow> (Inl err, fs) | (None, fs) \<Rightarrow>
           case os_WriteFile now fs path data of (Some err, fs) \<Rightarrow> (Inl err, fs) | (None, fs) \<Rightarrow>
           case os_Stat fs path of (Inl err, fs) \<Rightarrow> (Inl err, fs) | (Inr (sz, mtime), fs) \<Rightarrow>
             (Inr \<lparr>om_Key = key, om_Size = sz, om_Checksum = checksum, om_CreatedAt = mtime\<rparr>, fs)))"

definition FileStore_Get ::
  "(string \<Rightarrow> string) \<Rightarrow> fsys \<Rightarrow> string \<Rightarrow> (string \<times> obj_meta) result \<times> fsys" where
  "FileStore_Get sha fs key =
     (if TrimSpace key = [] then (Inl ErrKeyRequired, fs) else
      case FileStore_path key of Inl err \<Rightarrow> (Inl err, fs) | Inr path \<Rightarrow>
      case os_ReadFile fs path of (Inl err, fs) \<Rightarrow> (Inl err, fs) | (Inr data, fs) \<Rightarrow>
      case os_Stat fs path of (Inl err, fs) \<Rightarrow> (Inl err, fs) | (Inr (sz, mtime), fs) \<Rightarrow>
        (Inr (data, \<lparr>om_Key = key, om_Size = sz, om_Checksum = sha data, om_CreatedAt = mtime\<rparr>), fs))"

definition FileStore_Delete :: "fsys \<Rightarrow> string \<Rightarrow> goerror option \<times> fsys" where
  "FileStore_Delete fs key =
     (if TrimSpace key = [] then (Some ErrKeyRequired, fs) else
      case FileStore_path key of Inl err \<Rightarrow> (Some err, fs) | Inr path \<Rightarrow>
      case os_Remove fs path of (None, fs) \<Rightarrow> (None, fs)
      | (Some err, fs) \<Rightarrow> if \<not> errors_is err ErrNotExist then (Some err, fs) else (None, fs))"

text \<open>
  The callback of \<open>List\<close> on the files \<open>WalkDir\<close> visits: it stops at the first error. The read and
  the \<open>Info\<close> call of each listed file may fail.
\<close>

fun list_walk ::
  "(string \<Rightarrow> string) \<Rightarrow> string \<Rightarrow> path list \<Rightarrow> fsys \<Rightarrow> obj_meta list \<Rightarrow> obj_meta list result \<times> fsys" where
  "list_walk sha prefx [] fs out = (Inr out, fs)"
| "list_walk sha prefx (p # ps) fs out =
     (let key = Join p ''/'' in
      if prefx \<noteq> [] \<and> \<not> starts_with key prefx then list_walk sha prefx ps fs out
      else case os_ReadFile fs p of (Inl err, fs) \<Rightarrow> (Inl err, fs) | (Inr data, fs) \<Rightarrow>
           case os_Stat fs p of (Inl err, fs) \<Rightarrow> (Inl err, fs) | (Inr (sz, mtime), fs) \<Rightarrow>
             list_walk sha prefx ps fs
               (out @ [\<lparr>om_Key = key, om_Size = sz, om_Checksum = sha data, om_CreatedAt = mtime\<rparr>]))"

definition FileStore_List :: "(string \<Rightarrow> string) \<Rightarrow> fsys \<Rightarrow> string \<Rightarrow> obj_meta list result \<times> fsys" where
  "FileStore_List sha fs prefx =
     (case os_Stat fs [] of
        (Inl err, fs) \<Rightarrow> if errors_is err ErrNotExist then (Inr [], fs) else (Inl err, fs)
      | (Inr _, fs) \<Rightarrow>
          (case list_walk sha prefx (sort (map fst (fs_files fs))) fs [] of
             (Inl err, fs) \<Rightarrow> (Inl err, fs)
           | (Inr out, fs) \<Rightarrow> (Inr (sort_key om_Key out), fs)))"

section \<open>The retrying store\<close>

text \<open>
  The wrapped store is given by its operations. \<open>sleep\<close> says, for each back-off, whether the
  context was cancelled meanwhile; the argument is the duration slept.
\<close>

record retry_config =
  maxRetries :: int
  backoff :: duration

definition NewRetryingStore :: "int \<Rightarrow> duration \<Rightarrow> retry_config" where
  "NewRetryingStore retries pause = \<lparr>maxRetries = (if retries < 0 then 0 else retries),
     backoff = (if pause \<le> 0 then 50 * millisecond else pause)\<rparr>"

text \<open>The loop of \<open>Put\<close>; the first argument counts the attempts left after this one.\<close>

fun retry_put ::
  "(duration \<Rightarrow> goerror option) \<Rightarrow> retry_config \<Rightarrow> ('s \<Rightarrow> obj_meta result \<times> 's) \<Rightarrow> nat \<Rightarrow> int \<Rightarrow> 's \<Rightarrow> obj_meta result \<times> 's" where
  "retry_put sleep cfg put left attempt s =
     (case put s of
        (Inr meta, s) \<Rightarrow> (Inr meta, s)
      | (Inl err, s) \<Rightarrow> if errors_is err ErrObjectConflict then (Inl err, s) else
          (case left of 0 \<Rightarrow> (Inl err, s)
           | Suc n \<Rightarrow> (case sleep (backoff cfg * (attempt + 1)) of
                Some err \<Rightarrow> (Inl err, s)
              | None \<Rightarrow> retry_put sleep cfg put n (attempt + 1) s)))"

definition RetryingStore_Put ::
  "(duration \<Rightarrow> goerror option) \<Rightarrow> retry_config \<Rightarrow> (time \<Rightarrow> 's \<Rightarrow> string \<Rightarrow> string \<Rightarrow> obj_meta result \<times> 's)
   \<Rightarrow> time \<Rightarrow> 's \<Rightarrow> string \<Rightarrow> string \<Rightarrow> obj_meta result \<times> 's" where
  "RetryingStore_Put sleep cfg put now s key data =
     retry_put sleep cfg (\<lambda>s. put now s key data) (nat (maxRetries cfg)) 0 s"

fun retry_delete ::
  "(duration \<Rightarrow> goerror option) \<Rightarrow> retry_config \<Rightarrow> ('s \<Rightarrow> goerror option \<times> 's) \<Rightarrow> nat \<Rightarrow> int \<Rightarrow> 's \<Rightarrow> goerror option \<times> 's" where
  "retry_delete sleep cfg del left attempt s =
     (case del s of
        (None, s) \<Rightarrow> (None, s)
      | (Some err, s) \<Rightarrow>
          (case left of 0 \<Rightarrow> (Some err, s)
           | Suc n \<Rightarrow> (case sleep (backoff cfg * (attempt + 1)) of
                Some err \<Rightarrow> (Some err, s)
              | None \<Rightarrow> retry_delete sleep cfg del n (attempt + 1) s)))"

definition RetryingStore_Delete ::
  "(duration \<Rightarrow> goerror option) \<Rightarrow> retry_config \<Rightarrow> ('s \<Rightarrow> string \<Rightarrow> goerror option \<times> 's) \<Rightarrow> 's \<Rightarrow> string \<Rightarrow> goerror option \<times> 's" where
  "RetryingStore_Delete sleep cfg del s key = retry_delete sleep cfg (\<lambda>s. del s key) (nat (maxRetries cfg)) 0 s"

definition RetryingStore_Get ::
  "('s \<Rightarrow> string \<Rightarrow> (string \<times> obj_meta) result \<times> 's) \<Rightarrow> 's \<Rightarrow> string \<Rightarrow> (string \<times> obj_meta) result \<times> 's" where
  "RetryingStore_Get get s key = get s key"

definition RetryingStore_List ::
  "('s \<Rightarrow> string \<Rightarrow> obj_meta list result \<times> 's) \<Rightarrow> 's \<Rightarrow> string \<Rightarrow> obj_meta list result \<times> 's" where
  "RetryingStore_List lst s prefx = lst s prefx"

declare retry_put.simps [simp del] retry_delete.simps [simp del]

section \<open>The contract of an object store\<close>

text \<open>\<open>slot\<close> is the place a key names; several keys may name one place.\<close>

locale object_store =
  fixes inv :: "'s \<Rightarrow> bool"
    and slot :: "string \<Rightarrow> 'p option"
    and content :: "'s \<Rightarrow> 'p \<Rightarrow> string option"
    and chk :: "string \<Rightarrow> string"
    and put :: "time \<Rightarrow> 's \<Rightarrow> string \<Rightarrow> string \<Rightarrow> obj_meta result \<times> 's"
    and get :: "'s \<Rightarrow> string \<Rightarrow> (string \<times> obj_meta) result \<times> 's"
    and del :: "'s \<Rightarrow> string \<Rightarrow> goerror option \<times> 's"
  assumes put_inv: "inv s \<Longrightarrow> inv (snd (put now s k d))"
    and get_inv: "inv s \<Longrightarrow> inv (snd (get s k))"
    and del_inv: "inv s \<Longrightarrow> inv (snd (del s k))"
    and put_ok: "inv s \<Longrightarrow> fst (put now s k d) = Inr m \<Longrightarrow>
        \<exists>p d'. slot k = Some p \<and> content (snd (put now s k d)) p = Some d' \<and> chk d' = chk d \<and> om_Checksum m = chk d"
    and put_frame: "inv s \<Longrightarrow> slot k \<noteq> Some p \<Longrightarrow> content (snd (put now s k d)) p = content s p"
    and put_immutable: "inv s \<Longrightarrow> content s p = Some d0 \<Longrightarrow> content (snd (put now s k d)) p = Some d0"
    and put_conflict: "inv s \<Longrightarrow> slot k = Some p \<Longrightarrow> content s p = Some d0 \<Longrightarrow> chk d0 \<noteq> chk d \<Longrightarrow>
        fst (put now s k d) = Inl ErrObjectConflict"
    and put_same: "inv s \<Longrightarrow> slot k = Some p \<Longrightarrow> content s p = Some d0 \<Longrightarrow> chk d0 = chk d \<Longrightarrow>
        \<exists>m. fst (put now s k d) = Inr m"
    and get_hit: "inv s \<Longrightarrow> slot k = Some p \<Longrightarrow> content s p = Some d \<Longrightarrow>
        \<exists>m. fst (get s k) = Inr (d, m) \<and> om_Checksum m = chk d"
    and get_miss: "inv s \<Longrightarrow> fst (get s k) = Inr (d, m) \<Longrightarrow> \<exists>p. slot k = Some p \<and> content s p = Some d"
    and get_pure: "inv s \<Longrightarrow> content (snd (get s k)) = content s"
    and del_ok: "inv s \<Longrightarrow> fst (del s k) = None \<Longrightarrow> slot k = Some p \<Longrightarrow> content (snd (del s k)) p = None"
    and del_frame: "inv s \<Longrightarrow> slot k \<noteq> Some p \<Longrightarrow> content (snd (del s k)) p = content s p"
begin

lemma get_after_put:
  assumes "inv s" and "fst (put now s k d) = Inr m"
  shows "\<exists>d' m'. fst (get (snd (put now s k d)) k) = Inr (d', m') \<and> chk d' = chk d \<and> om_Checksum m' = om_Checksum m"
proof -
  obtain p d' where "slot k = Some p" "content (snd (put now s k d)) p = Some d'" "chk d' = chk d" "om_Checksum m = chk d"
    using put_ok [OF assms] by blast
  then show ?thesis using get_hit [OF put_inv [OF assms(1)]] by metis
qed

lemma retry_put_run:
  assumes "inv s"
  shows "inv (snd (retry_put sleep cfg (\<lambda>s. put now s k d) n a s)) \<and>
    (\<forall>p. slot k \<noteq> Some p \<longrightarrow> content (snd (retry_put sleep cfg (\<lambda>s. put now s k d) n a s)) p = content s p) \<and>
    (\<forall>p d0. content s p = Some d0 \<longrightarrow> content (snd (retry_put sleep cfg (\<lambda>s. put now s k d) n a s)) p = Some d0) \<and>
    (\<forall>m. fst (retry_put sleep cfg (\<lambda>s. put now s k d) n a s) = Inr m \<longrightarrow>
       (\<exists>s'. inv s' \<and> put now s' k d = (Inr m, snd (retry_put sleep cfg (\<lambda>s. put now s k d) n a s))))"
  using assms
proof (induction n arbitrary: a s)
  case 0
  then show ?case
    using put_inv [of s now k d] put_frame [of s k _ now d] put_immutable [of s _ _ now k d]
    by (subst (1 2 3 4 5) retry_put.simps) (auto split: prod.splits sum.splits)
next
  case (Suc n)
  obtain r t where rt: "put now s k d = (r, t)" by (cases "put now s k d")
  have t: "inv t" "\<And>p. slot k \<noteq> Some p \<Longrightarrow> content t p = content s p"
      "\<And>p d0. content s p = Some d0 \<Longrightarrow> content t p = Some d0"
    using put_inv [of s now k d] put_frame [of s k _ now d] put_immutable [of s _ _ now k d] Suc.prems rt by auto
  show ?case
    using Suc.IH [OF t(1), of "a + 1"] t Suc.prems rt
    by (auto simp: retry_put.simps [of _ _ _ "Suc n"] split: sum.splits option.splits)
qed

lemma retry_delete_run:
  assumes "inv s"
  shows "inv (snd (retry_delete sleep cfg (\<lambda>s. del s k) n a s)) \<and>
    (\<forall>p. slot k \<noteq> Some p \<longrightarrow> content (snd (retry_delete sleep cfg (\<lambda>s. del s k) n a s)) p = content s p) \<and>
    (fst (retry_delete sleep cfg (\<lambda>s. del s k) n a s) = None \<longrightarrow>
       (\<exists>s'. inv s' \<and> del s' k = (None, snd (retry_delete sleep cfg (\<lambda>s. del s k) n a s))))"
  using assms
proof (induction n arbitrary: a s)
  case 0
  then show ?case
    using del_inv [of s k] del_frame [of s k]
    by (subst (1 2 3 4) retry_delete.simps) (auto split: prod.splits option.splits)
next
  case (Suc n)
  obtain r t where rt: "del s k = (r, t)" by (cases "del s k")
  have t: "inv t" "\<And>p. slot k \<noteq> Some p \<Longrightarrow> content t p = content s p"
    using del_inv [of s k] del_frame [of s k] Suc.prems rt by auto
  show ?case
    using Suc.IH [OF t(1), of "a + 1"] t Suc.prems rt
    by (auto simp: retry_delete.simps [of _ _ _ "Suc n"] split: option.splits)
qed

text \<open>Retrying keeps the contract: wrapping a store that meets it gives one that meets it.\<close>

lemma retrying:
  "object_store inv slot content chk (RetryingStore_Put sleep cfg put) (RetryingStore_Get get) (RetryingStore_Delete sleep cfg del)"
proof
  fix s now k d m p d0
  assume s: "inv s"
  note run = retry_put_run [OF s, of sleep cfg now k d "nat (maxRetries cfg)" 0, folded RetryingStore_Put_def]
  note drun = retry_delete_run [OF s, of sleep cfg k "nat (maxRetries cfg)" 0, folded RetryingStore_Delete_def]
  show "inv (snd (RetryingStore_Put sleep cfg put now s k d))" using run by blast
  show "inv (snd (RetryingStore_Delete sleep cfg del s k))" using drun by blast
  show "slot k \<noteq> Some p \<Longrightarrow> content (snd (RetryingStore_Put sleep cfg put now s k d)) p = content s p" using run by blast
  show "content s p = Some d0 \<Longrightarrow> content (snd (RetryingStore_Put sleep cfg put now s k d)) p = Some d0" using run by blast
  show "slot k \<noteq> Some p \<Longrightarrow> content (snd (RetryingStore_Delete sleep cfg del s k)) p = content s p" using drun by blast
  show "inv (snd (RetryingStore_Get get s k))" "content (snd (RetryingStore_Get get s k)) = content s"
    using s by (simp_all add: RetryingStore_Get_def get_inv get_pure)
  show "slot k = Some p \<Longrightarrow> content s p = Some d \<Longrightarrow> \<exists>m. fst (RetryingStore_Get get s k) = Inr (d, m) \<and> om_Checksum m = chk d"
    using s by (simp add: RetryingStore_Get_def get_hit)
  show "fst (RetryingStore_Get get s k) = Inr (d, m) \<Longrightarrow> \<exists>p. slot k = Some p \<and> content s p = Some d"
    using s by (simp add: RetryingStore_Get_def get_miss)
  show "\<exists>p d'. slot k = Some p \<and> content (snd (RetryingStore_Put sleep cfg put now s k d)) p = Some d' \<and> chk d' = chk d \<and> om_Checksum m = chk d"
    if "fst (RetryingStore_Put sleep cfg put now s k d) = Inr m"
  proof -
    obtain s' where "inv s'" "put now s' k d = (Inr m, snd (RetryingStore_Put sleep cfg put now s k d))"
      using run \<open>fst _ = Inr m\<close> by blast
    then show ?thesis using put_ok [of s' now k d m] by simp
  qed
  show "slot k = Some p \<Longrightarrow> content s p = Some d0 \<Longrightarrow> chk d0 \<noteq> chk d \<Longrightarrow>
      fst (RetryingStore_Put sleep cfg put now s k d) = Inl ErrObjectConflict"
    using put_conflict [OF s, of k p d0 d now]
    by (simp add: RetryingStore_Put_def) (subst retry_put.simps, auto split: prod.splits)
  show "slot k = Some p \<Longrightarrow> content s p = Some d0 \<Longrightarrow> chk d0 = chk d \<Longrightarrow>
      \<exists>m. fst (RetryingStore_Put sleep cfg put now s k d) = Inr m"
    using put_same [OF s, of k p d0 d now]
    by (simp add: RetryingStore_Put_def) (subst retry_put.simps, auto split: prod.splits)
  show "content (snd (RetryingStore_Delete sleep cfg del s k)) p = None"
    if none: "fst (RetryingStore_Delete sleep cfg del s k) = None" and sl: "slot k = Some p"
  proof -
    obtain s' where "inv s'" "del s' k = (None, snd (RetryingStore_Delete sleep cfg del s k))"
      using drun none by blast
    then show ?thesis using del_ok [of s' k p] sl by simp
  qed
qed

text \<open>What is stored stays readable through any later writes.\<close>

fun puts :: "(time \<times> string \<times> string) list \<Rightarrow> 's \<Rightarrow> 's" where
  "puts [] s = s"
| "puts ((now, k, d) # ops) s = puts ops (snd (put now s k d))"

lemma puts_keep: "inv s \<Longrightarrow> content s p = Some d0 \<Longrightarrow> inv (puts ops s) \<and> content (puts ops s) p = Some d0"
  by (induction ops s rule: puts.induct) (simp_all add: put_inv put_immutable)

lemma written_once:
  assumes "inv s" and "fst (put now s k d) = Inr m"
  shows "\<exists>d' m'. fst (get (puts ops (snd (put now s k d))) k) = Inr (d', m') \<and> chk d' = chk d \<and> om_Checksum m' = om_Checksum m"
proof -
  obtain p d' where p: "slot k = Some p" "content (snd (put now s k d)) p = Some d'" "chk d' = chk d" "om_Checksum m = chk d"
    using put_ok [OF assms] by blast
  then have "inv (puts ops (snd (put now s k d))) \<and> content (puts ops (snd (put now s k d))) p = Some d'"
    using puts_keep put_inv [OF assms(1)] by blast
  then show ?thesis using get_hit p by metis
qed

end

section \<open>Paths stay below the root\<close>

text \<open>A component that names an entry of its directory.\<close>

definition proper_component :: "string \<Rightarrow> bool" where
  "proper_component c \<longleftrightarrow> c \<noteq> [] \<and> c \<noteq> ''.'' \<and> c \<noteq> ''..'' \<and> CHR ''/'' \<notin> set c"

text \<open>The output of \<open>Clean\<close>: parent references only at the front, and none in a rooted path.\<close>

lemma clean_shape:
  assumes "\<forall>c \<in> set cs. CHR ''/'' \<notin> set c"
    and "rev stack = replicate n ''..'' @ ds" and "\<forall>d \<in> set ds. proper_component d" and "rooted \<longrightarrow> n = 0"
  shows "\<exists>m es. clean_components rooted stack cs = replicate m ''..'' @ es \<and> (\<forall>e \<in> set es. proper_component e) \<and> (rooted \<longrightarrow> m = 0)"
  using assms
proof (induction cs arbitrary: stack n ds)
  case Nil
  then show ?case by auto
next
  case (Cons c cs)
  have rest: "\<forall>c \<in> set cs. CHR ''/'' \<notin> set c" using Cons.prems(1) by simp
  consider "c = [] \<or> c = ''.''" | "c = ''..''" "ds = []" | d ds' where "c = ''..''" "ds = ds' @ [d]"
    | "proper_component c"
    using Cons.prems(1) by (cases ds rule: rev_cases) (auto simp: proper_component_def)
  then show ?case
  proof cases
    case 1
    then show ?thesis using Cons.IH [OF rest Cons.prems(2-4)] by auto
  next
    case 2
    then have st: "stack = replicate n ''..''" using Cons.prems(2) by (metis append_Nil2 rev_replicate rev_swap)
    show ?thesis
    proof (cases rooted)
      case True
      then show ?thesis using 2 st Cons.prems(4) Cons.IH [of "[]" 0 "[]"] rest by simp
    next
      case False
      have "clean_components rooted stack (c # cs) = clean_components rooted (''..'' # stack) cs"
        using 2 st False by (cases n) auto
      moreover have "rev (''..'' # stack) = replicate (Suc n) ''..'' @ []"
        using st by (simp add: replicate_append_same)
      ultimately show ?thesis using Cons.IH [of "''..'' # stack" "Suc n" "[]"] rest False by simp
    qed
  next
    case (3 d ds')
    then have st: "stack = d # rev ds' @ replicate n ''..''" using Cons.prems(2) by (simp add: rev_swap)
    have "d \<noteq> ''..''" using Cons.prems(3) 3 by (auto simp: proper_component_def)
    then have "clean_components rooted stack (c # cs) = clean_components rooted (rev ds' @ replicate n ''..'') cs"
      using 3 st by simp
    then show ?thesis
      using Cons.IH [of "rev ds' @ replicate n ''..''" n ds'] rest Cons.prems(3,4) 3 by auto
  next
    case 4
    then have "clean_components rooted stack (c # cs) = clean_components rooted (c # stack) cs"
      by (auto simp: proper_component_def)
    then show ?thesis using Cons.IH [of "c # stack" n "ds @ [c]"] rest Cons.prems(2-4) 4 by auto
  qed
qed

lemma clean_key:
  "\<exists>m es. clean_components rooted [] (split_char (CHR ''/'') key) = replicate m ''..'' @ es \<and>
     (\<forall>e \<in> set es. proper_component e) \<and> (rooted \<longrightarrow> m = 0)"
  using clean_shape [of "split_char (CHR ''/'') key" "[]" 0 "[]" rooted] split_char_free by force

lemma FileStore_path_proper:
  assumes "FileStore_path key = Inr p"
  shows "p \<noteq> [] \<and> list_all proper_component p"
proof -
  let ?r = "starts_with key ''/''"
  let ?cs = "clean_components ?r [] (split_char (CHR ''/'') key)"
  obtain m es where es: "?cs = replicate m ''..'' @ es" "\<forall>e \<in> set es. proper_component e" "?r \<longrightarrow> m = 0"
    using clean_key by blast
  have nr: "\<not> ?r" and ne: "?cs \<noteq> []"
    using assms by (auto simp: FileStore_path_def filepath_Clean_def filepath_IsAbs_def Let_def starts_with_def split: if_splits)
  have c: "filepath_Clean key = Join ?cs ''/''" using nr ne by (simp add: filepath_Clean_def Let_def)
  have "m = 0"
  proof (rule ccontr)
    assume "m \<noteq> 0"
    then obtain n where "m = Suc n" by (cases m) auto
    then have "starts_with (Join ?cs ''/'') ''..''"
      using es(1) by (cases "replicate n ''..'' @ es") (auto simp: starts_with_def)
    then show False using assms c by (simp add: FileStore_path_def Let_def)
  qed
  then have all: "\<forall>e \<in> set ?cs. proper_component e" using es by simp
  then have "split_char (CHR ''/'') (Join ?cs [CHR ''/'']) = ?cs"
    using ne by (intro split_Join) (auto simp: proper_component_def)
  then have "p = ?cs" using assms c by (simp add: FileStore_path_def Let_def split: if_splits)
  then show ?thesis using all ne by (simp add: list_all_iff)
qed

section \<open>The file store meets the contract while no system call fails\<close>

definition file_slot :: "string \<Rightarrow> path option" where
  "file_slot key = (if TrimSpace key = [] then None else case FileStore_path key of Inl _ \<Rightarrow> None | Inr p \<Rightarrow> Some p)"

definition file_content :: "fsys \<Rightarrow> path \<Rightarrow> string option" where
  "file_content fs p = map_option fst (map_of (fs_files fs) p)"

definition no_faults :: "fsys \<Rightarrow> bool" where
  "no_faults fs \<longleftrightarrow> fs_faults fs = []"

lemma next_fault_none [simp]: "no_faults fs \<Longrightarrow> next_fault fs = (None, fs)"
  by (simp add: no_faults_def next_fault_def)

lemma mkdir_list_keeps: "fs_files (snd (mkdir_list ps fs)) = fs_files fs \<and> fs_faults (snd (mkdir_list ps fs)) = fs_faults fs"
  by (induction ps fs rule: mkdir_list.induct) auto

lemma no_faults_simps [simp]:
  "no_faults (fs\<lparr>fs_files := f\<rparr>) = no_faults fs" "no_faults (fs\<lparr>fs_dirs := ds\<rparr>) = no_faults fs"
  by (simp_all add: no_faults_def)

text \<open>The write path of \<open>Put\<close>, taken when the object does not exist yet.\<close>

definition put_new :: "(string \<Rightarrow> string) \<Rightarrow> time \<Rightarrow> fsys \<Rightarrow> string \<Rightarrow> path \<Rightarrow> string \<Rightarrow> obj_meta result \<times> fsys" where
  "put_new sha now fs key p data =
     (case mkdir_list (prefixes (butlast p)) fs of (Some err, fs) \<Rightarrow> (Inl err, fs) | (None, fs) \<Rightarrow>
      if p \<in> set (fs_dirs fs) then (Inl (IOError ''is a directory''), fs)
      else if butlast p \<notin> set (fs_dirs fs) then (Inl (lookup_error fs p), fs)
      else (Inr \<lparr>om_Key = key, om_Size = length data, om_Checksum = sha data, om_CreatedAt = now\<rparr>,
            fs\<lparr>fs_files := AList.update p (data, now) (fs_files fs)\<rparr>))"

lemma FileStore_Put_eq:
  assumes "no_faults fs"
  shows "FileStore_Put sha now fs key data =
    (case file_slot key of
       None \<Rightarrow> (Inl ErrKeyRequired, fs)
     | Some p \<Rightarrow> (case map_of (fs_files fs) p of
         Some (old, mtime) \<Rightarrow> if sha old \<noteq> sha data then (Inl ErrObjectConflict, fs)
           else (Inr \<lparr>om_Key = key, om_Size = length old, om_Checksum = sha data, om_CreatedAt = mtime\<rparr>, fs)
       | None \<Rightarrow> put_new sha now fs key p data))"
proof (cases "file_slot key")
  case None
  then show ?thesis
    by (auto simp: FileStore_Put_def file_slot_def FileStore_path_def Let_def split: if_splits)
next
  case (Some p)
  then have key: "TrimSpace key \<noteq> []" "FileStore_path key = Inr p"
    by (auto simp: file_slot_def split: if_splits sum.splits)
  show ?thesis
  proof (cases "map_of (fs_files fs) p")
    case (Some v)
    then show ?thesis using key \<open>file_slot key = Some p\<close> assms
      by (cases v) (simp add: FileStore_Put_def os_ReadFile_def os_Stat_def)
  next
    case None
    obtain r t where rt: "mkdir_list (prefixes (butlast p)) fs = (r, t)" by (metis surj_pair)
    then have t: "no_faults t" using mkdir_list_keeps [of "prefixes (butlast p)" fs] assms by (simp add: no_faults_def)
    then show ?thesis using key \<open>file_slot key = Some p\<close> assms None rt
      by (auto simp: FileStore_Put_def os_ReadFile_def os_MkdirAll_def os_WriteFile_def os_Stat_def put_new_def update_conv'
          split: option.splits)
  qed
qed

lemma put_new_content:
  "file_content (snd (put_new sha now fs key p data)) q =
     (if q = p \<and> (\<exists>m. fst (put_new sha now fs key p data) = Inr m) then Some data else file_content fs q)"
  "no_faults fs \<Longrightarrow> no_faults (snd (put_new sha now fs key p data))"
  "fst (put_new sha now fs key p data) = Inr m \<Longrightarrow> om_Checksum m = sha data"
  using mkdir_list_keeps [of "prefixes (butlast p)" fs]
  by (auto simp: put_new_def file_content_def update_conv' no_faults_def split: prod.splits option.splits if_splits)

lemma FileStore_Get_eq:
  assumes "no_faults fs"
  shows "FileStore_Get sha fs key =
    (case file_slot key of
       None \<Rightarrow> (Inl ErrKeyRequired, fs)
     | Some p \<Rightarrow> (case map_of (fs_files fs) p of
         Some (data, mtime) \<Rightarrow>
           (Inr (data, \<lparr>om_Key = key, om_Size = length data, om_Checksum = sha data, om_CreatedAt = mtime\<rparr>), fs)
       | None \<Rightarrow> (Inl (lookup_error fs p), fs)))"
  using assms
  by (auto simp: FileStore_Get_def file_slot_def os_ReadFile_def os_Stat_def FileStore_path_def Let_def
      split: option.splits if_splits)

lemma FileStore_Delete_content:
  assumes "no_faults fs"
  shows "no_faults (snd (FileStore_Delete fs key))"
    and "file_slot key \<noteq> Some q \<Longrightarrow> file_content (snd (FileStore_Delete fs key)) q = file_content fs q"
    and "fst (FileStore_Delete fs key) = None \<Longrightarrow> file_slot key = Some q \<Longrightarrow> file_content (snd (FileStore_Delete fs key)) q = None"
  using assms
  by (auto simp: FileStore_Delete_def os_Remove_def file_slot_def file_content_def delete_conv' restrict_map_def
      simp del: not_None_eq split: sum.splits if_splits)

interpretation file_store: object_store no_faults file_slot file_content sha "FileStore_Put sha" "FileStore_Get sha" FileStore_Delete
  for sha
proof
  fix fs now key d m p d0
  assume nf: "no_faults fs"
  show "no_faults (snd (FileStore_Put sha now fs key d))"
    using nf by (auto simp: FileStore_Put_eq put_new_content split: option.splits)
  show "no_faults (snd (FileStore_Get sha fs key))" "file_content (snd (FileStore_Get sha fs key)) = file_content fs"
    using nf by (auto simp: FileStore_Get_eq split: option.splits)
  show "no_faults (snd (FileStore_Delete fs key))"
    "file_slot key \<noteq> Some p \<Longrightarrow> file_content (snd (FileStore_Delete fs key)) p = file_content fs p"
    "fst (FileStore_Delete fs key) = None \<Longrightarrow> file_slot key = Some p \<Longrightarrow> file_content (snd (FileStore_Delete fs key)) p = None"
    using FileStore_Delete_content [OF nf] by blast+
  show "file_slot key \<noteq> Some p \<Longrightarrow> file_content (snd (FileStore_Put sha now fs key d)) p = file_content fs p"
    using nf by (auto simp: FileStore_Put_eq put_new_content split: option.splits)
  show "file_content fs p = Some d0 \<Longrightarrow> file_content (snd (FileStore_Put sha now fs key d)) p = Some d0"
    using nf by (auto simp: FileStore_Put_eq put_new_content split: option.splits) (auto simp: file_content_def)
  show "\<exists>p d'. file_slot key = Some p \<and> file_content (snd (FileStore_Put sha now fs key d)) p = Some d' \<and> sha d' = sha d \<and> om_Checksum m = sha d"
    if "fst (FileStore_Put sha now fs key d) = Inr m"
    using that nf
    by (auto simp: FileStore_Put_eq put_new_content dest: put_new_content(3) split: option.splits if_splits)
      (auto simp: file_content_def)
  show "file_slot key = Some p \<Longrightarrow> file_content fs p = Some d0 \<Longrightarrow> sha d0 \<noteq> sha d \<Longrightarrow>
      fst (FileStore_Put sha now fs key d) = Inl ErrObjectConflict"
    using nf by (auto simp: FileStore_Put_eq file_content_def)
  show "file_slot key = Some p \<Longrightarrow> file_content fs p = Some d0 \<Longrightarrow> sha d0 = sha d \<Longrightarrow>
      \<exists>m. fst (FileStore_Put sha now fs key d) = Inr m"
    using nf by (auto simp: FileStore_Put_eq file_content_def)
  show "file_slot key = Some p \<Longrightarrow> file_content fs p = Some d \<Longrightarrow>
      \<exists>m. fst (FileStore_Get sha fs key) = Inr (d, m) \<and> om_Checksum m = sha d"
    using nf by (auto simp: FileStore_Get_eq file_content_def)
  show "fst (FileStore_Get sha fs key) = Inr (d, m) \<Longrightarrow> \<exists>p. file_slot key = Some p \<and> file_content fs p = Some d"
    using nf by (auto simp: FileStore_Get_eq file_content_def split: option.splits)
qed

interpretation retrying_store: object_store no_faults file_slot file_content sha
  "RetryingStore_Put sleep cfg (FileStore_Put sha)" "RetryingStore_Get (FileStore_Get sha)" "RetryingStore_Delete sleep cfg FileStore_Delete"
  for sha sleep cfg
  by (rule file_store.retrying)

section \<open>Properties\<close>

text \<open>
  C24. No key escapes the root: a key the store accepts names at least one component, and every
  component is a plain name, neither empty nor a parent reference nor containing a slash.
\<close>

theorem path_confined:
  assumes "FileStore_path key = Inr p"
  shows "p \<noteq> [] \<and> (\<forall>c \<in> set p. c \<noteq> [] \<and> c \<noteq> ''.'' \<and> c \<noteq> ''..'' \<and> CHR ''/'' \<notin> set c)"
  using FileStore_path_proper [OF assms] by (simp add: list_all_iff proper_component_def)

theorem path_confined_witness:
  "FileStore_path ''chunks/../seg//./a'' = Inr [''seg'', ''a''] \<and> ''..'' \<notin> set [''seg'', ''a'']
   \<and> FileStore_path ''a/../../etc'' = Inl ErrKeyRequired"
proof -
  have p: "FileStore_path ''chunks/../seg//./a'' = Inr [''seg'', ''a'']" by code_simp
  show ?thesis using path_confined [OF p] p by (simp add: FileStore_path_def filepath_Clean_def starts_with_def)
qed

text \<open>
  C25. Objects are written once: on a file system whose calls succeed, an object that the retrying
  file store accepted is read back, with the checksum of the data that was put and that \<open>Put\<close> reported,
  after any further writes to any keys.
\<close>

theorem objects_written_once:
  assumes "no_faults fs" and "fst (RetryingStore_Put sleep cfg (FileStore_Put sha) now fs key data) = Inr m"
  shows "\<exists>data' m'. fst (RetryingStore_Get (FileStore_Get sha)
       (fold (\<lambda>(now, k, d) fs. snd (RetryingStore_Put sleep cfg (FileStore_Put sha) now fs k d)) ops
         (snd (RetryingStore_Put sleep cfg (FileStore_Put sha) now fs key data))) key) = Inr (data', m') \<and>
     sha data' = sha data \<and> om_Checksum m' = om_Checksum m"
proof -
  have "retrying_store.puts sleep cfg sha ops s = fold (\<lambda>(now, k, d) fs. snd (RetryingStore_Put sleep cfg (FileStore_Put sha) now fs k d)) ops s" for s
    by (induction ops arbitrary: s) auto
  then show ?thesis using retrying_store.written_once [OF assms, of ops] by simp
qed

definition empty_fs :: "fault list \<Rightarrow> fsys" where
  "empty_fs faults = \<lparr>fs_files = [], fs_dirs = [], fs_faults = faults\<rparr>"

theorem objects_written_once_witness:
  "\<exists>data' m'. fst (RetryingStore_Get (FileStore_Get id)
     (snd (RetryingStore_Put (\<lambda>_. None) (NewRetryingStore 2 0) (FileStore_Put id) 9 (empty_fs []) ''a/b'' ''xyz'')) ''a/b'') = Inr (data', m') \<and> data' = ''xyz''"
proof -
  have p: "fst (RetryingStore_Put (\<lambda>_. None) (NewRetryingStore 2 0) (FileStore_Put id) 9 (empty_fs []) ''a/b'' ''xyz'') =
      Inr \<lparr>om_Key = ''a/b'', om_Size = 3, om_Checksum = ''xyz'', om_CreatedAt = 9\<rparr>"
    by code_simp
  have "no_faults (empty_fs [])" by (simp add: empty_fs_def no_faults_def)
  then show ?thesis using objects_written_once [OF _ p, of "[]"] by auto
qed

text \<open>
  Without that hypothesis objects are not immutable: when reading the existing object fails once,
  \<open>Put\<close> replaces it with different data and reports success; and when a write is torn, the bytes it left
  make every retry of the same \<open>Put\<close> fail with a conflict, although no object was ever stored.
\<close>

theorem put_unsafe_under_faults:
  "(let fs = snd (FileStore_Put id 1 (empty_fs []) ''k'' ''old'') in
      \<exists>m fs'. FileStore_Put id 2 (fs\<lparr>fs_faults := [Some (IOError ''EIO'', 0)]\<rparr>) ''k'' ''new'' = (Inr m, fs') \<and>
        file_content fs' [''k''] = Some ''new'') \<and>
   (\<exists>fs'. RetryingStore_Put (\<lambda>_. None) (NewRetryingStore 5 0) (FileStore_Put id) 1
        (empty_fs [None, None, Some (IOError ''ENOSPC'', 1)]) ''k'' ''abc'' = (Inl ErrObjectConflict, fs') \<and>
        file_content fs' [''k''] = Some ''a'')"
proof -
  have "(let fs = snd (FileStore_Put id 1 (empty_fs []) ''k'' ''old'');
            r = FileStore_Put id 2 (fs\<lparr>fs_faults := [Some (IOError ''EIO'', 0)]\<rparr>) ''k'' ''new''
        in \<not> isl (fst r) \<and> file_content (snd r) [''k''] = Some ''new'')"
    by code_simp
  moreover have "(let r = RetryingStore_Put (\<lambda>_. None) (NewRetryingStore 5 0) (FileStore_Put id) 1
        (empty_fs [None, None, Some (IOError ''ENOSPC'', 1)]) ''k'' ''abc''
      in fst r = Inl ErrObjectConflict \<and> file_content (snd r) [''k''] = Some ''a'')"
    by code_simp
  ultimately show ?thesis unfolding Let_def by (metis prod.collapse sum.collapse(2))
qed

end
