(* ===== verification/Manifests.thy ===== *)
theory Manifests
  imports Go_Time
begin

text \<open>
  Package \<open>internal/storage/manifests\<close>: the repository of segment manifests, in its in-memory
  form. SHA-256 in hex is the parameter \<open>sha\<close>, the clock reading of a call the parameter \<open>now\<close>.
  The locale \<open>manifest_repository\<close> is the contract of the \<open>Repository\<close> interface.
\<close>

section \<open>Data\<close>

record manifest =
  mr_Key :: string
  mr_PartitionKey :: string
  mr_Start :: time
  mr_End :: time
  mr_Checksum :: string
  mr_Payload :: string
  mr_CreatedAt :: time

type_synonym memory_repository = "(string, manifest) gomap"

section \<open>Operations\<close>

definition Checksum :: "(string \<Rightarrow> string) \<Rightarrow> string \<Rightarrow> string" where
  "Checksum sha payload = sha payload"

definition NewMemoryRepository :: memory_repository where
  "NewMemoryRepository = []"

definition Manifest_Put ::
  "(string \<Rightarrow> string) \<Rightarrow> time \<Rightarrow> memory_repository \<Rightarrow> manifest \<Rightarrow> manifest result \<times> memory_repository" where
  "Manifest_Put sha now m r =
     (if mr_Key r = [] then (Inl (Errorf ''manifest key is required'' []), m) else
      let r = (if IsZero (mr_CreatedAt r) then r\<lparr>mr_CreatedAt := now\<rparr> else r);
          r = (if mr_Checksum r = [] then r\<lparr>mr_Checksum := Checksum sha (mr_Payload r)\<rparr> else r)
      in case map_of m (mr_Key r) of
           Some existing \<Rightarrow> if mr_Checksum existing \<noteq> mr_Checksum r then (Inl ErrConflict, m)
             else (Inr r, AList.update (mr_Key r) r m)
         | None \<Rightarrow> (Inr r, AList.update (mr_Key r) r m))"

definition Manifest_Get :: "memory_repository \<Rightarrow> string \<Rightarrow> manifest result" where
  "Manifest_Get m key = (case map_of m key of
     None \<Rightarrow> Inl (Errorf ''manifest not found'' []) | Some r \<Rightarrow> Inr r)"

definition Manifest_List :: "memory_repository \<Rightarrow> string \<Rightarrow> manifest list" where
  "Manifest_List m prefx =
     map (\<lambda>key. the (map_of m key))
       (sort (filter (\<lambda>key. prefx = [] \<or> length prefx \<le> length key \<and> take (length prefx) key = prefx) (map fst m)))"

definition Manifest_Delete :: "memory_repository \<Rightarrow> string \<Rightarrow> goerror option \<times> memory_repository" where
  "Manifest_Delete m key = (None, AList.delete key m)"

section \<open>The contract of a manifest repository\<close>

text \<open>Records are filed under their own key and carry a checksum.\<close>

definition wf_repository :: "memory_repository \<Rightarrow> bool" where
  "wf_repository m \<longleftrightarrow> wf_map m \<and> (\<forall>(k, r) \<in> set m. mr_Key r = k \<and> k \<noteq> [])"

locale manifest_repository =
  fixes inv :: "'s \<Rightarrow> bool"
    and lookup :: "'s \<Rightarrow> string \<Rightarrow> manifest option"
    and put :: "time \<Rightarrow> 's \<Rightarrow> manifest \<Rightarrow> manifest result \<times> 's"
    and get :: "'s \<Rightarrow> string \<Rightarrow> manifest result"
    and list_of :: "'s \<Rightarrow> string \<Rightarrow> manifest list"
    and del :: "'s \<Rightarrow> string \<Rightarrow> goerror option \<times> 's"
  assumes put_inv: "inv s \<Longrightarrow> inv (snd (put now s r))"
    and del_inv: "inv s \<Longrightarrow> inv (snd (del s k))"
    and put_ok: "inv s \<Longrightarrow> fst (put now s r) = Inr r' \<Longrightarrow>
        lookup (snd (put now s r)) = (lookup s)(mr_Key r \<mapsto> r') \<and> mr_Key r' = mr_Key r \<and> mr_Payload r' = mr_Payload r"
    and put_err: "inv s \<Longrightarrow> fst (put now s r) = Inl err \<Longrightarrow> snd (put now s r) = s"
    and put_conflict: "inv s \<Longrightarrow> lookup s (mr_Key r) = Some old \<Longrightarrow> fst (put now s r) = Inr r' \<Longrightarrow>
        mr_Checksum old = mr_Checksum r'"
    and get_lookup: "inv s \<Longrightarrow> get s k = Inr r \<longleftrightarrow> lookup s k = Some r"
    and list_lookup: "inv s \<Longrightarrow> set (list_of s p) = {r. \<exists>k. lookup s k = Some r \<and> starts_with k p}"
    and list_sorted: "inv s \<Longrightarrow> sorted (map mr_Key (list_of s p)) \<and> distinct (map mr_Key (list_of s p))"
    and del_lookup: "inv s \<Longrightarrow> lookup (snd (del s k)) = (lookup s)(k := None)"
begin

text \<open>The checksum under a key never changes while the manifest is not deleted.\<close>

lemma checksum_stable:
  assumes "inv s" and "lookup s k = Some old"
  shows "\<exists>new. lookup (snd (put now s r)) k = Some new \<and> mr_Checksum new = mr_Checksum old"
proof (cases "fst (put now s r)")
  case (Inl err)
  then show ?thesis using put_err [OF assms(1)] assms(2) by simp
next
  case (Inr r')
  then show ?thesis
    using put_ok [OF assms(1) Inr] put_conflict [OF assms(1) _ Inr] assms(2) by (cases "k = mr_Key r") auto
qed

lemma listed_after_put:
  assumes "inv s" and "fst (put now s r) = Inr r'" and "starts_with (mr_Key r) p"
  shows "r' \<in> set (list_of (snd (put now s r)) p) \<and> get (snd (put now s r)) (mr_Key r) = Inr r'"
  using put_ok [OF assms(1,2)] put_inv [OF assms(1)] assms(3)
  by (auto simp: list_lookup assms(1) get_lookup)

end

section \<open>The in-memory repository meets it\<close>

lemma Manifest_Put_cases:
  obtains (error) err where "Manifest_Put sha now m r = (Inl err, m)"
  | (stored) r' where "Manifest_Put sha now m r = (Inr r', AList.update (mr_Key r) r' m)"
      and "mr_Key r \<noteq> []" and "mr_Key r' = mr_Key r" and "mr_Payload r' = mr_Payload r"
      and "\<And>old. map_of m (mr_Key r) = Some old \<Longrightarrow> mr_Checksum old = mr_Checksum r'"
proof -
  define r1 where "r1 = (if IsZero (mr_CreatedAt r) then r\<lparr>mr_CreatedAt := now\<rparr> else r)"
  define r2 where "r2 = (if mr_Checksum r1 = [] then r1\<lparr>mr_Checksum := Checksum sha (mr_Payload r1)\<rparr> else r1)"
  have k: "mr_Key r2 = mr_Key r" "mr_Payload r2 = mr_Payload r" by (simp_all add: r2_def r1_def)
  have put: "Manifest_Put sha now m r =
      (if mr_Key r = [] then (Inl (Errorf ''manifest key is required'' []), m) else
       case map_of m (mr_Key r) of
           Some existing \<Rightarrow> if mr_Checksum existing \<noteq> mr_Checksum r2 then (Inl ErrConflict, m)
             else (Inr r2, AList.update (mr_Key r) r2 m)
         | None \<Rightarrow> (Inr r2, AList.update (mr_Key r) r2 m))"
    by (simp only: Manifest_Put_def Let_def r1_def [symmetric] r2_def [symmetric] k)
  show ?thesis
    by (cases "mr_Key r = []"; cases "map_of m (mr_Key r)")
      (use put k error stored in \<open>auto split: if_splits\<close>)
qed

lemma wf_Manifest_Put [go_inv]: "wf_repository m \<Longrightarrow> wf_repository (snd (Manifest_Put sha now m r))"
proof (cases rule: Manifest_Put_cases [of sha now m r])
  case (stored r')
  assume "wf_repository m"
  moreover have "set (AList.update (mr_Key r) r' m) \<subseteq> insert (mr_Key r, r') (set m)"
    by (induction m) auto
  ultimately show ?thesis using stored by (auto simp: wf_repository_def)
qed simp

lemma wf_Manifest_Delete [go_inv]: "wf_repository m \<Longrightarrow> wf_repository (snd (Manifest_Delete m k))"
  by (auto simp: wf_repository_def Manifest_Delete_def AList.delete_eq wf_map_def distinct_map_filter)

lemma prefix_test: "p = [] \<or> length p \<le> length key \<and> take (length p) key = p \<longleftrightarrow> starts_with key p"
proof -
  have "length p \<le> length key" if "take (length p) key = p"
    using that by (metis length_take min.cobounded1)
  then show ?thesis by (auto simp: starts_with_def)
qed

lemma keys_of_list:
  assumes "wf_repository m"
  shows "map mr_Key (Manifest_List m p) = sort (filter (\<lambda>key. starts_with key p) (map fst m))"
proof -
  let ?ks = "sort (filter (\<lambda>key. starts_with key p) (map fst m))"
  have "map mr_Key (Manifest_List m p) = map (\<lambda>k. mr_Key (the (map_of m k))) ?ks"
    by (simp add: Manifest_List_def prefix_test)
  also have "\<dots> = ?ks"
  proof (rule map_idI)
    fix k assume "k \<in> set ?ks"
    then obtain r where r: "(k, r) \<in> set m" by auto
    then have "mr_Key r = k" "map_of m k = Some r"
      using assms unfolding wf_repository_def by (blast, simp add: map_of_Some_in)
    then show "mr_Key (the (map_of m k)) = k" by simp
  qed
  finally show ?thesis .
qed

lemma set_Manifest_List:
  assumes "wf_repository m"
  shows "set (Manifest_List m p) = {r. \<exists>k. map_of m k = Some r \<and> starts_with k p}"
proof -
  have "set (Manifest_List m p) = (\<lambda>k. the (map_of m k)) ` {k \<in> fst ` set m. starts_with k p}"
    by (auto simp: Manifest_List_def prefix_test)
  also have "\<dots> = {r. \<exists>k. map_of m k = Some r \<and> starts_with k p}"
    by (force simp: dom_map_of_conv_image_fst [symmetric])
  finally show ?thesis .
qed

interpretation memory_manifests: manifest_repository wf_repository map_of "Manifest_Put sha" Manifest_Get Manifest_List Manifest_Delete
  for sha
proof
  fix m now r r' err old k p
  assume w: "wf_repository m"
  then have wm: "wf_map m" by (simp add: wf_repository_def)
  show "wf_repository (snd (Manifest_Put sha now m r))" "wf_repository (snd (Manifest_Delete m k))"
    using w by (rule wf_Manifest_Put, rule wf_Manifest_Delete)
  show "fst (Manifest_Put sha now m r) = Inr r' \<Longrightarrow>
      map_of (snd (Manifest_Put sha now m r)) = (map_of m)(mr_Key r \<mapsto> r') \<and> mr_Key r' = mr_Key r \<and> mr_Payload r' = mr_Payload r"
    by (cases rule: Manifest_Put_cases [of sha now m r]) (auto simp: update_conv')
  show "fst (Manifest_Put sha now m r) = Inl err \<Longrightarrow> snd (Manifest_Put sha now m r) = m"
    by (cases rule: Manifest_Put_cases [of sha now m r]) auto
  show "map_of m (mr_Key r) = Some old \<Longrightarrow> fst (Manifest_Put sha now m r) = Inr r' \<Longrightarrow> mr_Checksum old = mr_Checksum r'"
    by (cases rule: Manifest_Put_cases [of sha now m r]) auto
  show "Manifest_Get m k = Inr r \<longleftrightarrow> map_of m k = Some r"
    by (auto simp: Manifest_Get_def split: option.splits)
  show "set (Manifest_List m p) = {r. \<exists>k. map_of m k = Some r \<and> starts_with k p}"
    using w by (rule set_Manifest_List)
  show "sorted (map mr_Key (Manifest_List m p)) \<and> distinct (map mr_Key (Manifest_List m p))"
    using wm by (simp add: keys_of_list [OF w] wf_map_def)
  show "map_of (snd (Manifest_Delete m k)) = (map_of m)(k := None)"
    by (simp add: Manifest_Delete_def delete_conv')
qed

section \<open>Properties\<close>

text \<open>
  The manifest repository is append-only per key: a stored manifest is found by \<open>Get\<close> and listed
  under every prefix of its key, in key order, and whatever is put later the manifest under its key keeps
  its checksum; a put under the key with another checksum fails and changes nothing.
\<close>

theorem manifest_roundtrip:
  assumes "wf_repository m" and "fst (Manifest_Put sha now m r) = Inr r'" and "starts_with (mr_Key r) p"
  shows "let m' = snd (Manifest_Put sha now m r) in
     Manifest_Get m' (mr_Key r) = Inr r' \<and> mr_Payload r' = mr_Payload r \<and> r' \<in> set (Manifest_List m' p) \<and>
     sorted (map mr_Key (Manifest_List m' p)) \<and>
     (\<exists>r''. Manifest_Get (snd (Manifest_Put sha now' m' q)) (mr_Key r) = Inr r'' \<and> mr_Checksum r'' = mr_Checksum r')"
proof -
  let ?m = "snd (Manifest_Put sha now m r)"
  have w: "wf_repository ?m" using assms(1) by (rule wf_Manifest_Put)
  have g: "Manifest_Get ?m (mr_Key r) = Inr r'" "r' \<in> set (Manifest_List ?m p)"
    using memory_manifests.listed_after_put [OF assms] by simp_all
  then have "map_of ?m (mr_Key r) = Some r'" using memory_manifests.get_lookup [OF w] by simp
  then obtain r'' where "map_of (snd (Manifest_Put sha now' ?m q)) (mr_Key r) = Some r''" "mr_Checksum r'' = mr_Checksum r'"
    using memory_manifests.checksum_stable [OF w] by blast
  then show ?thesis
    using g memory_manifests.put_ok [OF assms(1,2)] memory_manifests.list_sorted [OF w]
      memory_manifests.get_lookup [OF memory_manifests.put_inv [OF w]] by (simp add: Let_def)
qed

definition sample_manifest :: manifest where
  "sample_manifest = \<lparr>mr_Key = ''manifests/a'', mr_PartitionKey = ''p'', mr_Start = 1, mr_End = 2, mr_Checksum = [],
     mr_Payload = ''{}'', mr_CreatedAt = 0\<rparr>"

theorem manifest_roundtrip_witness:
  "Manifest_Get (snd (Manifest_Put id 5 NewMemoryRepository sample_manifest)) ''manifests/a'' =
     Inr (sample_manifest\<lparr>mr_CreatedAt := 5, mr_Checksum := ''{}''\<rparr>)"
  using manifest_roundtrip [of NewMemoryRepository id 5 sample_manifest
      "sample_manifest\<lparr>mr_CreatedAt := 5, mr_Checksum := ''{}''\<rparr>" "''manifests''" 6 sample_manifest]
  by (simp add: wf_repository_def NewMemoryRepository_def Manifest_Put_def sample_manifest_def IsZero_def Checksum_def
      starts_with_def Let_def)

end
