(* ===== verification/Planner.thy ===== *)
theory Planner
  imports Segment Cache Mem_Index
begin

text \<open>
  Package \<open>internal/engine/planner\<close>: pruning segments and chunks with their summaries, scanning the
  remaining chunks, merging them with the hot index, and the two caches.

  The environment holds what the planner calls: the regular expression engine, the object store's
  \<open>Get\<close>, the chunk decoder, the hot index, \<open>json.Marshal\<close> of a request and the hexadecimal SHA-256 sum.
  An object store or hot index that is nil is \<open>None\<close>. \<open>ErrCanceled\<close> stands for the errors of a
  cancelled or expired context.
\<close>

section \<open>Data\<close>

record 're planner_env =
  pe_uni :: "string \<Rightarrow> string"
  pe_Compile :: "string \<Rightarrow> 're result"
  pe_MatchString :: "'re \<Rightarrow> string \<Rightarrow> bool"
  pe_objects :: "(string \<Rightarrow> string result) option"
  pe_Decode :: "string \<Rightarrow> chunk result"
  pe_fallback :: "(query_request \<Rightarrow> query_result result) option"
  pe_MarshalRequest :: "query_request \<Rightarrow> string result"
  pe_sha :: "string \<Rightarrow> string"

record planner =
  pn_segments :: seg_store
  pn_queryCache :: query_cache
  pn_chunkCache :: chunk_cache

record candidate =
  cd_StreamKey :: string
  cd_Chunk :: chunk
  cd_Segment :: string

record planner_options =
  QueryCacheEntries :: int
  QueryCacheTTL :: duration
  ChunkCacheEntries :: int

definition NewPlanner :: "seg_store \<Rightarrow> planner_options \<Rightarrow> planner" where
  "NewPlanner segments opts = \<lparr>pn_segments = segments,
     pn_queryCache = NewQueryCache (QueryCacheEntries opts) (QueryCacheTTL opts),
     pn_chunkCache = NewChunkCache (ChunkCacheEntries opts)\<rparr>"

section \<open>Pruning with chunk summaries\<close>

definition chunkMatchesLabels :: "chunk \<Rightarrow> strmap \<Rightarrow> bool" where
  "chunkMatchesLabels ch selectors \<longleftrightarrow>
     selectors = [] \<or> list_all (\<lambda>(key, v). mget (md_StreamLabels (ch_Metadata ch)) key = v) selectors"

definition chunkMatchesFields :: "chunk \<Rightarrow> strmap \<Rightarrow> bool" where
  "chunkMatchesFields ch predicates \<longleftrightarrow>
     predicates = [] \<or> list_all (\<lambda>(key, v). list_ex (\<lambda>c. c = key) (SearchableFields (ch_Metadata ch))) predicates"

definition chunkMatchesTextSummary :: "(string \<Rightarrow> string) \<Rightarrow> chunk \<Rightarrow> string \<Rightarrow> string \<Rightarrow> bool" where
  "chunkMatchesTextSummary uni ch contains regex =
     (if contains = [] \<and> regex = [] then True
      else if regex \<noteq> [] then True
      else let tokens = FieldsFunc (\<lambda>c. \<not> is_token_char c) (ToLower uni contains) in
        tokens = [] \<or> list_all (\<lambda>t. BloomContains (BodyBloom (ch_Metadata ch)) t) tokens)"

definition chunk_selected :: "(string \<Rightarrow> string) \<Rightarrow> query_request \<Rightarrow> chunk \<Rightarrow> bool" where
  "chunk_selected uni req ch \<longleftrightarrow>
     \<not> (ch_End ch < q_Start req \<or> q_End req < ch_Start ch) \<and>
     chunkMatchesLabels ch (q_LabelSelectors req) \<and>
     chunkMatchesFields ch (q_FieldPredicates req) \<and>
     chunkMatchesTextSummary uni ch (q_TextContains req) (q_TextRegex req)"

definition segment_selected :: "query_request \<Rightarrow> segment \<Rightarrow> bool" where
  "segment_selected req seg \<longleftrightarrow>
     \<not> (q_PartitionKey req \<noteq> [] \<and> seg_PartitionKey seg \<noteq> q_PartitionKey req) \<and>
     \<not> (seg_End seg < q_Start req \<or> q_End req < seg_Start seg)"

fun candidate_loop ::
  "(string \<Rightarrow> string) \<Rightarrow> query_request \<Rightarrow> segment list \<Rightarrow> query_fragment list \<times> candidate list" where
  "candidate_loop uni req [] = ([], [])"
| "candidate_loop uni req (seg # segs) =
     (let (fragments, candidates) = candidate_loop uni req segs in
      if \<not> segment_selected req seg then (fragments, candidates)
      else let chs = filter (chunk_selected uni req) (seg_Chunks seg);
               cs = map (\<lambda>ch. \<lparr>cd_StreamKey = ch_StreamKey ch, cd_Chunk = ch, cd_Segment = seg_PartitionKey seg\<rparr>) chs
           in (if 0 < length chs then \<lparr>fr_PartitionKey = seg_PartitionKey seg, fr_ChunkCount = length chs\<rparr> # fragments
               else fragments, cs @ candidates))"

definition candidateChunks ::
  "(string \<Rightarrow> string) \<Rightarrow> planner \<Rightarrow> query_request \<Rightarrow> query_fragment list \<times> candidate list" where
  "candidateChunks uni p req = candidate_loop uni req (Segment_List (pn_segments p))"

section \<open>Planning\<close>

definition describeMap :: "strmap \<Rightarrow> string" where
  "describeMap input = (if input = [] then ''none''
     else Join (map (\<lambda>key. key @ ''='' @ mget input key) (sort (map fst input))) '','')"

definition textDescription :: "query_request \<Rightarrow> string" where
  "textDescription req = (if q_TextRegex req \<noteq> [] then ''regex='' @ q_TextRegex req
     else ''contains='' @ q_TextContains req)"

definition Plan :: "(string \<Rightarrow> string) \<Rightarrow> planner \<Rightarrow> query_request \<Rightarrow> query_plan result" where
  "Plan uni p req =
     (case Query_Validate req of Some err \<Rightarrow> Inl err | None \<Rightarrow>
      let (fragments, candidates) = candidateChunks uni p req;
          nodes = [\<lparr>n_Type = ''tenant'', n_Description = ''tenant='' @ q_TenantID req, n_Inputs = 1, n_Outputs = 1\<rparr>,
            \<lparr>n_Type = ''time'', n_Description = ''range='' @ fmt_RFC3339 (q_Start req) @ ''..'' @ fmt_RFC3339 (q_End req),
             n_Inputs = 1, n_Outputs = length fragments\<rparr>,
            \<lparr>n_Type = ''label-selector'', n_Description = describeMap (q_LabelSelectors req),
             n_Inputs = length fragments, n_Outputs = length candidates\<rparr>];
          nodes = nodes @ (if 0 < length (q_FieldPredicates req) then
            [\<lparr>n_Type = ''field-selector'', n_Description = describeMap (q_FieldPredicates req),
              n_Inputs = length candidates, n_Outputs = length candidates\<rparr>] else []);
          nodes = nodes @ (if q_TextContains req \<noteq> [] \<or> q_TextRegex req \<noteq> [] then
            [\<lparr>n_Type = ''text-filter'', n_Description = textDescription req,
              n_Inputs = length candidates, n_Outputs = length candidates\<rparr>] else [])
      in Inr \<lparr>p_Request = req, p_Fragments = fragments, p_Nodes = nodes,
           p_CandidateStreams = length (remdups (map cd_StreamKey candidates)),
           p_CandidateChunks = length candidates,
           p_EstimatedCost = length candidates * (1 + length (q_LabelSelectors req) + length (q_FieldPredicates req)),
           p_Partial = False\<rparr>)"

definition Explain :: "(string \<Rightarrow> string) \<Rightarrow> planner \<Rightarrow> query_request \<Rightarrow> query_plan result" where
  "Explain uni p req = Plan uni p req"

section \<open>Scanning\<close>

definition eventMatches :: "'re planner_env \<Rightarrow> query_request \<Rightarrow> event \<Rightarrow> 're option \<Rightarrow> bool" where
  "eventMatches env req event matcher =
     (if TenantID event \<noteq> q_TenantID req then False
      else if Timestamp event < q_Start req \<or> q_End req < Timestamp event then False
      else if \<not> list_all (\<lambda>(k, v). mget (StreamLabels event) k = v) (q_LabelSelectors req) then False
      else if \<not> list_all (\<lambda>(k, v). \<not> (mget (ParsedFields event) k \<noteq> v \<and> mget (LogAttrs event) k \<noteq> v \<and>
          mget (ResourceAttrs event) k \<noteq> v)) (q_FieldPredicates req) then False
      else text_match (pe_uni env) (pe_MatchString env) req matcher event)"

definition eventIdentity :: "event \<Rightarrow> string" where
  "eventIdentity e = TenantID e @ ''|'' @ fmt_RFC3339Nano (Timestamp e) @ ''|'' @ StreamKey e @ ''|'' @ Body e
     @ ''|'' @ TraceID e @ ''|'' @ SpanID e"

definition loadChunk :: "'re planner_env \<Rightarrow> chunk_cache \<Rightarrow> candidate \<Rightarrow> chunk result \<times> chunk_cache" where
  "loadChunk env cache cand =
     (let ch = cd_Chunk cand in
      if 0 < length (ch_Events ch) then
        (Inr ch, if ch_ObjectKey ch \<noteq> [] then ChunkCache_Put cache (ch_ObjectKey ch) (Some ch) else cache)
      else
        let (cached, cache) = (if ch_ObjectKey ch \<noteq> [] then ChunkCache_Get cache (ch_ObjectKey ch) else (None, cache)) in
        case cached of Some c \<Rightarrow> (Inr c, cache) | None \<Rightarrow>
        (case pe_objects env of None \<Rightarrow> (Inr ch, cache) | Some get \<Rightarrow>
         if ch_ObjectKey ch = [] then (Inr ch, cache) else
         case get (ch_ObjectKey ch) of Inl err \<Rightarrow> (Inl err, cache) | Inr data \<Rightarrow>
         case pe_Decode env data of Inl err \<Rightarrow> (Inl err, cache) | Inr decoded \<Rightarrow>
           (Inr decoded, ChunkCache_Put cache (ch_ObjectKey ch) (Some decoded))))"

text \<open>The variables of the scan: events found, events scanned, identities seen.\<close>

record scan =
  sc_events :: "event list"
  sc_scanned :: nat
  sc_seen :: "string list"

definition scan_add :: "event \<Rightarrow> scan \<Rightarrow> scan" where
  "scan_add event s = (let key = eventIdentity event in
     if key \<in> set (sc_seen s) then s
     else s\<lparr>sc_seen := key # sc_seen s, sc_events := sc_events s @ [Event_Clone event]\<rparr>)"

definition scan_event :: "'re planner_env \<Rightarrow> query_request \<Rightarrow> 're option \<Rightarrow> event \<Rightarrow> scan \<Rightarrow> scan" where
  "scan_event env req matcher event s =
     (let s = s\<lparr>sc_scanned := sc_scanned s + 1\<rparr> in
      if \<not> eventMatches env req event matcher then s else scan_add event s)"

fun scan_candidates ::
  "'re planner_env \<Rightarrow> query_request \<Rightarrow> 're option \<Rightarrow> candidate list \<Rightarrow> chunk_cache \<Rightarrow> scan
   \<Rightarrow> goerror option \<times> scan \<times> chunk_cache" where
  "scan_candidates env req matcher [] cache s = (None, s, cache)"
| "scan_candidates env req matcher (c # cs) cache s =
     (case loadChunk env cache c of
        (Inl err, cache) \<Rightarrow> (Some err, s, cache)
      | (Inr ch, cache) \<Rightarrow> scan_candidates env req matcher cs cache (fold (scan_event env req matcher) (ch_Events ch) s))"

definition sortEvents :: "event list \<Rightarrow> bool \<Rightarrow> event list" where
  "sortEvents events tail = (if tail then sort_key (\<lambda>e. - Timestamp e) events else sort_key Timestamp events)"

text \<open>\<open>requestCacheKey\<close> drops the error of \<open>json.Marshal\<close>: a request that cannot be encoded has the hash of no bytes.\<close>

definition requestCacheKey :: "(query_request \<Rightarrow> string result) \<Rightarrow> (string \<Rightarrow> string) \<Rightarrow> query_request \<Rightarrow> string" where
  "requestCacheKey marshal sha req = sha (case marshal req of Inl _ \<Rightarrow> [] | Inr payload \<Rightarrow> payload)"

abbreviation planner_cacheKey :: "'re planner_env \<Rightarrow> query_request \<Rightarrow> string" where
  "planner_cacheKey env \<equiv> requestCacheKey (pe_MarshalRequest env) (pe_sha env)"

text \<open>The part of \<open>Execute\<close> after the query-cache lookup; \<open>now\<close> is the time of the cache write.\<close>

definition execute_uncached :: "'re planner_env \<Rightarrow> time \<Rightarrow> planner \<Rightarrow> query_request \<Rightarrow> query_result result \<times> planner" where
  "execute_uncached env now p req =
     (case Plan (pe_uni env) p req of Inl err \<Rightarrow> (Inl err, p) | Inr plan \<Rightarrow>
      let candidates = snd (candidateChunks (pe_uni env) p req) in
      case compileRegex (pe_Compile env) (q_TextRegex req) of Inl err \<Rightarrow> (Inl err, p) | Inr matcher \<Rightarrow>
      case scan_candidates env req matcher candidates (pn_chunkCache p) \<lparr>sc_events = [], sc_scanned = 0, sc_seen = []\<rparr> of
        (Some err, s, cache) \<Rightarrow>
          let p = p\<lparr>pn_chunkCache := cache\<rparr> in
          if errors_is err ErrCanceled then
            (Inr (zero_result\<lparr>r_Partial := True, r_Stats := \<lparr>CandidateStreams = p_CandidateStreams plan,
               CandidateChunks = p_CandidateChunks plan, ScannedEvents = sc_scanned s\<rparr>\<rparr>), p)
          else (Inl err, p)
      | (None, s, cache) \<Rightarrow>
          let p = p\<lparr>pn_chunkCache := cache\<rparr>;
              hot = (case pe_fallback env of None \<Rightarrow> Inr s | Some exec \<Rightarrow>
                (case exec (req\<lparr>q_Limit := 0, q_Cursor := []\<rparr>) of Inl err \<Rightarrow> Inl err
                 | Inr hot \<Rightarrow> Inr (fold scan_add (r_Events hot) (s\<lparr>sc_scanned := sc_scanned s + r_Scanned hot\<rparr>))))
          in case hot of Inl err \<Rightarrow> (Inl err, p) | Inr s \<Rightarrow>
             let events = sortEvents (sc_events s) (q_Tail req) in
             case CursorOffset req of Inl err \<Rightarrow> (Inl err, p) | Inr offset \<Rightarrow>
             let (evs, next) = page offset (q_Limit req) events;
                 result = \<lparr>r_Events = evs, r_Scanned = sc_scanned s, r_Matched = length evs, r_Partial = False,
                   r_NextCursor = next, r_Stats = \<lparr>CandidateStreams = p_CandidateStreams plan,
                     CandidateChunks = p_CandidateChunks plan, ScannedEvents = sc_scanned s\<rparr>\<rparr>
             in (Inr result, p\<lparr>pn_queryCache := QueryCache_Put now (pn_queryCache p) (planner_cacheKey env req) result\<rparr>))"

definition Planner_Execute ::
  "'re planner_env \<Rightarrow> time \<Rightarrow> time \<Rightarrow> planner \<Rightarrow> query_request \<Rightarrow> query_result result \<times> planner" where
  "Planner_Execute env now now' p req =
     (case QueryCache_Get now (pn_queryCache p) (planner_cacheKey env req) of
        (Some cached, qc) \<Rightarrow> (Inr cached, p\<lparr>pn_queryCache := qc\<rparr>)
      | (None, qc) \<Rightarrow> execute_uncached env now' (p\<lparr>pn_queryCache := qc\<rparr>) req)"

definition CacheStats :: "planner \<Rightarrow> cache_stats \<times> cache_stats" where
  "CacheStats p = (QueryCache_Stats (pn_queryCache p), ChunkCache_Stats (pn_chunkCache p))"

definition InvalidateAll :: "planner \<Rightarrow> planner" where
  "InvalidateAll p = p\<lparr>pn_queryCache := QueryCache_Reset (pn_queryCache p),
     pn_chunkCache := ChunkCache_Reset (pn_chunkCache p)\<rparr>"

text \<open>\<open>WarmRecentChunks\<close>: newest segments first, last chunks first, until \<open>limit\<close> are warm.\<close>

fun warm_loop :: "'re planner_env \<Rightarrow> (string \<Rightarrow> string result) \<Rightarrow> chunk list \<Rightarrow> nat \<Rightarrow> chunk_cache \<Rightarrow> goerror option \<times> chunk_cache" where
  "warm_loop env get [] left cache = (None, cache)"
| "warm_loop env get (ch # chs) left cache =
     (if left = 0 then (None, cache)
      else if ch_ObjectKey ch = [] then warm_loop env get chs left cache
      else case ChunkCache_Get cache (ch_ObjectKey ch) of
          (Some _, cache) \<Rightarrow> warm_loop env get chs (left - 1) cache
        | (None, cache) \<Rightarrow>
            (case get (ch_ObjectKey ch) of Inl err \<Rightarrow> (Some err, cache) | Inr data \<Rightarrow>
             case pe_Decode env data of Inl err \<Rightarrow> (Some err, cache) | Inr decoded \<Rightarrow>
               warm_loop env get chs (left - 1) (ChunkCache_Put cache (ch_ObjectKey ch) (Some decoded))))"

definition WarmRecentChunks :: "'re planner_env \<Rightarrow> planner \<Rightarrow> int \<Rightarrow> goerror option \<times> planner" where
  "WarmRecentChunks env p limit =
     (case pe_objects env of None \<Rightarrow> (None, p) | Some get \<Rightarrow>
      let limit = (if limit \<le> 0 then 32 else limit);
          chs = concat (map (\<lambda>seg. rev (seg_Chunks seg)) (rev (Segment_List (pn_segments p))));
          (err, cache) = warm_loop env get chs (nat limit) (pn_chunkCache p)
      in (err, p\<lparr>pn_chunkCache := cache\<rparr>))"

section \<open>Pruning keeps every chunk that can match\<close>

text \<open>What the summary of a chunk keeps of the events it was built from.\<close>

lemma summary_labels:
  assumes "ch_Metadata c = buildMetadata uni es n" and "e \<in> set es"
    and "\<And>e'. e' \<in> set es \<Longrightarrow> map_of (StreamLabels e') = map_of (StreamLabels e)"
  shows "map_of (md_StreamLabels (ch_Metadata c)) = map_of (StreamLabels e)"
proof -
  have "map_of (a_streamLabels (fold (meta_event uni) es (meta_init (hd es)))) = map_of (StreamLabels e)"
  proof (rule meta_fold_streamLabels)
    show "\<forall>e' \<in> set es. map_of (StreamLabels e') = map_of (StreamLabels e)" using assms(3) by blast
    show "es \<noteq> []" using assms(2) by auto
    show "a_streamLabels (meta_init (hd es)) = []" by (simp add: meta_init_def)
  qed
  then show ?thesis by (simp add: assms(1) buildMetadata_def Let_def)
qed

lemma summary_fields:
  assumes "ch_Metadata c = buildMetadata uni es n" and "e \<in> set es" and "k \<in> fst ` set (ParsedFields e)"
  shows "k \<in> set (SearchableFields (ch_Metadata c))"
  using assms(2,3) by (auto simp: assms(1) buildMetadata_def Let_def mapKeys_def meta_fold_sets)

lemma summary_tokens:
  assumes "ch_Metadata c = buildMetadata uni es n" and "e \<in> set es" and "t \<in> set (tokenize uni (Body e))"
  shows "BloomContains (BodyBloom (ch_Metadata c)) t"
  using meta_fold_bloom [OF assms(2,3)] by (simp add: assms(1) buildMetadata_def Let_def)

lemma candidate_loop_eq:
  "snd (candidate_loop uni req segs) = concat (map (\<lambda>seg. map (\<lambda>ch.
       \<lparr>cd_StreamKey = ch_StreamKey ch, cd_Chunk = ch, cd_Segment = seg_PartitionKey seg\<rparr>)
     (filter (chunk_selected uni req) (seg_Chunks seg))) (filter (segment_selected req) segs))"
  by (induction segs) (simp_all add: Let_def split_def)

text \<open>What a request may ask without losing matches to the summaries: fields that were parsed, and text
  made of whole words of the body.\<close>

definition summary_safe :: "(string \<Rightarrow> string) \<Rightarrow> query_request \<Rightarrow> event \<Rightarrow> bool" where
  "summary_safe uni req e \<longleftrightarrow> fst ` set (q_FieldPredicates req) \<subseteq> fst ` set (ParsedFields e) \<and>
     (q_TextRegex req = [] \<longrightarrow>
        set (FieldsFunc (\<lambda>c. \<not> is_token_char c) (ToLower uni (q_TextContains req))) \<subseteq> set (tokenize uni (Body e)))"

lemma chunk_selected_if_match:
  assumes "ch_Metadata c = buildMetadata (pe_uni env) es n" and "e \<in> set es"
    and "\<And>e'. e' \<in> set es \<Longrightarrow> map_of (StreamLabels e') = map_of (StreamLabels e)"
    and "ch_Start c \<le> Timestamp e" and "Timestamp e \<le> ch_End c"
    and "eventMatches env req e matcher" and "summary_safe (pe_uni env) req e"
  shows "chunk_selected (pe_uni env) req c"
proof -
  have m: "q_Start req \<le> Timestamp e" "Timestamp e \<le> q_End req"
      "list_all (\<lambda>(k, v). mget (StreamLabels e) k = v) (q_LabelSelectors req)"
    using assms(6) by (auto simp: eventMatches_def split: if_splits)
  have "mget (md_StreamLabels (ch_Metadata c)) k = mget (StreamLabels e) k" for k
    by (simp add: mget_def summary_labels [OF assms(1-3)])
  then have "chunkMatchesLabels c (q_LabelSelectors req)" using m(3) by (simp add: chunkMatchesLabels_def)
  moreover have "chunkMatchesFields c (q_FieldPredicates req)"
    using assms(7) summary_fields [OF assms(1,2)]
    by (fastforce simp: chunkMatchesFields_def summary_safe_def list_all_iff list_ex_iff image_subset_iff)
  moreover have "chunkMatchesTextSummary (pe_uni env) c (q_TextContains req) (q_TextRegex req)"
    using assms(7) summary_tokens [OF assms(1,2)]
    by (auto simp: chunkMatchesTextSummary_def summary_safe_def Let_def list_all_iff)
  ultimately show ?thesis using m assms(4,5) by (simp add: chunk_selected_def)
qed

section \<open>The scan\<close>

lemma scan_add_inv:
  assumes "list_all wf_event (e # sc_events s)" and "set (sc_seen s) = eventIdentity ` set (sc_events s)"
    and "distinct (map eventIdentity (sc_events s))"
  shows "list_all wf_event (sc_events (scan_add e s)) \<and> set (sc_seen (scan_add e s)) = eventIdentity ` set (sc_events (scan_add e s)) \<and>
     distinct (map eventIdentity (sc_events (scan_add e s))) \<and>
     eventIdentity ` set (sc_events (scan_add e s)) = insert (eventIdentity e) (eventIdentity ` set (sc_events s)) \<and>
     set (sc_events (scan_add e s)) \<subseteq> insert e (set (sc_events s)) \<and> sc_scanned (scan_add e s) = sc_scanned s"
  using assms by (auto simp: scan_add_def Let_def)

lemma scan_fold:
  assumes "list_all wf_event es" and "list_all wf_event (sc_events s)"
    and "set (sc_seen s) = eventIdentity ` set (sc_events s)" and "distinct (map eventIdentity (sc_events s))"
  shows "let s' = fold scan_add es s in list_all wf_event (sc_events s') \<and>
     set (sc_seen s') = eventIdentity ` set (sc_events s') \<and>
     distinct (map eventIdentity (sc_events s')) \<and>
     eventIdentity ` set (sc_events s') = eventIdentity ` set es \<union> eventIdentity ` set (sc_events s) \<and>
     set (sc_events s') \<subseteq> set es \<union> set (sc_events s)"
  using assms
proof (induction es arbitrary: s)
  case Nil
  then show ?case by (simp add: Let_def)
next
  case (Cons e es)
  note step = scan_add_inv [of e s]
  have "let s' = fold scan_add es (scan_add e s) in list_all wf_event (sc_events s') \<and>
     set (sc_seen s') = eventIdentity ` set (sc_events s') \<and>
     distinct (map eventIdentity (sc_events s')) \<and>
     eventIdentity ` set (sc_events s') = eventIdentity ` set es \<union> eventIdentity ` set (sc_events (scan_add e s)) \<and>
     set (sc_events s') \<subseteq> set es \<union> set (sc_events (scan_add e s))"
    using step Cons.prems by (intro Cons.IH) auto
  then show ?case using step Cons.prems by (auto simp: Let_def)
qed

definition scan_init :: scan where
  "scan_init = \<lparr>sc_events = [], sc_scanned = 0, sc_seen = []\<rparr>"

lemma scan_event_fold:
  "fold (scan_event env req matcher) es s =
     fold scan_add (filter (\<lambda>e. eventMatches env req e matcher) es) (s\<lparr>sc_scanned := sc_scanned s + length es\<rparr>)"
proof (induction es arbitrary: s)
  case Nil
  then show ?case by simp
next
  case (Cons e es)
  have comm: "scan_add e s\<lparr>sc_scanned := n\<rparr> = scan_add e (s\<lparr>sc_scanned := n\<rparr>)" for s n
    by (simp add: scan_add_def Let_def)
  have keep: "sc_scanned (scan_add e s) = sc_scanned s" for s by (simp add: scan_add_def Let_def)
  have "fold (scan_event env req matcher) (e # es) s =
      fold (scan_event env req matcher) es (scan_event env req matcher e s)" by simp
  also have "\<dots> = fold scan_add (filter (\<lambda>e. eventMatches env req e matcher) es)
      (scan_event env req matcher e s\<lparr>sc_scanned := sc_scanned (scan_event env req matcher e s) + length es\<rparr>)"
    by (rule Cons.IH)
  also have "\<dots> = fold scan_add (filter (\<lambda>e. eventMatches env req e matcher) (e # es))
      (s\<lparr>sc_scanned := sc_scanned s + length (e # es)\<rparr>)"
    by (simp add: scan_event_def Let_def comm keep)
  finally show ?case .
qed

section \<open>Loading chunks through the cache\<close>

text \<open>The events of a chunk: inline, or those of its object.\<close>

definition object_events :: "'re planner_env \<Rightarrow> string \<Rightarrow> event list" where
  "object_events env key = (case pe_objects env of None \<Rightarrow> [] | Some get \<Rightarrow>
     case get key of Inl _ \<Rightarrow> [] | Inr data \<Rightarrow> case pe_Decode env data of Inl _ \<Rightarrow> [] | Inr d \<Rightarrow> ch_Events d)"

definition chunk_events :: "'re planner_env \<Rightarrow> chunk \<Rightarrow> event list" where
  "chunk_events env c = (if ch_Events c \<noteq> [] then ch_Events c
     else if ch_ObjectKey c = [] then [] else object_events env (ch_ObjectKey c))"

text \<open>A chunk with an object key has a readable object with the same events.\<close>

definition loadable :: "'re planner_env \<Rightarrow> chunk \<Rightarrow> bool" where
  "loadable env c \<longleftrightarrow> (ch_ObjectKey c \<noteq> [] \<longrightarrow>
     (\<exists>get data d. pe_objects env = Some get \<and> get (ch_ObjectKey c) = Inr data \<and> pe_Decode env data = Inr d \<and>
        (ch_Events c \<noteq> [] \<longrightarrow> ch_Events d = ch_Events c)))"

definition cache_coherent :: "'re planner_env \<Rightarrow> chunk_cache \<Rightarrow> bool" where
  "cache_coherent env cache \<longleftrightarrow> wf_chunk_cache cache \<and>
     (\<forall>k e. map_of (chunk_content cache) k = Some e \<longrightarrow> ch_Events (the (ce_value e)) = object_events env k)"

lemma cache_coherent_Put:
  assumes "cache_coherent env cache" and "ch_Events c = object_events env k"
  shows "cache_coherent env (ChunkCache_Put cache k (Some c))"
proof -
  have w: "wf_chunk_cache cache" using assms(1) by (simp add: cache_coherent_def)
  have "ch_Events (the (ce_value e)) = object_events env j"
    if "map_of (chunk_content (ChunkCache_Put cache k (Some c))) j = Some e" for j e
  proof -
    have "map_of (chunk_content (cache_step (\<lambda>now c k. ChunkCache_Get c k) (\<lambda>now c k v. ChunkCache_Put c k (Some v)) cache (CPut 0 k c))) j = Some e"
      using that by simp
    from chunk_lru.step_content [OF w this] show ?thesis
      using assms by (auto simp: cache_coherent_def chunk_entry_of_def split: if_splits)
  qed
  then show ?thesis using chunk_lru.put_inv [OF w] by (simp add: cache_coherent_def)
qed

lemma cache_coherent_Get:
  assumes "cache_coherent env cache" and "ChunkCache_Get cache k = (r, cache')"
  shows "cache_coherent env cache'" and "r = Some c \<Longrightarrow> ch_Events c = object_events env k"
proof -
  have w: "wf_chunk_cache cache" using assms(1) by (simp add: cache_coherent_def)
  have "ch_Events (the (ce_value e)) = object_events env j" if "map_of (chunk_content cache') j = Some e" for j e
  proof -
    have "map_of (chunk_content (cache_step (\<lambda>now c k. ChunkCache_Get c k) (\<lambda>now c k v. ChunkCache_Put c k (Some v)) cache (CGet 0 k))) j = Some e"
      using that assms(2) by simp
    from chunk_lru.step_content [OF w this] show ?thesis using assms(1) by (simp add: cache_coherent_def)
  qed
  then show "cache_coherent env cache'" using chunk_lru.get_inv [OF w, of k] assms(2) by (simp add: cache_coherent_def)
  show "r = Some c \<Longrightarrow> ch_Events c = object_events env k"
    using assms by (cases rule: ChunkCache_Get_cases [OF w, of k]) (auto simp: cache_coherent_def, force)
qed

lemma loadChunk_events:
  assumes "cache_coherent env cache" and "loadable env (cd_Chunk cand)"
  shows "\<exists>ch cache'. loadChunk env cache cand = (Inr ch, cache') \<and> ch_Events ch = chunk_events env (cd_Chunk cand) \<and>
     cache_coherent env cache'"
proof (cases "ch_ObjectKey (cd_Chunk cand) = []")
  case True
  then show ?thesis using assms(1) by (auto simp: loadChunk_def chunk_events_def Let_def split: option.splits)
next
  case False
  then obtain get data d where d: "pe_objects env = Some get" "get (ch_ObjectKey (cd_Chunk cand)) = Inr data"
      "pe_Decode env data = Inr d" "ch_Events (cd_Chunk cand) \<noteq> [] \<longrightarrow> ch_Events d = ch_Events (cd_Chunk cand)"
    using assms(2) by (auto simp: loadable_def)
  then have o: "object_events env (ch_ObjectKey (cd_Chunk cand)) = ch_Events d" by (simp add: object_events_def)
  show ?thesis
  proof (cases "ch_Events (cd_Chunk cand) = []")
    case ev: False
    have "cache_coherent env (ChunkCache_Put cache (ch_ObjectKey (cd_Chunk cand)) (Some (cd_Chunk cand)))"
      using cache_coherent_Put [OF assms(1)] d(4) ev o by simp
    then show ?thesis using False ev by (simp add: loadChunk_def chunk_events_def Let_def)
  next
    case True
    obtain r cache' where g: "ChunkCache_Get cache (ch_ObjectKey (cd_Chunk cand)) = (r, cache')" by (metis surj_pair)
    show ?thesis
    proof (cases r)
      case (Some c)
      then show ?thesis
        using g True False cache_coherent_Get [OF assms(1) g] by (simp add: loadChunk_def chunk_events_def)
    next
      case None
      then show ?thesis
        using g True False d o cache_coherent_Put [OF cache_coherent_Get(1) [OF assms(1) g], of d]
        by (simp add: loadChunk_def chunk_events_def)
    qed
  qed
qed

lemma scan_candidates_events:
  assumes "cache_coherent env cache" and "\<forall>c \<in> set cs. loadable env (cd_Chunk c)"
  shows "\<exists>cache'. scan_candidates env req matcher cs cache s =
     (None, fold (scan_event env req matcher) (concat (map (chunk_events env \<circ> cd_Chunk) cs)) s, cache') \<and> cache_coherent env cache'"
  using assms
proof (induction cs arbitrary: cache s)
  case Nil
  then show ?case by simp
next
  case (Cons c cs)
  obtain ch cache1 where l: "loadChunk env cache c = (Inr ch, cache1)" "ch_Events ch = chunk_events env (cd_Chunk c)"
      "cache_coherent env cache1"
    using loadChunk_events [OF Cons.prems(1)] Cons.prems(2) by force
  then show ?case using Cons.IH [OF l(3)] Cons.prems(2) by simp
qed

section \<open>What a query answers\<close>

definition cold_matches :: "'re planner_env \<Rightarrow> planner \<Rightarrow> query_request \<Rightarrow> 're option \<Rightarrow> event list" where
  "cold_matches env p req matcher = filter (\<lambda>e. eventMatches env req e matcher)
     (concat (map (chunk_events env \<circ> cd_Chunk) (snd (candidateChunks (pe_uni env) p req))))"

definition hot_events :: "'re planner_env \<Rightarrow> query_request \<Rightarrow> event list" where
  "hot_events env req = (case pe_fallback env of None \<Rightarrow> [] | Some exec \<Rightarrow>
     case exec (req\<lparr>q_Limit := 0, q_Cursor := []\<rparr>) of Inl _ \<Rightarrow> [] | Inr r \<Rightarrow> r_Events r)"

definition planner_answer :: "'re planner_env \<Rightarrow> planner \<Rightarrow> query_request \<Rightarrow> event list" where
  "planner_answer env p req = (case compileRegex (pe_Compile env) (q_TextRegex req) of Inl _ \<Rightarrow> [] | Inr matcher \<Rightarrow>
     sortEvents (sc_events (fold scan_add (cold_matches env p req matcher @ hot_events env req) scan_init)) (q_Tail req))"

definition planner_ready :: "'re planner_env \<Rightarrow> planner \<Rightarrow> query_request \<Rightarrow> bool" where
  "planner_ready env p req \<longleftrightarrow> Query_Validate req = None \<and>
     (\<exists>matcher. compileRegex (pe_Compile env) (q_TextRegex req) = Inr matcher) \<and>
     cache_coherent env (pn_chunkCache p) \<and>
     (\<forall>c \<in> set (snd (candidateChunks (pe_uni env) p req)). loadable env (cd_Chunk c) \<and> list_all wf_event (chunk_events env (cd_Chunk c))) \<and>
     (\<forall>exec. pe_fallback env = Some exec \<longrightarrow>
        (\<exists>r. exec (req\<lparr>q_Limit := 0, q_Cursor := []\<rparr>) = Inr r \<and> list_all wf_event (r_Events r)))"

lemma scan_add_scanned: "fold scan_add es (s\<lparr>sc_scanned := n\<rparr>) = (fold scan_add es s)\<lparr>sc_scanned := n\<rparr>"
proof (induction es arbitrary: s)
  case Nil
  then show ?case by simp
next
  case (Cons e es)
  have "scan_add e (s\<lparr>sc_scanned := n\<rparr>) = (scan_add e s)\<lparr>sc_scanned := n\<rparr>"
    by (simp add: scan_add_def Let_def)
  then show ?case by (simp add: Cons.IH)
qed

lemma cursor_irrelevant [simp]:
  "segment_selected (req\<lparr>q_Cursor := c\<rparr>) = segment_selected req"
  "chunk_selected uni (req\<lparr>q_Cursor := c\<rparr>) = chunk_selected uni req"
  "eventMatches env (req\<lparr>q_Cursor := c\<rparr>) = eventMatches env req"
  by (simp_all add: fun_eq_iff segment_selected_def chunk_selected_def eventMatches_def text_match_def)

lemma candidateChunks_cursor [simp]:
  "snd (candidateChunks uni p (req\<lparr>q_Cursor := c\<rparr>)) = snd (candidateChunks uni p req)"
  by (simp add: candidateChunks_def candidate_loop_eq)

lemma cursor_reset: "req\<lparr>q_Cursor := c, q_Limit := n, q_Cursor := d\<rparr> = req\<lparr>q_Limit := n, q_Cursor := d\<rparr>"
  by (cases req) simp

lemma hot_events_cursor [simp]: "hot_events env (req\<lparr>q_Cursor := c\<rparr>) = hot_events env req"
  by (simp add: hot_events_def cursor_reset split: option.split)

lemma hot_events_ok:
  assumes "planner_ready env p req"
  shows "list_all wf_event (hot_events env req)"
    and "\<exists>n. (case pe_fallback env of None \<Rightarrow> Inr s | Some exec \<Rightarrow>
       (case exec (req\<lparr>q_Limit := 0, q_Cursor := []\<rparr>) of Inl err \<Rightarrow> Inl err
        | Inr hot \<Rightarrow> Inr (fold scan_add (r_Events hot) (s\<lparr>sc_scanned := sc_scanned s + r_Scanned hot\<rparr>)))) =
     Inr ((fold scan_add (hot_events env req) s)\<lparr>sc_scanned := n\<rparr>)"
proof -
  show "list_all wf_event (hot_events env req)"
    using assms by (auto simp: planner_ready_def hot_events_def split: option.splits)
  show "\<exists>n. (case pe_fallback env of None \<Rightarrow> Inr s | Some exec \<Rightarrow>
       (case exec (req\<lparr>q_Limit := 0, q_Cursor := []\<rparr>) of Inl err \<Rightarrow> Inl err
        | Inr hot \<Rightarrow> Inr (fold scan_add (r_Events hot) (s\<lparr>sc_scanned := sc_scanned s + r_Scanned hot\<rparr>)))) =
     Inr ((fold scan_add (hot_events env req) s)\<lparr>sc_scanned := n\<rparr>)"
  proof (cases "pe_fallback env")
    case None
    have "s = s\<lparr>sc_scanned := sc_scanned s\<rparr>" by simp
    then show ?thesis using None by (intro exI [of _ "sc_scanned s"]) (simp add: hot_events_def)
  next
    case (Some exec)
    then obtain r where "exec (req\<lparr>q_Limit := 0, q_Cursor := []\<rparr>) = Inr r"
      using assms by (auto simp: planner_ready_def)
    then show ?thesis using Some by (auto simp: hot_events_def scan_add_scanned)
  qed
qed

text \<open>A query whose chunks can be loaded returns the requested page of the answer.\<close>

lemma execute_page:
  assumes "planner_ready env p req" and "CursorOffset req = Inr offset"
  shows "\<exists>res p'. execute_uncached env now p req = (Inr res, p') \<and> cache_coherent env (pn_chunkCache p') \<and>
     (r_Events res, r_NextCursor res) = page offset (q_Limit req) (planner_answer env p req) \<and> \<not> r_Partial res"
proof -
  obtain matcher where m: "compileRegex (pe_Compile env) (q_TextRegex req) = Inr matcher"
    using assms(1) by (auto simp: planner_ready_def)
  obtain plan where pl: "Plan (pe_uni env) p req = Inr plan"
    using assms(1) by (auto simp: planner_ready_def Plan_def Let_def split_def)
  let ?cs = "snd (candidateChunks (pe_uni env) p req)"
  let ?es = "concat (map (chunk_events env \<circ> cd_Chunk) ?cs)"
  define s1 where "s1 = fold (scan_event env req matcher) ?es scan_init"
  have "cache_coherent env (pn_chunkCache p)" "\<forall>c \<in> set ?cs. loadable env (cd_Chunk c)"
    using assms(1) by (auto simp: planner_ready_def)
  then obtain cache' where sc: "scan_candidates env req matcher ?cs (pn_chunkCache p) scan_init = (None, s1, cache')"
      "cache_coherent env cache'"
    using scan_candidates_events unfolding s1_def by blast
  obtain n where n: "(case pe_fallback env of None \<Rightarrow> Inr s1 | Some exec \<Rightarrow>
       (case exec (req\<lparr>q_Limit := 0, q_Cursor := []\<rparr>) of Inl err \<Rightarrow> Inl err
        | Inr hot \<Rightarrow> Inr (fold scan_add (r_Events hot) (s1\<lparr>sc_scanned := sc_scanned s1 + r_Scanned hot\<rparr>)))) =
     Inr ((fold scan_add (hot_events env req) s1)\<lparr>sc_scanned := n\<rparr>)"
    using hot_events_ok(2) [OF assms(1)] by blast
  have s1: "s1 = (fold scan_add (cold_matches env p req matcher) scan_init)\<lparr>sc_scanned := length ?es\<rparr>"
    unfolding s1_def scan_event_fold cold_matches_def scan_add_scanned by (simp add: scan_init_def)
  have ans: "planner_answer env p req = sortEvents (sc_events (fold scan_add (hot_events env req) s1)) (q_Tail req)"
    by (simp add: planner_answer_def m s1 scan_add_scanned)
  obtain evs next' where pg: "page offset (q_Limit req) (planner_answer env p req) = (evs, next')" by (metis surj_pair)
  show ?thesis
    using pl m sc n pg assms(2) ans
    by (simp add: execute_uncached_def scan_init_def [symmetric] Let_def)
qed

lemma planner_answer_spec:
  assumes "planner_ready env p req" and "compileRegex (pe_Compile env) (q_TextRegex req) = Inr matcher"
  shows "distinct (map eventIdentity (planner_answer env p req)) \<and>
     eventIdentity ` set (planner_answer env p req) =
       eventIdentity ` (set (cold_matches env p req matcher) \<union> set (hot_events env req)) \<and>
     set (planner_answer env p req) \<subseteq> set (cold_matches env p req matcher) \<union> set (hot_events env req) \<and>
     (if q_Tail req then sorted (map (\<lambda>e. - Timestamp e) (planner_answer env p req))
      else sorted (map Timestamp (planner_answer env p req)))"
proof -
  let ?es = "cold_matches env p req matcher @ hot_events env req"
  have "list_all wf_event (cold_matches env p req matcher)"
    using assms(1) by (auto simp: cold_matches_def planner_ready_def list_all_iff)
  then have w: "list_all wf_event ?es" using hot_events_ok(1) [OF assms(1)] by simp
  have f: "let s' = fold scan_add ?es scan_init in list_all wf_event (sc_events s') \<and>
     set (sc_seen s') = eventIdentity ` set (sc_events s') \<and>
     distinct (map eventIdentity (sc_events s')) \<and>
     eventIdentity ` set (sc_events s') = eventIdentity ` set ?es \<union> eventIdentity ` set (sc_events scan_init) \<and>
     set (sc_events s') \<subseteq> set ?es \<union> set (sc_events scan_init)"
    using w by (intro scan_fold) (simp_all add: scan_init_def)
  have a: "planner_answer env p req = sortEvents (sc_events (fold scan_add ?es scan_init)) (q_Tail req)"
    by (simp add: planner_answer_def assms(2))
  have perm: "mset (sortEvents xs b) = mset xs" for xs b by (simp add: sortEvents_def)
  then have sets: "set (sortEvents xs b) = set xs" for xs b by (metis mset_eq_setD)
  have "distinct (map f (sortEvents xs b)) = distinct (map f xs)" for f :: "event \<Rightarrow> string" and xs b
    using perm by (intro mset_eq_imp_distinct_iff) simp
  moreover have "if b then sorted (map (\<lambda>e. - Timestamp e) (sortEvents xs b)) else sorted (map Timestamp (sortEvents xs b))" for xs b
    by (simp add: sortEvents_def)
  ultimately show ?thesis using f unfolding a sets by (simp add: Let_def scan_init_def)
qed

interpretation planned: paged_query "planner_ready env" "\<lambda>p req. fst (execute_uncached env now p req)" "planner_answer env"
  for env now
proof
  fix p req offset
  assume "planner_ready env p req" and "CursorOffset req = Inr offset"
  then show "\<exists>res. fst (execute_uncached env now p req) = Inr res \<and>
      (r_Events res, r_NextCursor res) = page offset (q_Limit req) (planner_answer env p req)"
    using execute_page [of env p req offset now] by fastforce
next
  fix p req c
  show "planner_ready env p (req\<lparr>q_Cursor := c\<rparr>) = planner_ready env p req"
    by (simp add: planner_ready_def Query_Validate_def cursor_reset)
  show "planner_answer env p (req\<lparr>q_Cursor := c\<rparr>) = planner_answer env p req"
    by (simp add: planner_answer_def cold_matches_def split: sum.split)
qed

text \<open>The query cache plays no part in what a query that misses it answers; a complete answer enters the cache.\<close>

lemma queryCache_irrelevant [simp]:
  "candidateChunks uni (p\<lparr>pn_queryCache := qc\<rparr>) req = candidateChunks uni p req"
  "planner_ready env (p\<lparr>pn_queryCache := qc\<rparr>) req = planner_ready env p req"
  "planner_answer env (p\<lparr>pn_queryCache := qc\<rparr>) req = planner_answer env p req"
proof -
  show c: "candidateChunks uni (p\<lparr>pn_queryCache := qc\<rparr>) req = candidateChunks uni p req" for uni
    by (simp add: candidateChunks_def)
  show "planner_ready env (p\<lparr>pn_queryCache := qc\<rparr>) req = planner_ready env p req"
    by (simp add: planner_ready_def c)
  have "cold_matches env (p\<lparr>pn_queryCache := qc\<rparr>) req = cold_matches env p req" by (simp add: fun_eq_iff cold_matches_def c)
  then show "planner_answer env (p\<lparr>pn_queryCache := qc\<rparr>) req = planner_answer env p req" by (simp add: planner_answer_def split: sum.split)
qed

lemma execute_uncached_caches:
  assumes "execute_uncached env now p req = (Inr res, p')" and "\<not> r_Partial res"
  shows "pn_queryCache p' = QueryCache_Put now (pn_queryCache p) (planner_cacheKey env req) res"
  using assms
  by (auto simp: execute_uncached_def Let_def split: sum.splits option.splits prod.splits if_splits)

section \<open>Properties\<close>

definition sample_env :: "string planner_env" where
  "sample_env = \<lparr>pe_uni = id, pe_Compile = Inr, pe_MatchString = (\<lambda>re s. Contains s re), pe_objects = None,
     pe_Decode = (\<lambda>_. Inl ErrNotExist), pe_fallback = None,
     pe_MarshalRequest = (\<lambda>req. Inr (q_TenantID req)), pe_sha = id\<rparr>"

text \<open>The chunk the builder makes of these events.\<close>

definition built_chunk :: "event list \<Rightarrow> chunk" where
  "built_chunk es = hd (fst (run_builder id (NewBuilder ''t'' (int (length es))) es))"

definition sample_planner :: "chunk list \<Rightarrow> planner" where
  "sample_planner cs = NewPlanner \<lparr>s_bucketSize = hour, s_segments = [(''p'',
     \<lparr>seg_PartitionKey = ''p'', seg_Start = 0, seg_End = hour, seg_Chunks = cs\<rparr>)]\<rparr>
     \<lparr>QueryCacheEntries = 0, QueryCacheTTL = 0, ChunkCacheEntries = 0\<rparr>"

text \<open>
  C26. Pruning keeps the chunk of a matching event when these conditions hold: the chunk's summary was built from a
  list of events that contains the event and whose stream labels all agree; the chunk's \<open>Start\<close> and \<open>End\<close>
  bound the event's time, and so do those of its segment; the request names no partition or the segment's; every
  field it asks for was parsed in the event; and, unless it gives a regular expression, the words of its text are
  words of the event's body. Then the chunk is a candidate of the query.
\<close>

theorem pruning_keeps_matches:
  assumes "seg \<in> set (Segment_List (pn_segments p))" and "c \<in> set (seg_Chunks seg)"
    and "ch_Metadata c = buildMetadata (pe_uni env) es n" and "e \<in> set es"
    and "\<And>e'. e' \<in> set es \<Longrightarrow> map_of (StreamLabels e') = map_of (StreamLabels e)"
    and "ch_Start c \<le> Timestamp e" and "Timestamp e \<le> ch_End c"
    and "seg_Start seg \<le> Timestamp e" and "Timestamp e \<le> seg_End seg"
    and "q_PartitionKey req = [] \<or> q_PartitionKey req = seg_PartitionKey seg"
    and "fst ` set (q_FieldPredicates req) \<subseteq> fst ` set (ParsedFields e)"
    and "q_TextRegex req \<noteq> [] \<or>
      set (FieldsFunc (\<lambda>c. \<not> is_token_char c) (ToLower (pe_uni env) (q_TextContains req))) \<subseteq> set (tokenize (pe_uni env) (Body e))"
    and "eventMatches env req e matcher"
  shows "c \<in> cd_Chunk ` set (snd (candidateChunks (pe_uni env) p req))"
proof -
  have "q_Start req \<le> Timestamp e" "Timestamp e \<le> q_End req"
    using assms(13) by (auto simp: eventMatches_def split: if_splits)
  then have "segment_selected req seg" using assms(8-10) by (auto simp: segment_selected_def)
  moreover have "summary_safe (pe_uni env) req e" using assms(11,12) by (auto simp: summary_safe_def)
  then have "chunk_selected (pe_uni env) req c"
    by (intro chunk_selected_if_match [OF assms(3,4) _ assms(6,7,13)]) (rule assms(5))
  ultimately show ?thesis
    using assms(1,2) by (force simp: candidateChunks_def candidate_loop_eq image_iff)
qed

theorem pruning_keeps_matches_witness:
  "built_chunk [sample_event 50 ''disk full''] \<in>
     cd_Chunk ` set (snd (candidateChunks id (sample_planner [built_chunk [sample_event 50 ''disk full'']])
       (sample_query\<lparr>q_TextContains := ''Disk''\<rparr>)))"
proof -
  let ?e = "sample_event 50 ''disk full''" and ?q = "sample_query\<lparr>q_TextContains := ''Disk''\<rparr>"
  let ?c = "built_chunk [?e]"
  let ?p = "sample_planner [?c]"
  have c: "?c = flushed_chunk id (NewBuilder ''t'' 1) ?e"
    by (simp add: built_chunk_def NewBuilder_def NewBuilderWithOptions_def Builder_Add_def Builder_Flush_def
        shouldFlush_def flushed_chunk_def Let_def)
  have s: "\<exists>n. ch_Metadata ?c = buildMetadata (pe_uni sample_env) [?e] n" "ch_Start ?c = 50" "ch_End ?c = 50"
    by (simp_all add: c flushed_chunk_def sample_env_def NewBuilder_def NewBuilderWithOptions_def Let_def)
      (auto simp: sample_event_def)
  then obtain n where n: "ch_Metadata ?c = buildMetadata (pe_uni sample_env) [?e] n" by blast
  have m: "eventMatches sample_env ?q ?e None" by code_simp
  have f: "set (FieldsFunc (\<lambda>c. \<not> is_token_char c) (ToLower (pe_uni sample_env) (q_TextContains ?q))) \<subseteq> set (tokenize (pe_uni sample_env) (Body ?e))"
    by code_simp
  have seg: "Segment_List (pn_segments ?p) = [\<lparr>seg_PartitionKey = ''p'', seg_Start = 0, seg_End = hour, seg_Chunks = [?c]\<rparr>]"
    by (simp add: sample_planner_def NewPlanner_def Segment_List_def)
  have "?c \<in> cd_Chunk ` set (snd (candidateChunks (pe_uni sample_env) ?p ?q))"
    by (rule pruning_keeps_matches [OF _ _ n _ _ _ _ _ _ _ _ disjI2 [OF f] m, where seg = "\<lparr>seg_PartitionKey = ''p'', seg_Start = 0, seg_End = hour, seg_Chunks = [?c]\<rparr>"])
      (simp_all add: seg s(2,3) sample_query_def, simp_all add: sample_event_def time_units)
  then show ?thesis by (simp add: sample_env_def)
qed

text \<open>
  The conditions under which pruning keeps every match are needed: the summaries of chunks the builder makes reject a chunk
  that holds a matching event when the text is part of a word, when the events of the chunk are out of time
  order, and when the field is an attribute that was not parsed.
\<close>

theorem pruning_loses_matches:
  "(let c = built_chunk [sample_event 50 ''request timeout'']; q = sample_query\<lparr>q_TextContains := ''imeou''\<rparr> in
      list_ex (\<lambda>e. eventMatches sample_env q e None) (ch_Events c) \<and> \<not> chunk_selected id q c) \<and>
   (let c = built_chunk [sample_event 50 ''a'', sample_event 10 ''b'']; q = sample_query\<lparr>q_Start := 30\<rparr> in
      list_ex (\<lambda>e. eventMatches sample_env q e None) (ch_Events c) \<and> \<not> chunk_selected id q c) \<and>
   (let c = built_chunk [(sample_event 50 ''a'')\<lparr>LogAttrs := [(''host'', ''h1'')]\<rparr>];
        q = sample_query\<lparr>q_FieldPredicates := [(''host'', ''h1'')]\<rparr> in
      list_ex (\<lambda>e. eventMatches sample_env q e None) (ch_Events c) \<and> \<not> chunk_selected id q c)"
  by code_simp

text \<open>
  C27. A query that the query cache does not answer is answered exactly: \<open>Execute\<close> on a request that misses the
  cache, that is valid, whose regular expression compiles, whose candidate chunks can be loaded (the object store
  returns and decodes them, and the chunk cache agrees with it) and whose hot index answers, returns the requested
  page of an answer in time order (newest first for a tail) that contains, once per event identity, the
  events of the candidate chunks that match and the events of the hot index, and nothing else; the chunk
  cache stays coherent with the object store, and the result is cached under the key of the request.
\<close>

theorem planner_query_correct:
  assumes "planner_ready env p req" and "CursorOffset req = Inr offset"
    and "compileRegex (pe_Compile env) (q_TextRegex req) = Inr matcher"
    and "QueryCache_Get now (pn_queryCache p) (requestCacheKey (pe_MarshalRequest env) (pe_sha env) req) = (None, qc)"
  shows "\<exists>res p'. Planner_Execute env now now' p req = (Inr res, p') \<and> cache_coherent env (pn_chunkCache p') \<and>
     pn_queryCache p' = QueryCache_Put now' qc (requestCacheKey (pe_MarshalRequest env) (pe_sha env) req) res \<and>
     (r_Events res, r_NextCursor res) = page offset (q_Limit req) (planner_answer env p req) \<and> \<not> r_Partial res \<and>
     distinct (map eventIdentity (planner_answer env p req)) \<and>
     eventIdentity ` set (planner_answer env p req) =
       eventIdentity ` (set (cold_matches env p req matcher) \<union> set (hot_events env req)) \<and>
     set (planner_answer env p req) \<subseteq> set (cold_matches env p req matcher) \<union> set (hot_events env req) \<and>
     (if q_Tail req then sorted (map (\<lambda>e. - Timestamp e) (planner_answer env p req))
      else sorted (map Timestamp (planner_answer env p req)))"
proof -
  let ?p = "p\<lparr>pn_queryCache := qc\<rparr>"
  have r: "planner_ready env ?p req" using assms(1) by simp
  obtain res p' where x: "execute_uncached env now' ?p req = (Inr res, p')" "cache_coherent env (pn_chunkCache p')"
      "(r_Events res, r_NextCursor res) = page offset (q_Limit req) (planner_answer env p req)" "\<not> r_Partial res"
    using execute_page [OF r assms(2), of now'] by auto
  moreover have "Planner_Execute env now now' p req = (Inr res, p')" using x(1) assms(4) by (simp add: Planner_Execute_def)
  moreover have "pn_queryCache p' = QueryCache_Put now' qc (planner_cacheKey env req) res"
    using execute_uncached_caches [OF x(1,4)] by simp
  ultimately show ?thesis using planner_answer_spec [OF assms(1,3)] by blast
qed

lemma sample_ready:
  assumes "list_all wf_event es" and "ch_ObjectKey (built_chunk es) = []" and "ch_Events (built_chunk es) = es" and "0 \<le> n" and "es \<noteq> []"
  shows "planner_ready sample_env (sample_planner [built_chunk es]) (sample_query\<lparr>q_Limit := n\<rparr>)"
proof -
  have "cache_coherent sample_env (pn_chunkCache (sample_planner [built_chunk es]))"
    by (simp add: sample_planner_def NewPlanner_def cache_coherent_def)
      (simp add: chunk_content_def NewChunkCache_def lru_content_def)
  moreover have "cd_Chunk ` set (snd (candidateChunks uni (sample_planner [built_chunk es]) req)) \<subseteq> {built_chunk es}" for uni req
    by (auto simp: candidateChunks_def candidate_loop_eq sample_planner_def NewPlanner_def Segment_List_def)
  moreover have "loadable sample_env (built_chunk es)" "list_all wf_event (chunk_events sample_env (built_chunk es))"
    using assms by (simp_all add: loadable_def chunk_events_def)
  ultimately show ?thesis using assms(4)
    by (auto simp: planner_ready_def sample_query_def Query_Validate_def IsZero_def compileRegex_def sample_env_def image_subset_iff)
qed

lemma sample_built:
  "ch_ObjectKey (built_chunk [sample_event 50 ''disk full'']) = []"
  "ch_Events (built_chunk [sample_event 50 ''disk full'']) = [sample_event 50 ''disk full'']"
  by (simp_all add: built_chunk_def NewBuilder_def NewBuilderWithOptions_def Builder_Add_def Builder_Flush_def shouldFlush_def Let_def)

theorem planner_query_correct_witness:
  "\<exists>res p'. Planner_Execute sample_env 7 8 (sample_planner [built_chunk [sample_event 50 ''disk full'']])
     (sample_query\<lparr>q_Limit := 1\<rparr>) = (Inr res, p') \<and> \<not> r_Partial res"
proof -
  let ?p = "sample_planner [built_chunk [sample_event 50 ''disk full'']]"
  have r: "planner_ready sample_env ?p (sample_query\<lparr>q_Limit := 1\<rparr>)"
    by (rule sample_ready) (simp_all add: sample_built)
  have "\<exists>qc. QueryCache_Get 7 (pn_queryCache ?p) k = (None, qc)" for k
    by (simp add: sample_planner_def NewPlanner_def NewQueryCache_def QueryCache_Get_def)
  then obtain qc where "QueryCache_Get 7 (pn_queryCache ?p) (planner_cacheKey sample_env (sample_query\<lparr>q_Limit := 1\<rparr>)) = (None, qc)" by blast
  from planner_query_correct [OF r _ _ this, of 0 None 8] show ?thesis
    by (auto simp: sample_query_def CursorOffset_def compileRegex_def sample_env_def)
qed

text \<open>
  Paging through a planned query is complete: following the cursors with a positive limit over an
  unchanged store yields the whole answer, each event once and in order.
\<close>

theorem planner_paging_complete:
  assumes "planner_ready env p req" and "0 < q_Limit req"
    and "int (length (planner_answer env p req)) \<le> max_int64" and "length (planner_answer env p req) < fuel"
  shows "follow_cursor fuel (\<lambda>req. fst (execute_uncached env now p req)) (req\<lparr>q_Cursor := []\<rparr>) = Some (planner_answer env p req)"
  using assms by (rule planned.follow_complete)

theorem planner_paging_complete_witness:
  "\<exists>es. follow_cursor 2 (\<lambda>req. fst (execute_uncached sample_env 7 (sample_planner [built_chunk [sample_event 50 ''disk full'']]) req))
     (sample_query\<lparr>q_Limit := 1, q_Cursor := []\<rparr>) = Some es"
proof -
  let ?p = "sample_planner [built_chunk [sample_event 50 ''disk full'']]" and ?q = "sample_query\<lparr>q_Limit := 1\<rparr>"
  have r: "planner_ready sample_env ?p ?q" by (rule sample_ready) (simp_all add: sample_built)
  have "length (planner_answer sample_env ?p ?q) = 1" by code_simp
  then show ?thesis using planner_paging_complete [OF r, of 2 7] by (simp add: max_int64_def)
qed

text \<open>
  A repeated query is served from the cache: asked again within the time to live, with no invalidation
  in between, the planner returns the same result without touching chunks or index. So does every other request
  with the same key.
\<close>

theorem repeated_query_cached:
  assumes "wf_query_cache (pn_queryCache p)" and "execute_uncached env now p req = (Inr res, p')"
    and "\<not> r_Partial res" and "now2 \<le> now + qc_ttl (pn_queryCache p)" and "planner_cacheKey env req' = planner_cacheKey env req"
  shows "fst (Planner_Execute env now2 now3 p' req') = Inr res \<and>
    pn_chunkCache (snd (Planner_Execute env now2 now3 p' req')) = pn_chunkCache p'"
proof -
  have "fst (QueryCache_Get now2 (pn_queryCache p') (planner_cacheKey env req')) = Some res"
    using query_lru.get_after_put [OF assms(1), where now' = now2 and now = now and v = res] assms(4,5)
    by (simp add: query_entry_of_def execute_uncached_caches [OF assms(2,3)])
  then show ?thesis by (auto simp: Planner_Execute_def split: prod.splits option.splits)
qed

text \<open>
  Requests that \<open>json.Marshal\<close> refuses, such as those with a time after the year 9999, all have the same key, whatever
  their tenants: the answer of one is served to the others while it is cached.
\<close>

corollary unencodable_requests_share_answers:
  assumes "wf_query_cache (pn_queryCache p)" and "execute_uncached env now p req = (Inr res, p')"
    and "\<not> r_Partial res" and "now2 \<le> now + qc_ttl (pn_queryCache p)"
    and "pe_MarshalRequest env req = Inl err" and "pe_MarshalRequest env req' = Inl err'"
  shows "fst (Planner_Execute env now2 now3 p' req') = Inr res"
  using repeated_query_cached [OF assms(1-4), of req'] assms(5,6) by (simp add: requestCacheKey_def)

theorem repeated_query_cached_witness:
  "\<exists>res p'. execute_uncached sample_env 7 (sample_planner []) sample_query = (Inr res, p') \<and>
     fst (Planner_Execute sample_env 8 8 p' sample_query) = Inr res"
proof -
  let ?p = "sample_planner []"
  define r where "r = execute_uncached sample_env 7 ?p sample_query"
  have ok: "\<not> isl (fst r) \<and> \<not> r_Partial (projr (fst r))" unfolding r_def by code_simp
  have w: "wf_query_cache (pn_queryCache ?p)" "qc_ttl (pn_queryCache ?p) = 30 * second"
    by (simp_all add: sample_planner_def NewPlanner_def) (simp add: NewQueryCache_def)
  have x: "execute_uncached sample_env 7 ?p sample_query = (Inr (projr (fst r)), snd r)"
    using ok unfolding r_def by (metis prod.collapse sum.collapse(2))
  have "fst (Planner_Execute sample_env 8 8 (snd r) sample_query) = Inr (projr (fst r))"
    using repeated_query_cached [OF w(1) x, of 8 sample_query 8] ok w(2) by (simp add: second_def)
  then show ?thesis using x by blast
qed

end
