(* ===== verification/Wal.thy ===== *)
theory Wal
  imports Core_Model
begin

text \<open>
  Package \<open>internal/engine/wal\<close>: the write-ahead log, a directory of numbered segment files of one
  JSON record per line. The directory is a map from file names to contents. JSON and SHA-256 are parameters
  (the record \<open>wal_codec\<close>); what the operating system answers to the calls of one operation is
  the record \<open>wal_io\<close>, in which a failing write may leave a prefix of its bytes behind.
\<close>

section \<open>Data\<close>

record wal_codec =
  wc_marshalEvent :: "event \<Rightarrow> string result"
  wc_marshalRecord :: "string \<times> event \<Rightarrow> string result"
  wc_unmarshalRecord :: "string \<Rightarrow> (string \<times> event) result"
  wc_sha :: "string \<Rightarrow> string"

record wal_io =
  io_write :: "(goerror \<times> nat) option"
  io_sync :: "goerror option"
  io_close :: "goerror option"
  io_open :: "goerror option"

definition io_ok :: wal_io where
  "io_ok = \<lparr>io_write = None, io_sync = None, io_close = None, io_open = None\<rparr>"

datatype sync_mode = SyncUnset | SyncAlways | SyncNever

record wal_options =
  MaxSegmentBytes :: int
  wo_SyncMode :: sync_mode

record wal_writer =
  w_files :: "(string, string) gomap"
  w_prefix :: string
  w_options :: wal_options
  w_current :: string
  w_currentSegment :: nat
  w_currentSize :: int

section \<open>Segment files\<close>

definition segment_name :: "string \<Rightarrow> nat \<Rightarrow> string" where
  "segment_name prefx n = prefx @ ''.'' @ pad 6 n @ ''.wal''"

text \<open>\<open>filepath.Glob\<close> with \<open>prefix.*.wal\<close>, sorted.\<close>

definition segmentPaths :: "wal_writer \<Rightarrow> string list" where
  "segmentPaths w = sort (filter (\<lambda>name. starts_with name (w_prefix w @ ''.'') \<and>
     ends_with (drop (length (w_prefix w) + 1) name) ''.wal'') (map fst (w_files w)))"

text \<open>\<open>fmt.Sscanf\<close> with \<open>prefix.%06d.wal\<close>: at most six digits after the prefix.\<close>

definition scan_segment :: "string \<Rightarrow> string \<Rightarrow> nat option" where
  "scan_segment prefx name =
     (if \<not> starts_with name (prefx @ ''.'') then None
      else let ds = takeWhile is_digit (take 6 (drop (length prefx + 1) name)) in
        if ds = [] then None else Some (digits_val ds))"

definition openCurrentSegment :: "wal_io \<Rightarrow> wal_writer \<Rightarrow> goerror option \<times> wal_writer" where
  "openCurrentSegment io w =
     (let w = (if w_currentSegment w = 0 \<and> segmentPaths w \<noteq> [] then
           (case scan_segment (w_prefix w) (last (segmentPaths w)) of
              Some n \<Rightarrow> w\<lparr>w_currentSegment := n\<rparr> | None \<Rightarrow> w) else w);
          path = segment_name (w_prefix w) (w_currentSegment w)
      in case io_open io of Some err \<Rightarrow> (Some err, w) | None \<Rightarrow>
         let files = (if map_of (w_files w) path = None then AList.update path [] (w_files w) else w_files w)
         in (None, w\<lparr>w_files := files, w_current := path, w_currentSize := int (length (mget files path))\<rparr>))"

text \<open>The base name of the path, less its extension: \<open>strings.TrimSuffix\<close> with \<open>filepath.Ext\<close>.\<close>

definition log_prefix :: "string \<Rightarrow> string" where
  "log_prefix base = (if CHR ''.'' \<in> set base then butlast (rev (dropWhile (\<lambda>c. c \<noteq> CHR ''.'') (rev base))) else base)"

lemma log_prefix_log [simp]: "log_prefix ''events.log'' = ''events''" "log_prefix ''events'' = ''events''"
  by code_simp+

definition Wal_OpenWithOptions ::
  "wal_io \<Rightarrow> (string, string) gomap \<Rightarrow> string \<Rightarrow> wal_options \<Rightarrow> wal_writer result" where
  "Wal_OpenWithOptions io files base options =
     (let options = (if MaxSegmentBytes options \<le> 0 then options\<lparr>MaxSegmentBytes := 8 * 1024 * 1024\<rparr> else options);
          options = (if wo_SyncMode options = SyncUnset then options\<lparr>wo_SyncMode := SyncAlways\<rparr> else options);
          w = \<lparr>w_files = files, w_prefix = log_prefix base, w_options = options, w_current = [], w_currentSegment = 0, w_currentSize = 0\<rparr>
      in case openCurrentSegment io w of (Some err, w) \<Rightarrow> Inl err | (None, w) \<Rightarrow> Inr w)"

definition Wal_Open :: "wal_io \<Rightarrow> (string, string) gomap \<Rightarrow> string \<Rightarrow> wal_writer result" where
  "Wal_Open io files base = Wal_OpenWithOptions io files base \<lparr>MaxSegmentBytes = 8 * 1024 * 1024, wo_SyncMode = SyncAlways\<rparr>"

section \<open>Records\<close>

definition newline :: char where
  "newline = CHR 0x0A"

definition marshalRecord :: "wal_codec \<Rightarrow> event \<Rightarrow> string result" where
  "marshalRecord cd event =
     (case wc_marshalEvent cd event of Inl err \<Rightarrow> Inl err | Inr eventPayload \<Rightarrow>
      case wc_marshalRecord cd (wc_sha cd eventPayload, event) of Inl err \<Rightarrow> Inl err
      | Inr entry \<Rightarrow> Inr (entry @ [newline]))"

definition unmarshalRecord :: "wal_codec \<Rightarrow> string \<Rightarrow> event result" where
  "unmarshalRecord cd line =
     (case wc_unmarshalRecord cd line of Inl err \<Rightarrow> Inl err | Inr (checksum, event) \<Rightarrow>
      case wc_marshalEvent cd event of Inl err \<Rightarrow> Inl err | Inr payload \<Rightarrow>
        if wc_sha cd payload \<noteq> checksum then Inl ErrUnexpectedEOF else Inr event)"

section \<open>Appending\<close>

definition rotateLocked :: "wal_io \<Rightarrow> wal_writer \<Rightarrow> goerror option \<times> wal_writer" where
  "rotateLocked io w = (case io_close io of Some err \<Rightarrow> (Some err, w)
     | None \<Rightarrow> openCurrentSegment io (w\<lparr>w_currentSegment := w_currentSegment w + 1, w_currentSize := 0\<rparr>))"

text \<open>A write to the open file, which is in append mode.\<close>

definition file_write :: "wal_io \<Rightarrow> wal_writer \<Rightarrow> string \<Rightarrow> goerror option \<times> wal_writer" where
  "file_write io w entry =
     (let put = (\<lambda>bytes. w\<lparr>w_files := AList.update (w_current w) (mget (w_files w) (w_current w) @ bytes) (w_files w)\<rparr>)
      in case io_write io of None \<Rightarrow> (None, put entry) | Some (err, n) \<Rightarrow> (Some err, put (take n entry)))"

definition Wal_Append :: "wal_codec \<Rightarrow> wal_io \<Rightarrow> wal_writer \<Rightarrow> event \<Rightarrow> goerror option \<times> wal_writer" where
  "Wal_Append cd io w event =
     (case marshalRecord cd event of Inl err \<Rightarrow> (Some err, w) | Inr entry \<Rightarrow>
      let (err, w) = (if w_currentSize w + int (length entry) > MaxSegmentBytes (w_options w) \<and> w_currentSize w > 0
            then rotateLocked io w else (None, w))
      in case err of Some err \<Rightarrow> (Some err, w) | None \<Rightarrow>
      case file_write io w entry of (Some err, w) \<Rightarrow> (Some err, w) | (None, w) \<Rightarrow>
        let w = w\<lparr>w_currentSize := w_currentSize w + int (length entry)\<rparr>
        in if wo_SyncMode (w_options w) = SyncAlways then (io_sync io, w) else (None, w))"

section \<open>Replay\<close>

text \<open>
  \<open>bufio.Scanner\<close> with its default limit: lines end at a newline, a trailing carriage return is dropped,
  a final line without newline counts, and a line that does not fit the 64 KiB buffer is an error.
\<close>

definition max_scan_token :: nat where
  "max_scan_token = 65536"

definition scan_lines :: "string \<Rightarrow> string list" where
  "scan_lines s = (let ls = split_char newline s in if last ls = [] then butlast ls else ls)"

definition drop_cr :: "string \<Rightarrow> string" where
  "drop_cr l = (if l \<noteq> [] \<and> last l = CHR 0x0D then butlast l else l)"

fun replay_lines :: "wal_codec \<Rightarrow> string list \<Rightarrow> event list \<Rightarrow> event list result" where
  "replay_lines cd [] events = Inr events"
| "replay_lines cd (l # ls) events =
     (if max_scan_token \<le> length l then Inl (Errorf ''bufio.Scanner: token too long'' [])
      else case unmarshalRecord cd (drop_cr l) of Inl err \<Rightarrow> Inl err
         | Inr event \<Rightarrow> replay_lines cd ls (events @ [event]))"

fun replay_files :: "wal_codec \<Rightarrow> (string, string) gomap \<Rightarrow> string list \<Rightarrow> event list \<Rightarrow> event list result" where
  "replay_files cd files [] events = Inr events"
| "replay_files cd files (path # paths) events =
     (case replay_lines cd (scan_lines (mget files path)) events of Inl err \<Rightarrow> Inl err
      | Inr events \<Rightarrow> replay_files cd files paths events)"

definition Wal_Replay :: "wal_codec \<Rightarrow> wal_writer \<Rightarrow> event list result" where
  "Wal_Replay cd w = replay_files cd (w_files w) (segmentPaths w) []"

definition Wal_Reset :: "wal_io \<Rightarrow> wal_writer \<Rightarrow> goerror option \<times> wal_writer" where
  "Wal_Reset io w = (case io_close io of Some err \<Rightarrow> (Some err, w) | None \<Rightarrow>
     let files = fold AList.delete (segmentPaths w) (w_files w)
     in openCurrentSegment io (w\<lparr>w_files := files, w_currentSegment := 0, w_currentSize := 0\<rparr>))"

definition Wal_Close :: "wal_io \<Rightarrow> wal_writer \<Rightarrow> goerror option" where
  "Wal_Close io w = (if w_current w = [] then None else io_close io)"

section \<open>Segment names sort like their numbers\<close>

lemma digits_val_Cons: "digits_val (c # cs) = digit_val c * 10 ^ length cs + digits_val cs"
proof (induction cs rule: rev_induct)
  case Nil
  then show ?case by (simp add: digits_val_def)
next
  case (snoc d cs)
  then show ?case using digits_val_snoc [of "c # cs" d] by (simp add: digits_val_snoc)
qed

lemma digit_val_less: "is_digit c \<Longrightarrow> digit_val c < 10"
  by (auto simp: is_digit_def digit_val_def)

lemma digits_val_less: "list_all is_digit s \<Longrightarrow> digits_val s < 10 ^ length s"
proof (induction s)
  case Nil
  then show ?case by (simp add: digits_val_def)
next
  case (Cons c cs)
  then have "digit_val c \<le> 9" using digit_val_less [of c] by simp
  then have "digit_val c * 10 ^ length cs \<le> 9 * 10 ^ length cs" by (rule mult_right_mono) simp
  moreover have "digits_val cs < 10 ^ length cs" using Cons by simp
  ultimately have "digit_val c * 10 ^ length cs + digits_val cs < 9 * 10 ^ length cs + 10 ^ length cs" by linarith
  then show ?case by (simp add: digits_val_Cons)
qed

lemma digit_less: "is_digit c \<Longrightarrow> is_digit d \<Longrightarrow> c < d \<longleftrightarrow> digit_val c < digit_val d"
proof -
  assume d: "is_digit c" "is_digit d"
  have "c < d \<longleftrightarrow> byte_val c < byte_val d"
    using of_nat_less_iff [of "of_char c" "of_char d", where 'a = int] by (simp only: of_nat_of_char less_char_def byte_val_def)
  then show ?thesis using d by (auto simp: is_digit_def digit_val_def)
qed

lemma digits_less:
  "length a = length b \<Longrightarrow> list_all is_digit a \<Longrightarrow> list_all is_digit b \<Longrightarrow> a < b \<longleftrightarrow> digits_val a < digits_val b"
proof (induction a b rule: list_induct2)
  case Nil
  then show ?case by simp
next
  case (Cons c cs d ds)
  have b: "digits_val cs < 10 ^ length cs" "digits_val ds < 10 ^ length cs"
    using digits_val_less [of cs] digits_val_less [of ds] Cons by auto
  consider "c = d" | "digit_val c < digit_val d" "c < d" | "digit_val d < digit_val c" "d < c"
    using digit_less [of c d] digit_less [of d c] Cons.prems by (metis linorder_less_linear list.pred_inject(2))
  then show ?case
  proof cases
    case 1
    then show ?thesis using Cons by (simp add: digits_val_Cons)
  next
    case 2
    then have "(digit_val c + 1) * 10 ^ length cs \<le> digit_val d * 10 ^ length cs" by (intro mult_right_mono) auto
    then show ?thesis using 2 b Cons.hyps by (simp add: digits_val_Cons)
  next
    case 3
    then have "(digit_val d + 1) * 10 ^ length cs \<le> digit_val c * 10 ^ length cs" by (intro mult_right_mono) auto
    then show ?thesis using 3 b Cons.hyps by (auto simp: digits_val_Cons)
  qed
qed

lemma append_less_left: "p @ a < p @ b \<longleftrightarrow> a < (b :: string)"
  by (induction p) simp_all

lemma append_less_right: "length a = length b \<Longrightarrow> a @ s < b @ s \<longleftrightarrow> a < (b :: string)"
  by (induction a b rule: list_induct2) auto

lemma length_show_nat: "0 < k \<Longrightarrow> n < 10 ^ k \<Longrightarrow> length (show_nat n) \<le> k"
proof (induction n arbitrary: k rule: show_nat.induct)
  case (1 n)
  show ?case
  proof (cases "n < 10")
    case True
    then show ?thesis using "1.prems" by (simp add: show_nat.simps [of n])
  next
    case False
    then obtain j where k: "k = Suc j" "0 < j" using "1.prems" by (cases k; cases "k - 1") auto
    have "n div 10 < 10 ^ j" using "1.prems"(2) k by (simp add: less_mult_imp_div_less mult.commute)
    then show ?thesis using "1.IH" [OF False k(2)] k False by (simp add: show_nat.simps [of n])
  qed
qed

lemma length_pad: "0 < w \<Longrightarrow> n < 10 ^ w \<Longrightarrow> length (pad w n) = w"
  using length_show_nat [of w n] by (simp add: pad_def Let_def)

lemma segment_name_less:
  "m < 1000000 \<Longrightarrow> n < 1000000 \<Longrightarrow> segment_name p m < segment_name p n \<longleftrightarrow> m < n"
  using digits_less [of "pad 6 m" "pad 6 n"] pad_digits length_pad [of 6 m] length_pad [of 6 n]
  by (simp add: segment_name_def append_less_left append_less_right)

lemma segment_name_inj: "segment_name p m = segment_name p n \<longleftrightarrow> m = n"
  by (simp add: segment_name_def)

lemma scan_segment_name: "n < 1000000 \<Longrightarrow> scan_segment p (segment_name p n) = Some n"
proof -
  assume "n < 1000000"
  then have l: "length (pad 6 n) = 6" using length_pad [of 6 n] by simp
  have t: "takeWhile is_digit (pad 6 n) = pad 6 n" using pad_digits by (simp add: list_all_iff takeWhile_eq_all_conv)
  have "pad 6 n \<noteq> []" using l by auto
  then show ?thesis using l by (simp add: scan_segment_def segment_name_def starts_with_def t)
qed

section \<open>What the log holds\<close>

text \<open>
  \<open>entry_of\<close> is the line \<open>Append\<close> writes for an event, without its newline. The codec carries an event when the
  line is one line that decodes to the event and its checksum; the scanner of \<open>Replay\<close> can read the line when it is
  shorter than \<open>bufio.MaxScanTokenSize\<close>, 64 KiB, which \<open>Append\<close> does not check.
\<close>

definition entry_of :: "wal_codec \<Rightarrow> event \<Rightarrow> string" where
  "entry_of cd e = (case marshalRecord cd e of Inl _ \<Rightarrow> [] | Inr l \<Rightarrow> butlast l)"

definition decodable :: "wal_codec \<Rightarrow> event \<Rightarrow> bool" where
  "decodable cd e \<longleftrightarrow> (\<exists>pay l. wc_marshalEvent cd e = Inr pay \<and> wc_marshalRecord cd (wc_sha cd pay, e) = Inr l \<and>
     newline \<notin> set l \<and> l \<noteq> [] \<and> last l \<noteq> CHR 0x0D \<and> wc_unmarshalRecord cd l = Inr (wc_sha cd pay, e))"

definition recordable :: "wal_codec \<Rightarrow> event \<Rightarrow> bool" where
  "recordable cd e \<longleftrightarrow> decodable cd e \<and> length (entry_of cd e) < max_scan_token"

lemma recordable_all:
  "list_all (recordable cd) es \<longleftrightarrow> list_all (decodable cd) es \<and> list_all (\<lambda>e. length (entry_of cd e) < max_scan_token) es"
  by (auto simp: list_all_iff recordable_def)

lemma recordableD:
  assumes "recordable cd e"
  shows "marshalRecord cd e = Inr (entry_of cd e @ [newline])" and "newline \<notin> set (entry_of cd e)"
    and "length (entry_of cd e) < max_scan_token" and "unmarshalRecord cd (drop_cr (entry_of cd e)) = Inr e"
  using assms by (auto simp: recordable_def decodable_def marshalRecord_def entry_of_def unmarshalRecord_def drop_cr_def)

definition lines_of :: "wal_codec \<Rightarrow> event list \<Rightarrow> string" where
  "lines_of cd es = concat (map (\<lambda>e. entry_of cd e @ [newline]) es)"

lemma lines_of_simps [simp]: "lines_of cd [] = []" "lines_of cd (es @ [e]) = lines_of cd es @ entry_of cd e @ [newline]"
  by (simp_all add: lines_of_def)

lemma scan_lines_of:
  assumes "list_all (recordable cd) es"
  shows "scan_lines (lines_of cd es) = map (entry_of cd) es"
proof -
  have "split_char newline (lines_of cd es) = map (entry_of cd) es @ [[]]"
    using assms by (induction es) (simp_all add: lines_of_def split_char_append recordableD)
  then show ?thesis by (simp add: scan_lines_def)
qed

lemma replay_lines_of: "list_all (recordable cd) es \<Longrightarrow> replay_lines cd (map (entry_of cd) es) acc = Inr (acc @ es)"
proof (induction es arbitrary: acc)
  case Nil
  then show ?case by simp
next
  case (Cons e es)
  then show ?case using recordableD [of cd e] by simp
qed

text \<open>The log holds the events of \<open>groups\<close>, one list per segment file.\<close>

definition wal_holds :: "wal_codec \<Rightarrow> wal_writer \<Rightarrow> event list list \<Rightarrow> bool" where
  "wal_holds cd w groups \<longleftrightarrow> w_currentSegment w + 1 = length groups \<and> length groups \<le> 1000000 \<and> wf_map (w_files w) \<and>
     fst ` set (w_files w) = segment_name (w_prefix w) ` {0..<length groups} \<and>
     (\<forall>i < length groups. mget (w_files w) (segment_name (w_prefix w) i) = lines_of cd (groups ! i)) \<and>
     w_current w = segment_name (w_prefix w) (w_currentSegment w) \<and>
     w_currentSize w = int (length (mget (w_files w) (w_current w))) \<and>
     list_all (recordable cd) (concat groups)"

lemma segmentPaths_eq:
  assumes "wf_map (w_files w)" and "fst ` set (w_files w) = segment_name (w_prefix w) ` {0..<n}" and "n \<le> 1000000"
  shows "segmentPaths w = map (segment_name (w_prefix w)) [0..<n]"
proof -
  let ?P = "\<lambda>name. starts_with name (w_prefix w @ ''.'') \<and> ends_with (drop (length (w_prefix w) + 1) name) ''.wal''"
  have "?P (segment_name (w_prefix w) i)" for i
    by (simp add: segment_name_def starts_with_def ends_with_def)
  then have "filter ?P (map fst (w_files w)) = map fst (w_files w)"
  proof (intro filter_True ballI)
    fix name assume "name \<in> set (map fst (w_files w))"
    then have "name \<in> segment_name (w_prefix w) ` {0..<n}" using assms(2) by simp
    then obtain i where "name = segment_name (w_prefix w) i" by blast
    then show "?P name" using \<open>\<And>i. ?P (segment_name (w_prefix w) i)\<close> by simp
  qed
  then have sp: "segmentPaths w = sort (map fst (w_files w))" by (simp only: segmentPaths_def)
  have srt: "sorted (map (segment_name (w_prefix w)) [0..<n])"
    unfolding sorted_iff_nth_mono_less using assms(3) segment_name_less by (auto intro: less_imp_le)
  have dst: "distinct (map (segment_name (w_prefix w)) [0..<n])"
    by (simp add: distinct_map inj_on_def segment_name_inj)
  show ?thesis unfolding sp
    by (rule sorted_distinct_set_unique) (use assms(1,2) srt dst in \<open>auto simp: wf_map_def\<close>)
qed

lemma wal_holds_paths: "wal_holds cd w groups \<Longrightarrow> segmentPaths w = map (segment_name (w_prefix w)) [0..<length groups]"
  by (intro segmentPaths_eq) (auto simp: wal_holds_def)

lemma replay_files_of:
  assumes "\<forall>i \<in> set is. mget files (segment_name p i) = lines_of cd (groups ! i) \<and> list_all (recordable cd) (groups ! i)"
  shows "replay_files cd files (map (segment_name p) is) acc = Inr (acc @ concat (map ((!) groups) is))"
  using assms
  by (induction "is" arbitrary: acc) (simp_all add: scan_lines_of replay_lines_of)

lemma wal_holds_replay:
  assumes "wal_holds cd w groups"
  shows "Wal_Replay cd w = Inr (concat groups)"
proof -
  have "\<forall>i \<in> set [0..<length groups]. mget (w_files w) (segment_name (w_prefix w) i) = lines_of cd (groups ! i) \<and>
      list_all (recordable cd) (groups ! i)"
    using assms by (fastforce simp: wal_holds_def list_all_iff)
  from replay_files_of [OF this] show ?thesis
    using wal_holds_paths [OF assms] by (simp add: Wal_Replay_def map_nth)
qed

lemma wal_open_existing:
  assumes "p = log_prefix base" and "wf_map files" and "fst ` set files = segment_name p ` {0..<length groups}" and "groups \<noteq> []"
    and "length groups \<le> 1000000" and "\<forall>i < length groups. mget files (segment_name p i) = lines_of cd (groups ! i)"
    and "list_all (recordable cd) (concat groups)"
  shows "\<exists>w. Wal_OpenWithOptions io_ok files base opts = Inr w \<and> wal_holds cd w groups \<and> w_prefix w = p \<and> w_files w = files"
proof -
  define o1 where "o1 = (if MaxSegmentBytes opts \<le> 0 then opts\<lparr>MaxSegmentBytes := 8 * 1024 * 1024\<rparr> else opts)"
  define o2 where "o2 = (if wo_SyncMode o1 = SyncUnset then o1\<lparr>wo_SyncMode := SyncAlways\<rparr> else o1)"
  let ?w = "\<lparr>w_files = files, w_prefix = p, w_options = o2, w_current = [], w_currentSegment = 0, w_currentSize = 0\<rparr>"
  let ?n = "length groups - 1"
  have paths: "segmentPaths ?w = map (segment_name p) [0..<length groups]"
    using segmentPaths_eq [of ?w "length groups"] assms(2,3,5) by simp
  have "last (segmentPaths ?w) = segment_name p ?n" "segmentPaths ?w \<noteq> []"
    using assms(4) by (simp_all add: paths last_map)
  moreover have "scan_segment p (segment_name p ?n) = Some ?n"
    using assms(4,5) by (intro scan_segment_name) (cases groups, auto)
  moreover have "map_of files (segment_name p ?n) \<noteq> None"
    using assms(3,4) by (simp add: map_of_eq_None_iff)
  ultimately have "openCurrentSegment io_ok ?w = (None, ?w\<lparr>w_currentSegment := ?n, w_current := segment_name p ?n,
      w_currentSize := int (length (mget files (segment_name p ?n)))\<rparr>)"
    by (auto simp: openCurrentSegment_def io_ok_def Let_def)
  then have "Wal_OpenWithOptions io_ok files base opts = Inr (?w\<lparr>w_currentSegment := ?n, w_current := segment_name p ?n,
      w_currentSize := int (length (mget files (segment_name p ?n)))\<rparr>)"
    by (simp add: Wal_OpenWithOptions_def Let_def o1_def [symmetric] o2_def [symmetric] assms(1) [symmetric])
  moreover have "wal_holds cd (?w\<lparr>w_currentSegment := ?n, w_current := segment_name p ?n,
      w_currentSize := int (length (mget files (segment_name p ?n)))\<rparr>) groups"
    using assms by (simp add: wal_holds_def)
  ultimately show ?thesis by auto
qed

lemma wal_open_empty:
  "\<exists>w. Wal_OpenWithOptions io_ok [] base opts = Inr w \<and> wal_holds cd w [[]] \<and> w_prefix w = log_prefix base"
  by (auto simp: Wal_OpenWithOptions_def openCurrentSegment_def segmentPaths_def io_ok_def wal_holds_def Let_def
      wf_map_def mget_def)

text \<open>Appending without I/O errors, event by event.\<close>

fun append_all :: "wal_codec \<Rightarrow> wal_writer \<Rightarrow> event list \<Rightarrow> goerror option \<times> wal_writer" where
  "append_all cd w [] = (None, w)"
| "append_all cd w (e # es) = (case Wal_Append cd io_ok w e of (Some err, w) \<Rightarrow> (Some err, w) | (None, w) \<Rightarrow> append_all cd w es)"

lemma file_write_holds:
  assumes "wal_holds cd w groups" and "recordable cd e"
  shows "\<exists>w'. file_write io_ok w (entry_of cd e @ [newline]) = (None, w') \<and>
     wal_holds cd (w'\<lparr>w_currentSize := w_currentSize w' + int (length (entry_of cd e @ [newline]))\<rparr>)
       (groups[length groups - 1 := last groups @ [e]]) \<and> w_prefix w' = w_prefix w"
proof -
  let ?c = "w_current w" and ?n = "length groups - 1"
  let ?w = "w\<lparr>w_files := AList.update ?c (mget (w_files w) ?c @ entry_of cd e @ [newline]) (w_files w)\<rparr>"
  have ne: "groups \<noteq> []" and n1: "w_currentSegment w = ?n" using assms(1) by (auto simp: wal_holds_def)
  have n: "w_currentSegment w = ?n" "?c = segment_name (w_prefix w) ?n"
    using assms(1) n1 by (simp_all add: wal_holds_def)
  have "?c \<in> fst ` set (w_files w)" using assms(1) n by (auto simp: wal_holds_def)
  then have keys: "fst ` set (AList.update ?c v (w_files w)) = fst ` set (w_files w)" for v
    by (auto simp: AList.dom_update)
  have files: "\<forall>i < length groups. mget (w_files ?w) (segment_name (w_prefix w) i) =
      lines_of cd (groups[?n := last groups @ [e]] ! i)"
    using assms(1) ne n by (auto simp: wal_holds_def mget_update segment_name_inj nth_list_update last_conv_nth)
  have "list_all (recordable cd) (concat (groups[?n := last groups @ [e]]))"
  proof -
    have "concat (groups[?n := last groups @ [e]]) = concat groups @ [e]"
      using ne by (cases groups rule: rev_cases) simp_all
    then show ?thesis using assms by (simp add: wal_holds_def)
  qed
  then have "wal_holds cd (?w\<lparr>w_currentSize := w_currentSize ?w + int (length (entry_of cd e @ [newline]))\<rparr>)
       (groups[?n := last groups @ [e]])"
    using assms(1) files keys n by (simp add: wal_holds_def mget_update)
  then show ?thesis by (auto simp: file_write_def io_ok_def Let_def)
qed

lemma rotate_holds:
  assumes "wal_holds cd w groups" and "length groups < 1000000"
  shows "\<exists>w'. rotateLocked io_ok w = (None, w') \<and> wal_holds cd w' (groups @ [[]]) \<and> w_prefix w' = w_prefix w"
proof -
  let ?n = "length groups"
  have n: "w_currentSegment w + 1 = ?n" using assms(1) by (simp add: wal_holds_def)
  have fresh: "segment_name (w_prefix w) ?n \<notin> fst ` set (w_files w)"
    using assms(1) by (auto simp: wal_holds_def segment_name_inj)
  then have "map_of (w_files w) (segment_name (w_prefix w) ?n) = None" by (simp add: map_of_eq_None_iff)
  then have r: "rotateLocked io_ok w = (None, w\<lparr>w_currentSegment := ?n, w_files := AList.update (segment_name (w_prefix w) ?n) [] (w_files w),
      w_current := segment_name (w_prefix w) ?n, w_currentSize := 0\<rparr>)"
    using n by (auto simp: rotateLocked_def openCurrentSegment_def io_ok_def Let_def)
  have keys: "fst ` set (AList.update (segment_name (w_prefix w) ?n) [] (w_files w)) =
      insert (segment_name (w_prefix w) ?n) (fst ` set (w_files w))"
    by (simp add: AList.dom_update)
  have "wal_holds cd (w\<lparr>w_currentSegment := ?n, w_files := AList.update (segment_name (w_prefix w) ?n) [] (w_files w),
      w_current := segment_name (w_prefix w) ?n, w_currentSize := 0\<rparr>) (groups @ [[]])"
  proof -
    have "\<forall>i < Suc ?n. mget (AList.update (segment_name (w_prefix w) ?n) [] (w_files w)) (segment_name (w_prefix w) i) =
        lines_of cd ((groups @ [[]]) ! i)"
      using assms(1) by (auto simp: wal_holds_def mget_update segment_name_inj nth_append less_Suc_eq)
    moreover have "insert (segment_name (w_prefix w) ?n) (fst ` set (w_files w)) = segment_name (w_prefix w) ` {0..<Suc ?n}"
      using assms(1) by (simp add: wal_holds_def atLeast0_lessThan_Suc)
    ultimately show ?thesis using assms keys by (simp add: wal_holds_def)
  qed
  then show ?thesis using r by auto
qed

lemma Append_holds:
  assumes "wal_holds cd w groups" and "recordable cd e" and "length groups < 1000000"
  shows "\<exists>w' groups'. Wal_Append cd io_ok w e = (None, w') \<and> wal_holds cd w' groups' \<and> concat groups' = concat groups @ [e] \<and>
     length groups' \<le> length groups + 1 \<and> w_prefix w' = w_prefix w"
proof -
  let ?l = "entry_of cd e @ [newline]"
  have step: "\<exists>w' groups'. (case file_write io_ok v ?l of (Some err, w) \<Rightarrow> (Some err, w) | (None, w) \<Rightarrow>
        let w = w\<lparr>w_currentSize := w_currentSize w + int (length ?l)\<rparr>
        in if wo_SyncMode (w_options w) = SyncAlways then (io_sync io_ok, w) else (None, w)) = (None, w') \<and>
      wal_holds cd w' groups' \<and> concat groups' = concat gs @ [e] \<and> length groups' = length gs \<and> w_prefix w' = w_prefix v"
    if v: "wal_holds cd v gs" for v gs
  proof -
    have "gs \<noteq> []" using v by (auto simp: wal_holds_def)
    then have "concat (gs[length gs - 1 := last gs @ [e]]) = concat gs @ [e]" by (cases gs rule: rev_cases) simp_all
    then show ?thesis using file_write_holds [OF v assms(2)]
      by (auto simp: Let_def io_ok_def intro!: exI [of _ "gs[length gs - 1 := last gs @ [e]]"])
  qed
  show ?thesis
  proof (cases "w_currentSize w + int (length ?l) > MaxSegmentBytes (w_options w) \<and> w_currentSize w > 0")
    case True
    obtain v where v: "rotateLocked io_ok w = (None, v)" "wal_holds cd v (groups @ [[]])" "w_prefix v = w_prefix w"
      using rotate_holds [OF assms(1,3)] by blast
    obtain w' gs where "(case file_write io_ok v ?l of (Some err, w) \<Rightarrow> (Some err, w) | (None, w) \<Rightarrow>
        let w = w\<lparr>w_currentSize := w_currentSize w + int (length ?l)\<rparr>
        in if wo_SyncMode (w_options w) = SyncAlways then (io_sync io_ok, w) else (None, w)) = (None, w')"
      "wal_holds cd w' gs" "concat gs = concat groups @ [e]" "length gs = length groups + 1" "w_prefix w' = w_prefix w"
      using step [OF v(2)] v(3) by auto
    then show ?thesis using v(1) True recordableD(1) [OF assms(2)]
      by (intro exI [of _ w'] exI [of _ gs]) (simp add: Wal_Append_def)
  next
    case False
    then show ?thesis using step [OF assms(1)] recordableD(1) [OF assms(2)] by (fastforce simp: Wal_Append_def)
  qed
qed

lemma append_all_holds:
  assumes "wal_holds cd w groups" and "list_all (recordable cd) es" and "length groups + length es \<le> 1000000"
  shows "\<exists>w' groups'. append_all cd w es = (None, w') \<and> wal_holds cd w' groups' \<and> concat groups' = concat groups @ es \<and>
     w_prefix w' = w_prefix w"
  using assms
proof (induction es arbitrary: w groups)
  case Nil
  then show ?case by auto
next
  case (Cons e es)
  then obtain v gs where v: "Wal_Append cd io_ok w e = (None, v)" "wal_holds cd v gs" "concat gs = concat groups @ [e]"
      "length gs \<le> length groups + 1" "w_prefix v = w_prefix w"
    using Append_holds [OF Cons.prems(1), of e] by auto
  obtain w' gs' where "append_all cd v es = (None, w')" "wal_holds cd w' gs'" "concat gs' = concat gs @ es" "w_prefix w' = w_prefix v"
    using Cons.IH [OF v(2)] Cons.prems v(4) by auto
  then show ?case using v by (intro exI [of _ w'] exI [of _ gs']) simp
qed

section \<open>Properties\<close>

text \<open>
  C28. The log is durable and ordered for records shorter than 64 KiB: when the codec carries every event of a list (its
  record is one line that decodes to it), the line of every event is shorter than \<open>bufio.MaxScanTokenSize\<close>, there are
  fewer than 1000000 events, and the calls of the file system succeed, then appending the events to a fresh log succeeds
  whatever the segment size, and replaying it, in this process or after reopening the directory, returns exactly
  these events in the order they were appended. (A longer record is accepted by \<open>Append\<close> and makes the log
  unreadable: \<open>wal_long_record_unreadable\<close>.)
\<close>

theorem wal_replay_roundtrip:
  assumes "list_all (decodable cd) es" and "list_all (\<lambda>e. length (entry_of cd e) < max_scan_token) es" and "length es < 1000000"
  shows "\<exists>w w' w''. Wal_OpenWithOptions io_ok [] base opts = Inr w \<and> append_all cd w es = (None, w') \<and>
     Wal_Replay cd w' = Inr es \<and>
     Wal_OpenWithOptions io_ok (w_files w') base opts' = Inr w'' \<and> Wal_Replay cd w'' = Inr es"
proof -
  obtain w where w: "Wal_OpenWithOptions io_ok [] base opts = Inr w" "wal_holds cd w [[]]" "w_prefix w = log_prefix base"
    using wal_open_empty by blast
  obtain w' gs where w': "append_all cd w es = (None, w')" "wal_holds cd w' gs" "concat gs = es" "w_prefix w' = log_prefix base"
    using append_all_holds [OF w(2), of es] recordable_all [of cd es] assms w(3) by auto
  have "gs \<noteq> []" using w'(2) by (auto simp: wal_holds_def)
  then obtain w'' where "Wal_OpenWithOptions io_ok (w_files w') base opts' = Inr w''" "wal_holds cd w'' gs"
    using wal_open_existing [of "log_prefix base" base "w_files w'" gs cd opts'] w'(2,4) by (auto simp: wal_holds_def)
  then show ?thesis using w(1) w'(1,3) wal_holds_replay [OF w'(2)] wal_holds_replay [of cd w'' gs] by auto
qed

text \<open>A codec that writes the body of an event and reads it back.\<close>

definition body_codec :: wal_codec where
  "body_codec = \<lparr>wc_marshalEvent = (\<lambda>e. Inr (Body e)), wc_marshalRecord = (\<lambda>(c, e). Inr (Body e)),
     wc_unmarshalRecord = (\<lambda>l. Inr (l, zero_event\<lparr>Body := l\<rparr>)), wc_sha = id\<rparr>"

theorem wal_replay_roundtrip_witness:
  "\<exists>w w' w''. Wal_OpenWithOptions io_ok [] ''events'' \<lparr>MaxSegmentBytes = 2, wo_SyncMode = SyncAlways\<rparr> = Inr w \<and>
     append_all body_codec w [zero_event\<lparr>Body := ''a''\<rparr>, zero_event\<lparr>Body := ''b''\<rparr>] = (None, w') \<and>
     Wal_Replay body_codec w' = Inr [zero_event\<lparr>Body := ''a''\<rparr>, zero_event\<lparr>Body := ''b''\<rparr>]"
proof -
  have d: "list_all (decodable body_codec) [zero_event\<lparr>Body := ''a''\<rparr>, zero_event\<lparr>Body := ''b''\<rparr>]"
    by (simp add: decodable_def body_codec_def zero_event_def newline_def)
  have f: "list_all (\<lambda>e. length (entry_of body_codec e) < max_scan_token) [zero_event\<lparr>Body := ''a''\<rparr>, zero_event\<lparr>Body := ''b''\<rparr>]"
    by (simp add: entry_of_def marshalRecord_def body_codec_def max_scan_token_def)
  from wal_replay_roundtrip [OF d f, of "''events''" "\<lparr>MaxSegmentBytes = 2, wo_SyncMode = SyncAlways\<rparr>"
      "\<lparr>MaxSegmentBytes = 2, wo_SyncMode = SyncAlways\<rparr>"] show ?thesis by auto
qed

text \<open>
  A record of 64 KiB or more is accepted but cannot be replayed: after \<open>Append\<close> of such an event to a
  fresh log reported success, \<open>Replay\<close> fails on the line and returns no event at all.
\<close>

theorem wal_long_record_unreadable:
  assumes "marshalRecord cd e = Inr (l @ [newline])" and "newline \<notin> set l" and "max_scan_token \<le> length l"
    and "Wal_OpenWithOptions io_ok [] base opts = Inr w"
  shows "\<exists>w'. Wal_Append cd io_ok w e = (None, w') \<and> Wal_Replay cd w' = Inl (Errorf ''bufio.Scanner: token too long'' [])"
proof -
  let ?p = "segment_name (log_prefix base) 0"
  have w: "w_files w = [(?p, [])]" "w_current w = ?p" "w_prefix w = log_prefix base" "w_currentSize w = 0"
    using assms(4)
    by (auto simp: Wal_OpenWithOptions_def openCurrentSegment_def segmentPaths_def io_ok_def Let_def mget_def split: if_splits)
  define w' where "w' = w\<lparr>w_files := [(?p, l @ [newline])], w_currentSize := int (length (l @ [newline]))\<rparr>"
  have a: "Wal_Append cd io_ok w e = (None, w')"
    using w assms(1) by (auto simp: Wal_Append_def file_write_def io_ok_def Let_def mget_def w'_def)
  have "segmentPaths w' = [?p]"
    using segmentPaths_eq [of w' 1] w by (simp add: w'_def wf_map_def)
  moreover have "scan_lines (l @ [newline]) = [l]"
    using split_char_append [OF assms(2), of "[]"] by (simp add: scan_lines_def)
  ultimately have "Wal_Replay cd w' = Inl (Errorf ''bufio.Scanner: token too long'' [])"
    using assms(3) by (simp add: Wal_Replay_def w'_def mget_def)
  then show ?thesis using a by blast
qed

theorem wal_long_record_unreadable_witness:
  "\<exists>w w'. Wal_OpenWithOptions io_ok [] ''events'' \<lparr>MaxSegmentBytes = 0, wo_SyncMode = SyncAlways\<rparr> = Inr w \<and>
     Wal_Append body_codec io_ok w (zero_event\<lparr>Body := replicate 65536 (CHR ''x'')\<rparr>) = (None, w') \<and>
     Wal_Replay body_codec w' = Inl (Errorf ''bufio.Scanner: token too long'' [])"
proof -
  obtain w where w: "Wal_OpenWithOptions io_ok [] ''events'' \<lparr>MaxSegmentBytes = 0, wo_SyncMode = SyncAlways\<rparr> = Inr w"
    using wal_open_empty by blast
  have "marshalRecord body_codec (zero_event\<lparr>Body := replicate 65536 (CHR ''x'')\<rparr>) = Inr (replicate 65536 (CHR ''x'') @ [newline])"
    by (simp add: marshalRecord_def body_codec_def)
  from wal_long_record_unreadable [OF this _ _ w] w show ?thesis by (auto simp: newline_def max_scan_token_def)
qed

end
