(* ===== verification/Pipeline.thy ===== *)
theory Pipeline
  imports Core_Model
begin

text \<open>
  Package \<open>internal/engine/pipeline\<close>: the parse pipeline that runs over an event before it is stored.
  A stage that fails leaves the event as it was: every stage of the source checks before it assigns. The JSON
  decoder, the regular expression engine and the parsers of package \<open>time\<close> are parameters, collected in
  \<open>stage_env\<close>; a decoded number carries its \<open>%.6f\<close> rendering, any other value its \<open>%v\<close> rendering.
\<close>

section \<open>Data\<close>

datatype json_value = JString string | JNumber string | JBool bool | JOther string

record 're stage_env =
  se_uni :: "string \<Rightarrow> string"
  se_Unmarshal :: "string \<Rightarrow> (string, json_value) gomap result"
  se_Compile :: "string \<Rightarrow> 're result"
  se_FindStringSubmatch :: "'re \<Rightarrow> string \<Rightarrow> string list option"
  se_SubexpNames :: "'re \<Rightarrow> string list"
  se_ParseRFC3339 :: "string \<Rightarrow> time result"
  se_ParseDuration :: "string \<Rightarrow> duration result"

definition NewProcessor :: parse_stats where
  "NewProcessor = \<lparr>StageErrors = [], DroppedEvents = 0\<rparr>"

section \<open>Helpers\<close>

definition normalizeSeverity :: "(string \<Rightarrow> string) \<Rightarrow> string \<Rightarrow> string" where
  "normalizeSeverity uni v = (let normalized = ToLower uni (TrimSpace v) in
     if normalized = ''warning'' then ''warn'' else normalized)"

fun stringify :: "json_value \<Rightarrow> string" where
  "stringify (JString s) = s"
| "stringify (JNumber f) = TrimRightChars (TrimRightChars f ''0'') ''.''"
| "stringify (JBool b) = (if b then ''true'' else ''false'')"
| "stringify (JOther s) = s"

section \<open>Stages\<close>

definition applyJSONStage :: "'re stage_env \<Rightarrow> event \<Rightarrow> event result" where
  "applyJSONStage env event = (case se_Unmarshal env (Body event) of Inl err \<Rightarrow> Inl err
     | Inr decoded \<Rightarrow> Inr (event\<lparr>ParsedFields :=
         fold (\<lambda>(key, v) m. AList.update key (stringify v) m) decoded (ParsedFields event)\<rparr>))"

definition applyLogfmtStage :: "event \<Rightarrow> event" where
  "applyLogfmtStage event = event\<lparr>ParsedFields :=
     fold (\<lambda>token m. case Cut token ''='' of None \<Rightarrow> m
        | Some (key, v) \<Rightarrow> if key = [] then m else AList.update key (TrimChars v [CHR 0x22]) m)
       (Fields (Body event)) (ParsedFields event)\<rparr>"

text \<open>\<open>FindStringSubmatch\<close> and \<open>SubexpNames\<close> have one entry per group, the whole match first.\<close>

definition applyRegexStage :: "'re stage_env \<Rightarrow> event \<Rightarrow> strmap \<Rightarrow> event result" where
  "applyRegexStage env event config =
     (let pattern = mget config ''pattern'' in
      if pattern = [] then Inl (Errorf ''pattern is required'' []) else
      case se_Compile env pattern of Inl err \<Rightarrow> Inl err | Inr re \<Rightarrow>
      case se_FindStringSubmatch env re (Body event) of None \<Rightarrow> Inr event | Some matches \<Rightarrow>
        Inr (event\<lparr>ParsedFields := fold (\<lambda>(index, name, m) out.
            if index = 0 \<or> name = [] then out else AList.update name m out)
          (List.enumerate (0 :: nat) (zip (se_SubexpNames env re) matches)) (ParsedFields event)\<rparr>))"

definition applyStaticStage :: "event \<Rightarrow> strmap \<Rightarrow> event" where
  "applyStaticStage event config = fold (\<lambda>(key, v) event.
     if starts_with key ''label.'' then event\<lparr>StreamLabels := AList.update (TrimPrefix key ''label.'') v (StreamLabels event)\<rparr>
     else event\<lparr>ParsedFields := AList.update key v (ParsedFields event)\<rparr>) config event"

text \<open>The switch of \<open>applyTimestampStage\<close> over the configured format.\<close>

definition timestamp_of :: "'re stage_env \<Rightarrow> string \<Rightarrow> string \<Rightarrow> time result" where
  "timestamp_of env format v =
     (if format = [] \<or> format = ''rfc3339'' then se_ParseRFC3339 env v
      else if format = ''unix'' \<or> format = ''unix_seconds'' then
        (case se_ParseDuration env (v @ ''s'') of Inl err \<Rightarrow> Inl err
         | Inr seconds \<Rightarrow> Inr (time_Unix (seconds_int64 seconds) 0))
      else if format = ''unix_nano'' then
        (case se_ParseDuration env (v @ ''ns'') of Inl err \<Rightarrow> Inl err | Inr nanos \<Rightarrow> Inr (time_Unix 0 nanos))
      else Inl (Errorf ''unsupported timestamp format %q'' [format]))"

definition applyTimestampStage :: "'re stage_env \<Rightarrow> event \<Rightarrow> strmap \<Rightarrow> event result" where
  "applyTimestampStage env event config =
     (let source = mget config ''source'' in
      if source = [] then Inl (Errorf ''timestamp source is required'' []) else
      let v = mget (ParsedFields event) source in
      if v = [] then Inr event else
      case timestamp_of env (ToLower (se_uni env) (mget config ''format'')) v of
        Inl err \<Rightarrow> Inl err | Inr ts \<Rightarrow> Inr (event\<lparr>Timestamp := ts\<rparr>))"

definition applySeverityStage :: "'re stage_env \<Rightarrow> event \<Rightarrow> strmap \<Rightarrow> event result" where
  "applySeverityStage env event config =
     (let v = mget config ''value'';
          v = (if v = [] then mget (ParsedFields event) (mget config ''source'') else v)
      in if v = [] then Inr event else Inr (event\<lparr>Severity := normalizeSeverity (se_uni env) v\<rparr>))"

text \<open>The switch of \<open>applyFilterStage\<close> over the operator, \<open>None\<close> for an unknown one.\<close>

definition filter_matches :: "string \<Rightarrow> string \<Rightarrow> string \<Rightarrow> bool option" where
  "filter_matches op v expected =
     (if op = ''equals'' then Some (v = expected)
      else if op = ''not_equals'' then Some (v \<noteq> expected)
      else if op = ''contains'' then Some (Contains v expected) else None)"

definition applyFilterStage :: "'re stage_env \<Rightarrow> event \<Rightarrow> strmap \<Rightarrow> event result" where
  "applyFilterStage env event config =
     (let field = mget config ''field'' in
      if field = [] then Inl (Errorf ''filter field is required'' []) else
      let v = firstNonEmpty [mget (ParsedFields event) field, mget (StreamLabels event) field,
                mget (ResourceAttrs event) field, mget (LogAttrs event) field];
          expected = mget config ''value'';
          op = ToLower (se_uni env) (firstNonEmpty [mget config ''op'', ''equals''])
      in case filter_matches op v expected of
           None \<Rightarrow> Inl (Errorf ''unsupported filter op %q'' [op])
         | Some matched \<Rightarrow>
             if matched \<and> ToLower (se_uni env) (firstNonEmpty [mget config ''action'', ''drop'']) = ''drop''
             then Inl ErrDropped else Inr event)"

definition applyRenameStage :: "'re stage_env \<Rightarrow> event \<Rightarrow> strmap \<Rightarrow> event result" where
  "applyRenameStage env event config =
     (let from = mget config ''from''; to = mget config ''to'' in
      if from = [] \<or> to = [] then Inl (Errorf ''rename requires from and to'' []) else
      let target = ToLower (se_uni env) (firstNonEmpty [mget config ''target'', ''parsed'']) in
      if target = ''parsed'' then
        (case map_of (ParsedFields event) from of None \<Rightarrow> Inr event
         | Some v \<Rightarrow> Inr (event\<lparr>ParsedFields := AList.update to v (AList.delete from (ParsedFields event))\<rparr>))
      else if target = ''label'' then
        (case map_of (StreamLabels event) from of None \<Rightarrow> Inr event
         | Some v \<Rightarrow> Inr (event\<lparr>StreamLabels := AList.update to v (AList.delete from (StreamLabels event))\<rparr>))
      else Inl (Errorf ''unsupported rename target %q'' [target]))"

definition applyRedactStage :: "'re stage_env \<Rightarrow> event \<Rightarrow> strmap \<Rightarrow> event result" where
  "applyRedactStage env event config =
     (let field = mget config ''field'' in
      if field = [] then Inl (Errorf ''redact field is required'' []) else
      let replacement = firstNonEmpty [mget config ''replacement'', ''[REDACTED]''];
          target = ToLower (se_uni env) (firstNonEmpty [mget config ''target'', ''parsed''])
      in if target = ''parsed'' then
           (if map_of (ParsedFields event) field \<noteq> None
            then Inr (event\<lparr>ParsedFields := AList.update field replacement (ParsedFields event)\<rparr>) else Inr event)
         else if target = ''body'' then
           (if Contains (Body event) field then Inr (event\<lparr>Body := ReplaceAll (Body event) field replacement\<rparr>) else Inr event)
         else Inl (Errorf ''unsupported redact target %q'' [target]))"

definition applyStage :: "'re stage_env \<Rightarrow> event \<Rightarrow> pipeline_stage \<Rightarrow> event result" where
  "applyStage env event stage =
     (let ty = st_Type stage; config = st_Config stage in
      if ty = ''json'' then applyJSONStage env event
      else if ty = ''logfmt'' then Inr (applyLogfmtStage event)
      else if ty = ''regex'' then applyRegexStage env event config
      else if ty = ''static'' then Inr (applyStaticStage event config)
      else if ty = ''timestamp'' then applyTimestampStage env event config
      else if ty = ''severity'' then applySeverityStage env event config
      else if ty = ''filter'' then applyFilterStage env event config
      else if ty = ''rename'' then applyRenameStage env event config
      else if ty = ''redact'' then applyRedactStage env event config
      else Inl (Errorf ''unsupported stage type %q'' [ty]))"

section \<open>Label promotion\<close>

definition applyPromotionPolicy :: "event \<Rightarrow> tenant_config \<Rightarrow> event" where
  "applyPromotionPolicy event tenant =
     (let event = fold (\<lambda>key event.
            let v = firstNonEmpty [mget (StreamLabels event) key, mget (ParsedFields event) key,
                  mget (ResourceAttrs event) key, mget (LogAttrs event) key]
            in if v \<noteq> [] then event\<lparr>StreamLabels := AList.update key v (StreamLabels event)\<rparr> else event)
          (t_ReservedLabels tenant) event;
          event = fold (\<lambda>(key, v) event.
            if key \<in> set (t_LabelPromotionDeny tenant) then event
            else if key \<in> set (t_LabelPromotionAllow tenant) \<and> mget (StreamLabels event) key = []
            then event\<lparr>StreamLabels := AList.update key v (StreamLabels event)\<rparr> else event)
          (ParsedFields event) event
      in if Severity event \<noteq> [] \<and> mget (StreamLabels event) ''severity'' = []
         then event\<lparr>StreamLabels := AList.update ''severity'' (Severity event) (StreamLabels event)\<rparr> else event)"

section \<open>The processor\<close>

definition recordStageError :: "parse_stats \<Rightarrow> string \<Rightarrow> parse_stats" where
  "recordStageError stats name = stats\<lparr>StageErrors :=
     AList.update name ((case map_of (StageErrors stats) name of None \<Rightarrow> 0 | Some n \<Rightarrow> n) + 1) (StageErrors stats)\<rparr>"

definition recordDropped :: "parse_stats \<Rightarrow> parse_stats" where
  "recordDropped stats = stats\<lparr>DroppedEvents := DroppedEvents stats + 1\<rparr>"

text \<open>
  The loop of \<open>Process\<close>: \<open>Inl\<close> a failure, \<open>Inr (True, e)\<close> an event to drop, \<open>Inr (False, e)\<close> an
  event that went through all stages.
\<close>

fun run_stages :: "'re stage_env \<Rightarrow> pipeline_stage list \<Rightarrow> event \<Rightarrow> parse_stats \<Rightarrow> (bool \<times> event) result \<times> parse_stats" where
  "run_stages env [] event stats = (Inr (False, event), stats)"
| "run_stages env (stage # stages) event stats =
     (case applyStage env event stage of
        Inr event \<Rightarrow> run_stages env stages event stats
      | Inl err \<Rightarrow>
          let stats = recordStageError stats (st_Name stage) in
          if errors_is err ErrDropped then
            (Inr (True, event\<lparr>LogAttrs := AList.update ''_pipeline_drop'' ''true'' (LogAttrs event)\<rparr>), recordDropped stats)
          else if mget (st_Config stage) ''ignore_error'' = ''true'' then run_stages env stages event stats
          else (Inl (Wrap ''%s stage %q failed: %w'' [st_Type stage, st_Name stage] err), stats))"

definition Process ::
  "'re stage_env \<Rightarrow> tenant_config \<Rightarrow> event \<Rightarrow> parse_pipeline \<Rightarrow> parse_stats \<Rightarrow> event result \<times> parse_stats" where
  "Process env tenant event pipeline stats =
     (case run_stages env (pl_Stages pipeline) (Event_Clone event) stats of
        (Inl err, stats) \<Rightarrow> (Inl err, stats)
      | (Inr (True, event), stats) \<Rightarrow> (Inr event, stats)
      | (Inr (False, event), stats) \<Rightarrow>
          let event = applyPromotionPolicy event tenant in
          case Event_Validate event of Some err \<Rightarrow> (Inl err, stats) | None \<Rightarrow> (Inr event, stats))"

definition Processor_Stats :: "parse_stats \<Rightarrow> parse_stats" where
  "Processor_Stats stats = \<lparr>StageErrors = fold (\<lambda>(k, v) out. AList.update k v out) (StageErrors stats) [],
     DroppedEvents = DroppedEvents stats\<rparr>"

section \<open>What stages leave alone\<close>

text \<open>The parts of an event no stage and no promotion touches.\<close>

definition same_origin :: "event \<Rightarrow> event \<Rightarrow> bool" where
  "same_origin e e' \<longleftrightarrow> TenantID e' = TenantID e \<and> ResourceAttrs e' = ResourceAttrs e \<and>
     TraceID e' = TraceID e \<and> SpanID e' = SpanID e"

lemma same_origin_refl [simp]: "same_origin e e"
  by (simp add: same_origin_def)

lemma same_origin_trans: "same_origin a b \<Longrightarrow> same_origin b c \<Longrightarrow> same_origin a c"
  by (simp add: same_origin_def)

lemma wf_map_fold: "(\<And>x m. wf_map m \<Longrightarrow> wf_map (f x m)) \<Longrightarrow> wf_map m \<Longrightarrow> wf_map (fold f xs m)"
  by (rule fold_inv [where P = wf_map]) auto

lemma static_frame:
  "same_origin e (applyStaticStage e config) \<and> LogAttrs (applyStaticStage e config) = LogAttrs e \<and>
   Body (applyStaticStage e config) = Body e \<and> (wf_event e \<longrightarrow> wf_event (applyStaticStage e config))"
  unfolding applyStaticStage_def
  by (rule fold_inv) (simp_all add: same_origin_def wf_event_def split: prod.splits)

lemma stage_frame:
  assumes "applyStage env e stage = Inr e'"
  shows "same_origin e e' \<and> LogAttrs e' = LogAttrs e \<and> (st_Type stage \<noteq> ''redact'' \<longrightarrow> Body e' = Body e) \<and> (wf_event e \<longrightarrow> wf_event e')"
proof -
  have json: "applyJSONStage env e = Inr e' \<Longrightarrow> ?thesis"
    by (auto simp: applyJSONStage_def same_origin_def wf_event_def intro!: wf_map_fold split: sum.splits)
  have logfmt: "same_origin e (applyLogfmtStage e) \<and> LogAttrs (applyLogfmtStage e) = LogAttrs e \<and>
      Body (applyLogfmtStage e) = Body e \<and> (wf_event e \<longrightarrow> wf_event (applyLogfmtStage e))"
    by (auto simp: applyLogfmtStage_def same_origin_def wf_event_def intro!: wf_map_fold split: option.splits)
  have regex: "applyRegexStage env e config = Inr e' \<Longrightarrow> ?thesis" for config
    by (auto simp: applyRegexStage_def same_origin_def wf_event_def Let_def intro!: wf_map_fold
        split: sum.splits option.splits if_splits)
  have time: "applyTimestampStage env e config = Inr e' \<Longrightarrow> ?thesis" for config
    by (auto simp: applyTimestampStage_def same_origin_def wf_event_def Let_def split: sum.splits if_splits)
  have sev: "applySeverityStage env e config = Inr e' \<Longrightarrow> ?thesis" for config
    by (auto simp: applySeverityStage_def same_origin_def wf_event_def Let_def split: if_splits)
  have filt: "applyFilterStage env e config = Inr e' \<Longrightarrow> e' = e" for config
    by (auto simp: applyFilterStage_def Let_def split: option.splits if_splits)
  have ren: "applyRenameStage env e config = Inr e' \<Longrightarrow> ?thesis" for config
    by (clarsimp simp add: applyRenameStage_def same_origin_def wf_event_def Let_def split: option.splits if_splits)
  have red: "applyRedactStage env e config = Inr e' \<Longrightarrow> same_origin e e' \<and> LogAttrs e' = LogAttrs e \<and> (wf_event e \<longrightarrow> wf_event e')" for config
    by (clarsimp simp add: applyRedactStage_def same_origin_def wf_event_def Let_def split: option.splits if_splits)
  let ?c = "st_Config stage"
  have "applyJSONStage env e = Inr e' \<or> e' = applyLogfmtStage e \<or> applyRegexStage env e ?c = Inr e' \<or>
      e' = applyStaticStage e ?c \<or> applyTimestampStage env e ?c = Inr e' \<or> applySeverityStage env e ?c = Inr e' \<or>
      applyFilterStage env e ?c = Inr e' \<or> applyRenameStage env e ?c = Inr e' \<or>
      st_Type stage = ''redact'' \<and> applyRedactStage env e ?c = Inr e'"
    using assms by (simp add: applyStage_def Let_def split: if_splits)
  moreover have "e' = applyLogfmtStage e \<Longrightarrow> ?thesis" using logfmt by simp
  moreover have "e' = applyStaticStage e ?c \<Longrightarrow> ?thesis" using static_frame [of e ?c] by simp
  moreover have "applyFilterStage env e ?c = Inr e' \<Longrightarrow> ?thesis" using filt [of ?c] by simp
  moreover have "st_Type stage = ''redact'' \<and> applyRedactStage env e ?c = Inr e' \<Longrightarrow> ?thesis" using red [of ?c] by simp
  ultimately show ?thesis using json regex [of ?c] time [of ?c] sev [of ?c] ren [of ?c] by argo
qed

lemma run_stages_frame:
  assumes "run_stages env stages e stats = (Inr (dropped, e'), stats')" and "wf_event e"
  shows "same_origin e e' \<and> wf_event e' \<and> (\<not> dropped \<longrightarrow> LogAttrs e' = LogAttrs e) \<and>
    (list_all (\<lambda>s. st_Type s \<noteq> ''redact'') stages \<longrightarrow> Body e' = Body e)"
  using assms
proof (induction stages arbitrary: e stats)
  case Nil
  then show ?case by simp
next
  case (Cons stage stages)
  show ?case
  proof (cases "applyStage env e stage")
    case (Inr e1)
    then show ?thesis
      using Cons.IH [of e1 stats] Cons.prems stage_frame [OF Inr] by (auto intro: same_origin_trans)
  next
    case (Inl err)
    show ?thesis
    proof (cases "errors_is err ErrDropped")
      case True
      then show ?thesis using Inl Cons.prems by (auto simp: Let_def same_origin_def wf_event_def)
    next
      case False
      then show ?thesis
        using Inl Cons.prems Cons.IH [of e "recordStageError stats (st_Name stage)"] by (auto simp: Let_def split: if_splits)
    qed
  qed
qed

lemma dropped_marked:
  "run_stages env stages e stats = (Inr (True, e'), stats') \<Longrightarrow> mget (LogAttrs e') ''_pipeline_drop'' = ''true''"
  by (induction env stages e stats rule: run_stages.induct) (auto simp: Let_def split: sum.splits if_splits)

section \<open>What promotion adds\<close>

lemma firstNonEmpty_in: "firstNonEmpty vs \<noteq> [] \<Longrightarrow> firstNonEmpty vs \<in> set vs \<and> TrimSpace (firstNonEmpty vs) \<noteq> []"
  by (induction vs) auto

text \<open>One promotion step: a label that is there stays, and only the given key may be added.\<close>

definition promotes :: "string set \<Rightarrow> event \<Rightarrow> event \<Rightarrow> bool" where
  "promotes ks e e' \<longleftrightarrow> same_origin e e' \<and> LogAttrs e' = LogAttrs e \<and> Body e' = Body e \<and> ParsedFields e' = ParsedFields e \<and>
     Severity e' = Severity e \<and> Timestamp e' = Timestamp e \<and> (wf_event e \<longrightarrow> wf_event e') \<and>
     fst ` set (StreamLabels e') \<subseteq> fst ` set (StreamLabels e) \<union> ks \<and>
     (\<forall>k. TrimSpace (mget (StreamLabels e) k) \<noteq> [] \<longrightarrow> mget (StreamLabels e') k = mget (StreamLabels e) k)"

lemma promotes_refl [simp]: "promotes ks e e"
  by (simp add: promotes_def)

lemma promotes_trans:
  assumes "promotes ks a b" and "promotes ks b c"
  shows "promotes ks a c"
proof -
  have "fst ` set (StreamLabels c) \<subseteq> fst ` set (StreamLabels a) \<union> ks" using assms unfolding promotes_def by blast
  moreover have "same_origin a c" using assms by (simp add: promotes_def same_origin_def)
  ultimately show ?thesis using assms unfolding promotes_def by simp
qed

lemma promotes_mono: "promotes ks a b \<Longrightarrow> ks \<subseteq> ks' \<Longrightarrow> promotes ks' a b"
  unfolding promotes_def by blast

lemma promotes_update:
  assumes "k \<in> ks" and "TrimSpace (mget (StreamLabels e) k) \<noteq> [] \<Longrightarrow> v = mget (StreamLabels e) k"
  shows "promotes ks e (e\<lparr>StreamLabels := AList.update k v (StreamLabels e)\<rparr>)"
  using assms by (auto simp: promotes_def same_origin_def wf_event_def mget_update AList.dom_update)

lemma promotes_fold:
  assumes "\<And>x e. x \<in> set xs \<Longrightarrow> promotes ks e (f x e)"
  shows "promotes ks e (fold f xs e)"
  using assms by (induction xs arbitrary: e) (auto intro: promotes_trans)

lemma TrimSpace_Nil [simp]: "TrimSpace [] = []"
  by (simp add: TrimSpace_def)

lemma promotion_adds:
  "promotes (set (t_ReservedLabels tenant) \<union> (set (t_LabelPromotionAllow tenant) - set (t_LabelPromotionDeny tenant)) \<union> {''severity''})
     e (applyPromotionPolicy e tenant)"
proof -
  let ?ks = "set (t_ReservedLabels tenant) \<union> (set (t_LabelPromotionAllow tenant) - set (t_LabelPromotionDeny tenant)) \<union> {''severity''}"
  define e1 where "e1 = fold (\<lambda>key event.
            let v = firstNonEmpty [mget (StreamLabels event) key, mget (ParsedFields event) key,
                  mget (ResourceAttrs event) key, mget (LogAttrs event) key]
            in if v \<noteq> [] then event\<lparr>StreamLabels := AList.update key v (StreamLabels event)\<rparr> else event)
          (t_ReservedLabels tenant) e"
  define e2 where "e2 = fold (\<lambda>(key, v) event.
            if key \<in> set (t_LabelPromotionDeny tenant) then event
            else if key \<in> set (t_LabelPromotionAllow tenant) \<and> mget (StreamLabels event) key = []
            then event\<lparr>StreamLabels := AList.update key v (StreamLabels event)\<rparr> else event)
          (ParsedFields e1) e1"
  have 1: "promotes ?ks e e1"
    unfolding e1_def by (rule promotes_fold) (auto simp: Let_def intro!: promotes_update)
  have 2: "promotes ?ks e1 e2"
    unfolding e2_def by (rule promotes_fold) (auto intro!: promotes_update)
  have p: "applyPromotionPolicy e tenant = (if Severity e2 \<noteq> [] \<and> mget (StreamLabels e2) ''severity'' = []
      then e2\<lparr>StreamLabels := AList.update ''severity'' (Severity e2) (StreamLabels e2)\<rparr> else e2)"
    by (simp only: applyPromotionPolicy_def Let_def e1_def [unfolded Let_def, symmetric] e2_def [symmetric])
  have "promotes ?ks e2 (applyPromotionPolicy e tenant)"
    unfolding p by (auto intro!: promotes_update)
  then show ?thesis using promotes_trans [OF 1 promotes_trans [OF 2]] by blast
qed

section \<open>Redaction\<close>

lemma starts_with_Cons: "starts_with (c # cs) (x # xs) \<longleftrightarrow> c = x \<and> starts_with cs xs"
  by (auto simp: starts_with_def)

lemma ReplaceAll_prefix:
  assumes "new \<noteq> []" and "set p \<inter> set new = {}" and "starts_with (ReplaceAll s old new) p"
  shows "starts_with s p"
  using assms
proof (induction s old new arbitrary: p rule: ReplaceAll.induct)
  case (1 old new)
  then show ?case by simp
next
  case (2 c cs old new)
  show ?case
  proof (cases p)
    case Nil
    then show ?thesis by simp
  next
    case (Cons x xs)
    show ?thesis
    proof (cases "old \<noteq> [] \<and> starts_with (c # cs) old")
      case True
      obtain n ns where "new = n # ns" using "2.prems"(1) by (cases new) auto
      then show ?thesis using True "2.prems" Cons by (auto simp: starts_with_Cons)
    next
      case False
      then show ?thesis using "2.IH"(2) [OF False, of xs] "2.prems" Cons by (auto simp: starts_with_Cons)
    qed
  qed
qed

lemma Contains_append_disjoint:
  assumes "set t \<inter> set a = {}" and "t \<noteq> []"
  shows "Contains (a @ b) t \<longleftrightarrow> Contains b t"
  using assms(1)
proof (induction a)
  case Nil
  then show ?case by simp
next
  case (Cons x a)
  then show ?case using assms(2) by (cases t) (auto simp: starts_with_Cons)
qed

text \<open>No occurrence of the old string is left, and none is created across a replacement.\<close>

lemma ReplaceAll_removes:
  assumes "old \<noteq> []" and "new \<noteq> []" and "set old \<inter> set new = {}"
  shows "\<not> Contains (ReplaceAll s old new) old"
  using assms
proof (induction s old new rule: ReplaceAll.induct)
  case (1 old new)
  then show ?case by simp
next
  case (2 c cs old new)
  show ?case
  proof (cases "starts_with (c # cs) old")
    case True
    then show ?thesis using "2.IH"(1) "2.prems" by (simp add: Contains_append_disjoint)
  next
    case False
    then have "\<not> starts_with (c # ReplaceAll cs old new) old"
      using ReplaceAll_prefix [of new _ cs old] "2.prems" by (cases old) (auto simp: starts_with_Cons)
    then show ?thesis using False "2.IH"(2) "2.prems" by simp
  qed
qed

lemma Process_frame:
  assumes "wf_event event" and "Process env tenant event pl stats = (Inr e, stats')"
  shows "TenantID e = TenantID event \<and> ResourceAttrs e = ResourceAttrs event \<and> TraceID e = TraceID event \<and>
    SpanID e = SpanID event \<and> wf_event e \<and> (mget (LogAttrs e) ''_pipeline_drop'' \<noteq> ''true'' \<longrightarrow> Event_Validate e = None) \<and>
    (list_all (\<lambda>s. st_Type s \<noteq> ''redact'') (pl_Stages pl) \<longrightarrow> Body e = Body event)"
proof -
  obtain r st where r: "run_stages env (pl_Stages pl) event stats = (r, st)" by (metis surj_pair)
  show ?thesis
  proof (cases r)
    case (Inl err)
    then show ?thesis using assms r by (simp add: Process_def)
  next
    case (Inr de)
    obtain d e0 where de: "de = (d, e0)" by (cases de)
    have f: "same_origin event e0 \<and> wf_event e0 \<and> (\<not> d \<longrightarrow> LogAttrs e0 = LogAttrs event) \<and>
        (list_all (\<lambda>s. st_Type s \<noteq> ''redact'') (pl_Stages pl) \<longrightarrow> Body e0 = Body event)"
      using run_stages_frame [of env "pl_Stages pl" event stats d e0 st] r Inr de assms(1) by simp
    show ?thesis
    proof (cases d)
      case True
      have "mget (LogAttrs e0) ''_pipeline_drop'' = ''true''"
        using dropped_marked [of env "pl_Stages pl" event stats e0 st] r Inr de True by simp
      then show ?thesis using True f assms r Inr de by (simp add: Process_def same_origin_def)
    next
      case False
      have p: "promotes UNIV e0 (applyPromotionPolicy e0 tenant)" using promotion_adds promotes_mono by blast
      have "e = applyPromotionPolicy e0 tenant" "Event_Validate e = None"
        using False assms r Inr de by (auto simp: Process_def Let_def split: option.splits)
      then show ?thesis using p f by (auto simp: promotes_def same_origin_def)
    qed
  qed
qed

section \<open>Properties\<close>

text \<open>
  The pipeline never moves an event: whatever the stages do, a processed event keeps the tenant,
  the resource attributes, and the trace and span ids of the event that came in; its maps are maps; unless it was
  dropped it is valid; and its body is the one that came in unless some stage redacts.
\<close>

theorem process_preserves_origin:
  assumes "wf_event event" and "Process env tenant event pl stats = (Inr e, stats')"
  shows "TenantID e = TenantID event \<and> ResourceAttrs e = ResourceAttrs event \<and> TraceID e = TraceID event \<and>
    SpanID e = SpanID event \<and> wf_event e \<and> (mget (LogAttrs e) ''_pipeline_drop'' \<noteq> ''true'' \<longrightarrow> Event_Validate e = None) \<and>
    (list_all (\<lambda>s. st_Type s \<noteq> ''redact'') (pl_Stages pl) \<longrightarrow> Body e = Body event)"
  using assms by (rule Process_frame)

definition sample_tenant :: tenant_config where
  "sample_tenant = \<lparr>t_ID = ''t'', t_Name = ''Tenant'', t_Version = 1, t_UpdatedAt = 0, t_Protected = False, t_LegalHoldUntil = 0,
     t_SearchableFields = [], t_ReservedLabels = [''svc''], t_LabelPromotionAllow = [''env'', ''user''],
     t_LabelPromotionDeny = [''user''], t_StructuredFieldPolicy = [], t_Pipelines = [], t_ActivePipelineID = [],
     t_Limits = sample_limits\<rparr>"

definition sample_stage_env :: "string stage_env" where
  "sample_stage_env = \<lparr>se_uni = id, se_Unmarshal = (\<lambda>_. Inl (Errorf ''invalid character'' [])), se_Compile = Inr,
     se_FindStringSubmatch = (\<lambda>_ _. None), se_SubexpNames = (\<lambda>_. []), se_ParseRFC3339 = (\<lambda>_. Inr 5),
     se_ParseDuration = (\<lambda>_. Inr 0)\<rparr>"

definition sample_pipeline :: parse_pipeline where
  "sample_pipeline = \<lparr>pl_ID = ''p'', pl_Description = [], pl_Stages =
     [\<lparr>st_Name = ''json'', st_Type = ''json'', st_Config = [(''ignore_error'', ''true'')]\<rparr>,
      \<lparr>st_Name = ''logfmt'', st_Type = ''logfmt'', st_Config = []\<rparr>]\<rparr>"

definition sample_raw :: event where
  "sample_raw = zero_event\<lparr>Timestamp := 7, TenantID := ''t'', Body := ''env=p user=ann svc=a''\<rparr>"

lemma sample_process:
  "\<exists>e st. Process sample_stage_env sample_tenant sample_raw sample_pipeline NewProcessor = (Inr e, st) \<and>
     StreamLabels e = [(''svc'', ''a''), (''env'', ''p'')] \<and> mget (LogAttrs e) ''_pipeline_drop'' = []"
proof -
  define r where "r = Process sample_stage_env sample_tenant sample_raw sample_pipeline NewProcessor"
  have "\<not> isl (fst r) \<and> StreamLabels (projr (fst r)) = [(''svc'', ''a''), (''env'', ''p'')] \<and>
      mget (LogAttrs (projr (fst r))) ''_pipeline_drop'' = []"
    unfolding r_def by code_simp
  then show ?thesis unfolding r_def by (metis prod.collapse sum.collapse(2))
qed

lemma sample_raw_wf [simp]: "wf_event sample_raw"
  by (simp add: sample_raw_def wf_event_def zero_event_def)

theorem process_preserves_origin_witness:
  "\<exists>e st. Process sample_stage_env sample_tenant sample_raw sample_pipeline NewProcessor = (Inr e, st) \<and>
     TenantID e = ''t'' \<and> Event_Validate e = None"
proof -
  obtain e st where e: "Process sample_stage_env sample_tenant sample_raw sample_pipeline NewProcessor = (Inr e, st)"
      "mget (LogAttrs e) ''_pipeline_drop'' = []"
    using sample_process by blast
  then show ?thesis using process_preserves_origin [OF sample_raw_wf e(1)] by (simp add: sample_raw_def)
qed

text \<open>
  Promotion respects the tenant's policy: the labels of the promoted event are those it had, the reserved
  ones, the allowed ones that are not denied, and the severity; and a label that already had a
  nonblank value keeps it.
\<close>

theorem promotion_policy_respected:
  "fst ` set (StreamLabels (applyPromotionPolicy e tenant)) \<subseteq> fst ` set (StreamLabels e) \<union> set (t_ReservedLabels tenant) \<union>
     {k. k \<in> set (t_LabelPromotionAllow tenant) \<and> k \<notin> set (t_LabelPromotionDeny tenant)} \<union> {''severity''} \<and>
   (TrimSpace (mget (StreamLabels e) k) \<noteq> [] \<longrightarrow>
      mget (StreamLabels (applyPromotionPolicy e tenant)) k = mget (StreamLabels e) k)"
  using promotion_adds [of tenant e] unfolding promotes_def by blast

theorem promotion_policy_respected_witness:
  "mget (StreamLabels (applyPromotionPolicy (sample_raw\<lparr>StreamLabels := [(''svc'', ''x'')], ParsedFields := [(''svc'', ''y'')]\<rparr>) sample_tenant)) ''svc'' = ''x''"
proof -
  have "TrimSpace ''x'' \<noteq> []" by code_simp
  then show ?thesis
    using promotion_policy_respected [of "sample_raw\<lparr>StreamLabels := [(''svc'', ''x'')], ParsedFields := [(''svc'', ''y'')]\<rparr>" sample_tenant "''svc''"]
    by (simp add: mget_def)
qed

text \<open>
  C29. Redaction removes the secret: a body redaction whose replacement shares no character with the
  secret leaves no occurrence of it in the body, not even one formed across a replacement.
\<close>

theorem redaction_removes_secret:
  assumes "applyRedactStage env event config = Inr e" and "ToLower (se_uni env) (firstNonEmpty [mget config ''target'', ''parsed'']) = ''body''"
    and "set (mget config ''field'') \<inter> set (firstNonEmpty [mget config ''replacement'', ''[REDACTED]'']) = {}"
  shows "\<not> Contains (Body e) (mget config ''field'')"
proof -
  let ?new = "firstNonEmpty [mget config ''replacement'', ''[REDACTED]'']"
  have "TrimSpace ''[REDACTED]'' \<noteq> []" by code_simp
  then have "?new \<noteq> []" by auto
  moreover have ne: "mget config ''field'' \<noteq> []" using assms(1) by (auto simp: applyRedactStage_def)
  ultimately have "\<not> Contains (ReplaceAll (Body event) (mget config ''field'') ?new) (mget config ''field'')"
    using assms(3) by (intro ReplaceAll_removes)
  moreover have "(if Contains (Body event) (mget config ''field'') then Inr (event\<lparr>Body := ReplaceAll (Body event) (mget config ''field'') ?new\<rparr>)
      else Inr event) = Inr e"
    using assms(1) ne unfolding applyRedactStage_def Let_def assms(2) by (simp del: firstNonEmpty.simps split: if_splits)
  ultimately show ?thesis by (cases "Contains (Body event) (mget config ''field'')") auto
qed

theorem redaction_removes_secret_witness:
  "\<exists>e. applyRedactStage sample_stage_env sample_raw [(''target'', ''body''), (''field'', ''ann''), (''replacement'', ''***'')] = Inr e \<and>
     \<not> Contains (Body e) ''ann''"
proof -
  let ?c = "[(''target'', ''body''), (''field'', ''ann''), (''replacement'', ''***'')]"
  define r where "r = applyRedactStage sample_stage_env sample_raw ?c"
  have "\<not> isl r" unfolding r_def by code_simp
  then obtain e where e: "applyRedactStage sample_stage_env sample_raw ?c = Inr e" unfolding r_def by (metis sum.collapse(2))
  have t: "ToLower (se_uni sample_stage_env) (firstNonEmpty [mget ?c ''target'', ''parsed'']) = ''body''" by code_simp
  have d: "set (mget ?c ''field'') \<inter> set (firstNonEmpty [mget ?c ''replacement'', ''[REDACTED]'']) = {}" by code_simp
  show ?thesis using redaction_removes_secret [OF e t d] e by (simp add: mget_def)
qed

end
