(* ===== verification/Quota.thy ===== *)
theory Quota
  imports Go_Prelude
begin

text \<open>
  Package \<open>internal/engine/quota\<close>: the per-tenant limit on concurrent queries. A gate is a buffered
  channel; here it is a number, with its capacity and the values it holds. Goroutines interleave between the
  locked lookup of the gate and the send, so the limiter is a transition system: a call of
  \<open>TryAcquire\<close> is a \<open>lookup\<close> step and a \<open>send\<close> step, a \<open>release\<close> takes a value out of the gate again; with a limit
  of zero or less it is one step that grants a permit without a gate, whose release does nothing. The last three fields
  record what the goroutines are doing: who has looked up a gate, who holds a permit of a gate and who holds one without.
\<close>

section \<open>State\<close>

record limiter =
  l_gates :: "(string, nat) gomap"
  l_cap :: "(nat, int) gomap"
  l_len :: "nat \<Rightarrow> nat"
  l_next :: nat
  l_pending :: "(string \<times> nat) list"
  l_held :: "(string \<times> nat) list"
  l_unlimited :: "string list"

definition NewConcurrencyLimiter :: limiter where
  "NewConcurrencyLimiter = \<lparr>l_gates = [], l_cap = [], l_len = (\<lambda>_. 0), l_next = 0, l_pending = [], l_held = [], l_unlimited = []\<rparr>"

definition gate_cap :: "limiter \<Rightarrow> nat \<Rightarrow> int" where
  "gate_cap l g = (case map_of (l_cap l) g of None \<Rightarrow> 0 | Some c \<Rightarrow> c)"

section \<open>Operations\<close>

text \<open>The locked part of \<open>TryAcquire\<close>: the tenant's gate, made anew when the limit differs.\<close>

definition TryAcquire_lookup :: "limiter \<Rightarrow> string \<Rightarrow> int \<Rightarrow> nat \<times> limiter" where
  "TryAcquire_lookup l tenantID limit =
     (case map_of (l_gates l) tenantID of
        Some gate \<Rightarrow> if gate_cap l gate \<noteq> limit
          then (l_next l, l\<lparr>l_gates := AList.update tenantID (l_next l) (l_gates l), l_cap := AList.update (l_next l) limit (l_cap l),
                  l_next := l_next l + 1\<rparr>)
          else (gate, l)
      | None \<Rightarrow> (l_next l, l\<lparr>l_gates := AList.update tenantID (l_next l) (l_gates l), l_cap := AList.update (l_next l) limit (l_cap l),
                  l_next := l_next l + 1\<rparr>))"

text \<open>The non-blocking send: a full gate refuses.\<close>

definition TryAcquire_send :: "limiter \<Rightarrow> nat \<Rightarrow> goerror option \<times> limiter" where
  "TryAcquire_send l gate =
     (if int (l_len l gate) < gate_cap l gate then (None, l\<lparr>l_len := (l_len l)(gate := l_len l gate + 1)\<rparr>)
      else (Some ErrQueryConcurrencyExceeded, l))"

definition release :: "limiter \<Rightarrow> nat \<Rightarrow> limiter" where
  "release l gate = l\<lparr>l_len := (l_len l)(gate := l_len l gate - 1)\<rparr>"

text \<open>A whole call with no other goroutine in between: \<open>Inr None\<close> is the unlimited permit.\<close>

definition TryAcquire :: "limiter \<Rightarrow> string \<Rightarrow> int \<Rightarrow> nat option result \<times> limiter" where
  "TryAcquire l tenantID limit =
     (if limit \<le> 0 then (Inr None, l)
      else let (gate, l) = TryAcquire_lookup l tenantID limit in
        case TryAcquire_send l gate of (None, l) \<Rightarrow> (Inr (Some gate), l) | (Some err, l) \<Rightarrow> (Inl err, l))"

definition WithTenantLimit :: "limiter \<Rightarrow> string \<Rightarrow> int \<Rightarrow> (limiter \<Rightarrow> goerror option \<times> limiter) \<Rightarrow> goerror option \<times> limiter" where
  "WithTenantLimit l tenantID limit fn =
     (case TryAcquire l tenantID limit of
        (Inl err, l) \<Rightarrow> (Some err, l)
      | (Inr permit, l) \<Rightarrow> (case fn l of (err, l) \<Rightarrow> (err, case permit of None \<Rightarrow> l | Some gate \<Rightarrow> release l gate)))"

section \<open>Interleavings\<close>

text \<open>
  \<open>lims\<close> gives the limit each tenant's callers pass. A refused send leaves no permit; a permit that is held is
  released once. \<open>TryAcquire\<close> returns the permit without a gate when the limit is zero or less.
\<close>

inductive lstep :: "(string \<Rightarrow> int) \<Rightarrow> limiter \<Rightarrow> limiter \<Rightarrow> bool" for lims where
  lookup: "0 < lims tenant \<Longrightarrow> TryAcquire_lookup l tenant (lims tenant) = (gate, l') \<Longrightarrow>
     lstep lims l (l'\<lparr>l_pending := (tenant, gate) # l_pending l'\<rparr>)"
| sent: "(tenant, gate) \<in> set (l_pending l) \<Longrightarrow> TryAcquire_send l gate = (None, l') \<Longrightarrow>
     lstep lims l (l'\<lparr>l_pending := remove1 (tenant, gate) (l_pending l'), l_held := (tenant, gate) # l_held l'\<rparr>)"
| refused: "(tenant, gate) \<in> set (l_pending l) \<Longrightarrow> TryAcquire_send l gate = (Some err, l') \<Longrightarrow>
     lstep lims l (l'\<lparr>l_pending := remove1 (tenant, gate) (l_pending l')\<rparr>)"
| released: "(tenant, gate) \<in> set (l_held l) \<Longrightarrow>
     lstep lims l ((release l gate)\<lparr>l_held := remove1 (tenant, gate) (l_held l)\<rparr>)"
| unlimited: "TryAcquire l tenant (lims tenant) = (Inr None, l') \<Longrightarrow>
     lstep lims l (l'\<lparr>l_unlimited := tenant # l_unlimited l'\<rparr>)"
| forgotten: "tenant \<in> set (l_unlimited l) \<Longrightarrow>
     lstep lims l (l\<lparr>l_unlimited := remove1 tenant (l_unlimited l)\<rparr>)"

inductive lreach :: "(string \<Rightarrow> int) \<Rightarrow> limiter \<Rightarrow> bool" for lims where
  start: "lreach lims NewConcurrencyLimiter"
| move: "lreach lims l \<Longrightarrow> lstep lims l l' \<Longrightarrow> lreach lims l'"

inductive_cases lstep_cases: "lstep lims l l'"

section \<open>The invariant\<close>

text \<open>
  A gate holds one value per permit, never more than its capacity, and every goroutine of a tenant
  uses the tenant's current gate, whose capacity is the tenant's limit.
\<close>

definition len_ok :: "limiter \<Rightarrow> bool" where
  "len_ok l \<longleftrightarrow> (\<forall>g. l_len l g = length (filter (\<lambda>p. snd p = g) (l_held l)))"

definition cap_ok :: "limiter \<Rightarrow> bool" where
  "cap_ok l \<longleftrightarrow> (\<forall>g. int (l_len l g) \<le> max 0 (gate_cap l g))"

definition gates_ok :: "(string \<Rightarrow> int) \<Rightarrow> limiter \<Rightarrow> bool" where
  "gates_ok lims l \<longleftrightarrow> (\<forall>t g. map_of (l_gates l) t = Some g \<longrightarrow> gate_cap l g = lims t \<and> g < l_next l)"

definition fresh_ok :: "limiter \<Rightarrow> bool" where
  "fresh_ok l \<longleftrightarrow> (\<forall>g \<ge> l_next l. map_of (l_cap l) g = None)"

definition use_ok :: "limiter \<Rightarrow> bool" where
  "use_ok l \<longleftrightarrow> (\<forall>(t, g) \<in> set (l_pending l) \<union> set (l_held l). map_of (l_gates l) t = Some g)"

definition unlimited_ok :: "(string \<Rightarrow> int) \<Rightarrow> limiter \<Rightarrow> bool" where
  "unlimited_ok lims l \<longleftrightarrow> (\<forall>t \<in> set (l_unlimited l). lims t \<le> 0)"

definition linv :: "(string \<Rightarrow> int) \<Rightarrow> limiter \<Rightarrow> bool" where
  "linv lims l \<longleftrightarrow> len_ok l \<and> cap_ok l \<and> gates_ok lims l \<and> fresh_ok l \<and> use_ok l \<and> unlimited_ok lims l"

lemmas linv_defs = linv_def len_ok_def cap_ok_def gates_ok_def fresh_ok_def use_ok_def unlimited_ok_def

lemma gate_cap_simps [simp]:
  "gate_cap (l\<lparr>l_pending := p\<rparr>) = gate_cap l" "gate_cap (l\<lparr>l_held := h\<rparr>) = gate_cap l"
  "gate_cap (l\<lparr>l_len := n\<rparr>) = gate_cap l" "gate_cap (l\<lparr>l_unlimited := u\<rparr>) = gate_cap l"
  by (simp_all add: gate_cap_def fun_eq_iff)

lemma linv_start: "linv lims NewConcurrencyLimiter"
  by (simp add: linv_defs NewConcurrencyLimiter_def)

lemma length_filter_remove1:
  "x \<in> set xs \<Longrightarrow> length (filter P (remove1 x xs)) = length (filter P xs) - (if P x then 1 else 0)"
  by (simp add: filter_remove1 length_remove1)

lemma length_filter_mono: "\<forall>x \<in> set xs. P x \<longrightarrow> Q x \<Longrightarrow> length (filter P xs) \<le> length (filter Q xs)"
  by (induction xs) auto

lemma linv_lookup:
  assumes "linv lims l" and "0 < lims t" and "TryAcquire_lookup l t (lims t) = (g, l')"
  shows "linv lims l' \<and> map_of (l_gates l') t = Some g"
proof (cases "map_of (l_gates l) t")
  case (Some h)
  then have "gate_cap l h = lims t" using assms(1) by (simp add: linv_defs)
  then show ?thesis using assms Some by (simp add: TryAcquire_lookup_def)
next
  case None
  have "gate_cap l (l_next l) = 0" using assms(1) by (simp add: linv_defs gate_cap_def)
  moreover have "int (l_len l (l_next l)) \<le> max 0 (gate_cap l (l_next l))"
    using assms(1) unfolding linv_def cap_ok_def by blast
  ultimately have zero: "l_len l (l_next l) = 0" by simp
  have l': "l' = l\<lparr>l_gates := AList.update t (l_next l) (l_gates l), l_cap := AList.update (l_next l) (lims t) (l_cap l),
      l_next := l_next l + 1\<rparr>" "g = l_next l"
    using None assms(3) by (auto simp: TryAcquire_lookup_def)
  have cap: "gate_cap l' h = (if h = l_next l then lims t else gate_cap l h)" for h
    by (simp add: l' gate_cap_def update_conv')
  have "len_ok l'" using assms(1) by (simp add: linv_defs l')
  moreover have "cap_ok l'"
    using assms(1,2) zero by (simp add: linv_def cap_ok_def cap) (simp add: l')
  moreover have "gates_ok lims l'"
  proof -
    have "map_of (l_gates l') u = (if u = t then Some (l_next l) else map_of (l_gates l) u)" for u
      by (simp add: l' update_conv')
    moreover have "l_next l' = l_next l + 1" by (simp add: l')
    moreover have "g < l_next l" if "map_of (l_gates l) u = Some g" for u g
      using assms(1) that by (simp add: linv_def gates_ok_def)
    ultimately show ?thesis using assms(1) by (force simp: linv_def gates_ok_def cap less_Suc_eq)
  qed
  moreover have "fresh_ok l'"
    using assms(1) by (simp add: linv_def fresh_ok_def l' update_conv')
  moreover have "use_ok l'"
  proof -
    have old: "map_of (l_gates l) u = Some h" if "(u, h) \<in> set (l_pending l) \<union> set (l_held l)" for u h
      using assms(1) that unfolding linv_def use_ok_def by blast
    moreover have "map_of (l_gates l') u = (if u = t then Some (l_next l) else map_of (l_gates l) u)" for u
      by (simp add: l' update_conv')
    moreover have "l_pending l' = l_pending l" "l_held l' = l_held l" by (simp_all add: l')
    ultimately show ?thesis using None unfolding use_ok_def by fastforce
  qed
  moreover have "unlimited_ok lims l'" using assms(1) by (simp add: linv_def unlimited_ok_def l')
  ultimately show ?thesis by (simp add: linv_def l' update_conv')
qed

lemma linv_unlimited:
  assumes "linv lims l" and "\<forall>t \<in> set u. lims t \<le> 0"
  shows "linv lims (l\<lparr>l_unlimited := u\<rparr>)"
proof -
  have "len_ok (l\<lparr>l_unlimited := u\<rparr>) = len_ok l" "cap_ok (l\<lparr>l_unlimited := u\<rparr>) = cap_ok l"
      "gates_ok lims (l\<lparr>l_unlimited := u\<rparr>) = gates_ok lims l" "fresh_ok (l\<lparr>l_unlimited := u\<rparr>) = fresh_ok l"
      "use_ok (l\<lparr>l_unlimited := u\<rparr>) = use_ok l"
    by (simp_all add: len_ok_def cap_ok_def gates_ok_def fresh_ok_def use_ok_def)
  then show ?thesis using assms by (simp add: linv_def unlimited_ok_def)
qed

lemma linv_step:
  assumes "linv lims l" and "lstep lims l l'"
  shows "linv lims l'"
  using assms(2)
proof cases
  case (lookup t g l1)
  have inv: "linv lims l1" "map_of (l_gates l1) t = Some g" using linv_lookup [OF assms(1) lookup(2,3)] by simp_all
  have "len_ok l'" "gates_ok lims l'" "fresh_ok l'" "unlimited_ok lims l'"
    using inv(1) by (simp_all add: lookup(1) linv_def len_ok_def gates_ok_def fresh_ok_def unlimited_ok_def)
  moreover have "cap_ok l'" using inv(1) by (simp add: lookup(1) linv_def cap_ok_def)
  moreover have "use_ok l'" using inv by (simp add: lookup(1) linv_def use_ok_def)
  ultimately show ?thesis by (simp add: linv_def)
next
  case (sent t g l1)
  have l1: "l1 = l\<lparr>l_len := (l_len l)(g := l_len l g + 1)\<rparr>" "int (l_len l g) < gate_cap l g"
    using sent(3) by (simp_all add: TryAcquire_send_def split: if_splits)
  have "len_ok l'" using assms(1) by (simp add: sent(1) l1 linv_def len_ok_def)
  moreover have "cap_ok l'" using assms(1) l1(2) by (simp add: sent(1) l1(1) linv_def cap_ok_def)
  moreover have "gates_ok lims l'" "fresh_ok l'" "unlimited_ok lims l'"
    using assms(1) by (simp_all add: sent(1) l1(1) linv_def gates_ok_def fresh_ok_def unlimited_ok_def)
  moreover have "use_ok l'"
    using assms(1) sent(2) set_remove1_subset by (fastforce simp: sent(1) l1(1) linv_def use_ok_def)
  ultimately show ?thesis by (simp add: linv_def)
next
  case (refused t g err l1)
  have "l1 = l" using refused(3) by (simp add: TryAcquire_send_def split: if_splits)
  moreover have "use_ok (l\<lparr>l_pending := remove1 (t, g) (l_pending l)\<rparr>)"
    using assms(1) set_remove1_subset by (fastforce simp: linv_def use_ok_def)
  moreover have "len_ok (l\<lparr>l_pending := ps\<rparr>) = len_ok l" "cap_ok (l\<lparr>l_pending := ps\<rparr>) = cap_ok l"
      "gates_ok lims (l\<lparr>l_pending := ps\<rparr>) = gates_ok lims l" "fresh_ok (l\<lparr>l_pending := ps\<rparr>) = fresh_ok l"
      "unlimited_ok lims (l\<lparr>l_pending := ps\<rparr>) = unlimited_ok lims l" for ps
    by (simp_all add: len_ok_def cap_ok_def gates_ok_def fresh_ok_def unlimited_ok_def)
  ultimately show ?thesis using assms(1) by (simp add: refused(1) linv_def)
next
  case (released t g)
  have "len_ok l'"
    using assms(1) released(2) by (simp add: released(1) release_def linv_def len_ok_def length_filter_remove1)
  moreover have "cap_ok l'" unfolding cap_ok_def
  proof
    fix h
    have "l_len l' h \<le> l_len l h" by (simp add: released(1) release_def)
    moreover have "int (l_len l h) \<le> max 0 (gate_cap l h)" using assms(1) by (simp add: linv_def cap_ok_def)
    ultimately show "int (l_len l' h) \<le> max 0 (gate_cap l' h)" by (simp add: released(1) release_def gate_cap_def)
  qed
  moreover have "gates_ok lims l'" "fresh_ok l'" "unlimited_ok lims l'"
    using assms(1) by (simp_all add: released(1) release_def linv_def gates_ok_def fresh_ok_def unlimited_ok_def)
  moreover have "use_ok l'"
    using assms(1) set_remove1_subset by (fastforce simp: released(1) release_def linv_def use_ok_def)
  ultimately show ?thesis by (simp add: linv_def)
next
  case (unlimited t l1)
  then have "l1 = l" "lims t \<le> 0"
    by (auto simp: TryAcquire_def Let_def split: if_splits prod.splits option.splits)
  moreover have "\<forall>t \<in> set (l_unlimited l). lims t \<le> 0" using assms(1) by (simp add: linv_def unlimited_ok_def)
  ultimately show ?thesis unfolding unlimited(1) by (intro linv_unlimited) (simp_all add: assms(1))
next
  case (forgotten t)
  have "\<forall>t \<in> set (l_unlimited l). lims t \<le> 0" using assms(1) by (simp add: linv_def unlimited_ok_def)
  then show ?thesis
    unfolding forgotten(1) using set_remove1_subset [of t "l_unlimited l"] by (intro linv_unlimited) (auto simp: assms(1))
qed

lemma linv_reach: "lreach lims l \<Longrightarrow> linv lims l"
  by (induction rule: lreach.induct) (simp_all add: linv_start linv_step)

section \<open>Properties\<close>

text \<open>The permits a tenant's goroutines hold, of a gate or without one.\<close>

definition permits :: "limiter \<Rightarrow> string \<Rightarrow> nat" where
  "permits l t = length (filter (\<lambda>p. fst p = t) (l_held l)) + length (filter (\<lambda>u. u = t) (l_unlimited l))"

lemma held_bounded:
  assumes "linv lims l"
  shows "int (length (filter (\<lambda>p. fst p = t) (l_held l))) \<le> max 0 (lims t)"
proof (cases "map_of (l_gates l) t")
  case None
  then have "filter (\<lambda>p. fst p = t) (l_held l) = []"
    using assms by (force simp: linv_def use_ok_def filter_empty_conv)
  then show ?thesis by simp
next
  case (Some g)
  have sub: "\<forall>p \<in> set (l_held l). fst p = t \<longrightarrow> snd p = g"
    using assms Some by (force simp: linv_def use_ok_def)
  have "length (filter (\<lambda>p. fst p = t) (l_held l)) \<le> length (filter (\<lambda>p. snd p = g) (l_held l))"
    using sub by (rule length_filter_mono)
  moreover have "length (filter (\<lambda>p. snd p = g) (l_held l)) = l_len l g" using assms by (simp add: linv_def len_ok_def)
  moreover have "int (l_len l g) \<le> max 0 (gate_cap l g)" using assms unfolding linv_def cap_ok_def by blast
  moreover have "gate_cap l g = lims t" using assms Some unfolding linv_def gates_ok_def by blast
  ultimately show ?thesis by simp
qed

text \<open>
  C30. A positive query limit holds under every interleaving: while each tenant's limit does not change, a tenant whose
  limit is positive never holds more permits than its limit, whatever goroutines of whatever tenants, limited or
  not, do between the lookup of the gate and the send; and a tenant whose limit is zero or negative is not limited: in
  every state one more call of its is granted a permit.
\<close>

theorem concurrency_limit_holds:
  assumes "lreach lims l"
  shows "(0 < lims t \<longrightarrow> int (permits l t) \<le> lims t) \<and>
     (lims t \<le> 0 \<longrightarrow> (\<exists>l'. lstep lims l l' \<and> permits l' t = permits l t + 1))"
proof (intro conjI impI)
  have inv: "linv lims l" using assms by (rule linv_reach)
  assume pos: "0 < lims t"
  then have "filter (\<lambda>u. u = t) (l_unlimited l) = []"
    using inv by (force simp: linv_def unlimited_ok_def filter_empty_conv)
  then show "int (permits l t) \<le> lims t" using held_bounded [OF inv, of t] pos by (simp add: permits_def)
next
  assume "lims t \<le> 0"
  then have "lstep lims l (l\<lparr>l_unlimited := t # l_unlimited l\<rparr>)" by (intro lstep.unlimited) (simp add: TryAcquire_def)
  then show "\<exists>l'. lstep lims l l' \<and> permits l' t = permits l t + 1" by (intro exI conjI) (auto simp: permits_def)
qed

theorem concurrency_limit_holds_witness:
  "\<exists>l. lreach (\<lambda>_. 1) l \<and> l_held l = [(''t'', 0)] \<and> int (permits l ''t'') \<le> 1"
proof -
  define l1 where "l1 = (snd (TryAcquire_lookup NewConcurrencyLimiter ''t'' 1))\<lparr>l_pending := [(''t'', 0)]\<rparr>"
  define l2 where "l2 = (snd (TryAcquire_send l1 0))\<lparr>l_pending := [], l_held := [(''t'', 0)]\<rparr>"
  have "lstep (\<lambda>_. 1) NewConcurrencyLimiter l1"
    using lstep.lookup [of "\<lambda>_. 1" "''t''" NewConcurrencyLimiter 0 "snd (TryAcquire_lookup NewConcurrencyLimiter ''t'' 1)"]
    by (simp add: l1_def TryAcquire_lookup_def NewConcurrencyLimiter_def)
  then have r1: "lreach (\<lambda>_. 1) l1" using lreach.start lreach.move by blast
  have "lstep (\<lambda>_. 1) l1 l2"
    using lstep.sent [of "''t''" 0 l1 "snd (TryAcquire_send l1 0)" "\<lambda>_. 1"]
    by (simp add: l2_def l1_def TryAcquire_send_def TryAcquire_lookup_def NewConcurrencyLimiter_def gate_cap_def)
  then have r2: "lreach (\<lambda>_. 1) l2" using r1 lreach.move by blast
  then show ?thesis using concurrency_limit_holds [OF r2, of "''t''"] by (intro exI [of _ l2]) (simp add: l2_def)
qed

text \<open>
  When the limit of a tenant changes, its gate is replaced and the permits of the old gate are forgotten: with
  one query in flight under limit 1, raising the limit to 2 admits two more.
\<close>

theorem limit_change_forgets_permits:
  "let (r1, l) = TryAcquire NewConcurrencyLimiter ''t'' 1; (r2, l) = TryAcquire l ''t'' 2; (r3, l) = TryAcquire l ''t'' 2
   in \<not> isl r1 \<and> \<not> isl r2 \<and> \<not> isl r3"
  by (simp add: TryAcquire_def TryAcquire_lookup_def TryAcquire_send_def NewConcurrencyLimiter_def gate_cap_def Let_def)

end
