(* ===== verification/Ring.thy ===== *)
theory Ring
  imports Core_Model
begin

text \<open>
  Packages \<open>internal/coordination/ring\<close> and the router of \<open>internal/engine/distribution\<close>: members with
  leases, the in-memory backend, and the coordinator, which places a stream on members by rendezvous
  hashing. The \<open>Backend\<close> interface is a record of operations, so that the coordinator is defined over any
  backend; the locale \<open>ring_backend\<close> states what it relies on. SHA-256 is the parameter \<open>sha\<close> (a string of
  32 bytes) and the clock a parameter of the call.
\<close>

section \<open>Data\<close>

record member =
  m_ID :: string
  m_Address :: string
  m_Zone :: string
  m_State :: string
  m_LeaseID :: int
  m_UpdatedAt :: time

record assignment =
  as_StreamKey :: string
  as_Fingerprint :: string
  as_Primary :: member
  as_Replicas :: "member list"

record token_ownership =
  tok_Token :: string
  tok_Primary :: member
  tok_Replicas :: "member list"

record rebalance_report =
  rb_ReadyMembers :: "member list"
  rb_Tokens :: "token_ownership list"
  rb_PrimaryCount :: "(string, int) gomap"
  rb_ReplicaCount :: "(string, int) gomap"
  rb_AssignmentMatrix :: "(string, assignment) gomap"

record reconcile_report =
  rc_Upserted :: int
  rc_Removed :: int
  rc_Members :: "member list"

definition StateReady :: string where "StateReady = ''ready''"
definition StateDraining :: string where "StateDraining = ''draining''"
definition StateLeaving :: string where "StateLeaving = ''leaving''"

definition Member_Validate :: "member \<Rightarrow> goerror option" where
  "Member_Validate m =
     (if TrimSpace (m_ID m) = [] then Some (Errorf ''member id is required'' [])
      else if TrimSpace (m_Address m) = [] then Some (Errorf ''member address is required'' [])
      else if m_State m \<in> {StateReady, StateDraining, StateLeaving, []} then None
      else Some (Errorf ''unsupported member state %q'' [m_State m]))"

fun dedupe_loop :: "member list \<Rightarrow> string list \<Rightarrow> member list \<Rightarrow> member list" where
  "dedupe_loop [] seen out = out"
| "dedupe_loop (m # ms) seen out =
     (if m_ID m \<in> set seen then dedupe_loop ms seen out else dedupe_loop ms (m_ID m # seen) (out @ [m]))"

definition dedupeMembers :: "member list \<Rightarrow> member list" where
  "dedupeMembers members = sort_slice (\<lambda>x y. m_ID x < m_ID y) (dedupe_loop members [] [])"

section \<open>The backend interface and the in-memory backend\<close>

record 'b backend =
  PutMember :: "'b \<Rightarrow> string \<Rightarrow> member \<Rightarrow> int \<Rightarrow> member result \<times> 'b"
  DeleteMember :: "'b \<Rightarrow> string \<Rightarrow> string \<Rightarrow> goerror option \<times> 'b"
  ListMembers :: "'b \<Rightarrow> string \<Rightarrow> member list result"
  RefreshLease :: "'b \<Rightarrow> int \<Rightarrow> goerror option \<times> 'b"
  RevokeLease :: "'b \<Rightarrow> int \<Rightarrow> goerror option \<times> 'b"

record memory_backend =
  mb_members :: "(string, member) gomap"
  mb_leases :: "int list"
  mb_nextID :: int

definition NewMemoryBackend :: memory_backend where
  "NewMemoryBackend = \<lparr>mb_members = [], mb_leases = [], mb_nextID = 100\<rparr>"

definition Memory_PutMember :: "memory_backend \<Rightarrow> string \<Rightarrow> member \<Rightarrow> int \<Rightarrow> member result \<times> memory_backend" where
  "Memory_PutMember b _ member ttl =
     (let (member, b) =
        (if 0 < ttl \<and> m_LeaseID member = 0
         then (member\<lparr>m_LeaseID := mb_nextID b + 1\<rparr>,
               b\<lparr>mb_nextID := mb_nextID b + 1, mb_leases := List.insert (mb_nextID b + 1) (mb_leases b)\<rparr>)
         else (member, b))
      in (Inr member, b\<lparr>mb_members := AList.update (m_ID member) member (mb_members b)\<rparr>))"

definition Memory_DeleteMember :: "memory_backend \<Rightarrow> string \<Rightarrow> string \<Rightarrow> goerror option \<times> memory_backend" where
  "Memory_DeleteMember b _ memberID = (None, b\<lparr>mb_members := AList.delete memberID (mb_members b)\<rparr>)"

definition Memory_ListMembers :: "memory_backend \<Rightarrow> string \<Rightarrow> member list result" where
  "Memory_ListMembers b _ = Inr (sort_slice (\<lambda>x y. m_ID x < m_ID y) (map snd (mb_members b)))"

definition Memory_RefreshLease :: "memory_backend \<Rightarrow> int \<Rightarrow> goerror option \<times> memory_backend" where
  "Memory_RefreshLease b leaseID =
     (if leaseID \<notin> set (mb_leases b) then Some (Errorf ''lease not found'' []) else None, b)"

definition Memory_RevokeLease :: "memory_backend \<Rightarrow> int \<Rightarrow> goerror option \<times> memory_backend" where
  "Memory_RevokeLease b leaseID = (None, b\<lparr>mb_leases := removeAll leaseID (mb_leases b)\<rparr>)"

definition MemoryBackend :: "memory_backend backend" where
  "MemoryBackend = \<lparr>PutMember = Memory_PutMember, DeleteMember = Memory_DeleteMember, ListMembers = Memory_ListMembers,
     RefreshLease = Memory_RefreshLease, RevokeLease = Memory_RevokeLease\<rparr>"

section \<open>The coordinator\<close>

record coordinator =
  co_prefix :: string
  co_replicationFactor :: int

definition NewCoordinator :: "string \<Rightarrow> int \<Rightarrow> coordinator" where
  "NewCoordinator prefx replicationFactor =
     \<lparr>co_prefix = prefx, co_replicationFactor = (if replicationFactor \<le> 0 then 2 else replicationFactor)\<rparr>"

definition normalizeState :: "string \<Rightarrow> string" where
  "normalizeState state =
     (if state \<in> {StateReady, StateDraining, StateLeaving} then state
      else if state = [] then StateReady else StateReady)"

fun findMember :: "member list \<Rightarrow> string \<Rightarrow> member option" where
  "findMember [] memberID = None"
| "findMember (m # ms) memberID = (if m_ID m = memberID then Some m else findMember ms memberID)"

definition Coordinator_List :: "'b backend \<Rightarrow> coordinator \<Rightarrow> 'b \<Rightarrow> member list result" where
  "Coordinator_List B c b = (case ListMembers B b (co_prefix c) of
     Inl err \<Rightarrow> Inl err | Inr members \<Rightarrow> Inr (dedupeMembers members))"

definition Register :: "'b backend \<Rightarrow> time \<Rightarrow> coordinator \<Rightarrow> 'b \<Rightarrow> member \<Rightarrow> int \<Rightarrow> member result \<times> 'b" where
  "Register B now c b member ttl =
     (case Member_Validate member of Some err \<Rightarrow> (Inl err, b) | None \<Rightarrow>
      let member = member\<lparr>m_State := normalizeState (m_State member)\<rparr>;
          member = (if m_State member = [] then member\<lparr>m_State := StateReady\<rparr> else member);
          member = member\<lparr>m_UpdatedAt := now\<rparr>
      in PutMember B b (co_prefix c) member ttl)"

definition SetState :: "'b backend \<Rightarrow> time \<Rightarrow> coordinator \<Rightarrow> 'b \<Rightarrow> string \<Rightarrow> string \<Rightarrow> int \<Rightarrow> member result \<times> 'b" where
  "SetState B now c b memberID state ttl =
     (case Coordinator_List B c b of Inl err \<Rightarrow> (Inl err, b) | Inr members \<Rightarrow>
      case findMember members memberID of None \<Rightarrow> (Inl ErrMemberNotFound, b) | Some member \<Rightarrow>
        PutMember B b (co_prefix c) (member\<lparr>m_State := normalizeState state, m_UpdatedAt := now\<rparr>) ttl)"

definition Heartbeat :: "'b backend \<Rightarrow> time \<Rightarrow> coordinator \<Rightarrow> 'b \<Rightarrow> string \<Rightarrow> member result \<times> 'b" where
  "Heartbeat B now c b memberID =
     (case Coordinator_List B c b of Inl err \<Rightarrow> (Inl err, b) | Inr members \<Rightarrow>
      case findMember members memberID of None \<Rightarrow> (Inl ErrMemberNotFound, b) | Some member \<Rightarrow>
      case RefreshLease B b (m_LeaseID member) of (Some err, b) \<Rightarrow> (Inl err, b) | (None, b) \<Rightarrow>
        PutMember B b (co_prefix c) (member\<lparr>m_UpdatedAt := now\<rparr>) 30)"

definition MarkDraining :: "'b backend \<Rightarrow> time \<Rightarrow> coordinator \<Rightarrow> 'b \<Rightarrow> string \<Rightarrow> int \<Rightarrow> member result \<times> 'b" where
  "MarkDraining B now c b memberID ttl = SetState B now c b memberID StateDraining ttl"

definition MarkLeaving :: "'b backend \<Rightarrow> time \<Rightarrow> coordinator \<Rightarrow> 'b \<Rightarrow> string \<Rightarrow> int \<Rightarrow> member result \<times> 'b" where
  "MarkLeaving B now c b memberID ttl = SetState B now c b memberID StateLeaving ttl"

definition Coordinator_Delete :: "'b backend \<Rightarrow> coordinator \<Rightarrow> 'b \<Rightarrow> string \<Rightarrow> goerror option \<times> 'b" where
  "Coordinator_Delete B c b memberID =
     (case Coordinator_List B c b of Inl err \<Rightarrow> (Some err, b) | Inr members \<Rightarrow>
      case findMember members memberID of None \<Rightarrow> (Some ErrMemberNotFound, b) | Some member \<Rightarrow>
      case DeleteMember B b (co_prefix c) memberID of (Some err, b) \<Rightarrow> (Some err, b) | (None, b) \<Rightarrow>
        if m_LeaseID member \<noteq> 0 then RevokeLease B b (m_LeaseID member) else (None, b))"

text \<open>Rendezvous hashing: the score of a member for a stream, and the order in which members are preferred.\<close>

definition score :: "(string \<Rightarrow> string) \<Rightarrow> string \<Rightarrow> member \<Rightarrow> string" where
  "score sha streamKey m = sha (streamKey @ ''|'' @ m_ID m)"

definition preferred :: "member \<times> string \<Rightarrow> member \<times> string \<Rightarrow> bool" where
  "preferred x y \<longleftrightarrow> (if snd x = snd y then m_ID (fst x) < m_ID (fst y) else snd y < snd x)"

definition scoreMembers :: "(string \<Rightarrow> string) \<Rightarrow> string \<Rightarrow> member list \<Rightarrow> (member \<times> string) list" where
  "scoreMembers sha streamKey members = map (\<lambda>m. (m, score sha streamKey m)) members"

fun select_loop :: "int \<Rightarrow> (member \<times> string) list \<Rightarrow> member list \<Rightarrow> member list" where
  "select_loop replicationFactor [] selected = selected"
| "select_loop replicationFactor (item # scored) selected =
     (let selected = selected @ [fst item] in
      if replicationFactor \<le> int (length selected) then selected else select_loop replicationFactor scored selected)"

definition ready_members :: "member list \<Rightarrow> member list" where
  "ready_members members = filter (\<lambda>m. normalizeState (m_State m) = StateReady) members"

definition fingerprint :: "(string \<Rightarrow> string) \<Rightarrow> (string \<Rightarrow> string) \<Rightarrow> string \<Rightarrow> string" where
  "fingerprint sha hex streamKey = hex (sha streamKey)"

definition Resolve ::
  "'b backend \<Rightarrow> (string \<Rightarrow> string) \<Rightarrow> (string \<Rightarrow> string) \<Rightarrow> coordinator \<Rightarrow> 'b \<Rightarrow> string \<Rightarrow> assignment result" where
  "Resolve B sha hex c b streamKey =
     (case Coordinator_List B c b of Inl err \<Rightarrow> Inl err | Inr members \<Rightarrow>
      let ready = ready_members members in
      if ready = [] then Inl (Errorf ''no ready members available'' [])
      else let scored = sort_slice preferred (scoreMembers sha streamKey ready);
               selected = select_loop (co_replicationFactor c) scored []
           in Inr \<lparr>as_StreamKey = streamKey, as_Fingerprint = fingerprint sha hex streamKey,
                as_Primary = hd selected, as_Replicas = (if 1 < length selected then tl selected else [])\<rparr>)"

definition count_up :: "string \<Rightarrow> (string, int) gomap \<Rightarrow> (string, int) gomap" where
  "count_up k m = AList.update k ((case map_of m k of None \<Rightarrow> 0 | Some n \<Rightarrow> n) + 1) m"

fun rebalance_loop :: "(string \<Rightarrow> assignment result) \<Rightarrow> string \<Rightarrow> nat list \<Rightarrow> rebalance_report \<Rightarrow> rebalance_report result" where
  "rebalance_loop resolve prefx [] r = Inr r"
| "rebalance_loop resolve prefx (i # is) r =
     (let token = prefx @ ''/token/'' @ show_nat i in
      case resolve token of Inl err \<Rightarrow> Inl err | Inr a \<Rightarrow>
        rebalance_loop resolve prefx is
          (r\<lparr>rb_PrimaryCount := count_up (m_ID (as_Primary a)) (rb_PrimaryCount r),
             rb_ReplicaCount := fold (\<lambda>m. count_up (m_ID m)) (as_Replicas a) (rb_ReplicaCount r),
             rb_AssignmentMatrix := AList.update token a (rb_AssignmentMatrix r),
             rb_Tokens := rb_Tokens r @ [\<lparr>tok_Token = token, tok_Primary = as_Primary a, tok_Replicas = as_Replicas a\<rparr>]\<rparr>))"

definition Rebalance ::
  "'b backend \<Rightarrow> (string \<Rightarrow> string) \<Rightarrow> (string \<Rightarrow> string) \<Rightarrow> coordinator \<Rightarrow> 'b \<Rightarrow> int \<Rightarrow> rebalance_report result" where
  "Rebalance B sha hex c b tokenCount =
     (case Coordinator_List B c b of Inl err \<Rightarrow> Inl err | Inr members \<Rightarrow>
      let ready = ready_members members in
      if ready = [] then Inl (Errorf ''no ready members available'' [])
      else let tokenCount = (if tokenCount \<le> 0 then int (length ready) * 32 else tokenCount)
           in rebalance_loop (Resolve B sha hex c b) (co_prefix c) [0..<nat tokenCount]
                \<lparr>rb_ReadyMembers = ready, rb_Tokens = [], rb_PrimaryCount = [], rb_ReplicaCount = [], rb_AssignmentMatrix = []\<rparr>)"

fun validate_all :: "member list \<Rightarrow> (string, member) gomap \<Rightarrow> (string, member) gomap result" where
  "validate_all [] byID = Inr byID"
| "validate_all (m # ms) byID = (case Member_Validate m of Some err \<Rightarrow> Inl err
     | None \<Rightarrow> validate_all ms (AList.update (m_ID m) m byID))"

text \<open>\<open>now n\<close> is the clock reading at the \<open>n\<close>th member.\<close>

fun upsert_loop ::
  "'b backend \<Rightarrow> (int \<Rightarrow> time) \<Rightarrow> string \<Rightarrow> (string, member) gomap \<Rightarrow> member list \<Rightarrow> int \<Rightarrow> 'b \<Rightarrow> int result \<times> 'b" where
  "upsert_loop B now prefx currentByID [] upserted b = (Inr upserted, b)"
| "upsert_loop B now prefx currentByID (member # desired) upserted b =
     (let member = (case map_of currentByID (m_ID member) of
             Some existing \<Rightarrow> member\<lparr>m_LeaseID := m_LeaseID existing\<rparr> | None \<Rightarrow> member);
          member = member\<lparr>m_State := normalizeState (m_State member), m_UpdatedAt := now upserted\<rparr>
      in case PutMember B b prefx member 30 of
           (Inl err, b) \<Rightarrow> (Inl err, b)
         | (Inr _, b) \<Rightarrow> upsert_loop B now prefx currentByID desired (upserted + 1) b)"

fun remove_loop :: "'b backend \<Rightarrow> string \<Rightarrow> (string, member) gomap \<Rightarrow> member list \<Rightarrow> int \<Rightarrow> 'b \<Rightarrow> int result \<times> 'b" where
  "remove_loop B prefx desiredByID [] removed b = (Inr removed, b)"
| "remove_loop B prefx desiredByID (member # current) removed b =
     (if map_of desiredByID (m_ID member) \<noteq> None then remove_loop B prefx desiredByID current removed b
      else case DeleteMember B b prefx (m_ID member) of
          (Some err, b) \<Rightarrow> (Inl err, b)
        | (None, b) \<Rightarrow> remove_loop B prefx desiredByID current (removed + 1)
            (if m_LeaseID member \<noteq> 0 then snd (RevokeLease B b (m_LeaseID member)) else b))"

definition Reconcile ::
  "'b backend \<Rightarrow> (int \<Rightarrow> time) \<Rightarrow> coordinator \<Rightarrow> 'b \<Rightarrow> member list \<Rightarrow> reconcile_report result \<times> 'b" where
  "Reconcile B now c b desired =
     (case Coordinator_List B c b of Inl err \<Rightarrow> (Inl err, b) | Inr current \<Rightarrow>
      let currentByID = fold (\<lambda>m. AList.update (m_ID m) m) current [] in
      case validate_all desired [] of Inl err \<Rightarrow> (Inl err, b) | Inr desiredByID \<Rightarrow>
      case upsert_loop B now (co_prefix c) currentByID desired 0 b of (Inl err, b) \<Rightarrow> (Inl err, b) | (Inr upserted, b) \<Rightarrow>
      case remove_loop B (co_prefix c) desiredByID current 0 b of (Inl err, b) \<Rightarrow> (Inl err, b) | (Inr removed, b) \<Rightarrow>
      case Coordinator_List B c b of Inl err \<Rightarrow> (Inl err, b) | Inr members \<Rightarrow>
        (Inr \<lparr>rc_Upserted = upserted, rc_Removed = removed, rc_Members = members\<rparr>, b))"

definition Snapshot ::
  "'b backend \<Rightarrow> (string \<Rightarrow> int \<Rightarrow> member list \<Rightarrow> string result) \<Rightarrow> coordinator \<Rightarrow> 'b \<Rightarrow> string result" where
  "Snapshot B marshal c b = (case Coordinator_List B c b of Inl err \<Rightarrow> Inl err
     | Inr members \<Rightarrow> marshal (co_prefix c) (co_replicationFactor c) members)"

section \<open>The router\<close>

record route_result =
  rr_Event :: event
  rr_Assignment :: assignment

definition Route ::
  "'b backend \<Rightarrow> (string \<Rightarrow> string) \<Rightarrow> (string \<Rightarrow> string) \<Rightarrow> coordinator \<Rightarrow> 'b \<Rightarrow> event \<Rightarrow> route_result result" where
  "Route B sha hex c b event = (case Resolve B sha hex c b (StreamKey event) of
     Inl err \<Rightarrow> Inl err | Inr a \<Rightarrow> Inr \<lparr>rr_Event = event, rr_Assignment = a\<rparr>)"

section \<open>What the coordinator relies on\<close>

definition owners :: "assignment \<Rightarrow> member list" where
  "owners a = as_Primary a # as_Replicas a"

definition is_ready :: "member \<Rightarrow> bool" where
  "is_ready m \<longleftrightarrow> normalizeState (m_State m) = StateReady"

text \<open>The ready members in the order of preference for a stream.\<close>

definition ranking :: "(string \<Rightarrow> string) \<Rightarrow> string \<Rightarrow> member list \<Rightarrow> member list" where
  "ranking sha streamKey members = map fst (sort_slice preferred (scoreMembers sha streamKey (ready_members members)))"

locale ring_backend =
  fixes B :: "'b backend" and inv :: "'b \<Rightarrow> bool" and content :: "'b \<Rightarrow> string \<Rightarrow> string \<Rightarrow> member option"
  assumes content_id: "inv b \<Longrightarrow> content b p i = Some m \<Longrightarrow> m_ID m = i"
    and list_content: "inv b \<Longrightarrow> ListMembers B b p = Inr ms \<Longrightarrow> set ms = ran (content b p)"
    and put_content: "inv b \<Longrightarrow> PutMember B b p m ttl = (Inr m', b') \<Longrightarrow>
        inv b' \<and> content b' p = (content b p)(m_ID m \<mapsto> m') \<and> (\<exists>l. m' = m\<lparr>m_LeaseID := l\<rparr>) \<and> (m_LeaseID m \<noteq> 0 \<longrightarrow> m' = m)"
    and delete_content: "inv b \<Longrightarrow> DeleteMember B b p i = (None, b') \<Longrightarrow> inv b' \<and> content b' p = (content b p)(i := None)"
    and refresh_content: "inv b \<Longrightarrow> inv (snd (RefreshLease B b l)) \<and> content (snd (RefreshLease B b l)) = content b"
    and revoke_content: "inv b \<Longrightarrow> inv (snd (RevokeLease B b l)) \<and> content (snd (RevokeLease B b l)) = content b"

section \<open>Lemmas on the coordinator's helpers\<close>

lemma dedupe_loop_distinct:
  "distinct (map m_ID out) \<Longrightarrow> set seen = m_ID ` set out \<Longrightarrow> distinct (map m_ID (dedupe_loop ms seen out))"
  by (induction ms seen out rule: dedupe_loop.induct) auto

lemma dedupe_loop_set:
  "inj_on m_ID (set out \<union> set ms) \<Longrightarrow> set seen = m_ID ` set out \<Longrightarrow> set (dedupe_loop ms seen out) = set out \<union> set ms"
proof (induction ms seen out rule: dedupe_loop.induct)
  case (2 m ms seen out)
  show ?case
  proof (cases "m_ID m \<in> set seen")
    case True
    then obtain n where "n \<in> set out" "m_ID m = m_ID n" using 2(4) by auto
    then have "m \<in> set out" using 2(3) by (auto simp: inj_on_def)
    moreover have "inj_on m_ID (set out \<union> set ms)" by (rule inj_on_subset [OF 2(3)]) auto
    ultimately show ?thesis using 2(1) [OF True] 2(4) True by auto
  next
    case False
    have "set (out @ [m]) \<union> set ms = set out \<union> set (m # ms)" by auto
    then show ?thesis using 2(2) [OF False] 2(3,4) False by auto
  qed
qed simp

lemma id_order: "inj_on m_ID A \<Longrightarrow> strict_total_on A (\<lambda>x y. m_ID x < m_ID y)"
  unfolding strict_total_on_def inj_on_def by (auto intro: order.strict_trans) (metis linorder_neqE)

lemma dedupeMembers_spec:
  assumes "inj_on m_ID (set ms)"
  shows "set (dedupeMembers ms) = set ms" and "distinct (map m_ID (dedupeMembers ms))"
    and "sorted_wrt (\<lambda>x y. m_ID x < m_ID y) (dedupeMembers ms)"
proof -
  let ?d = "dedupe_loop ms [] []"
  have s: "set ?d = set ms" using dedupe_loop_set [of "[]" ms "[]"] assms by simp
  have d: "distinct (map m_ID ?d)" by (rule dedupe_loop_distinct) simp_all
  show set: "set (dedupeMembers ms) = set ms" by (simp add: dedupeMembers_def s)
  show "sorted_wrt (\<lambda>x y. m_ID x < m_ID y) (dedupeMembers ms)"
    unfolding dedupeMembers_def using d by (intro sorted_sort_slice id_order) (simp_all add: distinct_map)
  show "distinct (map m_ID (dedupeMembers ms))"
    using d assms set by (simp add: distinct_map dedupeMembers_def)
qed

lemma findMember_Some: "distinct (map m_ID ms) \<Longrightarrow> findMember ms i = Some m \<longleftrightarrow> m \<in> set ms \<and> m_ID m = i"
  by (induction ms) (auto simp: image_iff)

lemma findMember_None: "findMember ms i = None \<longleftrightarrow> i \<notin> m_ID ` set ms"
  by (induction ms) auto

lemma select_loop_take:
  "int (length sel) < rf \<Longrightarrow> select_loop rf scored sel = sel @ take (nat rf - length sel) (map fst scored)"
proof (induction rf scored sel rule: select_loop.induct)
  case (2 rf item scored sel)
  have n: "nat rf - length sel = Suc (nat rf - Suc (length sel))" using 2(2) by linarith
  show ?case
  proof (cases "rf \<le> int (length (sel @ [fst item]))")
    case True
    then have "nat rf - Suc (length sel) = 0" by simp
    then show ?thesis using True n by simp
  next
    case False
    then show ?thesis using 2(1) [OF refl] n by simp
  qed
qed simp

lemma preferred_order:
  assumes "inj_on m_ID A"
  shows "strict_total_on ((\<lambda>m. (m, score sha k m)) ` A) preferred"
  unfolding strict_total_on_def
proof (intro conjI ballI impI)
  fix x y z
  assume x: "x \<in> (\<lambda>m. (m, score sha k m)) ` A" and y: "y \<in> (\<lambda>m. (m, score sha k m)) ` A"
  show "\<not> preferred x x" by (simp add: preferred_def)
  show "preferred x z" if "preferred x y" "preferred y z"
    using that unfolding preferred_def by (auto split: if_splits intro: order.strict_trans)
  show "preferred x y \<or> preferred y x" if "x \<noteq> y"
  proof (cases "snd x = snd y")
    case True
    have "m_ID (fst x) \<noteq> m_ID (fst y)" using assms x y that by (auto simp: inj_on_def)
    then show ?thesis using True by (auto simp: preferred_def)
  qed (auto simp: preferred_def)
qed

lemma scoreMembers_set: "set (scoreMembers sha k ms) = (\<lambda>m. (m, score sha k m)) ` set ms"
  by (auto simp: scoreMembers_def)

lemma scoreMembers_distinct: "distinct ms \<Longrightarrow> distinct (scoreMembers sha k ms)"
  by (simp add: scoreMembers_def distinct_map inj_on_def)

lemma ready_members_ready: "ready_members ms = filter is_ready ms"
  unfolding ready_members_def by (rule filter_cong) (simp_all add: is_ready_def)

lemma sorted_wrt_take_drop: "sorted_wrt R xs \<Longrightarrow> x \<in> set (take n xs) \<Longrightarrow> y \<in> set (drop n xs) \<Longrightarrow> R x y"
  using sorted_wrt_append [of R "take n xs" "drop n xs"] by simp

lemma ready_members_set [simp]: "set (ready_members ms) = {m \<in> set ms. is_ready m}"
  by (simp add: ready_members_def is_ready_def)

lemma ranking_set [simp]: "set (ranking sha k ms) = {m \<in> set ms. is_ready m}"
  by (auto simp: ranking_def scoreMembers_set image_iff)

lemma ranking_length: "length (ranking sha k ms) = length (ready_members ms)"
  by (simp add: ranking_def scoreMembers_def)

lemma ranking_sorted:
  assumes "distinct (map m_ID ms)"
  shows "sorted_wrt (\<lambda>m n. preferred (m, score sha k m) (n, score sha k n)) (ranking sha k ms)"
proof -
  let ?s = "sort_slice preferred (scoreMembers sha k (ready_members ms))"
  have i: "inj_on m_ID (set (ready_members ms))" using assms by (auto simp: distinct_map intro: inj_on_subset)
  have "distinct (ready_members ms)" using assms by (simp add: ready_members_def distinct_map)
  then have sorted: "sorted_wrt preferred ?s"
    using preferred_order [OF i] by (intro sorted_sort_slice) (simp_all add: scoreMembers_set scoreMembers_distinct)
  have "(fst x, score sha k (fst x)) = x" if "x \<in> set ?s" for x
    using that by (auto simp: scoreMembers_set)
  then have "sorted_wrt (\<lambda>x y. preferred (fst x, score sha k (fst x)) (fst y, score sha k (fst y))) ?s"
    by (intro sorted_wrt_mono_rel [OF _ sorted]) simp
  then show ?thesis by (simp add: ranking_def sorted_wrt_map)
qed

lemma ranking_mset: "mset (ranking sha k ms) = mset (ready_members ms)"
proof -
  have "mset (ranking sha k ms) = image_mset fst (mset (scoreMembers sha k (ready_members ms)))"
    by (simp add: ranking_def)
  also have "\<dots> = mset (map fst (scoreMembers sha k (ready_members ms)))" by simp
  finally show ?thesis by (simp add: scoreMembers_def comp_def)
qed

lemma ranking_distinct: "distinct (map m_ID ms) \<Longrightarrow> distinct (map m_ID (ranking sha k ms))"
  using mset_eq_imp_distinct_iff [of "map m_ID (ranking sha k ms)" "map m_ID (ready_members ms)"]
  by (simp add: ranking_mset ready_members_def distinct_map_filter)

text \<open>Removing members does not change the order of preference among the others.\<close>

lemma ranking_filter:
  assumes "distinct (map m_ID ms)"
  shows "ranking sha k (filter P ms) = filter P (ranking sha k ms)"
proof -
  let ?s = "scoreMembers sha k (ready_members ms)"
  have i: "inj_on m_ID (set (ready_members ms))" using assms by (auto simp: distinct_map intro: inj_on_subset)
  have d: "distinct ?s" using assms by (intro scoreMembers_distinct) (simp add: ready_members_def distinct_map)
  have "scoreMembers sha k (ready_members (filter P ms)) = filter (\<lambda>x. P (fst x)) ?s"
    by (simp add: scoreMembers_def ready_members_def filter_map comp_def conj_commute)
  then show ?thesis
    using filter_sort_slice [of ?s preferred "\<lambda>x. P (fst x)"] preferred_order [OF i, of sha k] d
    by (simp add: ranking_def scoreMembers_set filter_map comp_def)
qed

lemma Resolve_ranking:
  assumes "Coordinator_List B c b = Inr ms" and "0 < co_replicationFactor c"
  shows "Resolve B sha hex c b k = (if ranking sha k ms = [] then Inl (Errorf ''no ready members available'' [])
     else let sel = take (nat (co_replicationFactor c)) (ranking sha k ms) in
       Inr \<lparr>as_StreamKey = k, as_Fingerprint = fingerprint sha hex k, as_Primary = hd sel, as_Replicas = tl sel\<rparr>)"
proof -
  have sel: "select_loop (co_replicationFactor c) (sort_slice preferred (scoreMembers sha k (ready_members ms))) [] =
      take (nat (co_replicationFactor c)) (ranking sha k ms)"
    using assms(2) by (simp add: select_loop_take ranking_def)
  have e: "ranking sha k ms = [] \<longleftrightarrow> ready_members ms = []"
    by (metis length_0_conv ranking_length)
  have tl: "(if 1 < length xs then tl xs else []) = tl xs" for xs :: "member list" by (cases xs) auto
  show ?thesis unfolding Resolve_def assms(1) sum.case Let_def sel e tl by simp
qed

lemma Resolve_owners:
  assumes "Coordinator_List B c b = Inr ms" and "0 < co_replicationFactor c" and "Resolve B sha hex c b k = Inr a"
  shows "owners a = take (nat (co_replicationFactor c)) (ranking sha k ms)" and "ranking sha k ms \<noteq> []"
    and "as_StreamKey a = k" and "as_Fingerprint a = fingerprint sha hex k"
proof -
  have r: "ranking sha k ms \<noteq> []" using assms(3) Resolve_ranking [OF assms(1,2)] by auto
  let ?sel = "take (nat (co_replicationFactor c)) (ranking sha k ms)"
  have ne: "?sel \<noteq> []" using assms(2) r by simp
  have a: "a = \<lparr>as_StreamKey = k, as_Fingerprint = fingerprint sha hex k, as_Primary = hd ?sel, as_Replicas = tl ?sel\<rparr>"
    using assms(3) r by (simp add: Resolve_ranking [OF assms(1,2)] Let_def del: hd_take)
  show "owners a = ?sel" by (simp only: a owners_def assignment.simps list.collapse [OF ne])
  show "as_StreamKey a = k" "as_Fingerprint a = fingerprint sha hex k" by (simp_all add: a)
  show "ranking sha k ms \<noteq> []" by (rule r)
qed

lemma assignment_eqI:
  "owners a = owners a' \<Longrightarrow> as_StreamKey a = as_StreamKey a' \<Longrightarrow> as_Fingerprint a = as_Fingerprint a' \<Longrightarrow> a = a'"
  by (cases a; cases a') (simp add: owners_def)

text \<open>What reconciling makes of a desired member, given the member stored before.\<close>

definition reconciled :: "member option \<Rightarrow> member \<Rightarrow> member \<Rightarrow> bool" where
  "reconciled old m m' \<longleftrightarrow> m_ID m' = m_ID m \<and> m_Address m' = m_Address m \<and> m_State m' = normalizeState (m_State m) \<and>
     (case old of Some o1 \<Rightarrow> m_LeaseID o1 \<noteq> 0 \<longrightarrow> m_LeaseID m' = m_LeaseID o1 | None \<Rightarrow> True)"

lemma map_of_by_id_acc:
  "distinct (map m_ID ms) \<Longrightarrow> map_of (fold (\<lambda>m. AList.update (m_ID m) m) ms acc) i =
     (case findMember ms i of Some m \<Rightarrow> Some m | None \<Rightarrow> map_of acc i)"
proof (induction ms arbitrary: acc)
  case (Cons m ms)
  have "findMember ms (m_ID m) = None" using Cons.prems by (simp add: findMember_None)
  then show ?case using Cons by (auto simp: update_conv' split: option.splits)
qed simp

lemma map_of_by_id: "distinct (map m_ID ms) \<Longrightarrow> map_of (fold (\<lambda>m. AList.update (m_ID m) m) ms []) i = findMember ms i"
  by (simp add: map_of_by_id_acc split: option.splits)

lemma validate_all_dom_acc: "validate_all ds acc = Inr des \<Longrightarrow> dom (map_of des) = dom (map_of acc) \<union> m_ID ` set ds"
  by (induction ds arbitrary: acc) (auto simp: update_conv' split: option.splits)

lemma validate_all_dom: "validate_all ds [] = Inr des \<Longrightarrow> dom (map_of des) = m_ID ` set ds"
  by (simp add: validate_all_dom_acc)

lemma validate_all_ok: "\<forall>m \<in> set ds. Member_Validate m = None \<Longrightarrow> \<exists>des. validate_all ds acc = Inr des"
  by (induction ds arbitrary: acc) auto

section \<open>Lemmas of every backend\<close>

context ring_backend
begin

lemma content_inj: "inv b \<Longrightarrow> inj_on m_ID (ran (content b p))"
  unfolding inj_on_def ran_def by clarsimp (metis content_id option.inject)

lemma list_spec:
  assumes "inv b" and "Coordinator_List B c b = Inr ms"
  shows "set ms = ran (content b (co_prefix c))" and "distinct (map m_ID ms)" and "sorted_wrt (\<lambda>x y. m_ID x < m_ID y) ms"
proof -
  obtain raw where raw: "ListMembers B b (co_prefix c) = Inr raw" "ms = dedupeMembers raw"
    using assms(2) by (auto simp: Coordinator_List_def split: sum.splits)
  have "inj_on m_ID (set raw)" using list_content [OF assms(1) raw(1)] content_inj [OF assms(1)] by simp
  then show "set ms = ran (content b (co_prefix c))" "distinct (map m_ID ms)" "sorted_wrt (\<lambda>x y. m_ID x < m_ID y) ms"
    using dedupeMembers_spec list_content [OF assms(1) raw(1)] raw(2) by simp_all
qed

lemma find_spec: "inv b \<Longrightarrow> Coordinator_List B c b = Inr ms \<Longrightarrow> findMember ms i = content b (co_prefix c) i"
proof -
  assume a: "inv b" "Coordinator_List B c b = Inr ms"
  note l = list_spec [OF a]
  show ?thesis
  proof (cases "content b (co_prefix c) i")
    case None
    then have "i \<notin> m_ID ` set ms" using l(1) content_id [OF a(1)] by (auto simp: ran_def)
    then show ?thesis using None by (simp add: findMember_None)
  next
    case (Some m)
    then have "m \<in> set ms" "m_ID m = i" using l(1) content_id [OF a(1)] by (auto simp: ran_def)
    then show ?thesis using Some findMember_Some [OF l(2)] by simp
  qed
qed

lemma list_delete:
  assumes "inv b" and "Coordinator_List B c b = Inr ms" and "inv b'" and "Coordinator_List B c b' = Inr ms'"
    and "content b' (co_prefix c) = (content b (co_prefix c))(i := None)"
  shows "ms' = filter (\<lambda>m. m_ID m \<noteq> i) ms"
proof (rule sorted_wrt_unique)
  note l = list_spec [OF assms(1,2)] and l' = list_spec [OF assms(3,4)]
  show "sorted_wrt (\<lambda>x y. m_ID x < m_ID y) ms'" by (rule l'(3))
  show "sorted_wrt (\<lambda>x y. m_ID x < m_ID y) (filter (\<lambda>m. m_ID m \<noteq> i) ms)" using l(3) by (rule sorted_wrt_filter)
  show "set ms' = set (filter (\<lambda>m. m_ID m \<noteq> i) ms)"
    using l(1) l'(1) assms(5) content_id [OF assms(1)] by (auto simp: ran_def split: if_splits)
  show "strict_total_on (set ms') (\<lambda>x y. m_ID x < m_ID y)" using l'(2) by (intro id_order) (simp add: distinct_map)
qed

lemma delete_spec:
  assumes "inv b" and "Coordinator_Delete B c b i = (None, b')"
  shows "inv b' \<and> content b' (co_prefix c) = (content b (co_prefix c))(i := None) \<and> content b (co_prefix c) i \<noteq> None"
proof -
  obtain ms m where ms: "Coordinator_List B c b = Inr ms" "findMember ms i = Some m"
    using assms(2) by (auto simp: Coordinator_Delete_def split: sum.splits option.splits)
  obtain b1 where b1: "DeleteMember B b (co_prefix c) i = (None, b1)"
    using assms(2) ms by (auto simp: Coordinator_Delete_def split: prod.splits option.splits)
  then have "b' = b1 \<or> b' = snd (RevokeLease B b1 (m_LeaseID m))"
    using assms(2) ms by (auto simp: Coordinator_Delete_def split: if_splits)
  then show ?thesis
    using delete_content [OF assms(1) b1] revoke_content [of b1 "m_LeaseID m"] find_spec [OF assms(1) ms(1)] ms(2) by auto
qed

text \<open>Rendezvous hashing moves only what it must when a member goes.\<close>

lemma disruption:
  assumes "inv b" and "0 < co_replicationFactor c" and "Coordinator_List B c b = Inr ms" and "Resolve B sha hex c b k = Inr a"
    and "Coordinator_Delete B c b i = (None, b')" and "Coordinator_List B c b' = Inr ms'"
  shows "case Resolve B sha hex c b' k of
      Inl _ \<Rightarrow> map m_ID (owners a) = [i]
    | Inr a' \<Rightarrow> prefix (filter (\<lambda>m. m_ID m \<noteq> i) (owners a)) (owners a') \<and> (i \<notin> m_ID ` set (owners a) \<longrightarrow> a' = a)"
proof -
  let ?n = "nat (co_replicationFactor c)" and ?r = "ranking sha k ms"
  note l = list_spec [OF assms(1,3)]
  have "inv b'" "content b' (co_prefix c) = (content b (co_prefix c))(i := None)" using delete_spec [OF assms(1,5)] by simp_all
  then have "ms' = filter (\<lambda>m. m_ID m \<noteq> i) ms" using list_delete [OF assms(1,3) _ assms(6)] by simp
  then have r: "ranking sha k ms' = filter (\<lambda>m. m_ID m \<noteq> i) ?r" using ranking_filter [OF l(2)] by simp
  note o = Resolve_owners [OF assms(3,2,4)]
  show ?thesis
  proof (cases "Resolve B sha hex c b' k")
    case (Inl err)
    then have "filter (\<lambda>m. m_ID m \<noteq> i) ?r = []" using r by (auto simp: Resolve_ranking [OF assms(6,2)] Let_def split: if_splits)
    then have "set (map m_ID ?r) \<subseteq> {i}" "distinct (map m_ID ?r)"
      using ranking_distinct [OF l(2)] by (auto simp: filter_empty_conv)
    then have "map m_ID ?r = [i]" using o(2)
      by (cases ?r; cases "tl ?r") auto
    then have "length ?r = 1" by (metis length_map length_Cons list.size(3) One_nat_def)
    then have "owners a = ?r" using o(1) assms(2) by simp
    then show ?thesis using Inl \<open>map m_ID ?r = [i]\<close> by simp
  next
    case (Inr a')
    note o' = Resolve_owners [OF assms(6,2) Inr]
    have "prefix (filter (\<lambda>m. m_ID m \<noteq> i) (owners a)) (owners a')"
      using take_filter_prefix by (simp add: o(1) o'(1) r)
    moreover have "a' = a" if "i \<notin> m_ID ` set (owners a)"
    proof -
      have "\<forall>m \<in> set (take ?n ?r). m_ID m \<noteq> i" using that o(1) by auto
      then show ?thesis using o o' r by (intro assignment_eqI) (simp_all add: take_filter_id)
    qed
    ultimately show ?thesis using Inr by simp
  qed
qed

lemma upsert_spec:
  assumes "inv b" and "upsert_loop B now p cur ds n b = (Inr n', b')" and "distinct (map m_ID ds)"
  shows "inv b' \<and> n' = n + int (length ds) \<and> (\<forall>i. i \<notin> m_ID ` set ds \<longrightarrow> content b' p i = content b p i) \<and>
     (\<forall>m \<in> set ds. \<exists>m'. content b' p (m_ID m) = Some m' \<and> reconciled (map_of cur (m_ID m)) m m')"
  using assms
proof (induction ds arbitrary: n b)
  case (Cons d ds)
  define d1 where "d1 = (case map_of cur (m_ID d) of Some existing \<Rightarrow> d\<lparr>m_LeaseID := m_LeaseID existing\<rparr> | None \<Rightarrow> d)"
  define d2 where "d2 = d1\<lparr>m_State := normalizeState (m_State d1), m_UpdatedAt := now n\<rparr>"
  have id: "m_ID d2 = m_ID d" "m_Address d2 = m_Address d" "m_State d2 = normalizeState (m_State d)"
    by (simp_all add: d2_def d1_def split: option.splits)
  have lease: "m_LeaseID d2 = m_LeaseID old" if "map_of cur (m_ID d) = Some old" for old
    using that by (simp add: d2_def d1_def)
  obtain d' b1 where put: "PutMember B b p d2 30 = (Inr d', b1)" and rest: "upsert_loop B now p cur ds (n + 1) b1 = (Inr n', b')"
    using Cons.prems(2) by (auto simp: Let_def d1_def [symmetric] d2_def [symmetric] split: prod.splits sum.splits)
  note pc = put_content [OF Cons.prems(1) put]
  have IH: "inv b' \<and> n' = n + 1 + int (length ds) \<and> (\<forall>i. i \<notin> m_ID ` set ds \<longrightarrow> content b' p i = content b1 p i) \<and>
     (\<forall>m \<in> set ds. \<exists>m'. content b' p (m_ID m) = Some m' \<and> reconciled (map_of cur (m_ID m)) m m')"
    using Cons.IH [OF _ rest] pc Cons.prems(3) by simp
  have "reconciled (map_of cur (m_ID d)) d d'"
  proof (cases "m_LeaseID d2 = 0")
    case True
    then show ?thesis using pc id lease by (auto simp: reconciled_def split: option.splits)
  next
    case False
    then have "d' = d2" using pc by simp
    then show ?thesis using id lease by (auto simp: reconciled_def split: option.splits)
  qed
  moreover have "content b' p (m_ID d) = Some d'" using IH pc id Cons.prems(3) by simp
  ultimately show ?case using IH pc id by auto
qed simp

lemma remove_spec:
  assumes "inv b" and "remove_loop B p des cs n b = (Inr n', b')"
  shows "inv b' \<and> n' = n + int (length (filter (\<lambda>m. map_of des (m_ID m) = None) cs)) \<and>
     (\<forall>i. content b' p i = (if i \<in> m_ID ` set cs \<and> map_of des i = None then None else content b p i))"
  using assms
proof (induction cs arbitrary: n b)
  case (Cons c cs)
  show ?case
  proof (cases "map_of des (m_ID c)")
    case None
    then obtain b1 where del: "DeleteMember B b p (m_ID c) = (None, b1)"
      and rest: "remove_loop B p des cs (n + 1) (if m_LeaseID c \<noteq> 0 then snd (RevokeLease B b1 (m_LeaseID c)) else b1) = (Inr n', b')"
      using Cons.prems(2) by (auto split: prod.splits option.splits)
    let ?b2 = "if m_LeaseID c \<noteq> 0 then snd (RevokeLease B b1 (m_LeaseID c)) else b1"
    have "inv ?b2" "content ?b2 p = (content b p)(m_ID c := None)"
      using delete_content [OF Cons.prems(1) del] revoke_content [of b1 "m_LeaseID c"] by simp_all
    then show ?thesis using Cons.IH [OF _ rest] None by auto
  next
    case (Some d)
    then show ?thesis using Cons.IH [OF Cons.prems(1)] Cons.prems(2) by auto
  qed
qed simp

lemma reconcile_spec:
  assumes "inv b" and "Reconcile B now c b desired = (Inr rep, b')" and "distinct (map m_ID desired)"
  shows "inv b' \<and> dom (content b' (co_prefix c)) = m_ID ` set desired \<and> rc_Upserted rep = int (length desired) \<and>
     Coordinator_List B c b' = Inr (rc_Members rep) \<and>
     (\<forall>m \<in> set desired. \<exists>m'. content b' (co_prefix c) (m_ID m) = Some m' \<and> reconciled (content b (co_prefix c) (m_ID m)) m m')"
proof -
  let ?p = "co_prefix c"
  obtain cur where cur: "Coordinator_List B c b = Inr cur"
    using assms(2) by (auto simp: Reconcile_def split: sum.splits)
  let ?byID = "fold (\<lambda>m. AList.update (m_ID m) m) cur []"
  obtain des where des: "validate_all desired [] = Inr des"
    using assms(2) cur by (auto simp: Reconcile_def Let_def split: sum.splits)
  obtain u b1 where u: "upsert_loop B now ?p ?byID desired 0 b = (Inr u, b1)"
    using assms(2) cur des by (auto simp: Reconcile_def Let_def split: sum.splits prod.splits)
  obtain r b2 where r: "remove_loop B ?p des cur 0 b1 = (Inr r, b2)"
    using assms(2) cur des u by (auto simp: Reconcile_def Let_def split: sum.splits prod.splits)
  obtain ms where ms: "Coordinator_List B c b2 = Inr ms" "rep = \<lparr>rc_Upserted = u, rc_Removed = r, rc_Members = ms\<rparr>" "b' = b2"
    using assms(2) cur des u r by (auto simp: Reconcile_def Let_def split: sum.splits)
  have by_id: "map_of ?byID i = content b ?p i" for i
    using map_of_by_id list_spec(2) [OF assms(1) cur] find_spec [OF assms(1) cur] by simp
  note us = upsert_spec [OF assms(1) u assms(3)]
  then have rs: "inv b2" "\<And>i. content b2 ?p i = (if i \<in> m_ID ` set cur \<and> map_of des i = None then None else content b1 ?p i)"
    using remove_spec [of b1 ?p des cur 0 r b2] r by simp_all
  have dd: "map_of des i = None \<longleftrightarrow> i \<notin> m_ID ` set desired" for i
    using validate_all_dom [OF des] by (metis domIff)
  have ids: "i \<in> m_ID ` set cur \<longleftrightarrow> content b ?p i \<noteq> None" for i
    using findMember_None [of cur i] find_spec [OF assms(1) cur] by simp
  have "content b2 ?p i \<noteq> None \<longleftrightarrow> i \<in> m_ID ` set desired" for i
    using rs(2) [of i] dd [of i] ids [of i] us by (cases "i \<in> m_ID ` set desired") auto
  then have "dom (content b2 ?p) = m_ID ` set desired" by (auto simp: dom_def)
  moreover have "\<exists>m'. content b2 ?p (m_ID m) = Some m' \<and> reconciled (content b ?p (m_ID m)) m m'" if "m \<in> set desired" for m
    using that us rs(2) [of "m_ID m"] dd [of "m_ID m"] by_id by auto
  ultimately show ?thesis using rs(1) ms us by simp
qed

end

section \<open>The in-memory backend meets the contract\<close>

definition wf_backend :: "memory_backend \<Rightarrow> bool" where
  "wf_backend b \<longleftrightarrow> wf_map (mb_members b) \<and> (\<forall>(i, m) \<in> set (mb_members b). m_ID m = i)"

lemma wf_NewMemoryBackend: "wf_backend NewMemoryBackend"
  by (simp add: wf_backend_def NewMemoryBackend_def)

lemma Memory_PutMember_spec:
  "\<exists>l b1. Memory_PutMember b p m ttl =
       (Inr (m\<lparr>m_LeaseID := l\<rparr>), b1\<lparr>mb_members := AList.update (m_ID m) (m\<lparr>m_LeaseID := l\<rparr>) (mb_members b)\<rparr>) \<and>
     (m_LeaseID m \<noteq> 0 \<longrightarrow> l = m_LeaseID m)"
proof (cases "0 < ttl \<and> m_LeaseID m = 0")
  case True
  let ?b = "b\<lparr>mb_nextID := mb_nextID b + 1, mb_leases := List.insert (mb_nextID b + 1) (mb_leases b)\<rparr>"
  show ?thesis using True by (intro exI [of _ "mb_nextID b + 1"] exI [of _ ?b]) (simp add: Memory_PutMember_def)
next
  case False
  then show ?thesis by (intro exI [of _ "m_LeaseID m"] exI [of _ b]) (auto simp: Memory_PutMember_def)
qed

lemma set_update_members: "set (AList.update k v m) \<subseteq> insert (k, v) (set m)"
  by (induction m) auto

interpretation memory_ring: ring_backend MemoryBackend wf_backend "\<lambda>b _. map_of (mb_members b)"
proof
  fix b b' i m m' ms ttl l p
  assume w: "wf_backend b"
  then have wm: "wf_map (mb_members b)" by (simp add: wf_backend_def)
  show "m_ID m = i" if "map_of (mb_members b) i = Some m"
    using w map_of_SomeD [OF that] unfolding wf_backend_def by blast
  show "set ms = ran (map_of (mb_members b))" if "ListMembers MemoryBackend b p = Inr ms"
    using that wm by (clarsimp simp: MemoryBackend_def Memory_ListMembers_def wf_map_def ran_distinct)
  show "wf_backend b' \<and> map_of (mb_members b') = (map_of (mb_members b))(m_ID m \<mapsto> m') \<and> (\<exists>l. m' = m\<lparr>m_LeaseID := l\<rparr>) \<and> (m_LeaseID m \<noteq> 0 \<longrightarrow> m' = m)"
    if "PutMember MemoryBackend b p m ttl = (Inr m', b')"
  proof -
    obtain l b1 where put: "Memory_PutMember b p m ttl =
        (Inr (m\<lparr>m_LeaseID := l\<rparr>), b1\<lparr>mb_members := AList.update (m_ID m) (m\<lparr>m_LeaseID := l\<rparr>) (mb_members b)\<rparr>)"
      and l: "m_LeaseID m \<noteq> 0 \<longrightarrow> l = m_LeaseID m"
      using Memory_PutMember_spec [of b p m ttl] by blast
    have m': "m' = m\<lparr>m_LeaseID := l\<rparr>" and b1: "b' = b1\<lparr>mb_members := AList.update (m_ID m) m' (mb_members b)\<rparr>"
      using that put by (auto simp: MemoryBackend_def)
    have "wf_backend b'" using w set_update_members [of "m_ID m" m' "mb_members b"] by (auto simp: wf_backend_def b1 m')
    then show ?thesis using l m' by (auto simp: b1 update_conv')
  qed
  show "wf_backend b' \<and> map_of (mb_members b') = (map_of (mb_members b))(i := None)" if "DeleteMember MemoryBackend b p i = (None, b')"
    using that w by (auto simp: MemoryBackend_def Memory_DeleteMember_def wf_backend_def AList.delete_eq wf_map_def
        distinct_map_filter delete_conv' [unfolded AList.delete_eq])
  show "wf_backend (snd (RefreshLease MemoryBackend b l)) \<and>
      (\<lambda>_. map_of (mb_members (snd (RefreshLease MemoryBackend b l)))) = (\<lambda>_. map_of (mb_members b))"
    using w by (simp add: MemoryBackend_def Memory_RefreshLease_def)
  show "wf_backend (snd (RevokeLease MemoryBackend b l)) \<and>
      (\<lambda>_. map_of (mb_members (snd (RevokeLease MemoryBackend b l)))) = (\<lambda>_. map_of (mb_members b))"
    using w by (simp add: MemoryBackend_def Memory_RevokeLease_def wf_backend_def)
qed

lemma memory_lists: "\<exists>ms. Coordinator_List MemoryBackend c b = Inr ms"
  by (simp add: Coordinator_List_def MemoryBackend_def Memory_ListMembers_def)

lemma mset_members:
  assumes "distinct (map m_ID ms)" and "set ms = snd ` set (mb_members b)" and "wf_backend b"
  shows "mset ms = mset (map snd (mb_members b))"
proof -
  have "map m_ID (map snd (mb_members b)) = map fst (mb_members b)"
    using assms(3) by (auto simp: wf_backend_def)
  then have "distinct (map m_ID (map snd (mb_members b)))" using assms(3) unfolding wf_backend_def wf_map_def by metis
  then have "distinct ms" "distinct (map snd (mb_members b))" using assms(1) by (metis distinct_map)+
  then show ?thesis using assms(2) set_eq_iff_mset_eq_distinct [of ms "map snd (mb_members b)"] by simp
qed

lemma replication_positive [simp]: "0 < co_replicationFactor (NewCoordinator p rf)"
  by (simp add: NewCoordinator_def)

lemma memory_upserts: "\<exists>n' b'. upsert_loop MemoryBackend now p cur ds n b = (Inr n', b')"
proof (induction ds arbitrary: n b)
  case (Cons d ds)
  obtain m' b1 where "PutMember MemoryBackend b p ((case map_of cur (m_ID d) of Some existing \<Rightarrow> d\<lparr>m_LeaseID := m_LeaseID existing\<rparr> | None \<Rightarrow> d)
      \<lparr>m_State := normalizeState (m_State (case map_of cur (m_ID d) of Some existing \<Rightarrow> d\<lparr>m_LeaseID := m_LeaseID existing\<rparr> | None \<Rightarrow> d)),
        m_UpdatedAt := now n\<rparr>) 30 = (Inr m', b1)"
    using Memory_PutMember_spec by (metis MemoryBackend_def backend.select_convs(1))
  then show ?case using Cons by (simp add: Let_def)
qed simp

lemma memory_removes: "\<exists>n' b'. remove_loop MemoryBackend p des cs n b = (Inr n', b')"
  by (induction cs arbitrary: n b) (simp_all add: MemoryBackend_def Memory_DeleteMember_def)

lemma memory_reconciles:
  assumes "\<forall>m \<in> set desired. Member_Validate m = None"
  shows "\<exists>rep b'. Reconcile MemoryBackend now c b desired = (Inr rep, b')"
proof -
  obtain cur where cur: "Coordinator_List MemoryBackend c b = Inr cur" using memory_lists by blast
  obtain des where des: "validate_all desired [] = Inr des" using validate_all_ok [OF assms] by blast
  obtain u b1 where u: "upsert_loop MemoryBackend now (co_prefix c) (fold (\<lambda>m. AList.update (m_ID m) m) cur []) desired 0 b = (Inr u, b1)"
    using memory_upserts by blast
  obtain r b2 where r: "remove_loop MemoryBackend (co_prefix c) des cur 0 b1 = (Inr r, b2)" using memory_removes by blast
  obtain ms where "Coordinator_List MemoryBackend c b2 = Inr ms" using memory_lists by blast
  then show ?thesis using cur des u r by (simp add: Reconcile_def)
qed

section \<open>Properties\<close>

lemma members_of_ranking:
  assumes "wf_backend b" and "set ms = snd ` set (mb_members b)" and "m \<in> set (ranking sha k ms)"
  shows "is_ready m \<and> (m_ID m, m) \<in> set (mb_members b)"
proof -
  obtain i where "(i, m) \<in> set (mb_members b)" "is_ready m" using assms(2,3) by auto
  moreover from this have "m_ID m = i" using assms(1) unfolding wf_backend_def by blast
  ultimately show ?thesis by simp
qed

lemma ready_count:
  assumes "wf_backend b" and "distinct (map m_ID ms)" and "set ms = snd ` set (mb_members b)"
  shows "length (ranking sha k ms) = length (filter (\<lambda>(i, m). is_ready m) (mb_members b))"
proof -
  have "mset ms = mset (map snd (mb_members b))" using assms(2,3,1) by (rule mset_members)
  then have "mset (filter is_ready ms) = mset (filter is_ready (map snd (mb_members b)))" by simp
  then have "length (filter is_ready ms) = length (filter is_ready (map snd (mb_members b)))" by (metis size_mset)
  then show ?thesis by (simp add: ranking_length ready_members_ready filter_map comp_def case_prod_unfold)
qed

text \<open>
  C31. Placement is right: a stream resolves exactly when some member is ready, and then to distinct ready
  members, as many as the replication factor allows, such that no ready member left out scores higher than
  one chosen.
\<close>

theorem resolve_placement:
  assumes "wf_backend b" and "c = NewCoordinator p rf"
  shows "case Resolve MemoryBackend sha hex c b k of
      Inl _ \<Rightarrow> (\<forall>(i, m) \<in> set (mb_members b). \<not> is_ready m)
    | Inr a \<Rightarrow> distinct (map m_ID (owners a)) \<and>
        set (owners a) \<subseteq> {m. is_ready m \<and> (m_ID m, m) \<in> set (mb_members b)} \<and>
        length (owners a) = min (nat (co_replicationFactor c)) (length (filter (\<lambda>(i, m). is_ready m) (mb_members b))) \<and>
        (\<forall>m \<in> set (owners a). \<forall>(i, n) \<in> set (mb_members b). is_ready n \<longrightarrow> n \<notin> set (owners a) \<longrightarrow> score sha k n \<le> score sha k m)"
proof -
  obtain ms where ms: "Coordinator_List MemoryBackend c b = Inr ms" using memory_lists by blast
  let ?r = "ranking sha k ms" and ?n = "nat (co_replicationFactor c)"
  have rf: "0 < co_replicationFactor c" by (simp add: assms(2))
  have wm: "distinct (map fst (mb_members b))" using assms(1) by (simp add: wf_backend_def wf_map_def)
  note l = memory_ring.list_spec [OF assms(1) ms]
  have set: "set ms = snd ` set (mb_members b)" using l(1) wm by (simp add: ran_distinct)
  have r: "set ?r = {m \<in> snd ` set (mb_members b). is_ready m}" using set by simp
  show ?thesis
  proof (cases "Resolve MemoryBackend sha hex c b k")
    case (Inl err)
    then have "?r = []" by (auto simp: Resolve_ranking [OF ms rf] Let_def split: if_splits)
    then have "set ?r = {}" by simp
    then show ?thesis using Inl r by auto
  next
    case (Inr a)
    note o = Resolve_owners [OF ms rf Inr]
    have d: "distinct (map m_ID ?r)" using l(2) by (rule ranking_distinct)
    have "distinct (map m_ID (owners a))" using d by (simp add: o(1) take_map [symmetric])
    moreover have "set (owners a) \<subseteq> {m. is_ready m \<and> (m_ID m, m) \<in> set (mb_members b)}"
      using members_of_ranking [OF assms(1) set] o(1) by (auto dest: in_set_takeD)
    moreover have "length ?r = length (filter (\<lambda>(i, m). is_ready m) (mb_members b))" using ready_count [OF assms(1) l(2) set] .
    then have "length (owners a) = min ?n (length (filter (\<lambda>(i, m). is_ready m) (mb_members b)))"
      by (simp add: o(1) min.commute)
    moreover have "score sha k n \<le> score sha k m"
      if "m \<in> set (owners a)" "(i, n) \<in> set (mb_members b)" "is_ready n" "n \<notin> set (owners a)" for m n i
    proof -
      have "n \<in> set ?r" using that(2,3) r by force
      then have "n \<in> set (drop ?n ?r)" using that(4) o(1) by (metis Un_iff append_take_drop_id set_append)
      moreover have "m \<in> set (take ?n ?r)" using that(1) o(1) by simp
      ultimately have "preferred (m, score sha k m) (n, score sha k n)"
        using sorted_wrt_take_drop [OF ranking_sorted [OF l(2)]] by blast
      then show ?thesis by (auto simp: preferred_def split: if_splits)
    qed
    ultimately show ?thesis using Inr by auto
  qed
qed

definition sample_member :: "string \<Rightarrow> member" where
  "sample_member i = \<lparr>m_ID = i, m_Address = i @ '':9095'', m_Zone = [], m_State = StateReady, m_LeaseID = 0, m_UpdatedAt = 0\<rparr>"

definition sample_ring :: memory_backend where
  "sample_ring = \<lparr>mb_members = [(''a'', sample_member ''a''), (''b'', sample_member ''b''), (''c'', sample_member ''c'')],
     mb_leases = [], mb_nextID = 100\<rparr>"

lemma wf_sample_ring: "wf_backend sample_ring"
  by (simp add: wf_backend_def wf_map_def sample_ring_def sample_member_def)

lemma sample_ring_members: "mb_members sample_ring = [(''a'', sample_member ''a''), (''b'', sample_member ''b''), (''c'', sample_member ''c'')]"
  by (simp add: sample_ring_def)

lemma sample_resolve:
  "Resolve MemoryBackend id id (NewCoordinator ''/ring'' 2) sample_ring ''s'' =
     Inr \<lparr>as_StreamKey = ''s'', as_Fingerprint = ''s'', as_Primary = sample_member ''c'', as_Replicas = [sample_member ''b'']\<rparr>"
  by code_simp

theorem resolve_placement_witness:
  "wf_backend sample_ring \<and>
   Resolve MemoryBackend id id (NewCoordinator ''/ring'' 2) sample_ring ''s'' =
     Inr \<lparr>as_StreamKey = ''s'', as_Fingerprint = ''s'', as_Primary = sample_member ''c'', as_Replicas = [sample_member ''b'']\<rparr> \<and>
   score id ''s'' (sample_member ''a'') \<le> score id ''s'' (sample_member ''b'')"
proof -
  have "is_ready (sample_member ''a'')" "sample_member ''a'' \<noteq> sample_member ''c''" "sample_member ''a'' \<noteq> sample_member ''b''"
    by (simp_all add: is_ready_def normalizeState_def sample_member_def)
  then show ?thesis
    using resolve_placement [where c = "NewCoordinator ''/ring'' 2" and sha = id and hex = id and k = "''s''", OF wf_sample_ring refl] wf_sample_ring
    by (simp add: sample_resolve owners_def sample_ring_members)
qed

text \<open>
  C32. Rendezvous hashing disturbs only the streams of the member that goes: after a \<open>Delete\<close> the members that
  remain among a stream's owners stay its owners in the same order at the front, so that a primary is
  replaced by its first replica; a stream that the deleted member did not own keeps its assignment; and a
  stream becomes unplaceable only when the deleted member was its sole owner.
\<close>

theorem resolve_minimal_disruption:
  assumes "wf_backend b" and "c = NewCoordinator p rf" and "Resolve MemoryBackend sha hex c b k = Inr a"
    and "Coordinator_Delete MemoryBackend c b i = (None, b')"
  shows "case Resolve MemoryBackend sha hex c b' k of
      Inl _ \<Rightarrow> map m_ID (owners a) = [i]
    | Inr a' \<Rightarrow> prefix (filter (\<lambda>m. m_ID m \<noteq> i) (owners a)) (owners a') \<and> (i \<notin> m_ID ` set (owners a) \<longrightarrow> a' = a)"
proof -
  obtain ms ms' where "Coordinator_List MemoryBackend c b = Inr ms" "Coordinator_List MemoryBackend c b' = Inr ms'"
    using memory_lists by blast
  then show ?thesis using memory_ring.disruption [OF assms(1) _ _ assms(3,4)] assms(2) by simp
qed

theorem resolve_minimal_disruption_witness:
  "Resolve MemoryBackend id id (NewCoordinator ''/ring'' 2)
      (snd (Coordinator_Delete MemoryBackend (NewCoordinator ''/ring'' 2) sample_ring ''a'')) ''s'' =
   Resolve MemoryBackend id id (NewCoordinator ''/ring'' 2) sample_ring ''s''"
proof -
  let ?c = "NewCoordinator ''/ring'' 2" and ?d = "Coordinator_Delete MemoryBackend (NewCoordinator ''/ring'' 2) sample_ring ''a''"
  have "fst ?d = None" by code_simp
  then have d: "?d = (None, snd ?d)" by (metis prod.collapse)
  have "\<not> isl (Resolve MemoryBackend id id ?c (snd ?d) ''s'')" by code_simp
  then obtain a' where a': "Resolve MemoryBackend id id ?c (snd ?d) ''s'' = Inr a'" using sum.collapse(2) by metis
  have "''a'' \<notin> m_ID ` set (owners \<lparr>as_StreamKey = ''s'', as_Fingerprint = ''s'', as_Primary = sample_member ''c'', as_Replicas = [sample_member ''b'']\<rparr>)"
    by (simp add: owners_def sample_member_def)
  then show ?thesis
    using resolve_minimal_disruption [OF wf_sample_ring refl sample_resolve d] unfolding a' sample_resolve sum.case by blast
qed

text \<open>
  Reconciliation converges: on valid desired members with distinct ids it succeeds and leaves exactly the
  desired members, each with its address and normalised state, those already known with the lease they
  held; the report lists them in the order of their ids.
\<close>

theorem reconcile_converges:
  assumes "wf_backend b" and "\<forall>m \<in> set desired. Member_Validate m = None" and "distinct (map m_ID desired)"
  shows "\<exists>rep b'. Reconcile MemoryBackend now c b desired = (Inr rep, b') \<and> wf_backend b' \<and>
     map m_ID (rc_Members rep) = sort (map m_ID desired) \<and> rc_Upserted rep = int (length desired) \<and>
     (\<forall>m \<in> set desired. \<exists>m' \<in> set (rc_Members rep). reconciled (map_of (mb_members b) (m_ID m)) m m')"
proof -
  obtain rep b' where rec: "Reconcile MemoryBackend now c b desired = (Inr rep, b')" using memory_reconciles [OF assms(2)] by blast
  note spec = memory_ring.reconcile_spec [OF assms(1) rec assms(3)]
  then have l: "Coordinator_List MemoryBackend c b' = Inr (rc_Members rep)" and w: "wf_backend b'" by simp_all
  note ls = memory_ring.list_spec [OF w l]
  have "m_ID ` set (rc_Members rep) = dom (map_of (mb_members b'))"
    using ls(1) memory_ring.content_id [OF w] by (force simp: ran_def dom_def image_iff)
  then have ids: "set (map m_ID (rc_Members rep)) = set (map m_ID desired)" using spec by simp
  have "sorted (map m_ID (rc_Members rep))"
    unfolding sorted_map using ls(3) by (rule sorted_wrt_mono_rel [rotated]) simp
  moreover have "mset (map m_ID (rc_Members rep)) = mset (map m_ID desired)"
    using ids ls(2) assms(3) set_eq_iff_mset_eq_distinct [of "map m_ID (rc_Members rep)" "map m_ID desired"] by simp
  ultimately have "map m_ID (rc_Members rep) = sort (map m_ID desired)" by (metis properties_for_sort)
  moreover have "\<exists>m' \<in> set (rc_Members rep). reconciled (map_of (mb_members b) (m_ID m)) m m'" if "m \<in> set desired" for m
    using that spec ls(1) by (metis ranI)
  ultimately show ?thesis using rec w spec by blast
qed

theorem reconcile_converges_witness:
  "\<exists>rep b'. Reconcile MemoryBackend (\<lambda>_. 7) (NewCoordinator ''/ring'' 2) sample_ring [sample_member ''d'', sample_member ''a''] = (Inr rep, b') \<and>
     map m_ID (rc_Members rep) = [''a'', ''d'']"
proof -
  have "Member_Validate (sample_member ''d'') = None" "Member_Validate (sample_member ''a'') = None" by code_simp+
  moreover have "sort [''d'', ''a''] = [''a'', ''d'']" by code_simp
  ultimately show ?thesis
    using reconcile_converges [OF wf_sample_ring, of "[sample_member ''d'', sample_member ''a'']" "\<lambda>_. 7" "NewCoordinator ''/ring'' 2"]
    by (auto simp: sample_member_def)
qed

end
