(* ===== verification/Tenant_Store.thy ===== *)
theory Tenant_Store
  imports Core_Model Object_Store
begin

text \<open>
  Package \<open>internal/engine/tenant\<close>: the tenant store, in memory with an optional snapshot file that is
  rewritten on every \<open>Put\<close> and read again when its modification time changes. The JSON codec of the snapshot
  is the parameter \<open>codec\<close>; the file system with its faults is that of \<open>Object_Store\<close>; the empty snapshot path
  is the empty list of components. The locale \<open>tenant_repository\<close> is the contract of the \<open>Repository\<close> interface.
\<close>

section \<open>Data\<close>

record snapshot =
  sn_Version :: int
  sn_Tenants :: "tenant_config list"

record snapshot_codec =
  sn_Marshal :: "snapshot \<Rightarrow> string result"
  sn_Unmarshal :: "string \<Rightarrow> snapshot result"

record tenant_store =
  ts_tenants :: "(string, tenant_config) gomap"
  ts_version :: int
  ts_snapshotPath :: path
  ts_modTime :: time

section \<open>Operations\<close>

definition DefaultTenantConfig :: "time \<Rightarrow> tenant_config" where
  "DefaultTenantConfig now =
     \<lparr>t_ID = ''default'', t_Name = ''Default Tenant'', t_Version = 1, t_UpdatedAt = now, t_Protected = False, t_LegalHoldUntil = 0,
      t_SearchableFields = [''service'', ''namespace'', ''host'', ''status_code'', ''component''],
      t_ReservedLabels = [''service'', ''namespace'', ''cluster'', ''env'', ''severity'', ''region''],
      t_LabelPromotionAllow = [''service'', ''namespace'', ''cluster'', ''env'', ''severity'', ''region'', ''host''],
      t_LabelPromotionDeny = [''request_id'', ''user_id'', ''trace_id'', ''span_id'', ''pod_uid''],
      t_StructuredFieldPolicy = [], t_Pipelines = [], t_ActivePipelineID = [],
      t_Limits = \<lparr>IngestRateMBPerSecond = 50, QueryConcurrency = 8, MaxLabelsPerStream = 12, MaxBodyBytes = 256 * 1024,
        MaxParsedFields = 64, MaxFieldValueBytes = 2048, RetentionClass = ''standard'', Retention = 7 * 24 * hour\<rparr>\<rparr>"

definition NewTenantStore :: tenant_store where
  "NewTenantStore = \<lparr>ts_tenants = [], ts_version = 0, ts_snapshotPath = [], ts_modTime = 0\<rparr>"

definition NewStoreWithDefaults :: "time \<Rightarrow> tenant_store" where
  "NewStoreWithDefaults now =
     (let store = NewTenantStore; defaultTenant = DefaultTenantConfig now
      in store\<lparr>ts_tenants := AList.update (t_ID defaultTenant) defaultTenant (ts_tenants store), ts_version := t_Version defaultTenant\<rparr>)"

definition GetTenant :: "tenant_store \<Rightarrow> string \<Rightarrow> tenant_config result" where
  "GetTenant s tenantID = (case map_of (ts_tenants s) tenantID of None \<Rightarrow> Inl ErrTenantNotFound | Some t \<Rightarrow> Inr t)"

definition Tenant_List :: "tenant_store \<Rightarrow> tenant_config list" where
  "Tenant_List s = map (\<lambda>key. the (map_of (ts_tenants s) key)) (sort (map fst (ts_tenants s)))"

text \<open>The loop of \<open>Reload\<close> over the tenants of the snapshot.\<close>

fun load_tenants :: "tenant_config list \<Rightarrow> (string, tenant_config) gomap \<Rightarrow> (string, tenant_config) gomap result" where
  "load_tenants [] tenants = Inr tenants"
| "load_tenants (t # ts) tenants = (case TenantConfig_Validate t of Some err \<Rightarrow> Inl err
     | None \<Rightarrow> load_tenants ts (AList.update (t_ID t) t tenants))"

definition touch_modTime :: "tenant_store \<Rightarrow> fsys \<Rightarrow> tenant_store \<times> fsys" where
  "touch_modTime s fs = (case os_Stat fs (ts_snapshotPath s) of
     (Inr (_, mtime), fs) \<Rightarrow> (s\<lparr>ts_modTime := mtime\<rparr>, fs) | (Inl _, fs) \<Rightarrow> (s, fs))"

definition Reload :: "snapshot_codec \<Rightarrow> tenant_store \<Rightarrow> fsys \<Rightarrow> goerror option \<times> tenant_store \<times> fsys" where
  "Reload codec s fs =
     (if ts_snapshotPath s = [] then (None, s, fs) else
      case os_ReadFile fs (ts_snapshotPath s) of (Inl err, fs) \<Rightarrow> (Some err, s, fs) | (Inr data, fs) \<Rightarrow>
      case sn_Unmarshal codec data of Inl err \<Rightarrow> (Some err, s, fs) | Inr snap \<Rightarrow>
      case load_tenants (sn_Tenants snap) [] of Inl err \<Rightarrow> (Some err, s, fs) | Inr tenants \<Rightarrow>
        (None, touch_modTime (s\<lparr>ts_tenants := tenants, ts_version := sn_Version snap\<rparr>) fs))"

definition NewPersistentStore :: "snapshot_codec \<Rightarrow> time \<Rightarrow> fsys \<Rightarrow> path \<Rightarrow> tenant_store result \<times> fsys" where
  "NewPersistentStore codec now fs snapshotPath =
     (case Reload codec ((NewStoreWithDefaults now)\<lparr>ts_snapshotPath := snapshotPath\<rparr>) fs of
        (Some err, s, fs) \<Rightarrow> if \<not> errors_is err ErrNotExist then (Inl err, fs) else (Inr s, fs)
      | (None, s, fs) \<Rightarrow> (Inr s, fs))"

definition ReloadIfModified :: "snapshot_codec \<Rightarrow> tenant_store \<Rightarrow> fsys \<Rightarrow> bool result \<times> tenant_store \<times> fsys" where
  "ReloadIfModified codec s fs =
     (if ts_snapshotPath s = [] then (Inr False, s, fs) else
      case os_Stat fs (ts_snapshotPath s) of
        (Inl err, fs) \<Rightarrow> if errors_is err ErrNotExist then (Inr False, s, fs) else (Inl err, s, fs)
      | (Inr (_, mtime), fs) \<Rightarrow>
          if \<not> ts_modTime s < mtime then (Inr False, s, fs)
          else case Reload codec s fs of (Some err, s, fs) \<Rightarrow> (Inl err, s, fs) | (None, s, fs) \<Rightarrow> (Inr True, s, fs))"

definition saveLocked :: "snapshot_codec \<Rightarrow> time \<Rightarrow> tenant_store \<Rightarrow> fsys \<Rightarrow> goerror option \<times> tenant_store \<times> fsys" where
  "saveLocked codec now s fs =
     (if ts_snapshotPath s = [] then (None, s, fs) else
      case os_MkdirAll fs (butlast (ts_snapshotPath s)) of (Some err, fs) \<Rightarrow> (Some err, s, fs) | (None, fs) \<Rightarrow>
      let snap = \<lparr>sn_Version = ts_version s,
            sn_Tenants = map (\<lambda>key. the (map_of (ts_tenants s) key)) (sort (map fst (ts_tenants s)))\<rparr> in
      case sn_Marshal codec snap of Inl err \<Rightarrow> (Some err, s, fs) | Inr data \<Rightarrow>
      case os_WriteFile now fs (ts_snapshotPath s) data of (Some err, fs) \<Rightarrow> (Some err, s, fs) | (None, fs) \<Rightarrow>
        (None, touch_modTime s fs))"

definition Tenant_Put :: "snapshot_codec \<Rightarrow> time \<Rightarrow> tenant_store \<Rightarrow> fsys \<Rightarrow> tenant_config \<Rightarrow> goerror option \<times> tenant_store \<times> fsys" where
  "Tenant_Put codec now s fs tenant =
     (case TenantConfig_Validate tenant of Some err \<Rightarrow> (Some err, s, fs) | None \<Rightarrow>
      let version = ts_version s + 1;
          tenant = tenant\<lparr>t_Version := version, t_UpdatedAt := now\<rparr>
      in saveLocked codec now (s\<lparr>ts_version := version, ts_tenants := AList.update (t_ID tenant) tenant (ts_tenants s)\<rparr>) fs)"

section \<open>The contract of a tenant repository\<close>

text \<open>Tenants are filed under their id, valid, and no newer than the store.\<close>

definition wf_tenants :: "tenant_store \<Rightarrow> bool" where
  "wf_tenants s \<longleftrightarrow> wf_map (ts_tenants s) \<and>
     (\<forall>(i, t) \<in> set (ts_tenants s). t_ID t = i \<and> TenantConfig_Validate t = None \<and> t_Version t \<le> ts_version s)"

locale tenant_repository =
  fixes inv :: "'s \<Rightarrow> bool" and lookup :: "'s \<Rightarrow> string \<Rightarrow> tenant_config option" and version :: "'s \<Rightarrow> int"
    and put :: "time \<Rightarrow> 's \<Rightarrow> tenant_config \<Rightarrow> goerror option \<times> 's"
    and get :: "'s \<Rightarrow> string \<Rightarrow> tenant_config result"
    and list_of :: "'s \<Rightarrow> tenant_config list"
  assumes put_inv: "inv s \<Longrightarrow> inv (snd (put now s t))"
    and put_ok: "inv s \<Longrightarrow> fst (put now s t) = None \<Longrightarrow>
        lookup (snd (put now s t)) = (lookup s)(t_ID t \<mapsto> t\<lparr>t_Version := version s + 1, t_UpdatedAt := now\<rparr>) \<and>
        version (snd (put now s t)) = version s + 1"
    and put_invalid: "inv s \<Longrightarrow> TenantConfig_Validate t \<noteq> None \<Longrightarrow> fst (put now s t) \<noteq> None \<and> snd (put now s t) = s"
    and versions: "inv s \<Longrightarrow> lookup s i = Some t \<Longrightarrow> t_Version t \<le> version s \<and> TenantConfig_Validate t = None"
    and get_lookup: "inv s \<Longrightarrow> get s i = (case lookup s i of None \<Rightarrow> Inl ErrTenantNotFound | Some t \<Rightarrow> Inr t)"
    and list_lookup: "inv s \<Longrightarrow> set (list_of s) = ran (lookup s)"
    and list_sorted: "inv s \<Longrightarrow> sorted (map t_ID (list_of s)) \<and> distinct (map t_ID (list_of s))"
begin

text \<open>A tenant read back after a change carries a version above every version issued before.\<close>

lemma put_get:
  assumes "inv s" and "fst (put now s t) = None"
  shows "get (snd (put now s t)) (t_ID t) = Inr (t\<lparr>t_Version := version s + 1, t_UpdatedAt := now\<rparr>) \<and>
     (\<forall>i old. get s i = Inr old \<longrightarrow> t_Version old < version s + 1) \<and>
     (\<forall>i. i \<noteq> t_ID t \<longrightarrow> get (snd (put now s t)) i = get s i)"
  using put_ok [OF assms] put_inv [OF assms(1)] versions [OF assms(1)]
  by (auto simp: get_lookup assms(1) split: option.splits)

end

section \<open>The store meets it\<close>

lemma set_alist_update: "wf_map m \<Longrightarrow> set (AList.update k v m) = insert (k, v) {p \<in> set m. fst p \<noteq> k}"
  by (induction m) (auto simp: wf_map_Cons image_iff)

lemma touch_modTime_simps [simp]:
  "ts_tenants (fst (touch_modTime s fs)) = ts_tenants s" "ts_version (fst (touch_modTime s fs)) = ts_version s"
  "ts_snapshotPath (fst (touch_modTime s fs)) = ts_snapshotPath s"
  by (simp_all add: touch_modTime_def split: prod.splits sum.splits)

lemma saveLocked_store [simp]:
  "ts_tenants (fst (snd (saveLocked codec now s fs))) = ts_tenants s"
  "ts_version (fst (snd (saveLocked codec now s fs))) = ts_version s"
  "ts_snapshotPath (fst (snd (saveLocked codec now s fs))) = ts_snapshotPath s"
  by (simp_all add: saveLocked_def Let_def split: prod.splits sum.splits option.splits)

lemma wf_tenants_cong: "ts_tenants s = ts_tenants s' \<Longrightarrow> ts_version s = ts_version s' \<Longrightarrow> wf_tenants s = wf_tenants s'"
  by (simp add: wf_tenants_def)

lemma wf_Tenant_Put [go_inv]: "wf_tenants s \<Longrightarrow> wf_tenants (fst (snd (Tenant_Put codec now s fs t)))"
proof (cases "TenantConfig_Validate t")
  case None
  assume w: "wf_tenants s"
  have "TenantConfig_Validate (t\<lparr>t_Version := v, t_UpdatedAt := u\<rparr>) = TenantConfig_Validate t" for v u
    by (simp add: TenantConfig_Validate_def)
  then show ?thesis using w None
    by (fastforce simp: Tenant_Put_def wf_tenants_def Let_def set_alist_update)
qed (simp add: Tenant_Put_def)

lemma wf_NewStoreWithDefaults: "wf_tenants (NewStoreWithDefaults now)"
proof -
  have "TenantConfig_Validate (DefaultTenantConfig now) = None"
    by (simp add: TenantConfig_Validate_def DefaultTenantConfig_def hour_def minute_def second_def) code_simp
  moreover have "t_ID (DefaultTenantConfig now) = ''default''" "t_Version (DefaultTenantConfig now) = 1"
    by (simp_all add: DefaultTenantConfig_def)
  ultimately show ?thesis by (simp add: wf_tenants_def NewStoreWithDefaults_def NewTenantStore_def wf_map_def)
qed

lemma tenant_ids:
  assumes "wf_tenants s"
  shows "map t_ID (Tenant_List s) = sort (map fst (ts_tenants s))"
proof -
  have "t_ID (the (map_of (ts_tenants s) k)) = k" if k: "k \<in> set (map fst (ts_tenants s))" for k
  proof -
    obtain t where "(k, t) \<in> set (ts_tenants s)" using k by auto
    moreover from this have "map_of (ts_tenants s) k = Some t" using assms by (simp add: wf_tenants_def wf_map_def)
    ultimately show ?thesis using assms unfolding wf_tenants_def by force
  qed
  then show ?thesis unfolding Tenant_List_def map_map by (intro map_idI) simp
qed

lemma tenant_list_set:
  assumes "wf_tenants s"
  shows "set (Tenant_List s) = ran (map_of (ts_tenants s))"
proof -
  have "ran (map_of (ts_tenants s)) = snd ` set (ts_tenants s)"
    using assms by (simp add: ran_distinct wf_tenants_def wf_map_def)
  moreover have "the (map_of (ts_tenants s) (fst p)) = snd p" if "p \<in> set (ts_tenants s)" for p
    using assms that by (cases p) (simp add: wf_tenants_def wf_map_def)
  ultimately show ?thesis by (simp add: Tenant_List_def image_image)
qed

lemma Tenant_Put_content:
  assumes "TenantConfig_Validate t = None"
  shows "map_of (ts_tenants (fst (snd (Tenant_Put codec now s fs t)))) =
      (map_of (ts_tenants s))(t_ID t \<mapsto> t\<lparr>t_Version := ts_version s + 1, t_UpdatedAt := now\<rparr>)"
    and "ts_version (fst (snd (Tenant_Put codec now s fs t))) = ts_version s + 1"
    and "ts_snapshotPath (fst (snd (Tenant_Put codec now s fs t))) = ts_snapshotPath s"
  by (simp_all add: Tenant_Put_def assms Let_def update_conv')

interpretation stored_tenants: tenant_repository "\<lambda>p. wf_tenants (fst p)" "\<lambda>p. map_of (ts_tenants (fst p))" "\<lambda>p. ts_version (fst p)"
  "\<lambda>now p. Tenant_Put codec now (fst p) (snd p)" "\<lambda>p. GetTenant (fst p)" "\<lambda>p. Tenant_List (fst p)" for codec
proof
  fix p :: "tenant_store \<times> fsys" and now t i
  assume w: "wf_tenants (fst p)"
  show "wf_tenants (fst (snd (Tenant_Put codec now (fst p) (snd p) t)))" using w by (rule wf_Tenant_Put)
  show "map_of (ts_tenants (fst (snd (Tenant_Put codec now (fst p) (snd p) t)))) =
        (map_of (ts_tenants (fst p)))(t_ID t \<mapsto> t\<lparr>t_Version := ts_version (fst p) + 1, t_UpdatedAt := now\<rparr>) \<and>
      ts_version (fst (snd (Tenant_Put codec now (fst p) (snd p) t))) = ts_version (fst p) + 1"
    if "fst (Tenant_Put codec now (fst p) (snd p) t) = None"
  proof -
    have "TenantConfig_Validate t = None" using that by (cases "TenantConfig_Validate t") (simp_all add: Tenant_Put_def)
    then show ?thesis by (simp add: Tenant_Put_content)
  qed
  show "fst (Tenant_Put codec now (fst p) (snd p) t) \<noteq> None \<and> snd (Tenant_Put codec now (fst p) (snd p) t) = p"
    if "TenantConfig_Validate t \<noteq> None"
    using that by (auto simp: Tenant_Put_def)
  show "t_Version t \<le> ts_version (fst p) \<and> TenantConfig_Validate t = None" if "map_of (ts_tenants (fst p)) i = Some t"
    using w map_of_SomeD [OF that] unfolding wf_tenants_def by blast
  show "GetTenant (fst p) i = (case map_of (ts_tenants (fst p)) i of None \<Rightarrow> Inl ErrTenantNotFound | Some t \<Rightarrow> Inr t)"
    by (simp add: GetTenant_def)
  show "set (Tenant_List (fst p)) = ran (map_of (ts_tenants (fst p)))" using w by (rule tenant_list_set)
  show "sorted (map t_ID (Tenant_List (fst p))) \<and> distinct (map t_ID (Tenant_List (fst p)))"
    using w by (simp add: tenant_ids) (simp add: wf_tenants_def wf_map_def)
qed

section \<open>Restart\<close>

lemma load_tenants_ok:
  assumes "\<forall>t \<in> set ts. TenantConfig_Validate t = None" and "distinct (map t_ID ts)"
  shows "\<exists>m. load_tenants ts acc = Inr m \<and>
     map_of m = (\<lambda>i. case find (\<lambda>t. t_ID t = i) ts of Some t \<Rightarrow> Some t | None \<Rightarrow> map_of acc i)"
  using assms
proof (induction ts arbitrary: acc)
  case (Cons t ts)
  have n: "find (\<lambda>u. t_ID u = t_ID t) ts = None" using Cons.prems(2) by (auto simp: find_None_iff image_iff)
  obtain m where m: "load_tenants ts (AList.update (t_ID t) t acc) = Inr m"
    "map_of m = (\<lambda>i. case find (\<lambda>t. t_ID t = i) ts of Some t \<Rightarrow> Some t | None \<Rightarrow> map_of (AList.update (t_ID t) t acc) i)"
    using Cons.IH [of "AList.update (t_ID t) t acc"] Cons.prems by auto
  have "map_of m = (\<lambda>i. case find (\<lambda>t. t_ID t = i) (t # ts) of Some t \<Rightarrow> Some t | None \<Rightarrow> map_of acc i)"
  proof
    fix i show "map_of m i = (case find (\<lambda>t. t_ID t = i) (t # ts) of Some t \<Rightarrow> Some t | None \<Rightarrow> map_of acc i)"
      by (cases "t_ID t = i") (use n m(2) in \<open>auto simp: update_conv' split: option.splits\<close>)
  qed
  then show ?case using m(1) Cons.prems(1) by auto
qed simp

lemma load_saved:
  assumes "wf_tenants s"
  shows "\<exists>m. load_tenants (Tenant_List s) [] = Inr m \<and> map_of m = map_of (ts_tenants s)"
proof -
  have valid: "\<forall>t \<in> set (Tenant_List s). TenantConfig_Validate t = None"
    using tenant_list_set [OF assms] assms by (force simp: wf_tenants_def ran_def dest: map_of_SomeD)
  have d: "distinct (map t_ID (Tenant_List s))" using assms by (simp add: tenant_ids) (simp add: wf_tenants_def wf_map_def)
  obtain m where m: "load_tenants (Tenant_List s) [] = Inr m"
    "map_of m = (\<lambda>i. case find (\<lambda>t. t_ID t = i) (Tenant_List s) of Some t \<Rightarrow> Some t | None \<Rightarrow> map_of [] i)"
    using load_tenants_ok [OF valid d, of "[]"] by blast
  have "map_of m i = map_of (ts_tenants s) i" for i
  proof (cases "find (\<lambda>t. t_ID t = i) (Tenant_List s)")
    case None
    then have "i \<notin> set (map t_ID (Tenant_List s))" by (auto simp: find_None_iff)
    then show ?thesis using None m(2) tenant_ids [OF assms] by (auto simp: map_of_eq_None_iff [symmetric])
  next
    case (Some t)
    then have "t \<in> set (Tenant_List s)" "t_ID t = i" by (auto simp: find_Some_iff)
    then obtain j where j: "map_of (ts_tenants s) j = Some t" using tenant_list_set [OF assms] by (auto simp: ran_def)
    then have "j = i" using assms \<open>t_ID t = i\<close> by (force simp: wf_tenants_def dest: map_of_SomeD)
    then show ?thesis using Some j m(2) by simp
  qed
  then show ?thesis using m(1) by auto
qed

lemma saveLocked_file:
  assumes "no_faults fs" and "saveLocked codec now s fs = (None, s', fs')" and "ts_snapshotPath s \<noteq> []"
  shows "\<exists>data. sn_Marshal codec \<lparr>sn_Version = ts_version s, sn_Tenants = Tenant_List s\<rparr> = Inr data \<and>
     map_of (fs_files fs') (ts_snapshotPath s) = Some (data, now) \<and> no_faults fs' \<and> ts_modTime s' = now"
proof -
  let ?p = "ts_snapshotPath s"
  obtain fs1 where mk: "os_MkdirAll fs (butlast ?p) = (None, fs1)"
    using assms(2,3) by (auto simp: saveLocked_def split: prod.splits option.splits)
  then have nf: "no_faults fs1"
    using assms(1) mkdir_list_keeps [of "prefixes (butlast ?p)" fs] by (auto simp: os_MkdirAll_def no_faults_def)
  obtain data where data: "sn_Marshal codec \<lparr>sn_Version = ts_version s, sn_Tenants = Tenant_List s\<rparr> = Inr data"
    using assms(2,3) mk by (auto simp: saveLocked_def Tenant_List_def Let_def split: sum.splits)
  obtain fs2 where w: "os_WriteFile now fs1 ?p data = (None, fs2)" and t: "touch_modTime s fs2 = (s', fs')"
    using assms(2,3) mk data by (auto simp: saveLocked_def Tenant_List_def Let_def split: prod.splits option.splits)
  have fs2: "fs2 = fs1\<lparr>fs_files := AList.update ?p (data, now) (fs_files fs1)\<rparr>"
    using w nf by (auto simp: os_WriteFile_def split: if_splits)
  then have "os_Stat fs2 ?p = (Inr (length data, now), fs2)" using nf by (simp add: os_Stat_def update_conv')
  then have "s' = s\<lparr>ts_modTime := now\<rparr>" "fs' = fs2" using t by (simp_all add: touch_modTime_def)
  then show ?thesis using data fs2 nf by (simp add: update_conv')
qed

section \<open>Properties\<close>

definition codec_ok :: "snapshot_codec \<Rightarrow> bool" where
  "codec_ok codec \<longleftrightarrow> (\<forall>snap data. sn_Marshal codec snap = Inr data \<longrightarrow> sn_Unmarshal codec data = Inr snap)"

lemma reload_saved:
  assumes "codec_ok codec" and "wf_tenants s" and "no_faults fs"
    and "sn_Marshal codec \<lparr>sn_Version = ts_version s, sn_Tenants = Tenant_List s\<rparr> = Inr data"
    and "map_of (fs_files fs) (ts_snapshotPath s') = Some (data, mtime)" and "ts_snapshotPath s' \<noteq> []"
  shows "\<exists>m. map_of m = map_of (ts_tenants s) \<and>
     Reload codec s' fs = (None, s'\<lparr>ts_tenants := m, ts_version := ts_version s, ts_modTime := mtime\<rparr>, fs)"
proof -
  obtain m where m: "load_tenants (Tenant_List s) [] = Inr m" "map_of m = map_of (ts_tenants s)" using load_saved [OF assms(2)] by blast
  have "sn_Unmarshal codec data = Inr \<lparr>sn_Version = ts_version s, sn_Tenants = Tenant_List s\<rparr>"
    using assms(1,4) by (simp add: codec_ok_def)
  then show ?thesis using m assms(3,5,6)
    by (intro exI [of _ m]) (simp add: Reload_def os_ReadFile_def os_Stat_def touch_modTime_def)
qed

text \<open>
  C34. A tenant change survives a restart and reaches the other processes: when \<open>Put\<close> on a store with a snapshot
  file succeeds, a store opened on that file afterwards and any store that polls it with
  \<open>ReloadIfModified\<close> later than its last load hold exactly the same tenants and version.
\<close>

theorem tenant_put_durable:
  assumes "codec_ok codec" and "wf_tenants s" and "no_faults fs" and "ts_snapshotPath s \<noteq> []"
    and "Tenant_Put codec now s fs t = (None, s', fs')"
    and "ts_snapshotPath r = ts_snapshotPath s" and "ts_modTime r < now"
  shows "(\<exists>s''. NewPersistentStore codec now' fs' (ts_snapshotPath s) = (Inr s'', fs') \<and> GetTenant s'' = GetTenant s' \<and>
       ts_version s'' = ts_version s + 1) \<and>
     (\<exists>r'. ReloadIfModified codec r fs' = (Inr True, r', fs') \<and> GetTenant r' = GetTenant s' \<and> ts_version r' = ts_version s + 1) \<and>
     GetTenant s' (t_ID t) = Inr (t\<lparr>t_Version := ts_version s + 1, t_UpdatedAt := now\<rparr>)"
proof -
  have valid: "TenantConfig_Validate t = None" using assms(5) by (cases "TenantConfig_Validate t") (simp_all add: Tenant_Put_def)
  have w: "wf_tenants s'" using wf_Tenant_Put [OF assms(2), of codec now fs t] assms(5) by simp
  let ?t = "t\<lparr>t_Version := ts_version s + 1, t_UpdatedAt := now\<rparr>"
  let ?s = "s\<lparr>ts_version := ts_version s + 1, ts_tenants := AList.update (t_ID t) ?t (ts_tenants s)\<rparr>"
  have save: "saveLocked codec now ?s fs = (None, s', fs')" using assms(5) valid by (simp add: Tenant_Put_def Let_def)
  have same: "ts_version s' = ts_version s + 1" "Tenant_List ?s = Tenant_List s'"
    using saveLocked_store [of codec now ?s fs] save by (simp_all add: Tenant_List_def)
  obtain data where d: "sn_Marshal codec \<lparr>sn_Version = ts_version s', sn_Tenants = Tenant_List s'\<rparr> = Inr data"
      "map_of (fs_files fs') (ts_snapshotPath s) = Some (data, now)" "no_faults fs'"
    using saveLocked_file [OF assms(3) save] assms(4) same by auto
  have reload: "\<exists>m. map_of m = map_of (ts_tenants s') \<and>
      Reload codec q fs' = (None, q\<lparr>ts_tenants := m, ts_version := ts_version s', ts_modTime := now\<rparr>, fs')"
    if "ts_snapshotPath q = ts_snapshotPath s" for q
    using reload_saved [OF assms(1) w d(3,1)] d(2) assms(4) that by simp
  have "\<exists>s''. NewPersistentStore codec now' fs' (ts_snapshotPath s) = (Inr s'', fs') \<and> GetTenant s'' = GetTenant s' \<and>
      ts_version s'' = ts_version s + 1"
    using reload [of "(NewStoreWithDefaults now')\<lparr>ts_snapshotPath := ts_snapshotPath s\<rparr>"] same(1)
    by (force simp: NewPersistentStore_def GetTenant_def fun_eq_iff)
  moreover have "\<exists>r'. ReloadIfModified codec r fs' = (Inr True, r', fs') \<and> GetTenant r' = GetTenant s' \<and> ts_version r' = ts_version s + 1"
    using reload [OF assms(6)] same(1) assms(4,6,7) d(2,3)
    by (force simp: ReloadIfModified_def os_Stat_def GetTenant_def fun_eq_iff)
  moreover have "GetTenant s' (t_ID t) = Inr ?t"
    using Tenant_Put_content(1) [OF valid, of codec now s fs] assms(5) by (simp add: GetTenant_def)
  ultimately show ?thesis by blast
qed

text \<open>A codec that can carry a store with the default tenant alone, for concrete runs.\<close>

definition version_codec :: "time \<Rightarrow> snapshot_codec" where
  "version_codec now =
     \<lparr>sn_Marshal = (\<lambda>snap. if snap = \<lparr>sn_Version = 2, sn_Tenants = [(DefaultTenantConfig now)\<lparr>t_Version := 2\<rparr>]\<rparr> then Inr ''v2''
        else Inl (IOError ''unsupported'')),
      sn_Unmarshal = (\<lambda>data. if data = ''v2'' then Inr \<lparr>sn_Version = 2, sn_Tenants = [(DefaultTenantConfig now)\<lparr>t_Version := 2\<rparr>]\<rparr>
        else Inl (IOError ''unsupported''))\<rparr>"

lemma version_codec_ok: "codec_ok (version_codec now)"
  by (simp add: codec_ok_def version_codec_def)

lemma sample_put:
  "Tenant_Put (version_codec 9) 9 ((NewStoreWithDefaults 3)\<lparr>ts_snapshotPath := [''data'', ''tenants.json'']\<rparr>) (empty_fs []) (DefaultTenantConfig 3) =
     (None, \<lparr>ts_tenants = [(''default'', (DefaultTenantConfig 9)\<lparr>t_Version := 2\<rparr>)], ts_version = 2,
        ts_snapshotPath = [''data'', ''tenants.json''], ts_modTime = 9\<rparr>,
      \<lparr>fs_files = [([''data'', ''tenants.json''], ''v2'', 9)], fs_dirs = [[''data''], []], fs_faults = []\<rparr>)"
  by code_simp

theorem tenant_put_durable_witness:
  "\<exists>s. NewPersistentStore (version_codec 9) 20
      \<lparr>fs_files = [([''data'', ''tenants.json''], ''v2'', 9)], fs_dirs = [[''data''], []], fs_faults = []\<rparr> [''data'', ''tenants.json''] =
      (Inr s, \<lparr>fs_files = [([''data'', ''tenants.json''], ''v2'', 9)], fs_dirs = [[''data''], []], fs_faults = []\<rparr>) \<and>
     ts_version s = 2"
proof -
  let ?s = "(NewStoreWithDefaults 3)\<lparr>ts_snapshotPath := [''data'', ''tenants.json'']\<rparr>"
  have "wf_tenants ?s" using wf_NewStoreWithDefaults [of 3] by (simp add: wf_tenants_def)
  moreover have "no_faults (empty_fs [])" by (simp add: empty_fs_def no_faults_def)
  moreover have "ts_modTime ?s < 9" "ts_version ?s = 1"
    by (simp_all add: NewStoreWithDefaults_def NewTenantStore_def DefaultTenantConfig_def)
  ultimately show ?thesis
    using tenant_put_durable [OF version_codec_ok _ _ _ sample_put, of ?s 20] by auto
qed

text \<open>
  A \<open>Put\<close> whose save fails reports the error but keeps the change in memory, so the process serves a
  configuration that the file and the other processes never see.
\<close>

theorem failed_save_keeps_change:
  assumes "TenantConfig_Validate t = None" and "ts_snapshotPath s \<noteq> []"
  shows "\<exists>s' fs'. Tenant_Put codec now s (empty_fs [Some (err, 0)]) t = (Some err, s', fs') \<and> fs_files fs' = [] \<and>
     GetTenant s' (t_ID t) = Inr (t\<lparr>t_Version := ts_version s + 1, t_UpdatedAt := now\<rparr>)"
  using assms by (simp add: Tenant_Put_def saveLocked_def os_MkdirAll_def next_fault_def empty_fs_def GetTenant_def update_conv' Let_def)

end
