(* ===== verification/Admission.thy ===== *)
theory Admission
  imports Chunk Complex_Main
begin

text \<open>
  The ingest limiter of \<open>internal/engine/distribution\<close>: a token bucket per tenant. A \<open>float64\<close> is a rational,
  and every floating-point operation is the exact operation followed by the rounding \<open>fl\<close>, a parameter;
  what the theorems use of it is that it is monotone and idempotent, keeps the sign, enlarges a non-negative number by at most
  the factor \<open>1 + u\<close> (\<open>u\<close> is two to the power -53 for \<open>float64\<close>), and is exact on the integers up to two to the power 53.
  The clock readings of a call are arguments.
\<close>

section \<open>Data\<close>

record admission =
  Allowed :: bool
  RetryAfter :: duration
  Reason :: string
  UsedBytes :: int
  LimitBytes :: int

record bucket =
  tokens :: rat
  lastRefill :: time
  rateBytes :: rat
  burstBytes :: rat

type_synonym ingest_limiter = "(string, bucket) gomap"

section \<open>Operations\<close>

definition NewLimiter :: ingest_limiter where
  "NewLimiter = []"

definition eventSize :: "event \<Rightarrow> int" where
  "eventSize e =
     int (length (Body e)) + int (length (TenantID e)) + int (length (Severity e)) + int (length (TraceID e)) + int (length (SpanID e)) +
     int (sum_len (StreamLabels e)) + int (sum_len (ResourceAttrs e)) + int (sum_len (LogAttrs e)) + int (sum_len (ParsedFields e))"

text \<open>\<open>Duration.Seconds\<close>.\<close>

definition Seconds :: "(rat \<Rightarrow> rat) \<Rightarrow> duration \<Rightarrow> rat" where
  "Seconds fl d = (let sec = quot d second; nsec = d - quot d second * second
     in fl (fl (of_int sec) + fl (fl (of_int nsec) / 1000000000)))"

definition bucketFor :: "(rat \<Rightarrow> rat) \<Rightarrow> time \<Rightarrow> ingest_limiter \<Rightarrow> tenant_config \<Rightarrow> bucket \<times> ingest_limiter" where
  "bucketFor fl now l tenant =
     (case map_of l (t_ID tenant) of Some existing \<Rightarrow> (existing, l) | None \<Rightarrow>
      let rate = fl (fl (fl (of_int (IngestRateMBPerSecond (t_Limits tenant))) * 1024) * 1024);
          rate = (if rate \<le> 0 then 1024 * 1024 else rate);
          burst = fl (rate * 2);
          b = \<lparr>tokens = burst, lastRefill = now, rateBytes = rate, burstBytes = burst\<rparr>
      in (b, AList.update (t_ID tenant) b l))"

definition refill :: "(rat \<Rightarrow> rat) \<Rightarrow> bucket \<Rightarrow> time \<Rightarrow> bucket" where
  "refill fl b now =
     (let elapsed = Seconds fl (time_sub now (lastRefill b)) in
      if elapsed \<le> 0 then b
      else let b = b\<lparr>tokens := fl (tokens b + fl (elapsed * rateBytes b))\<rparr>;
               b = (if burstBytes b < tokens b then b\<lparr>tokens := burstBytes b\<rparr> else b)
           in b\<lparr>lastRefill := now\<rparr>)"

text \<open>\<open>created\<close> is the clock when the bucket is made, \<open>now\<close> when it is refilled.\<close>

definition Allow :: "(rat \<Rightarrow> rat) \<Rightarrow> time \<Rightarrow> time \<Rightarrow> ingest_limiter \<Rightarrow> tenant_config \<Rightarrow> event \<Rightarrow> admission \<times> ingest_limiter" where
  "Allow fl created now l tenant event =
     (let usedBytes = eventSize event;
          limitBytes = MaxBodyBytes (t_Limits tenant) +
            (if 0 < MaxLabelsPerStream (t_Limits tenant) then int (length (StreamLabels event)) * 128 else 0) in
      if 0 < limitBytes \<and> limitBytes < usedBytes then
        (\<lparr>Allowed = False, RetryAfter = 0, Reason = ''event exceeds tenant body or label budget'', UsedBytes = usedBytes, LimitBytes = limitBytes\<rparr>, l)
      else let (b, l) = bucketFor fl created l tenant; b = refill fl b now in
        if tokens b < fl (of_int usedBytes) then
          let deficit = fl (fl (of_int usedBytes) - tokens b);
              retryAfter = \<lceil>fl (fl (deficit / rateBytes b) * 1000)\<rceil> * millisecond;
              retryAfter = (if retryAfter < millisecond then millisecond else retryAfter)
          in (\<lparr>Allowed = False, RetryAfter = retryAfter, Reason = ''tenant ingest rate exceeded'', UsedBytes = usedBytes,
                LimitBytes = \<lfloor>burstBytes b\<rfloor>\<rparr>, AList.update (t_ID tenant) b l)
        else (\<lparr>Allowed = True, RetryAfter = 0, Reason = [], UsedBytes = usedBytes, LimitBytes = \<lfloor>burstBytes b\<rfloor>\<rparr>,
              AList.update (t_ID tenant) (b\<lparr>tokens := fl (tokens b - fl (of_int usedBytes))\<rparr>) l))"

section \<open>A run of the limiter\<close>

text \<open>A request is the two clock readings, the tenant and the event; the run sums the bytes admitted for one tenant.\<close>

type_synonym request = "time \<times> time \<times> tenant_config \<times> event"

fun admitted :: "(rat \<Rightarrow> rat) \<Rightarrow> string \<Rightarrow> ingest_limiter \<Rightarrow> request list \<Rightarrow> int \<times> ingest_limiter" where
  "admitted fl i l [] = (0, l)"
| "admitted fl i l ((created, now, tenant, event) # rs) =
     (let (a, l) = Allow fl created now l tenant event; (n, l) = admitted fl i l rs
      in ((if Allowed a \<and> t_ID tenant = i then eventSize event else 0) + n, l))"

section \<open>Rounding\<close>

definition fl_ok :: "rat \<Rightarrow> (rat \<Rightarrow> rat) \<Rightarrow> bool" where
  "fl_ok u fl \<longleftrightarrow> 0 \<le> u \<and> mono fl \<and> (\<forall>x. fl (fl x) = fl x) \<and> (\<forall>x \<ge> 0. 0 \<le> fl x \<and> fl x \<le> (1 + u) * x) \<and> (\<forall>x \<le> 0. fl x \<le> 0) \<and>
     (\<forall>n::int. 0 \<le> n \<longrightarrow> n \<le> 2 ^ 53 \<longrightarrow> fl (of_int n) = of_int n)"

lemma fl_okD:
  assumes "fl_ok u fl"
  shows "0 \<le> u" and "0 \<le> x \<Longrightarrow> 0 \<le> fl x" and "0 \<le> x \<Longrightarrow> fl x \<le> (1 + u) * x" and "x \<le> 0 \<Longrightarrow> fl x \<le> 0"
    and "0 \<le> n \<Longrightarrow> n \<le> 2 ^ 53 \<Longrightarrow> fl (of_int n) = of_int n" and "x \<le> y \<Longrightarrow> fl x \<le> fl y" and "fl (fl x) = fl x"
  using assms by (simp_all add: fl_ok_def monoD)

lemma fl_scale:
  assumes "fl_ok u fl" and "0 \<le> x" and "x \<le> (1 + u) ^ k * y"
  shows "fl x \<le> (1 + u) ^ Suc k * y"
proof -
  have "fl x \<le> (1 + u) * x" using fl_okD(3) [OF assms(1,2)] .
  also have "\<dots> \<le> (1 + u) * ((1 + u) ^ k * y)" using assms(3) fl_okD(1) [OF assms(1)] by (intro mult_left_mono) auto
  finally show ?thesis by (simp add: mult.assoc)
qed

lemma quot_second: "quot d second = (if 0 \<le> d then d div second else - (- d div second))"
  by (simp add: quot_def second_def sgn_if)

lemma Seconds_upper:
  assumes "fl_ok u fl" and "0 \<le> d"
  shows "Seconds fl d \<le> (1 + u) ^ 3 * (of_int d / 1000000000)"
proof -
  let ?s = "of_int (d div second) :: rat" and ?n = "of_int (d mod second) :: rat"
  have q: "quot d second = d div second" "d - d div second * second = d mod second"
    using assms(2) by (simp_all add: quot_second minus_div_mult_eq_mod)
  have u: "0 \<le> u" using fl_okD(1) [OF assms(1)] .
  have pos: "0 \<le> ?s" "0 \<le> ?n" using assms(2) by (simp_all add: second_def pos_imp_zdiv_nonneg_iff)
  have "fl ?s \<le> (1 + u) ^ Suc 0 * ?s" using fl_scale [OF assms(1) pos(1), of 0 ?s] by simp
  also have "\<dots> \<le> (1 + u) ^ 2 * ?s" using u pos(1) by (intro mult_right_mono power_increasing) auto
  finally have s: "fl ?s \<le> (1 + u) ^ 2 * ?s" .
  have "fl ?n \<le> (1 + u) ^ Suc 0 * ?n" using fl_scale [OF assms(1) pos(2), of 0 ?n] by simp
  then have n1: "fl ?n / 1000000000 \<le> (1 + u) ^ Suc 0 * (?n / 1000000000)" by (simp add: divide_right_mono)
  have n0: "0 \<le> fl ?n / 1000000000" using fl_okD(2) [OF assms(1) pos(2)] by simp
  have n: "fl (fl ?n / 1000000000) \<le> (1 + u) ^ 2 * (?n / 1000000000)"
    using fl_scale [OF assms(1) n0 n1] unfolding numeral_2_eq_2 .
  have "(of_int d :: rat) = of_int (d div second * second + d mod second)" by simp
  then have split: "of_int d / 1000000000 = ?s + ?n / 1000000000" unfolding of_int_add of_int_mult by (simp add: second_def add_divide_distrib)
  have sum: "fl ?s + fl (fl ?n / 1000000000) \<le> (1 + u) ^ 2 * (of_int d / 1000000000)"
    using s n by (simp add: split distrib_left)
  have "0 \<le> fl ?s + fl (fl ?n / 1000000000)"
    using fl_okD(2) [OF assms(1)] pos by (simp add: add_nonneg_nonneg)
  then have "fl (fl ?s + fl (fl ?n / 1000000000)) \<le> (1 + u) ^ Suc 2 * (of_int d / 1000000000)"
    using sum by (rule fl_scale [OF assms(1)])
  then show ?thesis by (simp only: Seconds_def q Let_def eval_nat_numeral)
qed

lemma Seconds_pos:
  assumes "fl_ok u fl" and "0 < Seconds fl d"
  shows "0 < d"
proof (rule ccontr)
  assume "\<not> 0 < d"
  then have q: "quot d second = - (- d div second)" and "0 \<le> - d div second" "0 \<le> - d mod second"
    by (simp add: quot_second, simp_all add: second_def pos_imp_zdiv_nonneg_iff)
  moreover have "d - quot d second * second = - (- d mod second)"
    using minus_div_mult_eq_mod [of "- d" second] by (simp add: q)
  ultimately have "quot d second \<le> 0" "d - quot d second * second \<le> 0" by simp_all
  then have "(of_int (quot d second) :: rat) \<le> 0" "(of_int (d - quot d second * second) :: rat) \<le> 0"
    by (simp_all only: of_int_le_0_iff)
  then have f: "fl (of_int (quot d second)) \<le> 0" "fl (of_int (d - quot d second * second)) \<le> 0"
    using fl_okD(4) [OF assms(1)] by blast+
  have "fl (fl (of_int (d - quot d second * second)) / 1000000000) \<le> 0"
    by (rule fl_okD(4) [OF assms(1), OF divide_nonpos_pos [OF f(2)]]) simp
  with f(1) have "Seconds fl d \<le> 0"
    unfolding Seconds_def Let_def by (rule fl_okD(4) [OF assms(1), OF add_nonpos_nonpos])
  then show False using assms(2) by simp
qed

section \<open>The bucket\<close>

definition bucket_ok :: "(rat \<Rightarrow> rat) \<Rightarrow> bucket \<Rightarrow> bool" where
  "bucket_ok fl b \<longleftrightarrow> 0 \<le> tokens b \<and> tokens b \<le> burstBytes b \<and> 0 < rateBytes b \<and> fl (burstBytes b) = burstBytes b"

text \<open>The bytes that arrive in a bucket in a time, with the slack of four roundings.\<close>

definition inflow :: "rat \<Rightarrow> bucket \<Rightarrow> int \<Rightarrow> rat" where
  "inflow u b d = (1 + u) ^ 4 * rateBytes b * (of_int d / 1000000000)"

text \<open>\<open>a\<close> bytes were taken while the bucket went from \<open>b\<close> to \<open>b'\<close>.\<close>

definition bucket_step :: "(rat \<Rightarrow> rat) \<Rightarrow> rat \<Rightarrow> rat \<Rightarrow> bucket \<Rightarrow> bucket \<Rightarrow> rat \<Rightarrow> bool" where
  "bucket_step fl u k b b' a \<longleftrightarrow> bucket_ok fl b' \<and> rateBytes b' = rateBytes b \<and> burstBytes b' = burstBytes b \<and> lastRefill b \<le> lastRefill b' \<and>
     a + tokens b' \<le> tokens b + inflow u b (lastRefill b' - lastRefill b) + k * u * burstBytes b"

lemma inflow_add: "rateBytes b = rateBytes b' \<Longrightarrow> inflow u b d + inflow u b' e = inflow u b (d + e)"
  by (simp add: inflow_def field_simps)

lemma bucket_step_trans:
  assumes "bucket_step fl u k b b' a" and "bucket_step fl u k' b' b'' a'"
  shows "bucket_step fl u (k + k') b b'' (a + a')"
proof -
  have "inflow u b (lastRefill b' - lastRefill b) + inflow u b' (lastRefill b'' - lastRefill b') = inflow u b (lastRefill b'' - lastRefill b)"
    using assms(1) by (subst inflow_add) (simp_all add: bucket_step_def)
  moreover have "(k + k') * u * burstBytes b = k * u * burstBytes b + k' * u * burstBytes b" by (simp add: distrib_right)
  ultimately show ?thesis using assms unfolding bucket_step_def by auto
qed

lemma bucket_step_refl: "bucket_ok fl b \<Longrightarrow> 0 \<le> k * u \<Longrightarrow> bucket_step fl u k b b 0"
  by (simp add: bucket_step_def bucket_ok_def inflow_def mult_nonneg_nonneg)

lemma refill_step:
  assumes "fl_ok u fl" and "bucket_ok fl b"
  shows "bucket_step fl u 1 b (refill fl b now) 0"
proof (cases "Seconds fl (time_sub now (lastRefill b)) \<le> 0")
  case True
  then show ?thesis using bucket_step_refl [OF assms(2), of 1 u] fl_okD(1) [OF assms(1)] by (simp add: refill_def)
next
  case False
  let ?d = "time_sub now (lastRefill b)" and ?b = "refill fl b now"
  let ?e = "Seconds fl (time_sub now (lastRefill b))"
  let ?s = "tokens b + fl (?e * rateBytes b)"
  have u: "0 \<le> u" using fl_okD(1) [OF assms(1)] .
  have b: "0 \<le> tokens b" "tokens b \<le> burstBytes b" "0 < rateBytes b" "fl (burstBytes b) = burstBytes b"
    using assms(2) by (simp_all add: bucket_ok_def)
  have "0 < ?d" using Seconds_pos [OF assms(1)] False by simp
  then have d: "0 \<le> ?d" "?d \<le> now - lastRefill b" "lastRefill b < now"
    by (auto simp: time_sub_def min_int64_def max_def min_def split: if_splits)
  have e: "0 \<le> ?e * rateBytes b" using False b(3) by simp
  have "?e * rateBytes b \<le> (1 + u) ^ 3 * (of_int ?d / 1000000000) * rateBytes b"
    using Seconds_upper [OF assms(1) d(1)] b(3) by (intro mult_right_mono) auto
  also have "\<dots> \<le> (1 + u) ^ 3 * (of_int (now - lastRefill b) / 1000000000) * rateBytes b"
    using d(2) u b(3) by (intro mult_right_mono mult_left_mono divide_right_mono) (simp_all only: of_int_le_iff, simp_all)
  finally have "fl (?e * rateBytes b) \<le> (1 + u) ^ Suc 3 * (of_int (now - lastRefill b) / 1000000000 * rateBytes b)"
    using e by (intro fl_scale [OF assms(1)]) (simp_all add: mult.assoc)
  also have "\<dots> = inflow u b (now - lastRefill b)" by (simp add: inflow_def eval_nat_numeral mult_ac)
  finally have s: "?s \<le> tokens b + inflow u b (now - lastRefill b)" by simp
  have s0: "0 \<le> ?s" using b(1) fl_okD(2) [OF assms(1) e] by simp
  have ref: "?b = b\<lparr>tokens := min (burstBytes b) (fl ?s), lastRefill := now\<rparr>"
    using False by (simp add: refill_def Let_def min_def)
  have "min (burstBytes b) (fl ?s) \<le> ?s + u * burstBytes b"
  proof (cases "?s \<le> burstBytes b")
    case True
    then have "u * ?s \<le> u * burstBytes b" using u by (rule mult_left_mono)
    then show ?thesis using fl_okD(3) [OF assms(1) s0] by (simp add: distrib_right min_def)
  next
    case False
    moreover have "0 \<le> u * burstBytes b" using u b by simp
    ultimately show ?thesis by (simp add: min_le_iff_disj)
  qed
  then show ?thesis
    using s b d(3) fl_okD(2) [OF assms(1) s0] by (simp add: bucket_step_def bucket_ok_def ref min_def)
qed

section \<open>A call\<close>

lemma fresh_bucket:
  assumes "fl_ok u fl" and "map_of l (t_ID tenant) = None"
  shows "bucket_ok fl (fst (bucketFor fl now l tenant)) \<and> lastRefill (fst (bucketFor fl now l tenant)) = now \<and>
     tokens (fst (bucketFor fl now l tenant)) = burstBytes (fst (bucketFor fl now l tenant))"
  using assms by (auto simp: bucketFor_def bucket_ok_def Let_def fl_okD(2) fl_okD(7) [OF assms(1)])

lemma eventSize_nonneg: "0 \<le> eventSize e"
  by (simp add: eventSize_def)

text \<open>The bytes a call takes out of the bucket of tenant \<open>i\<close>.\<close>

abbreviation charged :: "string \<Rightarrow> tenant_config \<Rightarrow> event \<Rightarrow> admission \<Rightarrow> int" where
  "charged i tenant event a \<equiv> if Allowed a \<and> t_ID tenant = i then eventSize event else 0"

lemma take_step:
  assumes "fl_ok u fl" and "bucket_ok fl b" and "0 \<le> n" and "n \<le> 2 ^ 53" and "of_int n \<le> tokens b"
  shows "bucket_step fl u 1 b (b\<lparr>tokens := fl (tokens b - fl (of_int n))\<rparr>) (of_int n)"
proof -
  have n: "fl (of_int n) = of_int n" using fl_okD(5) [OF assms(1,3,4)] .
  let ?x = "tokens b - of_int n"
  have b: "0 \<le> tokens b" "tokens b \<le> burstBytes b" "fl (burstBytes b) = burstBytes b" using assms(2) by (simp_all add: bucket_ok_def)
  have "(0::rat) \<le> of_int n" using assms(3) by simp
  then have x: "0 \<le> ?x" "?x \<le> burstBytes b" using b(2) assms(5) by linarith+
  have "u * ?x \<le> u * burstBytes b" using x(2) fl_okD(1) [OF assms(1)] by (rule mult_left_mono)
  moreover have "fl ?x \<le> (1 + u) * ?x" using fl_okD(3) [OF assms(1) x(1)] .
  ultimately have "of_int n + fl ?x \<le> tokens b + u * burstBytes b" unfolding distrib_right by simp
  moreover have "fl ?x \<le> burstBytes b" using fl_okD(6) [OF assms(1) x(2)] b(3) by simp
  ultimately show ?thesis
    using assms(2) fl_okD(2) [OF assms(1) x(1)] by (simp add: bucket_step_def bucket_ok_def inflow_def n)
qed

lemma Allow_step:
  assumes "fl_ok u fl" and "eventSize event \<le> 2 ^ 53" and "t_ID tenant = i"
    and "bucket_ok fl (fst (bucketFor fl created l tenant))" and "Allow fl created now l tenant event = (a, l')"
    and "b = fst (bucketFor fl created l tenant)"
  shows "l' = l \<and> charged i tenant event a = 0 \<or>
     (\<exists>b'. map_of l' i = Some b' \<and> bucket_step fl u 2 b b' (of_int (charged i tenant event a)))"
proof -
  let ?n = "eventSize event" and ?lim = "MaxBodyBytes (t_Limits tenant) +
      (if 0 < MaxLabelsPerStream (t_Limits tenant) then int (length (StreamLabels event)) * 128 else 0)"
  define r where "r = refill fl b now"
  have step: "bucket_step fl u 1 b r 0" unfolding r_def using assms(1,4,6) by (simp add: refill_step)
  then have ok: "bucket_ok fl r" by (simp add: bucket_step_def)
  have n: "fl (of_int ?n) = of_int ?n" using fl_okD(5) [OF assms(1) eventSize_nonneg assms(2)] .
  obtain l0 where bl: "bucketFor fl created l tenant = (b, l0)" using assms(6) by (metis prod.collapse)
  consider (big) "0 < ?lim \<and> ?lim < ?n" | (rate) "\<not> (0 < ?lim \<and> ?lim < ?n)" "tokens r < of_int ?n"
    | (ok) "\<not> (0 < ?lim \<and> ?lim < ?n)" "of_int ?n \<le> tokens r" by linarith
  then show ?thesis
  proof cases
    case big
    then show ?thesis using assms(5) by (auto simp: Allow_def Let_def)
  next
    case rate
    then have "\<not> Allowed a" "map_of l' i = Some r"
      using assms(3,5) bl n by (auto simp: Allow_def Let_def r_def [symmetric] update_conv')
    moreover have "bucket_step fl u (1 + 1) b r (0 + 0)"
      using bucket_step_refl [OF ok, of 1 u] fl_okD(1) [OF assms(1)] by (intro bucket_step_trans [OF step]) simp
    ultimately show ?thesis by auto
  next
    case ok
    let ?r = "r\<lparr>tokens := fl (tokens r - fl (of_int ?n))\<rparr>"
    have "Allowed a" "map_of l' i = Some ?r"
      using ok assms(3,5) bl n by (auto simp: Allow_def Let_def r_def [symmetric] update_conv')
    moreover have "bucket_step fl u (1 + 1) b ?r (0 + of_int ?n)"
      using take_step [OF assms(1) \<open>bucket_ok fl r\<close> eventSize_nonneg assms(2) ok(2)] by (rule bucket_step_trans [OF step])
    ultimately show ?thesis using assms(3) by auto
  qed
qed

section \<open>Runs\<close>

lemma Allow_other:
  assumes "Allow fl created now l tenant event = (a, l')" and "t_ID tenant \<noteq> i"
  shows "map_of l' i = map_of l i"
  using assms by (auto simp: Allow_def bucketFor_def Let_def update_conv' split: if_splits option.splits prod.splits)

lemma run_known:
  assumes "fl_ok u fl" and "\<forall>(c, now, t, e) \<in> set rs. eventSize e \<le> 2 ^ 53"
    and "map_of l i = Some b" and "bucket_ok fl b" and "admitted fl i l rs = (n, l')"
  shows "\<exists>b'. map_of l' i = Some b' \<and> bucket_step fl u (2 * of_nat (length rs)) b b' (of_int n)"
  using assms(2-5)
proof (induction rs arbitrary: l b n)
  case Nil
  then show ?case using bucket_step_refl [of fl b 0 u] by simp
next
  case (Cons r rs)
  obtain c now t e where r: "r = (c, now, t, e)" by (cases r) auto
  obtain a l1 where al: "Allow fl c now l t e = (a, l1)" by fastforce
  obtain m where m: "admitted fl i l1 rs = (m, l')" and n: "n = charged i t e a + m"
    using Cons.prems(4) al by (auto simp: r Let_def split: prod.splits)
  have u: "0 \<le> u" using fl_okD(1) [OF assms(1)] .
  have e: "eventSize e \<le> 2 ^ 53" using Cons.prems(1) by (auto simp: r)
  have "\<exists>b1. map_of l1 i = Some b1 \<and> bucket_step fl u 2 b b1 (of_int (charged i t e a))"
  proof (cases "t_ID t = i")
    case True
    then have "fst (bucketFor fl c l t) = b" using Cons.prems(2) by (simp add: bucketFor_def)
    then show ?thesis
      using Allow_step [OF assms(1) e True _ al] Cons.prems(2,3) bucket_step_refl [OF Cons.prems(3), of 2 u] u by auto
  next
    case False
    then show ?thesis using Allow_other [OF al] Cons.prems(2) bucket_step_refl [OF Cons.prems(3), of 2 u] u by auto
  qed
  then obtain b1 where b1: "map_of l1 i = Some b1" "bucket_step fl u 2 b b1 (of_int (charged i t e a))" by blast
  then have ok: "bucket_ok fl b1" by (simp add: bucket_step_def)
  have size: "\<forall>(c, now, t, e) \<in> set rs. eventSize e \<le> 2 ^ 53" using Cons.prems(1) by simp
  obtain b' where b': "map_of l' i = Some b'" "bucket_step fl u (2 * of_nat (length rs)) b1 b' (of_int m)"
    using Cons.IH [OF size b1(1) ok m] by blast
  have "2 * of_nat (length (r # rs)) = (2 + 2 * of_nat (length rs) :: rat)" by simp
  then show ?case using b'(1) bucket_step_trans [OF b1(2) b'(2)] n by simp
qed

lemma run_unknown:
  assumes "fl_ok u fl" and "\<forall>(c, now, t, e) \<in> set rs. eventSize e \<le> 2 ^ 53"
    and "map_of l i = None" and "admitted fl i l rs = (n, l')"
  shows "map_of l' i = None \<and> n = 0 \<or>
     (\<exists>b b'. tokens b = burstBytes b \<and> lastRefill b \<in> fst ` set rs \<and> map_of l' i = Some b' \<and>
        bucket_step fl u (2 * of_nat (length rs)) b b' (of_int n))"
  using assms(2-4)
proof (induction rs arbitrary: l n)
  case (Cons r rs)
  obtain c now t e where r: "r = (c, now, t, e)" by (cases r) auto
  obtain a l1 where al: "Allow fl c now l t e = (a, l1)" by fastforce
  obtain m where m: "admitted fl i l1 rs = (m, l')" and n: "n = charged i t e a + m"
    using Cons.prems(3) al by (auto simp: r Let_def split: prod.splits)
  have u: "0 \<le> u" using fl_okD(1) [OF assms(1)] .
  have e: "eventSize e \<le> 2 ^ 53" using Cons.prems(1) by (auto simp: r)
  have size: "\<forall>(c, now, t, e) \<in> set rs. eventSize e \<le> 2 ^ 53" using Cons.prems(1) by simp
  have len: "2 * of_nat (length (r # rs)) = (2 + 2 * of_nat (length rs) :: rat)" by simp
  show ?case
  proof (cases "map_of l1 i = None \<and> charged i t e a = 0")
    case True
    note IH = Cons.IH [OF size _ m]
    have "bucket_step fl u (2 + 2 * of_nat (length rs)) b b' (of_int m)" if "bucket_step fl u (2 * of_nat (length rs)) b b' (of_int m)" for b b'
    proof -
      have "bucket_ok fl b'" using that by (simp add: bucket_step_def)
      then show ?thesis using bucket_step_trans [OF that bucket_step_refl [of fl b' 2 u]] u by (simp add: add.commute)
    qed
    then show ?thesis using IH True n unfolding len by auto
  next
    case False
    have i: "t_ID t = i" using False Allow_other [OF al] Cons.prems(2) by (cases "t_ID t = i") auto
    define b where "b = fst (bucketFor fl c l t)"
    have b: "bucket_ok fl b" "lastRefill b = c" "tokens b = burstBytes b"
      using fresh_bucket [OF assms(1), of l t c] Cons.prems(2) i by (simp_all add: b_def)
    obtain b1 where b1: "map_of l1 i = Some b1" "bucket_step fl u 2 b b1 (of_int (charged i t e a))"
      using Allow_step [OF assms(1) e i _ al] b(1) b_def False Cons.prems(2) by auto
    then have ok: "bucket_ok fl b1" by (simp add: bucket_step_def)
    obtain b' where b': "map_of l' i = Some b'" "bucket_step fl u (2 * of_nat (length rs)) b1 b' (of_int m)"
      using run_known [OF assms(1) size b1(1) ok m] by blast
    have "bucket_step fl u (2 * of_nat (length (r # rs))) b b' (of_int n)"
      using bucket_step_trans [OF b1(2) b'(2)] n unfolding len by simp
    then show ?thesis using b b'(1) r by (intro disjI2 exI [of _ b] exI [of _ b']) simp
  qed
qed simp

text \<open>The bucket at the end of a run bounds what the run admitted.\<close>

lemma run_bounded:
  assumes "fl_ok u fl" and "\<forall>(created, now, tenant, event) \<in> set rs. eventSize event \<le> 2 ^ 53 \<and> start \<le> created"
    and "admitted fl i NewLimiter rs = (n, l)"
  shows "case map_of l i of
      None \<Rightarrow> n = 0
    | Some b \<Rightarrow> of_int n \<le> (1 + 2 * of_nat (length rs) * u) * burstBytes b +
        (1 + u) ^ 4 * rateBytes b * (of_int (lastRefill b - start) / 1000000000)"
proof -
  have size: "\<forall>(c, now, t, e) \<in> set rs. eventSize e \<le> 2 ^ 53" using assms(2) by auto
  show ?thesis
  proof (cases "map_of l i")
    case None
    then show ?thesis using run_unknown [OF assms(1) size _ assms(3)] by (auto simp: NewLimiter_def)
  next
    case (Some b')
    then obtain b where b: "tokens b = burstBytes b" "lastRefill b \<in> fst ` set rs"
        "bucket_step fl u (2 * of_nat (length rs)) b b' (of_int n)"
      using run_unknown [OF assms(1) size _ assms(3)] by (auto simp: NewLimiter_def)
    have u: "0 \<le> u" using fl_okD(1) [OF assms(1)] .
    have st: "bucket_ok fl b'" "rateBytes b' = rateBytes b" "burstBytes b' = burstBytes b"
      "of_int n + tokens b' \<le> tokens b + inflow u b (lastRefill b' - lastRefill b) + 2 * of_nat (length rs) * u * burstBytes b"
      using b(3) by (simp_all add: bucket_step_def)
    have "start \<le> lastRefill b" using b(2) assms(2) by auto
    then have "of_int (lastRefill b' - lastRefill b) / 1000000000 \<le> (of_int (lastRefill b' - start) / 1000000000 :: rat)"
      by (intro divide_right_mono) simp_all
    then have "inflow u b (lastRefill b' - lastRefill b) \<le> inflow u b (lastRefill b' - start)"
      unfolding inflow_def using st(1,2) u by (intro mult_left_mono) (simp_all add: bucket_ok_def)
    moreover have "0 \<le> tokens b'" using st(1) by (simp add: bucket_ok_def)
    ultimately have "of_int n \<le> burstBytes b + inflow u b (lastRefill b' - start) + 2 * of_nat (length rs) * u * burstBytes b"
      using st(4) b(1) by linarith
    then show ?thesis using Some st(2,3) by (simp add: inflow_def distrib_right)
  qed
qed

section \<open>The limit of a tenant\<close>

text \<open>The bytes per second that a limit in MiB per second stands for; a limit that is not positive stands for one.\<close>

definition allowance :: "int \<Rightarrow> rat" where
  "allowance mib = (if mib \<le> 0 then 1 else of_int mib) * 2 ^ 20"

definition meters :: "int \<Rightarrow> time \<Rightarrow> bucket \<Rightarrow> bool" where
  "meters mib finish b \<longleftrightarrow> rateBytes b = allowance mib \<and> burstBytes b = 2 * allowance mib \<and> lastRefill b \<le> finish"

lemma fl_scaled:
  assumes "fl_ok u fl" and "0 \<le> n" and "n * k \<le> 2 ^ 53" and "0 \<le> k"
  shows "fl (of_int n * of_int k) = of_int n * of_int k"
  using fl_okD(5) [OF assms(1), of "n * k"] assms(2-4) by simp

lemma fresh_rate:
  assumes "fl_ok u fl" and "mib \<le> 2 ^ 32"
  shows "(if fl (fl (fl (of_int mib) * 1024) * 1024) \<le> 0 then 1024 * 1024 else fl (fl (fl (of_int mib) * 1024) * 1024)) = allowance mib"
proof (cases "mib \<le> 0")
  case True
  then have "fl (of_int mib) * 1024 \<le> 0" using fl_okD(4) [OF assms(1)] by (simp add: mult_nonpos_nonneg)
  then have "fl (fl (fl (of_int mib) * 1024) * 1024) \<le> 0" using fl_okD(4) [OF assms(1)] by (simp add: mult_nonpos_nonneg)
  then show ?thesis using True by (simp add: allowance_def)
next
  case False
  have "fl (of_int mib) = of_int mib" using fl_okD(5) [OF assms(1), of mib] False assms(2) by simp
  moreover have "fl (of_int mib * 1024) = of_int mib * 1024" using fl_scaled [OF assms(1), of mib 1024] False assms(2) by simp
  moreover have "fl (of_int mib * 1024 * 1024) = of_int mib * 1024 * 1024" using fl_scaled [OF assms(1), of mib "1024 * 1024"] False assms(2) by (simp add: mult.assoc)
  ultimately show ?thesis using False by (simp add: allowance_def)
qed

lemma fresh_burst:
  assumes "fl_ok u fl" and "mib \<le> 2 ^ 32"
  shows "fl (allowance mib * 2) = 2 * allowance mib"
  using fl_okD(5) [OF assms(1), of "(if mib \<le> 0 then 1 else mib) * 2 ^ 21"] assms(2) by (cases "mib \<le> 0") (simp_all add: allowance_def mult.commute)

lemma bucketFor_meters:
  assumes "fl_ok u fl" and "mib \<le> 2 ^ 32" and "IngestRateMBPerSecond (t_Limits tenant) = mib" and "created \<le> finish"
    and "\<forall>b. map_of l (t_ID tenant) = Some b \<longrightarrow> meters mib finish b"
  shows "meters mib finish (fst (bucketFor fl created l tenant))"
  using assms(3-5) fresh_rate [OF assms(1,2)] fresh_burst [OF assms(1,2)]
  by (simp add: bucketFor_def meters_def Let_def split: option.split)

lemma refill_meters: "meters mib finish b \<Longrightarrow> now \<le> finish \<Longrightarrow> meters mib finish (refill fl b now)"
  by (simp add: refill_def meters_def Let_def)

lemma Allow_meters:
  assumes "fl_ok u fl" and "mib \<le> 2 ^ 32" and "t_ID tenant = i \<longrightarrow> IngestRateMBPerSecond (t_Limits tenant) = mib"
    and "created \<le> finish" "now \<le> finish" and "\<forall>b. map_of l i = Some b \<longrightarrow> meters mib finish b"
    and "Allow fl created now l tenant event = (a, l')"
  shows "\<forall>b. map_of l' i = Some b \<longrightarrow> meters mib finish b"
proof (cases "t_ID tenant = i")
  case True
  obtain b l0 where b: "bucketFor fl created l tenant = (b, l0)" by fastforce
  have "meters mib finish b" using bucketFor_meters [OF assms(1,2), of tenant created finish l] assms(3,4,6) True b by simp
  then have "meters mib finish (refill fl b now)" using assms(5) by (rule refill_meters)
  then show ?thesis using assms(6,7) True b
    by (auto simp: Allow_def Let_def meters_def update_conv' split: if_splits)
next
  case False
  then show ?thesis using Allow_other [OF assms(7)] assms(6) by simp
qed

lemma run_meters:
  assumes "fl_ok u fl" and "mib \<le> 2 ^ 32"
    and "\<forall>(created, now, tenant, event) \<in> set rs. created \<le> finish \<and> now \<le> finish \<and> (t_ID tenant = i \<longrightarrow> IngestRateMBPerSecond (t_Limits tenant) = mib)"
    and "\<forall>b. map_of l i = Some b \<longrightarrow> meters mib finish b" and "admitted fl i l rs = (n, l')"
  shows "\<forall>b. map_of l' i = Some b \<longrightarrow> meters mib finish b"
  using assms(3-5)
proof (induction rs arbitrary: l n)
  case (Cons r rs)
  obtain c now t e where r: "r = (c, now, t, e)" by (cases r) auto
  obtain a l1 where al: "Allow fl c now l t e = (a, l1)" by fastforce
  obtain m where m: "admitted fl i l1 rs = (m, l')" using Cons.prems(3) al by (auto simp: r Let_def split: prod.splits)
  have h: "c \<le> finish" "now \<le> finish" "t_ID t = i \<longrightarrow> IngestRateMBPerSecond (t_Limits t) = mib" using Cons.prems(1) by (simp_all add: r)
  show ?case using Cons.IH [OF _ Allow_meters [OF assms(1,2) h(3,1,2) Cons.prems(2) al] m] Cons.prems(1) by simp
qed simp

section \<open>Properties\<close>

text \<open>
  C37. The ingest rate of a tenant's limits holds over every run. Let the requests of a tenant in a sequence of requests of any
  tenants, made between two times, all carry the limit of \<open>mib\<close> MiB per second (at most two to the power 32), and let no event be larger
  than two to the power 53 bytes. Then the bytes the limiter admits for the tenant are at most twice the limit plus the limit times the
  seconds between the two times, where a limit that is not positive counts as 1 MiB per second; and the tenant's bucket, once it
  exists, holds and refills to exactly that. The rounding of the floating-point operations adds the factors in \<open>u\<close>
  (none when \<open>u\<close> is 0).
\<close>

theorem ingest_rate_bounded:
  assumes "fl_ok u fl" and "start \<le> finish" and "mib \<le> 2 ^ 32"
    and "\<forall>(created, now, tenant, event) \<in> set rs. eventSize event \<le> 2 ^ 53 \<and> start \<le> created \<and> created \<le> finish \<and> now \<le> finish \<and>
       (t_ID tenant = i \<longrightarrow> IngestRateMBPerSecond (t_Limits tenant) = mib)"
    and "bytes = (if mib \<le> 0 then 1048576 else of_int mib * 1048576)"
    and "admitted fl i NewLimiter rs = (n, l)"
  shows "of_int n \<le> (1 + 2 * of_nat (length rs) * u) * (2 * bytes) + (1 + u) ^ 4 * bytes * (of_int (finish - start) / 1000000000) \<and>
     (\<forall>b. map_of l i = Some b \<longrightarrow> rateBytes b = bytes \<and> burstBytes b = 2 * bytes)"
proof -
  have bytes: "bytes = allowance mib" using assms(5) by (simp add: allowance_def)
  have u: "0 \<le> u" using fl_okD(1) [OF assms(1)] .
  have pos: "0 \<le> bytes" by (simp add: assms(5))
  have m: "\<forall>b. map_of l i = Some b \<longrightarrow> meters mib finish b"
    by (rule run_meters [OF assms(1,3) _ _ assms(6)]) (use assms(4) in \<open>auto simp: NewLimiter_def\<close>)
  have start: "\<forall>(created, now, tenant, event) \<in> set rs. eventSize event \<le> 2 ^ 53 \<and> start \<le> created" using assms(4) by auto
  have "of_int n \<le> (1 + 2 * of_nat (length rs) * u) * (2 * bytes) + (1 + u) ^ 4 * bytes * (of_int (finish - start) / 1000000000)"
  proof (cases "map_of l i")
    case None
    then show ?thesis using run_bounded [OF assms(1) start assms(6)] u pos assms(2) by (auto intro!: add_nonneg_nonneg mult_nonneg_nonneg)
  next
    case (Some b)
    then have b: "rateBytes b = bytes" "burstBytes b = 2 * bytes" "lastRefill b \<le> finish" using m by (simp_all add: meters_def bytes)
    have "(1 + u) ^ 4 * bytes * (of_int (lastRefill b - start) / 1000000000) \<le> (1 + u) ^ 4 * bytes * (of_int (finish - start) / 1000000000)"
      using b(3) u pos by (intro mult_left_mono divide_right_mono) simp_all
    then show ?thesis using run_bounded [OF assms(1) start assms(6)] Some b by simp
  qed
  then show ?thesis using m by (simp add: meters_def bytes)
qed

text \<open>Two events one second apart, with exact arithmetic.\<close>

definition sample_requests :: "tenant_config \<Rightarrow> request list" where
  "sample_requests t = [(0, 0, t, zero_event\<lparr>Body := ''hello''\<rparr>), (second, second, t, zero_event\<lparr>Body := ''world''\<rparr>)]"

definition metered_tenant :: tenant_config where
  "metered_tenant = \<lparr>t_ID = ''t'', t_Name = ''t'', t_Version = 1, t_UpdatedAt = 0, t_Protected = False,
     t_LegalHoldUntil = 0, t_SearchableFields = [], t_ReservedLabels = [], t_LabelPromotionAllow = [], t_LabelPromotionDeny = [],
     t_StructuredFieldPolicy = [], t_Pipelines = [], t_ActivePipelineID = [], t_Limits = sample_limits\<lparr>IngestRateMBPerSecond := 3\<rparr>\<rparr>"

theorem ingest_rate_bounded_witness:
  "\<exists>n l b. admitted id ''t'' NewLimiter (sample_requests metered_tenant) = (n, l) \<and> n = 10 \<and> of_int n \<le> (6 * 1048576 + 3 * 1048576 :: rat) \<and>
     map_of l ''t'' = Some b \<and> rateBytes b = 3 * 1048576 \<and> burstBytes b = 6 * 1048576"
proof -
  let ?r = "sample_requests metered_tenant"
  have fl: "fl_ok 0 id" by (simp add: fl_ok_def mono_def)
  have r: "\<forall>(created, now, tenant, event) \<in> set ?r. eventSize event \<le> 2 ^ 53 \<and> 0 \<le> created \<and> created \<le> second \<and> now \<le> second \<and>
       (t_ID tenant = ''t'' \<longrightarrow> IngestRateMBPerSecond (t_Limits tenant) = 3)"
    by (simp add: sample_requests_def metered_tenant_def eventSize_def zero_event_def sum_len_def second_def)
  have n: "fst (admitted id ''t'' NewLimiter ?r) = 10" "map_of (snd (admitted id ''t'' NewLimiter ?r)) ''t'' \<noteq> None" by code_simp+
  obtain n l b where run: "admitted id ''t'' NewLimiter ?r = (n, l)" "map_of l ''t'' = Some b" using n(2) by (metis not_None_eq prod.collapse)
  show ?thesis
    using ingest_rate_bounded [OF fl _ _ r refl run(1)] run n(1) by (intro exI [of _ n] exI [of _ l] exI [of _ b]) (simp add: second_def)
qed

end
