(* ===== verification/Queue.thy ===== *)
theory Queue
  imports Core_Model "HOL-Library.Word"
begin

unbundle bit_operations_syntax

text \<open>
  Package \<open>internal/engine/queue\<close>: the partitioned in-memory broker with consumer groups, and the consumer that
  retries a failed message and sends it to the dead-letter topic after its last attempt. The \<open>Broker\<close>
  interface is a record of operations; the locale \<open>message_broker\<close> says what the consumer relies on. The message
  handler threads a state of its own through its calls; the rendering \<open>err.Error()\<close> and the clock are parameters.
\<close>

section \<open>Data\<close>

definition TopicNormalizedEvents :: string where "TopicNormalizedEvents = ''logs.normalized.v1''"
definition TopicRetryEvents :: string where "TopicRetryEvents = ''logs.normalized.retry.v1''"
definition TopicDeadLetter :: string where "TopicDeadLetter = ''logs.normalized.dlq.v1''"

record message =
  msg_Topic :: string
  msg_Partition :: nat
  msg_Offset :: nat
  msg_Key :: string
  msg_Event :: event
  msg_Attempts :: int
  msg_LastError :: string
  msg_CreatedAt :: time

record publish_request =
  pr_Topic :: string
  pr_Key :: string
  pr_Event :: event
  pr_Attempts :: int
  pr_LastError :: string

record topic_stats =
  tst_Topic :: string
  tst_Partitions :: nat
  tst_HighWatermark :: "(nat, int) gomap"
  tst_Committed :: "(string, int) gomap"
  tst_Lag :: "(string, int) gomap"
  tst_Messages :: nat

record 'b broker =
  Publish :: "time \<Rightarrow> 'b \<Rightarrow> publish_request \<Rightarrow> message result \<times> 'b"
  Poll :: "'b \<Rightarrow> string \<Rightarrow> string \<Rightarrow> int \<Rightarrow> message list result \<times> 'b"
  Commit :: "'b \<Rightarrow> string \<Rightarrow> message \<Rightarrow> goerror option \<times> 'b"
  Stats :: "'b \<Rightarrow> topic_stats list"

record memory_broker =
  br_partitions :: nat
  br_topics :: "(string, (nat, message list) gomap) gomap"
  br_commits :: "(string, (string, (nat, nat) gomap) gomap) gomap"

text \<open>Reading a missing key of a map gives the zero value of the element type.\<close>

definition read :: "'v \<Rightarrow> ('k, 'v) gomap \<Rightarrow> 'k \<Rightarrow> 'v" where
  "read zero m k = (case map_of m k of None \<Rightarrow> zero | Some v \<Rightarrow> v)"

section \<open>The in-memory broker\<close>

definition ensureTopicLocked :: "memory_broker \<Rightarrow> string \<Rightarrow> memory_broker" where
  "ensureTopicLocked b topic = (if map_of (br_topics b) topic \<noteq> None then b
     else b\<lparr>br_topics := AList.update topic (map (\<lambda>p. (p, [])) [0..<br_partitions b]) (br_topics b)\<rparr>)"

definition NewMemoryBroker :: "int \<Rightarrow> memory_broker" where
  "NewMemoryBroker partitions =
     (let partitions = (if partitions \<le> 0 then 1 else partitions)
      in fold (\<lambda>topic b. ensureTopicLocked b topic) [TopicNormalizedEvents, TopicRetryEvents, TopicDeadLetter]
           \<lparr>br_partitions = nat partitions, br_topics = [], br_commits = []\<rparr>)"

text \<open>\<open>crc32.ChecksumIEEE\<close>, bit by bit with the reflected polynomial.\<close>

definition crc32_bit :: "32 word \<Rightarrow> 32 word" where
  "crc32_bit c = (if c AND 1 = 1 then (drop_bit 1 c) XOR 0xEDB88320 else drop_bit 1 c)"

definition crc32_byte :: "32 word \<Rightarrow> char \<Rightarrow> 32 word" where
  "crc32_byte c x = (crc32_bit ^^ 8) (c XOR of_char x)"

definition ChecksumIEEE :: "string \<Rightarrow> 32 word" where
  "ChecksumIEEE s = NOT (foldl crc32_byte (NOT 0) s)"

definition broker_partition :: "memory_broker \<Rightarrow> string \<Rightarrow> nat" where
  "broker_partition b key = (if key = [] \<or> br_partitions b = 1 then 0
     else unat (ChecksumIEEE key mod of_nat (br_partitions b)))"

definition Memory_Publish :: "time \<Rightarrow> memory_broker \<Rightarrow> publish_request \<Rightarrow> message result \<times> memory_broker" where
  "Memory_Publish now b req =
     (if pr_Topic req = [] then (Inl ErrTopicRequired, b) else
      let b = ensureTopicLocked b (pr_Topic req);
          part = broker_partition b (pr_Key req);
          topic = read [] (br_topics b) (pr_Topic req);
          offset = length (read [] topic part);
          msg = \<lparr>msg_Topic = pr_Topic req, msg_Partition = part, msg_Offset = offset, msg_Key = pr_Key req,
                 msg_Event = Event_Clone (pr_Event req), msg_Attempts = pr_Attempts req, msg_LastError = pr_LastError req,
                 msg_CreatedAt = now\<rparr>
      in (Inr msg, b\<lparr>br_topics := AList.update (pr_Topic req)
            (AList.update part (read [] topic part @ [msg]) topic) (br_topics b)\<rparr>))"

fun ensure_partitions :: "nat list \<Rightarrow> (nat, nat) gomap \<Rightarrow> (nat, nat) gomap" where
  "ensure_partitions [] m = m"
| "ensure_partitions (p # ps) m = ensure_partitions ps (if map_of m p = None then AList.update p 0 m else m)"

definition ensureGroupTopicLocked :: "memory_broker \<Rightarrow> string \<Rightarrow> string \<Rightarrow> memory_broker" where
  "ensureGroupTopicLocked b grp topic =
     (let groups = (if map_of (br_commits b) grp = None then AList.update grp [] (br_commits b) else br_commits b);
          topics = read [] groups grp;
          topics = (if map_of topics topic = None then AList.update topic [] topics else topics);
          offsets = ensure_partitions [0..<br_partitions b] (read [] topics topic)
      in b\<lparr>br_commits := AList.update grp (AList.update topic offsets topics) groups\<rparr>)"

definition committedLocked :: "memory_broker \<Rightarrow> string \<Rightarrow> string \<Rightarrow> nat \<Rightarrow> nat" where
  "committedLocked b grp topic part =
     (if map_of (br_commits b) grp = None then 0
      else if map_of (read [] (br_commits b) grp) topic = None then 0
      else read 0 (read [] (read [] (br_commits b) grp) topic) part)"

text \<open>The two loops of \<open>Poll\<close>: over the uncommitted messages of a part, and over the partitions.\<close>

fun poll_messages :: "nat \<Rightarrow> message list \<Rightarrow> message list \<Rightarrow> message list" where
  "poll_messages limit [] out = out"
| "poll_messages limit (m # ms) out = (if length out < limit then poll_messages limit ms (out @ [m]) else out)"

fun poll_partitions :: "(nat \<Rightarrow> message list) \<Rightarrow> nat \<Rightarrow> nat list \<Rightarrow> message list \<Rightarrow> message list" where
  "poll_partitions uncommitted limit [] out = out"
| "poll_partitions uncommitted limit (p # ps) out =
     (if length out < limit then poll_partitions uncommitted limit ps (poll_messages limit (uncommitted p) out) else out)"

definition created_before :: "message \<Rightarrow> message \<Rightarrow> bool" where
  "created_before x y \<longleftrightarrow> (if msg_CreatedAt x = msg_CreatedAt y then msg_Offset x < msg_Offset y else msg_CreatedAt x < msg_CreatedAt y)"

definition Memory_Poll :: "memory_broker \<Rightarrow> string \<Rightarrow> string \<Rightarrow> int \<Rightarrow> message list result \<times> memory_broker" where
  "Memory_Poll b grp topic limit =
     (if topic = [] then (Inl ErrTopicRequired, b) else
      let limit = (if limit \<le> 0 then 100 else limit) in
      case map_of (br_topics b) topic of None \<Rightarrow> (Inr [], b) | Some partitions \<Rightarrow>
        let b = ensureGroupTopicLocked b grp topic;
            out = poll_partitions (\<lambda>p. drop (committedLocked b grp topic p) (read [] partitions p)) (nat limit) [0..<br_partitions b] []
        in (Inr (sort_slice created_before out), b))"

definition Memory_Commit :: "memory_broker \<Rightarrow> string \<Rightarrow> message \<Rightarrow> goerror option \<times> memory_broker" where
  "Memory_Commit b grp msg =
     (if msg_Topic msg = [] then (Some ErrTopicRequired, b) else
      let b = ensureGroupTopicLocked b grp (msg_Topic msg);
          topics = read [] (br_commits b) grp;
          offsets = read [] topics (msg_Topic msg);
          nextOffset = msg_Offset msg + 1
      in (None, if read 0 offsets (msg_Partition msg) < nextOffset
            then b\<lparr>br_commits := AList.update grp (AList.update (msg_Topic msg)
                     (AList.update (msg_Partition msg) nextOffset offsets) topics) (br_commits b)\<rparr>
            else b))"

definition topic_stats_of :: "memory_broker \<Rightarrow> string \<Rightarrow> topic_stats" where
  "topic_stats_of b topic =
     (let sizes = map (\<lambda>p. length (read [] (read [] (br_topics b) topic) p)) [0..<br_partitions b];
          total = sum_list sizes;
          committed = (\<lambda>topics. sum_list (map (\<lambda>p. read 0 (read [] topics topic) p) [0..<br_partitions b])) in
      \<lparr>tst_Topic = topic, tst_Partitions = br_partitions b,
       tst_HighWatermark = zip [0..<br_partitions b] (map int sizes),
       tst_Committed = fold (\<lambda>(grp, topics). AList.update (grp @ '':'' @ topic) (int (committed topics))) (br_commits b) [],
       tst_Lag = fold (\<lambda>(grp, topics). AList.update (grp @ '':'' @ topic) (int total - int (committed topics))) (br_commits b) [],
       tst_Messages = total\<rparr>)"

definition Memory_Stats :: "memory_broker \<Rightarrow> topic_stats list" where
  "Memory_Stats b = map (topic_stats_of b) (sort (map fst (br_topics b)))"

fun replay_messages :: "nat \<Rightarrow> message list \<Rightarrow> message list \<Rightarrow> message list" where
  "replay_messages limit [] out = out"
| "replay_messages limit (m # ms) out =
     (let out = out @ [m] in if limit \<le> length out then out else replay_messages limit ms out)"

fun replay_partitions :: "(nat \<Rightarrow> message list) \<Rightarrow> nat \<Rightarrow> nat list \<Rightarrow> message list \<Rightarrow> message list" where
  "replay_partitions messages limit [] out = out"
| "replay_partitions messages limit (p # ps) out =
     (if length out < limit then replay_partitions messages limit ps (replay_messages limit (messages p) out) else out)"

definition replay_before :: "message \<Rightarrow> message \<Rightarrow> bool" where
  "replay_before x y \<longleftrightarrow> (if msg_CreatedAt x = msg_CreatedAt y
     then (if msg_Partition x = msg_Partition y then msg_Offset x < msg_Offset y else msg_Partition x < msg_Partition y)
     else msg_CreatedAt x < msg_CreatedAt y)"

definition Memory_Replay :: "memory_broker \<Rightarrow> string \<Rightarrow> int \<Rightarrow> message list result" where
  "Memory_Replay b topic limit =
     (if topic = [] then Inl ErrTopicRequired else
      let limit = (if limit \<le> 0 then 100 else limit) in
      case map_of (br_topics b) topic of None \<Rightarrow> Inr [] | Some partitions \<Rightarrow>
        Inr (sort_slice replay_before (replay_partitions (read [] partitions) (nat limit) [0..<br_partitions b] [])))"

definition MemoryBroker :: "memory_broker broker" where
  "MemoryBroker = \<lparr>Publish = Memory_Publish, Poll = Memory_Poll, Commit = Memory_Commit, Stats = Memory_Stats\<rparr>"

section \<open>The consumer\<close>

record consumer_options =
  co_Group :: string
  co_Topics :: "string list"
  co_MaxAttempts :: int
  co_BatchSize :: int

record consume_report =
  Polled :: nat
  Processed :: nat
  Retried :: nat
  DeadLettered :: nat

definition NewConsumer :: "consumer_options \<Rightarrow> consumer_options" where
  "NewConsumer opts =
     (let opts = (if co_Group opts = [] then opts\<lparr>co_Group := ''logagg-writers''\<rparr> else opts);
          opts = (if co_Topics opts = [] then opts\<lparr>co_Topics := [TopicNormalizedEvents, TopicRetryEvents]\<rparr> else opts);
          opts = (if co_MaxAttempts opts \<le> 0 then opts\<lparr>co_MaxAttempts := 3\<rparr> else opts)
      in if co_BatchSize opts \<le> 0 then opts\<lparr>co_BatchSize := 100\<rparr> else opts)"

type_synonym 'h handler = "'h \<Rightarrow> message \<Rightarrow> goerror option \<times> 'h"

fun poll_topics ::
  "'b broker \<Rightarrow> string \<Rightarrow> string list \<Rightarrow> int \<Rightarrow> consume_report \<Rightarrow> message list \<Rightarrow> 'b \<Rightarrow> goerror option \<times> consume_report \<times> message list \<times> 'b" where
  "poll_topics B grp [] remaining report batch b = (None, report, batch, b)"
| "poll_topics B grp (topic # topics) remaining report batch b =
     (if remaining \<le> 0 then (None, report, batch, b)
      else case Poll B b grp topic remaining of
          (Inl err, b) \<Rightarrow> (Some err, report, batch, b)
        | (Inr messages, b) \<Rightarrow> poll_topics B grp topics (remaining - int (length messages))
            (report\<lparr>Polled := Polled report + length messages\<rparr>) (batch @ messages) b)"

definition republish :: "string \<Rightarrow> message \<Rightarrow> string \<Rightarrow> publish_request" where
  "republish topic msg err = \<lparr>pr_Topic = topic, pr_Key = msg_Key msg, pr_Event = msg_Event msg,
     pr_Attempts = msg_Attempts msg + 1, pr_LastError = err\<rparr>"

text \<open>\<open>now n\<close> is the clock when the broker is called for the \<open>n\<close>th message from the end of the batch.\<close>

fun handle_batch ::
  "'b broker \<Rightarrow> 'h handler \<Rightarrow> (goerror \<Rightarrow> string) \<Rightarrow> (nat \<Rightarrow> time) \<Rightarrow> consumer_options \<Rightarrow> message list \<Rightarrow> consume_report \<Rightarrow> 'b \<Rightarrow> 'h \<Rightarrow>
     goerror option \<times> consume_report \<times> 'b \<times> 'h" where
  "handle_batch B H errstr now c [] report b h = (None, report, b, h)"
| "handle_batch B H errstr now c (msg # batch) report b h =
     (case H h msg of
        (Some err, h) \<Rightarrow>
          let dead = (co_MaxAttempts c \<le> msg_Attempts msg + 1) in
          (case Publish B (now (length batch)) b (republish (if dead then TopicDeadLetter else TopicRetryEvents) msg (errstr err)) of
             (Inl publishErr, b) \<Rightarrow> (Some publishErr, report, b, h)
           | (Inr _, b) \<Rightarrow>
               let report = (if dead then report\<lparr>DeadLettered := DeadLettered report + 1\<rparr> else report\<lparr>Retried := Retried report + 1\<rparr>) in
               (case Commit B b (co_Group c) msg of
                  (Some err, b) \<Rightarrow> (Some err, report, b, h)
                | (None, b) \<Rightarrow> handle_batch B H errstr now c batch report b h))
      | (None, h) \<Rightarrow>
          (case Commit B b (co_Group c) msg of
             (Some err, b) \<Rightarrow> (Some err, report, b, h)
           | (None, b) \<Rightarrow> handle_batch B H errstr now c batch (report\<lparr>Processed := Processed report + 1\<rparr>) b h))"

definition ConsumeOnce ::
  "'b broker \<Rightarrow> 'h handler \<Rightarrow> (goerror \<Rightarrow> string) \<Rightarrow> (nat \<Rightarrow> time) \<Rightarrow> consumer_options \<Rightarrow> int \<Rightarrow> 'b \<Rightarrow> 'h \<Rightarrow>
     goerror option \<times> consume_report \<times> 'b \<times> 'h" where
  "ConsumeOnce B H errstr now c limit b h =
     (let limit = (if limit \<le> 0 then co_BatchSize c else limit) in
      case poll_topics B (co_Group c) (co_Topics c) limit \<lparr>Polled = 0, Processed = 0, Retried = 0, DeadLettered = 0\<rparr> [] b of
        (Some err, report, batch, b) \<Rightarrow> (Some err, report, b, h)
      | (None, report, batch, b) \<Rightarrow> handle_batch B H errstr now c batch report b h)"

section \<open>What a consumer relies on\<close>

text \<open>What identifies the work of a message, and what it becomes when it is published again.\<close>

definition core :: "message \<Rightarrow> string \<times> event \<times> int" where
  "core m = (msg_Key m, Event_Clone (msg_Event m), msg_Attempts m)"

definition bumped :: "message \<Rightarrow> string \<times> event \<times> int" where
  "bumped m = (msg_Key m, Event_Clone (msg_Event m), msg_Attempts m + 1)"

text \<open>The messages of a batch the handler accepts and those it rejects.\<close>

fun handled :: "'h handler \<Rightarrow> 'h \<Rightarrow> message list \<Rightarrow> message list" where
  "handled H h [] = []"
| "handled H h (m # ms) = (case H h m of (None, h) \<Rightarrow> m # handled H h ms | (Some _, h) \<Rightarrow> handled H h ms)"

fun failures :: "'h handler \<Rightarrow> 'h \<Rightarrow> message list \<Rightarrow> message list" where
  "failures H h [] = []"
| "failures H h (m # ms) = (case H h m of (None, h) \<Rightarrow> failures H h ms | (Some _, h) \<Rightarrow> m # failures H h ms)"

text \<open>The state of the handler after a batch.\<close>

fun run_handler :: "'h handler \<Rightarrow> 'h \<Rightarrow> message list \<Rightarrow> 'h" where
  "run_handler H h [] = h"
| "run_handler H h (m # ms) = run_handler H (snd (H h m)) ms"

definition last_attempt :: "consumer_options \<Rightarrow> message \<Rightarrow> bool" where
  "last_attempt c m \<longleftrightarrow> co_MaxAttempts c \<le> msg_Attempts m + 1"

lemma handled_failures: "mset (handled H h ms) + mset (failures H h ms) = mset ms"
  by (induction ms arbitrary: h) (auto split: prod.splits option.splits)

text \<open>The offset a group has committed after the messages of a batch.\<close>

fun advance :: "string \<Rightarrow> nat \<Rightarrow> message list \<Rightarrow> nat \<Rightarrow> nat" where
  "advance t p [] c = c"
| "advance t p (m # ms) c = advance t p ms (if msg_Topic m = t \<and> msg_Partition m = p then max c (msg_Offset m + 1) else c)"

lemma advance_mono: "c \<le> c' \<Longrightarrow> c \<le> advance t p ms c'"
  by (induction ms arbitrary: c') auto

lemma advance_ge: "m \<in> set ms \<Longrightarrow> msg_Topic m = t \<Longrightarrow> msg_Partition m = p \<Longrightarrow> msg_Offset m < advance t p ms c"
proof (induction ms arbitrary: c)
  case (Cons x ms)
  then show ?case using advance_mono [of "Suc (msg_Offset m)" "max c (Suc (msg_Offset m))" t p ms] by auto
qed simp

lemma advance_cases:
  "advance t p ms c = c \<or> (\<exists>m \<in> set ms. msg_Topic m = t \<and> msg_Partition m = p \<and> advance t p ms c = msg_Offset m + 1)"
proof (induction ms arbitrary: c)
  case (Cons x ms)
  let ?c = "if msg_Topic x = t \<and> msg_Partition x = p then max c (msg_Offset x + 1) else c"
  show ?case using Cons.IH [of ?c] by (auto simp: max_def split: if_splits)
qed simp

lemma advance_range:
  assumes "msg_Offset ` {m \<in> set ms. msg_Topic m = t \<and> msg_Partition m = p} = {c..<c + k}"
  shows "advance t p ms c = c + k"
proof (cases k)
  case 0
  then have "{m \<in> set ms. msg_Topic m = t \<and> msg_Partition m = p} = {}" using assms by auto
  then show ?thesis using advance_cases [of t p ms c] 0 by auto
next
  case (Suc j)
  then have "c + j \<in> msg_Offset ` {m \<in> set ms. msg_Topic m = t \<and> msg_Partition m = p}" using assms by simp
  then obtain m where "m \<in> set ms" "msg_Topic m = t" "msg_Partition m = p" "msg_Offset m = c + j" by auto
  then have "c + k \<le> advance t p ms c" using advance_ge [of m ms t p c] Suc by simp
  moreover have "advance t p ms c \<le> c + k"
    using advance_cases [of t p ms c] assms by (auto simp: image_iff set_eq_iff) (metis atLeastLessThan_iff less_eq_Suc_le)
  ultimately show ?thesis by simp
qed

text \<open>
  Logs that only grew: the messages \<open>rs\<close> were published again to the retry topic and \<open>ds\<close> to the dead-letter topic,
  the logs of the other topics are unchanged.
\<close>

definition republished :: "nat \<Rightarrow> (string \<Rightarrow> nat \<Rightarrow> message list) \<Rightarrow> (string \<Rightarrow> nat \<Rightarrow> message list) \<Rightarrow> message list \<Rightarrow> message list \<Rightarrow> bool" where
  "republished n L L' rs ds \<longleftrightarrow> (\<exists>app. (\<forall>t p. L' t p = L t p @ app t p) \<and>
     (\<forall>t. t \<notin> {TopicRetryEvents, TopicDeadLetter} \<longrightarrow> (\<forall>p. app t p = [])) \<and>
     image_mset core (\<Sum>p < n. mset (app TopicRetryEvents p)) = image_mset bumped (mset rs) \<and>
     image_mset core (\<Sum>p < n. mset (app TopicDeadLetter p)) = image_mset bumped (mset ds))"

lemma republished_refl: "republished n L L [] []"
  unfolding republished_def by (rule exI [of _ "\<lambda>_ _. []"]) simp

lemma republished_trans:
  assumes "republished n L L1 rs ds" and "republished n L1 L2 rs' ds'"
  shows "republished n L L2 (rs @ rs') (ds @ ds')"
proof -
  obtain app where a: "\<forall>t p. L1 t p = L t p @ app t p" "\<forall>t. t \<notin> {TopicRetryEvents, TopicDeadLetter} \<longrightarrow> (\<forall>p. app t p = [])"
     "image_mset core (\<Sum>p < n. mset (app TopicRetryEvents p)) = image_mset bumped (mset rs)"
     "image_mset core (\<Sum>p < n. mset (app TopicDeadLetter p)) = image_mset bumped (mset ds)"
    using assms(1) unfolding republished_def by blast
  obtain app' where a': "\<forall>t p. L2 t p = L1 t p @ app' t p" "\<forall>t. t \<notin> {TopicRetryEvents, TopicDeadLetter} \<longrightarrow> (\<forall>p. app' t p = [])"
     "image_mset core (\<Sum>p < n. mset (app' TopicRetryEvents p)) = image_mset bumped (mset rs')"
     "image_mset core (\<Sum>p < n. mset (app' TopicDeadLetter p)) = image_mset bumped (mset ds')"
    using assms(2) unfolding republished_def by blast
  show ?thesis unfolding republished_def
  proof (intro exI [of _ "\<lambda>t p. app t p @ app' t p"] conjI)
    show "\<forall>t p. L2 t p = L t p @ app t p @ app' t p" using a(1) a'(1) by simp
    show "\<forall>t. t \<notin> {TopicRetryEvents, TopicDeadLetter} \<longrightarrow> (\<forall>p. app t p @ app' t p = [])" using a(2) a'(2) by simp
    show "image_mset core (\<Sum>p < n. mset (app TopicRetryEvents p @ app' TopicRetryEvents p)) = image_mset bumped (mset (rs @ rs'))"
      using a(3) a'(3) by (simp add: sum.distrib)
    show "image_mset core (\<Sum>p < n. mset (app TopicDeadLetter p @ app' TopicDeadLetter p)) = image_mset bumped (mset (ds @ ds'))"
      using a(4) a'(4) by (simp add: sum.distrib)
  qed
qed

lemma republished_one:
  assumes "p < n" and "L' = L(t := (L t)(p := L t p @ [m']))" and "core m' = bumped m"
  shows "t = TopicRetryEvents \<Longrightarrow> republished n L L' [m] []" and "t = TopicDeadLetter \<Longrightarrow> republished n L L' [] [m]"
proof -
  have ne: "TopicRetryEvents \<noteq> TopicDeadLetter" by (simp add: TopicRetryEvents_def TopicDeadLetter_def)
  have one: "(\<Sum>q < n. mset (if q = p then [m'] else [])) = {#m'#}"
    using assms(1) by (simp add: if_distrib [of mset] sum.delta cong: if_cong)
  let ?app = "\<lambda>t' q. if t' = t \<and> q = p then [m'] else []"
  show "republished n L L' [m] []" if "t = TopicRetryEvents"
    unfolding republished_def using that one ne assms(2,3) by (intro exI [of _ ?app]) auto
  show "republished n L L' [] [m]" if "t = TopicDeadLetter"
    unfolding republished_def using that one ne [symmetric] assms(2,3) by (intro exI [of _ ?app]) auto
qed

definition attempts_left :: "consumer_options \<Rightarrow> string \<times> event \<times> int \<Rightarrow> nat" where
  "attempts_left c w = nat (max 1 (co_MaxAttempts c - snd (snd w)))"

definition weight :: "consumer_options \<Rightarrow> message multiset \<Rightarrow> nat" where
  "weight c M = (\<Sum>m \<in># M. attempts_left c (core m))"

lemma failures_weight:
  "(\<Sum>m \<in># mset (filter (\<lambda>m. \<not> last_attempt c m) (failures H h ms)). attempts_left c (bumped m)) + length ms \<le> weight c (mset ms)"
proof (induction ms arbitrary: h)
  case (Cons m ms)
  have one: "1 \<le> attempts_left c (core m)" by (simp add: attempts_left_def)
  have two: "attempts_left c (bumped m) + 1 \<le> attempts_left c (core m)" if "\<not> last_attempt c m"
    using that by (simp add: attempts_left_def last_attempt_def core_def bumped_def)
  obtain e h1 where "H h m = (e, h1)" by fastforce
  then show ?case using Cons.IH [of h1] one two by (cases e) (auto simp: weight_def)
qed (simp add: weight_def)

locale message_broker =
  fixes B :: "'b broker" and inv :: "'b \<Rightarrow> bool" and parts :: "'b \<Rightarrow> nat"
    and logs :: "'b \<Rightarrow> string \<Rightarrow> nat \<Rightarrow> message list" and committed :: "'b \<Rightarrow> string \<Rightarrow> string \<Rightarrow> nat \<Rightarrow> nat"
  assumes positions: "inv b \<Longrightarrow> i < length (logs b t p) \<Longrightarrow>
        msg_Topic (logs b t p ! i) = t \<and> msg_Partition (logs b t p ! i) = p \<and> msg_Offset (logs b t p ! i) = i"
    and unused: "inv b \<Longrightarrow> parts b \<le> p \<Longrightarrow> logs b t p = []"
    and committed_le: "inv b \<Longrightarrow> committed b g t p \<le> length (logs b t p)"
    and publish: "inv b \<Longrightarrow> Publish B now b req = (Inr m, b') \<Longrightarrow>
        inv b' \<and> parts b' = parts b \<and> committed b' = committed b \<and> core m = (pr_Key req, Event_Clone (pr_Event req), pr_Attempts req) \<and>
        (\<exists>p < parts b. logs b' = (logs b)(pr_Topic req := (logs b (pr_Topic req))(p := logs b (pr_Topic req) p @ [m])))"
    and poll: "inv b \<Longrightarrow> Poll B b g t limit = (Inr ms, b') \<Longrightarrow> 0 < limit \<Longrightarrow>
        inv b' \<and> parts b' = parts b \<and> logs b' = logs b \<and> committed b' = committed b \<and> int (length ms) \<le> limit \<and>
        (\<exists>k. mset ms = (\<Sum>p < parts b. mset (take (k p) (drop (committed b g t p) (logs b t p))))) \<and>
        (ms = [] \<longrightarrow> (\<forall>p. drop (committed b g t p) (logs b t p) = []))"
    and commit: "inv b \<Longrightarrow> m \<in> set (logs b (msg_Topic m) (msg_Partition m)) \<Longrightarrow> Commit B b g m = (None, b') \<Longrightarrow>
        inv b' \<and> parts b' = parts b \<and> logs b' = logs b \<and>
        (\<forall>g' t p. committed b' g' t p = (if g' = g \<and> t = msg_Topic m \<and> p = msg_Partition m
           then max (committed b g t p) (msg_Offset m + 1) else committed b g' t p))"
begin

definition pending :: "'b \<Rightarrow> string \<Rightarrow> string \<Rightarrow> message multiset" where
  "pending b g t = (\<Sum>p < parts b. mset (drop (committed b g t p) (logs b t p)))"

definition stored :: "'b \<Rightarrow> string \<Rightarrow> message multiset" where
  "stored b t = (\<Sum>p < parts b. mset (logs b t p))"

definition backlog :: "'b \<Rightarrow> string \<Rightarrow> string set \<Rightarrow> message multiset" where
  "backlog b g ts = (\<Sum>t \<in> ts. pending b g t)"

text \<open>The next \<open>k t p\<close> messages of partition \<open>p\<close>, and those of all partitions of the topics.\<close>

definition next_msgs :: "'b \<Rightarrow> string \<Rightarrow> (string \<Rightarrow> nat \<Rightarrow> nat) \<Rightarrow> string \<Rightarrow> nat \<Rightarrow> message list" where
  "next_msgs b g k t p = take (k t p) (drop (committed b g t p) (logs b t p))"

definition covers :: "'b \<Rightarrow> string \<Rightarrow> string set \<Rightarrow> message list \<Rightarrow> (string \<Rightarrow> nat \<Rightarrow> nat) \<Rightarrow> bool" where
  "covers b g ts batch k \<longleftrightarrow> mset batch = (\<Sum>t \<in> ts. \<Sum>p < parts b. mset (next_msgs b g k t p))"

lemma batch_progress:
  assumes "inv b" and "\<forall>m \<in> set batch. m \<in> set (logs b (msg_Topic m) (msg_Partition m))"
    and "handle_batch B H errstr now c batch rep b h = (None, rep', b', h')"
  shows "inv b' \<and> parts b' = parts b \<and> (\<forall>t p. committed b' (co_Group c) t p = advance t p batch (committed b (co_Group c) t p)) \<and>
     republished (parts b) (logs b) (logs b') (filter (\<lambda>m. \<not> last_attempt c m) (failures H h batch)) (filter (last_attempt c) (failures H h batch))"
  using assms
proof (induction batch arbitrary: rep b h)
  case Nil
  then show ?case by (simp add: republished_refl)
next
  case (Cons m batch)
  let ?g = "co_Group c"
  have in_log: "m \<in> set (logs b (msg_Topic m) (msg_Partition m))" using Cons.prems(2) by simp
  obtain e h1 where H: "H h m = (e, h1)" by fastforce
  show ?case
  proof (cases e)
    case None
    obtain b1 where cm: "Commit B b ?g m = (None, b1)"
      and rest: "handle_batch B H errstr now c batch (rep\<lparr>Processed := Processed rep + 1\<rparr>) b1 h1 = (None, rep', b', h')"
      using Cons.prems(3) H None by (auto split: prod.splits option.splits)
    note co = commit [OF Cons.prems(1) in_log cm]
    have "\<forall>m \<in> set batch. m \<in> set (logs b1 (msg_Topic m) (msg_Partition m))" using Cons.prems(2) co by simp
    then show ?thesis using Cons.IH [OF _ _ rest] co H None by (simp add: eq_commute)
  next
    case (Some err)
    let ?t = "if last_attempt c m then TopicDeadLetter else TopicRetryEvents"
    obtain m' b1 b2 rep1 where pb: "Publish B (now (length batch)) b (republish ?t m (errstr err)) = (Inr m', b1)"
      and cm: "Commit B b1 ?g m = (None, b2)" and rest: "handle_batch B H errstr now c batch rep1 b2 h1 = (None, rep', b', h')"
      using Cons.prems(3) H Some unfolding last_attempt_def by (auto simp: Let_def split: prod.splits option.splits sum.splits)
    note pu = publish [OF Cons.prems(1) pb]
    then obtain p where p: "p < parts b" "logs b1 = (logs b)(?t := (logs b ?t)(p := logs b ?t p @ [m']))"
      by (auto simp: republish_def)
    have "core m' = bumped m" using pu by (simp add: republish_def bumped_def)
    note one = republished_one [OF p this]
    have sub: "set (logs b t q) \<subseteq> set (logs b1 t q)" for t q by (auto simp: p(2))
    have in_log1: "m \<in> set (logs b1 (msg_Topic m) (msg_Partition m))" using in_log sub by blast
    have "inv b1" using pu by simp
    note co = commit [OF this in_log1 cm]
    have "\<forall>m \<in> set batch. m \<in> set (logs b2 (msg_Topic m) (msg_Partition m))" using Cons.prems(2) co sub by (metis list.set_intros(2) subsetD)
    note IH = Cons.IH [OF _ this rest]
    have rep: "republished (parts b) (logs b) (logs b') (rs @ filter (\<lambda>m. \<not> last_attempt c m) (failures H h1 batch))
        (ds @ filter (last_attempt c) (failures H h1 batch))" if "republished (parts b) (logs b) (logs b1) rs ds" for rs ds
      using republished_trans [OF that] IH co pu by simp
    have "republished (parts b) (logs b) (logs b') (filter (\<lambda>m. \<not> last_attempt c m) (failures H h (m # batch)))
        (filter (last_attempt c) (failures H h (m # batch)))"
      using rep [of "[m]" "[]"] rep [of "[]" "[m]"] one H Some by (cases "last_attempt c m") simp_all
    then show ?thesis using IH co pu by (simp add: eq_commute)
  qed
qed

lemma batch_report:
  assumes "handle_batch B H errstr now c batch rep b h = (None, rep', b', h')"
  shows "Polled rep' = Polled rep \<and> Processed rep' = Processed rep + length (handled H h batch) \<and>
     Retried rep' = Retried rep + length (filter (\<lambda>m. \<not> last_attempt c m) (failures H h batch)) \<and>
     DeadLettered rep' = DeadLettered rep + length (filter (last_attempt c) (failures H h batch)) \<and> h' = run_handler H h batch"
  using assms
proof (induction batch arbitrary: rep b h)
  case (Cons m batch)
  obtain e h1 where H: "H h m = (e, h1)" by fastforce
  show ?case
  proof (cases e)
    case None
    then show ?thesis using Cons H by (fastforce split: prod.splits option.splits)
  next
    case (Some err)
    let ?rep = "if last_attempt c m then rep\<lparr>DeadLettered := DeadLettered rep + 1\<rparr> else rep\<lparr>Retried := Retried rep + 1\<rparr>"
    obtain b1 where "handle_batch B H errstr now c batch ?rep b1 h1 = (None, rep', b', h')"
      using Cons.prems H Some by (auto simp: last_attempt_def Let_def split: prod.splits option.splits sum.splits if_splits)
    from Cons.IH [OF this] show ?thesis using H Some by auto
  qed
qed simp

lemma poll_topics_spec:
  assumes "inv b" and "distinct topics" and "poll_topics B g topics remaining rep batch b = (None, rep', batch', b')"
  shows "inv b' \<and> parts b' = parts b \<and> logs b' = logs b \<and> committed b' = committed b \<and>
     (\<exists>ms k. batch' = batch @ ms \<and> covers b g (set topics) ms k \<and> Polled rep' = Polled rep + length ms \<and>
        Processed rep' = Processed rep \<and> Retried rep' = Retried rep \<and> DeadLettered rep' = DeadLettered rep \<and>
        (0 < remaining \<longrightarrow> ms = [] \<longrightarrow> (\<forall>t \<in> set topics. \<forall>p. drop (committed b g t p) (logs b t p) = [])))"
  using assms
proof (induction topics arbitrary: remaining rep batch b)
  case Nil
  then show ?case by (simp add: covers_def)
next
  case (Cons t topics)
  show ?case
  proof (cases "remaining \<le> 0")
    case True
    have "covers b g (set (t # topics)) [] (\<lambda>_ _. 0)" by (simp add: covers_def next_msgs_def)
    then show ?thesis using True Cons.prems by auto
  next
    case False
    obtain msgs b1 where pl: "Poll B b g t remaining = (Inr msgs, b1)"
      and rest: "poll_topics B g topics (remaining - int (length msgs)) (rep\<lparr>Polled := Polled rep + length msgs\<rparr>) (batch @ msgs) b1 =
        (None, rep', batch', b')"
      using False Cons.prems(3) by (auto split: prod.splits sum.splits)
    have po: "inv b1" "parts b1 = parts b" "logs b1 = logs b" "committed b1 = committed b" "int (length msgs) \<le> remaining"
        "msgs = [] \<longrightarrow> (\<forall>p. drop (committed b g t p) (logs b t p) = [])"
      using poll [OF Cons.prems(1) pl] False by auto
    obtain k0 where k0: "mset msgs = (\<Sum>p < parts b. mset (take (k0 p) (drop (committed b g t p) (logs b t p))))"
      using poll [OF Cons.prems(1) pl] False by auto
    note IH = Cons.IH [OF po(1) _ rest]
    obtain ms k where ms: "batch' = batch @ msgs @ ms" "covers b1 g (set topics) ms k" "Polled rep' = Polled rep + length msgs + length ms"
        "Processed rep' = Processed rep" "Retried rep' = Retried rep" "DeadLettered rep' = DeadLettered rep"
        "0 < remaining - int (length msgs) \<longrightarrow> ms = [] \<longrightarrow> (\<forall>t \<in> set topics. \<forall>p. drop (committed b g t p) (logs b t p) = [])"
      using IH Cons.prems(2) po by auto
    have t: "t \<notin> set topics" using Cons.prems(2) by simp
    define K where "K = k(t := k0)"
    have same: "next_msgs b g K u p = next_msgs b1 g k u p" if "u \<in> set topics" for u p
      using that t po by (auto simp: next_msgs_def K_def)
    have "(\<Sum>p < parts b. mset (next_msgs b g K t p)) = mset msgs" by (simp add: k0 next_msgs_def K_def)
    moreover have "(\<Sum>u \<in> set topics. \<Sum>p < parts b. mset (next_msgs b g K u p)) = mset ms"
      using ms(2) same po(2) by (simp add: covers_def)
    ultimately have cv: "covers b g (set (t # topics)) (msgs @ ms) K"
      using t by (simp add: covers_def)
    have "inv b'" "parts b' = parts b" "logs b' = logs b" "committed b' = committed b" using IH po Cons.prems(2) by simp_all
    then show ?thesis using ms(1,3-7) po(6) cv False
      by (intro conjI exI [of _ "msgs @ ms"] exI [of _ K]) auto
  qed
qed

lemma set_batch:
  assumes "covers b g ts batch k" and "finite ts"
  shows "m \<in> set batch \<longleftrightarrow> (\<exists>t \<in> ts. \<exists>p < parts b. m \<in> set (next_msgs b g k t p))"
proof -
  have "m \<in> set batch \<longleftrightarrow> m \<in># (\<Sum>t \<in> ts. \<Sum>p < parts b. mset (next_msgs b g k t p))"
    using assms(1) by (simp add: covers_def flip: set_mset_mset)
  then show ?thesis using assms(2) by (auto simp: set_mset_sum)
qed

lemma next_msgs_pos:
  assumes "inv b" and "m \<in> set (next_msgs b g k t p)"
  shows "m \<in> set (logs b t p)" and "msg_Topic m = t" and "msg_Partition m = p"
proof -
  show "m \<in> set (logs b t p)" using assms(2) unfolding next_msgs_def by (meson in_set_dropD in_set_takeD)
  then show "msg_Topic m = t" "msg_Partition m = p" using positions [OF assms(1)] by (metis in_set_conv_nth)+
qed

lemma next_offsets:
  assumes "inv b"
  shows "msg_Offset ` set (next_msgs b g k t p) =
     {committed b g t p..<committed b g t p + length (next_msgs b g k t p)}"
proof -
  let ?c = "committed b g t p" and ?n = "next_msgs b g k t p"
  have nth: "msg_Offset (?n ! i) = ?c + i" if "i < length ?n" for i
    using that positions [OF assms, of "?c + i" t p] committed_le [OF assms, of g t p] by (simp add: next_msgs_def less_diff_conv add.commute)
  have "msg_Offset ` set ?n = (\<lambda>i. msg_Offset (?n ! i)) ` {..<length ?n}" by (auto simp: set_conv_nth)
  also have "\<dots> = (+) ?c ` {..<length ?n}" using nth by (intro image_cong) auto
  also have "\<dots> = {?c..<?c + length ?n}" by (simp add: lessThan_atLeast0 add.commute)
  finally show ?thesis .
qed

lemma advance_batch:
  assumes "inv b" and "covers b g ts batch k" and "finite ts" and "t \<in> ts"
  shows "advance t p batch (committed b g t p) = committed b g t p + length (next_msgs b g k t p)"
proof -
  have "{m \<in> set batch. msg_Topic m = t \<and> msg_Partition m = p} = set (next_msgs b g k t p)"
  proof (cases "p < parts b")
    case True
    then show ?thesis
      using set_batch [OF assms(2,3)] next_msgs_pos [OF assms(1)] assms(4) by blast
  next
    case False
    then have "next_msgs b g k t p = []" using unused [OF assms(1)] by (simp add: next_msgs_def)
    then show ?thesis using set_batch [OF assms(2,3)] next_msgs_pos [OF assms(1)] False by fastforce
  qed
  then show ?thesis using next_offsets [OF assms(1), of g k t p] by (intro advance_range) simp
qed

lemma pending_split:
  "pending b g t = (\<Sum>p < parts b. mset (next_msgs b g k t p)) +
     (\<Sum>p < parts b. mset (drop (committed b g t p + length (next_msgs b g k t p)) (logs b t p)))"
proof -
  have "mset (drop c xs) = mset (take n (drop c xs)) + mset (drop (c + length (take n (drop c xs))) xs)" for c n and xs :: "message list"
  proof -
    have "drop c xs = take n (drop c xs) @ drop (length (take n (drop c xs))) (drop c xs)"
      by (metis append_take_drop_id length_take take_all_iff append_eq_conv_conj)
    then show ?thesis by (metis add.commute drop_drop mset_append)
  qed
  then show ?thesis by (simp add: pending_def next_msgs_def flip: sum.distrib)
qed

text \<open>One round of the consumer.\<close>

lemma consume_spec:
  assumes "inv b" and "distinct (co_Topics c)" and "TopicRetryEvents \<in> set (co_Topics c)" and "TopicDeadLetter \<notin> set (co_Topics c)"
    and "0 < (if limit \<le> 0 then co_BatchSize c else limit)"
    and "ConsumeOnce B H errstr now c limit b h = (None, rep, b', h')"
  shows "inv b' \<and> parts b' = parts b \<and> (\<exists>batch. mset batch \<subseteq># backlog b (co_Group c) (set (co_Topics c)) \<and>
     (batch = [] \<longrightarrow> backlog b (co_Group c) (set (co_Topics c)) = {#}) \<and>
     Polled rep = length batch \<and> Processed rep = length (handled H h batch) \<and>
     Retried rep = length (filter (\<lambda>m. \<not> last_attempt c m) (failures H h batch)) \<and>
     DeadLettered rep = length (filter (last_attempt c) (failures H h batch)) \<and> h' = run_handler H h batch \<and>
     image_mset core (backlog b' (co_Group c) (set (co_Topics c))) =
       image_mset core (backlog b (co_Group c) (set (co_Topics c)) - mset batch) +
       image_mset bumped (mset (filter (\<lambda>m. \<not> last_attempt c m) (failures H h batch))) \<and>
     image_mset core (stored b' TopicDeadLetter) =
       image_mset core (stored b TopicDeadLetter) + image_mset bumped (mset (filter (last_attempt c) (failures H h batch))))"
proof -
  let ?g = "co_Group c" and ?ts = "set (co_Topics c)"
  let ?limit = "if limit \<le> 0 then co_BatchSize c else limit"
  obtain rep1 batch b1 where pt: "poll_topics B ?g (co_Topics c) ?limit \<lparr>Polled = 0, Processed = 0, Retried = 0, DeadLettered = 0\<rparr> [] b = (None, rep1, batch, b1)"
    and hb: "handle_batch B H errstr now c batch rep1 b1 h = (None, rep, b', h')"
    using assms(6) by (auto simp: ConsumeOnce_def Let_def split: prod.splits option.splits)
  obtain k where po: "inv b1" "parts b1 = parts b" "logs b1 = logs b" "committed b1 = committed b" "covers b ?g ?ts batch k"
      "Polled rep1 = length batch" "Processed rep1 = 0" "Retried rep1 = 0" "DeadLettered rep1 = 0"
      "batch = [] \<longrightarrow> (\<forall>t \<in> ?ts. \<forall>p. drop (committed b ?g t p) (logs b t p) = [])"
    using poll_topics_spec [OF assms(1,2) pt] assms(5) by auto
  have in_log: "\<forall>m \<in> set batch. m \<in> set (logs b1 (msg_Topic m) (msg_Partition m))"
    using set_batch [OF po(5)] next_msgs_pos [OF assms(1)] po(3) by fastforce
  note pr = batch_progress [OF po(1) in_log hb]
  then obtain app where app: "\<forall>t p. logs b' t p = logs b t p @ app t p"
      "\<forall>t. t \<notin> {TopicRetryEvents, TopicDeadLetter} \<longrightarrow> (\<forall>p. app t p = [])"
      "image_mset core (\<Sum>p < parts b. mset (app TopicRetryEvents p)) = image_mset bumped (mset (filter (\<lambda>m. \<not> last_attempt c m) (failures H h batch)))"
      "image_mset core (\<Sum>p < parts b. mset (app TopicDeadLetter p)) = image_mset bumped (mset (filter (last_attempt c) (failures H h batch)))"
    unfolding republished_def po(2,3) by blast
  have com: "committed b' ?g t p = committed b ?g t p + length (next_msgs b ?g k t p)" if "t \<in> ?ts" for t p
    using pr advance_batch [OF assms(1) po(5) _ that] po(4) by simp
  have le: "committed b ?g t p + length (next_msgs b ?g k t p) \<le> length (logs b t p)" for t p
    using committed_le [OF assms(1), of ?g t p] by (simp add: next_msgs_def min_def) linarith
  let ?rest = "\<lambda>t. \<Sum>p < parts b. mset (drop (committed b ?g t p + length (next_msgs b ?g k t p)) (logs b t p))"
  let ?app = "\<lambda>t. \<Sum>p < parts b. mset (app t p)"
  have after: "pending b' ?g t = ?rest t + ?app t" if "t \<in> ?ts" for t
    using com [OF that] app(1) le pr po(2) by (simp add: pending_def flip: sum.distrib)
  have bef: "backlog b ?g ?ts = mset batch + (\<Sum>t \<in> ?ts. ?rest t)"
    unfolding backlog_def using po(5) pending_split [of b ?g _ k] by (simp add: covers_def sum.distrib)
  have "(\<Sum>t \<in> ?ts. ?app t) = ?app TopicRetryEvents"
  proof -
    have "(\<Sum>t \<in> ?ts. ?app t) = ?app TopicRetryEvents + (\<Sum>t \<in> ?ts - {TopicRetryEvents}. ?app t)"
      using assms(3) by (simp add: sum.remove)
    moreover have "?app t = {#}" if "t \<in> ?ts - {TopicRetryEvents}" for t
    proof -
      have "t \<notin> {TopicRetryEvents, TopicDeadLetter}" using that assms(4) by auto
      then show ?thesis using app(2) by simp
    qed
    ultimately show ?thesis by simp
  qed
  then have aft: "backlog b' ?g ?ts = (\<Sum>t \<in> ?ts. ?rest t) + ?app TopicRetryEvents"
    unfolding backlog_def using after by (simp add: sum.distrib)
  have "stored b' TopicDeadLetter = stored b TopicDeadLetter + ?app TopicDeadLetter"
    using app(1) pr po(2) by (simp add: stored_def sum.distrib)
  moreover have "batch = [] \<longrightarrow> backlog b ?g ?ts = {#}"
    using po(10) by (simp add: backlog_def pending_def)
  moreover have "backlog b ?g ?ts - mset batch = (\<Sum>t \<in> ?ts. ?rest t)" by (simp add: bef)
  moreover have "mset batch \<subseteq># backlog b ?g ?ts" by (simp add: bef)
  ultimately show ?thesis
    using pr po batch_report [OF hb] aft app(3,4) by (intro conjI exI [of _ batch]) auto
qed

text \<open>Every round spends an attempt of every message it polls, so rounds without an error drain the backlog.\<close>

lemma round_weight:
  assumes "inv b" and "distinct (co_Topics c)" and "TopicRetryEvents \<in> set (co_Topics c)" and "TopicDeadLetter \<notin> set (co_Topics c)"
    and "0 < (if limit \<le> 0 then co_BatchSize c else limit)"
    and "ConsumeOnce B H errstr now c limit b h = (None, rep, b', h')"
  shows "weight c (backlog b' (co_Group c) (set (co_Topics c))) + Polled rep \<le> weight c (backlog b (co_Group c) (set (co_Topics c)))"
    and "Polled rep = 0 \<Longrightarrow> backlog b (co_Group c) (set (co_Topics c)) = {#}"
proof -
  obtain batch where b: "mset batch \<subseteq># backlog b (co_Group c) (set (co_Topics c))" "Polled rep = length batch"
      "batch = [] \<longrightarrow> backlog b (co_Group c) (set (co_Topics c)) = {#}"
      "image_mset core (backlog b' (co_Group c) (set (co_Topics c))) =
       image_mset core (backlog b (co_Group c) (set (co_Topics c)) - mset batch) +
       image_mset bumped (mset (filter (\<lambda>m. \<not> last_attempt c m) (failures H h batch)))"
    using consume_spec [OF assms] by blast
  let ?f = "filter (\<lambda>m. \<not> last_attempt c m) (failures H h batch)"
  have "weight c (backlog b (co_Group c) (set (co_Topics c))) =
      weight c (backlog b (co_Group c) (set (co_Topics c)) - mset batch) + weight c (mset batch)"
    using b(1) by (simp add: weight_def flip: sum_mset.union image_mset_union)
  moreover have "weight c (backlog b' (co_Group c) (set (co_Topics c))) =
      weight c (backlog b (co_Group c) (set (co_Topics c)) - mset batch) + (\<Sum>m \<in># mset ?f. attempts_left c (bumped m))"
    using arg_cong [OF b(4), of "\<lambda>M. sum_mset (image_mset (attempts_left c) M)"]
    by (simp add: weight_def multiset.map_comp comp_def)
  ultimately show "weight c (backlog b' (co_Group c) (set (co_Topics c))) + Polled rep \<le> weight c (backlog b (co_Group c) (set (co_Topics c)))"
    using failures_weight [of c H h batch] b(2) by simp
  show "Polled rep = 0 \<Longrightarrow> backlog b (co_Group c) (set (co_Topics c)) = {#}" using b(2,3) by simp
qed

end

section \<open>The in-memory broker meets the contract\<close>

definition broker_logs :: "memory_broker \<Rightarrow> string \<Rightarrow> nat \<Rightarrow> message list" where
  "broker_logs b t p = read [] (read [] (br_topics b) t) p"

definition wf_broker :: "memory_broker \<Rightarrow> bool" where
  "wf_broker b \<longleftrightarrow> 0 < br_partitions b \<and> br_partitions b < 2 ^ 32 \<and>
     (\<forall>t p. br_partitions b \<le> p \<longrightarrow> broker_logs b t p = []) \<and>
     (\<forall>t p. \<forall>i < length (broker_logs b t p). msg_Topic (broker_logs b t p ! i) = t \<and> msg_Partition (broker_logs b t p ! i) = p \<and>
        msg_Offset (broker_logs b t p ! i) = i) \<and>
     (\<forall>g t p. committedLocked b g t p \<le> length (broker_logs b t p))"

lemma read_update [simp]: "read z (AList.update k v m) k' = (if k' = k then v else read z m k')"
  by (simp add: read_def update_conv')

lemma read_Nil [simp]: "read z [] k = z"
  by (simp add: read_def)

lemma read_missing: "map_of m k = None \<Longrightarrow> read z m k = z"
  by (simp add: read_def)

lemma committed_read: "committedLocked b g t p = read 0 (read [] (read [] (br_commits b) g) t) p"
  by (simp add: committedLocked_def read_missing)

lemma read_empty_topic [simp]: "read [] (map (\<lambda>p. (p, [])) ps) q = []"
  by (induction ps) (auto simp: read_def)

lemma ensure_topic [simp]:
  "broker_logs (ensureTopicLocked b topic) = broker_logs b" "br_partitions (ensureTopicLocked b topic) = br_partitions b"
  "br_commits (ensureTopicLocked b topic) = br_commits b"
  by (auto simp: ensureTopicLocked_def broker_logs_def fun_eq_iff read_missing)

lemma ensure_topic_read [simp]:
  "read [] (read [] (br_topics (ensureTopicLocked b topic)) t) q = read [] (read [] (br_topics b) t) q"
  by (metis broker_logs_def ensure_topic(1))

lemma ensure_partitions_read [simp]: "read 0 (ensure_partitions ps m) p = read 0 m p"
  by (induction ps m rule: ensure_partitions.induct) (auto simp: read_missing)

lemma ensure_group [simp]:
  "broker_logs (ensureGroupTopicLocked b g t) = broker_logs b" "br_partitions (ensureGroupTopicLocked b g t) = br_partitions b"
  "br_topics (ensureGroupTopicLocked b g t) = br_topics b"
  "committedLocked (ensureGroupTopicLocked b g t) g' t' p = committedLocked b g' t' p"
  by (auto simp: ensureGroupTopicLocked_def broker_logs_def fun_eq_iff committed_read read_missing Let_def)

lemma wf_broker_cong:
  assumes "broker_logs b' = broker_logs b" and "br_partitions b' = br_partitions b" and "committedLocked b' = committedLocked b"
  shows "wf_broker b' = wf_broker b"
  using assms by (simp add: wf_broker_def)

lemma broker_partition_less: "wf_broker b \<Longrightarrow> broker_partition b key < br_partitions b"
proof -
  assume w: "wf_broker b"
  then have "unat (of_nat (br_partitions b) :: 32 word) = br_partitions b"
    by (simp add: wf_broker_def unat_of_nat take_bit_nat_eq_self)
  then have "unat (ChecksumIEEE key mod of_nat (br_partitions b)) = unat (ChecksumIEEE key) mod br_partitions b"
    by (simp add: unat_mod_distrib)
  then show ?thesis using w by (simp add: broker_partition_def wf_broker_def)
qed

lemma Memory_Publish_spec:
  assumes "wf_broker b" and "Memory_Publish now b req = (Inr m, b')"
  shows "wf_broker b' \<and> br_partitions b' = br_partitions b \<and> committedLocked b' = committedLocked b \<and>
     core m = (pr_Key req, Event_Clone (pr_Event req), pr_Attempts req) \<and>
     (\<exists>p < br_partitions b. broker_logs b' =
        (broker_logs b)(pr_Topic req := (broker_logs b (pr_Topic req))(p := broker_logs b (pr_Topic req) p @ [m])))"
proof -
  let ?b = "ensureTopicLocked b (pr_Topic req)" and ?t = "pr_Topic req"
  let ?p = "broker_partition ?b (pr_Key req)"
  have w: "wf_broker ?b" using assms(1) wf_broker_cong [of ?b b] by (simp add: fun_eq_iff committed_read)
  have p: "?p < br_partitions b" using broker_partition_less [OF w] by simp
  have t: "?t \<noteq> []" using assms(2) by (auto simp: Memory_Publish_def)
  have log: "read [] (read [] (br_topics ?b) ?t) q = broker_logs b ?t q" for q
    by (metis broker_logs_def ensure_topic(1))
  have m: "m = \<lparr>msg_Topic = ?t, msg_Partition = ?p, msg_Offset = length (broker_logs b ?t ?p), msg_Key = pr_Key req,
      msg_Event = Event_Clone (pr_Event req), msg_Attempts = pr_Attempts req, msg_LastError = pr_LastError req, msg_CreatedAt = now\<rparr>"
    and b': "b' = ?b\<lparr>br_topics := AList.update ?t (AList.update ?p (broker_logs b ?t ?p @ [m]) (read [] (br_topics ?b) ?t)) (br_topics ?b)\<rparr>"
    using assms(2) t log by (auto simp: Memory_Publish_def Let_def)
  have logs: "broker_logs b' = (broker_logs b)(?t := (broker_logs b ?t)(?p := broker_logs b ?t ?p @ [m]))"
    by (auto simp: b' broker_logs_def fun_eq_iff)
  have com: "committedLocked b' = committedLocked b" by (simp add: b' fun_eq_iff committed_read)
  have "wf_broker b'"
    unfolding wf_broker_def logs com
  proof (intro conjI allI impI)
    show "0 < br_partitions b'" "br_partitions b' < 2 ^ 32" using assms(1) by (simp_all add: b' wf_broker_def)
    show "((broker_logs b)(?t := (broker_logs b ?t)(?p := broker_logs b ?t ?p @ [m]))) t q = []" if "br_partitions b' \<le> q" for t q
      using assms(1) that p by (auto simp: b' wf_broker_def)
    show "committedLocked b g t q \<le> length (((broker_logs b)(?t := (broker_logs b ?t)(?p := broker_logs b ?t ?p @ [m]))) t q)" for g t q
      using assms(1) by (auto simp: wf_broker_def intro: le_SucI)
  qed (use assms(1) m in \<open>auto simp: wf_broker_def nth_append less_Suc_eq\<close>)
  then show ?thesis using p logs com by (auto simp: b' m core_def)
qed

lemma poll_messages_take: "poll_messages limit ms out = out @ take (limit - length out) ms"
proof (induction limit ms out rule: poll_messages.induct)
  case (2 limit m ms out)
  then show ?case by (cases "length out < limit") (auto simp: take_Cons' Suc_diff_Suc)
qed simp

lemma poll_partitions_take: "poll_partitions u limit ps out = out @ take (limit - length out) (concat (map u ps))"
proof (induction u limit ps out rule: poll_partitions.induct)
  case (2 u limit p ps out)
  then show ?case by (cases "length out < limit") (auto simp: poll_messages_take min_def)
qed simp

lemma take_concat:
  assumes "distinct ps"
  shows "\<exists>k. take n (concat (map u ps)) = concat (map (\<lambda>p. take (k p) (u p)) ps)"
  using assms
proof (induction ps arbitrary: n)
  case (Cons p ps)
  obtain k where k: "take (n - length (u p)) (concat (map u ps)) = concat (map (\<lambda>p. take (k p) (u p)) ps)"
    using Cons.IH [of "n - length (u p)"] Cons.prems by auto
  define K where "K = k(p := n)"
  have e: "map (\<lambda>q. take (K q) (u q)) ps = map (\<lambda>q. take (k q) (u q)) ps" using Cons.prems by (intro map_cong) (auto simp: K_def)
  have "concat (map (\<lambda>q. take (K q) (u q)) ps) = concat (map (\<lambda>q. take (k q) (u q)) ps)" by (simp only: e)
  moreover have "K p = n" by (simp add: K_def)
  ultimately have "take n (concat (map u (p # ps))) = concat (map (\<lambda>q. take (K q) (u q)) (p # ps))" using k by simp
  then show ?case by blast
qed simp

lemma mset_concat_upt: "mset (concat (map f [0..<n])) = (\<Sum>p < n. mset (f p))"
  by (induction n) (simp_all add: add.commute)

lemma Memory_Poll_spec:
  assumes "wf_broker b" and "Memory_Poll b g t limit = (Inr ms, b')" and "0 < limit"
  shows "wf_broker b' \<and> br_partitions b' = br_partitions b \<and> broker_logs b' = broker_logs b \<and> committedLocked b' = committedLocked b \<and>
     int (length ms) \<le> limit \<and>
     (\<exists>k. mset ms = (\<Sum>p < br_partitions b. mset (take (k p) (drop (committedLocked b g t p) (broker_logs b t p))))) \<and>
     (ms = [] \<longrightarrow> (\<forall>p. drop (committedLocked b g t p) (broker_logs b t p) = []))"
proof (cases "map_of (br_topics b) t")
  case None
  then have "b' = b" "ms = []" using assms(2,3) by (auto simp: Memory_Poll_def split: if_splits)
  moreover have "broker_logs b t p = []" for p using None by (simp add: broker_logs_def read_missing)
  ultimately show ?thesis using assms(1,3) by simp
next
  case (Some partitions)
  let ?u = "\<lambda>p. drop (committedLocked b g t p) (broker_logs b t p)"
  let ?out = "take (nat limit) (concat (map ?u [0..<br_partitions b]))"
  have logs: "read [] partitions p = broker_logs b t p" for p using Some by (simp add: broker_logs_def read_def)
  have b': "b' = ensureGroupTopicLocked b g t" and ms: "ms = sort_slice created_before ?out"
    using assms(2,3) Some by (auto simp: Memory_Poll_def Let_def poll_partitions_take logs split: if_splits)
  have com: "committedLocked b' = committedLocked b" by (simp add: b' fun_eq_iff)
  have "wf_broker b'" using wf_broker_cong [OF _ _ com] assms(1) by (simp add: b')
  moreover have "int (length ms) \<le> limit" using assms(3) by (simp add: ms)
  moreover obtain k where "?out = concat (map (\<lambda>p. take (k p) (?u p)) [0..<br_partitions b])" using take_concat [of "[0..<br_partitions b]" "nat limit" ?u] by auto
  then have "mset ms = (\<Sum>p < br_partitions b. mset (take (k p) (?u p)))" by (simp add: ms mset_concat_upt [symmetric])
  moreover have "?u p = []" if "ms = []" for p
  proof (cases "p < br_partitions b")
    case True
    have "?out = []" using that by (metis length_0_conv length_sort_slice ms)
    then have "concat (map ?u [0..<br_partitions b]) = []" using assms(3) by simp
    then show ?thesis using True by simp
  next
    case False
    then show ?thesis using assms(1) by (simp add: wf_broker_def)
  qed
  ultimately show ?thesis using com by (auto simp: b')
qed

lemma Memory_Commit_spec:
  assumes "wf_broker b" and "m \<in> set (broker_logs b (msg_Topic m) (msg_Partition m))" and "Memory_Commit b g m = (None, b')"
  shows "wf_broker b' \<and> br_partitions b' = br_partitions b \<and> broker_logs b' = broker_logs b \<and>
     (\<forall>g' t p. committedLocked b' g' t p = (if g' = g \<and> t = msg_Topic m \<and> p = msg_Partition m
        then max (committedLocked b g t p) (msg_Offset m + 1) else committedLocked b g' t p))"
proof -
  let ?b = "ensureGroupTopicLocked b g (msg_Topic m)"
  have c: "committedLocked ?b g' t p = committedLocked b g' t p" for g' t p by simp
  have com: "committedLocked b' g' t p = (if g' = g \<and> t = msg_Topic m \<and> p = msg_Partition m
        then max (committedLocked b g t p) (msg_Offset m + 1) else committedLocked b g' t p)" for g' t p
    using assms(3) c [unfolded committed_read [of ?b]] by (auto simp: Memory_Commit_def Let_def committed_read [of b'] split: if_splits)
  have same: "broker_logs b' = broker_logs b" "br_partitions b' = br_partitions b"
    using assms(3) ensure_group(1) [of b g "msg_Topic m"]
    by (auto simp: Memory_Commit_def Let_def broker_logs_def fun_eq_iff split: if_splits)
  obtain i where "i < length (broker_logs b (msg_Topic m) (msg_Partition m))" "broker_logs b (msg_Topic m) (msg_Partition m) ! i = m"
    using assms(2) by (meson in_set_conv_nth)
  then have "msg_Offset m < length (broker_logs b (msg_Topic m) (msg_Partition m))"
    using assms(1) unfolding wf_broker_def by (metis (no_types))
  then have "wf_broker b'" using assms(1) unfolding wf_broker_def same com by auto
  then show ?thesis using com same by blast
qed

interpretation memory_queue: message_broker MemoryBroker wf_broker br_partitions broker_logs committedLocked
proof
  fix b b' :: memory_broker and i t p g now req m limit ms
  assume w: "wf_broker b"
  show "msg_Topic (broker_logs b t p ! i) = t \<and> msg_Partition (broker_logs b t p ! i) = p \<and> msg_Offset (broker_logs b t p ! i) = i"
    if "i < length (broker_logs b t p)" using w that by (simp add: wf_broker_def)
  show "broker_logs b t p = []" if "br_partitions b \<le> p" using w that by (simp add: wf_broker_def)
  show "committedLocked b g t p \<le> length (broker_logs b t p)" using w by (simp add: wf_broker_def)
  show "wf_broker b' \<and> br_partitions b' = br_partitions b \<and> committedLocked b' = committedLocked b \<and>
      core m = (pr_Key req, Event_Clone (pr_Event req), pr_Attempts req) \<and>
      (\<exists>p < br_partitions b. broker_logs b' =
        (broker_logs b)(pr_Topic req := (broker_logs b (pr_Topic req))(p := broker_logs b (pr_Topic req) p @ [m])))"
    if "Publish MemoryBroker now b req = (Inr m, b')" using Memory_Publish_spec [OF w] that by (simp add: MemoryBroker_def)
  show "wf_broker b' \<and> br_partitions b' = br_partitions b \<and> broker_logs b' = broker_logs b \<and> committedLocked b' = committedLocked b \<and>
     int (length ms) \<le> limit \<and>
     (\<exists>k. mset ms = (\<Sum>p < br_partitions b. mset (take (k p) (drop (committedLocked b g t p) (broker_logs b t p))))) \<and>
     (ms = [] \<longrightarrow> (\<forall>p. drop (committedLocked b g t p) (broker_logs b t p) = []))"
    if "Poll MemoryBroker b g t limit = (Inr ms, b')" "0 < limit"
    using Memory_Poll_spec [OF w] that by (simp add: MemoryBroker_def)
  show "wf_broker b' \<and> br_partitions b' = br_partitions b \<and> broker_logs b' = broker_logs b \<and>
     (\<forall>g' t p. committedLocked b' g' t p = (if g' = g \<and> t = msg_Topic m \<and> p = msg_Partition m
        then max (committedLocked b g t p) (msg_Offset m + 1) else committedLocked b g' t p))"
    if "m \<in> set (broker_logs b (msg_Topic m) (msg_Partition m))" "Commit MemoryBroker b g m = (None, b')"
    using Memory_Commit_spec [OF w] that by (simp add: MemoryBroker_def)
qed

section \<open>Consumers of the in-memory broker\<close>

text \<open>The messages a group has still to consume from the two event topics, and the dead letters.\<close>

definition broker_backlog :: "memory_broker \<Rightarrow> string \<Rightarrow> message multiset" where
  "broker_backlog b g = (\<Sum>t \<in> {TopicNormalizedEvents, TopicRetryEvents}.
     \<Sum>p < br_partitions b. mset (drop (committedLocked b g t p) (broker_logs b t p)))"

definition dead_letters :: "memory_broker \<Rightarrow> message multiset" where
  "dead_letters b = (\<Sum>p < br_partitions b. mset (broker_logs b TopicDeadLetter p))"

lemma broker_backlog_eq: "memory_queue.backlog b g {TopicNormalizedEvents, TopicRetryEvents} = broker_backlog b g"
  by (simp add: broker_backlog_def memory_queue.backlog_def memory_queue.pending_def)

lemma dead_letters_eq: "memory_queue.stored b TopicDeadLetter = dead_letters b"
  by (simp add: dead_letters_def memory_queue.stored_def)

definition event_consumer :: "string \<Rightarrow> int \<Rightarrow> int \<Rightarrow> consumer_options" where
  "event_consumer g attempts sz = NewConsumer \<lparr>co_Group = g, co_Topics = [], co_MaxAttempts = attempts, co_BatchSize = sz\<rparr>"

lemma event_consumer_topics: "co_Topics (event_consumer g a n) = [TopicNormalizedEvents, TopicRetryEvents]"
  by (simp add: event_consumer_def NewConsumer_def Let_def)

lemma event_consumer_size: "0 < (if limit \<le> 0 then co_BatchSize (event_consumer g a n) else limit)"
  by (simp add: event_consumer_def NewConsumer_def Let_def)

lemma topics_differ [simp]:
  "TopicNormalizedEvents \<noteq> TopicRetryEvents" "TopicDeadLetter \<noteq> TopicNormalizedEvents" "TopicDeadLetter \<noteq> TopicRetryEvents"
  "TopicNormalizedEvents \<noteq> []" "TopicRetryEvents \<noteq> []" "TopicDeadLetter \<noteq> []"
  by (simp_all add: TopicNormalizedEvents_def TopicRetryEvents_def TopicDeadLetter_def)

lemma memory_handles:
  assumes "\<forall>m \<in> set batch. msg_Topic m \<noteq> []"
  shows "\<exists>rep' b' h'. handle_batch MemoryBroker H errstr now c batch rep b h = (None, rep', b', h')"
  using assms
proof (induction batch arbitrary: rep b h)
  case (Cons m batch)
  obtain e h1 where H: "H h m = (e, h1)" by fastforce
  have commits: "\<exists>b'. Commit MemoryBroker b0 (co_Group c) m = (None, b')" for b0
    using Cons.prems by (simp add: MemoryBroker_def Memory_Commit_def Let_def)
  have "\<exists>m' b'. Publish MemoryBroker t b0 (republish topic m err) = (Inr m', b')" if "topic \<noteq> []" for t b0 topic err
    using that by (simp add: MemoryBroker_def Memory_Publish_def republish_def Let_def)
  then have publishes: "\<exists>m' b'. Publish MemoryBroker t b0 (republish (if co_MaxAttempts c \<le> msg_Attempts m + 1 then TopicDeadLetter else TopicRetryEvents) m err) = (Inr m', b')"
    for t b0 err by simp
  show ?case
  proof (cases e)
    case None
    obtain b1 where "Commit MemoryBroker b (co_Group c) m = (None, b1)" using commits by blast
    then show ?thesis using Cons H None by simp
  next
    case (Some err)
    obtain m' b1 where p: "Publish MemoryBroker (now (length batch)) b (republish (if co_MaxAttempts c \<le> msg_Attempts m + 1 then TopicDeadLetter else TopicRetryEvents) m (errstr err)) = (Inr m', b1)"
      using publishes by blast
    obtain b2 where "Commit MemoryBroker b1 (co_Group c) m = (None, b2)" using commits by blast
    then show ?thesis using Cons H Some p by (simp add: Let_def)
  qed
qed simp

lemma memory_polls:
  assumes "wf_broker b" and "\<forall>t \<in> set topics. t \<noteq> []" and "\<forall>m \<in> set batch. msg_Topic m \<noteq> []"
  shows "\<exists>rep' batch' b'. poll_topics MemoryBroker g topics remaining rep batch b = (None, rep', batch', b') \<and> (\<forall>m \<in> set batch'. msg_Topic m \<noteq> [])"
  using assms
proof (induction topics arbitrary: remaining rep batch b)
  case (Cons t topics)
  show ?case
  proof (cases "remaining \<le> 0")
    case False
    have "\<exists>ms b1. Memory_Poll b g t remaining = (Inr ms, b1)"
      using Cons.prems(2) by (auto simp: Memory_Poll_def Let_def split: option.splits)
    then obtain ms b1 where p: "Memory_Poll b g t remaining = (Inr ms, b1)" by blast
    have spec: "wf_broker b1" "\<exists>k. mset ms = (\<Sum>p < br_partitions b. mset (take (k p) (drop (committedLocked b g t p) (broker_logs b t p))))"
      using Memory_Poll_spec [OF Cons.prems(1) p] False by auto
    have "msg_Topic m = t" if "m \<in> set ms" for m
    proof -
      obtain k where "mset ms = (\<Sum>p < br_partitions b. mset (take (k p) (drop (committedLocked b g t p) (broker_logs b t p))))" using spec(2) by blast
      then have "m \<in># (\<Sum>p < br_partitions b. mset (take (k p) (drop (committedLocked b g t p) (broker_logs b t p))))" using that by (metis set_mset_mset)
      then obtain p where "m \<in> set (broker_logs b t p)" by (auto simp: set_mset_sum dest!: in_set_takeD in_set_dropD)
      then show ?thesis using Cons.prems(1) unfolding wf_broker_def by (metis in_set_conv_nth)
    qed
    then have "\<forall>m \<in> set (batch @ ms). msg_Topic m \<noteq> []" using Cons.prems(2,3) by auto
    then show ?thesis using Cons.IH [OF spec(1)] Cons.prems(2) False p by (simp add: MemoryBroker_def)
  qed (use Cons.prems in simp)
qed simp

lemma memory_consumes:
  assumes "wf_broker b" and "\<forall>t \<in> set (co_Topics c). t \<noteq> []"
  shows "\<exists>rep b' h'. ConsumeOnce MemoryBroker H errstr now c limit b h = (None, rep, b', h')"
proof -
  obtain rep batch b1 where p: "poll_topics MemoryBroker (co_Group c) (co_Topics c) (if limit \<le> 0 then co_BatchSize c else limit)
      \<lparr>Polled = 0, Processed = 0, Retried = 0, DeadLettered = 0\<rparr> [] b = (None, rep, batch, b1)" "\<forall>m \<in> set batch. msg_Topic m \<noteq> []"
    using memory_polls [OF assms, of "[]"] by fastforce
  then show ?thesis using memory_handles [OF p(2)] by (simp add: ConsumeOnce_def Let_def)
qed

text \<open>A consumer that is called again and again; \<open>now r n\<close> is the clock of round \<open>r\<close>.\<close>

fun consume_rounds ::
  "'h handler \<Rightarrow> (goerror \<Rightarrow> string) \<Rightarrow> (nat \<Rightarrow> nat \<Rightarrow> time) \<Rightarrow> consumer_options \<Rightarrow> int \<Rightarrow> nat \<Rightarrow> memory_broker \<Rightarrow> 'h \<Rightarrow> memory_broker \<times> 'h" where
  "consume_rounds H errstr now c limit 0 b h = (b, h)"
| "consume_rounds H errstr now c limit (Suc n) b h =
     (case ConsumeOnce MemoryBroker H errstr (now n) c limit b h of (err, rep, b, h) \<Rightarrow> consume_rounds H errstr now c limit n b h)"

lemma weight_zero: "weight c M = 0 \<longleftrightarrow> M = {#}"
  by (auto simp: weight_def attempts_left_def)

section \<open>Properties\<close>

text \<open>
  C38. The consumer loses nothing: a round never fails on the in-memory broker, polls something whenever something
  is waiting, and accounts for every polled message, each of which the handler sees once. A message the handler accepts is committed; a rejected one
  waits again in the retry topic with one more attempt, or after its last attempt is a dead letter; all others
  stay where they are.
\<close>

theorem consume_conserves:
  assumes "wf_broker b" and "c = event_consumer g attempts sz"
  shows "\<exists>rep b' h' batch. ConsumeOnce MemoryBroker H errstr now c limit b h = (None, rep, b', h') \<and> wf_broker b' \<and>
     mset batch \<subseteq># broker_backlog b (co_Group c) \<and> (batch = [] \<longrightarrow> broker_backlog b (co_Group c) = {#}) \<and>
     Polled rep = length batch \<and> Processed rep = length (handled H h batch) \<and>
     Retried rep = length (filter (\<lambda>m. \<not> last_attempt c m) (failures H h batch)) \<and>
     DeadLettered rep = length (filter (last_attempt c) (failures H h batch)) \<and> h' = run_handler H h batch \<and>
     image_mset core (broker_backlog b' (co_Group c)) = image_mset core (broker_backlog b (co_Group c) - mset batch) +
       image_mset bumped (mset (filter (\<lambda>m. \<not> last_attempt c m) (failures H h batch))) \<and>
     image_mset core (dead_letters b') = image_mset core (dead_letters b) +
       image_mset bumped (mset (filter (last_attempt c) (failures H h batch)))"
proof -
  have t: "set (co_Topics c) = {TopicNormalizedEvents, TopicRetryEvents}" by (simp add: assms(2) event_consumer_topics)
  have ne: "\<forall>t \<in> set (co_Topics c). t \<noteq> []" unfolding t by simp
  obtain rep b' h' where c: "ConsumeOnce MemoryBroker H errstr now c limit b h = (None, rep, b', h')"
    using memory_consumes [OF assms(1) ne, of H errstr now limit h] by blast
  have "0 < (if limit \<le> 0 then co_BatchSize c else limit)" unfolding assms(2) by (rule event_consumer_size)
  moreover have "distinct (co_Topics c)" by (simp add: assms(2) event_consumer_topics)
  ultimately show ?thesis
    using memory_queue.consume_spec [OF assms(1) _ _ _ _ c] c unfolding t broker_backlog_eq dead_letters_eq by auto
qed

text \<open>
  C39. Retries end: whatever the handler does, after as many rounds as the waiting messages have attempts left nothing
  is waiting any more, so a message that always fails reaches the dead-letter topic and cannot circulate
  forever.
\<close>

theorem consumer_drains:
  assumes "wf_broker b" and "c = event_consumer g attempts sz" and "weight c (broker_backlog b (co_Group c)) \<le> n"
  shows "broker_backlog (fst (consume_rounds H errstr now c limit n b h)) (co_Group c) = {#}"
  using assms(1,3)
proof (induction n arbitrary: b h)
  case 0
  then show ?case by (simp add: weight_zero)
next
  case (Suc n)
  have t: "set (co_Topics c) = {TopicNormalizedEvents, TopicRetryEvents}" "distinct (co_Topics c)"
    by (simp_all add: assms(2) event_consumer_topics)
  have ne: "\<forall>t \<in> set (co_Topics c). t \<noteq> []" unfolding t by simp
  obtain rep b' h' where c: "ConsumeOnce MemoryBroker H errstr (now n) c limit b h = (None, rep, b', h')"
    using memory_consumes [OF Suc.prems(1) ne, of H errstr "now n" limit h] by blast
  have size: "0 < (if limit \<le> 0 then co_BatchSize c else limit)" unfolding assms(2) by (rule event_consumer_size)
  have w: "weight c (broker_backlog b' (co_Group c)) + Polled rep \<le> weight c (broker_backlog b (co_Group c))"
    and e: "Polled rep = 0 \<Longrightarrow> broker_backlog b (co_Group c) = {#}"
    using memory_queue.round_weight [OF Suc.prems(1) t(2) _ _ size c] unfolding t broker_backlog_eq by simp_all
  have "weight c (broker_backlog b' (co_Group c)) \<le> n"
    using w e Suc.prems(2) weight_zero [of c "broker_backlog b (co_Group c)"] by (cases "Polled rep") auto
  moreover have "wf_broker b'"
    using memory_queue.consume_spec [OF Suc.prems(1) t(2) _ _ size c] t by simp
  ultimately show ?case using Suc.IH c by simp
qed

definition sample_request :: publish_request where
  "sample_request = \<lparr>pr_Topic = TopicNormalizedEvents, pr_Key = ''k'', pr_Event = zero_event, pr_Attempts = 0, pr_LastError = []\<rparr>"

definition sample_broker :: memory_broker where
  "sample_broker = snd (Memory_Publish 1 (NewMemoryBroker 1) sample_request)"

lemma wf_NewMemoryBroker:
  assumes "partitions < 2 ^ 32"
  shows "wf_broker (NewMemoryBroker partitions)"
proof -
  let ?n = "nat (if partitions \<le> 0 then 1 else partitions)"
  let ?b = "\<lparr>br_partitions = ?n, br_topics = [], br_commits = []\<rparr>"
  have "0 < ?n" "?n < 2 ^ 32" using assms by (simp_all add: nat_less_iff)
  then have "wf_broker ?b" by (simp add: wf_broker_def broker_logs_def committed_read)
  moreover have "broker_logs (NewMemoryBroker partitions) = broker_logs ?b" "br_partitions (NewMemoryBroker partitions) = br_partitions ?b"
      "committedLocked (NewMemoryBroker partitions) = committedLocked ?b"
    by (simp_all add: NewMemoryBroker_def Let_def fun_eq_iff committed_read)
  ultimately show ?thesis using wf_broker_cong by blast
qed

lemma wf_sample_broker: "wf_broker sample_broker"
proof -
  have "\<exists>m. fst (Memory_Publish 1 (NewMemoryBroker 1) sample_request) = Inr m"
    by (simp add: Memory_Publish_def sample_request_def Let_def)
  then show ?thesis using Memory_Publish_spec [OF wf_NewMemoryBroker [of 1]] unfolding sample_broker_def by (metis prod.collapse numeral_One one_less_numeral_iff one_less_power power_one semiring_norm(76) zero_less_numeral)
qed

lemma sample_backlog: "weight (event_consumer ''g'' 3 10) (broker_backlog sample_broker ''g'') = 3"
proof -
  have "broker_logs sample_broker TopicNormalizedEvents 0 \<noteq> [] \<and> tl (broker_logs sample_broker TopicNormalizedEvents 0) = [] \<and>
      msg_Attempts (hd (broker_logs sample_broker TopicNormalizedEvents 0)) = 0 \<and> broker_logs sample_broker TopicRetryEvents 0 = [] \<and>
      br_partitions sample_broker = 1 \<and> br_commits sample_broker = []" by code_simp
  then show ?thesis
    by (cases "broker_logs sample_broker TopicNormalizedEvents 0")
      (auto simp: broker_backlog_def weight_def committed_read attempts_left_def core_def event_consumer_def NewConsumer_def Let_def)
qed

theorem consume_conserves_witness:
  "\<exists>rep b' h'. ConsumeOnce MemoryBroker (\<lambda>h m. (None, h + 1)) (\<lambda>_. ''err'') (\<lambda>_. 2) (event_consumer ''g'' 3 10) 0 sample_broker (0::nat) = (None, rep, b', h') \<and>
     wf_broker b' \<and> Processed rep = Polled rep"
proof -
  have "handled (\<lambda>h m. (None, h + 1)) (h::nat) ms = ms" for h ms by (induction ms arbitrary: h) auto
  then show ?thesis
    using consume_conserves [OF wf_sample_broker refl, of "\<lambda>h m. (None, h + 1)" "\<lambda>_. ''err''" "\<lambda>_. 2" "''g''" 3 10 0 "0::nat"] by auto
qed

theorem consumer_drains_witness:
  "broker_backlog sample_broker ''g'' \<noteq> {#} \<and>
   broker_backlog (fst (consume_rounds (\<lambda>h m. (Some (IOError ''down''), h)) (\<lambda>_. ''down'') (\<lambda>_ _. 2) (event_consumer ''g'' 3 10) 0 3 sample_broker ())) ''g'' = {#}"
proof -
  have g: "co_Group (event_consumer ''g'' 3 10) = ''g''" by (simp add: event_consumer_def NewConsumer_def Let_def)
  have w: "weight (event_consumer ''g'' 3 10) (broker_backlog sample_broker (co_Group (event_consumer ''g'' 3 10))) \<le> 3"
    using sample_backlog by (simp add: g)
  have "broker_backlog sample_broker ''g'' \<noteq> {#}" using sample_backlog weight_zero by (metis zero_neq_numeral)
  then show ?thesis
    using consumer_drains [OF wf_sample_broker refl w, of "\<lambda>h m. (Some (IOError ''down''), h)" "\<lambda>_. ''down''" "\<lambda>_ _. 2" 0 "()"]
    unfolding g by (rule conjI)
qed

end
