(* ===== verification/Engine.thy ===== *)
theory Engine
  imports Planner Pipeline Wal Manifests Tenant_Store Quota
begin

text \<open>
  Package \<open>internal/engine/singlenode\<close>: the engine that puts the components together. Its state is one
  record; the segment store is shared with the planner and lives in \<open>en_plan\<close>. The environment holds what the
  engine calls and does not implement: the regular expression engine, JSON, zstd (inside \<open>ee_Encode\<close> and
  \<open>ee_Decode\<close>), SHA-256 in hex, and the operations of the object store, of
  which \<open>Get\<close> and \<open>List\<close> read the store without changing it. \<open>now n\<close> is the \<open>n\<close>th clock reading of a call and
  \<open>io\<close> what the operating system answers to the calls on the log.

  The engine is the one \<open>NewWithOptions\<close> makes without database addresses: none of its components
  is nil, tenants live in the snapshot file and manifests in memory.
\<close>

section \<open>Data\<close>

record 'o object_ops =
  oo_Put :: "time \<Rightarrow> 'o \<Rightarrow> string \<Rightarrow> string \<Rightarrow> obj_meta result \<times> 'o"
  oo_Get :: "'o \<Rightarrow> string \<Rightarrow> (string \<times> obj_meta) result"
  oo_List :: "'o \<Rightarrow> string \<Rightarrow> obj_meta list result"
  oo_Delete :: "'o \<Rightarrow> string \<Rightarrow> goerror option \<times> 'o"

record 'm chunk_reference =
  cr_StreamKey :: string
  cr_ObjectKey :: string
  cr_Checksum :: string
  cr_Start :: time
  cr_End :: time
  cr_Metadata :: 'm

record 'm segment_manifest =
  sm_PartitionKey :: string
  sm_Start :: time
  sm_End :: time
  sm_Chunks :: "'m chunk_reference list"
  sm_GeneratedAt :: time

record engine_options =
  ChunkMaxEvents :: int
  ChunkMaxBytes :: int
  ChunkMaxDuration :: duration
  eo_QueryCacheEntries :: int
  eo_QueryCacheTTL :: duration
  eo_ChunkCacheEntries :: int
  JSONIgnoreError :: bool
  EnableLogfmt :: bool
  WALMaxSegmentBytes :: int
  WALSyncMode :: sync_mode
  SegmentBucket :: duration

record ('re, 'o) engine_env =
  ee_uni :: "string \<Rightarrow> string"
  ee_stages :: "'re stage_env"
  ee_wal :: wal_codec
  ee_tenants :: snapshot_codec
  ee_ops :: "'o object_ops"
  ee_Encode :: "chunk \<Rightarrow> string result"
  ee_Decode :: "string \<Rightarrow> chunk result"
  ee_MarshalManifest :: "metadata segment_manifest \<Rightarrow> string result"
  ee_UnmarshalManifest :: "string \<Rightarrow> metadata segment_manifest result"
  ee_sha :: "string \<Rightarrow> string"
  ee_Compile :: "string \<Rightarrow> 're result"
  ee_MatchString :: "'re \<Rightarrow> string \<Rightarrow> bool"
  ee_MarshalRequest :: "query_request \<Rightarrow> string result"

record 'o engine =
  en_tenants :: tenant_store
  en_parser :: parse_stats
  en_index :: mem_index
  en_wal :: wal_writer
  en_builders :: "(string, builder) gomap"
  en_pipelines :: "(string, parse_pipeline) gomap"
  en_objects :: 'o
  en_manifests :: memory_repository
  en_plan :: planner
  en_queryLimiter :: limiter
  en_options :: engine_options
  en_replayed :: bool
  en_manifestRevision :: string

text \<open>The collaborators of the planner: the engine's object store and its index.\<close>

definition planner_env_of :: "('re, 'o) engine_env \<Rightarrow> 'o engine \<Rightarrow> 're planner_env" where
  "planner_env_of env eng = \<lparr>pe_uni = ee_uni env, pe_Compile = ee_Compile env, pe_MatchString = ee_MatchString env,
     pe_objects = Some (\<lambda>key. map_sum id fst (oo_Get (ee_ops env) (en_objects eng) key)), pe_Decode = ee_Decode env,
     pe_fallback = Some (MemoryIndex_Execute (ee_uni env) (ee_Compile env) (ee_MatchString env) (en_index eng)),
     pe_MarshalRequest = ee_MarshalRequest env, pe_sha = ee_sha env\<rparr>"

section \<open>Construction\<close>

definition boolString :: "bool \<Rightarrow> string" where
  "boolString b = (if b then ''true'' else ''false'')"

definition firstNonZeroTime :: "time \<Rightarrow> time \<Rightarrow> time" where
  "firstNonZeroTime t fallback = (if IsZero t then fallback else t)"

definition with_defaults :: "engine_options \<Rightarrow> engine_options" where
  "with_defaults opts =
     (let opts = (if ChunkMaxEvents opts \<le> 0 then opts\<lparr>ChunkMaxEvents := 1000\<rparr> else opts);
          opts = (if ChunkMaxBytes opts \<le> 0 then opts\<lparr>ChunkMaxBytes := 256 * 1024\<rparr> else opts);
          opts = (if ChunkMaxDuration opts \<le> 0 then opts\<lparr>ChunkMaxDuration := minute\<rparr> else opts);
          opts = (if eo_QueryCacheEntries opts \<le> 0 then opts\<lparr>eo_QueryCacheEntries := 256\<rparr> else opts);
          opts = (if eo_QueryCacheTTL opts \<le> 0 then opts\<lparr>eo_QueryCacheTTL := 30 * second\<rparr> else opts);
          opts = (if eo_ChunkCacheEntries opts \<le> 0 then opts\<lparr>eo_ChunkCacheEntries := 512\<rparr> else opts)
      in if SegmentBucket opts \<le> 0 then opts\<lparr>SegmentBucket := hour\<rparr> else opts)"

definition default_stages :: "engine_options \<Rightarrow> pipeline_stage list" where
  "default_stages opts =
     [\<lparr>st_Name = ''json'', st_Type = ''json'', st_Config = [(''ignore_error'', boolString (JSONIgnoreError opts))]\<rparr>] @
     (if EnableLogfmt opts then [\<lparr>st_Name = ''logfmt'', st_Type = ''logfmt'', st_Config = []\<rparr>] else []) @
     [\<lparr>st_Name = ''timestamp'', st_Type = ''timestamp'',
        st_Config = [(''source'', ''timestamp''), (''format'', ''rfc3339''), (''ignore_error'', ''true'')]\<rparr>,
      \<lparr>st_Name = ''severity'', st_Type = ''severity'', st_Config = [(''source'', ''level''), (''ignore_error'', ''true'')]\<rparr>]"

text \<open>
  \<open>root\<close> names the three places below the engine's root: the files of the log, the file system with the tenant
  snapshot and the objects. The first clock reading dates the default tenant.
\<close>

definition NewWithOptions ::
  "('re, 'o) engine_env \<Rightarrow> wal_io \<Rightarrow> time \<Rightarrow> (string, string) gomap \<times> fsys \<times> 'o \<Rightarrow> engine_options \<Rightarrow> 'o engine result" where
  "NewWithOptions env io now root opts =
     (case root of (wal_files, fs, objects) \<Rightarrow>
      case Wal_OpenWithOptions io wal_files ''events.log'' \<lparr>MaxSegmentBytes = WALMaxSegmentBytes opts, wo_SyncMode = WALSyncMode opts\<rparr> of
        Inl err \<Rightarrow> Inl err
      | Inr writer \<Rightarrow>
          let opts = with_defaults opts in
          case fst (NewPersistentStore (ee_tenants env) now fs [''control'', ''tenants.json'']) of
            Inl err \<Rightarrow> Inl err
          | Inr tenants \<Rightarrow>
              let segments = NewStore (SegmentBucket opts) in
              Inr \<lparr>en_tenants = tenants, en_parser = NewProcessor, en_index = NewMemoryIndex, en_wal = writer, en_builders = [],
                en_pipelines = [(''default'', \<lparr>pl_ID = ''default'', pl_Description = ''Parse JSON and logfmt payloads where possible.'',
                  pl_Stages = default_stages opts\<rparr>)],
                en_objects = objects, en_manifests = NewMemoryRepository,
                en_plan = NewPlanner segments \<lparr>QueryCacheEntries = eo_QueryCacheEntries opts, QueryCacheTTL = eo_QueryCacheTTL opts,
                  ChunkCacheEntries = eo_ChunkCacheEntries opts\<rparr>,
                en_queryLimiter = NewConcurrencyLimiter, en_options = opts, en_replayed = False, en_manifestRevision = []\<rparr>)"

text \<open>The object store an engine uses when it is given none: retries over the files below its root.\<close>

definition default_objects :: "(string \<Rightarrow> string) \<Rightarrow> (duration \<Rightarrow> goerror option) \<Rightarrow> int \<Rightarrow> duration \<Rightarrow> fsys object_ops" where
  "default_objects sha sleep retries pause =
     (let retries = (if retries < 0 then 0 else retries);
          pause = (if pause \<le> 0 then 50 * millisecond else pause);
          cfg = NewRetryingStore retries pause in
      \<lparr>oo_Put = RetryingStore_Put sleep cfg (FileStore_Put sha), oo_Get = (\<lambda>fs key. fst (RetryingStore_Get (FileStore_Get sha) fs key)),
       oo_List = (\<lambda>fs prefx. fst (RetryingStore_List (FileStore_List sha) fs prefx)),
       oo_Delete = RetryingStore_Delete sleep cfg FileStore_Delete\<rparr>)"

definition default_options :: engine_options where
  "default_options = \<lparr>ChunkMaxEvents = 1000, ChunkMaxBytes = 256 * 1024, ChunkMaxDuration = minute, eo_QueryCacheEntries = 256,
     eo_QueryCacheTTL = 30 * second, eo_ChunkCacheEntries = 512, JSONIgnoreError = True, EnableLogfmt = True,
     WALMaxSegmentBytes = 8 * 1024 * 1024, WALSyncMode = SyncAlways, SegmentBucket = hour\<rparr>"

definition New :: "('re, 'o) engine_env \<Rightarrow> wal_io \<Rightarrow> time \<Rightarrow> (string, string) gomap \<times> fsys \<times> 'o \<Rightarrow> 'o engine result" where
  "New env io now root = NewWithOptions env io now root default_options"

text \<open>Neither of the two repositories has a \<open>Close\<close> method, so only the log is closed.\<close>

definition Engine_Close :: "wal_io \<Rightarrow> 'o engine \<Rightarrow> goerror option" where
  "Engine_Close io eng = Wal_Close io (en_wal eng)"

section \<open>Ingest\<close>

definition pipelineForTenant :: "'o engine \<Rightarrow> tenant_config \<Rightarrow> parse_pipeline" where
  "pipelineForTenant eng tenant =
     (case t_Pipelines tenant of
        p # ps \<Rightarrow> (if t_ActivePipelineID tenant \<noteq> [] then
            (case find (\<lambda>q. pl_ID q = t_ActivePipelineID tenant) (p # ps) of Some q \<Rightarrow> q | None \<Rightarrow> p) else p)
      | [] \<Rightarrow> (case map_of (en_pipelines eng) (t_ID tenant) of Some q \<Rightarrow> q
          | None \<Rightarrow> (case map_of (en_pipelines eng) ''default'' of Some q \<Rightarrow> q
              | None \<Rightarrow> \<lparr>pl_ID = [], pl_Description = [], pl_Stages = []\<rparr>)))"

definition chunkObjectKey :: "(string \<Rightarrow> string) \<Rightarrow> chunk \<Rightarrow> string \<Rightarrow> string" where
  "chunkObjectKey sha ch payload = ''chunks/'' @ fmt_date ''/'' (ch_Start ch) @ ''/'' @ fmt_hour (ch_Start ch) @ ''/'' @
     take 16 (sha payload) @ ''/'' @ fmt_compact (ch_Start ch) @ ''-'' @ fmt_compact (ch_End ch) @ ''.zst''"

definition segmentManifestKey :: "(string \<Rightarrow> string) \<Rightarrow> time \<Rightarrow> string \<Rightarrow> string \<Rightarrow> string" where
  "segmentManifestKey sha now part payload =
     ''segments/'' @ part @ ''/manifests/'' @ fmt_compact now @ ''-'' @ take 16 (sha payload) @ ''.json''"

text \<open>The chunk comes back with the key and the checksum of its object.\<close>

definition persistFlushedChunk :: "('re, 'o) engine_env \<Rightarrow> time \<Rightarrow> 'o engine \<Rightarrow> chunk \<Rightarrow> chunk result \<times> 'o engine" where
  "persistFlushedChunk env now eng flushed =
     (case ee_Encode env flushed of Inl err \<Rightarrow> (Inl err, eng) | Inr encoded \<Rightarrow>
      let key = chunkObjectKey (ee_sha env) flushed encoded in
      case oo_Put (ee_ops env) now (en_objects eng) key encoded of
        (Inl err, objects) \<Rightarrow> (Inl err, eng\<lparr>en_objects := objects\<rparr>)
      | (Inr meta, objects) \<Rightarrow>
          (Inr (flushed\<lparr>ch_ObjectKey := om_Key meta, ch_Checksum := om_Checksum meta\<rparr>), eng\<lparr>en_objects := objects\<rparr>))"

definition manifest_of :: "time \<Rightarrow> segment \<Rightarrow> metadata segment_manifest" where
  "manifest_of now seg = \<lparr>sm_PartitionKey = seg_PartitionKey seg, sm_Start = seg_Start seg, sm_End = seg_End seg,
     sm_Chunks = map (\<lambda>ch. \<lparr>cr_StreamKey = ch_StreamKey ch, cr_ObjectKey = ch_ObjectKey ch, cr_Checksum = ch_Checksum ch,
       cr_Start = ch_Start ch, cr_End = ch_End ch, cr_Metadata = ch_Metadata ch\<rparr>) (seg_Chunks seg),
     sm_GeneratedAt = now\<rparr>"

definition persistSegmentManifest ::
  "('re, 'o) engine_env \<Rightarrow> (nat \<Rightarrow> time) \<Rightarrow> 'o engine \<Rightarrow> segment \<Rightarrow> goerror option \<times> 'o engine" where
  "persistSegmentManifest env now eng seg =
     (case ee_MarshalManifest env (manifest_of (now 1) seg) of Inl err \<Rightarrow> (Some err, eng) | Inr data \<Rightarrow>
      let key = segmentManifestKey (ee_sha env) (now 2) (seg_PartitionKey seg) data in
      case oo_Put (ee_ops env) (now 3) (en_objects eng) key data of
        (Inl err, objects) \<Rightarrow> (Some err, eng\<lparr>en_objects := objects\<rparr>)
      | (Inr _, objects) \<Rightarrow>
          (case Manifest_Put (ee_sha env) (now 5) (en_manifests eng)
              \<lparr>mr_Key = key, mr_PartitionKey = seg_PartitionKey seg, mr_Start = seg_Start seg, mr_End = seg_End seg,
               mr_Checksum = Checksum (ee_sha env) data, mr_Payload = data, mr_CreatedAt = now 4\<rparr> of
             (Inl err, repo) \<Rightarrow> (Some err, eng\<lparr>en_objects := objects, en_manifests := repo\<rparr>)
           | (Inr _, repo) \<Rightarrow> (None, eng\<lparr>en_objects := objects, en_manifests := repo\<rparr>)))"

text \<open>What \<open>Append\<close> does with a flushed chunk.\<close>

definition store_flushed ::
  "('re, 'o) engine_env \<Rightarrow> (nat \<Rightarrow> time) \<Rightarrow> 'o engine \<Rightarrow> chunk \<Rightarrow> chunk result \<times> 'o engine" where
  "store_flushed env now eng flushed =
     (case persistFlushedChunk env (now 0) eng flushed of (Inl err, eng) \<Rightarrow> (Inl err, eng) | (Inr flushed, eng) \<Rightarrow>
      case Segment_Add (pn_segments (en_plan eng)) flushed of Inl err \<Rightarrow> (Inl err, eng) | Inr (seg, segments) \<Rightarrow>
      case persistSegmentManifest env now (eng\<lparr>en_plan := (en_plan eng)\<lparr>pn_segments := segments\<rparr>\<rparr>) seg of
        (Some err, eng) \<Rightarrow> (Inl err, eng)
      | (None, eng) \<Rightarrow> (Inr flushed, eng\<lparr>en_plan := InvalidateAll (en_plan eng)\<rparr>))"

definition builder_for :: "'o engine \<Rightarrow> string \<Rightarrow> builder" where
  "builder_for eng streamKey = (case map_of (en_builders eng) streamKey of Some b \<Rightarrow> b
     | None \<Rightarrow> NewBuilderWithOptions streamKey \<lparr>MaxEvents = ChunkMaxEvents (en_options eng), MaxBytes = ChunkMaxBytes (en_options eng),
         MaxDuration = ChunkMaxDuration (en_options eng)\<rparr>)"

definition Engine_Append ::
  "('re, 'o) engine_env \<Rightarrow> wal_io \<Rightarrow> (nat \<Rightarrow> time) \<Rightarrow> 'o engine \<Rightarrow> event \<Rightarrow> (event \<times> chunk option) result \<times> 'o engine" where
  "Engine_Append env io now eng event =
     (case GetTenant (en_tenants eng) (TenantID event) of Inl err \<Rightarrow> (Inl err, eng) | Inr tenant \<Rightarrow>
      case Process (ee_stages env) tenant event (pipelineForTenant eng tenant) (en_parser eng) of
        (Inl err, stats) \<Rightarrow> (Inl err, eng\<lparr>en_parser := stats\<rparr>)
      | (Inr processed, stats) \<Rightarrow>
          let eng = eng\<lparr>en_parser := stats\<rparr> in
          if mget (LogAttrs processed) ''_pipeline_drop'' = ''true'' then (Inr (zero_event, None), eng)
          else case ValidateWithLimits processed (t_Limits tenant) of Some err \<Rightarrow> (Inl err, eng) | None \<Rightarrow>
          case Wal_Append (ee_wal env) io (en_wal eng) processed of
            (Some err, wal) \<Rightarrow> (Inl err, eng\<lparr>en_wal := wal\<rparr>)
          | (None, wal) \<Rightarrow>
              let eng = eng\<lparr>en_wal := wal, en_index := MemoryIndex_Index (en_index eng) processed\<rparr>;
                  streamKey = StreamKey processed;
                  ((_, flushed), builder) = Builder_Add (ee_uni env) (builder_for eng streamKey) processed;
                  eng = eng\<lparr>en_builders := AList.update streamKey builder (en_builders eng)\<rparr>
              in case flushed of None \<Rightarrow> (Inr (processed, None), eng)
                 | Some ch \<Rightarrow> (case store_flushed env now eng ch of
                       (Inl err, eng) \<Rightarrow> (Inl err, eng)
                     | (Inr ch, eng) \<Rightarrow> (Inr (processed, Some ch), eng)))"

section \<open>Segments from manifests\<close>

definition chunk_of_ref :: "metadata chunk_reference \<Rightarrow> chunk" where
  "chunk_of_ref ref = \<lparr>ch_StreamKey = cr_StreamKey ref, ch_Start = cr_Start ref, ch_End = cr_End ref, ch_ObjectKey = cr_ObjectKey ref,
     ch_Checksum = cr_Checksum ref, ch_Metadata = cr_Metadata ref, ch_Events = []\<rparr>"

fun add_refs :: "metadata chunk_reference list \<Rightarrow> seg_store \<Rightarrow> goerror option \<times> seg_store" where
  "add_refs [] segments = (None, segments)"
| "add_refs (ref # refs) segments = (case Segment_Add segments (chunk_of_ref ref) of
     Inl err \<Rightarrow> (Some err, segments) | Inr (_, segments) \<Rightarrow> add_refs refs segments)"

fun load_records :: "('re, 'o) engine_env \<Rightarrow> 'o \<Rightarrow> manifest list \<Rightarrow> seg_store \<Rightarrow> goerror option \<times> seg_store" where
  "load_records env objects [] segments = (None, segments)"
| "load_records env objects (r # rs) segments =
     (case (if mr_Payload r = [] then map_sum id fst (oo_Get (ee_ops env) objects (mr_Key r)) else Inr (mr_Payload r)) of
        Inl err \<Rightarrow> (Some err, segments)
      | Inr data \<Rightarrow>
          (case ee_UnmarshalManifest env data of Inl err \<Rightarrow> (Some err, segments) | Inr manifest \<Rightarrow>
           case add_refs (sm_Chunks manifest) segments of (Some err, segments) \<Rightarrow> (Some err, segments)
           | (None, segments) \<Rightarrow> load_records env objects rs segments))"

text \<open>The records of the manifests in the object store, for a repository that has none.\<close>

fun fetch_records :: "('re, 'o) engine_env \<Rightarrow> 'o \<Rightarrow> obj_meta list \<Rightarrow> manifest list \<Rightarrow> manifest list result" where
  "fetch_records env objects [] records = Inr records"
| "fetch_records env objects (m # ms) records =
     (case oo_Get (ee_ops env) objects (om_Key m) of Inl err \<Rightarrow> Inl err
      | Inr (data, _) \<Rightarrow> fetch_records env objects ms (records @ [\<lparr>mr_Key = om_Key m, mr_PartitionKey = [], mr_Start = 0, mr_End = 0,
          mr_Checksum = [], mr_Payload = data, mr_CreatedAt = 0\<rparr>]))"

definition loadSegmentsFromRecords ::
  "('re, 'o) engine_env \<Rightarrow> 'o engine \<Rightarrow> manifest list \<Rightarrow> goerror option \<times> 'o engine" where
  "loadSegmentsFromRecords env eng records =
     (case (if records = [] then
          (case oo_List (ee_ops env) (en_objects eng) ''segments/'' of Inl err \<Rightarrow> Inl err
           | Inr metas \<Rightarrow> fetch_records env (en_objects eng) metas records)
        else Inr records) of
        Inl err \<Rightarrow> (Some err, eng)
      | Inr records \<Rightarrow>
          (case load_records env (en_objects eng) records (pn_segments (en_plan eng)) of
             (err, segments) \<Rightarrow> (err, eng\<lparr>en_plan := (en_plan eng)\<lparr>pn_segments := segments\<rparr>\<rparr>)))"

definition restoreSegments :: "('re, 'o) engine_env \<Rightarrow> 'o engine \<Rightarrow> goerror option \<times> 'o engine" where
  "restoreSegments env eng =
     (let records = Manifest_List (en_manifests eng) ''segments/'' in
      case (if records = [] then
          (case oo_List (ee_ops env) (en_objects eng) ''segments/'' of Inl err \<Rightarrow> Inl err
           | Inr metas \<Rightarrow> fetch_records env (en_objects eng) metas records)
        else Inr records) of
        Inl err \<Rightarrow> (Some err, eng)
      | Inr records \<Rightarrow>
          (case load_records env (en_objects eng) records (pn_segments (en_plan eng)) of
             (err, segments) \<Rightarrow> (err, eng\<lparr>en_plan := (en_plan eng)\<lparr>pn_segments := segments\<rparr>\<rparr>)))"

definition manifestRevision :: "manifest list \<Rightarrow> string" where
  "manifestRevision records = (if records = [] then []
     else Join (sort (map (\<lambda>r. mr_Key r @ ''|'' @ mr_Checksum r @ ''|'' @ fmt_RFC3339Nano (mr_CreatedAt r)) records)) [newline])"

definition refreshSegments :: "('re, 'o) engine_env \<Rightarrow> 'o engine \<Rightarrow> goerror option \<times> 'o engine" where
  "refreshSegments env eng =
     (let records = Manifest_List (en_manifests eng) ''segments/'';
          revision = manifestRevision records in
      if revision = en_manifestRevision eng then (None, eng)
      else case loadSegmentsFromRecords env
             (eng\<lparr>en_plan := (en_plan eng)\<lparr>pn_segments := Segment_Clear (pn_segments (en_plan eng))\<rparr>\<rparr>) records of
          (Some err, eng) \<Rightarrow> (Some err, eng)
        | (None, eng) \<Rightarrow> (None, eng\<lparr>en_manifestRevision := revision, en_plan := InvalidateAll (en_plan eng)\<rparr>))"

section \<open>Queries\<close>

definition executeQuery ::
  "('re, 'o) engine_env \<Rightarrow> (nat \<Rightarrow> time) \<Rightarrow> 'o engine \<Rightarrow> query_request \<Rightarrow> query_result result \<times> 'o engine" where
  "executeQuery env now eng req =
     (case refreshSegments env eng of (Some err, eng) \<Rightarrow> (Inl err, eng) | (None, eng) \<Rightarrow>
      case Planner_Execute (planner_env_of env eng) (now 0) (now 1) (en_plan eng) req of
        (res, plan) \<Rightarrow> (res, eng\<lparr>en_plan := plan\<rparr>))"

text \<open>The deferred \<open>release()\<close>, which does nothing for an unlimited permit.\<close>

definition release_permit :: "nat option \<Rightarrow> 'o engine \<Rightarrow> 'o engine" where
  "release_permit permit eng = (case permit of None \<Rightarrow> eng
     | Some gate \<Rightarrow> eng\<lparr>en_queryLimiter := release (en_queryLimiter eng) gate\<rparr>)"

definition Engine_Query ::
  "('re, 'o) engine_env \<Rightarrow> (nat \<Rightarrow> time) \<Rightarrow> 'o engine \<Rightarrow> query_request \<Rightarrow> query_result result \<times> 'o engine" where
  "Engine_Query env now eng req =
     (case GetTenant (en_tenants eng) (q_TenantID req) of Inl err \<Rightarrow> (Inl err, eng) | Inr tenant \<Rightarrow>
      case TryAcquire (en_queryLimiter eng) (t_ID tenant) (QueryConcurrency (t_Limits tenant)) of
        (Inl err, l) \<Rightarrow> (Inl err, eng\<lparr>en_queryLimiter := l\<rparr>)
      | (Inr permit, l) \<Rightarrow>
          (case executeQuery env now (eng\<lparr>en_queryLimiter := l\<rparr>) req of (res, eng) \<Rightarrow> (res, release_permit permit eng)))"

text \<open>The request \<open>Tail\<close> makes, and its query.\<close>

definition tail_query :: "(nat \<Rightarrow> time) \<Rightarrow> tail_request \<Rightarrow> query_request" where
  "tail_query now req =
     \<lparr>q_TenantID = tail_TenantID req, q_LabelSelectors = tail_LabelSelectors req, q_FieldPredicates = tail_FieldPredicates req,
      q_TextContains = [], q_TextRegex = [], q_Start = firstNonZeroTime (tail_Since req) (now 2 - 5 * minute), q_End = now 3,
      q_Limit = tail_Limit req, q_Cursor = [], q_Tail = True, q_PartitionKey = []\<rparr>"

definition Engine_Tail ::
  "('re, 'o) engine_env \<Rightarrow> (nat \<Rightarrow> time) \<Rightarrow> 'o engine \<Rightarrow> tail_request \<Rightarrow> query_result result \<times> 'o engine" where
  "Engine_Tail env now eng req = Engine_Query env now eng (tail_query now req)"

definition Engine_Explain ::
  "('re, 'o) engine_env \<Rightarrow> 'o engine \<Rightarrow> query_request \<Rightarrow> query_plan result \<times> 'o engine" where
  "Engine_Explain env eng req =
     (case GetTenant (en_tenants eng) (q_TenantID req) of Inl err \<Rightarrow> (Inl err, eng) | Inr tenant \<Rightarrow>
      case TryAcquire (en_queryLimiter eng) (t_ID tenant) (QueryConcurrency (t_Limits tenant)) of
        (Inl err, l) \<Rightarrow> (Inl err, eng\<lparr>en_queryLimiter := l\<rparr>)
      | (Inr permit, l) \<Rightarrow>
          (case refreshSegments env (eng\<lparr>en_queryLimiter := l\<rparr>) of
             (Some err, eng) \<Rightarrow> (Inl err, release_permit permit eng)
           | (None, eng) \<Rightarrow> (Explain (ee_uni env) (en_plan eng) req, release_permit permit eng)))"

section \<open>Recovery and inspection\<close>

definition Engine_Replay :: "('re, 'o) engine_env \<Rightarrow> 'o engine \<Rightarrow> event list result \<times> 'o engine" where
  "Engine_Replay env eng =
     (if en_replayed eng then (Inr [], eng) else
      case Wal_Replay (ee_wal env) (en_wal eng) of Inl err \<Rightarrow> (Inl err, eng) | Inr events \<Rightarrow>
      let eng = eng\<lparr>en_index := fold (\<lambda>e m. MemoryIndex_Index m e) events (en_index eng)\<rparr> in
      case restoreSegments env eng of (Some err, eng) \<Rightarrow> (Inl err, eng) | (None, eng) \<Rightarrow>
      let eng = eng\<lparr>en_manifestRevision := []\<rparr> in
      case WarmRecentChunks (planner_env_of env eng) (en_plan eng) 32 of
        (Some err, plan) \<Rightarrow> (Inl err, eng\<lparr>en_plan := plan\<rparr>)
      | (None, plan) \<Rightarrow> (Inr events, eng\<lparr>en_plan := plan, en_replayed := True\<rparr>))"

definition ListTenants :: "'o engine \<Rightarrow> tenant_config list" where
  "ListTenants eng = Tenant_List (en_tenants eng)"

definition Segments :: "'o engine \<Rightarrow> segment list" where
  "Segments eng = Segment_List (pn_segments (en_plan eng))"

definition ParserStats :: "'o engine \<Rightarrow> parse_stats" where
  "ParserStats eng = Processor_Stats (en_parser eng)"

definition ObjectStats :: "('re, 'o) engine_env \<Rightarrow> 'o engine \<Rightarrow> obj_meta list result" where
  "ObjectStats env eng = oo_List (ee_ops env) (en_objects eng) []"

definition Engine_CacheStats :: "'o engine \<Rightarrow> cache_stats \<times> cache_stats" where
  "Engine_CacheStats eng = CacheStats (en_plan eng)"

end
