(* ===== verification/Engine_Correct.thy ===== *)
theory Engine_Correct
  imports Engine
begin

text \<open>
  What the engine promises: an acknowledged event is in the log and in the index and survives a restart, and
  a query answers with events of the tenant that asked. A run of the engine is a list of operations with the
  clock readings of each; the log's input and output succeed.
\<close>

section \<open>Runs\<close>

datatype engine_op =
    OpAppend "nat \<Rightarrow> time" event
  | OpQuery "nat \<Rightarrow> time" query_request
  | OpTail "nat \<Rightarrow> time" tail_request
  | OpExplain query_request

fun engine_step :: "('re, 'o) engine_env \<Rightarrow> 'o engine \<Rightarrow> engine_op \<Rightarrow> 'o engine" where
  "engine_step env eng (OpAppend now e) = snd (Engine_Append env io_ok now eng e)"
| "engine_step env eng (OpQuery now q) = snd (Engine_Query env now eng q)"
| "engine_step env eng (OpTail now t) = snd (Engine_Tail env now eng t)"
| "engine_step env eng (OpExplain q) = snd (Engine_Explain env eng q)"

text \<open>What an append gives to the log: the processed event, unless it is refused or dropped before.\<close>

definition accepted_event :: "('re, 'o) engine_env \<Rightarrow> 'o engine \<Rightarrow> event \<Rightarrow> event list" where
  "accepted_event env eng event =
     (case GetTenant (en_tenants eng) (TenantID event) of Inl _ \<Rightarrow> [] | Inr tenant \<Rightarrow>
      case fst (Process (ee_stages env) tenant event (pipelineForTenant eng tenant) (en_parser eng)) of Inl _ \<Rightarrow> []
      | Inr e \<Rightarrow> if mget (LogAttrs e) ''_pipeline_drop'' = ''true'' \<or> ValidateWithLimits e (t_Limits tenant) \<noteq> None then [] else [e])"

fun accepted :: "('re, 'o) engine_env \<Rightarrow> 'o engine \<Rightarrow> engine_op list \<Rightarrow> event list" where
  "accepted env eng [] = []"
| "accepted env eng (ope # ops) = (case ope of OpAppend now e \<Rightarrow> accepted_event env eng e | _ \<Rightarrow> []) @
     accepted env (engine_step env eng ope) ops"

text \<open>What the clients were told: the events the appends returned, less the zero event of a dropped one.\<close>

fun acknowledged :: "('re, 'o) engine_env \<Rightarrow> 'o engine \<Rightarrow> engine_op list \<Rightarrow> event list" where
  "acknowledged env eng [] = []"
| "acknowledged env eng (ope # ops) = (case ope of
       OpAppend now e \<Rightarrow> (case fst (Engine_Append env io_ok now eng e) of Inl _ \<Rightarrow> []
         | Inr (p, _) \<Rightarrow> if p = zero_event then [] else [p])
     | _ \<Rightarrow> []) @ acknowledged env (engine_step env eng ope) ops"

fun op_event_ok :: "engine_op \<Rightarrow> bool" where
  "op_event_ok (OpAppend now e) = wf_event e"
| "op_event_ok _ = True"

section \<open>What each operation leaves alone\<close>

text \<open>
  The parts that flushing a chunk, loading segments and answering a query never touch; and the query cache,
  which they keep or empty.
\<close>

definition keeps :: "'o engine \<Rightarrow> 'o engine \<Rightarrow> bool" where
  "keeps a b \<longleftrightarrow> en_tenants b = en_tenants a \<and> en_parser b = en_parser a \<and> en_index b = en_index a \<and> en_wal b = en_wal a \<and>
     en_builders b = en_builders a \<and> en_pipelines b = en_pipelines a \<and> en_options b = en_options a \<and> en_replayed b = en_replayed a"

definition cache_kept :: "'o engine \<Rightarrow> 'o engine \<Rightarrow> bool" where
  "cache_kept a b \<longleftrightarrow> pn_queryCache (en_plan b) = pn_queryCache (en_plan a) \<or>
     pn_queryCache (en_plan b) = QueryCache_Reset (pn_queryCache (en_plan a))"

lemma keeps_refl [simp]: "keeps a a" "cache_kept a a"
  by (simp_all add: keeps_def cache_kept_def)

lemma keeps_update [simp]:
  "keeps a (b\<lparr>en_objects := x\<rparr>) = keeps a b" "keeps a (b\<lparr>en_manifests := y\<rparr>) = keeps a b" "keeps a (b\<lparr>en_plan := z\<rparr>) = keeps a b"
  "keeps a (b\<lparr>en_queryLimiter := l\<rparr>) = keeps a b" "keeps a (b\<lparr>en_manifestRevision := r\<rparr>) = keeps a b"
  "keeps (a\<lparr>en_plan := z\<rparr>) b = keeps a b" "keeps (a\<lparr>en_queryLimiter := l\<rparr>) b = keeps a b"
  by (simp_all add: keeps_def)

lemma keeps_trans: "keeps a b \<Longrightarrow> keeps b c \<Longrightarrow> keeps a c"
  by (simp add: keeps_def)

lemma keeps_release [simp]: "keeps a (release_permit p b) = keeps a b" "en_plan (release_permit p b) = en_plan b"
  by (simp_all add: release_permit_def split: option.split)

lemma persistFlushedChunk_keeps:
  "persistFlushedChunk env now eng c = (r, eng') \<Longrightarrow> keeps eng eng' \<and> en_plan eng' = en_plan eng"
  by (auto simp: persistFlushedChunk_def Let_def split: sum.splits prod.splits)

lemma persistSegmentManifest_keeps:
  "persistSegmentManifest env now eng seg = (r, eng') \<Longrightarrow> keeps eng eng' \<and> en_plan eng' = en_plan eng"
  by (auto simp: persistSegmentManifest_def Let_def split: sum.splits prod.splits)

lemma store_flushed_keeps:
  assumes "store_flushed env now eng c = (r, eng')"
  shows "keeps eng eng' \<and> cache_kept eng eng'"
  using assms
  by (auto simp: store_flushed_def cache_kept_def InvalidateAll_def split: sum.splits prod.splits option.splits
      dest!: persistFlushedChunk_keeps persistSegmentManifest_keeps elim: keeps_trans)

lemma loadSegments_keeps:
  "loadSegmentsFromRecords env eng rs = (r, eng') \<Longrightarrow> keeps eng eng' \<and> pn_queryCache (en_plan eng') = pn_queryCache (en_plan eng)"
  by (auto simp: loadSegmentsFromRecords_def split: sum.splits prod.splits)

lemma restoreSegments_keeps:
  "restoreSegments env eng = (r, eng') \<Longrightarrow> keeps eng eng' \<and> pn_queryCache (en_plan eng') = pn_queryCache (en_plan eng)"
  by (auto simp: restoreSegments_def Let_def split: sum.splits prod.splits)

lemma refreshSegments_keeps:
  assumes "refreshSegments env eng = (r, eng')"
  shows "keeps eng eng' \<and> cache_kept eng eng'"
  using assms
  by (auto simp: refreshSegments_def cache_kept_def InvalidateAll_def Let_def split: if_splits prod.splits option.splits
      dest!: loadSegments_keeps)

lemma executeQuery_keeps: "keeps eng (snd (executeQuery env now eng req))"
  by (auto simp: executeQuery_def split: prod.splits option.splits dest!: refreshSegments_keeps)

lemma queries_keep:
  "keeps eng (snd (Engine_Query env now eng req))" "keeps eng (snd (Engine_Tail env now eng treq))"
  "keeps eng (snd (Engine_Explain env eng req))"
proof -
  show q: "keeps eng (snd (Engine_Query env now eng req))" for req
  proof -
    have "keeps eng eng'" if "executeQuery env now (eng\<lparr>en_queryLimiter := l\<rparr>) req = (r, eng')" for l r eng'
      using executeQuery_keeps [of "eng\<lparr>en_queryLimiter := l\<rparr>" env now req] that by simp
    then show ?thesis by (auto simp: Engine_Query_def split: sum.splits prod.splits)
  qed
  show "keeps eng (snd (Engine_Tail env now eng treq))" by (simp add: Engine_Tail_def q)
  show "keeps eng (snd (Engine_Explain env eng req))"
    by (auto simp: Engine_Explain_def split: sum.splits prod.splits option.splits dest!: refreshSegments_keeps)
qed

section \<open>The log and the index agree\<close>

text \<open>The log holds the events of \<open>groups\<close> and the index has indexed the same events in the same order.\<close>

definition engine_holds :: "('re, 'o) engine_env \<Rightarrow> 'o engine \<Rightarrow> event list list \<Rightarrow> bool" where
  "engine_holds env eng groups \<longleftrightarrow> wal_holds (ee_wal env) (en_wal eng) groups \<and> w_prefix (en_wal eng) = ''events'' \<and>
     en_index eng = index_all (concat groups) \<and> list_all wf_event (concat groups)"

lemma engine_holds_keeps: "keeps a b \<Longrightarrow> engine_holds env a groups \<Longrightarrow> engine_holds env b groups"
  by (simp add: keeps_def engine_holds_def)

lemma accepted_event_cases:
  obtains (refused) "accepted_event env eng event = []"
      and "\<exists>r stats. Engine_Append env io now eng event = (r, eng\<lparr>en_parser := stats\<rparr>) \<and> (\<forall>p c. r = Inr (p, c) \<longrightarrow> p = zero_event)"
  | (logged) e tenant stats where "accepted_event env eng event = [e]" and "GetTenant (en_tenants eng) (TenantID event) = Inr tenant"
      and "Process (ee_stages env) tenant event (pipelineForTenant eng tenant) (en_parser eng) = (Inr e, stats)"
      and "mget (LogAttrs e) ''_pipeline_drop'' \<noteq> ''true''" and "ValidateWithLimits e (t_Limits tenant) = None"
proof (cases "GetTenant (en_tenants eng) (TenantID event)")
  case (Inl err)
  then have "Engine_Append env io now eng event = (Inl err, eng\<lparr>en_parser := en_parser eng\<rparr>)" by (simp add: Engine_Append_def)
  moreover have "accepted_event env eng event = []" by (simp add: accepted_event_def Inl)
  ultimately show thesis by (intro refused) blast+
next
  case (Inr tenant)
  obtain r stats where p: "Process (ee_stages env) tenant event (pipelineForTenant eng tenant) (en_parser eng) = (r, stats)"
    by (metis surj_pair)
  show thesis
  proof (cases "\<exists>e. r = Inr e \<and> mget (LogAttrs e) ''_pipeline_drop'' \<noteq> ''true'' \<and> ValidateWithLimits e (t_Limits tenant) = None")
    case True
    then obtain e where e: "r = Inr e" "mget (LogAttrs e) ''_pipeline_drop'' \<noteq> ''true''" "ValidateWithLimits e (t_Limits tenant) = None"
      by blast
    then have "accepted_event env eng event = [e]" by (simp add: accepted_event_def Inr p)
    then show thesis using logged Inr p e by simp
  next
    case False
    then consider err where "r = Inl err" | e where "r = Inr e" "mget (LogAttrs e) ''_pipeline_drop'' = ''true''"
      | e err where "r = Inr e" "mget (LogAttrs e) ''_pipeline_drop'' \<noteq> ''true''" "ValidateWithLimits e (t_Limits tenant) = Some err"
      by (cases r) auto
    then have "\<exists>r. Engine_Append env io now eng event = (r, eng\<lparr>en_parser := stats\<rparr>) \<and> (\<forall>p c. r = Inr (p, c) \<longrightarrow> p = zero_event)"
      by cases (simp_all add: Engine_Append_def Inr p Let_def)
    moreover have "accepted_event env eng event = []" using False by (cases r) (auto simp: accepted_event_def Inr p)
    ultimately show thesis by (intro refused) blast+
  qed
qed

text \<open>After the log has taken the event, only builders, chunks, segments and manifests change.\<close>

lemma Engine_Append_logged:
  assumes "GetTenant (en_tenants eng) (TenantID event) = Inr tenant"
    and "Process (ee_stages env) tenant event (pipelineForTenant eng tenant) (en_parser eng) = (Inr e, stats)"
    and "mget (LogAttrs e) ''_pipeline_drop'' \<noteq> ''true''" and "ValidateWithLimits e (t_Limits tenant) = None"
    and "Wal_Append (ee_wal env) io (en_wal eng) e = (None, wal)"
  shows "\<exists>r eng'. Engine_Append env io now eng event = (r, eng') \<and> en_wal eng' = wal \<and>
     en_index eng' = MemoryIndex_Index (en_index eng) e \<and> cache_kept eng eng' \<and> (\<forall>p c. r = Inr (p, c) \<longrightarrow> p = e)"
proof -
  define e1 where "e1 = eng\<lparr>en_parser := stats, en_wal := wal, en_index := MemoryIndex_Index (en_index eng) e\<rparr>"
  obtain b ch builder where add: "Builder_Add (ee_uni env) (builder_for e1 (StreamKey e)) e = ((b, ch), builder)"
    by (metis surj_pair)
  define e2 where "e2 = e1\<lparr>en_builders := AList.update (StreamKey e) builder (en_builders e1)\<rparr>"
  have run: "Engine_Append env io now eng event = (case ch of None \<Rightarrow> (Inr (e, None), e2)
       | Some ch \<Rightarrow> (case store_flushed env now e2 ch of (Inl err, eng) \<Rightarrow> (Inl err, eng) | (Inr ch, eng) \<Rightarrow> (Inr (e, Some ch), eng)))"
    using assms add unfolding e1_def e2_def by (simp add: Engine_Append_def Let_def)
  have e2: "en_wal e2 = wal" "en_index e2 = MemoryIndex_Index (en_index eng) e" "cache_kept eng e2"
    by (simp_all add: e2_def e1_def cache_kept_def)
  show ?thesis
  proof (cases ch)
    case None
    then show ?thesis using run e2 by simp
  next
    case (Some c)
    obtain r eng' where s: "store_flushed env now e2 c = (r, eng')" by (metis surj_pair)
    then have "keeps e2 eng'" "cache_kept e2 eng'" using store_flushed_keeps by blast+
    moreover have "pn_queryCache (en_plan e2) = pn_queryCache (en_plan eng)" by (simp add: e2_def e1_def)
    ultimately show ?thesis using run Some s e2
      by (cases r) (auto simp: keeps_def cache_kept_def)
  qed
qed

lemma Engine_Append_holds:
  assumes "engine_holds env eng groups" and "wf_event event" and "length groups < 1000000"
    and "list_all (recordable (ee_wal env)) (accepted_event env eng event)"
  shows "\<exists>groups'. engine_holds env (snd (Engine_Append env io_ok now eng event)) groups' \<and>
     concat groups' = concat groups @ accepted_event env eng event \<and> length groups' \<le> length groups + length (accepted_event env eng event) \<and>
     (\<forall>p c. fst (Engine_Append env io_ok now eng event) = Inr (p, c) \<longrightarrow> p = zero_event \<or> accepted_event env eng event = [p])"
proof (cases rule: accepted_event_cases [of env eng event io_ok now])
  case refused
  then show ?thesis using assms(1) by (fastforce simp: engine_holds_def)
next
  case (logged e tenant stats)
  have wf: "wf_event e" using Process_frame [OF assms(2) logged(3)] by blast
  obtain wal gs where w: "Wal_Append (ee_wal env) io_ok (en_wal eng) e = (None, wal)" "wal_holds (ee_wal env) wal gs"
      "concat gs = concat groups @ [e]" "length gs \<le> length groups + 1" "w_prefix wal = w_prefix (en_wal eng)"
    using Append_holds [of "ee_wal env" "en_wal eng" groups e] assms logged(1) by (auto simp: engine_holds_def)
  obtain r eng' where a: "Engine_Append env io_ok now eng event = (r, eng')" "en_wal eng' = wal"
      "en_index eng' = MemoryIndex_Index (en_index eng) e" "\<forall>p c. r = Inr (p, c) \<longrightarrow> p = e"
    using Engine_Append_logged [OF logged(2-5) w(1)] by blast
  have "engine_holds env eng' gs"
    using assms(1) w a wf by (simp add: engine_holds_def index_all_snoc)
  then show ?thesis using a w logged(1) by (intro exI [of _ gs]) auto
qed

lemma engine_run_holds:
  assumes "engine_holds env eng groups" and "list_all op_event_ok ops" and "length groups + length (accepted env eng ops) \<le> 1000000"
    and "list_all (recordable (ee_wal env)) (accepted env eng ops)"
  shows "\<exists>groups'. engine_holds env (foldl (engine_step env) eng ops) groups' \<and> concat groups' = concat groups @ accepted env eng ops \<and>
     subseq (acknowledged env eng ops) (accepted env eng ops)"
  using assms
proof (induction ops arbitrary: eng groups)
  case Nil
  then show ?case by auto
next
  case (Cons ope ops)
  show ?case
  proof (cases "\<exists>now e. ope = OpAppend now e")
    case True
    then obtain now e where o: "ope = OpAppend now e" by blast
    have g: "groups \<noteq> []" "length groups \<le> 1000000" using Cons.prems(1) by (auto simp: engine_holds_def wal_holds_def)
    show ?thesis
    proof (cases "accepted_event env eng e = []")
      case True
      then have "engine_holds env (engine_step env eng ope) groups \<and> (\<forall>p c. fst (Engine_Append env io_ok now eng e) = Inr (p, c) \<longrightarrow> p = zero_event)"
        using Cons.prems(1) by (cases rule: accepted_event_cases [of env eng e io_ok now]) (auto simp: o engine_holds_def)
      then show ?thesis using Cons.IH [of "engine_step env eng ope" groups] Cons.prems True o
        by (auto split: sum.splits)
    next
      case False
      then obtain gs where "engine_holds env (engine_step env eng ope) gs" "concat gs = concat groups @ accepted_event env eng e"
          "length gs \<le> length groups + length (accepted_event env eng e)"
          "\<forall>p c. fst (Engine_Append env io_ok now eng e) = Inr (p, c) \<longrightarrow> p = zero_event \<or> accepted_event env eng e = [p]"
        using Engine_Append_holds [of env eng groups e now] Cons.prems o by (cases "accepted_event env eng e") auto
      then show ?thesis using Cons.IH [of "engine_step env eng ope" gs] Cons.prems o
        by (auto split: sum.splits intro: list_emb_append_mono list_emb_append2)
    qed
  next
    case False
    have "keeps eng (engine_step env eng ope)" using queries_keep False by (cases ope) auto
    then have "engine_holds env (engine_step env eng ope) groups" using Cons.prems(1) engine_holds_keeps by blast
    moreover have "op_event_ok ope \<and> accepted env eng (ope # ops) = accepted env (engine_step env eng ope) ops \<and>
        acknowledged env eng (ope # ops) = acknowledged env (engine_step env eng ope) ops"
      using False by (cases ope) auto
    ultimately show ?thesis using Cons.IH [of "engine_step env eng ope" groups] Cons.prems by simp
  qed
qed

section \<open>Restart\<close>

lemma NewWithOptions_fresh:
  assumes "NewWithOptions env io_ok now ([], fs, objects) opts = Inr eng"
  shows "engine_holds env eng [[]]"
  using assms wal_open_empty [of "''events.log''" "\<lparr>MaxSegmentBytes = WALMaxSegmentBytes opts, wo_SyncMode = WALSyncMode opts\<rparr>" "ee_wal env"]
  by (auto simp: NewWithOptions_def engine_holds_def Let_def index_all_def split: sum.splits)

lemma NewWithOptions_reopened:
  assumes "engine_holds env eng groups" and "NewWithOptions env io_ok now (w_files (en_wal eng), fs, objects) opts = Inr eng1"
  shows "wal_holds (ee_wal env) (en_wal eng1) groups \<and> w_prefix (en_wal eng1) = ''events'' \<and> en_index eng1 = NewMemoryIndex \<and>
     \<not> en_replayed eng1"
proof -
  have "groups \<noteq> []" using assms(1) by (auto simp: engine_holds_def wal_holds_def)
  then obtain w where "Wal_OpenWithOptions io_ok (w_files (en_wal eng)) ''events.log'' \<lparr>MaxSegmentBytes = WALMaxSegmentBytes opts, wo_SyncMode = WALSyncMode opts\<rparr> = Inr w"
      "wal_holds (ee_wal env) w groups" "w_prefix w = ''events''"
    using wal_open_existing [of "''events''" "''events.log''" "w_files (en_wal eng)" groups "ee_wal env"
        "\<lparr>MaxSegmentBytes = WALMaxSegmentBytes opts, wo_SyncMode = WALSyncMode opts\<rparr>"] assms(1)
    unfolding engine_holds_def wal_holds_def by auto
  then show ?thesis using assms(2) by (auto simp: NewWithOptions_def Let_def split: sum.splits)
qed

lemma NewWithOptions_reopens:
  assumes "engine_holds env eng groups" and "fst (NewPersistentStore (ee_tenants env) now fs [''control'', ''tenants.json'']) = Inr ts"
  shows "\<exists>eng1. NewWithOptions env io_ok now (w_files (en_wal eng), fs, objects) opts = Inr eng1"
proof -
  have "groups \<noteq> []" using assms(1) by (auto simp: engine_holds_def wal_holds_def)
  then obtain w where "Wal_OpenWithOptions io_ok (w_files (en_wal eng)) ''events.log'' \<lparr>MaxSegmentBytes = WALMaxSegmentBytes opts, wo_SyncMode = WALSyncMode opts\<rparr> = Inr w"
    using wal_open_existing [of "''events''" "''events.log''" "w_files (en_wal eng)" groups "ee_wal env"
        "\<lparr>MaxSegmentBytes = WALMaxSegmentBytes opts, wo_SyncMode = WALSyncMode opts\<rparr>"] assms(1)
    unfolding engine_holds_def wal_holds_def by auto
  then show ?thesis using assms(2) by (simp add: NewWithOptions_def Let_def)
qed

lemma Engine_Replay_index:
  assumes "wal_holds (ee_wal env) (en_wal eng) groups" and "w_prefix (en_wal eng) = ''events''" and "en_index eng = NewMemoryIndex"
    and "\<not> en_replayed eng" and "list_all wf_event (concat groups)"
  shows "engine_holds env (snd (Engine_Replay env eng)) groups \<and> (\<forall>es. fst (Engine_Replay env eng) = Inr es \<longrightarrow> es = concat groups)"
proof -
  define e1 where "e1 = eng\<lparr>en_index := index_all (concat groups)\<rparr>"
  have h: "engine_holds env e1 groups" using assms by (simp add: engine_holds_def e1_def)
  obtain r e2 where r: "restoreSegments env e1 = (r, e2)" by (metis surj_pair)
  then have "engine_holds env e2 groups" using h restoreSegments_keeps engine_holds_keeps by blast
  moreover have "Engine_Replay env eng = (case restoreSegments env e1 of (Some err, eng) \<Rightarrow> (Inl err, eng) | (None, eng) \<Rightarrow>
      let eng = eng\<lparr>en_manifestRevision := []\<rparr> in
      case WarmRecentChunks (planner_env_of env eng) (en_plan eng) 32 of
        (Some err, plan) \<Rightarrow> (Inl err, eng\<lparr>en_plan := plan\<rparr>)
      | (None, plan) \<Rightarrow> (Inr (concat groups), eng\<lparr>en_plan := plan, en_replayed := True\<rparr>))"
    using assms(3,4) wal_holds_replay [OF assms(1)] by (simp add: Engine_Replay_def Let_def e1_def index_all_def)
  ultimately show ?thesis using r
    by (auto simp: Let_def engine_holds_def split: option.splits prod.splits)
qed

section \<open>Whose events a query returns\<close>

definition of_tenant :: "string \<Rightarrow> event list \<Rightarrow> bool" where
  "of_tenant tenant es \<longleftrightarrow> list_all (\<lambda>e. TenantID e = tenant) es"

lemma of_tenant_simps [simp]:
  "of_tenant t []" "of_tenant t (e # es) \<longleftrightarrow> TenantID e = t \<and> of_tenant t es" "of_tenant t (xs @ ys) \<longleftrightarrow> of_tenant t xs \<and> of_tenant t ys"
  by (simp_all add: of_tenant_def)

lemma of_tenant_subset: "of_tenant t ys \<Longrightarrow> set xs \<subseteq> set ys \<Longrightarrow> of_tenant t xs"
  by (auto simp: of_tenant_def list_all_iff)

lemma page_of_tenant: "of_tenant t xs \<Longrightarrow> of_tenant t (fst (page offset limit xs))"
  by (rule of_tenant_subset) (auto simp: page_drop_take Let_def dest: in_set_takeD in_set_dropD)

lemma TenantID_Clone [simp]: "TenantID (Event_Clone e) = TenantID e"
  by (simp add: Event_Clone_def)

lemma scan_add_tenant:
  "TenantID e = t \<Longrightarrow> of_tenant t (sc_events s) \<Longrightarrow> of_tenant t (sc_events (scan_add e s))"
  by (simp add: scan_add_def Let_def)

lemma fold_scan_add_tenant:
  "of_tenant t es \<Longrightarrow> of_tenant t (sc_events s) \<Longrightarrow> of_tenant t (sc_events (fold scan_add es s))"
  by (induction es arbitrary: s) (simp_all add: scan_add_tenant)

lemma scan_event_tenant:
  "of_tenant (q_TenantID req) (sc_events s) \<Longrightarrow> of_tenant (q_TenantID req) (sc_events (scan_event env req matcher e s))"
  by (auto simp: scan_event_def Let_def eventMatches_def intro!: scan_add_tenant split: if_splits)

lemma scan_candidates_tenant:
  assumes "scan_candidates env req matcher cs cache s = (err, s', cache')" and "of_tenant (q_TenantID req) (sc_events s)"
  shows "of_tenant (q_TenantID req) (sc_events s')"
  using assms
proof (induction cs arbitrary: cache s)
  case Nil
  then show ?case by simp
next
  case (Cons c cs)
  have "of_tenant (q_TenantID req) (sc_events (fold (scan_event env req matcher) es s))" for es
    using Cons.prems(2) by (induction es arbitrary: s) (simp_all add: scan_event_tenant)
  then show ?case using Cons by (auto split: prod.splits sum.splits)
qed

lemma hot_of_tenant:
  assumes "list_all wf_event es" and "MemoryIndex_Execute uni Compile MatchString (index_all es) req = Inr res"
  shows "of_tenant (q_TenantID req) (r_Events res)"
proof -
  obtain offset matcher where r: "Query_Validate req = None" "CursorOffset req = Inr offset"
      "compileRegex Compile (q_TextRegex req) = Inr matcher"
    using assms(2) by (auto simp: MemoryIndex_Execute_def split: option.splits sum.splits)
  have "(r_Events res, r_NextCursor res) = page offset (q_Limit req)
       (filter (hot_matches uni MatchString req matcher) (if q_Tail req then rev (ix_events (index_all es)) else ix_events (index_all es)))"
    using Execute_scan [OF _ r, of "index_all es" uni MatchString] index_all_wf [OF assms(1)] assms(2) by auto
  then have "r_Events res = fst (page offset (q_Limit req)
       (filter (hot_matches uni MatchString req matcher) (if q_Tail req then rev (ix_events (index_all es)) else ix_events (index_all es))))"
    by (metis fst_conv)
  moreover have "of_tenant (q_TenantID req) (filter (hot_matches uni MatchString req matcher) xs)" for xs
    by (auto simp: of_tenant_def list_all_iff hot_matches_def)
  ultimately show ?thesis by (simp add: page_of_tenant)
qed

text \<open>A query that is not answered from the cache returns events of its tenant, and caches at most its own result.\<close>

lemma execute_uncached_tenant:
  assumes "execute_uncached env now p req = (r, p')"
    and hot: "\<And>exec r. pe_fallback env = Some exec \<Longrightarrow> exec (req\<lparr>q_Limit := 0, q_Cursor := []\<rparr>) = Inr r \<Longrightarrow> of_tenant (q_TenantID req) (r_Events r)"
  shows "(\<forall>res. r = Inr res \<longrightarrow> of_tenant (q_TenantID req) (r_Events res)) \<and>
     (pn_queryCache p' = pn_queryCache p \<or> (\<exists>res. r = Inr res \<and> pn_queryCache p' = QueryCache_Put now (pn_queryCache p) (planner_cacheKey env req) res))"
proof (cases "Plan (pe_uni env) p req")
  case (Inl err)
  then show ?thesis using assms(1) by (auto simp: execute_uncached_def)
next
  case plan: (Inr plan)
  show ?thesis
  proof (cases "compileRegex (pe_Compile env) (q_TextRegex req)")
    case (Inl err)
    then show ?thesis using assms(1) plan by (auto simp: execute_uncached_def Let_def)
  next
    case (Inr matcher)
    obtain e s cache where s: "scan_candidates env req matcher (snd (candidateChunks (pe_uni env) p req)) (pn_chunkCache p)
        \<lparr>sc_events = [], sc_scanned = 0, sc_seen = []\<rparr> = (e, s, cache)"
      by (metis surj_pair)
    have ten: "of_tenant (q_TenantID req) (sc_events s)" using scan_candidates_tenant [OF s] by simp
    show ?thesis
    proof (cases e)
      case (Some err)
      then show ?thesis using assms(1) plan Inr s
        by (auto simp: execute_uncached_def Let_def zero_result_def split: if_splits)
    next
      case None
      define hs where "hs = (case pe_fallback env of None \<Rightarrow> Inr s | Some exec \<Rightarrow>
                (case exec (req\<lparr>q_Limit := 0, q_Cursor := []\<rparr>) of Inl err \<Rightarrow> Inl err
                 | Inr hot \<Rightarrow> Inr (fold scan_add (r_Events hot) (s\<lparr>sc_scanned := sc_scanned s + r_Scanned hot\<rparr>))))"
      have t2: "of_tenant (q_TenantID req) (sc_events s2)" if "hs = Inr s2" for s2
        using that ten hot by (auto simp: hs_def intro!: fold_scan_add_tenant split: option.splits sum.splits)
      have perm: "set (sortEvents xs b) = set xs" for xs b by (simp add: sortEvents_def)
      have t3: "of_tenant (q_TenantID req) (fst (page offset (q_Limit req) (sortEvents (sc_events s2) (q_Tail req))))"
        if "hs = Inr s2" for s2 offset
        by (rule page_of_tenant, rule of_tenant_subset [OF t2 [OF that]]) (simp add: perm)
      have "execute_uncached env now p req = (case hs of Inl err \<Rightarrow> (Inl err, p\<lparr>pn_chunkCache := cache\<rparr>) | Inr s \<Rightarrow>
             case CursorOffset req of Inl err \<Rightarrow> (Inl err, p\<lparr>pn_chunkCache := cache\<rparr>) | Inr offset \<Rightarrow>
             let (evs, next) = page offset (q_Limit req) (sortEvents (sc_events s) (q_Tail req));
                 result = \<lparr>r_Events = evs, r_Scanned = sc_scanned s, r_Matched = length evs, r_Partial = False,
                   r_NextCursor = next, r_Stats = \<lparr>CandidateStreams = p_CandidateStreams plan,
                     CandidateChunks = p_CandidateChunks plan, ScannedEvents = sc_scanned s\<rparr>\<rparr>
             in (Inr result, p\<lparr>pn_chunkCache := cache,
                  pn_queryCache := QueryCache_Put now (pn_queryCache (p\<lparr>pn_chunkCache := cache\<rparr>)) (planner_cacheKey env req) result\<rparr>))"
        using plan Inr s None unfolding hs_def by (simp add: execute_uncached_def Let_def)
      note run = this [unfolded assms(1)]
      show ?thesis
      proof (cases "\<exists>s2 offset. hs = Inr s2 \<and> CursorOffset req = Inr offset")
        case True
        then obtain s2 offset where h: "hs = Inr s2" "CursorOffset req = Inr offset" by blast
        obtain evs next' where pg: "page offset (q_Limit req) (sortEvents (sc_events s2) (q_Tail req)) = (evs, next')"
          by (metis surj_pair)
        then have "of_tenant (q_TenantID req) evs" using t3 [OF h(1), of offset] by simp
        then show ?thesis using run h pg by (simp add: Let_def)
      next
        case False
        then show ?thesis using run by (auto split: sum.splits)
      qed
    qed
  qed
qed

text \<open>
  The requests that were asked are those of a predicate \<open>asked\<close>. A cached result belongs to the tenant of every asked
  request with its key.
\<close>

definition cache_isolated :: "(query_request \<Rightarrow> bool) \<Rightarrow> (query_request \<Rightarrow> string) \<Rightarrow> query_cache \<Rightarrow> bool" where
  "cache_isolated asked key qc \<longleftrightarrow> wf_query_cache qc \<and>
     (\<forall>k e req. map_of (query_content qc) k = Some e \<longrightarrow> asked req \<longrightarrow> key req = k \<longrightarrow> of_tenant (q_TenantID req) (r_Events (qe_value e)))"

definition separates :: "(query_request \<Rightarrow> bool) \<Rightarrow> (query_request \<Rightarrow> string) \<Rightarrow> bool" where
  "separates asked key \<longleftrightarrow> (\<forall>req req'. asked req \<longrightarrow> asked req' \<longrightarrow> key req = key req' \<longrightarrow> q_TenantID req = q_TenantID req')"

abbreviation engine_cacheKey :: "('re, 'o) engine_env \<Rightarrow> query_request \<Rightarrow> string" where
  "engine_cacheKey env \<equiv> requestCacheKey (ee_MarshalRequest env) (ee_sha env)"

text \<open>
  The encodings of the asked requests. When every asked request is encoded, the tenant can be read from its encoding,
  and no two of these encodings have the same hash, the keys separate the tenants.
\<close>

definition encodings :: "('re, 'o) engine_env \<Rightarrow> (query_request \<Rightarrow> bool) \<Rightarrow> string set" where
  "encodings env asked = {payload. \<exists>req. asked req \<and> ee_MarshalRequest env req = Inr payload}"

lemma cacheKey_separates:
  assumes "\<And>req. asked req \<Longrightarrow> \<exists>payload. ee_MarshalRequest env req = Inr payload \<and> decode payload = q_TenantID req"
    and "inj_on (ee_sha env) (encodings env asked)"
  shows "separates asked (engine_cacheKey env)"
  unfolding separates_def
proof (intro allI impI)
  fix req req' assume a: "asked req" "asked req'" and k: "engine_cacheKey env req = engine_cacheKey env req'"
  obtain p p' where p: "ee_MarshalRequest env req = Inr p" "decode p = q_TenantID req"
      "ee_MarshalRequest env req' = Inr p'" "decode p' = q_TenantID req'"
    using assms(1) [OF a(1)] assms(1) [OF a(2)] by auto
  moreover have "p \<in> encodings env asked" "p' \<in> encodings env asked" using a p by (auto simp: encodings_def)
  ultimately have "p = p'" using k assms(2) by (auto simp: requestCacheKey_def inj_on_def)
  then show "q_TenantID req = q_TenantID req'" using p by simp
qed

lemma cache_isolated_Reset: "cache_isolated asked key qc \<Longrightarrow> cache_isolated asked key (QueryCache_Reset qc)"
  by (simp add: cache_isolated_def) (simp add: QueryCache_Reset_def query_content_def lru_content_def)

lemma cache_isolated_Put:
  assumes "cache_isolated asked key qc" and "separates asked key" and "asked req" and "of_tenant (q_TenantID req) (r_Events res)"
  shows "cache_isolated asked key (QueryCache_Put now qc (key req) res)"
proof -
  have w: "wf_query_cache qc" using assms(1) by (simp add: cache_isolated_def)
  have "of_tenant (q_TenantID req') (r_Events (qe_value e))"
    if "map_of (query_content (QueryCache_Put now qc (key req) res)) k = Some e" and "asked req'" and "key req' = k" for k e req'
  proof -
    have "map_of (query_content (cache_step QueryCache_Get QueryCache_Put qc (CPut now (key req) res))) k = Some e"
      using that by simp
    then have c: "if key req = k then e = query_entry_of now qc k res else map_of (query_content qc) k = Some e"
      using query_lru.step_content [OF w] by fastforce
    show ?thesis
    proof (cases "key req = k")
      case True
      then have "q_TenantID req' = q_TenantID req"
        using assms(2,3) that(2,3) unfolding separates_def by metis
      then show ?thesis using c True assms(4) by (simp add: query_entry_of_def)
    next
      case False
      then show ?thesis using c assms(1) that(2,3) unfolding cache_isolated_def by auto
    qed
  qed
  then show ?thesis using query_lru.put_inv [OF w] by (simp add: cache_isolated_def)
qed

lemma cache_isolated_Get:
  assumes "cache_isolated asked key qc" and "QueryCache_Get now qc (key req) = (r, qc')"
  shows "cache_isolated asked key qc'" and "asked req \<Longrightarrow> r = Some res \<Longrightarrow> of_tenant (q_TenantID req) (r_Events res)"
proof -
  have w: "wf_query_cache qc" using assms(1) by (simp add: cache_isolated_def)
  have "map_of (query_content qc) k = Some e" if "map_of (query_content qc') k = Some e" for k e
  proof -
    have "map_of (query_content (cache_step QueryCache_Get QueryCache_Put qc (CGet now (key req)))) k = Some e"
      using that assms(2) by simp
    from query_lru.step_content [OF w this] show ?thesis by simp
  qed
  moreover have "wf_query_cache qc'" using query_lru.get_inv [OF w, of now "key req"] assms(2) by simp
  ultimately show "cache_isolated asked key qc'" using assms(1) by (simp add: cache_isolated_def) blast
  show "asked req \<Longrightarrow> r = Some res \<Longrightarrow> of_tenant (q_TenantID req) (r_Events res)"
    using assms by (cases rule: QueryCache_Get_cases [OF w, of "key req" now]) (auto simp: cache_isolated_def)
qed

section \<open>Reachable engines\<close>

text \<open>
  The states an engine goes through, whatever files it starts from and whatever the log's input and
  output do, as long as the queries are asked ones. Events of clients have maps for maps.
\<close>

inductive ereach :: "('re, 'o) engine_env \<Rightarrow> (query_request \<Rightarrow> bool) \<Rightarrow> 'o engine \<Rightarrow> bool" for env asked where
  start: "NewWithOptions env io now root opts = Inr eng \<Longrightarrow> ereach env asked eng"
| replay: "ereach env asked eng \<Longrightarrow> ereach env asked (snd (Engine_Replay env eng))"
| append: "ereach env asked eng \<Longrightarrow> wf_event e \<Longrightarrow> ereach env asked (snd (Engine_Append env io now eng e))"
| query: "ereach env asked eng \<Longrightarrow> asked req \<Longrightarrow> ereach env asked (snd (Engine_Query env now eng req))"
| tail: "ereach env asked eng \<Longrightarrow> asked (tail_query now treq) \<Longrightarrow> ereach env asked (snd (Engine_Tail env now eng treq))"
| explain: "ereach env asked eng \<Longrightarrow> ereach env asked (snd (Engine_Explain env eng req))"

text \<open>The index is the index of some events; and the cached results are kept apart.\<close>

definition indexed :: "'o engine \<Rightarrow> bool" where
  "indexed eng \<longleftrightarrow> (\<exists>es. list_all wf_event es \<and> en_index eng = index_all es)"

definition isolated :: "(query_request \<Rightarrow> bool) \<Rightarrow> ('re, 'o) engine_env \<Rightarrow> 'o engine \<Rightarrow> bool" where
  "isolated asked env eng \<longleftrightarrow> indexed eng \<and> cache_isolated asked (engine_cacheKey env) (pn_queryCache (en_plan eng))"

text \<open>What JSON decodes into a Go map is a map.\<close>

definition decodes_maps :: "wal_codec \<Rightarrow> bool" where
  "decodes_maps cd \<longleftrightarrow> (\<forall>l c e. wc_unmarshalRecord cd l = Inr (c, e) \<longrightarrow> wf_event e)"

lemma indexed_keeps: "keeps a b \<Longrightarrow> indexed b = indexed a"
  by (simp add: indexed_def keeps_def)

lemma isolated_kept: "isolated asked env a \<Longrightarrow> indexed b \<Longrightarrow> cache_kept a b \<Longrightarrow> isolated asked env b"
  by (auto simp: isolated_def cache_kept_def cache_isolated_Reset)

lemma isolated_limiter [simp]: "isolated asked env (eng\<lparr>en_queryLimiter := l\<rparr>) = isolated asked env eng"
  by (simp add: isolated_def indexed_def)

lemma isolated_release [simp]: "isolated asked env (release_permit p eng) = isolated asked env eng"
  by (simp add: release_permit_def split: option.split)

lemma refreshSegments_isolated:
  assumes "isolated asked env eng" and "refreshSegments env eng = (r, eng')"
  shows "isolated asked env eng'"
  using refreshSegments_keeps [OF assms(2)] indexed_keeps [of eng eng'] assms(1) isolated_kept [of asked env eng eng']
  by (auto simp: isolated_def)

lemma executeQuery_isolated:
  assumes "isolated asked env eng" and "separates asked (engine_cacheKey env)" and "asked req" and "executeQuery env now eng req = (r, eng')"
  shows "isolated asked env eng' \<and> (\<forall>res. r = Inr res \<longrightarrow> of_tenant (q_TenantID req) (r_Events res))"
proof -
  obtain e e1 where ref: "refreshSegments env eng = (e, e1)" by (metis surj_pair)
  note i1 = refreshSegments_isolated [OF assms(1) ref]
  show ?thesis
  proof (cases e)
    case (Some err)
    then show ?thesis using assms(4) ref i1 by (auto simp: executeQuery_def)
  next
    case None
    obtain res plan where x: "Planner_Execute (planner_env_of env e1) (now 0) (now 1) (en_plan e1) req = (res, plan)" by (metis surj_pair)
    have k: "planner_cacheKey (planner_env_of env e1) = engine_cacheKey env" by (simp add: planner_env_of_def)
    have ci: "cache_isolated asked (engine_cacheKey env) (pn_queryCache (en_plan e1))" using i1 by (simp add: isolated_def)
    obtain c qc where g: "QueryCache_Get (now 0) (pn_queryCache (en_plan e1)) (engine_cacheKey env req) = (c, qc)" by (metis surj_pair)
    note iso = cache_isolated_Get(1) [OF ci g] cache_isolated_Get(2) [OF ci g assms(3)]
    have "cache_isolated asked (engine_cacheKey env) (pn_queryCache plan) \<and> (\<forall>v. res = Inr v \<longrightarrow> of_tenant (q_TenantID req) (r_Events v))"
    proof (cases c)
      case (Some v)
      then show ?thesis using x g iso k by (auto simp: Planner_Execute_def)
    next
      case miss: None
      then have u: "execute_uncached (planner_env_of env e1) (now 1) ((en_plan e1)\<lparr>pn_queryCache := qc\<rparr>) req = (res, plan)"
        using x g k by (simp add: Planner_Execute_def)
      obtain es where es: "list_all wf_event es" "en_index e1 = index_all es" using i1 by (auto simp: isolated_def indexed_def)
      have hot: "of_tenant (q_TenantID req) (r_Events v)"
        if "pe_fallback (planner_env_of env e1) = Some exec" "exec (req\<lparr>q_Limit := 0, q_Cursor := []\<rparr>) = Inr v" for exec v
        using that hot_of_tenant [OF es(1), of "ee_uni env" "ee_Compile env" "ee_MatchString env" "req\<lparr>q_Limit := 0, q_Cursor := []\<rparr>" v]
        by (auto simp: planner_env_of_def es(2))
      have "(\<forall>v. res = Inr v \<longrightarrow> of_tenant (q_TenantID req) (r_Events v)) \<and> (pn_queryCache plan = qc \<or>
          (\<exists>v. res = Inr v \<and> pn_queryCache plan = QueryCache_Put (now 1) qc (engine_cacheKey env req) v))"
        using execute_uncached_tenant [OF u] hot by (simp add: k)
      then show ?thesis using iso(1) cache_isolated_Put [OF _ assms(2,3)] by auto
    qed
    then show ?thesis using assms(4) ref None x i1 by (auto simp: executeQuery_def isolated_def indexed_def)
  qed
qed

lemma Engine_Query_isolated:
  assumes "isolated asked env eng" and "separates asked (engine_cacheKey env)" and "asked req" and "Engine_Query env now eng req = (r, eng')"
  shows "isolated asked env eng'" and "r = Inr res \<Longrightarrow> of_tenant (q_TenantID req) (r_Events res)"
proof -
  have "isolated asked env e2 \<and> (\<forall>v. res = Inr v \<longrightarrow> of_tenant (q_TenantID req) (r_Events v))"
    if "executeQuery env now (eng\<lparr>en_queryLimiter := l\<rparr>) req = (res, e2)" for l res e2
    using executeQuery_isolated [OF _ assms(2,3) that] assms(1) by simp
  then have "isolated asked env eng' \<and> (\<forall>res. r = Inr res \<longrightarrow> of_tenant (q_TenantID req) (r_Events res))"
    using assms(1,4) by (auto simp: Engine_Query_def split: sum.splits prod.splits)
  then show "isolated asked env eng'" and "r = Inr res \<Longrightarrow> of_tenant (q_TenantID req) (r_Events res)" by blast+
qed

lemma Engine_Tail_isolated:
  assumes "isolated asked env eng" and "separates asked (engine_cacheKey env)" and "asked (tail_query now treq)"
    and "Engine_Tail env now eng treq = (r, eng')"
  shows "isolated asked env eng'" and "r = Inr res \<Longrightarrow> of_tenant (tail_TenantID treq) (r_Events res)"
  using Engine_Query_isolated [OF assms(1-3)] assms(4) by (simp_all add: Engine_Tail_def) (simp add: tail_query_def)

lemma Engine_Explain_isolated:
  assumes "isolated asked env eng"
  shows "isolated asked env (snd (Engine_Explain env eng req))"
proof -
  have "isolated asked env e1" if "refreshSegments env (eng\<lparr>en_queryLimiter := l\<rparr>) = (r, e1)" for l r e1
    using refreshSegments_isolated [OF _ that] assms by simp
  then show ?thesis using assms by (auto simp: Engine_Explain_def split: sum.splits prod.splits option.splits)
qed

lemma replay_wf:
  assumes "decodes_maps cd" and "Wal_Replay cd w = Inr es"
  shows "list_all wf_event es"
proof -
  have l: "list_all wf_event acc \<Longrightarrow> replay_lines cd ls acc = Inr es \<Longrightarrow> list_all wf_event es" for ls acc es
  proof (induction ls arbitrary: acc)
    case (Cons l ls)
    then obtain e where "unmarshalRecord cd (drop_cr l) = Inr e" "replay_lines cd ls (acc @ [e]) = Inr es"
      by (auto split: if_splits sum.splits)
    moreover from this(1) have "wf_event e"
      using assms(1) by (auto simp: unmarshalRecord_def decodes_maps_def split: sum.splits if_splits)
    ultimately show ?case using Cons.IH [of "acc @ [e]"] Cons.prems(1) by simp
  qed simp
  have "list_all wf_event acc \<Longrightarrow> replay_files cd files ps acc = Inr es \<Longrightarrow> list_all wf_event es" for files ps acc
    by (induction ps arbitrary: acc) (auto split: sum.splits dest: l)
  from this [of "[]" "w_files w" "segmentPaths w"] show ?thesis using assms(2) by (simp add: Wal_Replay_def)
qed

lemma index_all_append: "fold (\<lambda>e m. MemoryIndex_Index m e) fs (index_all es) = index_all (es @ fs)"
  by (simp add: index_all_def)

lemma WarmRecentChunks_queryCache: "WarmRecentChunks env p n = (err, p') \<Longrightarrow> pn_queryCache p' = pn_queryCache p"
  by (auto simp: WarmRecentChunks_def Let_def split: option.splits prod.splits)

lemma Engine_Replay_indexed:
  assumes "indexed eng" and "decodes_maps (ee_wal env)"
  shows "indexed (snd (Engine_Replay env eng)) \<and> cache_kept eng (snd (Engine_Replay env eng))"
proof (cases "en_replayed eng")
  case True
  then show ?thesis using assms by (simp add: Engine_Replay_def)
next
  case False
  show ?thesis
  proof (cases "Wal_Replay (ee_wal env) (en_wal eng)")
    case (Inl err)
    then show ?thesis using assms False by (simp add: Engine_Replay_def)
  next
    case (Inr es)
    define e1 where "e1 = eng\<lparr>en_index := fold (\<lambda>e m. MemoryIndex_Index m e) es (en_index eng)\<rparr>"
    obtain es0 where "list_all wf_event es0" "en_index eng = index_all es0" using assms(1) by (auto simp: indexed_def)
    then have "list_all wf_event (es0 @ es) \<and> en_index e1 = index_all (es0 @ es)"
      using replay_wf [OF assms(2) Inr] by (simp add: e1_def index_all_append)
    then have i1: "indexed e1" unfolding indexed_def by blast
    obtain r e2 where r: "restoreSegments env e1 = (r, e2)" by (metis surj_pair)
    have "indexed e2" "pn_queryCache (en_plan e2) = pn_queryCache (en_plan eng)"
      using i1 restoreSegments_keeps [OF r] indexed_keeps [of e1 e2] by (simp_all add: e1_def)
    then show ?thesis
      using False Inr r
      by (auto simp: Engine_Replay_def Let_def e1_def [symmetric] indexed_def cache_kept_def split: option.splits prod.splits
          dest!: WarmRecentChunks_queryCache)
  qed
qed

lemma Engine_Append_indexed:
  assumes "indexed eng" and "wf_event event"
  shows "indexed (snd (Engine_Append env io now eng event)) \<and> cache_kept eng (snd (Engine_Append env io now eng event))"
proof (cases rule: accepted_event_cases [of env eng event io now])
  case refused
  then show ?thesis using assms(1) by (auto simp: indexed_def cache_kept_def)
next
  case (logged e tenant stats)
  obtain err wal where w: "Wal_Append (ee_wal env) io (en_wal eng) e = (err, wal)" by (metis surj_pair)
  show ?thesis
  proof (cases err)
    case (Some x)
    then show ?thesis using logged w assms(1) by (simp add: Engine_Append_def indexed_def cache_kept_def Let_def)
  next
    case None
    then obtain r eng' where a: "Engine_Append env io now eng event = (r, eng')"
        "en_index eng' = MemoryIndex_Index (en_index eng) e" "cache_kept eng eng'"
      using Engine_Append_logged [OF logged(2-5), of io wal now] w by auto
    obtain es where es: "list_all wf_event es" "en_index eng = index_all es" using assms(1) by (auto simp: indexed_def)
    have "list_all wf_event (es @ [e]) \<and> en_index eng' = index_all (es @ [e])"
      using es a(2) Process_frame [OF assms(2) logged(3)] by (simp add: index_all_snoc)
    then have "indexed eng'" unfolding indexed_def by blast
    then show ?thesis using a by simp
  qed
qed

lemma Engine_Append_isolated:
  "isolated asked env eng \<Longrightarrow> wf_event event \<Longrightarrow> isolated asked env (snd (Engine_Append env io now eng event))"
  using Engine_Append_indexed isolated_kept unfolding isolated_def by blast

lemma NewWithOptions_isolated:
  assumes "NewWithOptions env io now root opts = Inr eng"
  shows "isolated asked env eng"
proof -
  have "en_index eng = index_all []" "pn_queryCache (en_plan eng) =
      NewQueryCache (eo_QueryCacheEntries (with_defaults opts)) (eo_QueryCacheTTL (with_defaults opts))"
    using assms by (auto simp: NewWithOptions_def index_all_def NewPlanner_def Let_def split: prod.splits sum.splits)
  moreover have "cache_isolated asked key (NewQueryCache n ttl)" for key n ttl
    by (simp add: cache_isolated_def) (simp add: NewQueryCache_def query_content_def lru_content_def)
  ultimately show ?thesis by (auto simp: isolated_def indexed_def intro: exI [of _ "[]"])
qed

lemma ereach_indexed:
  assumes "ereach env asked eng" and "decodes_maps (ee_wal env)"
  shows "indexed eng"
  using assms(1)
proof induction
  case (start io now root opts eng)
  then show ?case using NewWithOptions_isolated unfolding isolated_def by blast
qed (use Engine_Replay_indexed [OF _ assms(2)] Engine_Append_indexed queries_keep indexed_keeps in blast)+

lemma ereach_isolated:
  assumes "ereach env asked eng" and "separates asked (engine_cacheKey env)" and "decodes_maps (ee_wal env)"
  shows "isolated asked env eng"
  using assms(1)
proof induction
  case (start io now root opts eng)
  then show ?case by (rule NewWithOptions_isolated)
next
  case (replay eng)
  then show ?case using Engine_Replay_indexed [OF _ assms(3)] isolated_kept unfolding isolated_def by blast
next
  case (append eng e io now)
  then show ?case using Engine_Append_isolated by blast
next
  case (query eng req now)
  then show ?case using Engine_Query_isolated(1) [OF _ assms(2) _ prod.collapse [symmetric]] by blast
next
  case (tail eng now treq)
  then show ?case using Engine_Tail_isolated(1) [OF _ assms(2) _ prod.collapse [symmetric]] by blast
next
  case (explain eng req)
  then show ?case using Engine_Explain_isolated by blast
qed

section \<open>What an append makes visible\<close>

lemma acknowledged_indexed:
  assumes "indexed eng" and "wf_event event" and "Engine_Append env io now eng event = (Inr (e, c), eng1)" and "e \<noteq> zero_event"
  shows "\<exists>es. list_all wf_event (es @ [e]) \<and> en_index eng1 = index_all (es @ [e])"
proof (cases rule: accepted_event_cases [of env eng event io now])
  case refused
  then show ?thesis using assms(3,4) by auto
next
  case (logged e' tenant stats)
  obtain err wal where w: "Wal_Append (ee_wal env) io (en_wal eng) e' = (err, wal)" by (metis surj_pair)
  have "err = None"
    using logged w assms(3) by (cases err) (simp_all add: Engine_Append_def Let_def)
  then have a: "en_index eng1 = MemoryIndex_Index (en_index eng) e" "e = e'"
    using Engine_Append_logged [OF logged(2-5), of io wal now] w assms(3) by auto
  obtain es where "list_all wf_event es" "en_index eng = index_all es" using assms(1) by (auto simp: indexed_def)
  then show ?thesis using a Process_frame [OF assms(2) logged(3)] by (intro exI [of _ es]) (simp add: index_all_snoc)
qed

lemma hot_events_indexed:
  assumes "list_all wf_event es" and "e \<in> set es" and "hot_matches uni MatchString req matcher e"
    and "pe_fallback penv = Some (MemoryIndex_Execute uni Compile MatchString (index_all es))"
    and "Query_Validate req = None" and "compileRegex Compile (q_TextRegex req) = Inr matcher" and "0 \<le> q_Limit req"
  shows "e \<in> set (hot_events penv req)"
proof -
  let ?q = "req\<lparr>q_Limit := 0, q_Cursor := []\<rparr>"
  have q: "Query_Validate ?q = None" "CursorOffset ?q = Inr 0" "compileRegex Compile (q_TextRegex ?q) = Inr matcher"
    using assms(5,6) by (simp_all add: Query_Validate_def CursorOffset_def split: if_splits)
  have m: "hot_matches uni MatchString ?q matcher = hot_matches uni MatchString req matcher"
    by (simp add: fun_eq_iff hot_matches_def text_match_def)
  have ix: "wf_index (index_all es)" "ix_events (index_all es) = es" using index_all_wf [OF assms(1)] by simp_all
  obtain res where "MemoryIndex_Execute uni Compile MatchString (index_all es) ?q = Inr res"
      "r_Events res = filter (hot_matches uni MatchString req matcher) (if q_Tail req then rev es else es)"
    using Execute_scan [OF ix(1) q, of uni MatchString] unfolding ix(2) m by (auto simp: page_drop_take)
  then show ?thesis using assms(2-4) by (simp add: hot_events_def)
qed

lemma query_after_append:
  assumes iso: "indexed eng" and "wf_event event"
    and "Engine_Append env io now eng event = (Inr (e, c), eng1)" and "e \<noteq> zero_event"
    and "GetTenant (en_tenants eng1) (q_TenantID req) = Inr tenant"
    and "TryAcquire (en_queryLimiter eng1) (t_ID tenant) (QueryConcurrency (t_Limits tenant)) = (Inr permit, l)"
    and "refreshSegments env (eng1\<lparr>en_queryLimiter := l\<rparr>) = (None, eng2)"
    and "QueryCache_Get (now' 0) (pn_queryCache (en_plan eng2)) (engine_cacheKey env req) = (None, qc)"
    and "planner_ready (planner_env_of env eng2) ((en_plan eng2)\<lparr>pn_queryCache := qc\<rparr>) req"
    and "compileRegex (ee_Compile env) (q_TextRegex req) = Inr matcher"
    and "hot_matches (ee_uni env) (ee_MatchString env) req matcher e" and "q_Cursor req = []" and "q_Limit req = 0"
  shows "\<exists>res. fst (Engine_Query env now' eng1 req) = Inr res \<and> eventIdentity e \<in> eventIdentity ` set (r_Events res)"
proof -
  obtain es where es: "list_all wf_event (es @ [e])" "en_index eng1 = index_all (es @ [e])"
    using acknowledged_indexed [OF iso assms(2-4)] by blast
  have i2: "en_index eng2 = index_all (es @ [e])" using refreshSegments_keeps [OF assms(7)] es(2) by (simp add: keeps_def)
  let ?env = "planner_env_of env eng2" and ?p = "(en_plan eng2)\<lparr>pn_queryCache := qc\<rparr>"
  have c: "CursorOffset req = Inr 0" using assms(12) by (simp add: CursorOffset_def)
  have m: "compileRegex (pe_Compile ?env) (q_TextRegex req) = Inr matcher" using assms(10) by (simp add: planner_env_of_def)
  obtain res p' where x: "execute_uncached ?env (now' 1) ?p req = (Inr res, p')"
      "(r_Events res, r_NextCursor res) = page 0 (q_Limit req) (planner_answer ?env ?p req)"
    using execute_page [OF assms(9) c, of "now' 1"] by blast
  then have r: "r_Events res = planner_answer ?env ?p req" using assms(13) by (simp add: page_drop_take Let_def)
  have "e \<in> set (hot_events ?env req)"
    by (rule hot_events_indexed [OF es(1) _ assms(11) _ _ assms(10)])
      (use assms(9,13) in \<open>simp_all add: planner_env_of_def i2 planner_ready_def\<close>)
  then have "eventIdentity e \<in> eventIdentity ` set (planner_answer ?env ?p req)"
    using planner_answer_spec [OF assms(9) m] by auto
  moreover have "Planner_Execute ?env (now' 0) (now' 1) (en_plan eng2) req = (Inr res, p')"
    using x(1) assms(8) by (simp add: Planner_Execute_def planner_env_of_def)
  then have "fst (Engine_Query env now' eng1 req) = Inr res"
    using assms(5-7) by (simp add: Engine_Query_def executeQuery_def)
  ultimately show ?thesis using r by auto
qed

section \<open>Which chunks a refresh leaves\<close>

definition manifest_refs :: "('re, 'o) engine_env \<Rightarrow> 'o \<Rightarrow> manifest \<Rightarrow> metadata chunk_reference list" where
  "manifest_refs env objects r =
     (case (if mr_Payload r = [] then map_sum id fst (oo_Get (ee_ops env) objects (mr_Key r)) else Inr (mr_Payload r)) of
        Inl _ \<Rightarrow> [] | Inr data \<Rightarrow> (case ee_UnmarshalManifest env data of Inl _ \<Rightarrow> [] | Inr m \<Rightarrow> sm_Chunks m))"

lemma add_refs_exact:
  "add_refs refs s = (None, s') \<Longrightarrow> wf_store s \<Longrightarrow> wf_store s' \<and> all_chunks s' = all_chunks s \<union> chunk_of_ref ` set refs"
proof (induction refs arbitrary: s)
  case (Cons ref refs)
  then obtain seg t where t: "Segment_Add s (chunk_of_ref ref) = Inr (seg, t)" "add_refs refs t = (None, s')"
    by (auto split: sum.splits)
  then show ?case using Cons.IH [OF t(2)] wf_Segment_Add all_chunks_Add Cons.prems(2) by auto
qed simp

lemma load_records_exact:
  "load_records env objects rs s = (None, s') \<Longrightarrow> wf_store s \<Longrightarrow>
     wf_store s' \<and> all_chunks s' = all_chunks s \<union> (\<Union>r \<in> set rs. chunk_of_ref ` set (manifest_refs env objects r))"
proof (induction rs arbitrary: s)
  case (Cons r rs)
  obtain data m t where d: "(if mr_Payload r = [] then map_sum id fst (oo_Get (ee_ops env) objects (mr_Key r)) else Inr (mr_Payload r)) = Inr data"
      "ee_UnmarshalManifest env data = Inr m" and t: "add_refs (sm_Chunks m) s = (None, t)" "load_records env objects rs t = (None, s')"
    using Cons.prems(1) by (auto split: sum.splits prod.splits option.splits)
  have "manifest_refs env objects r = sm_Chunks m" using d by (simp add: manifest_refs_def)
  then show ?case using Cons.IH [OF t(2)] add_refs_exact [OF t(1) Cons.prems(2)] by auto
qed simp

text \<open>
  A refresh that sees a new set of manifests in the repository leaves exactly the chunks these manifests name. The
  in-memory repository is empty after a restart, so the first flush after it makes the next query forget
  every restored segment but the flushed one.
\<close>

theorem refresh_exact:
  assumes "refreshSegments env eng = (None, eng')" and "records = Manifest_List (en_manifests eng) ''segments/''" and "records \<noteq> []"
    and "manifestRevision records \<noteq> en_manifestRevision eng" and "wf_store (pn_segments (en_plan eng))"
  shows "all_chunks (pn_segments (en_plan eng')) = (\<Union>r \<in> set records. chunk_of_ref ` set (manifest_refs env (en_objects eng) r))"
proof -
  let ?s = "Segment_Clear (pn_segments (en_plan eng))"
  obtain err s' where l: "load_records env (en_objects eng) records ?s = (err, s')" by (metis surj_pair)
  have "refreshSegments env eng = (case loadSegmentsFromRecords env (eng\<lparr>en_plan := (en_plan eng)\<lparr>pn_segments := ?s\<rparr>\<rparr>) records of
          (Some err, eng) \<Rightarrow> (Some err, eng)
        | (None, eng) \<Rightarrow> (None, eng\<lparr>en_manifestRevision := manifestRevision records, en_plan := InvalidateAll (en_plan eng)\<rparr>))"
    using assms(4) unfolding assms(2) by (simp add: refreshSegments_def Let_def)
  moreover have "loadSegmentsFromRecords env (eng\<lparr>en_plan := (en_plan eng)\<lparr>pn_segments := ?s\<rparr>\<rparr>) records =
      (err, eng\<lparr>en_plan := (en_plan eng)\<lparr>pn_segments := s'\<rparr>\<rparr>)"
    using assms(3) l by (simp add: loadSegmentsFromRecords_def)
  ultimately have "err = None" "pn_segments (en_plan eng') = s'"
    using assms(1) by (auto simp: InvalidateAll_def split: option.splits)
  moreover have "all_chunks ?s = {}" by (simp add: all_chunks_def Segment_Clear_def Segment_List_def)
  ultimately show ?thesis using load_records_exact [of env "en_objects eng" records ?s s'] wf_Clear(1) [OF assms(5)] l by simp
qed

section \<open>Properties\<close>

text \<open>An engine with the default options, one client event, and a codec that carries this event.\<close>

definition client_event :: event where
  "client_event = zero_event\<lparr>Timestamp := 7, TenantID := ''t'', Body := ''hello'', StreamLabels := [(''service'', ''a'')]\<rparr>"

definition client_tenant :: tenant_config where
  "client_tenant = sample_tenant\<lparr>t_ReservedLabels := [], t_Pipelines := [\<lparr>pl_ID = ''raw'', pl_Description = [], pl_Stages = []\<rparr>]\<rparr>"

definition client_fs :: fsys where
  "client_fs = \<lparr>fs_files = [([''control'', ''tenants.json''], (''s'', 1))], fs_dirs = [[], [''control'']], fs_faults = []\<rparr>"

definition client_codec :: wal_codec where
  "client_codec = \<lparr>wc_marshalEvent = (\<lambda>_. Inr ''x''), wc_marshalRecord = (\<lambda>_. Inr ''x''),
     wc_unmarshalRecord = (\<lambda>_. Inr (''x'', client_event)), wc_sha = id\<rparr>"

definition client_env :: "(string, fsys) engine_env" where
  "client_env = \<lparr>ee_uni = id, ee_stages = sample_stage_env, ee_wal = client_codec, ee_tenants = \<lparr>sn_Marshal = (\<lambda>_. Inr ''s''), sn_Unmarshal = (\<lambda>_. Inr \<lparr>sn_Version = 1, sn_Tenants = [client_tenant]\<rparr>)\<rparr>,
     ee_ops = default_objects id (\<lambda>_. None) 0 0, ee_Encode = (\<lambda>_. Inr ''c''), ee_Decode = (\<lambda>_. Inl ErrNotExist),
     ee_MarshalManifest = (\<lambda>_. Inr ''m''), ee_UnmarshalManifest = (\<lambda>_. Inl ErrNotExist), ee_sha = id, ee_Compile = Inr,
     ee_MatchString = (\<lambda>re s. Contains s re), ee_MarshalRequest = (\<lambda>req. Inr (q_TenantID req))\<rparr>"

definition started :: "(string, string) gomap \<Rightarrow> fsys engine" where
  "started files = projr (NewWithOptions client_env io_ok 3 (files, client_fs, empty_fs []) default_options)"

definition client_query :: query_request where
  "client_query = sample_query\<lparr>q_TenantID := ''t'', q_Limit := 0\<rparr>"

lemma projr_eq: "\<not> isl r \<Longrightarrow> r = Inr (projr r)"
  by (cases r) simp_all

lemma started_ok: "NewWithOptions client_env io_ok 3 ([], client_fs, empty_fs []) default_options = Inr (started [])"
  unfolding started_def by (rule projr_eq) code_simp

lemma client_tenants:
  "fst (NewPersistentStore (ee_tenants client_env) 3 client_fs [''control'', ''tenants.json'']) =
     Inr \<lparr>ts_tenants = [(''t'', client_tenant)], ts_version = 1, ts_snapshotPath = [''control'', ''tenants.json''], ts_modTime = 1\<rparr>"
proof -
  have "TenantConfig_Validate client_tenant = None" by code_simp
  moreover have "t_ID client_tenant = ''t''" by (simp add: client_tenant_def sample_tenant_def)
  ultimately show ?thesis
    by (simp add: NewPersistentStore_def Reload_def os_ReadFile_def os_Stat_def next_fault_def client_fs_def NewStoreWithDefaults_def
        NewTenantStore_def touch_modTime_def client_env_def Let_def)
qed

lemma started_fields:
  "en_tenants (started []) = \<lparr>ts_tenants = [(''t'', client_tenant)], ts_version = 1, ts_snapshotPath = [''control'', ''tenants.json''], ts_modTime = 1\<rparr>"
  "en_plan (started []) = NewPlanner (NewStore hour) \<lparr>QueryCacheEntries = 256, QueryCacheTTL = 30 * second, ChunkCacheEntries = 512\<rparr>"
  "en_manifests (started []) = []" "en_manifestRevision (started []) = []" "en_queryLimiter (started []) = NewConcurrencyLimiter"
  "en_builders (started []) = []" "en_options (started []) = default_options" "en_parser (started []) = NewProcessor"
  "en_pipelines (started []) = [(''default'', \<lparr>pl_ID = ''default'', pl_Description = ''Parse JSON and logfmt payloads where possible.'', pl_Stages = default_stages default_options\<rparr>)]"
proof -
  obtain w where "Wal_OpenWithOptions io_ok [] ''events.log'' \<lparr>MaxSegmentBytes = WALMaxSegmentBytes default_options, wo_SyncMode = WALSyncMode default_options\<rparr> = Inr w"
    using wal_open_empty by blast
  moreover have "with_defaults default_options = default_options" by (simp add: with_defaults_def default_options_def time_units)
  ultimately show "en_tenants (started []) = \<lparr>ts_tenants = [(''t'', client_tenant)], ts_version = 1, ts_snapshotPath = [''control'', ''tenants.json''], ts_modTime = 1\<rparr>"
    "en_plan (started []) = NewPlanner (NewStore hour) \<lparr>QueryCacheEntries = 256, QueryCacheTTL = 30 * second, ChunkCacheEntries = 512\<rparr>"
    "en_manifests (started []) = []" "en_manifestRevision (started []) = []" "en_queryLimiter (started []) = NewConcurrencyLimiter"
    "en_builders (started []) = []" "en_options (started []) = default_options" "en_parser (started []) = NewProcessor"
    "en_pipelines (started []) = [(''default'', \<lparr>pl_ID = ''default'', pl_Description = ''Parse JSON and logfmt payloads where possible.'', pl_Stages = default_stages default_options\<rparr>)]"
    by (simp_all add: started_def NewWithOptions_def client_tenants Let_def NewMemoryRepository_def) (simp add: default_options_def)
qed

lemma client_wf: "wf_event client_event" "recordable (ee_wal client_env) client_event" "decodes_maps (ee_wal client_env)"
proof -
  show w: "wf_event client_event" by (simp add: client_event_def wf_event_def zero_event_def wf_map_def)
  then show "decodes_maps (ee_wal client_env)" by (simp add: decodes_maps_def client_env_def client_codec_def)
  show "recordable (ee_wal client_env) client_event"
    by (simp add: recordable_def decodable_def entry_of_def marshalRecord_def client_env_def client_codec_def newline_def max_scan_token_def)
qed

lemma client_process:
  "GetTenant (en_tenants (started [])) (TenantID client_event) = Inr client_tenant"
  "\<exists>stats. Process (ee_stages client_env) client_tenant client_event (pipelineForTenant (started []) client_tenant)
     (en_parser (started [])) = (Inr client_event, stats)"
  "ValidateWithLimits client_event (t_Limits client_tenant) = None"
  "mget (LogAttrs client_event) ''_pipeline_drop'' \<noteq> ''true''"
proof -
  show "GetTenant (en_tenants (started [])) (TenantID client_event) = Inr client_tenant"
    by (simp add: started_fields client_event_def GetTenant_def)
  have "Event_Validate client_event = None" by code_simp
  moreover have "applyPromotionPolicy client_event client_tenant = client_event"
    by (simp add: applyPromotionPolicy_def client_event_def client_tenant_def zero_event_def Let_def)
  ultimately show "\<exists>stats. Process (ee_stages client_env) client_tenant client_event (pipelineForTenant (started []) client_tenant)
     (en_parser (started [])) = (Inr client_event, stats)"
    using client_wf(1) by (simp add: Process_def pipelineForTenant_def client_tenant_def sample_tenant_def Let_def)
  show "ValidateWithLimits client_event (t_Limits client_tenant) = None" by code_simp
  show "mget (LogAttrs client_event) ''_pipeline_drop'' \<noteq> ''true''" by (simp add: client_event_def zero_event_def mget_def)
qed

lemma client_accepted: "accepted_event client_env (started []) client_event = [client_event]"
  using client_process by (auto simp: accepted_event_def)

lemma client_append:
  "\<exists>stats wal bs. Engine_Append client_env io_ok now (started []) client_event = (Inr (client_event, None),
     (started [])\<lparr>en_parser := stats, en_wal := wal, en_index := index_all [client_event], en_builders := bs\<rparr>)"
proof -
  obtain stats where p: "Process (ee_stages client_env) client_tenant client_event
      (pipelineForTenant (started []) client_tenant) (en_parser (started [])) = (Inr client_event, stats)"
    using client_process(2) by blast
  have h: "engine_holds client_env (started []) [[]]" by (rule NewWithOptions_fresh [OF started_ok])
  then obtain wal where w: "Wal_Append (ee_wal client_env) io_ok (en_wal (started [])) client_event = (None, wal)"
    using Append_holds [of "ee_wal client_env" "en_wal (started [])" "[[]]" client_event] client_wf(2) by (auto simp: engine_holds_def)
  have "builder_for (started []) (StreamKey client_event) = NewBuilderWithOptions (StreamKey client_event)
      \<lparr>MaxEvents = 1000, MaxBytes = 256 * 1024, MaxDuration = minute\<rparr>"
    by (simp add: builder_for_def started_fields default_options_def)
  moreover have "fst (Builder_Add id (NewBuilderWithOptions (StreamKey client_event)
      \<lparr>MaxEvents = 1000, MaxBytes = 256 * 1024, MaxDuration = minute\<rparr>) client_event) = (False, None)"
    by (simp add: Builder_Add_def NewBuilderWithOptions_def shouldFlush_def Let_def)
      (simp add: client_event_def zero_event_def estimateEventBytes_def sum_len_def IsZero_def time_sub_def time_units max_int64_def min_int64_def)
  ultimately obtain b where b: "Builder_Add id (builder_for (started []) (StreamKey client_event)) client_event = ((False, None), b)"
    by (metis prod.collapse)
  have bf: "builder_for ((started [])\<lparr>en_parser := x, en_wal := y, en_index := z\<rparr>) k = builder_for (started []) k" for x y z k
    by (simp add: builder_for_def split: option.split)
  have "en_index (started []) = NewMemoryIndex" using h by (simp add: engine_holds_def index_all_def)
  moreover have "ee_uni client_env = id" by (simp add: client_env_def)
  ultimately have "Engine_Append client_env io_ok now (started []) client_event = (Inr (client_event, None),
     (started [])\<lparr>en_parser := stats, en_wal := wal, en_index := index_all [client_event],
       en_builders := AList.update (StreamKey client_event) b (en_builders (started []))\<rparr>)"
    using client_process p w b by (simp add: Engine_Append_def Let_def bf index_all_def)
  then show ?thesis by blast
qed

text \<open>The engine after the client's append.\<close>

definition client_engine :: "fsys engine" where
  "client_engine = snd (Engine_Append client_env io_ok (\<lambda>_. 9) (started []) client_event)"

lemma client_engine_fields:
  "Engine_Append client_env io_ok (\<lambda>_. 9) (started []) client_event = (Inr (client_event, None), client_engine)"
  "en_tenants client_engine = en_tenants (started [])" "en_plan client_engine = en_plan (started [])"
  "en_queryLimiter client_engine = NewConcurrencyLimiter" "en_index client_engine = index_all [client_event]"
  "refreshSegments client_env (client_engine\<lparr>en_queryLimiter := l\<rparr>) = (None, client_engine\<lparr>en_queryLimiter := l\<rparr>)"
  using client_append [of "\<lambda>_. 9"]
  by (auto simp: client_engine_def started_fields refreshSegments_def manifestRevision_def Manifest_List_def Let_def)

lemma client_ready:
  "planner_ready (planner_env_of client_env (client_engine\<lparr>en_queryLimiter := l\<rparr>)) ((en_plan client_engine)\<lparr>pn_queryCache := qc\<rparr>) client_query"
proof -
  have "snd (candidateChunks uni ((en_plan client_engine)\<lparr>pn_queryCache := qc\<rparr>) req) = []" for uni req
    by (simp add: client_engine_fields started_fields NewPlanner_def NewStore_def candidateChunks_def candidate_loop_eq Segment_List_def)
  moreover have "cache_coherent penv (pn_chunkCache (en_plan client_engine))" for penv :: "string planner_env"
    by (simp add: client_engine_fields started_fields NewPlanner_def cache_coherent_def)
      (simp add: chunk_content_def NewChunkCache_def lru_content_def)
  moreover have "Query_Validate client_query = None" by (simp add: client_query_def sample_query_def Query_Validate_def IsZero_def)
  moreover have "\<exists>r. MemoryIndex_Execute id Inr (\<lambda>re s. Contains s re) (index_all [client_event]) (client_query\<lparr>q_Limit := 0, q_Cursor := []\<rparr>) = Inr r \<and>
      list_all wf_event (r_Events r)"
  proof -
    let ?q = "client_query\<lparr>q_Limit := 0, q_Cursor := []\<rparr>"
    have "Query_Validate ?q = None" "CursorOffset ?q = Inr 0" "compileRegex Inr (q_TextRegex ?q) = Inr (None :: string option)"
      by (simp_all add: client_query_def sample_query_def Query_Validate_def CursorOffset_def compileRegex_def IsZero_def)
    from Execute_scan [OF _ this, of "index_all [client_event]" id "\<lambda>re s. Contains s re"] show ?thesis
      using index_all_wf [of "[client_event]"] client_wf(1) by (auto simp: page_drop_take)
  qed
  ultimately show ?thesis
    by (simp add: planner_ready_def planner_env_of_def client_env_def client_engine_fields)
      (simp add: compileRegex_def client_query_def sample_query_def)
qed

lemma client_answer:
  "\<exists>tenant permit l qc. GetTenant (en_tenants client_engine) (q_TenantID client_query) = Inr tenant \<and>
     TryAcquire (en_queryLimiter client_engine) (t_ID tenant) (QueryConcurrency (t_Limits tenant)) = (Inr permit, l) \<and>
     QueryCache_Get 9 (pn_queryCache (en_plan client_engine)) (engine_cacheKey client_env client_query) = (None, qc)"
proof -
  have "GetTenant (en_tenants client_engine) (q_TenantID client_query) = Inr client_tenant"
    using client_process(1) by (simp add: client_engine_fields client_query_def client_event_def)
  moreover have "\<exists>permit l. TryAcquire NewConcurrencyLimiter (t_ID client_tenant) (QueryConcurrency (t_Limits client_tenant)) = (Inr permit, l)"
    by (simp add: TryAcquire_def TryAcquire_lookup_def TryAcquire_send_def NewConcurrencyLimiter_def client_tenant_def sample_tenant_def sample_limits_def gate_cap_def Let_def)
  moreover have "\<exists>qc. QueryCache_Get 9 (pn_queryCache (en_plan client_engine)) k = (None, qc)" for k
    by (simp add: client_engine_fields started_fields NewPlanner_def NewQueryCache_def QueryCache_Get_def)
  ultimately show ?thesis by (metis client_engine_fields(4))
qed

lemma client_matches: "hot_matches id (\<lambda>re s. Contains s re) client_query None client_event"
  by (simp add: hot_matches_def client_query_def client_event_def sample_query_def text_match_def zero_event_def)

lemma client_query_ok:
  "\<exists>res. fst (Engine_Query client_env (\<lambda>_. 9) client_engine client_query) = Inr res"
proof -
  obtain tenant permit l qc where q: "GetTenant (en_tenants client_engine) (q_TenantID client_query) = Inr tenant"
     "TryAcquire (en_queryLimiter client_engine) (t_ID tenant) (QueryConcurrency (t_Limits tenant)) = (Inr permit, l)"
     "QueryCache_Get 9 (pn_queryCache (en_plan client_engine)) (engine_cacheKey client_env client_query) = (None, qc)"
    using client_answer by blast
  have "CursorOffset client_query = Inr 0" by (simp add: CursorOffset_def client_query_def sample_query_def)
  from execute_page [OF client_ready [of l qc] this, of 9] show ?thesis
    using q by (auto simp: Engine_Query_def executeQuery_def client_engine_fields(6) Planner_Execute_def planner_env_of_def)
qed

text \<open>
  C1. The engine loses no acknowledged event when the log can carry what it accepts: take any sequence of appends and
  queries from an empty log in which the calls of the log's files succeed, and in which the codec carries every event
  given to the log (its record is one line that decodes to it), every record is shorter than the 64 KiB the replay's
  scanner reads, and there are fewer than 1000000 of them. Then the log
  and the index hold the same events in the same order, which contain in order every event an append acknowledged;
  and an engine started later on the files of this log holds exactly these events again after its
  \<open>Replay\<close>, whatever its options, its tenants and its objects are, even when \<open>Replay\<close> fails on the objects.
\<close>

theorem engine_durable:
  assumes "NewWithOptions env io_ok t ([], fs, objects) opts = Inr eng0" and "list_all op_event_ok ops"
    and "list_all (decodable (ee_wal env)) (accepted env eng0 ops)"
    and "list_all (\<lambda>e. length (entry_of (ee_wal env) e) < max_scan_token) (accepted env eng0 ops)"
    and "length (accepted env eng0 ops) < 1000000"
    and "eng = foldl (engine_step env) eng0 ops"
    and "NewWithOptions env io_ok t' (w_files (en_wal eng), fs', objects') opts' = Inr eng1"
  shows "subseq (acknowledged env eng0 ops) (accepted env eng0 ops) \<and>
     Wal_Replay (ee_wal env) (en_wal eng) = Inr (accepted env eng0 ops) \<and> en_index eng = index_all (accepted env eng0 ops) \<and>
     en_index (snd (Engine_Replay env eng1)) = index_all (accepted env eng0 ops) \<and>
     Wal_Replay (ee_wal env) (en_wal (snd (Engine_Replay env eng1))) = Inr (accepted env eng0 ops) \<and>
     (\<forall>es. fst (Engine_Replay env eng1) = Inr es \<longrightarrow> es = accepted env eng0 ops)"
proof -
  obtain groups where g: "engine_holds env eng groups" "concat groups = accepted env eng0 ops"
      "subseq (acknowledged env eng0 ops) (accepted env eng0 ops)"
    using engine_run_holds [OF NewWithOptions_fresh [OF assms(1)] assms(2)] recordable_all [of "ee_wal env" "accepted env eng0 ops"] assms(3-6) by auto
  have r: "engine_holds env (snd (Engine_Replay env eng1)) groups" "\<forall>es. fst (Engine_Replay env eng1) = Inr es \<longrightarrow> es = concat groups"
    using Engine_Replay_index [of env eng1 groups] NewWithOptions_reopened [OF g(1) assms(7)] g(1) by (auto simp: engine_holds_def)
  show ?thesis using g r wal_holds_replay by (auto simp: engine_holds_def)
qed

theorem engine_durable_witness:
  "\<exists>eng1. NewWithOptions client_env io_ok 3 (w_files (en_wal client_engine), client_fs, empty_fs []) default_options = Inr eng1 \<and>
     en_index (snd (Engine_Replay client_env eng1)) = index_all [client_event]"
proof -
  let ?ops = "[OpAppend (\<lambda>_. 9) client_event]"
  have a: "accepted client_env (started []) ?ops = [client_event]" by (simp add: client_accepted)
  have r: "client_engine = foldl (engine_step client_env) (started []) ?ops" by (simp add: client_engine_def)
  obtain groups where "engine_holds client_env client_engine groups"
    using engine_run_holds [OF NewWithOptions_fresh [OF started_ok], of ?ops] client_wf unfolding a r by auto
  then obtain eng1 where n: "NewWithOptions client_env io_ok 3 (w_files (en_wal client_engine), client_fs, empty_fs []) default_options = Inr eng1"
    using NewWithOptions_reopens [of client_env client_engine groups 3 client_fs] client_tenants by blast
  show ?thesis using engine_durable [OF started_ok _ _ _ _ r n] client_wf n unfolding a by (simp add: recordable_def)
qed

text \<open>
  C2. A query never shows the events of another tenant, as long as the cache keys of the requests asked are good: in every
  state an engine can reach, from whatever files, through appends, replays and their failures, and through queries and
  tails of the requests of a predicate \<open>asked\<close>, the events an asked query or tail returns, from chunks, from
  the index or from the cache, are events of the tenant it names. Good keys mean: \<open>json.Marshal\<close> encodes every
  asked request (its times lie in the years 0 to 9999), the tenant can be decoded from the encoding (it is valid UTF-8),
  and no two encodings of asked requests collide under SHA-256. (\<open>requestCacheKey\<close> ignores the error of
  \<open>json.Marshal\<close>; for requests it refuses the property fails, \<open>unencodable_requests_share_answers\<close>.)
\<close>

theorem query_tenant_isolation:
  assumes "ereach env asked eng" and "decodes_maps (ee_wal env)"
    and "\<And>req. asked req \<Longrightarrow> \<exists>payload. ee_MarshalRequest env req = Inr payload \<and> decode payload = q_TenantID req"
    and "inj_on (ee_sha env) (encodings env asked)"
  shows "(asked req \<longrightarrow> fst (Engine_Query env now eng req) = Inr res \<longrightarrow> list_all (\<lambda>e. TenantID e = q_TenantID req) (r_Events res)) \<and>
     (asked (tail_query now treq) \<longrightarrow> fst (Engine_Tail env now eng treq) = Inr res \<longrightarrow> list_all (\<lambda>e. TenantID e = tail_TenantID treq) (r_Events res))"
proof -
  have sep: "separates asked (engine_cacheKey env)" by (rule cacheKey_separates [OF assms(3,4)])
  note iso = ereach_isolated [OF assms(1) sep assms(2)]
  show ?thesis
    using Engine_Query_isolated(2) [OF iso sep _ prod.collapse [symmetric]] Engine_Tail_isolated(2) [OF iso sep _ prod.collapse [symmetric]]
    unfolding of_tenant_def by blast
qed

lemma client_keys:
  "\<exists>payload. ee_MarshalRequest client_env req = Inr payload \<and> id payload = q_TenantID req" "inj_on (ee_sha client_env) S"
  by (simp_all add: client_env_def)

lemma client_reached: "ereach client_env asked client_engine"
  unfolding client_engine_def by (rule ereach.append [OF ereach.start [OF started_ok] client_wf(1)])

theorem query_tenant_isolation_witness:
  "\<exists>res. fst (Engine_Query client_env (\<lambda>_. 9) client_engine client_query) = Inr res \<and>
     list_all (\<lambda>e. TenantID e = ''t'') (r_Events res)"
proof -
  obtain res where "fst (Engine_Query client_env (\<lambda>_. 9) client_engine client_query) = Inr res" using client_query_ok by blast
  then show ?thesis
    using query_tenant_isolation [OF client_reached client_wf(3) client_keys, of "\<lambda>_. True" client_query "\<lambda>_. 9" res]
    by (auto simp: client_query_def)
qed

text \<open>
  C3. A client reads its own writes: in every state an engine can reach (whatever queries were asked and whatever the
  calls of the log return), when an append acknowledged an event that was not dropped, a query that is admitted
  (its tenant is known and has a permit left), whose segments can be refreshed, whose answer is not in the query cache,
  whose candidate chunks can be loaded, and that asks for the event by tenant, labels, fields, text and time, from the
  start and without a limit, returns an event with its identity.
\<close>

theorem acknowledged_visible:
  assumes "ereach env asked eng" and "decodes_maps (ee_wal env)" and "wf_event event"
    and "Engine_Append env io now eng event = (Inr (e, c), eng1)" and "e \<noteq> zero_event"
    and "GetTenant (en_tenants eng1) (q_TenantID req) = Inr tenant"
    and "TryAcquire (en_queryLimiter eng1) (t_ID tenant) (QueryConcurrency (t_Limits tenant)) = (Inr permit, l)"
    and "refreshSegments env (eng1\<lparr>en_queryLimiter := l\<rparr>) = (None, eng2)"
    and "QueryCache_Get (now' 0) (pn_queryCache (en_plan eng2)) (engine_cacheKey env req) = (None, qc)"
    and "planner_ready (planner_env_of env eng2) ((en_plan eng2)\<lparr>pn_queryCache := qc\<rparr>) req"
    and "compileRegex (ee_Compile env) (q_TextRegex req) = Inr matcher"
    and "hot_matches (ee_uni env) (ee_MatchString env) req matcher e" and "q_Cursor req = []" and "q_Limit req = 0"
  shows "\<exists>res. fst (Engine_Query env now' eng1 req) = Inr res \<and> eventIdentity e \<in> eventIdentity ` set (r_Events res)"
  by (rule query_after_append [where now' = now', OF ereach_indexed [OF assms(1,2)] assms(3-14)])

theorem acknowledged_visible_witness:
  "\<exists>res. fst (Engine_Query client_env (\<lambda>_. 9) client_engine client_query) = Inr res \<and>
     eventIdentity client_event \<in> eventIdentity ` set (r_Events res)"
proof -
  obtain tenant permit l qc where q: "GetTenant (en_tenants client_engine) (q_TenantID client_query) = Inr tenant"
     "TryAcquire (en_queryLimiter client_engine) (t_ID tenant) (QueryConcurrency (t_Limits tenant)) = (Inr permit, l)"
     "QueryCache_Get 9 (pn_queryCache (en_plan client_engine)) (engine_cacheKey client_env client_query) = (None, qc)"
    using client_answer by blast
  show ?thesis
    by (rule acknowledged_visible [OF ereach.start [OF started_ok] client_wf(3,1) client_engine_fields(1) _ q(1,2) client_engine_fields(6),
        where now' = "\<lambda>_. 9" and qc = qc and matcher = None])
      (use q client_ready client_matches in \<open>simp_all add: client_env_def\<close>,
       simp_all add: client_query_def sample_query_def compileRegex_def client_event_def zero_event_def)
qed

end
