(* ===== verification/Service_Http.thy ===== *)
theory Service_Http
  imports Go_Time
begin

text \<open>
  Package \<open>internal/platform/servicehttp\<close> and what the services use of \<open>net/http\<close>: requests, responses and
  the routes every service has. The body of a response is the value the handler encodes; a handler that only
  writes a status has the body \<open>None\<close>.
\<close>

section \<open>Requests and responses\<close>

record http_request =
  h_Method :: string
  h_Path :: string
  h_Query :: strmap
  h_Header :: "(string, string list) gomap"
  h_Body :: string

record 'b http_response =
  h_Status :: nat
  h_Reply :: strmap
  h_Payload :: "'b option"

text \<open>\<open>Header.Values\<close> and \<open>Header.Get\<close>; the names of the headers are in canonical form.\<close>

definition Header_Values :: "http_request \<Rightarrow> string \<Rightarrow> string list" where
  "Header_Values r name = (case map_of (h_Header r) name of None \<Rightarrow> [] | Some vs \<Rightarrow> vs)"

definition Header_Get :: "http_request \<Rightarrow> string \<Rightarrow> string" where
  "Header_Get r name = (case Header_Values r name of [] \<Rightarrow> [] | v # _ \<Rightarrow> v)"

definition WriteHeader :: "nat \<Rightarrow> 'b http_response" where
  "WriteHeader code = \<lparr>h_Status = code, h_Reply = [], h_Payload = None\<rparr>"

text \<open>\<open>http.NotFound\<close>, whose body is plain text.\<close>

definition NotFound :: "'b http_response" where
  "NotFound = \<lparr>h_Status = 404, h_Reply = [(''Content-Type'', ''text/plain; charset=utf-8''), (''X-Content-Type-Options'', ''nosniff'')], h_Payload = None\<rparr>"

definition WriteJSON :: "nat \<Rightarrow> 'b \<Rightarrow> 'b http_response" where
  "WriteJSON code payload = \<lparr>h_Status = code, h_Reply = [(''Content-Type'', ''application/json'')], h_Payload = Some payload\<rparr>"

section \<open>The routes of every service\<close>

record endpoint =
  ep_Method :: string
  ep_Path :: string
  ep_State :: string
  ep_Description :: string

record descriptor =
  ds_Name :: string
  ds_Role :: string
  ds_Version :: string
  ds_Deployment :: "string list"
  ds_Dependencies :: "string list"
  ds_Endpoints :: "endpoint list"

datatype base_reply =
    Healthz string string
  | Readyz string bool time
  | Info descriptor
  | Stub string string string string

text \<open>\<open>None\<close> is a path no route of the multiplexer matches.\<close>

definition RegisterBaseRoutes :: "descriptor \<Rightarrow> time \<Rightarrow> http_request \<Rightarrow> base_reply http_response option" where
  "RegisterBaseRoutes desc now r =
     (if h_Path r = ''/healthz'' then Some (WriteJSON 200 (Healthz (ds_Name desc) ''ok''))
      else if h_Path r = ''/readyz'' then Some (WriteJSON 200 (Readyz (ds_Name desc) True now))
      else if h_Path r = ''/info'' then Some (WriteJSON 200 (Info desc))
      else None)"

text \<open>
  The handler of a service without an implementation: every endpoint of its descriptor answers 501. Registering
  a path twice panics, which is \<open>None\<close>.
\<close>

definition NewHandler :: "descriptor \<Rightarrow> (time \<Rightarrow> http_request \<Rightarrow> base_reply http_response) option" where
  "NewHandler desc =
     (if \<not> distinct ([''/healthz'', ''/readyz'', ''/info''] @ map ep_Path (ds_Endpoints desc)) then None
      else Some (\<lambda>now r. case RegisterBaseRoutes desc now r of Some res \<Rightarrow> res | None \<Rightarrow>
        case find (\<lambda>ep. ep_Path ep = h_Path r) (ds_Endpoints desc) of
          None \<Rightarrow> NotFound
        | Some ep \<Rightarrow> if h_Method r \<noteq> ep_Method ep then WriteHeader 405
            else WriteJSON 501 (Stub (ds_Name desc) (ep_Path ep) (ep_State ep) (ep_Description ep))))"

text \<open>The reply of a shared route inside the reply type of a service.\<close>

definition lift_reply :: "('a \<Rightarrow> 'b) \<Rightarrow> 'a http_response \<Rightarrow> 'b http_response" where
  "lift_reply f res = \<lparr>h_Status = h_Status res, h_Reply = h_Reply res, h_Payload = map_option f (h_Payload res)\<rparr>"

lemma reply_simps [simp]:
  "h_Status (WriteHeader c) = c" "h_Status (WriteJSON c x) = c" "h_Status (lift_reply f res) = h_Status res"
  "h_Payload (WriteHeader c) = None" "h_Payload (WriteJSON c x) = Some x"
  "h_Status NotFound = 404" "h_Payload NotFound = None"
  by (simp_all add: WriteHeader_def WriteJSON_def lift_reply_def NotFound_def)

end
