(* ===== verification/Go_Format.thy ===== *)
theory Go_Format
  imports Go_Time
begin

text \<open>
  Printing of durations: \<open>Duration.String\<close>.
\<close>

section \<open>Durations\<close>

definition frac_digits :: "nat \<Rightarrow> nat \<Rightarrow> string" where
  "frac_digits n v = (let s = rev (dropWhile (\<lambda>c. c = CHR ''0'') (rev (pad n v))) in if s = [] then [] else CHR ''.'' # s)"

definition Duration_String :: "duration \<Rightarrow> string" where
  "Duration_String d =
     (if d = 0 then ''0s'' else
      let u = nat \<bar>d\<bar>;
          body = (if u < 1000 then show_nat u @ ''ns''
            else if u < 1000000 then show_nat (u div 1000) @ frac_digits 3 (u mod 1000) @ [CHR 0xC2, CHR 0xB5] @ ''s''
            else if u < 1000000000 then show_nat (u div 1000000) @ frac_digits 6 (u mod 1000000) @ ''ms''
            else let secs = u div 1000000000; h = secs div 3600; m = secs div 60 mod 60 in
              (if 0 < h then show_nat h @ ''h'' else []) @ (if 0 < secs div 60 then show_nat m @ ''m'' else []) @
              show_nat (secs mod 60) @ frac_digits 9 (u mod 1000000000) @ ''s'')
      in if d < 0 then CHR ''-'' # body else body)"

end
