(* ===== verification/Compactor.thy ===== *)
theory Compactor
  imports Engine Service_Http Go_Format
begin

text \<open>
  Package \<open>internal/services/compactor\<close>: the retention run that deletes expired segment manifests, their chunk
  objects and their records, and writes a delete manifest for each. The metadata of a chunk
  reference is any JSON value here, the type variable \<open>'m\<close>. A repository that is nil is \<open>None\<close>. \<open>now i j\<close> is the
  \<open>j\<close>th clock reading while \<open>i\<close> records are left.
\<close>

section \<open>Data\<close>

record 'm delete_document =
  dd_TenantID :: string
  dd_RetentionClass :: string
  dd_ManifestKey :: string
  dd_Chunks :: "'m chunk_reference list"
  dd_DeletedAt :: time
  dd_Reason :: string

record compact_request =
  cq_TenantID :: string
  cq_DryRun :: bool
  cq_PartitionKey :: string
  cq_DeleteOnlyOld :: bool

record tenant_summary =
  cs_TenantID :: string
  cs_RetentionClass :: string
  cs_RetentionPeriod :: string
  cs_Scanned :: nat
  cs_Deleted :: nat

record compact_response =
  ScannedManifests :: nat
  DeletedManifests :: nat
  DeletedChunks :: nat
  DeleteManifests :: nat
  cp_DryRun :: bool
  ByTenant :: "tenant_summary list"

record run_metrics =
  rm_FinishedAt :: time
  rm_Duration :: duration
  rm_Response :: compact_response

record 'o compactor =
  cp_tenants :: tenant_store
  cp_manifests :: "memory_repository option"
  cp_objects :: 'o
  cp_dataDir :: string
  cp_lastRun :: run_metrics

record ('m, 'o) compactor_env =
  ce_ops :: "'o object_ops"
  ce_UnmarshalManifest :: "string \<Rightarrow> 'm segment_manifest result"
  ce_MarshalDelete :: "'m delete_document \<Rightarrow> string result"
  ce_sha :: "string \<Rightarrow> string"

definition zero_response :: compact_response where
  "zero_response = \<lparr>ScannedManifests = 0, DeletedManifests = 0, DeletedChunks = 0, DeleteManifests = 0, cp_DryRun = False, ByTenant = []\<rparr>"

definition zero_metrics :: run_metrics where
  "zero_metrics = \<lparr>rm_FinishedAt = 0, rm_Duration = 0, rm_Response = zero_response\<rparr>"

definition Compactor_NewServerWithDeps :: "time \<Rightarrow> tenant_store option \<Rightarrow> memory_repository option \<Rightarrow> 'o \<Rightarrow> 'o compactor" where
  "Compactor_NewServerWithDeps now tenants repo objects =
     \<lparr>cp_tenants = (case tenants of None \<Rightarrow> NewStoreWithDefaults now | Some t \<Rightarrow> t),
      cp_manifests = (case repo of None \<Rightarrow> Some NewMemoryRepository | Some r \<Rightarrow> Some r),
      cp_objects = objects, cp_dataDir = ''.data'', cp_lastRun = zero_metrics\<rparr>"

section \<open>Formatting\<close>

text \<open>\<open>%016x\<close> of an unsigned 64-bit word, and \<open>Duration.String\<close>.\<close>

definition hex_digit :: "nat \<Rightarrow> char" where
  "hex_digit n = ''0123456789abcdef'' ! n"

definition hex16 :: "u64 \<Rightarrow> string" where
  "hex16 w = map (\<lambda>i. hex_digit (unat (drop_bit (4 * i) w AND 15))) (rev [0..<16])"

section \<open>Manifests\<close>

definition decodeManifest :: "('m, 'o) compactor_env \<Rightarrow> 'o \<Rightarrow> string \<Rightarrow> string \<Rightarrow> 'm segment_manifest result" where
  "decodeManifest env objects data key =
     (case (if data = [] then map_sum id fst (oo_Get (ce_ops env) objects key) else Inr data) of
        Inl err \<Rightarrow> Inl err | Inr data \<Rightarrow> ce_UnmarshalManifest env data)"

definition tenantIDFromStreamKey :: "string \<Rightarrow> string" where
  "tenantIDFromStreamKey streamKey = (if streamKey = [] then [] else takeWhile (\<lambda>c. c \<noteq> CHR ''|'') streamKey)"

definition tenantIDFromManifest :: "'m segment_manifest \<Rightarrow> string" where
  "tenantIDFromManifest manifest =
     (case find (\<lambda>ch. tenantIDFromStreamKey (cr_StreamKey ch) \<noteq> []) (sm_Chunks manifest) of
        Some ch \<Rightarrow> tenantIDFromStreamKey (cr_StreamKey ch) | None \<Rightarrow> ''default'')"

definition deleteManifestKey :: "time \<Rightarrow> string \<Rightarrow> string \<Rightarrow> string" where
  "deleteManifestKey now tenantID payload =
     ''deletes/'' @ tenantID @ ''/'' @ fmt_compact now @ ''-'' @ hex16 (fnv64a payload) @ ''.json''"

fun fetch_manifests :: "('m, 'o) compactor_env \<Rightarrow> 'o \<Rightarrow> obj_meta list \<Rightarrow> manifest list \<Rightarrow> manifest list result" where
  "fetch_manifests env objects [] records = Inr records"
| "fetch_manifests env objects (m # ms) records =
     (case oo_Get (ce_ops env) objects (om_Key m) of Inl err \<Rightarrow> Inl err
      | Inr (data, _) \<Rightarrow> fetch_manifests env objects ms (records @ [\<lparr>mr_Key = om_Key m, mr_PartitionKey = [], mr_Start = 0, mr_End = 0,
          mr_Checksum = [], mr_Payload = data, mr_CreatedAt = om_CreatedAt m\<rparr>]))"

definition manifestRecords :: "('m, 'o) compactor_env \<Rightarrow> 'o compactor \<Rightarrow> string \<Rightarrow> manifest list result" where
  "manifestRecords env s part =
     (case cp_manifests s of
        Some repo \<Rightarrow>
          let records = Manifest_List repo ''segments/'' in
          if part = [] then Inr records else Inr (filter (\<lambda>r. Contains (mr_PartitionKey r) part) records)
      | None \<Rightarrow> (case oo_List (ce_ops env) (cp_objects s) ''segments/'' of Inl err \<Rightarrow> Inl err
          | Inr metas \<Rightarrow> fetch_manifests env (cp_objects s) metas []))"

section \<open>Deleting one manifest\<close>

fun delete_chunks :: "('m, 'o) compactor_env \<Rightarrow> 'm chunk_reference list \<Rightarrow> 'o \<Rightarrow> goerror option \<times> 'o" where
  "delete_chunks env [] objects = (None, objects)"
| "delete_chunks env (ch # chs) objects = (case oo_Delete (ce_ops env) objects (cr_ObjectKey ch) of
     (Some err, objects) \<Rightarrow> (Some err, objects) | (None, objects) \<Rightarrow> delete_chunks env chs objects)"

text \<open>The calls on the repository, which do nothing when there is none.\<close>

definition record_deletion ::
  "('m, 'o) compactor_env \<Rightarrow> (nat \<Rightarrow> time) \<Rightarrow> memory_repository option \<Rightarrow> manifest \<Rightarrow> string \<Rightarrow> string \<Rightarrow> goerror option \<times> memory_repository option" where
  "record_deletion env now repo rcd key payload =
     (case repo of None \<Rightarrow> (None, None)
      | Some repo \<Rightarrow> (case Manifest_Put (ce_sha env) (now 6) repo \<lparr>mr_Key = key, mr_PartitionKey = [], mr_Start = mr_Start rcd,
            mr_End = mr_End rcd, mr_Checksum = Checksum (ce_sha env) payload, mr_Payload = payload, mr_CreatedAt = now 5\<rparr> of
          (Inl err, repo) \<Rightarrow> (Some err, Some repo)
        | (Inr _, repo) \<Rightarrow> (None, Some repo)))"

definition remove_record :: "memory_repository option \<Rightarrow> string \<Rightarrow> goerror option \<times> memory_repository option" where
  "remove_record repo key = (case repo of None \<Rightarrow> (None, None)
     | Some repo \<Rightarrow> (case Manifest_Delete repo key of (err, repo) \<Rightarrow> (err, Some repo)))"

definition deleteManifest ::
  "('m, 'o) compactor_env \<Rightarrow> (nat \<Rightarrow> time) \<Rightarrow> 'o compactor \<Rightarrow> string \<Rightarrow> manifest \<Rightarrow> 'm segment_manifest \<Rightarrow> tenant_config \<Rightarrow> bool result \<times> 'o compactor" where
  "deleteManifest env now s tenantID rcd manifest tenant =
     (let doc = \<lparr>dd_TenantID = tenantID, dd_RetentionClass = RetentionClass (t_Limits tenant), dd_ManifestKey = mr_Key rcd,
            dd_Chunks = sm_Chunks manifest, dd_DeletedAt = now 2, dd_Reason = ''retention_expired''\<rparr> in
      case ce_MarshalDelete env doc of Inl err \<Rightarrow> (Inl err, s) | Inr payload \<Rightarrow>
      let key = deleteManifestKey (now 3) tenantID payload in
      case oo_Put (ce_ops env) (now 4) (cp_objects s) key payload of
        (Inl err, objects) \<Rightarrow> (Inl err, s\<lparr>cp_objects := objects\<rparr>)
      | (Inr _, objects) \<Rightarrow>
      case record_deletion env now (cp_manifests s) rcd key payload of
        (Some err, repo) \<Rightarrow> (Inl err, s\<lparr>cp_objects := objects, cp_manifests := repo\<rparr>)
      | (None, repo) \<Rightarrow>
      case delete_chunks env (sm_Chunks manifest) objects of
        (Some err, objects) \<Rightarrow> (Inl err, s\<lparr>cp_objects := objects, cp_manifests := repo\<rparr>)
      | (None, objects) \<Rightarrow>
      case oo_Delete (ce_ops env) objects (mr_Key rcd) of
        (Some err, objects) \<Rightarrow> (Inl err, s\<lparr>cp_objects := objects, cp_manifests := repo\<rparr>)
      | (None, objects) \<Rightarrow>
      case remove_record repo (mr_Key rcd) of
        (Some err, repo) \<Rightarrow> (Inl err, s\<lparr>cp_objects := objects, cp_manifests := repo\<rparr>)
      | (None, repo) \<Rightarrow> (Inr True, s\<lparr>cp_objects := objects, cp_manifests := repo\<rparr>))"

section \<open>The run\<close>

type_synonym summaries = "(string, tenant_summary) gomap"

definition tenant_for :: "tenant_config list \<Rightarrow> time \<Rightarrow> string \<Rightarrow> tenant_config" where
  "tenant_for tenants now tenantID =
     (case map_of (rev (map (\<lambda>t. (t_ID t, t)) tenants)) tenantID of Some t \<Rightarrow> t
      | None \<Rightarrow> (DefaultTenantConfig now)\<lparr>t_ID := tenantID\<rparr>)"

definition on_hold :: "tenant_config \<Rightarrow> time \<Rightarrow> bool" where
  "on_hold tenant now \<longleftrightarrow> t_Protected tenant \<or> (\<not> IsZero (t_LegalHoldUntil tenant) \<and> now < t_LegalHoldUntil tenant)"

definition retained :: "tenant_config \<Rightarrow> time \<Rightarrow> manifest \<Rightarrow> bool" where
  "retained tenant now rcd \<longleftrightarrow> Retention (t_Limits tenant) \<le> 0 \<or> \<not> mr_End rcd < now - Retention (t_Limits tenant)"

definition summary_for :: "summaries \<Rightarrow> string \<Rightarrow> tenant_config \<Rightarrow> tenant_summary" where
  "summary_for sums tenantID tenant = (case map_of sums tenantID of Some x \<Rightarrow> x
     | None \<Rightarrow> \<lparr>cs_TenantID = tenantID, cs_RetentionClass = RetentionClass (t_Limits tenant),
         cs_RetentionPeriod = Duration_String (Retention (t_Limits tenant)), cs_Scanned = 0, cs_Deleted = 0\<rparr>)"

text \<open>The body of the loop over the records; \<open>continue\<close> returns the variables as they are.\<close>

definition compact_record ::
  "('m, 'o) compactor_env \<Rightarrow> (nat \<Rightarrow> time) \<Rightarrow> tenant_config list \<Rightarrow> compact_request \<Rightarrow> manifest \<Rightarrow> summaries \<Rightarrow> compact_response \<Rightarrow>
     'o compactor \<Rightarrow> (summaries \<times> compact_response) result \<times> 'o compactor" where
  "compact_record env now tenants req r sums resp s =
     (case decodeManifest env (cp_objects s) (mr_Payload r) (mr_Key r) of Inl err \<Rightarrow> (Inl err, s) | Inr manifest \<Rightarrow>
      let tenantID = tenantIDFromManifest manifest; tenant = tenant_for tenants (now 7) tenantID in
      if cq_TenantID req \<noteq> [] \<and> tenantID \<noteq> cq_TenantID req then (Inr (sums, resp), s)
      else if on_hold tenant (now 0) then (Inr (sums, resp), s) else
      let summary = summary_for sums tenantID tenant;
          summary = summary\<lparr>cs_Scanned := cs_Scanned summary + 1\<rparr>;
          sums = AList.update tenantID summary sums;
          resp = resp\<lparr>ScannedManifests := ScannedManifests resp + 1\<rparr> in
      if retained tenant (now 1) r then (Inr (sums, resp), s) else
      let sums = AList.update tenantID (summary\<lparr>cs_Deleted := cs_Deleted summary + 1\<rparr>) sums;
          resp = resp\<lparr>DeletedManifests := DeletedManifests resp + 1\<rparr> in
      if cq_DryRun req then (Inr (sums, resp), s) else
      case deleteManifest env now s tenantID r manifest tenant of
        (Inl err, s) \<Rightarrow> (Inl err, s)
      | (Inr deleted, s) \<Rightarrow>
          let resp = (if deleted then resp\<lparr>DeleteManifests := DeleteManifests resp + 1\<rparr> else resp)
          in (Inr (sums, resp\<lparr>DeletedChunks := DeletedChunks resp + length (sm_Chunks manifest)\<rparr>), s))"

fun compact_records ::
  "('m, 'o) compactor_env \<Rightarrow> (nat \<Rightarrow> nat \<Rightarrow> time) \<Rightarrow> tenant_config list \<Rightarrow> compact_request \<Rightarrow> manifest list \<Rightarrow> summaries \<Rightarrow> compact_response \<Rightarrow>
     'o compactor \<Rightarrow> (summaries \<times> compact_response) result \<times> 'o compactor" where
  "compact_records env now tenants req [] sums resp s = (Inr (sums, resp), s)"
| "compact_records env now tenants req (r # rs) sums resp s =
     (case compact_record env (now (length rs)) tenants req r sums resp s of
        (Inl err, s) \<Rightarrow> (Inl err, s)
      | (Inr (sums, resp), s) \<Rightarrow> compact_records env now tenants req rs sums resp s)"

text \<open>\<open>start\<close>, \<open>finish\<close> and \<open>finish2\<close> are the readings before and after the loop.\<close>

definition Compact ::
  "('m, 'o) compactor_env \<Rightarrow> time \<times> time \<times> time \<Rightarrow> (nat \<Rightarrow> nat \<Rightarrow> time) \<Rightarrow> 'o compactor \<Rightarrow> compact_request \<Rightarrow> compact_response result \<times> 'o compactor" where
  "Compact env clock now s req =
     (case clock of (start, finish, finish2) \<Rightarrow>
      let tenants = Tenant_List (cp_tenants s) in
      case manifestRecords env s (cq_PartitionKey req) of Inl err \<Rightarrow> (Inl err, s) | Inr records \<Rightarrow>
      case compact_records env now tenants req records [] (zero_response\<lparr>cp_DryRun := cq_DryRun req\<rparr>) s of
        (Inl err, s) \<Rightarrow> (Inl err, s)
      | (Inr (sums, resp), s) \<Rightarrow>
          let resp = resp\<lparr>ByTenant := sort_key cs_TenantID (map snd sums)\<rparr>
          in (Inr resp, s\<lparr>cp_lastRun := \<lparr>rm_FinishedAt = finish, rm_Duration = time_sub finish2 start, rm_Response = resp\<rparr>\<rparr>))"

section \<open>Handlers\<close>

datatype compact_reply =
    CompactError goerror
  | CompactDone compact_response
  | CompactStatus string bool

definition handleStatus :: "'o compactor \<Rightarrow> http_request \<Rightarrow> compact_reply http_response" where
  "handleStatus s r = (if h_Method r \<noteq> ''GET'' then WriteHeader 405 else WriteJSON 200 (CompactStatus (cp_dataDir s) True))"

definition handleCompact ::
  "('m, 'o) compactor_env \<Rightarrow> (string \<Rightarrow> compact_request result) \<Rightarrow> time \<times> time \<times> time \<Rightarrow> (nat \<Rightarrow> nat \<Rightarrow> time) \<Rightarrow> 'o compactor \<Rightarrow> http_request \<Rightarrow>
     compact_reply http_response \<times> 'o compactor" where
  "handleCompact env decode clock now s r =
     (if h_Method r \<noteq> ''POST'' then (WriteHeader 405, s) else
      case decode (h_Body r) of Inl err \<Rightarrow> (WriteJSON 400 (CompactError err), s) | Inr req \<Rightarrow>
      case Compact env clock now s req of
        (Inl err, s) \<Rightarrow> (WriteJSON 500 (CompactError err), s)
      | (Inr resp, s) \<Rightarrow> (WriteJSON 200 (CompactDone resp), s))"

section \<open>Which manifests a run deletes\<close>

text \<open>
  The retention policy, written down without the compactor's code. A manifest is judged by one tenant: the first of its
  chunks whose stream key has a tenant before the first bar names it, and \<open>default\<close> if none has. The tenant's configuration is the
  last one listed under its name; a tenant that is not listed is not held and keeps its data for seven days.
\<close>

definition owner :: "'m segment_manifest \<Rightarrow> string" where
  "owner m = hd (filter (\<lambda>i. i \<noteq> []) (map (\<lambda>ch. hd (split_char CHR ''|'' (cr_StreamKey ch))) (sm_Chunks m)) @ [''default''])"

definition held :: "tenant_config \<Rightarrow> time \<Rightarrow> bool" where
  "held t now \<longleftrightarrow> t_Protected t \<or> t_LegalHoldUntil t \<noteq> 0 \<and> t_LegalHoldUntil t > now"

text \<open>
  A record is due when nothing spares it: at \<open>t0\<close> its tenant is not held, at \<open>t1\<close> its end lies further back than a positive retention
  period, the request is for this tenant or for all, and it is not a dry run.
\<close>

definition due :: "tenant_config list \<Rightarrow> compact_request \<Rightarrow> time \<Rightarrow> time \<Rightarrow> manifest \<Rightarrow> 'm segment_manifest \<Rightarrow> bool" where
  "due tenants req t0 t1 r m \<longleftrightarrow> \<not> cq_DryRun req \<and> (cq_TenantID req = [] \<or> cq_TenantID req = owner m) \<and>
     (case filter (\<lambda>t. t_ID t = owner m) (rev tenants) of
        [] \<Rightarrow> mr_End r + 7 * 24 * hour < t1
      | t # _ \<Rightarrow> \<not> held t t0 \<and> 0 < Retention (t_Limits t) \<and> mr_End r + Retention (t_Limits t) < t1)"

lemma hd_split_char: "hd (split_char x w) = takeWhile (\<lambda>c. c \<noteq> x) w"
proof (induction w)
  case (Cons c w)
  then show ?case by (cases "split_char x w") simp_all
qed simp

lemma tenantIDFromManifest_owner: "tenantIDFromManifest m = owner m"
proof -
  have key: "tenantIDFromStreamKey k = hd (split_char CHR ''|'' k)" for k by (simp add: tenantIDFromStreamKey_def hd_split_char)
  have "(case find (\<lambda>ch. f ch \<noteq> []) cs of Some ch \<Rightarrow> f ch | None \<Rightarrow> d) = hd (filter (\<lambda>i. i \<noteq> []) (map f cs) @ [d])"
    for f :: "'m chunk_reference \<Rightarrow> string" and cs d
    by (induction cs) simp_all
  then show ?thesis unfolding tenantIDFromManifest_def owner_def key .
qed

lemma tenant_for_listed: "tenant_for tenants now i = hd (filter (\<lambda>t. t_ID t = i) (rev tenants) @ [(DefaultTenantConfig now)\<lparr>t_ID := i\<rparr>])"
proof -
  have "map_of (map (\<lambda>t. (t_ID t, t)) ts) i = (case filter (\<lambda>t. t_ID t = i) ts of [] \<Rightarrow> None | t # _ \<Rightarrow> Some t)" for ts
    by (induction ts) auto
  from this [of "rev tenants"] show ?thesis by (simp add: tenant_for_def rev_map split: list.split)
qed

text \<open>The guards of the loop decide exactly this policy.\<close>

lemma due_guards:
  "due tenants req t0 t1 r m \<longleftrightarrow> \<not> (cq_TenantID req \<noteq> [] \<and> tenantIDFromManifest m \<noteq> cq_TenantID req) \<and>
     \<not> on_hold (tenant_for tenants now (tenantIDFromManifest m)) t0 \<and> \<not> retained (tenant_for tenants now (tenantIDFromManifest m)) t1 r \<and> \<not> cq_DryRun req"
proof -
  have hold: "on_hold = held" by (simp add: fun_eq_iff on_hold_def held_def IsZero_def)
  have keep: "\<not> retained t now r \<longleftrightarrow> 0 < Retention (t_Limits t) \<and> mr_End r + Retention (t_Limits t) < now" for t now
    by (auto simp: retained_def)
  show ?thesis
    unfolding tenantIDFromManifest_owner tenant_for_listed hold keep due_def
    by (auto simp: held_def DefaultTenantConfig_def time_units split: list.splits)
qed

lemma due_mono:
  assumes "due tenants req a b r m" and "a \<le> T" and "b \<le> T"
  shows "due tenants req T T r m"
  using assms by (auto simp: due_def held_def split: list.splits)

lemma due_later: "due tenants req T T r m \<Longrightarrow> T \<le> a \<Longrightarrow> T \<le> b \<Longrightarrow> due tenants req a b r m"
  by (auto simp: due_def held_def split: list.splits)

text \<open>One turn: an undecodable manifest stops the run, a record that is not due leaves the stores alone.\<close>

lemma compact_record_cases:
  assumes "compact_record env now tenants req r sums resp s = (res, s')"
  obtains (error) err where "decodeManifest env (cp_objects s) (mr_Payload r) (mr_Key r) = Inl err" and "res = Inl err" and "s' = s"
  | (skip) m x where "decodeManifest env (cp_objects s) (mr_Payload r) (mr_Key r) = Inr m"
      and "\<not> due tenants req (now 0) (now 1) r m" and "res = Inr x" and "s' = s"
  | (delete) m tenant d where "decodeManifest env (cp_objects s) (mr_Payload r) (mr_Key r) = Inr m"
      and "due tenants req (now 0) (now 1) r m"
      and "deleteManifest env now s (tenantIDFromManifest m) r m tenant = (d, s')" and "isl d \<longleftrightarrow> isl res"
proof (cases "decodeManifest env (cp_objects s) (mr_Payload r) (mr_Key r)")
  case (Inl err)
  then show thesis using error assms by (simp add: compact_record_def)
next
  case dec: (Inr m)
  let ?i = "tenantIDFromManifest m"
  let ?tenant = "tenant_for tenants (now 7) ?i"
  have due: "due tenants req (now 0) (now 1) r m \<longleftrightarrow> \<not> (cq_TenantID req \<noteq> [] \<and> ?i \<noteq> cq_TenantID req) \<and> \<not> on_hold ?tenant (now 0) \<and>
      \<not> retained ?tenant (now 1) r \<and> \<not> cq_DryRun req"
    by (rule due_guards)
  show thesis
  proof (cases "due tenants req (now 0) (now 1) r m")
    case False
    then have "\<not> isl res \<and> s' = s"
      using assms unfolding due compact_record_def by (simp add: dec Let_def split: if_splits) auto
    then show thesis using skip dec False by (cases res) auto
  next
    case True
    obtain d t1 where d: "deleteManifest env now s ?i r m ?tenant = (d, t1)" by (metis surj_pair)
    then have "s' = t1 \<and> (isl d \<longleftrightarrow> isl res)"
      using assms True unfolding due compact_record_def by (cases d) (auto simp: dec Let_def split: if_splits)
    then show thesis using delete [OF dec True] d by blast
  qed
qed

text \<open>How far a deletion gets: the object store and the repository after it.\<close>

lemma deleteManifest_cases:
  assumes "deleteManifest env now s i r m tenant = (res, s')"
  obtains (none) "s' = s" and "isl res"
  | (put) t data x where "oo_Put (ce_ops env) t (cp_objects s) (deleteManifestKey (now 3) i data) data = (x, cp_objects s')" and "isl res"
      and "cp_manifests s' = cp_manifests s \<or> (\<exists>e. record_deletion env now (cp_manifests s) r (deleteManifestKey (now 3) i data) data = (e, cp_manifests s'))"
  | (chunks) t data x o1 y e where "oo_Put (ce_ops env) t (cp_objects s) (deleteManifestKey (now 3) i data) data = (x, o1)"
      and "delete_chunks env (sm_Chunks m) o1 = (y, cp_objects s')" and "isl res"
      and "record_deletion env now (cp_manifests s) r (deleteManifestKey (now 3) i data) data = (e, cp_manifests s')"
  | (own) t data x o1 y o2 z e repo where "oo_Put (ce_ops env) t (cp_objects s) (deleteManifestKey (now 3) i data) data = (x, o1)"
      and "delete_chunks env (sm_Chunks m) o1 = (y, o2)" and "oo_Delete (ce_ops env) o2 (mr_Key r) = (z, cp_objects s')"
      and "record_deletion env now (cp_manifests s) r (deleteManifestKey (now 3) i data) data = (e, repo)"
      and "isl res \<and> cp_manifests s' = repo \<or> (\<exists>e2. remove_record repo (mr_Key r) = (e2, cp_manifests s'))"
proof -
  let ?doc = "\<lparr>dd_TenantID = i, dd_RetentionClass = RetentionClass (t_Limits tenant), dd_ManifestKey = mr_Key r,
            dd_Chunks = sm_Chunks m, dd_DeletedAt = now 2, dd_Reason = ''retention_expired''\<rparr>"
  show thesis
  proof (cases "ce_MarshalDelete env ?doc")
    case (Inl err)
    then show thesis using assms none by (auto simp: deleteManifest_def)
  next
    case m: (Inr payload)
    let ?key = "deleteManifestKey (now 3) i payload"
    obtain x o1 where p: "oo_Put (ce_ops env) (now 4) (cp_objects s) ?key payload = (x, o1)" by (metis surj_pair)
    obtain e repo where rd: "record_deletion env now (cp_manifests s) r ?key payload = (e, repo)" by (metis surj_pair)
    obtain y o2 where dc: "delete_chunks env (sm_Chunks m) o1 = (y, o2)" by (metis surj_pair)
    obtain z o3 where d: "oo_Delete (ce_ops env) o2 (mr_Key r) = (z, o3)" by (metis surj_pair)
    obtain e2 repo2 where rr: "remove_record repo (mr_Key r) = (e2, repo2)" by (metis surj_pair)
    note run = assms [unfolded deleteManifest_def Let_def m sum.case p rd dc d rr prod.case]
    show thesis
    proof (cases "isl x \<or> e \<noteq> None")
      case True
      then have "cp_objects s' = o1 \<and> isl res \<and> (cp_manifests s' = cp_manifests s \<or> cp_manifests s' = repo)"
        using run by (cases x; cases e) auto
      then show thesis using put [of "now 4" payload x] p rd by blast
    next
      case False
      then have run2: "(case y of None \<Rightarrow> (case z of None \<Rightarrow> (case e2 of None \<Rightarrow> (Inr True, s\<lparr>cp_objects := o3, cp_manifests := repo2\<rparr>)
            | Some err \<Rightarrow> (Inl err, s\<lparr>cp_objects := o3, cp_manifests := repo2\<rparr>))
          | Some err \<Rightarrow> (Inl err, s\<lparr>cp_objects := o3, cp_manifests := repo\<rparr>)) | Some err \<Rightarrow> (Inl err, s\<lparr>cp_objects := o2, cp_manifests := repo\<rparr>)) = (res, s')"
        using run by (cases x; cases e) (auto simp: isl_def)
      show thesis
      proof (cases y)
        case (Some err)
        then have "cp_objects s' = o2" "cp_manifests s' = repo" "isl res" using run2 by auto
        then show thesis using chunks [OF p, of y e] dc rd by simp
      next
        case None
        then have "cp_objects s' = o3 \<and> (isl res \<and> cp_manifests s' = repo \<or> cp_manifests s' = repo2)"
          using run2 by (auto split: option.splits)
        then show thesis using own [OF p dc, of z e repo] d rd rr by auto
      qed
    qed
  qed
qed

section \<open>What a run leaves in the object store\<close>

text \<open>The contract of the object store, for its operations in one record.\<close>

locale stored_objects = object_store inv slot content chk "oo_Put ops" "\<lambda>s k. (oo_Get ops s k, s)" "oo_Delete ops"
  for inv :: "'o \<Rightarrow> bool" and slot :: "string \<Rightarrow> 'p option" and content :: "'o \<Rightarrow> 'p \<Rightarrow> string option" and chk and ops :: "'o object_ops"
begin

lemma delete_chunks_keeps:
  assumes "ce_ops env = ops" and "inv ob" and "content ob p = Some d" and "\<forall>ch \<in> set chs. slot (cr_ObjectKey ch) \<noteq> Some p"
    and "delete_chunks env chs ob = (r, ob')"
  shows "inv ob' \<and> content ob' p = Some d"
  using assms(2-5)
proof (induction chs arbitrary: ob)
  case Nil
  then show ?case by simp
next
  case (Cons ch chs)
  obtain e ob1 where e: "oo_Delete ops ob (cr_ObjectKey ch) = (e, ob1)" by (metis surj_pair)
  then have "inv ob1 \<and> content ob1 p = Some d"
    using del_inv [OF Cons.prems(1), of "cr_ObjectKey ch"] del_frame [OF Cons.prems(1), of "cr_ObjectKey ch" p] Cons.prems(2,3) by simp
  then show ?case using Cons e assms(1) by (cases e) auto
qed

lemma deleteManifest_keeps:
  assumes "ce_ops env = ops" and "inv (cp_objects s)" and "content (cp_objects s) p = Some d"
    and "\<forall>ch \<in> set (sm_Chunks m). slot (cr_ObjectKey ch) \<noteq> Some p" and "slot (mr_Key r) \<noteq> Some p"
    and "deleteManifest env now s i r m tenant = (res, s')"
  shows "inv (cp_objects s') \<and> content (cp_objects s') p = Some d"
proof -
  have put: "inv o1 \<and> content o1 p = Some d" if "oo_Put ops t (cp_objects s) key data = (x, o1)" for t key data x o1
    using put_inv [OF assms(2), of t key data] put_immutable [OF assms(2,3), of t key data] that by simp
  have del: "inv o2 \<and> content o2 p = Some d" if "inv o1 \<and> content o1 p = Some d" "oo_Delete ops o1 (mr_Key r) = (x, o2)" for o1 x o2
    using del_inv [of o1 "mr_Key r"] del_frame [of o1 "mr_Key r" p] that assms(5) by simp
  note chunks = delete_chunks_keeps [OF assms(1) _ _ assms(4)]
  from assms(6) show ?thesis
    by (cases rule: deleteManifest_cases) (use assms(1-3) put del chunks in \<open>metis\<close>)+
qed

lemma compact_records_keeps:
  assumes "ce_ops env = ops" and "inv (cp_objects s)" and "content (cp_objects s) p = Some d"
    and "\<forall>r \<in> set rs. mr_Payload r \<noteq> []" and "\<And>i j. now i j \<le> T"
    and "\<forall>r \<in> set rs. \<forall>m. ce_UnmarshalManifest env (mr_Payload r) = Inr m \<and> due tenants req T T r m \<longrightarrow>
       slot (mr_Key r) \<noteq> Some p \<and> (\<forall>ch \<in> set (sm_Chunks m). slot (cr_ObjectKey ch) \<noteq> Some p)"
    and "compact_records env now tenants req rs sums resp s = (res, s')"
  shows "inv (cp_objects s') \<and> content (cp_objects s') p = Some d"
  using assms(2-4,6,7)
proof (induction rs arbitrary: s sums resp)
  case Nil
  then show ?case by simp
next
  case (Cons r rs)
  have dec: "decodeManifest env (cp_objects s) (mr_Payload r) (mr_Key r) = ce_UnmarshalManifest env (mr_Payload r)"
    using Cons.prems(3) by (simp add: decodeManifest_def)
  obtain x s1 where x: "compact_record env (now (length rs)) tenants req r sums resp s = (x, s1)" by (metis surj_pair)
  then have k: "inv (cp_objects s1) \<and> content (cp_objects s1) p = Some d"
  proof (cases rule: compact_record_cases)
    case (delete m tenant e)
    have "due tenants req T T r m" using due_mono [OF delete(2)] assms(5) by blast
    then have "slot (mr_Key r) \<noteq> Some p \<and> (\<forall>ch \<in> set (sm_Chunks m). slot (cr_ObjectKey ch) \<noteq> Some p)"
      using Cons.prems(4) delete(1) dec by simp
    then show ?thesis using deleteManifest_keeps [OF assms(1) Cons.prems(1,2) _ _ delete(3)] by blast
  qed (use Cons.prems(1,2) in simp_all)
  show ?case
  proof (cases x)
    case (Inl err)
    then show ?thesis using x k Cons.prems(5) by simp
  next
    case (Inr y)
    then obtain sums' resp' where "compact_records env now tenants req rs sums' resp' s1 = (res, s')"
      using x Cons.prems(5) by (cases y) simp
    then show ?thesis using Cons.IH k Cons.prems(3,4) by auto
  qed
qed

end

text \<open>A store whose reads are taken without their effect on the store still meets the contract.\<close>

context object_store
begin

lemma reading: "object_store inv slot content chk put (\<lambda>s k. (fst (get s k), s)) del"
proof
  show "inv s \<Longrightarrow> slot k = Some p \<Longrightarrow> content s p = Some d \<Longrightarrow>
      \<exists>m. fst (fst (get s k), s) = Inr (d, m) \<and> om_Checksum m = chk d" for s k p d
    using get_hit by simp
  show "inv s \<Longrightarrow> fst (fst (get s k), s) = Inr (d, m) \<Longrightarrow> \<exists>p. slot k = Some p \<and> content s p = Some d" for s k d m
    using get_miss by simp
qed (use put_inv del_inv put_ok put_frame put_immutable put_conflict put_same del_ok del_frame in \<open>simp_all\<close>)

end

interpretation default_store: stored_objects no_faults file_slot file_content sha "default_objects sha sleep retries pause"
  for sha sleep retries pause
  unfolding stored_objects_def default_objects_def Let_def object_ops.simps
  by (rule retrying_store.reading)

section \<open>What a run leaves in the repository\<close>

lemma delete_key: "take 8 (deleteManifestKey t i d) = ''deletes/''"
  by (simp add: deleteManifestKey_def)

lemma Manifest_Put_fresh:
  assumes "mr_Key r \<noteq> []" and "map_of m (mr_Key r) = None"
  shows "\<exists>r' m'. Manifest_Put sha now m r = (Inr r', m')"
  using assms by (auto simp: Manifest_Put_def Let_def split: if_split)

lemma repository_put:
  assumes "Manifest_Put sha t repo r = (x, repo')" and "k \<noteq> mr_Key r"
  shows "map_of repo' k = map_of repo k"
  using assms by (cases rule: Manifest_Put_cases [of sha t repo r]) (auto simp: update_conv')

lemma record_deletion_repo:
  assumes "record_deletion env now (Some repo) r key data = (e, repo')" and "k \<noteq> key"
  shows "\<exists>repo1. repo' = Some repo1 \<and> map_of repo1 k = map_of repo k"
  using assms repository_put by (fastforce simp: record_deletion_def split: prod.splits sum.splits)

lemma record_deletion_fresh:
  assumes "key \<noteq> []" and "map_of repo key = None"
  shows "\<exists>repo'. record_deletion env now (Some repo) r key data = (None, repo')"
proof -
  obtain r' m' where "Manifest_Put (ce_sha env) (now 6) repo \<lparr>mr_Key = key, mr_PartitionKey = [], mr_Start = mr_Start r,
            mr_End = mr_End r, mr_Checksum = Checksum (ce_sha env) data, mr_Payload = data, mr_CreatedAt = now 5\<rparr> = (Inr r', m')"
    using Manifest_Put_fresh [of "\<lparr>mr_Key = key, mr_PartitionKey = [], mr_Start = mr_Start r,
            mr_End = mr_End r, mr_Checksum = Checksum (ce_sha env) data, mr_Payload = data, mr_CreatedAt = now 5\<rparr>" repo "ce_sha env" "now 6"] assms by auto
  then show ?thesis by (simp add: record_deletion_def)
qed

lemma deleteManifest_repo:
  assumes "deleteManifest env now s i r m tenant = (res, s')" and "cp_manifests s = Some repo" and "take 8 k \<noteq> ''deletes/''"
  shows "\<exists>repo'. cp_manifests s' = Some repo' \<and> (k \<noteq> mr_Key r \<longrightarrow> map_of repo' k = map_of repo k) \<and>
     (map_of repo k = None \<longrightarrow> map_of repo' k = None) \<and> (\<not> isl res \<and> k = mr_Key r \<longrightarrow> map_of repo' k = None)"
proof -
  have k: "k \<noteq> deleteManifestKey t i d" for t i d using assms(3) delete_key by metis
  have rd: "\<exists>repo1. repo' = Some repo1 \<and> map_of repo1 k = map_of repo k"
    if "record_deletion env now (cp_manifests s) r (deleteManifestKey (now 3) i data) data = (e, repo')" for data e repo'
    using record_deletion_repo [OF that [unfolded assms(2)] k] .
  have rm: "\<exists>repo2. repo' = Some repo2 \<and> map_of repo2 = (map_of repo1)(mr_Key r := None)"
    if "remove_record (Some repo1) (mr_Key r) = (e, repo')" for repo1 e repo'
    using that by (auto simp: remove_record_def Manifest_Delete_def delete_conv')
  from assms(1) show ?thesis
  proof (cases rule: deleteManifest_cases)
    case none
    then show ?thesis using assms(2) by simp
  next
    case (put t data x)
    then show ?thesis using assms(2) rd by fastforce
  next
    case (chunks t data x o1 y e)
    then show ?thesis using rd by fastforce
  next
    case (own t data x o1 y o2 z e repo1)
    obtain repo2 where r2: "repo1 = Some repo2" "map_of repo2 k = map_of repo k" using rd [OF own(4)] by blast
    from own(5) show ?thesis
    proof
      assume "isl res \<and> cp_manifests s' = repo1"
      then show ?thesis using r2 by simp
    next
      assume "\<exists>e2. remove_record repo1 (mr_Key r) = (e2, cp_manifests s')"
      then obtain repo3 where "cp_manifests s' = Some repo3" "map_of repo3 = (map_of repo2)(mr_Key r := None)"
        using rm r2(1) by blast
      then show ?thesis using r2(2) by auto
    qed
  qed
qed

text \<open>A record whose key no due record has stays; a successful run removes every record that was due all along.\<close>

lemma compact_records_repo:
  assumes "compact_records env now tenants req rs sums resp s = (res, s')" and "cp_manifests s = Some repo"
    and "take 8 k \<noteq> ''deletes/''" and "\<forall>r \<in> set rs. mr_Payload r \<noteq> []" and "\<And>i j. now i j \<le> T" and "\<And>i j. T0 \<le> now i j"
  shows "\<exists>repo'. cp_manifests s' = Some repo' \<and> (map_of repo k = None \<longrightarrow> map_of repo' k = None) \<and>
     ((\<forall>r \<in> set rs. \<forall>m. mr_Key r = k \<and> ce_UnmarshalManifest env (mr_Payload r) = Inr m \<longrightarrow> \<not> due tenants req T T r m) \<longrightarrow>
        map_of repo' k = map_of repo k) \<and>
     (\<not> isl res \<and> (\<exists>r \<in> set rs. mr_Key r = k \<and> (\<exists>m. ce_UnmarshalManifest env (mr_Payload r) = Inr m \<and> due tenants req T0 T0 r m)) \<longrightarrow>
        map_of repo' k = None)"
  using assms(1,2,4)
proof (induction rs arbitrary: s sums resp repo)
  case Nil
  then show ?case by simp
next
  case (Cons r rs)
  have dec: "decodeManifest env (cp_objects s) (mr_Payload r) (mr_Key r) = ce_UnmarshalManifest env (mr_Payload r)"
    using Cons.prems(3) by (simp add: decodeManifest_def)
  obtain x s1 where x: "compact_record env (now (length rs)) tenants req r sums resp s = (x, s1)" by (metis surj_pair)
  then have k: "\<exists>repo1. cp_manifests s1 = Some repo1 \<and> (map_of repo k = None \<longrightarrow> map_of repo1 k = None) \<and>
      ((\<forall>m. mr_Key r = k \<and> ce_UnmarshalManifest env (mr_Payload r) = Inr m \<longrightarrow> \<not> due tenants req T T r m) \<longrightarrow> map_of repo1 k = map_of repo k) \<and>
      (\<not> isl x \<and> mr_Key r = k \<and> (\<exists>m. ce_UnmarshalManifest env (mr_Payload r) = Inr m \<and> due tenants req T0 T0 r m) \<longrightarrow> map_of repo1 k = None)"
  proof (cases rule: compact_record_cases)
    case (error err)
    then show ?thesis using Cons.prems(2) by simp
  next
    case (skip m y)
    then have "\<not> due tenants req T0 T0 r m" using due_later [of tenants req T0 r m "now (length rs) 0" "now (length rs) 1"] assms(6) by blast
    then show ?thesis using skip Cons.prems(2) dec by simp
  next
    case (delete m tenant e)
    then have "due tenants req T T r m" using due_mono [OF delete(2)] assms(5) by blast
    then show ?thesis using deleteManifest_repo [OF delete(3) Cons.prems(2) assms(3)] delete(1,4) dec by auto
  qed
  then obtain repo1 where repo1: "cp_manifests s1 = Some repo1" by blast
  show ?case
  proof (cases x)
    case (Inl err)
    then show ?thesis using x k Cons.prems(1) by auto
  next
    case (Inr y)
    then obtain sums' resp' where run: "compact_records env now tenants req rs sums' resp' s1 = (res, s')"
      using x Cons.prems(1) by (cases y) simp
    obtain repo' where r': "cp_manifests s' = Some repo'" "map_of repo1 k = None \<longrightarrow> map_of repo' k = None"
        "(\<forall>r \<in> set rs. \<forall>m. mr_Key r = k \<and> ce_UnmarshalManifest env (mr_Payload r) = Inr m \<longrightarrow> \<not> due tenants req T T r m) \<longrightarrow>
           map_of repo' k = map_of repo1 k"
        "\<not> isl res \<and> (\<exists>r \<in> set rs. mr_Key r = k \<and> (\<exists>m. ce_UnmarshalManifest env (mr_Payload r) = Inr m \<and> due tenants req T0 T0 r m)) \<longrightarrow>
           map_of repo' k = None"
    proof -
      have "\<forall>r \<in> set rs. mr_Payload r \<noteq> []" using Cons.prems(3) by simp
      from Cons.IH [OF run repo1 this] show thesis by (elim exE conjE) (rule that)
    qed
    have k1: "map_of repo k = None \<longrightarrow> map_of repo1 k = None"
        "(\<forall>m. mr_Key r = k \<and> ce_UnmarshalManifest env (mr_Payload r) = Inr m \<longrightarrow> \<not> due tenants req T T r m) \<longrightarrow> map_of repo1 k = map_of repo k"
        "mr_Key r = k \<and> (\<exists>m. ce_UnmarshalManifest env (mr_Payload r) = Inr m \<and> due tenants req T0 T0 r m) \<longrightarrow> map_of repo1 k = None"
      using k repo1 Inr by auto
    show ?thesis using r' k1 by (intro exI [of _ repo']) (auto 4 4)
  qed
qed

section \<open>Properties\<close>

lemma listed_record:
  assumes "wf_repository repo" and "r \<in> set (Manifest_List repo p)"
  shows "map_of repo (mr_Key r) = Some r" and "starts_with (mr_Key r) p"
proof -
  obtain k where k: "map_of repo k = Some r" "starts_with k p" using assms set_Manifest_List by blast
  then have "mr_Key r = k" using assms(1) map_of_SomeD [OF k(1)] by (auto simp: wf_repository_def)
  then show "map_of repo (mr_Key r) = Some r" and "starts_with (mr_Key r) p" using k by simp_all
qed

text \<open>
  C10. A retention run removes the expired manifests and no others. The policy is stated apart from the code: a manifest is judged by
  the tenant that its first chunk with a tenant in its stream key names (\<open>default\<close> if none does), and is due when the run is
  not a dry one, the request names this tenant or none, the tenant is neither protected nor on a legal hold that has not ended, its
  retention period is positive and the end of the manifest plus this period has passed (seven days and no hold for a tenant that is
  not configured). When a run over all partitions of a repository whose records carry their payload succeeds, every manifest that is
  not due at the run's last clock reading is still stored unchanged, and every manifest that is due at its first reading is no longer found.
\<close>

theorem compaction_exact:
  assumes "Compact env clock now s req = (Inr resp, s')" and "cp_manifests s = Some repo" and "wf_repository repo"
    and "\<forall>r \<in> set (Manifest_List repo ''segments/''). mr_Payload r \<noteq> []" and "\<And>i j. T0 \<le> now i j" and "\<And>i j. now i j \<le> T"
    and "cq_PartitionKey req = []" and "r \<in> set (Manifest_List repo ''segments/'')" and "ce_UnmarshalManifest env (mr_Payload r) = Inr m"
  shows "\<exists>repo'. cp_manifests s' = Some repo' \<and>
     (\<not> due (Tenant_List (cp_tenants s)) req T T r m \<longrightarrow> Manifest_Get repo' (mr_Key r) = Inr r) \<and>
     (due (Tenant_List (cp_tenants s)) req T0 T0 r m \<longrightarrow> Manifest_Get repo' (mr_Key r) = Inl (Errorf ''manifest not found'' []))"
proof -
  let ?rs = "Manifest_List repo ''segments/''" and ?ts = "Tenant_List (cp_tenants s)"
  obtain y s1 where run: "compact_records env now ?ts req ?rs [] (zero_response\<lparr>cp_DryRun := cq_DryRun req\<rparr>) s = (Inr y, s1)" "cp_manifests s' = cp_manifests s1"
    using assms(1,2,7) by (auto simp: Compact_def manifestRecords_def Let_def split: prod.splits sum.splits)
  have r: "map_of repo (mr_Key r) = Some r" "starts_with (mr_Key r) ''segments/''" using listed_record [OF assms(3,8)] by simp_all
  then have k: "take 8 (mr_Key r) \<noteq> ''deletes/''"
    by (auto simp: starts_with_def numeral_eq_Suc split: list.splits) (cases "mr_Key r"; simp)
  have same: "r' = r" if "r' \<in> set ?rs" "mr_Key r' = mr_Key r" for r' using listed_record(1) [OF assms(3) that(1)] that(2) r(1) by simp
  obtain repo' where r': "cp_manifests s1 = Some repo'"
     "(\<forall>r' \<in> set ?rs. \<forall>m. mr_Key r' = mr_Key r \<and> ce_UnmarshalManifest env (mr_Payload r') = Inr m \<longrightarrow> \<not> due ?ts req T T r' m) \<longrightarrow>
        map_of repo' (mr_Key r) = map_of repo (mr_Key r)"
     "(\<exists>r' \<in> set ?rs. mr_Key r' = mr_Key r \<and> (\<exists>m. ce_UnmarshalManifest env (mr_Payload r') = Inr m \<and> due ?ts req T0 T0 r' m)) \<longrightarrow>
        map_of repo' (mr_Key r) = None"
    using compact_records_repo [OF run(1) assms(2) k assms(4,6,5)] by auto
  have "Manifest_Get repo' (mr_Key r) = Inr r" if "\<not> due ?ts req T T r m"
  proof -
    have "map_of repo' (mr_Key r) = Some r" using r'(2) same assms(9) r(1) that by fastforce
    then show ?thesis by (simp add: Manifest_Get_def)
  qed
  moreover have "Manifest_Get repo' (mr_Key r) = Inl (Errorf ''manifest not found'' [])" if "due ?ts req T0 T0 r m"
    using r'(3) assms(8,9) that by (auto simp: Manifest_Get_def)
  ultimately show ?thesis using run(2) r'(1) by auto
qed

text \<open>A repository with one manifest of two chunks, of an unknown tenant and of a protected one.\<close>

definition mixed_refs :: "nat chunk_reference list" where
  "mixed_refs = [\<lparr>cr_StreamKey = ''a|svc=x'', cr_ObjectKey = ''chunks/a'', cr_Checksum = [], cr_Start = 1, cr_End = 2, cr_Metadata = 0\<rparr>,
     \<lparr>cr_StreamKey = ''t|svc=y'', cr_ObjectKey = ''chunks/t'', cr_Checksum = [], cr_Start = 1, cr_End = 2, cr_Metadata = 0\<rparr>]"

definition mixed_record :: manifest where
  "mixed_record = \<lparr>mr_Key = ''segments/p'', mr_PartitionKey = ''p'', mr_Start = 1, mr_End = 2, mr_Checksum = ''m'', mr_Payload = ''m'', mr_CreatedAt = 1\<rparr>"

definition held_tenant :: tenant_config where
  "held_tenant = sample_tenant\<lparr>t_Protected := True, t_LegalHoldUntil := 9000 * 24 * hour\<rparr>"

definition compactor_env_of :: "'o object_ops \<Rightarrow> (nat, 'o) compactor_env" where
  "compactor_env_of ops = \<lparr>ce_ops = ops,
     ce_UnmarshalManifest = (\<lambda>_. Inr \<lparr>sm_PartitionKey = ''p'', sm_Start = 1, sm_End = 2, sm_Chunks = mixed_refs, sm_GeneratedAt = 1\<rparr>),
     ce_MarshalDelete = (\<lambda>_. Inr ''d''), ce_sha = id\<rparr>"

definition mixed_compactor :: "'o \<Rightarrow> 'o compactor" where
  "mixed_compactor objects = Compactor_NewServerWithDeps 0
     (Some \<lparr>ts_tenants = [(''t'', held_tenant)], ts_version = 1, ts_snapshotPath = [], ts_modTime = 0\<rparr>)
     (Some [(''segments/p'', mixed_record)]) objects"

definition compact_all :: "bool \<Rightarrow> compact_request" where
  "compact_all dry = \<lparr>cq_TenantID = [], cq_DryRun = dry, cq_PartitionKey = [], cq_DeleteOnlyOld = False\<rparr>"

text \<open>Objects in a map, all of whose operations succeed.\<close>

definition map_objects :: "(string, string) gomap object_ops" where
  "map_objects = \<lparr>oo_Put = (\<lambda>now m k d. (Inr \<lparr>om_Key = k, om_Size = length d, om_Checksum = d, om_CreatedAt = now\<rparr>, AList.update k d m)),
     oo_Get = (\<lambda>m k. case map_of m k of None \<Rightarrow> Inl ErrNotExist | Some d \<Rightarrow> Inr (d, \<lparr>om_Key = k, om_Size = length d, om_Checksum = d, om_CreatedAt = 0\<rparr>)),
     oo_List = (\<lambda>m p. Inr []), oo_Delete = (\<lambda>m k. (None, AList.delete k m))\<rparr>"

abbreviation mixed_manifest :: "nat segment_manifest" where
  "mixed_manifest \<equiv> \<lparr>sm_PartitionKey = ''p'', sm_Start = 1, sm_End = 2, sm_Chunks = mixed_refs, sm_GeneratedAt = 1\<rparr>"

lemma mixed_due: "due (Tenant_List (cp_tenants (mixed_compactor objects))) (compact_all False) (100 * 24 * hour) (100 * 24 * hour) mixed_record mixed_manifest"
proof -
  have "owner mixed_manifest = ''a''" by (simp add: owner_def mixed_refs_def)
  then show ?thesis
    by (simp add: due_def compact_all_def mixed_record_def time_units Tenant_List_def mixed_compactor_def Compactor_NewServerWithDeps_def
        held_tenant_def sample_tenant_def)
qed

lemma mixed_run:
  "\<exists>key resp s'. Compact (compactor_env_of map_objects) (0, 0, 0) (\<lambda>_ _. 100 * 24 * hour) (mixed_compactor objects) (compact_all False) = (Inr resp, s') \<and>
     cp_objects s' = AList.delete ''segments/p'' (AList.delete ''chunks/t'' (AList.delete ''chunks/a'' (AList.update key ''d'' objects)))"
proof -
  let ?now = "\<lambda>_. 100 * 24 * hour :: time" and ?env = "compactor_env_of map_objects" and ?s = "mixed_compactor objects"
  let ?key = "deleteManifestKey (100 * 24 * hour) (tenantIDFromManifest mixed_manifest) ''d''"
  have key: "?key \<noteq> ''segments/p''" "?key \<noteq> []" using delete_key [of "100 * 24 * hour" "tenantIDFromManifest mixed_manifest" "''d''"] by auto
  obtain repo where rd: "record_deletion ?env ?now (Some [(''segments/p'', mixed_record)]) mixed_record ?key ''d'' = (None, repo)"
    using record_deletion_fresh [of ?key "[(''segments/p'', mixed_record)]" ?env ?now mixed_record "''d''"] key by auto
  obtain repo' where rr: "remove_record repo (mr_Key mixed_record) = (None, repo')"
    by (cases repo) (simp_all add: remove_record_def Manifest_Delete_def)
  have del: "deleteManifest ?env ?now ?s (tenantIDFromManifest mixed_manifest) mixed_record mixed_manifest tenant =
      (Inr True, ?s\<lparr>cp_objects := AList.delete ''segments/p'' (AList.delete ''chunks/t'' (AList.delete ''chunks/a'' (AList.update ?key ''d'' objects))), cp_manifests := repo'\<rparr>)"
    for tenant
    using rd rr by (simp add: deleteManifest_def Let_def compactor_env_of_def map_objects_def mixed_refs_def)
      (simp add: mixed_compactor_def Compactor_NewServerWithDeps_def mixed_record_def)
  have dec: "decodeManifest ?env objs (mr_Payload mixed_record) k = Inr mixed_manifest" for objs k
    by (simp add: decodeManifest_def compactor_env_of_def mixed_record_def)
  have recs: "manifestRecords ?env ?s [] = Inr [mixed_record]"
    by (simp add: manifestRecords_def mixed_compactor_def Compactor_NewServerWithDeps_def Manifest_List_def)
  let ?resp = "zero_response\<lparr>cp_DryRun := cq_DryRun (compact_all False)\<rparr>"
  obtain x s1 where x: "compact_record ?env ?now (Tenant_List (cp_tenants ?s)) (compact_all False) mixed_record [] ?resp ?s = (x, s1)"
    by (metis surj_pair)
  then have "\<not> isl x \<and> s1 = ?s\<lparr>cp_objects := AList.delete ''segments/p'' (AList.delete ''chunks/t'' (AList.delete ''chunks/a'' (AList.update ?key ''d'' objects))), cp_manifests := repo'\<rparr>"
  proof (cases rule: compact_record_cases)
    case (error err)
    then show ?thesis by (simp add: dec)
  next
    case (skip m y)
    then show ?thesis using mixed_due [of objects] by (simp add: dec)
  next
    case (delete m tenant d)
    then show ?thesis using del [of tenant] by (auto simp: dec)
  qed
  then show ?thesis using recs x by (cases x) (auto simp: Compact_def compact_all_def Let_def)
qed

theorem compaction_exact_witness:
  "\<exists>resp s' repo'. Compact (compactor_env_of map_objects) (0, 0, 0) (\<lambda>_ _. 100 * 24 * hour) (mixed_compactor []) (compact_all False) = (Inr resp, s') \<and>
     cp_manifests s' = Some repo' \<and> Manifest_Get repo' ''segments/p'' = Inl (Errorf ''manifest not found'' [])"
proof -
  obtain resp s' where c: "Compact (compactor_env_of map_objects) (0, 0, 0) (\<lambda>_ _. 100 * 24 * hour) (mixed_compactor []) (compact_all False) = (Inr resp, s')"
    using mixed_run [of "[]"] by blast
  have l: "Manifest_List [(''segments/p'', mixed_record)] ''segments/'' = [mixed_record]" by (simp add: Manifest_List_def)
  have "wf_repository [(''segments/p'', mixed_record)]" by (simp add: wf_repository_def wf_map_def mixed_record_def)
  from compaction_exact [OF c _ this, of "100 * 24 * hour" "100 * 24 * hour" mixed_record mixed_manifest] mixed_due [of "[] :: (string, string) gomap"]
  obtain repo' where "cp_manifests s' = Some repo'" "Manifest_Get repo' ''segments/p'' = Inl (Errorf ''manifest not found'' [])"
    unfolding l
    by (auto simp: compactor_env_of_def mixed_compactor_def Compactor_NewServerWithDeps_def compact_all_def mixed_record_def)
  then show ?thesis using c by blast
qed

text \<open>
  C11. A retention run never touches what is not expired: with the file-backed store, no input or output
  errors, and a repository whose records carry their payload, an object keeps its content, whether the run succeeds or not, unless it is,
  or is a chunk of, a manifest that is due by the end of the run, where the policy judges a whole manifest by the tenant its
  first chunk names. (So the chunks of a held tenant go with a manifest that another tenant's chunk begins: \<open>legal_hold_violated\<close>.)
\<close>

theorem retention_safe:
  assumes "ce_ops env = default_objects sha sleep retries pause" and "no_faults (cp_objects s)" and "cp_manifests s = Some repo"
    and "\<forall>r \<in> set (Manifest_List repo ''segments/''). mr_Payload r \<noteq> []" and "\<And>i j. now i j \<le> T"
    and "file_content (cp_objects s) p = Some d"
    and "\<forall>r \<in> set (Manifest_List repo ''segments/''). \<forall>m. ce_UnmarshalManifest env (mr_Payload r) = Inr m \<and>
       due (Tenant_List (cp_tenants s)) req T T r m \<longrightarrow>
       file_slot (mr_Key r) \<noteq> Some p \<and> (\<forall>ch \<in> set (sm_Chunks m). file_slot (cr_ObjectKey ch) \<noteq> Some p)"
  shows "file_content (cp_objects (snd (Compact env clock now s req))) p = Some d"
proof -
  obtain rs where rs: "manifestRecords env s (cq_PartitionKey req) = Inr rs" "set rs \<subseteq> set (Manifest_List repo ''segments/'')"
    using assms(3) by (cases "cq_PartitionKey req = []") (auto simp: manifestRecords_def Let_def)
  obtain x s1 where run: "compact_records env now (Tenant_List (cp_tenants s)) req rs [] (zero_response\<lparr>cp_DryRun := cq_DryRun req\<rparr>) s = (x, s1)"
    by (metis surj_pair)
  have "file_content (cp_objects s1) p = Some d"
    using default_store.compact_records_keeps [OF assms(1,2,6) _ assms(5) _ run] assms(4,7) rs(2) by blast
  moreover have "cp_objects (snd (Compact env clock now s req)) = cp_objects s1"
    using rs(1) run by (auto simp: Compact_def Let_def split: prod.splits sum.splits)
  ultimately show ?thesis by simp
qed

theorem retention_safe_witness:
  "file_content (cp_objects (snd (Compact (compactor_env_of (default_objects id (\<lambda>_. None) 0 0)) (0, 0, 0) (\<lambda>_ _. 100 * 24 * hour)
     (mixed_compactor \<lparr>fs_files = [([''chunks'', ''t''], (''x'', 1))], fs_dirs = [[], [''chunks'']], fs_faults = []\<rparr>) (compact_all True)))) [''chunks'', ''t''] = Some ''x''"
  by (rule retention_safe [where sha = id and sleep = "\<lambda>_. None" and retries = 0 and pause = 0 and T = "100 * 24 * hour"
        and repo = "[(''segments/p'', mixed_record)]"])
    (auto simp: compactor_env_of_def mixed_compactor_def Compactor_NewServerWithDeps_def no_faults_def Manifest_List_def mixed_record_def
      file_content_def due_def compact_all_def)

text \<open>
  Protection and legal hold do not protect a tenant's chunks: a manifest is judged by the tenant of its first
  chunk, and segments hold the chunks of all tenants of an hour, so a run deletes the chunk of a protected tenant on
  legal hold together with the expired chunk of another tenant.
\<close>

theorem legal_hold_violated:
  "on_hold held_tenant (100 * 24 * hour) \<and> tenantIDFromStreamKey ''t|svc=y'' = t_ID held_tenant \<and>
   held_tenant \<in> set (Tenant_List (cp_tenants (mixed_compactor [(''chunks/a'', ''x''), (''chunks/t'', ''y'')]))) \<and>
   map_of (cp_objects (snd (Compact (compactor_env_of map_objects) (0, 0, 0) (\<lambda>_ _. 100 * 24 * hour)
     (mixed_compactor [(''chunks/a'', ''x''), (''chunks/t'', ''y'')]) (compact_all False)))) ''chunks/t'' = None"
proof -
  have "map_of (cp_objects (snd (Compact (compactor_env_of map_objects) (0, 0, 0) (\<lambda>_ _. 100 * 24 * hour)
     (mixed_compactor [(''chunks/a'', ''x''), (''chunks/t'', ''y'')]) (compact_all False)))) ''chunks/t'' = None"
    using mixed_run [of "[(''chunks/a'', ''x''), (''chunks/t'', ''y'')]"] by (auto simp: delete_conv' restrict_map_def)
  then show ?thesis
    by (simp add: on_hold_def held_tenant_def sample_tenant_def tenantIDFromStreamKey_def Tenant_List_def mixed_compactor_def
        Compactor_NewServerWithDeps_def)
qed

end
