(* ===== verification/Descriptors.thy ===== *)
theory Descriptors
  imports Service_Http
begin

text \<open>
  The descriptors of the services (\<open>internal/services/*/*.go\<close>): what each says of itself on \<open>/info\<close>, and the
  endpoints it advertises. Three of the services (ingester, parser, indexer) are stubs whose whole handler is
  \<open>NewHandler\<close>.
\<close>

section \<open>Descriptors\<close>

definition Gateway_Descriptor :: descriptor where
  "Gateway_Descriptor = \<lparr>ds_Name = ''gateway'', ds_Role = ''External ingest and query entrypoint with auth, tenancy, and compatibility routing.'',
     ds_Version = ''0.1.0-dev'', ds_Deployment = [''kubernetes'', ''bare-metal''],
     ds_Dependencies = [''control-plane'', ''distributor'', ''query-frontend''],
     ds_Endpoints =
      [\<lparr>ep_Method = ''POST'', ep_Path = ''/api/native/v1/ingest'', ep_State = ''implemented-single-node'',
         ep_Description = ''Native single-node ingest endpoint backed by the local engine.''\<rparr>,
       \<lparr>ep_Method = ''POST'', ep_Path = ''/api/native/v1/search'', ep_State = ''implemented-single-node'',
         ep_Description = ''Native single-node query endpoint for label, field, and text filters.''\<rparr>,
       \<lparr>ep_Method = ''POST'', ep_Path = ''/api/native/v1/tail'', ep_State = ''implemented-single-node'',
         ep_Description = ''Native single-node tail endpoint for recent matching logs.''\<rparr>,
       \<lparr>ep_Method = ''POST'', ep_Path = ''/api/native/v1/explain'', ep_State = ''implemented-single-node'',
         ep_Description = ''Native single-node query planner explanation endpoint.''\<rparr>,
       \<lparr>ep_Method = ''GET'', ep_Path = ''/api/admin/tenants'', ep_State = ''implemented-single-node'',
         ep_Description = ''Lists locally configured tenants and policy defaults.''\<rparr>,
       \<lparr>ep_Method = ''GET'', ep_Path = ''/api/admin/queue'', ep_State = ''implemented-local-queue'',
         ep_Description = ''Returns local queue topic, offset, and lag stats.''\<rparr>,
       \<lparr>ep_Method = ''POST'', ep_Path = ''/otlp/v1/logs'', ep_State = ''implemented-single-node'',
         ep_Description = ''OTLP HTTP ingest for log exports backed by the local engine.''\<rparr>,
       \<lparr>ep_Method = ''POST'', ep_Path = ''/loki/api/v1/push'', ep_State = ''implemented-single-node'',
         ep_Description = ''Loki-compatible write path backed by the local engine.''\<rparr>,
       \<lparr>ep_Method = ''GET'', ep_Path = ''/api/v1/query'', ep_State = ''implemented-single-node'',
         ep_Description = ''Instant query compatibility endpoint.''\<rparr>,
       \<lparr>ep_Method = ''GET'', ep_Path = ''/api/v1/query_range'', ep_State = ''implemented-single-node'',
         ep_Description = ''Range query compatibility endpoint.''\<rparr>]\<rparr>"

definition Distributor_Descriptor :: descriptor where
  "Distributor_Descriptor = \<lparr>ds_Name = ''distributor'', ds_Role = ''Validates writes, enforces tenant budgets, and routes streams to ingesters.'',
     ds_Version = ''0.1.0-dev'', ds_Deployment = [''kubernetes'', ''bare-metal''],
     ds_Dependencies = [''etcd'', ''ring''],
     ds_Endpoints =
      [\<lparr>ep_Method = ''POST'', ep_Path = ''/internal/v1/append'', ep_State = ''implemented-single-node'',
         ep_Description = ''Routes a canonical event to a primary and replica set.''\<rparr>,
       \<lparr>ep_Method = ''GET'', ep_Path = ''/internal/v1/ring'', ep_State = ''implemented-single-node'',
         ep_Description = ''Returns the current ring snapshot for debugging.''\<rparr>,
       \<lparr>ep_Method = ''GET'', ep_Path = ''/internal/v1/members'', ep_State = ''implemented-single-node'',
         ep_Description = ''Returns current ring members.''\<rparr>,
       \<lparr>ep_Method = ''POST'', ep_Path = ''/internal/v1/members'', ep_State = ''implemented-single-node'',
         ep_Description = ''Registers or refreshes a ring member for multi-node routing.''\<rparr>,
       \<lparr>ep_Method = ''PUT'', ep_Path = ''/internal/v1/members/{id}'', ep_State = ''implemented-single-node'',
         ep_Description = ''Updates a ring member state for draining or leaving.''\<rparr>,
       \<lparr>ep_Method = ''DELETE'', ep_Path = ''/internal/v1/members/{id}'', ep_State = ''implemented-single-node'',
         ep_Description = ''Deletes a ring member to simulate failure or removal.''\<rparr>]\<rparr>"

definition Ingester_Descriptor :: descriptor where
  "Ingester_Descriptor = \<lparr>ds_Name = ''ingester'', ds_Role = ''Owns WAL, stream chunking, replication, and flush lifecycle.'',
     ds_Version = ''0.1.0-dev'', ds_Deployment = [''kubernetes'', ''bare-metal''],
     ds_Dependencies = [''object-storage'', ''indexer'', ''kafka''],
     ds_Endpoints =
      [\<lparr>ep_Method = ''POST'', ep_Path = ''/internal/v1/ingest'', ep_State = ''planned'',
         ep_Description = ''Appends validated events to WAL-backed active streams.''\<rparr>]\<rparr>"

definition Parser_Descriptor :: descriptor where
  "Parser_Descriptor = \<lparr>ds_Name = ''parser'', ds_Role = ''Executes tenant-configured parsing, enrichment, and label promotion pipelines.'',
     ds_Version = ''0.1.0-dev'', ds_Deployment = [''kubernetes'', ''bare-metal''],
     ds_Dependencies = [''control-plane''],
     ds_Endpoints =
      [\<lparr>ep_Method = ''POST'', ep_Path = ''/internal/v1/process'', ep_State = ''planned'',
         ep_Description = ''Normalizes events and extracts searchable fields.''\<rparr>]\<rparr>"

definition Indexer_Descriptor :: descriptor where
  "Indexer_Descriptor = \<lparr>ds_Name = ''indexer'', ds_Role = ''Builds label, structured-field, and bloom-accelerated index segments.'',
     ds_Version = ''0.1.0-dev'', ds_Deployment = [''kubernetes'', ''bare-metal''],
     ds_Dependencies = [''object-storage'', ''postgres''],
     ds_Endpoints =
      [\<lparr>ep_Method = ''POST'', ep_Path = ''/internal/v1/index'', ep_State = ''planned'',
         ep_Description = ''Creates immutable index segments for flushed chunks.''\<rparr>]\<rparr>"

definition Compactor_Descriptor :: descriptor where
  "Compactor_Descriptor = \<lparr>ds_Name = ''compactor'', ds_Role = ''Compacts index segments, rebuilds bloom filters, and applies retention policies.'',
     ds_Version = ''0.1.0-dev'', ds_Deployment = [''kubernetes'', ''bare-metal''],
     ds_Dependencies = [''object-storage'', ''postgres''],
     ds_Endpoints =
      [\<lparr>ep_Method = ''POST'', ep_Path = ''/internal/v1/compact'', ep_State = ''implemented-retention'',
         ep_Description = ''Scans manifests, applies retention cutoffs, and emits delete manifests.''\<rparr>,
       \<lparr>ep_Method = ''GET'', ep_Path = ''/internal/v1/status'', ep_State = ''implemented-retention'',
         ep_Description = ''Returns compactor readiness and data directory information.''\<rparr>]\<rparr>"

definition ControlPlane_Descriptor :: descriptor where
  "ControlPlane_Descriptor = \<lparr>ds_Name = ''control-plane'', ds_Role = ''Stores tenant policies, schemas, parser pipelines, and placement metadata.'',
     ds_Version = ''0.1.0-dev'', ds_Deployment = [''kubernetes'', ''bare-metal''],
     ds_Dependencies = [''postgres'', ''etcd''],
     ds_Endpoints =
      [\<lparr>ep_Method = ''GET'', ep_Path = ''/api/admin/tenants'', ep_State = ''implemented-file-backed'',
         ep_Description = ''Lists persisted tenant configs from the local control-plane snapshot.''\<rparr>,
       \<lparr>ep_Method = ''POST'', ep_Path = ''/api/admin/tenants'', ep_State = ''implemented-file-backed'',
         ep_Description = ''Creates tenants and default policy sets.''\<rparr>,
       \<lparr>ep_Method = ''PUT'', ep_Path = ''/api/admin/tenants/{id}/limits'', ep_State = ''implemented-file-backed'',
         ep_Description = ''Updates tenant ingestion, query, and retention budgets.''\<rparr>,
       \<lparr>ep_Method = ''PUT'', ep_Path = ''/api/admin/tenants/{id}/pipelines'', ep_State = ''implemented-file-backed'',
         ep_Description = ''Replaces parser pipeline configuration for a tenant.''\<rparr>,
       \<lparr>ep_Method = ''PUT'', ep_Path = ''/api/admin/tenants/{id}/searchable-fields'', ep_State = ''implemented-file-backed'',
         ep_Description = ''Updates the structured-field indexing allowlist.''\<rparr>]\<rparr>"

definition QueryFrontend_Descriptor :: descriptor where
  "QueryFrontend_Descriptor = \<lparr>ds_Name = ''query-frontend'', ds_Role = ''Plans, splits, caches, and merges user-facing queries.'',
     ds_Version = ''0.1.0-dev'', ds_Deployment = [''kubernetes'', ''bare-metal''],
     ds_Dependencies = [''querier'', ''redis'', ''control-plane''],
     ds_Endpoints =
      [\<lparr>ep_Method = ''POST'', ep_Path = ''/internal/v1/plan'', ep_State = ''implemented-single-node'',
         ep_Description = ''Generates executable plans for range, tail, and field-aware search queries.''\<rparr>,
       \<lparr>ep_Method = ''POST'', ep_Path = ''/internal/v1/query'', ep_State = ''implemented-single-node'',
         ep_Description = ''Plans, fans out, and merges query fragments across querier workers.''\<rparr>,
       \<lparr>ep_Method = ''GET'', ep_Path = ''/api/admin/cache'', ep_State = ''implemented-single-node'',
         ep_Description = ''Returns query and chunk cache statistics.''\<rparr>]\<rparr>"

definition Querier_Descriptor :: descriptor where
  "Querier_Descriptor = \<lparr>ds_Name = ''querier'', ds_Role = ''Fetches index segments and chunks, then executes plans against hot and cold data.'',
     ds_Version = ''0.1.0-dev'', ds_Deployment = [''kubernetes'', ''bare-metal''],
     ds_Dependencies = [''object-storage'', ''redis''],
     ds_Endpoints =
      [\<lparr>ep_Method = ''POST'', ep_Path = ''/internal/v1/execute'', ep_State = ''implemented-single-node'',
         ep_Description = ''Executes query fragments and returns merged shard results.''\<rparr>]\<rparr>"


section \<open>The stub services\<close>

definition Ingester_Handler :: "(time \<Rightarrow> http_request \<Rightarrow> base_reply http_response) option" where
  "Ingester_Handler = NewHandler Ingester_Descriptor"

definition Parser_Handler :: "(time \<Rightarrow> http_request \<Rightarrow> base_reply http_response) option" where
  "Parser_Handler = NewHandler Parser_Descriptor"

definition Indexer_Handler :: "(time \<Rightarrow> http_request \<Rightarrow> base_reply http_response) option" where
  "Indexer_Handler = NewHandler Indexer_Descriptor"

lemma stubs_start: "Ingester_Handler \<noteq> None \<and> Parser_Handler \<noteq> None \<and> Indexer_Handler \<noteq> None"
  by (simp add: Ingester_Handler_def Parser_Handler_def Indexer_Handler_def NewHandler_def Ingester_Descriptor_def
      Parser_Descriptor_def Indexer_Descriptor_def)

end
