(* ===== verification/Query_Frontend.thy ===== *)
theory Query_Frontend
  imports Engine Descriptors
begin

text \<open>
  The query frontend (\<open>internal/services/queryfrontend\<close>) and the querier it calls
  (\<open>internal/services/querier\<close>). The frontend plans a query, sends every fragment of the plan to a worker
  and merges the results in the order in which they arrive. A worker is a function of the number of the
  fragment (its answer may depend on its state at that call) and of the request; the order of arrival is an argument. The
  engine behind a service is a record of operations with its state passed explicitly; JSON and the transport
  are parameters. Requests have a clean path, so that the multiplexer does not redirect.
\<close>

section \<open>Data\<close>

record ('s, 'c) query_engine =
  qe_Query :: "'s \<Rightarrow> query_request \<Rightarrow> query_result result \<times> 's"
  qe_Explain :: "'s \<Rightarrow> query_request \<Rightarrow> query_plan result \<times> 's"
  qe_CacheStats :: "'s \<Rightarrow> 'c"

type_synonym worker = "nat \<Rightarrow> query_request \<Rightarrow> query_result result"

text \<open>The variables of the merge loop.\<close>

record merging =
  mg_merged :: query_result
  mg_seen :: "string list"
  mg_events :: "event list"
  mg_firstErr :: "goerror option"

datatype 'c frontend_reply =
    QueryError goerror
  | QueryDone query_result
  | QueryPlanned query_plan
  | QueryCacheStats 'c
  | QueryBase base_reply

section \<open>Scatter and gather\<close>

definition sub_request :: "query_request \<Rightarrow> query_fragment \<Rightarrow> query_request" where
  "sub_request req fragment = req\<lparr>q_PartitionKey := fr_PartitionKey fragment, q_Limit := 0, q_Cursor := []\<rparr>"

definition fragment_reply :: "worker list \<Rightarrow> query_request \<Rightarrow> query_fragment list \<Rightarrow> nat \<Rightarrow> query_result result" where
  "fragment_reply workers req fragments i = (workers ! (i mod length workers)) i (sub_request req (fragments ! i))"

definition merge_event :: "event \<Rightarrow> merging \<Rightarrow> merging" where
  "merge_event event m = (let key = eventIdentity event in
     if key \<in> set (mg_seen m) then m else m\<lparr>mg_seen := key # mg_seen m, mg_events := mg_events m @ [Event_Clone event]\<rparr>)"

definition add_stats :: "query_stats \<Rightarrow> query_stats \<Rightarrow> query_stats" where
  "add_stats s t = \<lparr>CandidateStreams = CandidateStreams s + CandidateStreams t,
     CandidateChunks = CandidateChunks s + CandidateChunks t, ScannedEvents = ScannedEvents s + ScannedEvents t\<rparr>"

definition merge_item :: "query_result result \<Rightarrow> merging \<Rightarrow> merging" where
  "merge_item item m =
     (case item of
        Inl err \<Rightarrow> (if mg_firstErr m = None then m\<lparr>mg_firstErr := Some err\<rparr> else m)
      | Inr r \<Rightarrow> let merged = mg_merged m;
            merged = merged\<lparr>r_Scanned := r_Scanned merged + r_Scanned r, r_Matched := r_Matched merged + r_Matched r,
              r_Stats := add_stats (r_Stats merged) (r_Stats r)\<rparr>
          in fold merge_event (r_Events r) (m\<lparr>mg_merged := merged\<rparr>))"

definition merge_start :: merging where
  "merge_start = \<lparr>mg_merged = zero_result, mg_seen = [], mg_events = [], mg_firstErr = None\<rparr>"

definition executeFragments :: "worker list \<Rightarrow> nat list \<Rightarrow> query_request \<Rightarrow> query_fragment list \<Rightarrow> query_result result" where
  "executeFragments workers order req fragments =
     (let m = fold merge_item (map (fragment_reply workers req fragments) order) merge_start in
      case (mg_firstErr m, mg_events m) of (Some err, []) \<Rightarrow> Inl err | _ \<Rightarrow>
      let events = sortEvents (mg_events m) (q_Tail req) in
      case CursorOffset req of Inl err \<Rightarrow> Inl err | Inr offset \<Rightarrow>
      let (evs, next) = page offset (q_Limit req) events in
      Inr ((mg_merged m)\<lparr>r_Events := evs, r_NextCursor := next, r_Matched := length evs, r_Partial := (mg_firstErr m \<noteq> None)\<rparr>))"

section \<open>Handlers of the frontend\<close>

definition writeQueryError :: "goerror \<Rightarrow> 'c frontend_reply http_response" where
  "writeQueryError err = WriteJSON (if errors_is err ErrQueryConcurrencyExceeded then 429 else 400) (QueryError err)"

definition write_query :: "query_result result \<Rightarrow> 'c frontend_reply http_response" where
  "write_query res = (case res of Inl err \<Rightarrow> writeQueryError err | Inr result \<Rightarrow> WriteJSON 200 (QueryDone result))"

definition handlePlan ::
  "('s, 'c) query_engine \<Rightarrow> (string \<Rightarrow> query_request result) \<Rightarrow> 's \<Rightarrow> http_request \<Rightarrow> 'c frontend_reply http_response \<times> 's" where
  "handlePlan E decode s r =
     (if h_Method r \<noteq> ''POST'' then (WriteHeader 405, s) else
      case decode (h_Body r) of Inl err \<Rightarrow> (WriteJSON 400 (QueryError err), s) | Inr req \<Rightarrow>
      case qe_Explain E s req of (Inl err, s) \<Rightarrow> (writeQueryError err, s)
      | (Inr plan, s) \<Rightarrow> (WriteJSON 200 (QueryPlanned plan), s))"

text \<open>\<open>order\<close> gives the order of arrival for a number of fragments.\<close>

definition handleQuery ::
  "('s, 'c) query_engine \<Rightarrow> (string \<Rightarrow> query_request result) \<Rightarrow> worker list \<Rightarrow> (nat \<Rightarrow> nat list) \<Rightarrow> 's \<Rightarrow> http_request \<Rightarrow>
     'c frontend_reply http_response \<times> 's" where
  "handleQuery E decode workers order s r =
     (if h_Method r \<noteq> ''POST'' then (WriteHeader 405, s) else
      case decode (h_Body r) of Inl err \<Rightarrow> (WriteJSON 400 (QueryError err), s) | Inr req \<Rightarrow>
      if workers = [] then apfst write_query (qe_Query E s req)
      else case qe_Explain E s req of (Inl err, s) \<Rightarrow> (writeQueryError err, s)
      | (Inr plan, s) \<Rightarrow>
          if p_Fragments plan = [] then apfst write_query (qe_Query E s req)
          else (write_query (executeFragments workers (order (length (p_Fragments plan))) req (p_Fragments plan)), s))"

definition handleCacheStats :: "('s, 'c) query_engine \<Rightarrow> 's \<Rightarrow> http_request \<Rightarrow> 'c frontend_reply http_response" where
  "handleCacheStats E s r = (if h_Method r \<noteq> ''GET'' then WriteHeader 405 else WriteJSON 200 (QueryCacheStats (qe_CacheStats E s)))"

definition Frontend_Handler ::
  "('s, 'c) query_engine \<Rightarrow> (string \<Rightarrow> query_request result) \<Rightarrow> worker list \<Rightarrow> (nat \<Rightarrow> nat list) \<Rightarrow> time \<Rightarrow> 's \<Rightarrow> http_request \<Rightarrow>
     'c frontend_reply http_response \<times> 's" where
  "Frontend_Handler E decode workers order now s r =
     (case RegisterBaseRoutes QueryFrontend_Descriptor now r of Some res \<Rightarrow> (lift_reply QueryBase res, s) | None \<Rightarrow>
      if h_Path r = ''/internal/v1/plan'' then handlePlan E decode s r
      else if h_Path r = ''/internal/v1/query'' then handleQuery E decode workers order s r
      else if h_Path r = ''/api/admin/cache'' then (handleCacheStats E s r, s)
      else (NotFound, s))"

section \<open>The querier and its client\<close>

datatype querier_reply =
    ExecuteError goerror
  | Executed query_result
  | QuerierBase base_reply

definition handleExecute ::
  "('s \<Rightarrow> query_request \<Rightarrow> query_result result \<times> 's) \<Rightarrow> (string \<Rightarrow> query_request result) \<Rightarrow> 's \<Rightarrow> http_request \<Rightarrow>
     querier_reply http_response \<times> 's" where
  "handleExecute query decode s r =
     (if h_Method r \<noteq> ''POST'' then (WriteHeader 405, s) else
      case decode (h_Body r) of Inl err \<Rightarrow> (WriteJSON 400 (ExecuteError err), s) | Inr req \<Rightarrow>
      case query s req of
        (Inl err, s) \<Rightarrow> (WriteJSON (if errors_is err ErrQueryConcurrencyExceeded then 429 else 400) (ExecuteError err), s)
      | (Inr result, s) \<Rightarrow> (WriteJSON 200 (Executed result), s))"

definition Querier_Handler ::
  "('s \<Rightarrow> query_request \<Rightarrow> query_result result \<times> 's) \<Rightarrow> (string \<Rightarrow> query_request result) \<Rightarrow> time \<Rightarrow> 's \<Rightarrow> http_request \<Rightarrow>
     querier_reply http_response \<times> 's" where
  "Querier_Handler query decode now s r =
     (case RegisterBaseRoutes Querier_Descriptor now r of Some res \<Rightarrow> (lift_reply QuerierBase res, s) | None \<Rightarrow>
      if h_Path r = ''/internal/v1/execute'' then handleExecute query decode s r else (NotFound, s))"

text \<open>
  \<open>do\<close> is the HTTP client: it delivers a request and returns the status code, the status line and what
  \<open>io.ReadAll\<close> gives for the body. \<open>bad_url\<close> is the error of \<open>NewRequestWithContext\<close> for the address, if any.
\<close>

record querier_client =
  qc_baseURL :: string
  qc_marshal :: "query_request \<Rightarrow> string result"
  qc_bad_url :: "string \<Rightarrow> goerror option"
  qc_do :: "string \<Rightarrow> http_request \<Rightarrow> (nat \<times> string \<times> string result) result"
  qc_unmarshal :: "string \<Rightarrow> query_result result"

definition NewHTTPQuerierClient ::
  "string \<Rightarrow> (query_request \<Rightarrow> string result) \<Rightarrow> (string \<Rightarrow> goerror option) \<Rightarrow>
     (string \<Rightarrow> http_request \<Rightarrow> (nat \<times> string \<times> string result) result) \<Rightarrow> (string \<Rightarrow> query_result result) \<Rightarrow> querier_client" where
  "NewHTTPQuerierClient baseURL marshal bad_url client unmarshal =
     \<lparr>qc_baseURL = TrimRightChars baseURL ''/'', qc_marshal = marshal, qc_bad_url = bad_url, qc_do = client, qc_unmarshal = unmarshal\<rparr>"

definition Client_Execute :: "querier_client \<Rightarrow> query_request \<Rightarrow> query_result result" where
  "Client_Execute c req =
     (case qc_marshal c req of Inl err \<Rightarrow> Inl err | Inr payload \<Rightarrow>
      case qc_bad_url c (qc_baseURL c @ ''/internal/v1/execute'') of Some err \<Rightarrow> Inl err | None \<Rightarrow>
      case qc_do c (qc_baseURL c) \<lparr>h_Method = ''POST'', h_Path = ''/internal/v1/execute'', h_Query = [],
          h_Header = [(''Content-Type'', [''application/json''])], h_Body = payload\<rparr> of Inl err \<Rightarrow> Inl err
      | Inr (code, status, body) \<Rightarrow>
      case body of Inl err \<Rightarrow> Inl err | Inr data \<Rightarrow>
      if 400 \<le> code then Inl (Errorf ''querier %s returned %s: %s'' [qc_baseURL c, status, TrimSpace data])
      else qc_unmarshal c data)"

section \<open>The merge is a scan\<close>

text \<open>The merge of results is the planner's deduplicating scan of their events.\<close>

definition as_scan :: "merging \<Rightarrow> scan" where
  "as_scan m = \<lparr>sc_events = mg_events m, sc_scanned = 0, sc_seen = mg_seen m\<rparr>"

lemma as_scan_event: "as_scan (merge_event e m) = scan_add e (as_scan m) \<and> mg_firstErr (merge_event e m) = mg_firstErr m"
  by (simp add: as_scan_def merge_event_def scan_add_def Let_def)

lemma as_scan_events:
  "as_scan (fold merge_event es m) = fold scan_add es (as_scan m) \<and> mg_firstErr (fold merge_event es m) = mg_firstErr m"
  by (induction es arbitrary: m) (simp_all add: as_scan_event)

lemma as_scan_item:
  "as_scan (merge_item (Inr r) m) = fold scan_add (r_Events r) (as_scan m) \<and> mg_firstErr (merge_item (Inr r) m) = mg_firstErr m"
  by (simp add: merge_item_def Let_def as_scan_events) (simp add: as_scan_def)

lemma as_scan_items:
  "as_scan (fold merge_item (map Inr rs) m) = fold scan_add (concat (map r_Events rs)) (as_scan m) \<and>
     mg_firstErr (fold merge_item (map Inr rs) m) = mg_firstErr m"
  by (induction rs arbitrary: m) (simp_all add: as_scan_item)

lemma as_scan_start: "as_scan merge_start = scan_init"
  by (simp add: as_scan_def merge_start_def scan_init_def)

text \<open>When every worker answers, the result is a page of the merged events.\<close>

lemma executeFragments_ok:
  assumes "map (fragment_reply workers req fragments) order = map Inr rs" and "CursorOffset req = Inr offset"
  shows "\<exists>res. executeFragments workers order req fragments = Inr res \<and> \<not> r_Partial res \<and>
     (r_Events res, r_NextCursor res) = page offset (q_Limit req)
       (sortEvents (sc_events (fold scan_add (concat (map r_Events rs)) scan_init)) (q_Tail req))"
proof -
  define m where "m = fold merge_item (map Inr rs) merge_start"
  have "as_scan m = fold scan_add (concat (map r_Events rs)) scan_init" and e: "mg_firstErr m = None"
    using as_scan_items [of rs merge_start] by (simp_all add: m_def as_scan_start) (simp add: merge_start_def)
  then have ev: "mg_events m = sc_events (fold scan_add (concat (map r_Events rs)) scan_init)"
    by (metis as_scan_def scan.select_convs(1))
  show ?thesis
    unfolding executeFragments_def assms(1) m_def [symmetric] Let_def e ev
    by (simp add: assms(2) split_def)
qed

section \<open>Fragments cover the plan\<close>

lemma fragment_keys:
  "fr_PartitionKey ` set (fst (candidate_loop uni req segs)) =
     seg_PartitionKey ` {seg \<in> set segs. segment_selected req seg \<and> (\<exists>ch \<in> set (seg_Chunks seg). chunk_selected uni req ch)}"
proof (induction segs)
  case (Cons seg segs)
  have "filter (chunk_selected uni req) (seg_Chunks seg) \<noteq> [] \<longleftrightarrow> (\<exists>ch \<in> set (seg_Chunks seg). chunk_selected uni req ch)"
    by (simp add: filter_empty_conv)
  then show ?case using Cons.IH by (auto simp: Let_def split_def)
qed simp

lemma Plan_fragments:
  assumes "Plan uni p req = Inr plan"
  shows "p_Fragments plan = fst (candidateChunks uni p req)"
proof (cases "Query_Validate req")
  case None
  then show ?thesis using assms unfolding Plan_def Let_def split_def by (auto dest: sym)
qed (use assms in \<open>simp add: Plan_def\<close>)

lemma sub_request_selects [simp]:
  "chunk_selected uni (sub_request req f) = chunk_selected uni req"
  "eventMatches env (sub_request req f) = eventMatches env req"
  "q_TextRegex (sub_request req f) = q_TextRegex req" "q_Tail (sub_request req f) = q_Tail req"
  "q_Limit (sub_request req f) = 0" "q_Cursor (sub_request req f) = []"
  by (simp_all add: fun_eq_iff chunk_selected_def eventMatches_def text_match_def sub_request_def)

lemma sub_request_segment:
  assumes "q_PartitionKey req = [] \<or> q_PartitionKey req = fr_PartitionKey f"
  shows "segment_selected (sub_request req f) seg \<longleftrightarrow> segment_selected req seg \<and> (fr_PartitionKey f = [] \<or> seg_PartitionKey seg = fr_PartitionKey f)"
  using assms by (auto simp: segment_selected_def sub_request_def)

text \<open>The chunks of a request are those of its fragments.\<close>

lemma fragments_cover:
  assumes "fragments = fst (candidateChunks uni p req)"
  shows "set (snd (candidateChunks uni p req)) = (\<Union>f \<in> set fragments. set (snd (candidateChunks uni p (sub_request req f))))"
proof -
  let ?segs = "Segment_List (pn_segments p)"
  let ?cd = "\<lambda>seg ch. \<lparr>cd_StreamKey = ch_StreamKey ch, cd_Chunk = ch, cd_Segment = seg_PartitionKey seg\<rparr>"
  let ?C = "\<lambda>P. {c. \<exists>seg ch. c = ?cd seg ch \<and> seg \<in> set ?segs \<and> P seg \<and> ch \<in> set (seg_Chunks seg) \<and> chunk_selected uni req ch}"
  have cand: "set (snd (candidateChunks uni p r)) = ?C (segment_selected r)" if "chunk_selected uni r = chunk_selected uni req" for r
    using that by (auto simp: candidateChunks_def candidate_loop_eq)
  have keys: "fr_PartitionKey ` set fragments =
     seg_PartitionKey ` {seg \<in> set ?segs. segment_selected req seg \<and> (\<exists>ch \<in> set (seg_Chunks seg). chunk_selected uni req ch)}"
    unfolding assms candidateChunks_def by (rule fragment_keys)
  have own: "q_PartitionKey req = [] \<or> q_PartitionKey req = fr_PartitionKey f" if "f \<in> set fragments" for f
  proof -
    have "fr_PartitionKey f \<in> fr_PartitionKey ` set fragments" using that by simp
    then show ?thesis unfolding keys by (auto simp: segment_selected_def)
  qed
  show ?thesis
  proof (intro set_eqI iffI)
    fix c assume "c \<in> set (snd (candidateChunks uni p req))"
    then obtain seg ch where c: "c = ?cd seg ch" "seg \<in> set ?segs" "segment_selected req seg" "ch \<in> set (seg_Chunks seg)" "chunk_selected uni req ch"
      unfolding cand [OF refl] by auto
    then have "seg_PartitionKey seg \<in> fr_PartitionKey ` set fragments" unfolding keys by auto
    then obtain f where f: "f \<in> set fragments" "fr_PartitionKey f = seg_PartitionKey seg" by auto
    then have "segment_selected (sub_request req f) seg" using c(3) sub_request_segment [OF own [OF f(1)]] by simp
    then have "c \<in> set (snd (candidateChunks uni p (sub_request req f)))"
      unfolding cand [OF sub_request_selects(1)] using c by blast
    then show "c \<in> (\<Union>f \<in> set fragments. set (snd (candidateChunks uni p (sub_request req f))))" using f(1) by blast
  next
    fix c assume "c \<in> (\<Union>f \<in> set fragments. set (snd (candidateChunks uni p (sub_request req f))))"
    then obtain f where f: "f \<in> set fragments" "c \<in> set (snd (candidateChunks uni p (sub_request req f)))" by blast
    then show "c \<in> set (snd (candidateChunks uni p req))"
      unfolding cand [OF sub_request_selects(1)] cand [OF refl] sub_request_segment [OF own [OF f(1)]] by blast
  qed
qed

section \<open>Workers\<close>

text \<open>A worker that answers from the same segments with a coherent chunk cache, whatever its caches hold.\<close>

definition serves :: "'re planner_env \<Rightarrow> planner \<Rightarrow> worker \<Rightarrow> bool" where
  "serves env p w \<longleftrightarrow> (\<forall>i req. \<exists>now q. pn_segments q = pn_segments p \<and> cache_coherent env (pn_chunkCache q) \<and>
     w i req = fst (execute_uncached env now q req))"

text \<open>The hot index does not look at the partition.\<close>

definition ignores_partition :: "'re planner_env \<Rightarrow> bool" where
  "ignores_partition env \<longleftrightarrow> (\<forall>exec req k. pe_fallback env = Some exec \<longrightarrow> exec (req\<lparr>q_PartitionKey := k\<rparr>) = exec req)"

lemma partition_irrelevant:
  "initial_candidates m (req\<lparr>q_PartitionKey := k\<rparr>) = initial_candidates m req"
  "Query_Validate (req\<lparr>q_PartitionKey := k\<rparr>) = Query_Validate req" "CursorOffset (req\<lparr>q_PartitionKey := k\<rparr>) = CursorOffset req"
  "text_match uni match (req\<lparr>q_PartitionKey := k\<rparr>) = text_match uni match req"
  by (simp_all add: initial_candidates_def Query_Validate_def CursorOffset_def text_match_def fun_eq_iff cong: if_cong)

lemma engine_ignores_partition: "ignores_partition (planner_env_of env eng)"
  unfolding ignores_partition_def
proof (intro allI impI)
  fix exec req k assume "pe_fallback (planner_env_of env eng) = Some exec"
  then have "exec = MemoryIndex_Execute (ee_uni env) (ee_Compile env) (ee_MatchString env) (en_index eng)"
    by (simp add: planner_env_of_def)
  then show "exec (req\<lparr>q_PartitionKey := k\<rparr>) = exec req" 
    by (simp add: MemoryIndex_Execute_def partition_irrelevant cong: option.case_cong sum.case_cong)
qed

lemma sub_request_idem: "(sub_request req f)\<lparr>q_Limit := 0, q_Cursor := []\<rparr> = sub_request req f"
  by (simp add: sub_request_def)

lemma sub_request_hot:
  assumes "ignores_partition env"
  shows "pe_fallback env = Some exec \<Longrightarrow> exec (sub_request req f) = exec (req\<lparr>q_Limit := 0, q_Cursor := []\<rparr>)"
    and "hot_events env (sub_request req f) = hot_events env req"
proof -
  have "sub_request req f = (req\<lparr>q_Limit := 0, q_Cursor := []\<rparr>)\<lparr>q_PartitionKey := fr_PartitionKey f\<rparr>"
    by (simp add: sub_request_def)
  then show exec: "exec (sub_request req f) = exec (req\<lparr>q_Limit := 0, q_Cursor := []\<rparr>)" if "pe_fallback env = Some exec" for exec
    using that assms unfolding ignores_partition_def by presburger
  show "hot_events env (sub_request req f) = hot_events env req"
    unfolding hot_events_def sub_request_idem using exec by (cases "pe_fallback env") simp_all
qed

lemma sub_request_ready:
  assumes "planner_ready env p req" and "ignores_partition env" and "f \<in> set (fst (candidateChunks (pe_uni env) p req))"
  shows "planner_ready env p (sub_request req f)"
proof -
  have "set (snd (candidateChunks (pe_uni env) p (sub_request req f))) \<subseteq> set (snd (candidateChunks (pe_uni env) p req))"
    using assms(3) fragments_cover [OF refl, of "pe_uni env" p req] by blast
  moreover have "Query_Validate (sub_request req f) = None"
    using assms(1) by (simp add: planner_ready_def Query_Validate_def sub_request_def)
  ultimately show ?thesis
    using assms(1) sub_request_hot(1) [OF assms(2)] unfolding planner_ready_def sub_request_selects sub_request_idem
    by (metis subsetD)
qed

text \<open>The answer depends on the segments of the planner only.\<close>

lemma planner_answer_cong:
  assumes "pn_segments q = pn_segments p"
  shows "planner_answer env q req = planner_answer env p req"
    and "cache_coherent env (pn_chunkCache q) \<Longrightarrow> planner_ready env p req \<Longrightarrow> planner_ready env q req"
  using assms by (simp_all add: planner_answer_def cold_matches_def candidateChunks_def planner_ready_def cong: sum.case_cong)

lemma planner_answer_wf:
  assumes "planner_ready env p req"
  shows "list_all wf_event (planner_answer env p req)"
proof -
  obtain matcher where m: "compileRegex (pe_Compile env) (q_TextRegex req) = Inr matcher"
    using assms by (auto simp: planner_ready_def)
  have "list_all wf_event (cold_matches env p req matcher)"
    using assms by (auto simp: cold_matches_def planner_ready_def list_all_iff)
  moreover have "set (planner_answer env p req) \<subseteq> set (cold_matches env p req matcher) \<union> set (hot_events env req)"
    using planner_answer_spec [OF assms m] by blast
  ultimately show ?thesis using hot_events_ok(1) [OF assms] by (auto simp: list_all_iff)
qed

lemma worker_answers:
  assumes "planner_ready env p req" and "ignores_partition env" and "serves env p w"
    and "f \<in> set (fst (candidateChunks (pe_uni env) p req))"
  shows "\<exists>r. w i (sub_request req f) = Inr r \<and> r_Events r = planner_answer env p (sub_request req f)"
proof -
  obtain now q where q: "pn_segments q = pn_segments p" "cache_coherent env (pn_chunkCache q)"
      "w i (sub_request req f) = fst (execute_uncached env now q (sub_request req f))"
    using assms(3) unfolding serves_def by blast
  have r: "planner_ready env q (sub_request req f)"
    using planner_answer_cong(2) [OF q(1,2)] sub_request_ready [OF assms(1,2,4)] by blast
  have "CursorOffset (sub_request req f) = Inr 0" by (simp add: CursorOffset_def)
  from execute_page [OF r this, of now] show ?thesis
    by (auto simp: q(3) planner_answer_cong(1) [OF q(1)] page_def Let_def)
qed

lemma matches_split:
  assumes "ignores_partition env" and "fragments = fst (candidateChunks (pe_uni env) p req)" and "fragments \<noteq> []"
  shows "set (cold_matches env p req matcher) \<union> set (hot_events env req) =
     (\<Union>f \<in> set fragments. set (cold_matches env p (sub_request req f) matcher) \<union> set (hot_events env (sub_request req f)))"
  using assms(3) unfolding cold_matches_def sub_request_hot(2) [OF assms(1)]
  by (auto simp: fragments_cover [OF assms(2)])

lemma sortEvents_facts:
  "set (sortEvents xs b) = set xs" "distinct (map f (sortEvents xs b)) = distinct (map f xs)"
  "if b then sorted (map (\<lambda>e. - Timestamp e) (sortEvents xs b)) else sorted (map Timestamp (sortEvents xs b))"
proof -
  have perm: "mset (sortEvents xs b) = mset xs" by (simp add: sortEvents_def)
  show "set (sortEvents xs b) = set xs" using perm by (metis mset_eq_setD)
  show "distinct (map f (sortEvents xs b)) = distinct (map f xs)" using perm by (intro mset_eq_imp_distinct_iff) simp
qed (simp add: sortEvents_def)

lemma answers_union:
  assumes "planner_ready env p req" and "ignores_partition env"
    and "fragments = fst (candidateChunks (pe_uni env) p req)" and "fragments \<noteq> []"
  shows "(\<Union>f \<in> set fragments. eventIdentity ` set (planner_answer env p (sub_request req f))) = eventIdentity ` set (planner_answer env p req)"
proof -
  obtain matcher where m: "compileRegex (pe_Compile env) (q_TextRegex req) = Inr matcher"
    using assms(1) by (auto simp: planner_ready_def)
  have "eventIdentity ` set (planner_answer env p (sub_request req f)) =
     eventIdentity ` (set (cold_matches env p (sub_request req f) matcher) \<union> set (hot_events env (sub_request req f)))"
    if "f \<in> set fragments" for f
    using planner_answer_spec [OF sub_request_ready [OF assms(1,2)], of f matcher] that m unfolding assms(3) by simp
  then have "(\<Union>f \<in> set fragments. eventIdentity ` set (planner_answer env p (sub_request req f))) =
     eventIdentity ` (\<Union>f \<in> set fragments. set (cold_matches env p (sub_request req f) matcher) \<union> set (hot_events env (sub_request req f)))"
    unfolding image_UN by simp
  also have "\<dots> = eventIdentity ` set (planner_answer env p req)"
    unfolding matches_split [OF assms(2-4), symmetric] using planner_answer_spec [OF assms(1) m] by simp
  finally show ?thesis .
qed

lemma replies_answer:
  assumes "planner_ready env p req" and "ignores_partition env" and "fragments = fst (candidateChunks (pe_uni env) p req)"
    and "workers \<noteq> []" and "\<forall>w \<in> set workers. serves env p w" and "set order \<subseteq> {0..<length fragments}"
  shows "\<exists>rs. map (fragment_reply workers req fragments) order = map Inr rs \<and>
     map r_Events rs = map (\<lambda>i. planner_answer env p (sub_request req (fragments ! i))) order"
proof -
  have "\<exists>r. fragment_reply workers req fragments i = Inr r \<and> r_Events r = planner_answer env p (sub_request req (fragments ! i))"
    if "i \<in> set order" for i
  proof -
    have "fragments ! i \<in> set (fst (candidateChunks (pe_uni env) p req))" using that assms(6) unfolding assms(3) [symmetric] by force
    moreover have "workers ! (i mod length workers) \<in> set workers" using assms(4) by simp
    ultimately show ?thesis unfolding fragment_reply_def using worker_answers [OF assms(1,2)] assms(5) by blast
  qed
  then obtain g where "\<And>i. i \<in> set order \<Longrightarrow> fragment_reply workers req fragments i = Inr (g i) \<and>
     r_Events (g i) = planner_answer env p (sub_request req (fragments ! i))" by metis
  then show ?thesis by (intro exI [of _ "map g order"]) simp
qed

lemma scan_merged:
  assumes "list_all wf_event es"
  shows "distinct (map eventIdentity (sc_events (fold scan_add es scan_init))) \<and>
     eventIdentity ` set (sc_events (fold scan_add es scan_init)) = eventIdentity ` set es"
proof -
  have "let s' = fold scan_add es scan_init in list_all wf_event (sc_events s') \<and>
     set (sc_seen s') = eventIdentity ` set (sc_events s') \<and> distinct (map eventIdentity (sc_events s')) \<and>
     eventIdentity ` set (sc_events s') = eventIdentity ` set es \<union> eventIdentity ` set (sc_events scan_init) \<and>
     set (sc_events s') \<subseteq> set es \<union> set (sc_events scan_init)"
    using assms by (intro scan_fold) (simp_all add: scan_init_def)
  then show ?thesis by (simp add: Let_def scan_init_def)
qed

section \<open>Errors and partial results\<close>

lemma merge_firstErr:
  "mg_firstErr (fold merge_item items m) = None \<longleftrightarrow> mg_firstErr m = None \<and> (\<forall>x \<in> set items. \<not> isl x)"
proof (induction items arbitrary: m)
  case (Cons x items)
  have "mg_firstErr (merge_item x m) = None \<longleftrightarrow> mg_firstErr m = None \<and> \<not> isl x"
    by (cases x) (simp_all add: merge_item_def Let_def as_scan_events)
  then show ?case using Cons.IH [of "merge_item x m"] by auto
qed simp

section \<open>Properties\<close>

text \<open>
  C8. Scatter and gather lose and add nothing: suppose a plan of the frontend has at least one fragment, there is at least
  one worker, and every worker answers each fragment as a planner over the frontend's own segments and hot index does on
  a cache miss, with a chunk cache that agrees with the object store, the chunks the query selects being loadable, the
  hot index answering whatever the partition, and so without error. Then, whatever the order in which the workers'
  results arrive, the frontend returns the requested page of a time-ordered list (newest first for a tail)
  that holds, once per identity, exactly the events one such planner answers to the whole query, and the result is not
  partial. (A worker that fails makes it partial: \<open>partial_iff_worker_error\<close>.)
\<close>

theorem scatter_gather_exact:
  assumes "planner_ready env p req" and "ignores_partition env" and "Explain (pe_uni env) p req = Inr plan" and "p_Fragments plan \<noteq> []"
    and "workers \<noteq> []" and "\<forall>w \<in> set workers. serves env p w"
    and "mset order = mset [0..<length (p_Fragments plan)]" and "CursorOffset req = Inr offset"
  shows "\<exists>res ans. executeFragments workers order req (p_Fragments plan) = Inr res \<and> \<not> r_Partial res \<and>
     (r_Events res, r_NextCursor res) = page offset (q_Limit req) ans \<and>
     distinct (map eventIdentity ans) \<and> eventIdentity ` set ans = eventIdentity ` set (planner_answer env p req) \<and>
     (if q_Tail req then sorted (map (\<lambda>e. - Timestamp e) ans) else sorted (map Timestamp ans))"
proof -
  let ?F = "p_Fragments plan" and ?a = "\<lambda>f. planner_answer env p (sub_request req f)"
  have F: "?F = fst (candidateChunks (pe_uni env) p req)" using assms(3) unfolding Explain_def by (rule Plan_fragments)
  have range: "set order = {0..<length ?F}" using mset_eq_setD [OF assms(7)] by (simp only: set_upt)
  obtain rs where rs: "map (fragment_reply workers req ?F) order = map Inr rs" "map r_Events rs = map (\<lambda>i. ?a (?F ! i)) order"
    using replies_answer [OF assms(1,2) F assms(5,6)] range by blast
  let ?es = "concat (map r_Events rs)"
  have F': "set ?F = (\<lambda>i. ?F ! i) ` set order" unfolding range using nth_image [of "length ?F" ?F] by (simp add: atLeast0LessThan)
  have ids: "eventIdentity ` set ?es = eventIdentity ` set (planner_answer env p req)"
    unfolding rs(2) answers_union [OF assms(1,2) F assms(4), symmetric] F' by auto
  have "\<forall>f \<in> set ?F. list_all wf_event (?a f)"
    using planner_answer_wf sub_request_ready [OF assms(1,2)] unfolding F by blast
  then have w: "list_all wf_event ?es" unfolding rs(2) F' by (auto simp: list_all_iff)
  let ?ans = "sortEvents (sc_events (fold scan_add ?es scan_init)) (q_Tail req)"
  have "distinct (map eventIdentity ?ans) \<and> eventIdentity ` set ?ans = eventIdentity ` set (planner_answer env p req)"
    using scan_merged [OF w] ids unfolding sortEvents_facts by simp
  then show ?thesis using executeFragments_ok [OF rs(1) assms(8)] sortEvents_facts(3) by blast
qed

theorem scatter_gather_exact_witness:
  "\<exists>res. executeFragments [\<lambda>i req. fst (execute_uncached sample_env 7 (sample_planner [built_chunk [sample_event 50 ''disk full'']]) req)] [0]
     (sample_query\<lparr>q_Limit := 1\<rparr>) [\<lparr>fr_PartitionKey = ''p'', fr_ChunkCount = 1\<rparr>] = Inr res \<and> \<not> r_Partial res"
proof -
  let ?p = "sample_planner [built_chunk [sample_event 50 ''disk full'']]" and ?q = "sample_query\<lparr>q_Limit := 1\<rparr>"
  have r: "planner_ready sample_env ?p ?q" by (rule sample_ready) (simp_all add: sample_built)
  then have c: "cache_coherent sample_env (pn_chunkCache ?p)" by (simp add: planner_ready_def)
  have "fst (candidateChunks id ?p ?q) = [\<lparr>fr_PartitionKey = ''p'', fr_ChunkCount = 1\<rparr>]" by code_simp
  moreover have "Query_Validate ?q = None" using r by (simp add: planner_ready_def)
  moreover obtain plan where "Explain (pe_uni sample_env) ?p ?q = Inr plan"
    using calculation(2) by (simp add: Explain_def Plan_def Let_def split_def)
  moreover have "pe_uni sample_env = id" by (simp add: sample_env_def)
  ultimately have pl: "Explain (pe_uni sample_env) ?p ?q = Inr plan" "p_Fragments plan = [\<lparr>fr_PartitionKey = ''p'', fr_ChunkCount = 1\<rparr>]"
    using Plan_fragments unfolding Explain_def by metis+
  have i: "ignores_partition sample_env" by (simp add: ignores_partition_def sample_env_def)
  have s: "\<forall>w \<in> set [\<lambda>i req. fst (execute_uncached sample_env 7 ?p req)]. serves sample_env ?p w"
    using c unfolding serves_def by auto
  have o: "CursorOffset ?q = Inr 0" by (simp add: sample_query_def CursorOffset_def)
  show ?thesis using scatter_gather_exact [OF r i pl(1) _ _ s _ o, of "[0]"] unfolding pl(2) by auto
qed

text \<open>
  The frontend reports a failed fragment and only that: a result it returns is marked partial exactly when a
  worker returned an error; that a worker's own result was partial leaves no trace.
\<close>

theorem partial_iff_worker_error:
  assumes "executeFragments workers order req fragments = Inr res"
  shows "r_Partial res \<longleftrightarrow> (\<exists>i \<in> set order. isl (fragment_reply workers req fragments i))"
proof -
  let ?m = "fold merge_item (map (fragment_reply workers req fragments) order) merge_start"
  have "r_Partial res \<longleftrightarrow> mg_firstErr ?m \<noteq> None"
    using assms by (auto simp: executeFragments_def Let_def split_def split: sum.splits option.splits list.splits)
  then show ?thesis unfolding merge_firstErr by (auto simp: merge_start_def)
qed

theorem partial_iff_worker_error_witness:
  "executeFragments [\<lambda>i req. Inr (zero_result\<lparr>r_Partial := True\<rparr>)] [0] sample_query [\<lparr>fr_PartitionKey = ''p'', fr_ChunkCount = 1\<rparr>] =
     Inr zero_result \<and> \<not> r_Partial zero_result"
proof -
  let ?w = "[\<lambda>i req. Inr (zero_result\<lparr>r_Partial := True\<rparr>)] :: worker list"
  have "executeFragments ?w [0] sample_query [\<lparr>fr_PartitionKey = ''p'', fr_ChunkCount = 1\<rparr>] = Inr zero_result" by code_simp
  from this partial_iff_worker_error [OF this] show ?thesis by (simp add: fragment_reply_def)
qed

text \<open>
  Pages of a distributed query are not stable: two workers report one event each with the same time, the
  results arrive in the other order for the second page, and the client that follows the cursor gets
  the first event twice and the second never.
\<close>

definition same_time :: "worker list" where
  "same_time = [\<lambda>i req. Inr (zero_result\<lparr>r_Events := [sample_event 50 ''a'']\<rparr>), \<lambda>i req. Inr (zero_result\<lparr>r_Events := [sample_event 50 ''b'']\<rparr>)]"

lemma pages_unstable:
  "let fs = [\<lparr>fr_PartitionKey = ''p'', fr_ChunkCount = 1\<rparr>, \<lparr>fr_PartitionKey = ''q'', fr_ChunkCount = 1\<rparr>];
       first = executeFragments same_time [0, 1] (sample_query\<lparr>q_Limit := 1\<rparr>) fs;
       second = executeFragments same_time [1, 0] (sample_query\<lparr>q_Limit := 1, q_Cursor := ''1''\<rparr>) fs in
   map_sum id r_Events first = Inr [sample_event 50 ''a''] \<and> map_sum id r_NextCursor first = Inr ''1'' \<and>
   map_sum id r_Events second = Inr [sample_event 50 ''a'']"
  by code_simp

text \<open>A querier behind the client: the status line is a function of the code, the body the encoded reply.\<close>

definition querier_transport ::
  "('s \<Rightarrow> query_request \<Rightarrow> query_result result \<times> 's) \<Rightarrow> (string \<Rightarrow> query_request result) \<Rightarrow> (querier_reply \<Rightarrow> string) \<Rightarrow> (nat \<Rightarrow> string) \<Rightarrow>
     time \<Rightarrow> 's \<Rightarrow> string \<Rightarrow> http_request \<Rightarrow> (nat \<times> string \<times> string result) result" where
  "querier_transport query decode encode line now s base r =
     (let res = fst (Querier_Handler query decode now s r) in
      Inr (h_Status res, line (h_Status res), Inr (case h_Payload res of None \<Rightarrow> [] | Some reply \<Rightarrow> encode reply)))"

text \<open>
  C9. A querier behind HTTP answers as the engine inside it: when JSON brings back the request and the result it
  was given, the client returns the engine's result unchanged, and for an engine error an error of its own;
  that error no longer is the concurrency error, so that the frontend answers 400 and not 429.
\<close>

theorem remote_querier_exact:
  assumes "marshal req = Inr payload" and "decode payload = Inr req" and "\<And>r. fst (query s req) = Inr r \<Longrightarrow> unmarshal (encode (Executed r)) = Inr r"
    and "c = NewHTTPQuerierClient base marshal (\<lambda>_. None) (querier_transport query decode encode line now s) unmarshal"
  shows "case fst (query s req) of
      Inr r \<Rightarrow> Client_Execute c req = Inr r
    | Inl err \<Rightarrow> \<exists>err'. Client_Execute c req = Inl err' \<and> h_Status (writeQueryError err' :: 'c frontend_reply http_response) = 400"
proof -
  obtain res s' where q: "query s req = (res, s')" by (cases "query s req")
  let ?h = "Querier_Handler query decode now s"
  have "?h \<lparr>h_Method = ''POST'', h_Path = ''/internal/v1/execute'', h_Query = [], h_Header = hd, h_Body = payload\<rparr> =
     (case res of Inl err \<Rightarrow> (WriteJSON (if errors_is err ErrQueryConcurrencyExceeded then 429 else 400) (ExecuteError err), s')
      | Inr r \<Rightarrow> (WriteJSON 200 (Executed r), s'))" for hd
    by (simp add: Querier_Handler_def RegisterBaseRoutes_def handleExecute_def assms(2) q)
  then show ?thesis
    using assms(1,3) q unfolding assms(4)
    by (cases res) (auto simp: Client_Execute_def NewHTTPQuerierClient_def querier_transport_def Let_def writeQueryError_def)
qed

theorem remote_querier_exact_witness:
  "Client_Execute (NewHTTPQuerierClient ''http://q/'' (\<lambda>_. Inr ''j'') (\<lambda>_. None)
      (querier_transport (\<lambda>s req. (Inr zero_result, s)) (\<lambda>_. Inr sample_query) (\<lambda>_. ''r'') (\<lambda>_. ''200 OK'') 0 (3::nat))
      (\<lambda>_. Inr zero_result)) sample_query = Inr zero_result"
  using remote_querier_exact [where marshal = "\<lambda>_. Inr ''j''" and decode = "\<lambda>_. Inr sample_query" and encode = "\<lambda>_. ''r''"
      and unmarshal = "\<lambda>_. Inr zero_result" and query = "\<lambda>s req. (Inr zero_result, s)", OF refl refl _ refl]
  by simp

end
