(* ===== verification/Audit_Trail.thy ===== *)
theory Audit_Trail
  imports Object_Store Wal
begin

text \<open>
  Appending to a log file, as the control plane and the request guard do for their audit trails: the
  calls of the operating system on the file system of \<open>Object_Store\<close>, with its faults, and the sequence
  of calls both services make.
\<close>

section \<open>Operations\<close>

text \<open>\<open>os.OpenFile\<close> with \<open>O_CREATE | O_WRONLY | O_APPEND\<close>: creates the file when it is missing.\<close>

definition os_OpenAppend :: "time \<Rightarrow> fsys \<Rightarrow> path \<Rightarrow> goerror option \<times> fsys" where
  "os_OpenAppend now fs p = (case next_fault fs of
       (Some (err, _), fs) \<Rightarrow> (Some err, fs)
     | (None, fs) \<Rightarrow>
         if map_of (fs_files fs) p \<noteq> None then (None, fs)
         else if p \<in> set (fs_dirs fs) then (Some (IOError ''is a directory''), fs)
         else if butlast p \<notin> set (fs_dirs fs) then (Some (lookup_error fs p), fs)
         else (None, fs\<lparr>fs_files := AList.update p ([], now) (fs_files fs)\<rparr>))"

text \<open>A write to the open file goes to its end; a fault may leave a part of it.\<close>

definition os_Append :: "time \<Rightarrow> fsys \<Rightarrow> path \<Rightarrow> string \<Rightarrow> goerror option \<times> fsys" where
  "os_Append now fs p data =
     (let old = (case map_of (fs_files fs) p of Some (d, _) \<Rightarrow> d | None \<Rightarrow> []) in
      case next_fault fs of
        (Some (err, n), fs) \<Rightarrow> (Some err, fs\<lparr>fs_files := AList.update p (old @ take n data, now) (fs_files fs)\<rparr>)
      | (None, fs) \<Rightarrow> (None, fs\<lparr>fs_files := AList.update p (old @ data, now) (fs_files fs)\<rparr>))"

definition append_line :: "time \<Rightarrow> fsys \<Rightarrow> path \<Rightarrow> string \<Rightarrow> goerror option \<times> fsys" where
  "append_line now fs p data =
     (case os_MkdirAll fs (butlast p) of (Some err, fs) \<Rightarrow> (Some err, fs) | (None, fs) \<Rightarrow>
      case os_OpenAppend now fs p of (Some err, fs) \<Rightarrow> (Some err, fs) | (None, fs) \<Rightarrow>
        os_Append now fs p (data @ [newline]))"

section \<open>The log only grows\<close>

lemma mkdir_list_files: "fs_files (snd (mkdir_list ps fs)) = fs_files fs"
  by (induction ps arbitrary: fs) simp_all

lemma next_fault_files: "fs_files (snd (next_fault fs)) = fs_files fs"
  by (simp add: next_fault_def split: list.split)

lemma MkdirAll_files: "os_MkdirAll fs p = (r, fs') \<Longrightarrow> fs_files fs' = fs_files fs"
  by (auto simp: os_MkdirAll_def split: prod.splits option.splits)
    (metis next_fault_files snd_conv mkdir_list_files)+

lemma OpenAppend_files:
  assumes "os_OpenAppend now fs p = (r, fs')"
  shows "file_content fs' q = file_content fs q \<or> q = p \<and> file_content fs q = None \<and> file_content fs' q = Some []"
proof -
  obtain f fs1 where f: "next_fault fs = (f, fs1)" by (cases "next_fault fs")
  then have "fs_files fs1 = fs_files fs" using next_fault_files [of fs] by simp
  then show ?thesis
    using assms f by (cases "map_of (fs_files fs) p") (auto simp: os_OpenAppend_def file_content_def update_conv' split: option.splits if_splits)
qed

lemma Append_files:
  assumes "os_Append now fs p data = (r, fs')"
  shows "\<exists>n. file_content fs' = (file_content fs)(p \<mapsto> (case file_content fs p of None \<Rightarrow> [] | Some d \<Rightarrow> d) @ take n data)"
    and "r = None \<Longrightarrow> file_content fs' = (file_content fs)(p \<mapsto> (case file_content fs p of None \<Rightarrow> [] | Some d \<Rightarrow> d) @ data)"
proof -
  obtain f fs1 where f: "next_fault fs = (f, fs1)" by (cases "next_fault fs")
  then have "fs_files fs1 = fs_files fs" using next_fault_files [of fs] by simp
  note facts = f this assms
  show all: "file_content fs' = (file_content fs)(p \<mapsto> (case file_content fs p of None \<Rightarrow> [] | Some d \<Rightarrow> d) @ data)" if "r = None"
    using facts that
    by (auto simp: os_Append_def Let_def file_content_def fun_eq_iff update_conv' split: option.splits prod.splits)
  show "\<exists>n. file_content fs' = (file_content fs)(p \<mapsto> (case file_content fs p of None \<Rightarrow> [] | Some d \<Rightarrow> d) @ take n data)"
  proof (cases f)
    case None
    then have "r = None" using facts by (simp add: os_Append_def Let_def)
    then show ?thesis using all by (metis take_all_iff order_refl)
  next
    case (Some e)
    obtain err n where "e = (err, n)" by (cases e)
    then show ?thesis using Some facts
      by (intro exI [of _ n]) (auto simp: os_Append_def Let_def file_content_def fun_eq_iff update_conv' split: option.splits prod.splits)
  qed
qed

text \<open>Whatever fails, other files stay and the log keeps what it held.\<close>

lemma append_line_grows:
  assumes "append_line now fs p data = (r, fs')"
  shows "q \<noteq> p \<Longrightarrow> file_content fs' q = file_content fs q"
    and "prefix (case file_content fs p of None \<Rightarrow> [] | Some d \<Rightarrow> d) (case file_content fs' p of None \<Rightarrow> [] | Some d \<Rightarrow> d)"
    and "r = None \<Longrightarrow> file_content fs' p = Some ((case file_content fs p of None \<Rightarrow> [] | Some d \<Rightarrow> d) @ data @ [newline])"
proof -
  obtain r1 fs1 where m: "os_MkdirAll fs (butlast p) = (r1, fs1)" by (cases "os_MkdirAll fs (butlast p)")
  obtain r2 fs2 where o: "os_OpenAppend now fs1 p = (r2, fs2)" by (cases "os_OpenAppend now fs1 p")
  obtain r3 fs3 where a: "os_Append now fs2 p (data @ [newline]) = (r3, fs3)" by (cases "os_Append now fs2 p (data @ [newline])")
  have m': "file_content fs1 = file_content fs" using MkdirAll_files [OF m] by (simp add: file_content_def fun_eq_iff)
  note o' = OpenAppend_files [OF o, unfolded m']
  note a' = Append_files [OF a]
  have c: "fs' = fs1 \<and> r \<noteq> None \<or> fs' = fs2 \<and> r \<noteq> None \<or> fs' = fs3 \<and> r = r3"
    using assms m o a by (auto simp: append_line_def split: option.splits)
  show "file_content fs' q = file_content fs q" if "q \<noteq> p"
    using c a'(1) o' [of q] that m' by (auto simp: fun_upd_apply)
  show "prefix (case file_content fs p of None \<Rightarrow> [] | Some d \<Rightarrow> d) (case file_content fs' p of None \<Rightarrow> [] | Some d \<Rightarrow> d)"
    using c a'(1) o' [of p] m' by (auto split: option.splits)
  show "file_content fs' p = Some ((case file_content fs p of None \<Rightarrow> [] | Some d \<Rightarrow> d) @ data @ [newline])" if "r = None"
    using c a'(2) o' [of p] that by auto
qed

end
