(* ===== verification/Control_Plane.thy ===== *)
theory Control_Plane
  imports Tenant_Store Audit_Trail Descriptors
begin

text \<open>
  The control plane (\<open>internal/services/controlplane\<close>): the administration of tenants over HTTP, with the
  checks a configuration must pass and an audit trail. Its state is the tenant store and the file
  system that holds the snapshot and the audit log. JSON is a parameter, \<open>now n\<close> the \<open>n\<close>th clock reading of a
  request. The store is the one with a snapshot file; the variant with a database is not modelled.
\<close>

section \<open>Data\<close>

record control_plane =
  ct_store :: tenant_store
  ct_fs :: fsys
  ct_snapshot :: path
  ct_auditPath :: path

record audit_record =
  au_Timestamp :: time
  au_Action :: string
  au_TenantID :: string
  au_Outcome :: string
  au_Error :: "goerror option"
  au_Before :: "tenant_config option"
  au_After :: "tenant_config option"

record pipelines_update =
  pu_Pipelines :: "parse_pipeline list"
  pu_ActivePipelineID :: string

record control_env =
  ce_uni :: "string \<Rightarrow> string"
  ce_codec :: snapshot_codec
  ce_marshalAudit :: "audit_record \<Rightarrow> string result"
  ce_decodeTenant :: "string \<Rightarrow> tenant_config result"
  ce_decodeLimits :: "string \<Rightarrow> tenant_limits result"
  ce_decodePipelines :: "string \<Rightarrow> pipelines_update result"
  ce_decodeFields :: "string \<Rightarrow> string list result"

datatype control_reply =
    ControlError goerror
  | ControlTenant tenant_config
  | ControlTenants path nat "tenant_config list"
  | ControlBase base_reply

section \<open>Construction\<close>

definition ControlPlane_NewServer :: "control_env \<Rightarrow> time \<Rightarrow> fsys \<Rightarrow> control_plane result" where
  "ControlPlane_NewServer env now fs =
     (let snapshot = [''control'', ''tenants.json''] in
      case NewPersistentStore (ce_codec env) now fs snapshot of
        (Inl err, fs) \<Rightarrow> Inl err
      | (Inr store, fs) \<Rightarrow> Inr \<lparr>ct_store = store, ct_fs = fs, ct_snapshot = snapshot, ct_auditPath = [''control'', ''audit.log'']\<rparr>)"

section \<open>What a configuration must satisfy\<close>

definition validatePipelineStage :: "(string \<Rightarrow> string) \<Rightarrow> pipeline_stage \<Rightarrow> goerror option" where
  "validatePipelineStage uni stage =
     (if ToLower uni (TrimSpace (st_Type stage)) \<in> {''json'', ''logfmt'', ''regex'', ''static'', ''timestamp'', ''severity'', ''drop'', ''rename'', ''redact''}
      then None else Some (Errorf ''unsupported pipeline stage type %q'' [st_Type stage]))"

fun validate_stages :: "(string \<Rightarrow> string) \<Rightarrow> string \<Rightarrow> pipeline_stage list \<Rightarrow> goerror option" where
  "validate_stages uni i [] = None"
| "validate_stages uni i (stage # stages) = (case validatePipelineStage uni stage of
     Some err \<Rightarrow> Some (Wrap ''pipeline %q: %w'' [i] err) | None \<Rightarrow> validate_stages uni i stages)"

fun validate_pipelines :: "(string \<Rightarrow> string) \<Rightarrow> parse_pipeline list \<Rightarrow> string list \<Rightarrow> goerror + string list" where
  "validate_pipelines uni [] ids = Inr ids"
| "validate_pipelines uni (p # ps) ids =
     (if TrimSpace (pl_ID p) = [] then Inl (Errorf ''pipeline id is required'' [])
      else if pl_ID p \<in> set ids then Inl (Errorf ''duplicate pipeline id %q'' [pl_ID p])
      else case validate_stages uni (pl_ID p) (pl_Stages p) of Some err \<Rightarrow> Inl err
      | None \<Rightarrow> validate_pipelines uni ps (pl_ID p # ids))"

definition validatePipelineCompatibility :: "(string \<Rightarrow> string) \<Rightarrow> parse_pipeline list \<Rightarrow> string \<Rightarrow> goerror option" where
  "validatePipelineCompatibility uni pipelines activeID =
     (case validate_pipelines uni pipelines [] of Inl err \<Rightarrow> Some err | Inr ids \<Rightarrow>
      if pipelines = [] then
        (if TrimSpace activeID \<noteq> [] then Some (Errorf ''active_pipeline_id must be empty when no pipelines are configured'' []) else None)
      else if activeID \<notin> set ids then Some (Errorf ''active_pipeline_id %q does not match any configured pipeline'' [activeID])
      else None)"

fun validate_fields :: "string list \<Rightarrow> string list \<Rightarrow> goerror + string list" where
  "validate_fields [] seen = Inr seen"
| "validate_fields (field # rest) seen =
     (let field = TrimSpace field in
      if field = [] then Inl (Errorf ''searchable field cannot be empty'' [])
      else if field \<in> set seen then Inl (Errorf ''duplicate searchable field %q'' [field])
      else validate_fields rest (field # seen))"

definition validateSearchableFieldCompatibility :: "tenant_config option \<Rightarrow> tenant_config \<Rightarrow> goerror option" where
  "validateSearchableFieldCompatibility before after =
     (if t_SearchableFields after = [] then None else
      case validate_fields (t_SearchableFields after) [] of Inl err \<Rightarrow> Some err | Inr seen \<Rightarrow>
      case before of None \<Rightarrow> None | Some b \<Rightarrow>
      if t_SearchableFields b = [] then None
      else if length (filter (\<lambda>field. field \<in> set (t_SearchableFields b)) seen) = 0
      then Some (Errorf ''searchable field update must preserve at least one existing field'' [])
      else None)"

definition validateTenantPolicyCompatibility :: "(string \<Rightarrow> string) \<Rightarrow> tenant_config option \<Rightarrow> tenant_config \<Rightarrow> goerror option" where
  "validateTenantPolicyCompatibility uni before after =
     (case TenantConfig_Validate after of Some err \<Rightarrow> Some err | None \<Rightarrow>
      case validatePipelineCompatibility uni (t_Pipelines after) (t_ActivePipelineID after) of Some err \<Rightarrow> Some err | None \<Rightarrow>
      validateSearchableFieldCompatibility before after)"

section \<open>Operations\<close>

definition auditMutation ::
  "control_env \<Rightarrow> time \<Rightarrow> control_plane \<Rightarrow> string \<Rightarrow> string \<Rightarrow> tenant_config option \<Rightarrow> tenant_config option \<Rightarrow> string \<Rightarrow> goerror option \<Rightarrow>
     goerror option \<times> control_plane" where
  "auditMutation env now s action tenantID before after outcome err =
     (if ct_auditPath s = [] then (None, s) else
      case ce_marshalAudit env \<lparr>au_Timestamp = now, au_Action = action, au_TenantID = tenantID, au_Outcome = outcome, au_Error = err,
          au_Before = before, au_After = after\<rparr> of
        Inl err \<Rightarrow> (Some err, s)
      | Inr data \<Rightarrow> (case append_line now (ct_fs s) (ct_auditPath s) data of (r, fs) \<Rightarrow> (r, s\<lparr>ct_fs := fs\<rparr>)))"

definition ct_refresh :: "control_env \<Rightarrow> control_plane \<Rightarrow> control_plane" where
  "ct_refresh env s = (case ReloadIfModified (ce_codec env) (ct_store s) (ct_fs s) of (_, store, fs) \<Rightarrow> s\<lparr>ct_store := store, ct_fs := fs\<rparr>)"

text \<open>The end of every mutation: check the new configuration, store it, write the audit record, reply.\<close>

definition commit_tenant ::
  "control_env \<Rightarrow> (nat \<Rightarrow> time) \<Rightarrow> control_plane \<Rightarrow> string \<Rightarrow> string \<Rightarrow> tenant_config option \<Rightarrow> tenant_config \<Rightarrow> nat \<Rightarrow>
     control_reply http_response \<times> control_plane" where
  "commit_tenant env now s action tenantID before after success =
     (case validateTenantPolicyCompatibility (ce_uni env) before after of
        Some err \<Rightarrow> (WriteJSON 400 (ControlError err), snd (auditMutation env (now 2) s action tenantID before (Some after) ''rejected'' (Some err)))
      | None \<Rightarrow>
          (case Tenant_Put (ce_codec env) (now 1) (ct_store s) (ct_fs s) after of
             (Some err, store, fs) \<Rightarrow> (WriteJSON 500 (ControlError err),
               snd (auditMutation env (now 2) (s\<lparr>ct_store := store, ct_fs := fs\<rparr>) action tenantID before (Some after) ''error'' (Some err)))
           | (None, store, fs) \<Rightarrow> (WriteJSON success (ControlTenant after),
               snd (auditMutation env (now 2) (s\<lparr>ct_store := store, ct_fs := fs\<rparr>) action tenantID before (Some after) ''accepted'' None))))"

definition zero_limits :: tenant_limits where
  "zero_limits = \<lparr>IngestRateMBPerSecond = 0, QueryConcurrency = 0, MaxLabelsPerStream = 0, MaxBodyBytes = 0, MaxParsedFields = 0,
     MaxFieldValueBytes = 0, RetentionClass = [], Retention = 0\<rparr>"

text \<open>The default configuration overlaid with what the request sets.\<close>

definition requested_tenant :: "time \<Rightarrow> tenant_config \<Rightarrow> tenant_config" where
  "requested_tenant now req =
     (let t = (DefaultTenantConfig now)\<lparr>t_ID := TrimSpace (t_ID req)\<rparr>;
          t = (if TrimSpace (t_Name req) \<noteq> [] then t\<lparr>t_Name := t_Name req\<rparr> else t);
          t = (if 0 < length (t_SearchableFields req) then t\<lparr>t_SearchableFields := t_SearchableFields req\<rparr> else t);
          t = (if 0 < length (t_ReservedLabels req) then t\<lparr>t_ReservedLabels := t_ReservedLabels req\<rparr> else t);
          t = (if 0 < length (t_LabelPromotionAllow req) then t\<lparr>t_LabelPromotionAllow := t_LabelPromotionAllow req\<rparr> else t);
          t = (if 0 < length (t_LabelPromotionDeny req) then t\<lparr>t_LabelPromotionDeny := t_LabelPromotionDeny req\<rparr> else t);
          t = (if 0 < length (t_StructuredFieldPolicy req) then t\<lparr>t_StructuredFieldPolicy := t_StructuredFieldPolicy req\<rparr> else t);
          t = (if 0 < length (t_Pipelines req) then t\<lparr>t_Pipelines := t_Pipelines req\<rparr> else t);
          t = (if t_ActivePipelineID req \<noteq> [] then t\<lparr>t_ActivePipelineID := t_ActivePipelineID req\<rparr> else t)
      in if t_Limits req \<noteq> zero_limits then t\<lparr>t_Limits := t_Limits req\<rparr> else t)"

definition createTenant ::
  "control_env \<Rightarrow> (nat \<Rightarrow> time) \<Rightarrow> control_plane \<Rightarrow> http_request \<Rightarrow> control_reply http_response \<times> control_plane" where
  "createTenant env now s r =
     (case ce_decodeTenant env (h_Body r) of Inl err \<Rightarrow> (WriteJSON 400 (ControlError err), s) | Inr req \<Rightarrow>
      if TrimSpace (t_ID req) = [] then (WriteJSON 400 (ControlError (Errorf ''tenant id is required'' [])), s)
      else let t = requested_tenant (now 0) req in commit_tenant env now s ''create_tenant'' (t_ID t) None t 201)"

text \<open>A tenant that cannot be read: 404 when it does not exist.\<close>

definition lookup_failed :: "goerror \<Rightarrow> control_reply http_response" where
  "lookup_failed err = WriteJSON (if errors_is err ErrTenantNotFound then 404 else 500) (ControlError err)"

definition updateLimits ::
  "control_env \<Rightarrow> (nat \<Rightarrow> time) \<Rightarrow> control_plane \<Rightarrow> http_request \<Rightarrow> string \<Rightarrow> control_reply http_response \<times> control_plane" where
  "updateLimits env now s r tenantID =
     (case ce_decodeLimits env (h_Body r) of Inl err \<Rightarrow> (WriteJSON 400 (ControlError err), s) | Inr req \<Rightarrow>
      case GetTenant (ct_store s) tenantID of Inl err \<Rightarrow> (lookup_failed err, s) | Inr t \<Rightarrow>
      commit_tenant env now s ''update_limits'' tenantID None (t\<lparr>t_Limits := req\<rparr>) 200)"

definition updatePipelines ::
  "control_env \<Rightarrow> (nat \<Rightarrow> time) \<Rightarrow> control_plane \<Rightarrow> http_request \<Rightarrow> string \<Rightarrow> control_reply http_response \<times> control_plane" where
  "updatePipelines env now s r tenantID =
     (case ce_decodePipelines env (h_Body r) of Inl err \<Rightarrow> (WriteJSON 400 (ControlError err), s) | Inr req \<Rightarrow>
      case GetTenant (ct_store s) tenantID of Inl err \<Rightarrow> (lookup_failed err, s) | Inr t \<Rightarrow>
      commit_tenant env now s ''update_pipelines'' tenantID (Some t)
        (t\<lparr>t_Pipelines := pu_Pipelines req, t_ActivePipelineID := pu_ActivePipelineID req\<rparr>) 200)"

definition updateSearchableFields ::
  "control_env \<Rightarrow> (nat \<Rightarrow> time) \<Rightarrow> control_plane \<Rightarrow> http_request \<Rightarrow> string \<Rightarrow> control_reply http_response \<times> control_plane" where
  "updateSearchableFields env now s r tenantID =
     (case ce_decodeFields env (h_Body r) of Inl err \<Rightarrow> (WriteJSON 400 (ControlError err), s) | Inr req \<Rightarrow>
      case GetTenant (ct_store s) tenantID of Inl err \<Rightarrow> (lookup_failed err, s) | Inr t \<Rightarrow>
      commit_tenant env now s ''update_searchable_fields'' tenantID (Some t) (t\<lparr>t_SearchableFields := req\<rparr>) 200)"

definition parseTenantAction :: "string \<Rightarrow> (string \<times> string) option" where
  "parseTenantAction path =
     (case split_char (CHR ''/'') (TrimChars (TrimPrefix path ''/api/admin/tenants/'') ''/'') of
        [tenantID, action] \<Rightarrow> Some (tenantID, action) | _ \<Rightarrow> None)"

definition handleTenants ::
  "control_env \<Rightarrow> (nat \<Rightarrow> time) \<Rightarrow> control_plane \<Rightarrow> http_request \<Rightarrow> control_reply http_response \<times> control_plane" where
  "handleTenants env now s r =
     (if h_Method r = ''GET'' then
        (let s = ct_refresh env s; tenants = Tenant_List (ct_store s)
         in (WriteJSON 200 (ControlTenants (ct_snapshot s) (length tenants) tenants), s))
      else if h_Method r = ''POST'' then createTenant env now s r
      else (WriteHeader 405, s))"

definition handleTenantMutation ::
  "control_env \<Rightarrow> (nat \<Rightarrow> time) \<Rightarrow> control_plane \<Rightarrow> http_request \<Rightarrow> control_reply http_response \<times> control_plane" where
  "handleTenantMutation env now s r =
     (if h_Method r \<noteq> ''PUT'' then (WriteHeader 405, s) else
      case parseTenantAction (h_Path r) of None \<Rightarrow> (NotFound, s) | Some (tenantID, action) \<Rightarrow>
      let s = ct_refresh env s in
      if action = ''limits'' then updateLimits env now s r tenantID
      else if action = ''pipelines'' then updatePipelines env now s r tenantID
      else if action = ''searchable-fields'' then updateSearchableFields env now s r tenantID
      else (NotFound, s))"

definition ControlPlane_Handler ::
  "control_env \<Rightarrow> (nat \<Rightarrow> time) \<Rightarrow> control_plane \<Rightarrow> http_request \<Rightarrow> control_reply http_response \<times> control_plane" where
  "ControlPlane_Handler env now s r =
     (case RegisterBaseRoutes ControlPlane_Descriptor (now 0) r of Some res \<Rightarrow> (lift_reply ControlBase res, s) | None \<Rightarrow>
      if h_Path r = ''/api/admin/tenants'' then handleTenants env now s r
      else if starts_with (h_Path r) ''/api/admin/tenants/'' then handleTenantMutation env now s r
      else (NotFound, s))"

section \<open>The policy, declaratively\<close>

definition stage_supported :: "(string \<Rightarrow> string) \<Rightarrow> pipeline_stage \<Rightarrow> bool" where
  "stage_supported uni stage \<longleftrightarrow> validatePipelineStage uni stage = None"

definition tenant_policy :: "(string \<Rightarrow> string) \<Rightarrow> tenant_config \<Rightarrow> bool" where
  "tenant_policy uni t \<longleftrightarrow> TenantConfig_Validate t = None \<and>
     distinct (map pl_ID (t_Pipelines t)) \<and>
     list_all (\<lambda>p. TrimSpace (pl_ID p) \<noteq> [] \<and> list_all (stage_supported uni) (pl_Stages p)) (t_Pipelines t) \<and>
     (if t_Pipelines t = [] then TrimSpace (t_ActivePipelineID t) = [] else t_ActivePipelineID t \<in> pl_ID ` set (t_Pipelines t)) \<and>
     distinct (map TrimSpace (t_SearchableFields t)) \<and> list_all (\<lambda>f. TrimSpace f \<noteq> []) (t_SearchableFields t)"

lemma validate_stages_iff: "validate_stages uni i stages = None \<longleftrightarrow> list_all (stage_supported uni) stages"
  by (induction stages) (auto simp: stage_supported_def split: option.split)

lemma validate_pipelines_iff:
  "(\<exists>ids'. validate_pipelines uni ps ids = Inr ids') \<longleftrightarrow>
     distinct (map pl_ID ps) \<and> set (map pl_ID ps) \<inter> set ids = {} \<and>
     list_all (\<lambda>p. TrimSpace (pl_ID p) \<noteq> [] \<and> list_all (stage_supported uni) (pl_Stages p)) ps"
  "validate_pipelines uni ps ids = Inr ids' \<Longrightarrow> set ids' = set (map pl_ID ps) \<union> set ids"
proof (induction ps arbitrary: ids)
  case (Cons p ps)
  {
    case 1
    show ?case using Cons.IH(1) [of "pl_ID p # ids"] validate_stages_iff [of uni "pl_ID p" "pl_Stages p"]
      by (cases "validate_stages uni (pl_ID p) (pl_Stages p)") auto
  next
    case 2
    then show ?case using Cons.IH(2) [of "pl_ID p # ids"] by (auto split: if_splits option.splits)
  }
qed simp_all

lemma validate_fields_iff:
  "(\<exists>seen'. validate_fields fs seen = Inr seen') \<longleftrightarrow>
     distinct (map TrimSpace fs) \<and> set (map TrimSpace fs) \<inter> set seen = {} \<and> list_all (\<lambda>f. TrimSpace f \<noteq> []) fs"
  "validate_fields fs seen = Inr seen' \<Longrightarrow> set seen' = set (map TrimSpace fs) \<union> set seen"
  by (induction fs arbitrary: seen) (auto simp: Let_def split: if_splits)

lemma validatePipelineCompatibility_iff:
  "validatePipelineCompatibility uni ps active = None \<longleftrightarrow>
     distinct (map pl_ID ps) \<and> list_all (\<lambda>p. TrimSpace (pl_ID p) \<noteq> [] \<and> list_all (stage_supported uni) (pl_Stages p)) ps \<and>
     (if ps = [] then TrimSpace active = [] else active \<in> pl_ID ` set ps)"
proof (cases "validate_pipelines uni ps []")
  case (Inl err)
  then show ?thesis using validate_pipelines_iff(1) [of uni ps "[]"] by (auto simp: validatePipelineCompatibility_def)
next
  case (Inr ids)
  then show ?thesis
    using validate_pipelines_iff(1) [of uni ps "[]"] validate_pipelines_iff(2) [OF Inr]
    by (auto simp: validatePipelineCompatibility_def)
qed

lemma validateTenantPolicyCompatibility_iff:
  "validateTenantPolicyCompatibility uni before t = None \<longleftrightarrow> tenant_policy uni t \<and>
     (case before of None \<Rightarrow> True | Some b \<Rightarrow> t_SearchableFields t = [] \<or> t_SearchableFields b = [] \<or>
        (\<exists>f \<in> set (t_SearchableFields t). TrimSpace f \<in> set (t_SearchableFields b)))"
proof -
  have "validateSearchableFieldCompatibility before t = None \<longleftrightarrow>
     distinct (map TrimSpace (t_SearchableFields t)) \<and> list_all (\<lambda>f. TrimSpace f \<noteq> []) (t_SearchableFields t) \<and>
     (case before of None \<Rightarrow> True | Some b \<Rightarrow> t_SearchableFields t = [] \<or> t_SearchableFields b = [] \<or>
        (\<exists>f \<in> set (t_SearchableFields t). TrimSpace f \<in> set (t_SearchableFields b)))"
  proof (cases "validate_fields (t_SearchableFields t) []")
    case (Inl err)
    then show ?thesis
      using validate_fields_iff(1) [of "t_SearchableFields t" "[]"] by (auto simp: validateSearchableFieldCompatibility_def)
  next
    case (Inr seen)
    then show ?thesis
      using validate_fields_iff(1) [of "t_SearchableFields t" "[]"] validate_fields_iff(2) [OF Inr]
      by (auto simp: validateSearchableFieldCompatibility_def filter_empty_conv split: option.split)
  qed
  then show ?thesis
    by (auto simp: validateTenantPolicyCompatibility_def tenant_policy_def validatePipelineCompatibility_iff split: option.split)
qed

section \<open>What a request does to the store\<close>

lemma audit_store [simp]: "ct_store (snd (auditMutation env now s action i before after outcome err)) = ct_store s"
  by (simp add: auditMutation_def split: sum.split prod.split)

text \<open>The change \<open>Put\<close> makes to the tenants, for a valid configuration, whether or not the snapshot is written.\<close>

definition stored_as :: "time \<Rightarrow> tenant_store \<Rightarrow> tenant_config \<Rightarrow> tenant_config" where
  "stored_as now st t = t\<lparr>t_Version := ts_version st + 1, t_UpdatedAt := now\<rparr>"

lemma Tenant_Put_tenants:
  assumes "TenantConfig_Validate t = None"
  shows "ts_tenants (fst (snd (Tenant_Put codec now st fs t))) = AList.update (t_ID t) (stored_as now st t) (ts_tenants st)"
  using assms by (simp add: Tenant_Put_def Let_def stored_as_def)

text \<open>The tenants after a mutation of \<open>s0\<close>: unchanged with an error, or one tenant set to a configuration of the policy.\<close>

definition mutated :: "control_env \<Rightarrow> time \<Rightarrow> control_plane \<Rightarrow> control_reply http_response \<times> control_plane \<Rightarrow> bool" where
  "mutated env now s0 out \<longleftrightarrow> (case out of (res, s) \<Rightarrow>
     h_Status res \<in> {400, 404, 405, 500} \<and> ct_store s = ct_store s0 \<or>
     (\<exists>t. tenant_policy (ce_uni env) t \<and>
        ts_tenants (ct_store s) = AList.update (t_ID t) (stored_as now (ct_store s0) t) (ts_tenants (ct_store s0)) \<and>
        (h_Status res = 500 \<or> h_Status res \<in> {200, 201} \<and> h_Payload res = Some (ControlTenant t))))"

lemma commit_mutated:
  assumes "success \<in> {200, 201}"
  shows "mutated env (now 1) s (commit_tenant env now s action i before after success)"
proof (cases "validateTenantPolicyCompatibility (ce_uni env) before after")
  case None
  then have pol: "tenant_policy (ce_uni env) after" by (simp add: validateTenantPolicyCompatibility_iff)
  obtain r store fs where put: "Tenant_Put (ce_codec env) (now 1) (ct_store s) (ct_fs s) after = (r, store, fs)"
    by (cases "Tenant_Put (ce_codec env) (now 1) (ct_store s) (ct_fs s) after") auto
  then have "ts_tenants store = AList.update (t_ID after) (stored_as (now 1) (ct_store s) after) (ts_tenants (ct_store s))"
    using pol Tenant_Put_tenants [of after "ce_codec env" "now 1" "ct_store s" "ct_fs s"] by (simp add: tenant_policy_def)
  then show ?thesis
    using None pol put assms by (cases r) (auto simp: commit_tenant_def mutated_def)
qed (simp add: commit_tenant_def mutated_def)

lemma lookup_failed_status: "h_Status (lookup_failed err) \<in> {404, 500}"
  by (simp add: lookup_failed_def)

lemma failed_mutated: "h_Status res \<in> {400, 404, 405, 500} \<Longrightarrow> mutated env now s (res, s)"
  by (simp add: mutated_def)

lemmas update_defs = createTenant_def updateLimits_def updatePipelines_def updateSearchableFields_def

lemma updates_mutated:
  "mutated env (now 1) s (createTenant env now s r)" "mutated env (now 1) s (updateLimits env now s r i)"
  "mutated env (now 1) s (updatePipelines env now s r i)" "mutated env (now 1) s (updateSearchableFields env now s r i)"
  using lookup_failed_status
  by (auto simp: update_defs Let_def simp del: One_nat_def intro!: commit_mutated failed_mutated split: sum.split)

section \<open>What a request does to the files\<close>

text \<open>The store reads files and writes its snapshot only.\<close>

lemma read_files:
  "os_ReadFile fs p = (r, fs') \<Longrightarrow> fs_files fs' = fs_files fs" "os_Stat fs p = (r', fs') \<Longrightarrow> fs_files fs' = fs_files fs"
  using next_fault_files [of fs]
  by (auto simp: os_ReadFile_def os_Stat_def split: prod.splits option.splits if_splits)

lemma touch_files: "touch_modTime st fs = (st', fs') \<Longrightarrow> fs_files fs' = fs_files fs \<and> ts_snapshotPath st' = ts_snapshotPath st"
  by (auto simp: touch_modTime_def split: prod.splits sum.splits dest: read_files)

lemma Reload_files:
  assumes "Reload codec st fs = (r, st', fs')"
  shows "fs_files fs' = fs_files fs \<and> ts_snapshotPath st' = ts_snapshotPath st"
proof -
  obtain x fs1 where r: "os_ReadFile fs (ts_snapshotPath st) = (x, fs1)" by (cases "os_ReadFile fs (ts_snapshotPath st)")
  have "fs_files fs1 = fs_files fs" using read_files(1) [OF r] .
  then show ?thesis
    using assms r by (auto simp: Reload_def split: if_splits sum.splits dest!: touch_files)
qed

lemma ReloadIfModified_files:
  assumes "ReloadIfModified codec st fs = (r, st', fs')"
  shows "fs_files fs' = fs_files fs \<and> ts_snapshotPath st' = ts_snapshotPath st"
  using assms by (auto simp: ReloadIfModified_def split: if_splits prod.splits sum.splits option.splits dest!: read_files Reload_files)

lemma WriteFile_files: "os_WriteFile now fs p data = (r, fs') \<Longrightarrow> q \<noteq> p \<Longrightarrow> map_of (fs_files fs') q = map_of (fs_files fs) q"
  using next_fault_files [of fs]
  by (auto simp: os_WriteFile_def update_conv' split: prod.splits option.splits if_splits)

lemma Tenant_Put_files:
  assumes "Tenant_Put codec now st fs t = (r, st', fs')" and "q \<noteq> ts_snapshotPath st"
  shows "file_content fs' q = file_content fs q \<and> ts_snapshotPath st' = ts_snapshotPath st"
proof -
  let ?p = "ts_snapshotPath st"
  obtain x fs1 where m: "os_MkdirAll fs (butlast ?p) = (x, fs1)" by (cases "os_MkdirAll fs (butlast ?p)")
  have w: "map_of (fs_files fs2) q = map_of (fs_files fs) q" if "os_WriteFile now fs1 ?p data = (y, fs2)" for data y fs2
    using WriteFile_files [OF that assms(2)] MkdirAll_files [OF m] by simp
  show ?thesis
    using assms(1) m MkdirAll_files [OF m] w
    by (auto simp: Tenant_Put_def saveLocked_def Let_def file_content_def split: if_splits option.splits sum.splits prod.splits dest!: touch_files)
qed

abbreviation audit_log :: "control_plane \<Rightarrow> string" where
  "audit_log s \<equiv> (case file_content (ct_fs s) (ct_auditPath s) of None \<Rightarrow> [] | Some d \<Rightarrow> d)"

text \<open>The audit log is a file of its own and has only grown.\<close>

definition grows :: "control_plane \<Rightarrow> control_plane \<Rightarrow> bool" where
  "grows s s' \<longleftrightarrow> ct_auditPath s' = ct_auditPath s \<and> ts_snapshotPath (ct_store s') = ts_snapshotPath (ct_store s) \<and>
     prefix (audit_log s) (audit_log s')"

lemma grows_trans: "grows s s' \<Longrightarrow> grows s' s'' \<Longrightarrow> grows s s''"
  by (auto simp: grows_def)

lemma grows_refl: "grows s s"
  by (simp add: grows_def)

lemma audit_grows: "grows s (snd (auditMutation env now s action i before after outcome err))"
  by (auto simp: auditMutation_def grows_def split: sum.split prod.split dest: append_line_grows(2))

lemma refresh_grows: "grows s (ct_refresh env s)"
proof -
  obtain r st fs where f: "ReloadIfModified (ce_codec env) (ct_store s) (ct_fs s) = (r, st, fs)"
    by (cases "ReloadIfModified (ce_codec env) (ct_store s) (ct_fs s)") auto
  then show ?thesis using ReloadIfModified_files [OF f] by (simp add: ct_refresh_def grows_def file_content_def)
qed

lemma put_grows:
  assumes "Tenant_Put codec now (ct_store s) (ct_fs s) t = (r, store, fs)" and "ct_auditPath s \<noteq> ts_snapshotPath (ct_store s)"
  shows "grows s (s\<lparr>ct_store := store, ct_fs := fs\<rparr>)"
  using Tenant_Put_files [OF assms] by (simp add: grows_def)

lemma commit_grows:
  assumes "ct_auditPath s \<noteq> ts_snapshotPath (ct_store s)"
  shows "grows s (snd (commit_tenant env now s action i before after success))"
proof -
  obtain r store fs where put: "Tenant_Put (ce_codec env) (now 1) (ct_store s) (ct_fs s) after = (r, store, fs)"
    by (cases "Tenant_Put (ce_codec env) (now 1) (ct_store s) (ct_fs s) after") auto
  then show ?thesis
    using audit_grows grows_trans [OF put_grows [OF put assms] audit_grows]
    by (auto simp: commit_tenant_def split: option.split)
qed

lemma updates_grow:
  assumes "ct_auditPath s \<noteq> ts_snapshotPath (ct_store s)"
  shows "grows s (snd (createTenant env now s r))" "grows s (snd (updateLimits env now s r i))"
    "grows s (snd (updatePipelines env now s r i))" "grows s (snd (updateSearchableFields env now s r i))"
  by (auto simp: update_defs Let_def intro!: commit_grows grows_refl assms split: sum.split)

section \<open>Properties\<close>

text \<open>
  C13. The control plane admits only configurations that satisfy the policy (valid limits, distinct non-blank
  pipeline ids with supported stages and a configured active pipeline, distinct non-blank searchable fields),
  and changes one tenant at a time: a request that is not a read either is refused and leaves the
  tenants as they were, after at most a reload of the snapshot, or replaces exactly one tenant by a configuration of the policy
  with the next version; a success is answered only in the second case, with that configuration.
\<close>

theorem admin_request_effect:
  assumes "ControlPlane_Handler env now s r = (res, s')" and "h_Path r \<notin> {''/healthz'', ''/readyz'', ''/info''}" and "h_Method r \<noteq> ''GET''"
  shows "mutated env (now 1) s (res, s') \<or> mutated env (now 1) (ct_refresh env s) (res, s')"
proof -
  have b: "RegisterBaseRoutes ControlPlane_Descriptor (now 0) r = None" using assms(2) by (simp add: RegisterBaseRoutes_def)
  have "mutated env (now 1) s (handleTenants env now s r)"
    using assms(3) updates_mutated(1) by (simp add: handleTenants_def failed_mutated del: One_nat_def)
  moreover have "mutated env (now 1) s (handleTenantMutation env now s r) \<or> mutated env (now 1) (ct_refresh env s) (handleTenantMutation env now s r)"
    using updates_mutated by (auto simp: handleTenantMutation_def Let_def failed_mutated simp del: One_nat_def split: option.split)
  moreover have "mutated env (now 1) s (NotFound, s)" by (simp add: failed_mutated)
  ultimately show ?thesis using assms(1) b by (auto simp: ControlPlane_Handler_def simp del: One_nat_def split: if_splits)
qed

text \<open>A request over a store without a snapshot file.\<close>

definition sample_env_ct :: control_env where
  "sample_env_ct = \<lparr>ce_uni = id, ce_codec = \<lparr>sn_Marshal = (\<lambda>_. Inr []), sn_Unmarshal = (\<lambda>_. Inl ErrNotExist)\<rparr>, ce_marshalAudit = (\<lambda>a. Inr (au_Outcome a)),
     ce_decodeTenant = (\<lambda>_. Inl ErrNotExist), ce_decodeLimits = (\<lambda>_. Inr ((t_Limits (DefaultTenantConfig 0))\<lparr>QueryConcurrency := 3\<rparr>)),
     ce_decodePipelines = (\<lambda>_. Inl ErrNotExist), ce_decodeFields = (\<lambda>_. Inl ErrNotExist)\<rparr>"

definition sample_control :: control_plane where
  "sample_control = \<lparr>ct_store = NewStoreWithDefaults 5, ct_fs = \<lparr>fs_files = [], fs_dirs = [[]], fs_faults = []\<rparr>, ct_snapshot = [], ct_auditPath = [''audit.log'']\<rparr>"

definition sample_put_request :: "string \<Rightarrow> http_request" where
  "sample_put_request action = \<lparr>h_Method = ''PUT'', h_Path = ''/api/admin/tenants/default/'' @ action, h_Query = [], h_Header = [], h_Body = []\<rparr>"

lemma sample_put_limits:
  "h_Status (fst (ControlPlane_Handler sample_env_ct (\<lambda>n. 9) sample_control (sample_put_request ''limits''))) = 200 \<and>
   file_content (ct_fs (snd (ControlPlane_Handler sample_env_ct (\<lambda>n. 9) sample_control (sample_put_request ''limits'')))) [''audit.log''] =
     Some (''accepted'' @ [newline])"
  by code_simp

theorem admin_request_effect_witness:
  "\<exists>t. tenant_policy id t \<and> map_of (ts_tenants (ct_store (snd (ControlPlane_Handler sample_env_ct (\<lambda>n. 9) sample_control
     (sample_put_request ''limits''))))) (t_ID t) = Some (t\<lparr>t_Version := 2, t_UpdatedAt := 9\<rparr>)"
proof -
  let ?h = "ControlPlane_Handler sample_env_ct (\<lambda>n. 9) sample_control (sample_put_request ''limits'')"
  have "ct_refresh sample_env_ct sample_control = sample_control"
    by (simp add: ct_refresh_def ReloadIfModified_def sample_control_def NewStoreWithDefaults_def NewTenantStore_def Let_def)
  moreover have "mutated sample_env_ct 9 sample_control (fst ?h, snd ?h) \<or> mutated sample_env_ct 9 (ct_refresh sample_env_ct sample_control) (fst ?h, snd ?h)"
    by (rule admin_request_effect [where now = "\<lambda>n. 9" and r = "sample_put_request ''limits''"]) (simp_all add: sample_put_request_def)
  ultimately have "mutated sample_env_ct 9 sample_control (fst ?h, snd ?h)" by simp
  moreover have "ts_version (ct_store sample_control) = 1" by code_simp
  moreover have "ce_uni sample_env_ct = id" by (simp add: sample_env_ct_def)
  ultimately show ?thesis
    using sample_put_limits by (auto simp: mutated_def stored_as_def update_conv')
qed

text \<open>
  The audit trail is append-only: no request, whatever the file system answers, removes or changes what the
  audit log held.
\<close>

theorem audit_append_only:
  assumes "ControlPlane_Handler env now s r = (res, s')" and "ct_auditPath s \<noteq> ts_snapshotPath (ct_store s)"
  shows "prefix (audit_log s) (audit_log s') \<and> ct_auditPath s' \<noteq> ts_snapshotPath (ct_store s')"
proof -
  have ref: "ct_auditPath (ct_refresh env s) \<noteq> ts_snapshotPath (ct_store (ct_refresh env s))"
    using refresh_grows [of s env] assms(2) by (simp add: grows_def)
  note up = updates_grow [OF ref, THEN grows_trans [OF refresh_grows [of s env]]]
  have "grows s (snd (ControlPlane_Handler env now s r))"
    using updates_grow [OF assms(2)] up grows_refl refresh_grows
    by (simp add: ControlPlane_Handler_def handleTenants_def handleTenantMutation_def Let_def split: option.split)
  then have "grows s s'" using assms(1) by simp
  then show ?thesis using assms(2) unfolding grows_def by metis
qed

definition sample_control' :: control_plane where
  "sample_control' = snd (ControlPlane_Handler sample_env_ct (\<lambda>n. 9) sample_control (sample_put_request ''limits''))"

theorem audit_append_only_witness:
  "prefix (''accepted'' @ [newline]) (audit_log (snd (ControlPlane_Handler sample_env_ct (\<lambda>n. 9) sample_control' (sample_put_request ''pipelines''))))"
proof -
  have "ct_auditPath sample_control' = [''audit.log''] \<and> ts_snapshotPath (ct_store sample_control') = []" by code_simp
  moreover have "file_content (ct_fs sample_control') [''audit.log''] = Some (''accepted'' @ [newline])" by code_simp
  ultimately show ?thesis
    using audit_append_only [OF prod.collapse [symmetric], of sample_control' sample_env_ct "\<lambda>n. 9" "sample_put_request ''pipelines''"] by simp
qed

end
