(* ===== verification/Distributor.thy ===== *)
theory Distributor
  imports Ring Admission Tenant_Store Descriptors Go_Format
begin

text \<open>
  The distributor (\<open>internal/services/distributor\<close>) and the acknowledgment types of
  \<open>internal/engine/distribution\<close>: it checks an event against its tenant's limits, charges the ingest limiter, places
  the event on members of the ring and reports the members; and it serves the administration of
  the ring. Its parameters are those of the components it calls: the ring backend, SHA-256 and hex, the
  floating-point rounding \<open>fl\<close>, the JSON codecs. \<open>now n\<close> is the \<open>n\<close>th clock reading of a request. A handler that panics, so that the
  connection is closed without a reply, is \<open>None\<close>.
\<close>

section \<open>Data\<close>

record acknowledgment =
  ak_RequiredAcks :: int
  ak_AvailableAcks :: int
  ak_AckedMembers :: "member list"
  ak_MissingMembers :: "member list"
  ak_PartialSuccess :: bool
  ak_Strict :: bool
  ak_Status :: string

record backpressure =
  bp_Allowed :: bool
  bp_Reason :: string
  bp_RetryAfter :: string
  bp_UsedBytes :: int
  bp_LimitBytes :: int

record route_request =
  rq_Event :: event
  rq_RequiredAcks :: int
  rq_Strict :: bool

text \<open>The tenant store is nil when its snapshot could not be read at start.\<close>

record 'b distributor =
  di_backend :: 'b
  di_coordinator :: coordinator
  di_tenants :: "tenant_store option"
  di_fs :: fsys
  di_limiter :: ingest_limiter
  di_local :: member

record 'b distributor_env =
  de_B :: "'b backend"
  de_sha :: "string \<Rightarrow> string"
  de_hex :: "string \<Rightarrow> string"
  de_fl :: "rat \<Rightarrow> rat"
  de_codec :: snapshot_codec
  de_snapshot :: "string \<Rightarrow> int \<Rightarrow> member list \<Rightarrow> string result"
  de_decodeRoute :: "string \<Rightarrow> route_request result"
  de_decodeMember :: "string \<Rightarrow> (member \<times> int) result"
  de_decodeState :: "string \<Rightarrow> (string \<times> int) result"

datatype distributor_reply =
    DistError goerror
  | DistBackpressure string backpressure
  | DistRouted event assignment acknowledgment backpressure
  | DistRing string
  | DistMembers "member list" member
  | DistMember member
  | DistDeleted string
  | DistAssignment assignment
  | DistRebalance rebalance_report
  | DistBase base_reply

type_synonym dist_response = "distributor_reply http_response"

section \<open>Construction\<close>

definition local_member :: member where
  "local_member = \<lparr>m_ID = ''distributor-1'', m_Address = ''127.0.0.1:9095'', m_Zone = [], m_State = StateReady, m_LeaseID = 0, m_UpdatedAt = 0\<rparr>"

definition zero_member :: member where
  "zero_member = \<lparr>m_ID = [], m_Address = [], m_Zone = [], m_State = [], m_LeaseID = 0, m_UpdatedAt = 0\<rparr>"

definition Distributor_NewServer :: "snapshot_codec \<Rightarrow> (nat \<Rightarrow> time) \<Rightarrow> fsys \<Rightarrow> memory_backend distributor" where
  "Distributor_NewServer codec now fs =
     (let coordinator = NewCoordinator ''/logagg/ring'' 2;
          (registered, backend) = Register MemoryBackend (now 0) coordinator NewMemoryBackend local_member 30;
          (store, fs) = NewPersistentStore codec (now 1) fs [''control'', ''tenants.json'']
      in \<lparr>di_backend = backend, di_coordinator = coordinator,
          di_tenants = (case store of Inl _ \<Rightarrow> None | Inr s \<Rightarrow> Some s), di_fs = fs, di_limiter = NewLimiter,
          di_local = (case registered of Inl _ \<Rightarrow> zero_member | Inr m \<Rightarrow> m)\<rparr>)"

text \<open>\<open>NewServerWithDeps\<close>; \<open>None\<close> is a nil dependency.\<close>

definition Distributor_NewServerWithDeps ::
  "time \<Rightarrow> 'b \<Rightarrow> coordinator \<Rightarrow> member \<Rightarrow> tenant_store option \<Rightarrow> fsys \<Rightarrow> ingest_limiter option \<Rightarrow> 'b distributor" where
  "Distributor_NewServerWithDeps now backend coordinator m tenantStore fs limiter =
     \<lparr>di_backend = backend, di_coordinator = coordinator,
      di_tenants = Some (case tenantStore of None \<Rightarrow> NewStoreWithDefaults now | Some s \<Rightarrow> s), di_fs = fs,
      di_limiter = (case limiter of None \<Rightarrow> NewLimiter | Some l \<Rightarrow> l), di_local = m\<rparr>"

definition NewServerWithCoordinator :: "time \<Rightarrow> 'b \<Rightarrow> coordinator \<Rightarrow> member \<Rightarrow> fsys \<Rightarrow> 'b distributor" where
  "NewServerWithCoordinator now backend coordinator m fs =
     \<lparr>di_backend = backend, di_coordinator = coordinator, di_tenants = Some (NewStoreWithDefaults now), di_fs = fs,
      di_limiter = NewLimiter, di_local = m\<rparr>"

section \<open>Operations\<close>

definition di_refresh :: "'b distributor_env \<Rightarrow> 'b distributor \<Rightarrow> goerror option \<times> 'b distributor" where
  "di_refresh env s = (case di_tenants s of None \<Rightarrow> (None, s) | Some st \<Rightarrow>
     case ReloadIfModified (de_codec env) st (di_fs s) of
       (Inl err, st, fs) \<Rightarrow> (Some err, s\<lparr>di_tenants := Some st, di_fs := fs\<rparr>)
     | (Inr _, st, fs) \<Rightarrow> (None, s\<lparr>di_tenants := Some st, di_fs := fs\<rparr>))"

definition buildAck :: "assignment \<Rightarrow> int \<Rightarrow> bool \<Rightarrow> acknowledgment" where
  "buildAck a requiredAcks strict =
     (let acked = [as_Primary a] @ as_Replicas a;
          available = int (length acked);
          requiredAcks = (if requiredAcks \<le> 0 then available else requiredAcks);
          ack = \<lparr>ak_RequiredAcks = requiredAcks, ak_AvailableAcks = available, ak_AckedMembers = acked, ak_MissingMembers = [],
            ak_PartialSuccess = False, ak_Strict = strict, ak_Status = ''acked''\<rparr>
      in if available < requiredAcks then ack\<lparr>ak_PartialSuccess := True, ak_Status := ''partial'', ak_MissingMembers := []\<rparr> else ack)"

definition parseMemberID :: "string \<Rightarrow> string option" where
  "parseMemberID path = (let prefx = ''/internal/v1/members/'' in
     if length path \<le> length prefx \<or> take (length prefx) path \<noteq> prefx then None else Some (drop (length prefx) path))"

section \<open>Handlers\<close>

text \<open>\<open>fmt.Sprintf("%.0f", x)\<close>: the nearest integer, ties to even.\<close>

definition fmt_round0 :: "rat \<Rightarrow> string" where
  "fmt_round0 x =
     (let n = \<lfloor>x\<rfloor>; d = x - of_int n in
      show_int (if d < 1 / 2 then n else if 1 / 2 < d then n + 1 else if even n then n else n + 1))"

definition normalise_event :: "time \<Rightarrow> event \<Rightarrow> event" where
  "normalise_event now e =
     (let e = (if IsZero (Timestamp e) then e\<lparr>Timestamp := now\<rparr> else e)
      in if TenantID e = [] then e\<lparr>TenantID := ''default''\<rparr> else e)"

definition reject_ingest :: "(rat \<Rightarrow> rat) \<Rightarrow> admission \<Rightarrow> dist_response" where
  "reject_ingest fl a =
     (let res = WriteJSON 429 (DistBackpressure (Reason a) \<lparr>bp_Allowed = Allowed a, bp_Reason = Reason a,
            bp_RetryAfter = Duration_String (RetryAfter a), bp_UsedBytes = UsedBytes a, bp_LimitBytes = LimitBytes a\<rparr>)
      in if 0 < RetryAfter a then res\<lparr>h_Reply := (''Retry-After'', fmt_round0 (Seconds fl (RetryAfter a))) # h_Reply res\<rparr> else res)"

definition handleRoute :: "'b distributor_env \<Rightarrow> (nat \<Rightarrow> time) \<Rightarrow> 'b distributor \<Rightarrow> http_request \<Rightarrow> dist_response option \<times> 'b distributor" where
  "handleRoute env now s r =
     (if h_Method r \<noteq> ''POST'' then (Some (WriteHeader 405), s) else
      case de_decodeRoute env (h_Body r) of Inl err \<Rightarrow> (Some (WriteJSON 400 (DistError err)), s) | Inr req \<Rightarrow>
      let e = normalise_event (now 0) (rq_Event req) in
      case di_refresh env s of (Some err, s) \<Rightarrow> (Some (WriteJSON 500 (DistError err)), s) | (None, s) \<Rightarrow>
      case di_tenants s of None \<Rightarrow> (None, s) | Some st \<Rightarrow>
      case GetTenant st (TenantID e) of Inl err \<Rightarrow> (Some (WriteJSON 404 (DistError err)), s) | Inr tenant \<Rightarrow>
      case ValidateWithLimits e (t_Limits tenant) of Some err \<Rightarrow> (Some (WriteJSON 400 (DistError err)), s) | None \<Rightarrow>
      let (a, limiter) = Allow (de_fl env) (now 1) (now 2) (di_limiter s) tenant e; s = s\<lparr>di_limiter := limiter\<rparr> in
      if \<not> Allowed a then (Some (reject_ingest (de_fl env) a), s)
      else case Route (de_B env) (de_sha env) (de_hex env) (di_coordinator s) (di_backend s) e of
        Inl err \<Rightarrow> (Some (WriteJSON 400 (DistError err)), s)
      | Inr result \<Rightarrow>
          let ack = buildAck (rr_Assignment result) (rq_RequiredAcks req) (rq_Strict req);
              status = (if ak_PartialSuccess ack then (if rq_Strict req then 503 else 202) else 200)
          in (Some (WriteJSON status (DistRouted (rr_Event result) (rr_Assignment result) ack
                \<lparr>bp_Allowed = True, bp_Reason = [], bp_RetryAfter = ''0s'', bp_UsedBytes = UsedBytes a, bp_LimitBytes = LimitBytes a\<rparr>)), s))"

definition handleRing :: "'b distributor_env \<Rightarrow> 'b distributor \<Rightarrow> http_request \<Rightarrow> dist_response \<times> 'b distributor" where
  "handleRing env s r =
     (if h_Method r \<noteq> ''GET'' then (WriteHeader 405, s) else
      case di_refresh env s of (Some err, s) \<Rightarrow> (WriteJSON 500 (DistError err), s) | (None, s) \<Rightarrow>
      case Snapshot (de_B env) (de_snapshot env) (di_coordinator s) (di_backend s) of
        Inl err \<Rightarrow> (WriteJSON 500 (DistError err), s) | Inr snapshot \<Rightarrow> (WriteJSON 200 (DistRing snapshot), s))"

definition handleMembers :: "'b distributor_env \<Rightarrow> (nat \<Rightarrow> time) \<Rightarrow> 'b distributor \<Rightarrow> http_request \<Rightarrow> dist_response \<times> 'b distributor" where
  "handleMembers env now s r =
     (if h_Method r = ''GET'' then
        (case di_refresh env s of (Some err, s) \<Rightarrow> (WriteJSON 500 (DistError err), s) | (None, s) \<Rightarrow>
         case Coordinator_List (de_B env) (di_coordinator s) (di_backend s) of
           Inl err \<Rightarrow> (WriteJSON 500 (DistError err), s) | Inr members \<Rightarrow> (WriteJSON 200 (DistMembers members (di_local s)), s))
      else if h_Method r = ''POST'' then
        (case di_refresh env s of (Some err, s) \<Rightarrow> (WriteJSON 500 (DistError err), s) | (None, s) \<Rightarrow>
         case de_decodeMember env (h_Body r) of Inl err \<Rightarrow> (WriteJSON 400 (DistError err), s) | Inr (m, ttl) \<Rightarrow>
         case Register (de_B env) (now 0) (di_coordinator s) (di_backend s) m (if ttl \<le> 0 then 30 else ttl) of
           (Inl err, b) \<Rightarrow> (WriteJSON 400 (DistError err), s\<lparr>di_backend := b\<rparr>)
         | (Inr m, b) \<Rightarrow> (WriteJSON 201 (DistMember m), s\<lparr>di_backend := b\<rparr>))
      else (WriteHeader 405, s))"

definition handleMember :: "'b distributor_env \<Rightarrow> (nat \<Rightarrow> time) \<Rightarrow> 'b distributor \<Rightarrow> http_request \<Rightarrow> dist_response \<times> 'b distributor" where
  "handleMember env now s r =
     (case parseMemberID (h_Path r) of None \<Rightarrow> (NotFound, s) | Some memberID \<Rightarrow>
      if h_Method r = ''DELETE'' then
        (case di_refresh env s of (Some err, s) \<Rightarrow> (WriteJSON 500 (DistError err), s) | (None, s) \<Rightarrow>
         case Coordinator_Delete (de_B env) (di_coordinator s) (di_backend s) memberID of
           (Some err, b) \<Rightarrow> (WriteJSON 400 (DistError err), s\<lparr>di_backend := b\<rparr>)
         | (None, b) \<Rightarrow> (WriteJSON 200 (DistDeleted memberID), s\<lparr>di_backend := b\<rparr>))
      else if h_Method r = ''PUT'' then
        (case di_refresh env s of (Some err, s) \<Rightarrow> (WriteJSON 500 (DistError err), s) | (None, s) \<Rightarrow>
         case de_decodeState env (h_Body r) of Inl err \<Rightarrow> (WriteJSON 400 (DistError err), s) | Inr (state, ttl) \<Rightarrow>
         case SetState (de_B env) (now 0) (di_coordinator s) (di_backend s) memberID state (if ttl \<le> 0 then 30 else ttl) of
           (Inl err, b) \<Rightarrow> (WriteJSON 400 (DistError err), s\<lparr>di_backend := b\<rparr>)
         | (Inr m, b) \<Rightarrow> (WriteJSON 200 (DistMember m), s\<lparr>di_backend := b\<rparr>))
      else (WriteHeader 405, s))"

definition handleAssignment :: "'b distributor_env \<Rightarrow> 'b distributor \<Rightarrow> http_request \<Rightarrow> dist_response \<times> 'b distributor" where
  "handleAssignment env s r =
     (if h_Method r \<noteq> ''GET'' then (WriteHeader 405, s) else
      case di_refresh env s of (Some err, s) \<Rightarrow> (WriteJSON 500 (DistError err), s) | (None, s) \<Rightarrow>
      let streamKey = mget (h_Query r) ''stream_key'' in
      if streamKey = [] then (WriteJSON 400 (DistError (Errorf ''stream_key is required'' [])), s)
      else case Resolve (de_B env) (de_sha env) (de_hex env) (di_coordinator s) (di_backend s) streamKey of
        Inl err \<Rightarrow> (WriteJSON 503 (DistError err), s) | Inr a \<Rightarrow> (WriteJSON 200 (DistAssignment a), s))"

definition handleRebalance :: "'b distributor_env \<Rightarrow> 'b distributor \<Rightarrow> http_request \<Rightarrow> dist_response \<times> 'b distributor" where
  "handleRebalance env s r =
     (if h_Method r \<noteq> ''GET'' then (WriteHeader 405, s) else
      case di_refresh env s of (Some err, s) \<Rightarrow> (WriteJSON 500 (DistError err), s) | (None, s) \<Rightarrow>
      let raw = mget (h_Query r) ''token_count'';
          tokenCount = (if raw \<noteq> [] then (case Atoi raw of Some n \<Rightarrow> n | None \<Rightarrow> 0) else 0) in
      case Rebalance (de_B env) (de_sha env) (de_hex env) (di_coordinator s) (di_backend s) tokenCount of
        Inl err \<Rightarrow> (WriteJSON 503 (DistError err), s) | Inr report \<Rightarrow> (WriteJSON 200 (DistRebalance report), s))"

definition Distributor_Handler ::
  "'b distributor_env \<Rightarrow> (nat \<Rightarrow> time) \<Rightarrow> 'b distributor \<Rightarrow> http_request \<Rightarrow> dist_response option \<times> 'b distributor" where
  "Distributor_Handler env now s r =
     (case RegisterBaseRoutes Distributor_Descriptor (now 0) r of Some res \<Rightarrow> (Some (lift_reply DistBase res), s) | None \<Rightarrow>
      if h_Path r = ''/internal/v1/append'' then handleRoute env now s r
      else if h_Path r = ''/internal/v1/ring'' then apfst Some (handleRing env s r)
      else if h_Path r = ''/internal/v1/members'' then apfst Some (handleMembers env now s r)
      else if starts_with (h_Path r) ''/internal/v1/members/'' then apfst Some (handleMember env now s r)
      else if h_Path r = ''/internal/v1/assignment'' then apfst Some (handleAssignment env s r)
      else if h_Path r = ''/internal/v1/rebalance'' then apfst Some (handleRebalance env s r)
      else (Some NotFound, s))"

section \<open>Placement\<close>

context ring_backend
begin

lemma resolve_sound:
  assumes "inv b" and "0 < co_replicationFactor c" and "Resolve B sha hex c b k = Inr a"
  shows "distinct (map m_ID (owners a)) \<and> as_StreamKey a = k \<and>
     (\<forall>m \<in> set (owners a). is_ready m \<and> content b (co_prefix c) (m_ID m) = Some m)"
proof -
  obtain ms where ms: "Coordinator_List B c b = Inr ms" using assms(3) by (auto simp: Resolve_def split: sum.splits)
  note l = list_spec [OF assms(1) ms] and o = Resolve_owners [OF ms assms(2,3)]
  have "distinct (map m_ID (owners a))" using ranking_distinct [OF l(2)] by (simp add: o(1) take_map [symmetric])
  moreover have "is_ready m \<and> content b (co_prefix c) (m_ID m) = Some m" if "m \<in> set (owners a)" for m
  proof -
    have "m \<in> set (ranking sha k ms)" using that o(1) in_set_takeD by metis
    then have "m \<in> ran (content b (co_prefix c))" "is_ready m" using l(1) by auto
    then show ?thesis using content_id [OF assms(1)] by (auto simp: ran_def)
  qed
  ultimately show ?thesis using o(3) by blast
qed

end

lemma buildAck_facts:
  "ak_AckedMembers (buildAck a n strict) = owners a" "\<not> ak_PartialSuccess (buildAck a n strict) \<longleftrightarrow> n \<le> int (length (owners a))"
  by (auto simp: buildAck_def owners_def Let_def)

lemma refresh_frame:
  "di_refresh env s = (r, s') \<Longrightarrow> di_backend s' = di_backend s \<and> di_coordinator s' = di_coordinator s \<and> di_limiter s' = di_limiter s \<and> di_local s' = di_local s"
  by (auto simp: di_refresh_def split: option.splits sum.splits prod.splits)

lemma reject_ingest_status [simp]: "h_Status (reject_ingest fl a) = 429"
  by (simp add: reject_ingest_def Let_def WriteJSON_def)

text \<open>The path of a request that reaches the router.\<close>

lemma handleRoute_ok:
  assumes "handleRoute env now s r = (Some res, s')" and "h_Status res = 200" and "de_decodeRoute env (h_Body r) = Inr req"
  shows "\<exists>s1 st tenant a l rt. di_refresh env s = (None, s1) \<and> di_tenants s1 = Some st \<and>
     GetTenant st (TenantID (normalise_event (now 0) (rq_Event req))) = Inr tenant \<and>
     ValidateWithLimits (normalise_event (now 0) (rq_Event req)) (t_Limits tenant) = None \<and>
     Allow (de_fl env) (now 1) (now 2) (di_limiter s1) tenant (normalise_event (now 0) (rq_Event req)) = (a, l) \<and> Allowed a \<and>
     Route (de_B env) (de_sha env) (de_hex env) (di_coordinator s1) (di_backend s1) (normalise_event (now 0) (rq_Event req)) = Inr rt \<and>
     \<not> ak_PartialSuccess (buildAck (rr_Assignment rt) (rq_RequiredAcks req) (rq_Strict req)) \<and> s' = s1\<lparr>di_limiter := l\<rparr> \<and>
     (\<exists>bp. h_Payload res = Some (DistRouted (rr_Event rt) (rr_Assignment rt) (buildAck (rr_Assignment rt) (rq_RequiredAcks req) (rq_Strict req)) bp))"
  using assms by (auto simp: handleRoute_def Let_def split: if_splits prod.splits option.splits sum.splits)

section \<open>Properties\<close>

text \<open>
  C14. An append answered with 200 was checked, charged and placed: the event, with the defaults filled in, is valid under the
  limits of its tenant, the limiter admitted it, the members reported as acknowledging are distinct ready
  members of the ring, at least as many as the request asks for, and the ring itself is untouched.
\<close>

theorem append_accepted:
  assumes "handleRoute env now s r = (Some res, s')" and "h_Status res = 200" and "de_decodeRoute env (h_Body r) = Inr req"
    and "de_B env = MemoryBackend" and "wf_backend (di_backend s)" and "di_coordinator s = NewCoordinator p rf"
    and "e = normalise_event (now 0) (rq_Event req)"
  shows "\<exists>st tenant l adm a ack bp. di_tenants s' = Some st \<and> GetTenant st (TenantID e) = Inr tenant \<and> ValidateWithLimits e (t_Limits tenant) = None \<and>
     Allow (de_fl env) (now 1) (now 2) (di_limiter s) tenant e = (adm, l) \<and> Allowed adm \<and> di_limiter s' = l \<and>
     h_Payload res = Some (DistRouted e a ack bp) \<and> as_StreamKey a = StreamKey e \<and> ak_AckedMembers ack = owners a \<and>
     distinct (map m_ID (owners a)) \<and> rq_RequiredAcks req \<le> int (length (owners a)) \<and>
     (\<forall>m \<in> set (owners a). is_ready m \<and> map_of (mb_members (di_backend s)) (m_ID m) = Some m) \<and> di_backend s' = di_backend s"
proof -
  obtain s1 st tenant adm l rt bp where h: "di_refresh env s = (None, s1)" "di_tenants s1 = Some st" "GetTenant st (TenantID e) = Inr tenant"
      "ValidateWithLimits e (t_Limits tenant) = None" "Allow (de_fl env) (now 1) (now 2) (di_limiter s1) tenant e = (adm, l)" "Allowed adm"
      "Route MemoryBackend (de_sha env) (de_hex env) (di_coordinator s1) (di_backend s1) e = Inr rt"
      "\<not> ak_PartialSuccess (buildAck (rr_Assignment rt) (rq_RequiredAcks req) (rq_Strict req))" "s' = s1\<lparr>di_limiter := l\<rparr>"
      "h_Payload res = Some (DistRouted (rr_Event rt) (rr_Assignment rt) (buildAck (rr_Assignment rt) (rq_RequiredAcks req) (rq_Strict req)) bp)"
    using handleRoute_ok [OF assms(1-3)] unfolding assms(4,7) by blast
  note fr = refresh_frame [OF h(1)]
  have "Resolve MemoryBackend (de_sha env) (de_hex env) (NewCoordinator p rf) (di_backend s) (StreamKey e) = Inr (rr_Assignment rt)" "rr_Event rt = e"
    using h(7) fr assms(6) by (auto simp: Route_def split: sum.splits)
  note placed = memory_ring.resolve_sound [OF assms(5) replication_positive this(1)] and ev = this(2)
  show ?thesis
    using h(2-6,8-10) fr placed ev buildAck_facts
    by (intro exI [of _ st] exI [of _ tenant] exI [of _ l] exI [of _ adm] exI [of _ "rr_Assignment rt"]
        exI [of _ "buildAck (rr_Assignment rt) (rq_RequiredAcks req) (rq_Strict req)"] exI [of _ bp]) simp
qed

definition sample_dist_env :: "memory_backend distributor_env" where
  "sample_dist_env = \<lparr>de_B = MemoryBackend, de_sha = id, de_hex = id, de_fl = id,
     de_codec = \<lparr>sn_Marshal = (\<lambda>_. Inr []), sn_Unmarshal = (\<lambda>_. Inl ErrNotExist)\<rparr>, de_snapshot = (\<lambda>_ _ _. Inr []),
     de_decodeRoute = (\<lambda>_. Inr \<lparr>rq_Event = zero_event\<lparr>Timestamp := 50, Body := ''disk full''\<rparr>, rq_RequiredAcks = 2, rq_Strict = True\<rparr>),
     de_decodeMember = (\<lambda>_. Inl ErrNotExist), de_decodeState = (\<lambda>_. Inl ErrNotExist)\<rparr>"

definition sample_distributor :: "memory_backend distributor" where
  "sample_distributor = NewServerWithCoordinator 5 sample_ring (NewCoordinator ''/ring'' 2) (sample_member ''a'')
     \<lparr>fs_files = [], fs_dirs = [], fs_faults = []\<rparr>"

definition sample_append :: http_request where
  "sample_append = \<lparr>h_Method = ''POST'', h_Path = ''/internal/v1/append'', h_Query = [], h_Header = [], h_Body = []\<rparr>"

definition sample_log :: event where
  "sample_log = zero_event\<lparr>Timestamp := 50, TenantID := ''default'', Body := ''disk full''\<rparr>"

lemma sample_normalised: "normalise_event now (zero_event\<lparr>Timestamp := 50, Body := ''disk full''\<rparr>) = sample_log"
  by (simp add: normalise_event_def sample_log_def zero_event_def IsZero_def)

lemma sample_valid: "ValidateWithLimits sample_log (t_Limits (DefaultTenantConfig 5)) = None"
  by code_simp

lemma sample_size: "eventSize sample_log = 16"
  by code_simp

lemma sample_bucket:
  "bucketFor id 9 [] (DefaultTenantConfig 5) =
     (\<lparr>tokens = 104857600, lastRefill = 9, rateBytes = 52428800, burstBytes = 104857600\<rparr>,
      [(''default'', \<lparr>tokens = 104857600, lastRefill = 9, rateBytes = 52428800, burstBytes = 104857600\<rparr>)])"
  by (simp add: bucketFor_def DefaultTenantConfig_def Let_def)

lemma sample_refill: "lastRefill b = 9 \<Longrightarrow> refill id b 9 = b"
  by (simp add: refill_def time_sub_def Seconds_def quot_def min_int64_def max_int64_def)

lemma sample_allowed: "Allowed (fst (Allow id 9 9 [] (DefaultTenantConfig 5) sample_log))"
proof -
  have "StreamLabels sample_log = []" by (simp add: sample_log_def zero_event_def)
  moreover have "MaxBodyBytes (t_Limits (DefaultTenantConfig 5)) = 262144" by (simp add: DefaultTenantConfig_def)
  ultimately show ?thesis by (simp add: Allow_def sample_size sample_bucket sample_refill)
qed

lemma sample_routed:
  "\<exists>rt. Route MemoryBackend id id (NewCoordinator ''/ring'' 2) sample_ring sample_log = Inr rt \<and> length (owners (rr_Assignment rt)) = 2"
proof -
  have "case Route MemoryBackend id id (NewCoordinator ''/ring'' 2) sample_ring sample_log of
      Inl _ \<Rightarrow> False | Inr rt \<Rightarrow> length (owners (rr_Assignment rt)) = 2" by code_simp
  then show ?thesis by (simp split: sum.splits)
qed

lemma sample_refresh: "di_refresh sample_dist_env sample_distributor = (None, sample_distributor)"
  by (simp add: di_refresh_def sample_distributor_def NewServerWithCoordinator_def ReloadIfModified_def NewStoreWithDefaults_def
      NewTenantStore_def Let_def)

lemma sample_append_ok: "\<exists>res s'. handleRoute sample_dist_env (\<lambda>n. 9) sample_distributor sample_append = (Some res, s') \<and> h_Status res = 200"
proof -
  obtain rt where rt: "Route MemoryBackend id id (NewCoordinator ''/ring'' 2) sample_ring sample_log = Inr rt" "length (owners (rr_Assignment rt)) = 2"
    using sample_routed by blast
  obtain a l where al: "Allow id 9 9 NewLimiter (DefaultTenantConfig 5) sample_log = (a, l)" "Allowed a"
    using sample_allowed by (metis NewLimiter_def prod.collapse)
  have p: "\<not> ak_PartialSuccess (buildAck (rr_Assignment rt) 2 True)" using rt(2) by (simp add: buildAck_facts(2))
  have g: "GetTenant (NewStoreWithDefaults 5) (TenantID sample_log) = Inr (DefaultTenantConfig 5)"
    by (simp add: GetTenant_def NewStoreWithDefaults_def NewTenantStore_def sample_log_def DefaultTenantConfig_def Let_def)
  have s: "di_tenants sample_distributor = Some (NewStoreWithDefaults 5)" "di_limiter sample_distributor = NewLimiter"
      "di_coordinator sample_distributor = NewCoordinator ''/ring'' 2" "di_backend sample_distributor = sample_ring"
    by (simp_all add: sample_distributor_def NewServerWithCoordinator_def)
  show ?thesis
    unfolding handleRoute_def sample_refresh
    by (simp add: sample_append_def sample_dist_env_def sample_normalised s g sample_valid al rt(1) p)
qed

theorem append_accepted_witness:
  "\<exists>e a ack bp res s'. handleRoute sample_dist_env (\<lambda>n. 9) sample_distributor sample_append = (Some res, s') \<and>
     h_Payload res = Some (DistRouted e a ack bp) \<and> TenantID e = ''default'' \<and> 2 \<le> length (owners a) \<and> distinct (map m_ID (owners a))"
proof -
  obtain res s' where h: "handleRoute sample_dist_env (\<lambda>n. 9) sample_distributor sample_append = (Some res, s')" "h_Status res = 200"
    using sample_append_ok by blast
  have d: "de_decodeRoute sample_dist_env (h_Body sample_append) =
     Inr \<lparr>rq_Event = zero_event\<lparr>Timestamp := 50, Body := ''disk full''\<rparr>, rq_RequiredAcks = 2, rq_Strict = True\<rparr>"
    by (simp add: sample_dist_env_def)
  have s: "de_B sample_dist_env = MemoryBackend" "wf_backend (di_backend sample_distributor)" "di_coordinator sample_distributor = NewCoordinator ''/ring'' 2"
    using wf_sample_ring by (simp_all add: sample_dist_env_def sample_distributor_def NewServerWithCoordinator_def)
  have "TenantID (normalise_event 9 (zero_event\<lparr>Timestamp := 50, Body := ''disk full''\<rparr>)) = ''default''" by code_simp
  then show ?thesis using append_accepted [OF h d s refl] h(1) by auto
qed

end
