(* ===== verification/Go_Base64.thy ===== *)
theory Go_Base64
  imports Go_Prelude
begin

text \<open>
  Decoding of package \<open>encoding/base64\<close>: \<open>RawURLEncoding\<close> (no padding) and \<open>StdEncoding\<close> (padded to groups of
  four). Line breaks are skipped; the bits left over in the last group are ignored, as outside strict mode.
  \<open>None\<close> is a \<open>CorruptInputError\<close>.
\<close>

section \<open>Operations\<close>

definition url_alphabet :: string where
  "url_alphabet = ''ABCDEFGHIJKLMNOPQRSTUVWXYZabcdefghijklmnopqrstuvwxyz0123456789-_''"

definition std_alphabet :: string where
  "std_alphabet = ''ABCDEFGHIJKLMNOPQRSTUVWXYZabcdefghijklmnopqrstuvwxyz0123456789+/''"

fun index_of :: "char \<Rightarrow> string \<Rightarrow> nat option" where
  "index_of c [] = None"
| "index_of c (x # xs) = (if c = x then Some 0 else map_option Suc (index_of c xs))"

fun sextets :: "string \<Rightarrow> string \<Rightarrow> nat list option" where
  "sextets alphabet [] = Some []"
| "sextets alphabet (c # cs) = (case index_of c alphabet of None \<Rightarrow> None
     | Some n \<Rightarrow> map_option ((#) n) (sextets alphabet cs))"

definition byte_of :: "nat \<Rightarrow> char" where
  "byte_of n = char_of n"

fun decode_groups :: "nat list \<Rightarrow> string option" where
  "decode_groups [] = Some []"
| "decode_groups [_] = None"
| "decode_groups [a, b] = Some [byte_of (4 * a + b div 16)]"
| "decode_groups [a, b, c] = Some [byte_of (4 * a + b div 16), byte_of (16 * (b mod 16) + c div 4)]"
| "decode_groups (a # b # c # d # ns) =
     map_option (\<lambda>s. byte_of (4 * a + b div 16) # byte_of (16 * (b mod 16) + c div 4) # byte_of (64 * (c mod 4) + d) # s) (decode_groups ns)"

definition unfold_lines :: "string \<Rightarrow> string" where
  "unfold_lines s = filter (\<lambda>c. c \<noteq> CHR 0x0A \<and> c \<noteq> CHR 0x0D) s"

definition RawURL_DecodeString :: "string \<Rightarrow> string option" where
  "RawURL_DecodeString s = (case sextets url_alphabet (unfold_lines s) of None \<Rightarrow> None | Some ns \<Rightarrow> decode_groups ns)"

text \<open>The padding characters at the end: at most two, and only to complete a group.\<close>

definition strip_padding :: "string \<Rightarrow> string option" where
  "strip_padding s =
     (if length s mod 4 \<noteq> 0 then None
      else if ends_with s ''=='' then Some (take (length s - 2) s)
      else if ends_with s ''='' then Some (take (length s - 1) s)
      else Some s)"

definition Std_DecodeString :: "string \<Rightarrow> string option" where
  "Std_DecodeString s = (case strip_padding (unfold_lines s) of None \<Rightarrow> None | Some body \<Rightarrow>
     case sextets std_alphabet body of None \<Rightarrow> None | Some ns \<Rightarrow> decode_groups ns)"

section \<open>Length of the result\<close>

lemma sextets_length: "sextets alphabet s = Some ns \<Longrightarrow> length ns = length s"
  by (induction s arbitrary: ns) (auto split: option.splits)

lemma decode_groups_length: "decode_groups ns = Some s \<Longrightarrow> length s = 3 * length ns div 4"
  by (induction ns arbitrary: s rule: decode_groups.induct) auto

lemma decode_length:
  assumes "RawURL_DecodeString s = Some d"
  shows "length d = 3 * length (unfold_lines s) div 4"
proof -
  obtain ns where "sextets url_alphabet (unfold_lines s) = Some ns" "decode_groups ns = Some d"
    using assms by (auto simp: RawURL_DecodeString_def split: option.splits)
  then show ?thesis using sextets_length decode_groups_length by metis
qed

lemma decode_examples:
  "RawURL_DecodeString ''AQAB'' = Some [CHR 0x01, CHR 0x00, CHR 0x01]" "Std_DecodeString ''aGk='' = Some ''hi''"
  "RawURL_DecodeString ''aGk'' = Some ''hi''" "Std_DecodeString ''aGk'' = None"
  by code_simp+

end
