(* ===== verification/Go_Parse.thy ===== *)
theory Go_Parse
  imports Go_Time "HOL-Library.Monad_Syntax"
begin

text \<open>
  Reading instants: \<open>time.Parse\<close> with the layouts \<open>RFC3339\<close> and \<open>RFC3339Nano\<close>. Both accept a fraction of a second, so
  they accept the same texts. The hour may have one digit, the fraction may follow a comma, digits of the fraction after the
  ninth are ignored. \<open>None\<close> is a \<open>ParseError\<close>; only the instant of the result is kept, since the callers convert it to UTC.
  Also \<open>strconv.Quote\<close>, the verb \<open>%q\<close>.
\<close>

section \<open>Quoted strings\<close>

text \<open>Escapes of ASCII text; what a text with other characters becomes, which depends on which of them are printable, is a parameter.\<close>

definition hex_digit :: "nat \<Rightarrow> char" where
  "hex_digit n = (if n < 10 then digit n else char_of (87 + n))"

definition hex_byte :: "char \<Rightarrow> string" where
  "hex_byte c = [hex_digit (of_char c div 16), hex_digit (of_char c mod 16)]"

definition quote_byte :: "char \<Rightarrow> string" where
  "quote_byte c = (let n = (of_char c :: nat); bs = CHR 0x5C in
     if n = 34 \<or> n = 92 then [bs, c]
     else if n = 7 then [bs, CHR ''a''] else if n = 8 then [bs, CHR ''b''] else if n = 12 then [bs, CHR ''f'']
     else if n = 10 then [bs, CHR ''n''] else if n = 13 then [bs, CHR ''r''] else if n = 9 then [bs, CHR ''t'']
     else if n = 11 then [bs, CHR ''v''] else if n < 32 \<or> n = 127 then bs # CHR ''x'' # hex_byte c
     else [c])"

definition Quote :: "(string \<Rightarrow> string) \<Rightarrow> string \<Rightarrow> string" where
  "Quote uni s = (if list_all is_ascii s then CHR 0x22 # concat (map quote_byte s) @ [CHR 0x22] else uni s)"

section \<open>Fields\<close>

definition getnum :: "bool \<Rightarrow> string \<Rightarrow> (nat \<times> string) option" where
  "getnum fixed s = (case s of [] \<Rightarrow> None | c # r \<Rightarrow>
     if \<not> is_digit c then None
     else case r of [] \<Rightarrow> (if fixed then None else Some (digit_val c, r))
       | d # r' \<Rightarrow> if is_digit d then Some (10 * digit_val c + digit_val d, r')
           else if fixed then None else Some (digit_val c, r))"

definition read_year :: "string \<Rightarrow> (nat \<times> string) option" where
  "read_year s = (if length s < 4 \<or> \<not> list_all is_digit (take 4 s) then None else Some (digits_val (take 4 s), drop 4 s))"

definition literal :: "char \<Rightarrow> string \<Rightarrow> string option" where
  "literal c s = (case s of [] \<Rightarrow> None | x # r \<Rightarrow> if x = c then Some r else None)"

text \<open>The fraction in nanoseconds; a text that has none is left as it is.\<close>

definition read_fraction :: "string \<Rightarrow> nat \<times> string" where
  "read_fraction s = (case s of c # d # r \<Rightarrow>
       (if (c = CHR ''.'' \<or> c = CHR '','') \<and> is_digit d then
          let ds = take 9 (takeWhile is_digit (d # r)) in (digits_val ds * 10 ^ (9 - length ds), dropWhile is_digit (d # r))
        else (0, s))
     | _ \<Rightarrow> (0, s))"

text \<open>The offset of the zone in seconds.\<close>

definition read_zone :: "string \<Rightarrow> (int \<times> string) option" where
  "read_zone s =
     (if starts_with s ''Z'' then Some (0, drop 1 s)
      else if length s < 6 \<or> s ! 3 \<noteq> CHR '':'' then None
      else do { (h, _) \<leftarrow> getnum True (take 2 (drop 1 s)); (m, _) \<leftarrow> getnum True (take 2 (drop 4 s));
        if 24 < h \<or> 60 < m then None
        else if s ! 0 = CHR ''+'' then Some ((int h * 60 + int m) * 60, drop 6 s)
        else if s ! 0 = CHR ''-'' then Some (- ((int h * 60 + int m) * 60), drop 6 s)
        else None })"

definition is_leap :: "int \<Rightarrow> bool" where
  "is_leap y \<longleftrightarrow> y mod 4 = 0 \<and> (y mod 100 \<noteq> 0 \<or> y mod 400 = 0)"

definition days_in :: "int \<Rightarrow> int \<Rightarrow> int" where
  "days_in m y = (if m = 2 then (if is_leap y then 29 else 28) else if m \<in> {4, 6, 9, 11} then 30 else 31)"

definition Parse_RFC3339 :: "string \<Rightarrow> time option" where
  "Parse_RFC3339 s = do {
     (y, s) \<leftarrow> read_year s; s \<leftarrow> literal (CHR ''-'') s;
     (mo, s) \<leftarrow> getnum True s; s \<leftarrow> literal (CHR ''-'') s;
     (d, s) \<leftarrow> getnum True s; s \<leftarrow> literal (CHR ''T'') s;
     (h, s) \<leftarrow> getnum False s; s \<leftarrow> literal (CHR '':'') s;
     (mi, s) \<leftarrow> getnum True s; s \<leftarrow> literal (CHR '':'') s;
     (sec, s) \<leftarrow> getnum True s;
     let (nsec, s) = read_fraction s;
     (off, s) \<leftarrow> read_zone s;
     if s \<noteq> [] \<or> mo = 0 \<or> 12 < mo \<or> 24 \<le> h \<or> 60 \<le> mi \<or> 60 \<le> sec \<or> d < 1 \<or> days_in (int mo) (int y) < int d then None
     else Some (days_of_civil (int y, int mo, int d) * day + int h * hour + int mi * minute + (int sec - off) * second + int nsec) }"

section \<open>A printed instant reads back\<close>

lemma pad_length: "n < 10 ^ w \<Longrightarrow> 0 < w \<Longrightarrow> length (pad w n) = w"
proof -
  have show_length: "length (show_nat n) \<le> w" if "n < 10 ^ w" "0 < w" for n w
    using that
  proof (induction n arbitrary: w rule: show_nat.induct)
    case (1 n)
    show ?case
    proof (cases "n < 10")
      case False
      then obtain v where v: "w = Suc v" "0 < v" using 1(2) by (cases w rule: nat.exhaust; cases "w - 1") auto
      then have "n div 10 < 10 ^ v" using 1(2) by (simp add: less_mult_imp_div_less mult.commute)
      then show ?thesis using 1(1) [OF False _ v(2)] False v by (simp add: show_nat.simps [of n])
    qed (use 1 in \<open>simp add: show_nat.simps [of n]\<close>)
  qed
  then show "n < 10 ^ w \<Longrightarrow> 0 < w \<Longrightarrow> length (pad w n) = w" by (simp add: pad_def Let_def)
qed

lemma digits_val_two: "digits_val [c, d] = 10 * digit_val c + digit_val d"
  by (simp add: digits_val_def)

lemma getnum_pad [simp]: "n < 100 \<Longrightarrow> getnum f (pad 2 n @ r) = Some (n, r)"
proof -
  assume "n < 100"
  then have "length (pad 2 n) = Suc (Suc 0)" using pad_length [of n 2] by simp
  then obtain c d where p: "pad 2 n = [c, d]" by (auto simp: length_Suc_conv)
  then have "is_digit c" "is_digit d" using pad_digits [of 2 n] by simp_all
  moreover have "10 * digit_val c + digit_val d = n" using pad_val [of 2 n] p digits_val_two by simp
  ultimately show ?thesis using p by (simp add: getnum_def)
qed

lemma read_year_pad [simp]: "n < 10000 \<Longrightarrow> read_year (pad 4 n @ r) = Some (n, r)"
  using pad_length [of n 4] by (simp add: read_year_def pad_digits)

lemma literal_Cons [simp]: "literal c (c # r) = Some r"
  by (simp add: literal_def)

lemma Trim_zeros: "TrimRightChars s ''0'' @ replicate (length s - length (TrimRightChars s ''0'')) (CHR ''0'') = s"
proof -
  let ?P = "\<lambda>c. c \<in> set ''0''"
  have "takeWhile ?P (rev s) = replicate (length (takeWhile ?P (rev s))) (CHR ''0'')"
    by (rule replicate_length_same [symmetric]) (auto dest: set_takeWhileD)
  moreover have "length (takeWhile ?P (rev s)) = length s - length (dropWhile ?P (rev s))"
    by (metis add_diff_cancel_right' length_append length_rev takeWhile_dropWhile_id)
  ultimately have "rev (dropWhile ?P (rev s)) @ replicate (length s - length (dropWhile ?P (rev s))) (CHR ''0'') =
      rev (takeWhile ?P (rev s) @ dropWhile ?P (rev s))" by (metis rev_append rev_replicate)
  then show ?thesis by (simp add: TrimRightChars_def)
qed

lemma digits_val_zeros: "digits_val (s @ replicate k (CHR ''0'')) = digits_val s * 10 ^ k"
proof (induction k)
  case (Suc k)
  have "digits_val (s @ replicate (Suc k) (CHR ''0'')) = digits_val ((s @ replicate k (CHR ''0'')) @ [CHR ''0''])"
    by (simp add: replicate_append_same)
  also have "\<dots> = digits_val s * 10 ^ Suc k" using Suc by (simp only: digits_val_snoc) (simp add: digit_val_def byte_val_def)
  finally show ?case .
qed simp

lemma read_fraction_pad:
  assumes "n < 10 ^ 9" and "f = TrimRightChars (pad 9 n) ''0''"
  shows "read_fraction ((if f = [] then [] else CHR ''.'' # f) @ ''Z'') = (n, ''Z'')"
proof -
  have len: "length (pad 9 n) = 9" using assms(1) pad_length [of n 9] by simp
  have f: "f @ replicate (9 - length f) (CHR ''0'') = pad 9 n" using Trim_zeros [of "pad 9 n"] len assms(2) by simp
  have v: "digits_val f * 10 ^ (9 - length f) = n" by (metis digits_val_zeros f pad_val)
  have d: "list_all is_digit f" using pad_digits [of 9 n] f by (metis list_all_append)
  have l: "length f \<le> 9" using f len by (metis le_add1 length_append)
  have z: "\<not> is_digit (CHR ''Z'')" by (simp add: is_digit_def byte_val_def)
  show ?thesis
  proof (cases f)
    case Nil
    then show ?thesis using v by (simp add: read_fraction_def digits_val_def)
  next
    case (Cons c cs)
    have "takeWhile is_digit (f @ ''Z'') = f" "dropWhile is_digit (f @ ''Z'') = ''Z''"
      using d z by (simp_all add: list_all_iff takeWhile_append2 dropWhile_append2)
    then show ?thesis using v l d Cons by (simp add: read_fraction_def Let_def)
  qed
qed

text \<open>The date of a day number is one the calendar has.\<close>

lemma last_day_leap:
  assumes "0 \<le> doe" and "doe < 146097" and "civil_doy doe = 365"
  shows "is_leap (civil_yoe doe + 1)"
proof -
  define n100 where "n100 = cycle_century doe"
  define doc where "doc = doe - 36524 * n100"
  define n4 where "n4 = cycle_four doc"
  define dof where "dof = doc - 1461 * n4"
  have a: "0 \<le> n100" "n100 \<le> 3" "0 \<le> doc" "doc \<le> 36524" "n100 < 3 \<Longrightarrow> doc < 36524"
    using assms unfolding n100_def doc_def cycle_century_def by (auto simp: min_def split: if_splits)
  have b: "0 \<le> n4" "n4 \<le> 24" "0 \<le> dof" "dof \<le> 1460"
    using a unfolding n4_def dof_def cycle_four_def by auto
  have d: "dof - 365 * cycle_one dof = 365"
    using assms(3) by (simp add: civil_doy_def Let_def n100_def doc_def n4_def dof_def)
  then have e: "dof = 1460" "cycle_one dof = 3" using b unfolding cycle_one_def by (auto simp: min_def split: if_splits)
  have y: "civil_yoe doe + 1 = 100 * n100 + 4 * (n4 + 1)"
    using e by (simp add: civil_yoe_def Let_def n100_def doc_def n4_def dof_def)
  have c: "n4 = 24 \<Longrightarrow> n100 = 3" using a e(1) b unfolding dof_def by linarith
  show ?thesis
  proof (cases "n4 = 24")
    case True
    then show ?thesis using c y by (simp add: is_leap_def)
  next
    case False
    then have "(100 * n100 + 4 * (n4 + 1)) mod 100 = 4 * (n4 + 1)" using b by auto
    then have "(100 * n100 + 4 * (n4 + 1)) mod 100 \<noteq> 0" using b by (simp only:) simp
    moreover have "(100 * n100 + 4 * (n4 + 1)) mod 4 = 0" by presburger
    ultimately show ?thesis unfolding is_leap_def y by blast
  qed
qed

lemma is_leap_era: "is_leap (y + era * 400) = is_leap y"
proof -
  have "y + era * 400 = y + (era * 100) * 4" "y + era * 400 = y + (era * 4) * 100" by simp_all
  then have "(y + era * 400) mod 4 = y mod 4" "(y + era * 400) mod 100 = y mod 100" by (metis mod_mult_self1)+
  then show ?thesis by (simp only: is_leap_def mod_mult_self1)
qed

lemma civil_calendar:
  assumes "civil n = (y, m, d)"
  shows "m \<le> 12" and "d \<le> days_in m y"
proof -
  define doe where "doe = (n + 306) mod 146097"
  define era where "era = (n + 306) div 146097"
  define doy where "doy = civil_doy doe"
  define mp where "mp = (5 * doy + 2) div 153"
  have r: "0 \<le> doe" "doe < 146097" by (simp_all add: doe_def)
  have b: "0 \<le> doy" "doy < 366" using civil_parts [OF r] by (simp_all add: doy_def)
  have m: "0 \<le> mp" "mp < 12" using month_range [OF b] by (simp_all add: mp_def)
  have c: "m = (if mp < 10 then mp + 3 else mp - 9)" "d = doy - (153 * mp + 2) div 5 + 1"
     "y = civil_yoe doe + era * 400 + (if m \<le> 2 then 1 else 0)"
    using assms unfolding civil_def Let_def doe_def [symmetric] era_def [symmetric] doy_def [symmetric] mp_def [symmetric] prod.inject
    by blast+
  have leap: "doy = 365 \<Longrightarrow> m \<le> 2 \<Longrightarrow> is_leap y"
    using last_day_leap [OF r] c(3) is_leap_era [of "civil_yoe doe + 1" era] by (simp add: doy_def algebra_simps)
  show "m \<le> 12" using c(1) m by simp
  have "153 * mp + (5 * doy + 2) mod 153 = 5 * doy + 2" unfolding mp_def by (rule mult_div_mod_eq)
  then have w: "5 * doy + 2 < 153 * mp + 153" using pos_mod_bound [of 153 "5 * doy + 2"] by simp
  have l: "m = 2 \<Longrightarrow> doy = 365 \<Longrightarrow> is_leap y" using leap by simp
  have "mp = 0 \<or> mp = 1 \<or> mp = 2 \<or> mp = 3 \<or> mp = 4 \<or> mp = 5 \<or> mp = 6 \<or> mp = 7 \<or> mp = 8 \<or> mp = 9 \<or> mp = 10 \<or> mp = 11"
    using m by presburger
  then show "d \<le> days_in m y"
    by (elim disjE) (use c(1,2) w b l in \<open>simp_all add: days_in_def\<close>, linarith+)
qed

lemma time_parts:
  "time_days t * day + time_hour t * hour + time_minute t * minute + time_second t * second + time_nanos t = t"
  "0 \<le> time_hour t" "time_hour t < 24" "0 \<le> time_minute t" "time_minute t < 60" "0 \<le> time_second t" "time_second t < 60"
  "0 \<le> time_nanos t" "time_nanos t < 10 ^ 9"
proof -
  have u: "day = 24 * hour" "hour = 60 * minute" "minute = 60 * second" "0 < second" "0 < minute" "0 < hour" by (simp_all add: time_units)
  have "t mod hour = t mod day mod hour" "t mod minute = t mod hour mod minute" "t mod second = t mod minute mod second"
    unfolding u(1-3) by (simp_all add: mod_mod_cancel)
  then show "time_days t * day + time_hour t * hour + time_minute t * minute + time_second t * second + time_nanos t = t"
    unfolding time_days_def time_hour_def time_minute_def time_second_def time_nanos_def by (metis add.assoc div_mult_mod_eq)
  have lt: "x mod (k * u) div u < k \<and> 0 \<le> x mod (k * u) div u" if "0 < u" "0 < k" for x k u :: int
    using that zmod_zmult2_eq [of k x u] by (simp add: mult.commute)
  show "0 \<le> time_hour t" "time_hour t < 24" "0 \<le> time_minute t" "time_minute t < 60" "0 \<le> time_second t" "time_second t < 60"
    unfolding time_hour_def time_minute_def time_second_def
    using lt [of hour 24 t] lt [of minute 60 t] lt [of second 60 t] u by simp_all
  show "0 \<le> time_nanos t" "time_nanos t < 10 ^ 9" unfolding time_nanos_def second_def by simp_all
qed

definition four_digit_year :: "time \<Rightarrow> bool" where
  "four_digit_year t \<longleftrightarrow> 0 \<le> fst (civil (time_days t)) \<and> fst (civil (time_days t)) < 10000"

lemma Parse_RFC3339Nano:
  assumes "four_digit_year t"
  shows "Parse_RFC3339 (fmt_RFC3339Nano t) = Some t"
proof -
  obtain y m d where c: "civil (time_days t) = (y, m, d)" by (cases "civil (time_days t)") auto
  have y: "0 \<le> y" "y < 10000" using assms c by (simp_all add: four_digit_year_def)
  have md: "0 < m" "0 < d" "m \<le> 12" "d \<le> days_in m y" using civil_month_day_pos [OF c] civil_calendar [OF c] by simp_all
  then have d: "d \<le> 31" by (auto simp: days_in_def split: if_splits)
  note parts = time_parts [of t]
  have nums: "nat m < 100" "nat d < 100" "nat (time_hour t) < 100" "nat (time_minute t) < 100" "nat (time_second t) < 100" "nat y < 10000"
    using md d parts y by linarith+
  let ?f = "TrimRightChars (pad 9 (nat (time_nanos t))) ''0''"
  have fr: "read_fraction ((if ?f = [] then [] else CHR ''.'' # ?f) @ ''Z'') = (nat (time_nanos t), ''Z'')"
    by (rule read_fraction_pad) (use parts(8,9) in \<open>simp_all add: nat_less_iff\<close>)
  have s: "fmt_RFC3339Nano t = pad 4 (nat y) @ CHR ''-'' # pad 2 (nat m) @ CHR ''-'' # pad 2 (nat d) @ CHR ''T'' #
     pad 2 (nat (time_hour t)) @ CHR '':'' # pad 2 (nat (time_minute t)) @ CHR '':'' # pad 2 (nat (time_second t)) @
     ((if ?f = [] then [] else CHR ''.'' # ?f) @ ''Z'')"
    using y by (simp add: fmt_RFC3339Nano_def fmt_date_def fmt_clock_def fmt_hour_def fmt_year_def c Let_def)
  have "days_of_civil (y, m, d) = time_days t" by (metis c days_of_civil_civil)
  moreover have "read_zone ''Z'' = Some (0, [])" by (simp add: read_zone_def starts_with_def)
  ultimately show ?thesis unfolding s Parse_RFC3339_def
    using nums md parts y by (simp only: read_year_pad getnum_pad literal_Cons fr Option.bind.bind_lunit prod.case Let_def) auto
qed

end
