(* ===== verification/Gateway.thy ===== *)
theory Gateway
  imports Engine_Correct Queue Descriptors Go_Base64 Go_Parse
begin

text \<open>
  The gateway (\<open>internal/services/gateway\<close>): native, OTLP and Loki routes in front of the engine, with a queue
  between ingest and engine when the server is made by \<open>NewQueuedServer\<close>. The JSON decoders, the rendering of
  errors and of the untyped \<open>doubleValue\<close>, lower case beyond ASCII and quoting of it are parameters. The engine's segment bucket is a whole
  number of seconds, so that no append panics. Every request comes with what the clock and the operating system
  answer during it.
\<close>

section \<open>Data\<close>

record 'v otlpAnyValue =
  oa_StringValue :: string
  oa_IntValue :: string
  oa_BoolValue :: bool
  oa_DoubleValue :: "'v option"

record 'v otlpKeyValue =
  ok_Key :: string
  ok_Value :: "'v otlpAnyValue"

record 'v otlpLogRecord =
  ol_TimeUnixNano :: string
  ol_ObservedTimeUnixNano :: string
  ol_SeverityText :: string
  ol_Body :: "'v otlpAnyValue"
  ol_Attributes :: "'v otlpKeyValue list"
  ol_TraceID :: string
  ol_SpanID :: string

record 'v otlpScopeLogs =
  os_LogRecords :: "'v otlpLogRecord list"

record 'v otlpResourceLogs =
  or_Attributes :: "'v otlpKeyValue list"
  or_ScopeLogs :: "'v otlpScopeLogs list"

record lokiStream =
  lk_Stream :: strmap
  lk_Values :: "string list list"

record ('re, 'o, 'b, 'v) gateway_env =
  ge_engine :: "('re, 'o) engine_env"
  ge_B :: "'b broker"
  ge_Replay :: "('b \<Rightarrow> string \<Rightarrow> int \<Rightarrow> message list result) option"
  ge_errstr :: "goerror \<Rightarrow> string"
  ge_Sprint :: "'v \<Rightarrow> string"
  ge_uni :: "string \<Rightarrow> string"
  ge_quote :: "string \<Rightarrow> string"
  ge_decodeIngest :: "string \<Rightarrow> event list result"
  ge_decodeQuery :: "string \<Rightarrow> query_request result"
  ge_decodeTail :: "string \<Rightarrow> tail_request result"
  ge_decodeReplay :: "string \<Rightarrow> (string \<times> int) result"
  ge_decodeOTLP :: "string \<Rightarrow> 'v otlpResourceLogs list result"
  ge_decodeLoki :: "string \<Rightarrow> lokiStream list result"

text \<open>
  Clock readings of one request: of the handler, of the \<open>i\<close>th event stamped, published and written; and the outcome
  of the log's calls for the \<open>i\<close>th event written.
\<close>

record ticks =
  tk_handler :: "nat \<Rightarrow> time"
  tk_stamp :: "nat \<Rightarrow> time"
  tk_publish :: "nat \<Rightarrow> time"
  tk_consume :: "nat \<Rightarrow> time"
  tk_engine :: "nat \<Rightarrow> nat \<Rightarrow> time"
  tk_io :: "nat \<Rightarrow> wal_io"

text \<open>The server; a nil broker is \<open>None\<close>, and then the consumer is nil too.\<close>

record ('o, 'b) gateway =
  gw_engine :: "'o engine"
  gw_broker :: "'b option"

datatype gateway_reply =
    GwError goerror
  | GwIngested nat "event list"
  | GwResult query_result
  | GwPlan query_plan
  | GwTenants "tenant_config list" parse_stats "segment list" "obj_meta list"
  | GwStreams "event list" query_stats
  | GwQueue bool "topic_stats list"
  | GwReplayOff
  | GwReplayed string int "message list"
  | GwCache "cache_stats \<times> cache_stats"
  | GwOTLP nat
  | GwBase base_reply

type_synonym gateway_response = "gateway_reply http_response"

section \<open>Construction and metrics\<close>

definition Gateway_NewServer :: "'o engine \<Rightarrow> ('o, 'b) gateway" where
  "Gateway_NewServer eng = \<lparr>gw_engine = eng, gw_broker = None\<rparr>"

definition NewQueuedServer :: "'o engine \<Rightarrow> 'b \<Rightarrow> ('o, 'b) gateway" where
  "NewQueuedServer eng b = \<lparr>gw_engine = eng, gw_broker = Some b\<rparr>"

text \<open>A nil broker is replaced by one with a single partition.\<close>

definition NewQueuedServer_nil :: "'o engine \<Rightarrow> ('o, memory_broker) gateway" where
  "NewQueuedServer_nil eng = NewQueuedServer eng (NewMemoryBroker 1)"

definition gateway_consumer :: consumer_options where
  "gateway_consumer = NewConsumer \<lparr>co_Group = ''gateway-local-writers'', co_Topics = [TopicNormalizedEvents, TopicRetryEvents],
     co_MaxAttempts = 3, co_BatchSize = 100\<rparr>"

text \<open>The handler of the consumer; its state is the engine and the number of events written so far.\<close>

definition write_handler :: "('re, 'o, 'b, 'v) gateway_env \<Rightarrow> ticks \<Rightarrow> ('o engine \<times> nat) handler" where
  "write_handler env tk = (\<lambda>(eng, i) msg. case Engine_Append (ge_engine env) (tk_io tk i) (tk_engine tk i) eng (msg_Event msg) of
       (Inl err, eng) \<Rightarrow> (Some err, (eng, i + 1))
     | (Inr _, eng) \<Rightarrow> (None, (eng, i + 1)))"

definition queue_metric :: "(string \<Rightarrow> string) \<Rightarrow> string \<Rightarrow> string \<Rightarrow> int \<Rightarrow> string" where
  "queue_metric quote name topic v = name @ ''{service='' @ Quote quote ''gateway'' @ '',topic='' @ Quote quote topic @ ''} '' @ show_int v @ [newline]"

definition CustomMetrics :: "('re, 'o, 'b, 'v) gateway_env \<Rightarrow> ('o, 'b) gateway \<Rightarrow> string list" where
  "CustomMetrics env g =
     (case gw_broker g of None \<Rightarrow> [] | Some b \<Rightarrow>
      let stats = Stats (ge_B env) b in
      if stats = [] then [] else
      [''# HELP logagg_queue_lag Current queue lag by topic and partition.'' @ [newline],
       ''# TYPE logagg_queue_lag gauge'' @ [newline],
       ''# HELP logagg_queue_committed Current committed offsets by topic and partition.'' @ [newline],
       ''# TYPE logagg_queue_committed gauge'' @ [newline],
       ''# HELP logagg_queue_high_watermark Current high watermark by topic and partition.'' @ [newline],
       ''# TYPE logagg_queue_high_watermark gauge'' @ [newline]] @
      concat (map (\<lambda>stat.
        let highWatermark = sum_list (map snd (tst_HighWatermark stat));
            committed = sum_list (map snd (tst_Committed stat));
            lag = highWatermark - committed;
            lag = (if lag < 0 then 0 else lag)
        in [queue_metric (ge_quote env) ''logagg_queue_lag'' (tst_Topic stat) lag,
            queue_metric (ge_quote env) ''logagg_queue_committed'' (tst_Topic stat) committed,
            queue_metric (ge_quote env) ''logagg_queue_high_watermark'' (tst_Topic stat) highWatermark]) stats))"

section \<open>Appending events\<close>

definition stamp :: "time \<Rightarrow> event \<Rightarrow> event" where
  "stamp now event = (if IsZero (Timestamp event) then event\<lparr>Timestamp := now\<rparr> else event)"

fun append_direct ::
  "('re, 'o, 'b, 'v) gateway_env \<Rightarrow> ticks \<Rightarrow> nat \<Rightarrow> event list \<Rightarrow> event list \<Rightarrow> 'o engine \<Rightarrow> event list result \<times> 'o engine" where
  "append_direct env tk i [] appended eng = (Inr appended, eng)"
| "append_direct env tk i (event # events) appended eng =
     (case Engine_Append (ge_engine env) (tk_io tk i) (tk_engine tk i) eng (stamp (tk_stamp tk i) event) of
        (Inl err, eng) \<Rightarrow> (Inl err, eng)
      | (Inr (processed, _), eng) \<Rightarrow> append_direct env tk (i + 1) events
          (if IsZero (Timestamp processed) \<and> TenantID processed = [] then appended else appended @ [processed]) eng)"

definition queued :: "time \<Rightarrow> event \<Rightarrow> event" where
  "queued now event = (let event = stamp now event in if TenantID event = [] then event\<lparr>TenantID := ''default''\<rparr> else event)"

fun publish_events ::
  "'b broker \<Rightarrow> ticks \<Rightarrow> nat \<Rightarrow> event list \<Rightarrow> event list \<Rightarrow> 'b \<Rightarrow> event list result \<times> 'b" where
  "publish_events B tk i [] published b = (Inr published, b)"
| "publish_events B tk i (event # events) published b =
     (let event = queued (tk_stamp tk i) event in
      case Publish B (tk_publish tk i) b \<lparr>pr_Topic = TopicNormalizedEvents, pr_Key = StreamKey event, pr_Event = event,
          pr_Attempts = 0, pr_LastError = []\<rparr> of
        (Inl err, b) \<Rightarrow> (Inl err, b)
      | (Inr _, b) \<Rightarrow> publish_events B tk (i + 1) events (published @ [event]) b)"

definition enqueueEvents ::
  "('re, 'o, 'b, 'v) gateway_env \<Rightarrow> ticks \<Rightarrow> event list \<Rightarrow> 'b \<Rightarrow> 'o engine \<Rightarrow> event list result \<times> 'b \<times> 'o engine" where
  "enqueueEvents env tk events b eng =
     (case publish_events (ge_B env) tk 0 events [] b of (Inl err, b) \<Rightarrow> (Inl err, b, eng) | (Inr published, b) \<Rightarrow>
      case ConsumeOnce (ge_B env) (write_handler env tk) (ge_errstr env) (tk_consume tk) gateway_consumer (int (length events)) b (eng, 0) of
        (Some err, report, b, eng, _) \<Rightarrow> (Inl err, b, eng)
      | (None, report, b, eng, _) \<Rightarrow>
          if 0 < DeadLettered report
          then (Inl (Errorf ''%d queued events moved to dead-letter topic'' [show_nat (DeadLettered report)]), b, eng)
          else (Inr published, b, eng))"

definition appendEvents ::
  "('re, 'o, 'b, 'v) gateway_env \<Rightarrow> ticks \<Rightarrow> event list \<Rightarrow> ('o, 'b) gateway \<Rightarrow> event list result \<times> ('o, 'b) gateway" where
  "appendEvents env tk events g =
     (case gw_broker g of
        Some b \<Rightarrow> (case enqueueEvents env tk events b (gw_engine g) of
            (res, b, eng) \<Rightarrow> (res, g\<lparr>gw_engine := eng, gw_broker := Some b\<rparr>))
      | None \<Rightarrow> (case append_direct env tk 0 events [] (gw_engine g) of (res, eng) \<Rightarrow> (res, g\<lparr>gw_engine := eng\<rparr>)))"

section \<open>Conversion of OTLP and Loki input\<close>

definition otlpValueString :: "('v \<Rightarrow> string) \<Rightarrow> 'v otlpAnyValue \<Rightarrow> string" where
  "otlpValueString sprint v =
     (if oa_StringValue v \<noteq> [] then oa_StringValue v
      else if oa_IntValue v \<noteq> [] then oa_IntValue v
      else case oa_DoubleValue v of Some d \<Rightarrow> sprint d | None \<Rightarrow> if oa_BoolValue v then ''true'' else [])"

definition attrsToMap :: "('v \<Rightarrow> string) \<Rightarrow> 'v otlpKeyValue list \<Rightarrow> strmap" where
  "attrsToMap sprint values = fold (\<lambda>item. AList.update (ok_Key item) (otlpValueString sprint (ok_Value item))) values []"

definition parseUnixNanoString :: "string \<Rightarrow> time result" where
  "parseUnixNanoString v = (case Atoi v of None \<Rightarrow> Inl (Errorf ''invalid unix nano timestamp %q'' [v])
     | Some nanos \<Rightarrow> Inr (time_Unix 0 nanos))"

definition parseOTLPTimestamp :: "time \<Rightarrow> string \<Rightarrow> string \<Rightarrow> time result" where
  "parseOTLPTimestamp now primary fallback =
     (let source = firstNonEmpty [primary, fallback] in if source = [] then Inr now else parseUnixNanoString source)"

definition normalizeHexID :: "(string \<Rightarrow> string) \<Rightarrow> string \<Rightarrow> string" where
  "normalizeHexID uni input = (if input = [] then [] else
     case Std_DecodeString input of Some decoded \<Rightarrow> concat (map hex_byte decoded) | None \<Rightarrow> ToLower uni input)"

definition copyStringMap :: "strmap \<Rightarrow> strmap" where
  "copyStringMap input = (if input = [] then [] else fold (\<lambda>(key, v). AList.update key v) input [])"

text \<open>A loop that appends the result of each element and returns at the first error.\<close>

fun collect :: "('a \<Rightarrow> 'b result) \<Rightarrow> 'a list \<Rightarrow> 'b list result" where
  "collect f [] = Inr []"
| "collect f (x # xs) = (case f x of Inl err \<Rightarrow> Inl err | Inr y \<Rightarrow> map_sum id ((#) y) (collect f xs))"

definition otlp_event :: "('re, 'o, 'b, 'v) gateway_env \<Rightarrow> ticks \<Rightarrow> nat \<times> strmap \<times> string \<times> 'v otlpLogRecord \<Rightarrow> event result" where
  "otlp_event env tk = (\<lambda>(i, resourceAttrs, tenantID, rec).
     case parseOTLPTimestamp (tk_handler tk i) (ol_TimeUnixNano rec) (ol_ObservedTimeUnixNano rec) of Inl err \<Rightarrow> Inl err | Inr ts \<Rightarrow>
     Inr (zero_event\<lparr>Timestamp := ts, TenantID := tenantID, Body := otlpValueString (ge_Sprint env) (ol_Body rec), Severity := ol_SeverityText rec,
       ResourceAttrs := resourceAttrs, LogAttrs := attrsToMap (ge_Sprint env) (ol_Attributes rec),
       TraceID := normalizeHexID (ge_uni env) (ol_TraceID rec), SpanID := normalizeHexID (ge_uni env) (ol_SpanID rec)\<rparr>))"

definition otlp_records :: "('re, 'o, 'b, 'v) gateway_env \<Rightarrow> http_request \<Rightarrow> 'v otlpResourceLogs list \<Rightarrow> (strmap \<times> string \<times> 'v otlpLogRecord) list" where
  "otlp_records env r req = concat (map (\<lambda>resourceLogs.
     let resourceAttrs = attrsToMap (ge_Sprint env) (or_Attributes resourceLogs);
         tenantID = firstNonEmpty [mget resourceAttrs ''tenant_id'', Header_Get r ''X-Tenant-Id'', ''default'']
     in map (\<lambda>rec. (resourceAttrs, tenantID, rec)) (concat (map os_LogRecords (or_ScopeLogs resourceLogs)))) req)"

definition loki_event :: "string \<Rightarrow> strmap \<times> string list \<Rightarrow> event result" where
  "loki_event tenantID = (\<lambda>(stream, v).
     case parseUnixNanoString (v ! 0) of Inl err \<Rightarrow> Inl err | Inr ts \<Rightarrow>
     let event = zero_event\<lparr>Timestamp := ts, TenantID := tenantID, StreamLabels := copyStringMap stream, Body := v ! 1\<rparr> in
     Inr (if 2 < length v then event\<lparr>LogAttrs := [(''metadata'', v ! 2)]\<rparr> else event))"

text \<open>Entries with fewer than two elements are skipped.\<close>

definition loki_values :: "lokiStream list \<Rightarrow> (strmap \<times> string list) list" where
  "loki_values streams = filter (\<lambda>(_, v). \<not> length v < 2) (concat (map (\<lambda>stream. map (Pair (lk_Stream stream)) (lk_Values stream)) streams))"

section \<open>Loki queries\<close>

fun parse_selectors :: "string list \<Rightarrow> strmap \<Rightarrow> strmap result" where
  "parse_selectors [] labels = Inr labels"
| "parse_selectors (part # parts) labels =
     (let part = TrimSpace part in
      if part = [] then parse_selectors parts labels
      else case Cut part ''='' of None \<Rightarrow> Inl (Errorf ''invalid label selector %q'' [part])
      | Some (key, v) \<Rightarrow> parse_selectors parts (AList.update (TrimSpace key) (TrimChars (TrimSpace v) [CHR 0x22, CHR 0x27]) labels))"

definition parse_filter :: "strmap \<Rightarrow> string \<Rightarrow> strmap \<times> string \<times> string" where
  "parse_filter labels expr =
     (case Cut expr ''|~'' of Some (_, pattern) \<Rightarrow> (labels, [], TrimChars (TrimSpace pattern) [CHR 0x22, CHR 0x27]) | None \<Rightarrow>
      case Cut expr ''|='' of Some (_, text) \<Rightarrow> (labels, TrimChars (TrimSpace text) [CHR 0x22, CHR 0x27], []) | None \<Rightarrow>
      (labels, [], []))"

definition parseLokiExpression :: "string \<Rightarrow> (strmap \<times> string \<times> string) result" where
  "parseLokiExpression expr =
     (let expr = TrimSpace expr in
      if expr = [] then Inr ([], [], [])
      else if starts_with expr ''{'' then
        (case Cut expr ''}'' of None \<Rightarrow> Inl (Errorf ''invalid loki selector expression'' [])
         | Some (selector, rest) \<Rightarrow>
             (case parse_selectors (split_char (CHR '','') (TrimSpace (drop 1 selector))) [] of Inl err \<Rightarrow> Inl err
              | Inr labels \<Rightarrow> Inr (parse_filter labels (TrimSpace rest))))
      else Inr (parse_filter [] expr))"

definition parseFlexibleTime :: "string \<Rightarrow> time result" where
  "parseFlexibleTime v =
     (let v = TrimSpace v in
      if v = [] then Inr 0
      else case Atoi v of Some nanos \<Rightarrow> Inr (time_Unix 0 nanos) | None \<Rightarrow>
      case Parse_RFC3339 v of Some parsed \<Rightarrow> Inr parsed | None \<Rightarrow> Inl (Errorf ''invalid timestamp %q'' [v]))"

definition parseIntQuery :: "string \<Rightarrow> int \<Rightarrow> int" where
  "parseIntQuery v fallback = (if v = [] then fallback else case Atoi v of None \<Rightarrow> fallback | Some parsed \<Rightarrow> parsed)"

definition parseLokiTimeWindow :: "time \<Rightarrow> http_request \<Rightarrow> bool \<Rightarrow> (time \<times> time) result" where
  "parseLokiTimeWindow now r rangeQuery =
     (if rangeQuery then
        (case parseFlexibleTime (mget (h_Query r) ''start'') of Inl err \<Rightarrow> Inl err | Inr start \<Rightarrow>
         case parseFlexibleTime (mget (h_Query r) ''end'') of Inl err \<Rightarrow> Inl err | Inr finish \<Rightarrow>
         if IsZero start \<or> IsZero finish then Inl (Errorf ''start and end are required'' []) else Inr (start, finish))
      else
        (case parseFlexibleTime (firstNonEmpty [mget (h_Query r) ''time'', mget (h_Query r) ''end'']) of Inl err \<Rightarrow> Inl err | Inr ts \<Rightarrow>
         let ts = (if IsZero ts then now else ts) in Inr (ts - 1, ts + 1)))"

definition loki_tenant :: "http_request \<Rightarrow> string" where
  "loki_tenant r = firstNonEmpty [Header_Get r ''X-Tenant-Id'', mget (h_Query r) ''tenant'', ''default'']"

definition parseLokiQueryRequest :: "time \<Rightarrow> http_request \<Rightarrow> bool \<Rightarrow> query_request result" where
  "parseLokiQueryRequest now r rangeQuery =
     (case parseLokiExpression (mget (h_Query r) ''query'') of Inl err \<Rightarrow> Inl err | Inr (labels, textContains, textRegex) \<Rightarrow>
      case parseLokiTimeWindow now r rangeQuery of Inl err \<Rightarrow> Inl err | Inr (start, finish) \<Rightarrow>
      let limit = parseIntQuery (mget (h_Query r) ''limit'') 100; limit = (if limit \<le> 0 then 100 else limit) in
      Inr \<lparr>q_TenantID = loki_tenant r, q_LabelSelectors = labels, q_FieldPredicates = [], q_TextContains = textContains, q_TextRegex = textRegex,
        q_Start = start, q_End = finish, q_Limit = limit, q_Cursor = [], q_Tail = False, q_PartitionKey = []\<rparr>)"

section \<open>Handlers\<close>

definition gw_writeQueryError :: "goerror \<Rightarrow> gateway_response" where
  "gw_writeQueryError err = WriteJSON (if errors_is err ErrQueryConcurrencyExceeded then 429 else 400) (GwError err)"

definition handleNativeIngest ::
  "('re, 'o, 'b, 'v) gateway_env \<Rightarrow> ticks \<Rightarrow> http_request \<Rightarrow> ('o, 'b) gateway \<Rightarrow> gateway_response \<times> ('o, 'b) gateway" where
  "handleNativeIngest env tk r g =
     (if h_Method r \<noteq> ''POST'' then (WriteHeader 405, g) else
      case ge_decodeIngest env (h_Body r) of Inl err \<Rightarrow> (WriteJSON 400 (GwError err), g) | Inr req \<Rightarrow>
      case appendEvents env tk req g of (Inl err, g) \<Rightarrow> (WriteJSON 400 (GwError err), g)
      | (Inr events, g) \<Rightarrow> (WriteJSON 202 (GwIngested (length events) events), g))"

definition handleNativeSearch ::
  "('re, 'o, 'b, 'v) gateway_env \<Rightarrow> ticks \<Rightarrow> http_request \<Rightarrow> ('o, 'b) gateway \<Rightarrow> gateway_response \<times> ('o, 'b) gateway" where
  "handleNativeSearch env tk r g =
     (if h_Method r \<noteq> ''POST'' then (WriteHeader 405, g) else
      case ge_decodeQuery env (h_Body r) of Inl err \<Rightarrow> (WriteJSON 400 (GwError err), g) | Inr req \<Rightarrow>
      case Engine_Query (ge_engine env) (tk_engine tk 0) (gw_engine g) req of (res, eng) \<Rightarrow>
      ((case res of Inl err \<Rightarrow> gw_writeQueryError err | Inr result \<Rightarrow> WriteJSON 200 (GwResult result)), g\<lparr>gw_engine := eng\<rparr>))"

definition handleNativeExplain ::
  "('re, 'o, 'b, 'v) gateway_env \<Rightarrow> ticks \<Rightarrow> http_request \<Rightarrow> ('o, 'b) gateway \<Rightarrow> gateway_response \<times> ('o, 'b) gateway" where
  "handleNativeExplain env tk r g =
     (if h_Method r \<noteq> ''POST'' then (WriteHeader 405, g) else
      case ge_decodeQuery env (h_Body r) of Inl err \<Rightarrow> (WriteJSON 400 (GwError err), g) | Inr req \<Rightarrow>
      case Engine_Explain (ge_engine env) (gw_engine g) req of (res, eng) \<Rightarrow>
      ((case res of Inl err \<Rightarrow> gw_writeQueryError err | Inr plan \<Rightarrow> WriteJSON 200 (GwPlan plan)), g\<lparr>gw_engine := eng\<rparr>))"

definition handleNativeTail ::
  "('re, 'o, 'b, 'v) gateway_env \<Rightarrow> ticks \<Rightarrow> http_request \<Rightarrow> ('o, 'b) gateway \<Rightarrow> gateway_response \<times> ('o, 'b) gateway" where
  "handleNativeTail env tk r g =
     (if h_Method r \<noteq> ''POST'' then (WriteHeader 405, g) else
      case ge_decodeTail env (h_Body r) of Inl err \<Rightarrow> (WriteJSON 400 (GwError err), g) | Inr req \<Rightarrow>
      let req = (if tail_Limit req \<le> 0 then req\<lparr>tail_Limit := 100\<rparr> else req) in
      case Engine_Tail (ge_engine env) (tk_engine tk 0) (gw_engine g) req of (res, eng) \<Rightarrow>
      ((case res of Inl err \<Rightarrow> gw_writeQueryError err | Inr result \<Rightarrow> WriteJSON 200 (GwResult result)), g\<lparr>gw_engine := eng\<rparr>))"

definition handleListTenants :: "('re, 'o, 'b, 'v) gateway_env \<Rightarrow> http_request \<Rightarrow> ('o, 'b) gateway \<Rightarrow> gateway_response" where
  "handleListTenants env r g =
     (if h_Method r \<noteq> ''GET'' then WriteHeader 405 else
      case ObjectStats (ge_engine env) (gw_engine g) of Inl err \<Rightarrow> WriteJSON 500 (GwError err) | Inr objects \<Rightarrow>
      WriteJSON 200 (GwTenants (ListTenants (gw_engine g)) (ParserStats (gw_engine g)) (Segments (gw_engine g)) objects))"

definition loki_streams :: "query_result \<Rightarrow> gateway_response" where
  "loki_streams result = WriteJSON 200 (GwStreams (r_Events result) (r_Stats result))"

definition handleLokiQuery ::
  "('re, 'o, 'b, 'v) gateway_env \<Rightarrow> ticks \<Rightarrow> http_request \<Rightarrow> ('o, 'b) gateway \<Rightarrow> gateway_response \<times> ('o, 'b) gateway" where
  "handleLokiQuery env tk r g =
     (if h_Method r \<noteq> ''GET'' then (WriteHeader 405, g) else
      case parseLokiQueryRequest (tk_handler tk 0) r False of Inl err \<Rightarrow> (WriteJSON 400 (GwError err), g) | Inr req \<Rightarrow>
      case Engine_Query (ge_engine env) (tk_engine tk 0) (gw_engine g) req of (res, eng) \<Rightarrow>
      ((case res of Inl err \<Rightarrow> gw_writeQueryError err | Inr result \<Rightarrow> loki_streams result), g\<lparr>gw_engine := eng\<rparr>))"

definition handleLokiQueryRange ::
  "('re, 'o, 'b, 'v) gateway_env \<Rightarrow> ticks \<Rightarrow> http_request \<Rightarrow> ('o, 'b) gateway \<Rightarrow> gateway_response \<times> ('o, 'b) gateway" where
  "handleLokiQueryRange env tk r g =
     (if h_Method r \<noteq> ''GET'' then (WriteHeader 405, g) else
      case parseLokiQueryRequest (tk_handler tk 0) r True of Inl err \<Rightarrow> (WriteJSON 400 (GwError err), g) | Inr req \<Rightarrow>
      case Engine_Query (ge_engine env) (tk_engine tk 0) (gw_engine g) req of (res, eng) \<Rightarrow>
      ((case res of Inl err \<Rightarrow> WriteJSON 400 (GwError err) | Inr result \<Rightarrow> loki_streams result), g\<lparr>gw_engine := eng\<rparr>))"

definition handleQueueStats :: "('re, 'o, 'b, 'v) gateway_env \<Rightarrow> http_request \<Rightarrow> ('o, 'b) gateway \<Rightarrow> gateway_response" where
  "handleQueueStats env r g =
     (if h_Method r \<noteq> ''GET'' then WriteHeader 405 else
      case gw_broker g of None \<Rightarrow> WriteJSON 200 (GwQueue False []) | Some b \<Rightarrow> WriteJSON 200 (GwQueue True (Stats (ge_B env) b)))"

definition handleQueueReplay :: "('re, 'o, 'b, 'v) gateway_env \<Rightarrow> http_request \<Rightarrow> ('o, 'b) gateway \<Rightarrow> gateway_response" where
  "handleQueueReplay env r g =
     (if h_Method r \<noteq> ''POST'' then WriteHeader 405 else
      case gw_broker g of None \<Rightarrow> WriteJSON 200 GwReplayOff | Some b \<Rightarrow>
      case ge_decodeReplay env (h_Body r) of Inl err \<Rightarrow> WriteJSON 400 (GwError err) | Inr (topic, limit) \<Rightarrow>
      case ge_Replay env of None \<Rightarrow> WriteJSON 501 (GwError (Errorf ''broker does not support replay'' [])) | Some replay \<Rightarrow>
      case replay b topic limit of Inl err \<Rightarrow> WriteJSON 400 (GwError err)
      | Inr messages \<Rightarrow> WriteJSON 200 (GwReplayed topic limit messages))"

definition gw_handleCacheStats :: "http_request \<Rightarrow> ('o, 'b) gateway \<Rightarrow> gateway_response" where
  "gw_handleCacheStats r g = (if h_Method r \<noteq> ''GET'' then WriteHeader 405 else WriteJSON 200 (GwCache (Engine_CacheStats (gw_engine g))))"

definition handleOTLPLogs ::
  "('re, 'o, 'b, 'v) gateway_env \<Rightarrow> ticks \<Rightarrow> http_request \<Rightarrow> ('o, 'b) gateway \<Rightarrow> gateway_response \<times> ('o, 'b) gateway" where
  "handleOTLPLogs env tk r g =
     (if h_Method r \<noteq> ''POST'' then (WriteHeader 405, g) else
      case ge_decodeOTLP env (h_Body r) of Inl err \<Rightarrow> (WriteJSON 400 (GwError err), g) | Inr req \<Rightarrow>
      case collect (otlp_event env tk) (List.enumerate 0 (otlp_records env r req)) of Inl err \<Rightarrow> (WriteJSON 400 (GwError err), g) | Inr events \<Rightarrow>
      case appendEvents env tk events g of (Inl err, g) \<Rightarrow> (WriteJSON 400 (GwError err), g)
      | (Inr appended, g) \<Rightarrow> (WriteJSON 200 (GwOTLP (length appended)), g))"

definition handleLokiPush ::
  "('re, 'o, 'b, 'v) gateway_env \<Rightarrow> ticks \<Rightarrow> http_request \<Rightarrow> ('o, 'b) gateway \<Rightarrow> gateway_response \<times> ('o, 'b) gateway" where
  "handleLokiPush env tk r g =
     (if h_Method r \<noteq> ''POST'' then (WriteHeader 405, g) else
      case ge_decodeLoki env (h_Body r) of Inl err \<Rightarrow> (WriteJSON 400 (GwError err), g) | Inr streams \<Rightarrow>
      case collect (loki_event (firstNonEmpty [Header_Get r ''X-Tenant-Id'', ''default''])) (loki_values streams) of
        Inl err \<Rightarrow> (WriteJSON 400 (GwError err), g)
      | Inr events \<Rightarrow>
          (case appendEvents env tk events g of (Inl err, g) \<Rightarrow> (WriteJSON 400 (GwError err), g)
           | (Inr _, g) \<Rightarrow> (WriteHeader 204, g)))"

definition Gateway_Handler ::
  "('re, 'o, 'b, 'v) gateway_env \<Rightarrow> ticks \<Rightarrow> http_request \<Rightarrow> ('o, 'b) gateway \<Rightarrow> gateway_response \<times> ('o, 'b) gateway" where
  "Gateway_Handler env tk r g =
     (case RegisterBaseRoutes Gateway_Descriptor (tk_handler tk 0) r of Some res \<Rightarrow> (lift_reply GwBase res, g) | None \<Rightarrow>
      if h_Path r = ''/api/native/v1/ingest'' then handleNativeIngest env tk r g
      else if h_Path r = ''/api/native/v1/search'' then handleNativeSearch env tk r g
      else if h_Path r = ''/api/native/v1/tail'' then handleNativeTail env tk r g
      else if h_Path r = ''/api/native/v1/explain'' then handleNativeExplain env tk r g
      else if h_Path r = ''/api/admin/tenants'' then (handleListTenants env r g, g)
      else if h_Path r = ''/api/admin/cache'' then (gw_handleCacheStats r g, g)
      else if h_Path r = ''/api/admin/queue'' then (handleQueueStats env r g, g)
      else if h_Path r = ''/api/admin/queue/replay'' then (handleQueueReplay env r g, g)
      else if h_Path r = ''/otlp/v1/logs'' then handleOTLPLogs env tk r g
      else if h_Path r = ''/loki/api/v1/push'' then handleLokiPush env tk r g
      else if h_Path r = ''/api/v1/query'' then handleLokiQuery env tk r g
      else if h_Path r = ''/api/v1/query_range'' then handleLokiQueryRange env tk r g
      else (NotFound, g))"

end
