(* ===== verification/Gateway_Correct.thy ===== *)
theory Gateway_Correct
  imports Gateway
begin

text \<open>
  What the gateway promises: the texts of its Loki queries and instants read back as they were meant, whatever it is
  asked it shows no tenant the events of another, and with a queue no event it takes in is lost between broker and engine.
\<close>

lemma graphic_digit: "is_digit c \<Longrightarrow> graphic c"
  by (auto simp: is_digit_def graphic_def)

section \<open>Instants\<close>

lemma Atoi_not_number:
  assumes "c \<in> set (tl s)" and "\<not> is_digit c"
  shows "Atoi s = None"
proof -
  obtain x xs where s: "s = x # xs" "c \<in> set xs" using assms(1) by (cases s) auto
  then have "\<not> list_all is_digit xs" "\<not> list_all is_digit s" using assms(2) by (auto simp: list_all_iff)
  then show ?thesis by (auto simp: Atoi_def int64_digits_def s(1))
qed

lemma fmt_RFC3339Nano_shape:
  assumes "four_digit_year t"
  shows "\<exists>c cs. fmt_RFC3339Nano t = c # cs @ ''Z'' \<and> is_digit c"
proof -
  obtain y m d where c: "civil (time_days t) = (y, m, d)" by (cases "civil (time_days t)") auto
  have "0 \<le> y" "y < 10000" using assms c by (simp_all add: four_digit_year_def)
  then obtain x xs where p: "pad 4 (nat y) = x # xs" using pad_length [of "nat y" 4] by (cases "pad 4 (nat y)") (auto simp: nat_less_iff)
  then have "is_digit x" using pad_digits [of 4 "nat y"] by simp
  then show ?thesis using \<open>0 \<le> y\<close> by (simp add: fmt_RFC3339Nano_def fmt_date_def fmt_year_def c p)
qed

text \<open>
  C16. Times of a Loki query read back: an instant of the years 0 to 9999 printed as RFC 3339 with nanoseconds, and such an instant
  not before the epoch, as far as 64 bits go, printed as nanoseconds since the epoch, both give the instant again.
\<close>

theorem flexible_time_roundtrip:
  assumes "four_digit_year t"
  shows "parseFlexibleTime (fmt_RFC3339Nano t) = Inr t \<and>
     (t - time_Unix 0 0 \<in> {0..max_int64} \<longrightarrow> parseFlexibleTime (show_int (t - time_Unix 0 0)) = Inr t)"
proof (intro conjI impI)
  obtain c cs where s: "fmt_RFC3339Nano t = c # cs @ ''Z''" "is_digit c" using fmt_RFC3339Nano_shape [OF assms] by blast
  have "TrimSpace (fmt_RFC3339Nano t) = fmt_RFC3339Nano t"
    using s graphic_digit by (intro TrimSpace_graphic) (simp_all add: graphic_def byte_val_def)
  moreover have "Atoi (fmt_RFC3339Nano t) = None"
    by (rule Atoi_not_number [of "CHR ''Z''"]) (simp_all add: s is_digit_def byte_val_def)
  ultimately show "parseFlexibleTime (fmt_RFC3339Nano t) = Inr t"
    using Parse_RFC3339Nano [OF assms] s by (simp add: parseFlexibleTime_def)
next
  let ?n = "t - time_Unix 0 0"
  assume n: "?n \<in> {0..max_int64}"
  have d: "list_all is_digit (show_nat (nat ?n))" using show_nat_digits by simp
  then have "graphic (hd (show_nat (nat ?n)))" "graphic (last (show_nat (nat ?n)))"
    by (simp_all add: list_all_iff graphic_digit)
  then have "TrimSpace (show_int ?n) = show_nat (nat ?n)" using n by (simp add: show_int_def TrimSpace_graphic)
  moreover have "Atoi (show_nat (nat ?n)) = Some ?n" using Atoi_show_nat [of "nat ?n"] n by simp
  ultimately show "parseFlexibleTime (show_int ?n) = Inr t" by (simp add: parseFlexibleTime_def time_Unix_def)
qed

theorem flexible_time_roundtrip_witness:
  "parseFlexibleTime (fmt_RFC3339Nano (time_Unix 0 1500000001)) = Inr (time_Unix 0 1500000001) \<and>
   parseFlexibleTime (show_int 1500000001) = Inr (time_Unix 0 1500000001)"
proof -
  have "four_digit_year (time_Unix 0 1500000001)" by code_simp
  moreover have "time_Unix 0 1500000001 - time_Unix 0 0 = 1500000001" by (simp add: time_Unix_def)
  ultimately show ?thesis using flexible_time_roundtrip [of "time_Unix 0 1500000001"] by (simp add: max_int64_def)
qed

section \<open>Loki expressions\<close>

text \<open>The way a client writes a query: labels in braces, then a text every line must contain.\<close>

definition dquote :: char where "dquote = CHR 0x22"

definition loki_label :: "string \<times> string \<Rightarrow> string" where
  "loki_label = (\<lambda>(k, v). k @ CHR ''='' # dquote # v @ [dquote])"

definition loki_query :: "strmap \<Rightarrow> string \<Rightarrow> string" where
  "loki_query labels text = ''{'' @ Join (map loki_label labels) '','' @ ''} |= '' @ dquote # text @ [dquote]"

text \<open>Quotes at the ends of a value would be trimmed with those around it.\<close>

definition bare_ends :: "string \<Rightarrow> bool" where
  "bare_ends v \<longleftrightarrow> v = [] \<or> hd v \<notin> {CHR 0x22, CHR 0x27} \<and> last v \<notin> {CHR 0x22, CHR 0x27}"

definition label_ok :: "string \<times> string \<Rightarrow> bool" where
  "label_ok = (\<lambda>(k, v). k \<noteq> [] \<and> graphic (hd k) \<and> graphic (last k) \<and> CHR ''='' \<notin> set k \<and>
     CHR '','' \<notin> set (k @ v) \<and> CHR ''}'' \<notin> set (k @ v) \<and> bare_ends v)"

lemma Cut_None: "sep \<noteq> [] \<Longrightarrow> \<not> Contains s sep \<Longrightarrow> Cut s sep = None"
  by (induction s) auto

lemma Trim_quoted:
  assumes "bare_ends v"
  shows "TrimChars (dquote # v @ [dquote]) [CHR 0x22, CHR 0x27] = v"
proof (cases "v = []")
  case False
  let ?P = "\<lambda>c. c \<in> set [CHR 0x22, CHR 0x27]"
  have "\<not> ?P (hd v)" "\<not> ?P (hd (rev v))" using assms False by (auto simp: bare_ends_def hd_rev)
  then have d: "dropWhile ?P (v @ w) = v @ w" "dropWhile ?P (rev v @ w) = rev v @ w" for w
    using False by (metis append_Cons dropWhile.simps(2) list.exhaust_sel rev_is_Nil_conv)+
  have "dropWhile ?P (dquote # v @ [dquote]) = v @ [dquote]" using d(1) by (simp add: dquote_def)
  moreover have "dropWhile ?P (rev (v @ [dquote])) = rev v" using d(2) [of "[]"] by (simp add: dquote_def)
  ultimately show ?thesis unfolding TrimChars_def TrimLeftChars_def TrimRightChars_def by simp
qed (simp add: TrimChars_def TrimLeftChars_def TrimRightChars_def dquote_def)

lemma graphic_dquote: "graphic dquote"
  by (simp add: graphic_def byte_val_def dquote_def)

lemma TrimSpace_label: "label_ok kv \<Longrightarrow> TrimSpace (loki_label kv) = loki_label kv"
  by (rule TrimSpace_graphic) (auto simp: label_ok_def loki_label_def graphic_dquote split: prod.splits)

lemma update_new: "k \<notin> fst ` set al \<Longrightarrow> AList.update k v al = al @ [(k, v)]"
  by (induction al) auto

lemma parse_selectors_labels:
  assumes "list_all label_ok labels" and "distinct (map fst acc @ map fst labels)"
  shows "parse_selectors (map loki_label labels) acc = Inr (acc @ labels)"
  using assms
proof (induction labels arbitrary: acc)
  case (Cons kv labels)
  obtain k v where kv: "kv = (k, v)" by fastforce
  have ok: "label_ok (k, v)" using Cons.prems(1) kv by simp
  have t: "TrimSpace (loki_label (k, v)) = loki_label (k, v)" "loki_label (k, v) \<noteq> []"
    using TrimSpace_label [OF ok] by (simp_all add: loki_label_def)
  have c: "Cut (loki_label (k, v)) ''='' = Some (k, dquote # v @ [dquote])"
    using ok Cut_char [of "CHR ''=''" k] by (simp add: loki_label_def label_ok_def)
  have k: "TrimSpace k = k" using ok by (intro TrimSpace_graphic) (simp_all add: label_ok_def)
  have v: "TrimChars (TrimSpace (dquote # v @ [dquote])) [CHR 0x22, CHR 0x27] = v"
    using ok Trim_quoted [of v] TrimSpace_graphic [of "dquote # v @ [dquote]"] by (simp add: label_ok_def graphic_dquote)
  have "k \<notin> fst ` set acc" using Cons.prems(2) kv by auto
  then show ?case using Cons.IH [of "acc @ [(k, v)]"] Cons.prems kv t c k v by (simp add: update_new)
qed simp

lemma parse_filter_text:
  assumes "bare_ends text" and "\<not> Contains text ''|~''"
  shows "parse_filter labels (''|= '' @ dquote # text @ [dquote]) = (labels, text, [])"
proof -
  let ?s = "dquote # text @ [dquote]"
  have "\<not> Contains (text @ [dquote]) ''|~''"
  proof
    assume "Contains (text @ [dquote]) ''|~''"
    then obtain a b where e: "text @ [dquote] = a @ ''|~'' @ b" unfolding Contains_iff by blast
    have "b \<noteq> []" using arg_cong [OF e, of last] by (auto simp: dquote_def)
    then have "text = a @ ''|~'' @ butlast b" using arg_cong [OF e, of butlast] by (simp add: butlast_append)
    then show False using assms(2) unfolding Contains_iff by blast
  qed
  then have "\<not> Contains (''|= '' @ ?s) ''|~''" by (simp add: starts_with_def dquote_def)
  then have "Cut (''|= '' @ ?s) ''|~'' = None" by (intro Cut_None) simp_all
  moreover have "Cut (''|= '' @ ?s) ''|='' = Some ([], CHR '' '' # ?s)" by (simp add: starts_with_def)
  moreover have "TrimSpace (CHR '' '' # ?s) = ?s"
    using TrimSpace_space [of ?s] TrimSpace_graphic [of ?s] by (simp add: graphic_dquote)
  ultimately show ?thesis using Trim_quoted [OF assms(1)] by (simp add: parse_filter_def)
qed

lemma selectors_text:
  assumes "list_all label_ok labels" and "distinct (map fst labels)"
  shows "parse_selectors (split_char (CHR '','') (TrimSpace (Join (map loki_label labels) '',''))) [] = Inr labels"
proof (cases labels)
  case Nil
  then show ?thesis by (simp add: Let_def)
next
  case (Cons kv ls)
  let ?sel = "Join (map loki_label labels) '',''"
  have free: "CHR '','' \<notin> set s" if "s \<in> set (map loki_label labels)" for s
    using assms(1) that by (auto simp: list_all_iff label_ok_def loki_label_def dquote_def)
  have ends: "Join (map loki_label xs) '','' \<noteq> [] \<and> last (Join (map loki_label xs) '','') = dquote" if "xs \<noteq> []" for xs
    using that by (induction xs rule: list_nonempty_induct) (auto simp: Join_Cons loki_label_def split: prod.splits)
  obtain k v where kv: "kv = (k, v)" by fastforce
  have "hd ?sel = hd k" "k \<noteq> []" "graphic (hd k)"
    using assms(1) Cons kv by (cases ls; simp add: loki_label_def label_ok_def)+
  then have "TrimSpace ?sel = ?sel" using ends [of labels] Cons graphic_dquote by (intro TrimSpace_graphic) auto
  moreover have "split_char (CHR '','') ?sel = map loki_label labels" using split_Join [of "map loki_label labels"] free Cons by simp
  ultimately show ?thesis using parse_selectors_labels [of labels "[]"] assms by simp
qed

text \<open>
  C15. A Loki query means what it says: a selector of labels followed by a text filter is parsed into exactly these
  labels and this text, whatever the number of labels, as long as the names of the labels are distinct, are not empty, begin and end
  with a printable ASCII character and hold no equals sign, no label holds a comma or a closing brace, no value and not the text
  begins or ends with a quote, and the text does not hold the operator of a regular expression.
\<close>

theorem loki_expression_roundtrip:
  assumes "list_all label_ok labels" and "distinct (map fst labels)" and "bare_ends text" and "\<not> Contains text ''|~''"
  shows "parseLokiExpression (loki_query labels text) = Inr (labels, text, [])"
proof -
  let ?sel = "Join (map loki_label labels) '',''" and ?q = "dquote # text @ [dquote]"
  have free: "CHR ''}'' \<notin> set (loki_label kv)" if "kv \<in> set labels" for kv
    using assms(1) that by (auto simp: list_all_iff label_ok_def loki_label_def dquote_def)
  have join: "CHR ''}'' \<notin> set (Join (map loki_label ls) '','')" if "set ls \<subseteq> set labels" for ls
    using that free by (induction ls rule: induct_list012) auto
  have trim: "TrimSpace (loki_query labels text) = loki_query labels text"
    by (rule TrimSpace_graphic) (simp_all add: loki_query_def graphic_dquote, simp add: graphic_def byte_val_def)
  have cut: "Cut (loki_query labels text) ''}'' = Some (CHR ''{'' # ?sel, CHR '' '' # ''|= '' @ ?q)"
    using Cut_char [of "CHR ''}''" "CHR ''{'' # ?sel"] join [of labels] by (simp add: loki_query_def)
  have rest: "TrimSpace (CHR '' '' # ''|= '' @ ?q) = ''|= '' @ ?q"
    using TrimSpace_space [of "''|= '' @ ?q"] TrimSpace_graphic [of "''|= '' @ ?q"] by (simp add: graphic_dquote) (simp add: graphic_def byte_val_def)
  have "starts_with (loki_query labels text) ''{''" "loki_query labels text \<noteq> []" by (simp_all add: loki_query_def starts_with_def)
  then show ?thesis
    unfolding parseLokiExpression_def trim cut Let_def
    using selectors_text [OF assms(1,2)] rest parse_filter_text [OF assms(3,4)] by simp
qed

theorem loki_expression_roundtrip_witness:
  "parseLokiExpression (loki_query [(''app'', ''api server''), (''env'', ''prod'')] ''time out'') =
     Inr ([(''app'', ''api server''), (''env'', ''prod'')], ''time out'', [])"
  by (rule loki_expression_roundtrip)
    (simp_all add: label_ok_def graphic_def byte_val_def bare_ends_def starts_with_def)

text \<open>A text that holds the operator is taken for a regular expression, and the text before it is dropped.\<close>

lemma loki_text_becomes_regex:
  "parseLokiExpression (''|= '' @ dquote # ''a|~b'' @ [dquote]) = Inr ([], [], ''b'')"
  by code_simp

section \<open>Tenants stay apart\<close>

text \<open>
  The broker stores copies of events, whose maps are maps; so whatever the consumer polls may be appended.
\<close>

definition stores_events :: "memory_broker \<Rightarrow> bool" where
  "stores_events b \<longleftrightarrow> (\<forall>t p. \<forall>m \<in> set (broker_logs b t p). wf_event (msg_Event m))"

lemma stores_events_new: "stores_events (NewMemoryBroker n)"
  by (simp add: stores_events_def NewMemoryBroker_def Let_def) (simp add: broker_logs_def)

lemma stores_events_publish:
  assumes "stores_events b" and "Memory_Publish now b req = (res, b')"
  shows "stores_events b'"
proof (cases "pr_Topic req = []")
  case False
  have "set (broker_logs b' t p) \<subseteq> set (broker_logs b t p) \<union> {m. wf_event (msg_Event m)}" for t p
    using assms(2) False by (auto simp: Memory_Publish_def Let_def broker_logs_def split: if_splits)
  then show ?thesis using assms(1) unfolding stores_events_def by blast
qed (use assms in \<open>simp add: Memory_Publish_def\<close>)

lemma broker_logs_group: "broker_logs (ensureGroupTopicLocked b g t) = broker_logs b"
  by (simp add: fun_eq_iff broker_logs_def ensureGroupTopicLocked_def Let_def)

lemma stores_events_poll:
  assumes "stores_events b" and "Memory_Poll b g t limit = (Inr ms, b')"
  shows "stores_events b' \<and> (\<forall>m \<in> set ms. wf_event (msg_Event m))"
proof -
  have "b' = b \<or> b' = ensureGroupTopicLocked b g t"
    using assms(2) by (auto simp: Memory_Poll_def Let_def split: if_splits option.splits)
  then have b': "broker_logs b' = broker_logs b" using broker_logs_group by auto
  have "\<exists>p. m \<in> set (broker_logs b t p)" if "m \<in> set ms" for m
  proof (cases "map_of (br_topics b) t")
    case (Some parts)
    then have "\<exists>p. m \<in> set (read [] parts p)"
      using assms(2) that by (auto simp: Memory_Poll_def Let_def poll_partitions_take split: if_splits dest!: in_set_takeD in_set_dropD) blast+
    then show ?thesis by (simp add: broker_logs_def read_def [of _ "br_topics b"] Some)
  qed (use assms(2) that in \<open>auto simp: Memory_Poll_def Let_def split: if_splits\<close>)
  then show ?thesis using assms(1) unfolding stores_events_def b' by blast
qed

lemma stores_events_commit: "stores_events b \<Longrightarrow> Memory_Commit b g m = (e, b') \<Longrightarrow> stores_events b'"
  by (auto simp: stores_events_def Memory_Commit_def Let_def broker_logs_def ensureGroupTopicLocked_def split: if_splits)

lemma memory_broker_ops:
  "Publish MemoryBroker = Memory_Publish" "Poll MemoryBroker = Memory_Poll" "Commit MemoryBroker = Memory_Commit"
  by (simp_all add: MemoryBroker_def)

lemma poll_topics_events:
  assumes "stores_events b" and "\<forall>m \<in> set batch. wf_event (msg_Event m)"
    and "poll_topics MemoryBroker g topics remaining rep batch b = (e, rep', batch', b')"
  shows "stores_events b' \<and> (\<forall>m \<in> set batch'. wf_event (msg_Event m))"
  using assms
proof (induction topics arbitrary: remaining rep batch b)
  case (Cons t topics)
  obtain res b1 where p: "Memory_Poll b g t remaining = (res, b1)" by fastforce
  show ?case
  proof (cases "remaining \<le> 0")
    case False
    show ?thesis
    proof (cases res)
      case (Inl err)
      then have "b1 = b" using p by (auto simp: Memory_Poll_def Let_def split: if_splits option.splits)
      then show ?thesis using Cons.prems False p Inl by (auto simp: memory_broker_ops)
    next
      case (Inr ms)
      then have s: "stores_events b1" "\<forall>m \<in> set ms. wf_event (msg_Event m)" using stores_events_poll [OF Cons.prems(1)] p by blast+
      have "\<forall>m \<in> set (batch @ ms). wf_event (msg_Event m)" using s(2) Cons.prems(2) by auto
      from Cons.IH [OF s(1) this] show ?thesis using Cons.prems(3) False p Inr by (auto simp: memory_broker_ops)
    qed
  qed (use Cons.prems in simp)
qed simp

lemma handle_batch_events:
  assumes "stores_events b" and "\<forall>m \<in> set batch. wf_event (msg_Event m)" and "P h"
    and step: "\<And>h m. P h \<Longrightarrow> wf_event (msg_Event m) \<Longrightarrow> P (snd (H h m))"
    and "handle_batch MemoryBroker H errstr now c batch rep b h = (e, rep', b', h')"
  shows "stores_events b' \<and> P h'"
  using assms(1-3,5)
proof (induction batch arbitrary: rep b h)
  case (Cons m batch)
  obtain e1 h1 where H: "H h m = (e1, h1)" by fastforce
  have h1: "P h1" using step [OF Cons.prems(3), of m] Cons.prems(2) H by simp
  have com: "stores_events b2" if "Commit MemoryBroker b1 g m = (e2, b2)" "stores_events b1" for b1 b2 g e2
    using that stores_events_commit by (simp add: memory_broker_ops)
  have pub: "stores_events b1" if "Publish MemoryBroker t b req = (r, b1)" for t req r b1
    using that stores_events_publish [OF Cons.prems(1)] by (simp add: memory_broker_ops)
  show ?case
  proof (cases e1)
    case None
    obtain e2 b2 where c: "Commit MemoryBroker b (co_Group c) m = (e2, b2)" by fastforce
    then have "stores_events b2" using com Cons.prems(1) by blast
    then show ?thesis using Cons.IH [of b2 h1] Cons.prems H h1 None c by (cases e2) auto
  next
    case (Some err)
    obtain r b1 where p: "Publish MemoryBroker (now (length batch)) b (republish (if co_MaxAttempts c \<le> msg_Attempts m + 1 then TopicDeadLetter else TopicRetryEvents) m (errstr err)) = (r, b1)"
      by fastforce
    obtain e2 b2 where c: "Commit MemoryBroker b1 (co_Group c) m = (e2, b2)" by fastforce
    have s: "stores_events b1" "stores_events b2" using pub [OF p] com [OF c] by blast+
    have ih: "stores_events b' \<and> P h'" if "handle_batch MemoryBroker H errstr now c batch rep1 b2 h1 = (e, rep', b', h')" for rep1
      using Cons.IH [OF s(2) _ h1 that] Cons.prems(2) by simp
    note run = Cons.prems(4) [unfolded handle_batch.simps H Some prod.case option.case Let_def p]
    show ?thesis
    proof (cases r)
      case (Inl err)
      then show ?thesis using run s(1) h1 by simp
    next
      case (Inr m')
      show ?thesis using run s(2) h1 ih unfolding Inr sum.case c prod.case by (cases e2) simp_all
    qed
  qed
qed simp

lemma ConsumeOnce_events:
  assumes "stores_events b" and "P h" and "\<And>h m. P h \<Longrightarrow> wf_event (msg_Event m) \<Longrightarrow> P (snd (H h m))"
    and "ConsumeOnce MemoryBroker H errstr now c limit b h = (e, rep, b', h')"
  shows "stores_events b' \<and> P h'"
proof -
  obtain e1 rep1 batch b1 where p: "poll_topics MemoryBroker (co_Group c) (co_Topics c) (if limit \<le> 0 then co_BatchSize c else limit)
      \<lparr>Polled = 0, Processed = 0, Retried = 0, DeadLettered = 0\<rparr> [] b = (e1, rep1, batch, b1)" by (metis prod_cases4)
  then have "stores_events b1" "\<forall>m \<in> set batch. wf_event (msg_Event m)" using poll_topics_events [OF assms(1) _ p] by auto
  then show ?thesis using assms(2-4) p handle_batch_events [of b1 batch P h H]
    by (cases e1) (auto simp: ConsumeOnce_def Let_def)
qed

lemma publish_stores:
  assumes "stores_events b" and "publish_events MemoryBroker tk i events acc b = (res, b')"
  shows "stores_events b'"
  using assms
proof (induction events arbitrary: i acc b)
  case (Cons e events)
  then show ?case
    using stores_events_publish [OF Cons.prems(1)] by (fastforce simp: Let_def memory_broker_ops split: prod.splits sum.splits)
qed simp

text \<open>Events made from OTLP and Loki input have maps for maps.\<close>

lemma wf_attrs: "wf_map (attrsToMap sprint values)"
  unfolding attrsToMap_def by (rule fold_inv [where P = wf_map]) simp_all

lemma wf_copy: "wf_map (copyStringMap m)"
proof -
  have "wf_map (fold (\<lambda>(key, v). AList.update key v) m [])"
    by (rule fold_inv [where P = wf_map]) (simp_all split: prod.splits)
  then show ?thesis by (simp add: copyStringMap_def)
qed

lemma collect_all: "collect f xs = Inr ys \<Longrightarrow> (\<And>x y. x \<in> set xs \<Longrightarrow> f x = Inr y \<Longrightarrow> P y) \<Longrightarrow> list_all P ys"
proof (induction xs arbitrary: ys)
  case (Cons x xs)
  obtain y zs where y: "f x = Inr y" "collect f xs = Inr zs" "ys = y # zs"
    using Cons.prems(1) by (cases "f x"; cases "collect f xs") auto
  have "list_all P zs" by (rule Cons.IH [OF y(2)]) (rule Cons.prems(2), simp_all)
  moreover have "P y" using Cons.prems(2) [of x y] y(1) by simp
  ultimately show ?case using y(3) by simp
qed simp

lemma otlp_events_wf:
  assumes "collect (otlp_event env tk) (List.enumerate 0 (otlp_records env r req)) = Inr events"
  shows "list_all wf_event events"
proof (rule collect_all [OF assms])
  fix x e assume x: "x \<in> set (List.enumerate 0 (otlp_records env r req))" and e: "otlp_event env tk x = Inr e"
  obtain i attrs t rec where p: "x = (i, attrs, t, rec)" by (cases x) auto
  have "(attrs, t, rec) \<in> set (otlp_records env r req)" using x p by (auto simp: in_set_enumerate_eq) (metis nth_mem)
  then have "wf_map attrs" by (auto simp: otlp_records_def Let_def wf_attrs)
  moreover obtain ts where "e = zero_event\<lparr>Timestamp := ts, TenantID := t, Body := otlpValueString (ge_Sprint env) (ol_Body rec), Severity := ol_SeverityText rec,
       ResourceAttrs := attrs, LogAttrs := attrsToMap (ge_Sprint env) (ol_Attributes rec),
       TraceID := normalizeHexID (ge_uni env) (ol_TraceID rec), SpanID := normalizeHexID (ge_uni env) (ol_SpanID rec)\<rparr>"
    using e p by (auto simp: otlp_event_def split: sum.splits)
  ultimately show "wf_event e" by (simp add: wf_event_def wf_attrs) (simp add: zero_event_def wf_map_def)
qed

lemma loki_events_wf:
  assumes "collect (loki_event t) (loki_values streams) = Inr events"
  shows "list_all wf_event events"
proof (rule collect_all [OF assms])
  fix x e assume e: "loki_event t x = Inr e"
  obtain stream v where p: "x = (stream, v)" by fastforce
  obtain ts where "e = (let event = zero_event\<lparr>Timestamp := ts, TenantID := t, StreamLabels := copyStringMap stream, Body := v ! 1\<rparr> in
      if 2 < length v then event\<lparr>LogAttrs := [(''metadata'', v ! 2)]\<rparr> else event)"
    using e p by (auto simp: loki_event_def Let_def split: sum.splits if_splits)
  then show "wf_event e" by (simp add: wf_event_def wf_copy Let_def) (simp add: zero_event_def wf_map_def)
qed

definition decodes_events :: "('re, 'o, 'b, 'v) gateway_env \<Rightarrow> bool" where
  "decodes_events env \<longleftrightarrow> (\<forall>body events. ge_decodeIngest env body = Inr events \<longrightarrow> list_all wf_event events)"

definition queue_ok :: "('o, memory_broker) gateway \<Rightarrow> bool" where
  "queue_ok g \<longleftrightarrow> (case gw_broker g of None \<Rightarrow> True | Some b \<Rightarrow> stores_events b)"

lemma queue_ok_engine [simp]: "queue_ok (g\<lparr>gw_engine := eng\<rparr>) = queue_ok g"
  by (simp add: queue_ok_def)

text \<open>The query a request asks of the engine: that of a native search or tail, or of a Loki query.\<close>

definition asks :: "('re, 'o, 'b, 'v) gateway_env \<Rightarrow> ticks \<Rightarrow> http_request \<Rightarrow> query_request \<Rightarrow> bool" where
  "asks env tk r q \<longleftrightarrow>
     (if h_Path r = ''/api/native/v1/search'' then ge_decodeQuery env (h_Body r) = Inr q
      else if h_Path r = ''/api/native/v1/tail'' then (case ge_decodeTail env (h_Body r) of Inl _ \<Rightarrow> False
        | Inr t \<Rightarrow> q = tail_query (tk_engine tk 0) (if tail_Limit t \<le> 0 then t\<lparr>tail_Limit := 100\<rparr> else t))
      else if h_Path r = ''/api/v1/query'' then parseLokiQueryRequest (tk_handler tk 0) r False = Inr q
      else h_Path r = ''/api/v1/query_range'' \<and> parseLokiQueryRequest (tk_handler tk 0) r True = Inr q)"

text \<open>
  What the gateway asks of an invariant of its engine: that the four operations it calls keep it, the appends when the
  calls of the log end as \<open>io_fine\<close> says, the queries when they are \<open>asked\<close>. Then every request that asks such a
  query, or none, keeps it.
\<close>

locale engine_invariant =
  fixes E :: "('re, 'o) engine_env" and I :: "'o engine \<Rightarrow> bool" and io_fine :: "wal_io \<Rightarrow> bool" and asked :: "query_request \<Rightarrow> bool"
  assumes append_kept: "I eng \<Longrightarrow> io_fine io \<Longrightarrow> wf_event e \<Longrightarrow> I (snd (Engine_Append E io now eng e))"
    and query_kept: "I eng \<Longrightarrow> asked q \<Longrightarrow> I (snd (Engine_Query E now eng q))"
    and explain_kept: "I eng \<Longrightarrow> I (snd (Engine_Explain E eng q))"
begin

lemma tail_kept: "I eng \<Longrightarrow> asked (tail_query now t) \<Longrightarrow> I (snd (Engine_Tail E now eng t))"
  by (simp add: Engine_Tail_def query_kept)

lemma append_direct_kept:
  assumes "ge_engine env = E" and "\<And>i. io_fine (tk_io tk i)" and "I eng" and "list_all wf_event events"
  shows "I (snd (append_direct env tk i events acc eng))"
  using assms(3,4)
proof (induction events arbitrary: i acc eng)
  case (Cons e events)
  have "wf_event (stamp (tk_stamp tk i) e)" using Cons.prems(2) by (simp add: stamp_def wf_event_def)
  then have "I (snd (Engine_Append E (tk_io tk i) (tk_engine tk i) eng (stamp (tk_stamp tk i) e)))"
    using append_kept Cons.prems(1) assms(2) by blast
  then show ?case using Cons.IH Cons.prems(2) assms(1) by (auto split: prod.splits sum.splits)
qed simp

lemma appendEvents_kept:
  assumes "ge_engine env = E" and "ge_B env = MemoryBroker" and "\<And>i. io_fine (tk_io tk i)" and "I (gw_engine g)" and "queue_ok g"
    and "list_all wf_event events" and "appendEvents env tk events g = (res, g')"
  shows "I (gw_engine g') \<and> queue_ok g'"
proof (cases "gw_broker g")
  case None
  then show ?thesis using assms(5,7) append_direct_kept [OF assms(1,3,4,6), of 0 "[]"]
    by (auto simp: appendEvents_def queue_ok_def split: prod.splits)
next
  case (Some b)
  let ?P = "\<lambda>h. I (fst h)"
  have step: "?P (snd (write_handler env tk h m))" if "?P h" "wf_event (msg_Event m)" for h m
    using append_kept [OF that(1) assms(3) that(2), of "snd h" "tk_engine tk (snd h)"]
    by (auto simp: write_handler_def assms(1) split: prod.splits sum.splits)
  obtain r b' eng' where e: "enqueueEvents env tk events b (gw_engine g) = (r, b', eng')" by (metis prod_cases3)
  obtain pr b1 where p: "publish_events MemoryBroker tk 0 events [] b = (pr, b1)" by fastforce
  have b1: "stores_events b1" using publish_stores [OF _ p] assms(5) Some by (simp add: queue_ok_def)
  obtain ce rep b2 h2 where c: "ConsumeOnce MemoryBroker (write_handler env tk) (ge_errstr env) (tk_consume tk) gateway_consumer (int (length events)) b1 (gw_engine g, 0) = (ce, rep, b2, h2)"
    by (metis prod_cases4)
  have "stores_events b2 \<and> ?P h2" using ConsumeOnce_events [where P = ?P, OF b1 _ step c] assms(4) by simp
  then have "stores_events b' \<and> I eng'"
    using e p c b1 assms(2,4) by (auto simp: enqueueEvents_def split: sum.splits prod.splits option.splits if_splits)
  then show ?thesis using assms(7) Some e by (auto simp: appendEvents_def queue_ok_def)
qed

lemma queries_kept:
  assumes "ge_engine env = E" and "I (gw_engine g)" and "queue_ok g" and "\<And>q. asks env tk r q \<Longrightarrow> asked q"
  shows "h_Path r = ''/api/native/v1/search'' \<Longrightarrow> I (gw_engine (snd (handleNativeSearch env tk r g))) \<and> queue_ok (snd (handleNativeSearch env tk r g))"
    and "h_Path r = ''/api/native/v1/tail'' \<Longrightarrow> I (gw_engine (snd (handleNativeTail env tk r g))) \<and> queue_ok (snd (handleNativeTail env tk r g))"
    and "I (gw_engine (snd (handleNativeExplain env tk r g))) \<and> queue_ok (snd (handleNativeExplain env tk r g))"
    and "h_Path r = ''/api/v1/query'' \<Longrightarrow> I (gw_engine (snd (handleLokiQuery env tk r g))) \<and> queue_ok (snd (handleLokiQuery env tk r g))"
    and "h_Path r = ''/api/v1/query_range'' \<Longrightarrow> I (gw_engine (snd (handleLokiQueryRange env tk r g))) \<and> queue_ok (snd (handleLokiQueryRange env tk r g))"
proof -
  note kept = query_kept [OF assms(2)] tail_kept [OF assms(2)] explain_kept [OF assms(2)]
  show "h_Path r = ''/api/native/v1/search'' \<Longrightarrow> I (gw_engine (snd (handleNativeSearch env tk r g))) \<and> queue_ok (snd (handleNativeSearch env tk r g))"
    using assms(2-4) kept(1) [of _ "tk_engine tk 0"] by (auto simp: handleNativeSearch_def assms(1) asks_def split: sum.split prod.split) (metis snd_conv)
  show "h_Path r = ''/api/native/v1/tail'' \<Longrightarrow> I (gw_engine (snd (handleNativeTail env tk r g))) \<and> queue_ok (snd (handleNativeTail env tk r g))"
    using assms(2-4) kept(2) [of "tk_engine tk 0"] by (auto simp: handleNativeTail_def assms(1) asks_def Let_def split: sum.split prod.split) (metis snd_conv)+
  show "I (gw_engine (snd (handleNativeExplain env tk r g))) \<and> queue_ok (snd (handleNativeExplain env tk r g))"
    using assms(2,3) kept(3) by (auto simp: handleNativeExplain_def assms(1) split: sum.split prod.split) (metis snd_conv)
  show "h_Path r = ''/api/v1/query'' \<Longrightarrow> I (gw_engine (snd (handleLokiQuery env tk r g))) \<and> queue_ok (snd (handleLokiQuery env tk r g))"
    using assms(2-4) kept(1) [of _ "tk_engine tk 0"] by (auto simp: handleLokiQuery_def assms(1) asks_def split: sum.split prod.split) (metis snd_conv)
  show "h_Path r = ''/api/v1/query_range'' \<Longrightarrow> I (gw_engine (snd (handleLokiQueryRange env tk r g))) \<and> queue_ok (snd (handleLokiQueryRange env tk r g))"
    using assms(2-4) kept(1) [of _ "tk_engine tk 0"] by (auto simp: handleLokiQueryRange_def assms(1) asks_def split: sum.split prod.split) (metis snd_conv)
qed

lemma Handler_kept:
  assumes "ge_engine env = E" and "ge_B env = MemoryBroker" and "decodes_events env" and "\<And>i. io_fine (tk_io tk i)"
    and "I (gw_engine g)" and "queue_ok g" and "\<And>q. asks env tk r q \<Longrightarrow> asked q"
  shows "I (gw_engine (snd (Gateway_Handler env tk r g))) \<and> queue_ok (snd (Gateway_Handler env tk r g))"
proof -
  define S where "S x \<longleftrightarrow> I (gw_engine (snd x)) \<and> queue_ok (snd x)" for x :: "gateway_response \<times> ('o, memory_broker) gateway"
  note app = appendEvents_kept [OF assms(1,2,4-6)]
  have ingest: "S (handleNativeIngest env tk r g)" "S (handleOTLPLogs env tk r g)" "S (handleLokiPush env tk r g)"
    using assms(3,5,6) unfolding S_def handleNativeIngest_def handleOTLPLogs_def handleLokiPush_def decodes_events_def
    by (auto dest!: otlp_events_wf loki_events_wf dest: app split: sum.splits prod.splits)
  note queries = queries_kept [OF assms(1,5,6), where tk = tk and r = r, OF assms(7), folded S_def]
  have plain: "S (res, g)" for res using assms(5,6) by (simp add: S_def)
  have "S (Gateway_Handler env tk r g)"
    unfolding Gateway_Handler_def by (auto simp: ingest queries plain split: option.split)
  then show ?thesis by (simp add: S_def)
qed

end

section \<open>Reachable gateways\<close>

text \<open>The gateways that have served requests whose queries are \<open>asked\<close> ones.\<close>

inductive greach ::
  "('re, 'o, memory_broker, 'v) gateway_env \<Rightarrow> (query_request \<Rightarrow> bool) \<Rightarrow> ('o, memory_broker) gateway \<Rightarrow> bool" for env asked where
  direct: "ereach (ge_engine env) asked eng \<Longrightarrow> greach env asked (Gateway_NewServer eng)"
| queued: "ereach (ge_engine env) asked eng \<Longrightarrow> greach env asked (NewQueuedServer eng (NewMemoryBroker n))"
| request: "greach env asked g \<Longrightarrow> (\<And>q. asks env tk r q \<Longrightarrow> asked q) \<Longrightarrow> greach env asked (snd (Gateway_Handler env tk r g))"

text \<open>The events a reply to a query shows, and the tenant the request names.\<close>

definition shown_events :: "gateway_response \<Rightarrow> event list" where
  "shown_events res = (case h_Payload res of Some (GwResult result) \<Rightarrow> r_Events result | Some (GwStreams events _) \<Rightarrow> events | _ \<Rightarrow> [])"

definition asked_tenant :: "('re, 'o, 'b, 'v) gateway_env \<Rightarrow> http_request \<Rightarrow> string" where
  "asked_tenant env r =
     (if h_Path r = ''/api/native/v1/search'' then (case ge_decodeQuery env (h_Body r) of Inr q \<Rightarrow> q_TenantID q | Inl _ \<Rightarrow> [])
      else if h_Path r = ''/api/native/v1/tail'' then (case ge_decodeTail env (h_Body r) of Inr q \<Rightarrow> tail_TenantID q | Inl _ \<Rightarrow> [])
      else loki_tenant r)"

lemma shown_simps [simp]:
  "shown_events (WriteHeader c) = []" "shown_events NotFound = []" "shown_events (WriteJSON c (GwError e)) = []"
  "shown_events (WriteJSON c (GwIngested n es)) = []" "shown_events (WriteJSON c (GwResult q)) = r_Events q"
  "shown_events (WriteJSON c (GwPlan p)) = []" "shown_events (WriteJSON c (GwTenants a b s d)) = []"
  "shown_events (WriteJSON c (GwQueue on st)) = []" "shown_events (WriteJSON c GwReplayOff) = []"
  "shown_events (WriteJSON c (GwReplayed topic lim ms)) = []" "shown_events (WriteJSON c (GwCache cs)) = []"
  "shown_events (WriteJSON c (GwOTLP n)) = []" "shown_events (loki_streams q) = r_Events q"
  "shown_events (gw_writeQueryError e) = []"
  by (simp_all add: shown_events_def loki_streams_def gw_writeQueryError_def)

lemma shown_base [simp]: "shown_events (lift_reply GwBase res) = []"
  by (cases "h_Payload res") (simp_all add: shown_events_def lift_reply_def)

lemma loki_request_tenant: "parseLokiQueryRequest now r rng = Inr q \<Longrightarrow> q_TenantID q = loki_tenant r"
  by (auto simp: parseLokiQueryRequest_def Let_def split: sum.splits prod.splits if_splits)

text \<open>Keeping tenants apart is such an invariant, whatever the log's calls return.\<close>

interpretation isolation: engine_invariant E "\<lambda>eng. separates asked (engine_cacheKey E) \<longrightarrow> isolated asked E eng" "\<lambda>_. True" asked
  for E :: "('re, 'o) engine_env" and asked
proof unfold_locales
  fix eng :: "'o engine" and io now e q
  assume i: "separates asked (engine_cacheKey E) \<longrightarrow> isolated asked E eng"
  show "separates asked (engine_cacheKey E) \<longrightarrow> isolated asked E (snd (Engine_Append E io now eng e))" if "wf_event e"
    using i Engine_Append_isolated [OF _ that] by blast
  show "separates asked (engine_cacheKey E) \<longrightarrow> isolated asked E (snd (Engine_Query E now eng q))" if "asked q"
    using i Engine_Query_isolated(1) [where asked = asked, OF _ _ that prod.collapse [symmetric]] by blast
  show "separates asked (engine_cacheKey E) \<longrightarrow> isolated asked E (snd (Engine_Explain E eng q))"
    using i Engine_Explain_isolated by blast
qed

text \<open>What a handler shows belongs to the tenant that asked.\<close>

lemma ingest_shows_nothing:
  "shown_events (fst (handleNativeIngest env tk r g)) = []" "shown_events (fst (handleOTLPLogs env tk r g)) = []"
  "shown_events (fst (handleLokiPush env tk r g)) = []" "shown_events (fst (handleNativeExplain env tk r g)) = []"
  by (auto simp: handleNativeIngest_def handleOTLPLogs_def handleLokiPush_def handleNativeExplain_def Let_def split: sum.split prod.split)

lemma queries_show:
  assumes i: "isolated asked (ge_engine env) (gw_engine g)" and k: "separates asked (engine_cacheKey (ge_engine env))"
    and a: "\<forall>q. asks env tk r q \<longrightarrow> asked q"
  shows "h_Path r = ''/api/native/v1/search'' \<Longrightarrow> e \<in> set (shown_events (fst (handleNativeSearch env tk r g))) \<Longrightarrow>
      \<exists>q. ge_decodeQuery env (h_Body r) = Inr q \<and> TenantID e = q_TenantID q"
    and "h_Path r = ''/api/native/v1/tail'' \<Longrightarrow> e \<in> set (shown_events (fst (handleNativeTail env tk r g))) \<Longrightarrow>
      \<exists>q. ge_decodeTail env (h_Body r) = Inr q \<and> TenantID e = tail_TenantID q"
    and "h_Path r = ''/api/v1/query'' \<Longrightarrow> e \<in> set (shown_events (fst (handleLokiQuery env tk r g))) \<Longrightarrow> TenantID e = loki_tenant r"
    and "h_Path r = ''/api/v1/query_range'' \<Longrightarrow> e \<in> set (shown_events (fst (handleLokiQueryRange env tk r g))) \<Longrightarrow> TenantID e = loki_tenant r"
proof -
  have q: "TenantID e = q_TenantID q" if "asks env tk r q" "Engine_Query (ge_engine env) now (gw_engine g) q = (Inr res, eng)" "e \<in> set (r_Events res)" for now q res eng
    using Engine_Query_isolated(2) [OF i k a [rule_format, OF that(1)] that(2)] that(3) by (simp add: of_tenant_def list_all_iff)
  have t: "TenantID e = tail_TenantID t" if "asks env tk r (tail_query now t)" "Engine_Tail (ge_engine env) now (gw_engine g) t = (Inr res, eng)" "e \<in> set (r_Events res)" for now t res eng
    using Engine_Tail_isolated(2) [OF i k a [rule_format, OF that(1)] that(2)] that(3) by (simp add: of_tenant_def list_all_iff)
  show "\<exists>q. ge_decodeQuery env (h_Body r) = Inr q \<and> TenantID e = q_TenantID q"
    if "h_Path r = ''/api/native/v1/search''" "e \<in> set (shown_events (fst (handleNativeSearch env tk r g)))"
    using that q [where now = "tk_engine tk 0"] by (fastforce simp: handleNativeSearch_def asks_def split: if_splits sum.splits prod.splits)
  show "\<exists>q. ge_decodeTail env (h_Body r) = Inr q \<and> TenantID e = tail_TenantID q"
    if "h_Path r = ''/api/native/v1/tail''" "e \<in> set (shown_events (fst (handleNativeTail env tk r g)))"
    using that t [where now = "tk_engine tk 0"] by (fastforce simp: handleNativeTail_def asks_def Let_def split: if_splits sum.splits prod.splits)
  show "TenantID e = loki_tenant r"
    if "h_Path r = ''/api/v1/query''" "e \<in> set (shown_events (fst (handleLokiQuery env tk r g)))"
    using that q [where now = "tk_engine tk 0"] loki_request_tenant by (fastforce simp: handleLokiQuery_def asks_def split: if_splits sum.splits prod.splits)
  show "TenantID e = loki_tenant r"
    if "h_Path r = ''/api/v1/query_range''" "e \<in> set (shown_events (fst (handleLokiQueryRange env tk r g)))"
    using that q [where now = "tk_engine tk 0"] loki_request_tenant by (fastforce simp: handleLokiQueryRange_def asks_def split: if_splits sum.splits prod.splits)
qed

lemma Handler_shows:
  assumes "isolated asked (ge_engine env) (gw_engine g)" and "separates asked (engine_cacheKey (ge_engine env))"
    and "\<forall>q. asks env tk r q \<longrightarrow> asked q" and "e \<in> set (shown_events (fst (Gateway_Handler env tk r g)))"
  shows "TenantID e = asked_tenant env r"
proof (cases "RegisterBaseRoutes Gateway_Descriptor (tk_handler tk 0) r")
  case (Some base)
  then show ?thesis using assms(4) by (simp add: Gateway_Handler_def)
next
  case None
  note shown = queries_show [OF assms(1-3), of e]
  have plain: "shown_events (handleListTenants env r g) = []" "shown_events (gw_handleCacheStats r g) = []" "shown_events (handleQueueStats env r g) = []"
      "shown_events (handleQueueReplay env r g) = []"
    by (auto simp: handleListTenants_def gw_handleCacheStats_def handleQueueStats_def handleQueueReplay_def split: sum.splits option.splits)
  have "e \<in> set (shown_events (fst (Gateway_Handler env tk r g))) \<Longrightarrow> TenantID e = asked_tenant env r"
    unfolding Gateway_Handler_def None option.case
    by (auto simp: plain ingest_shows_nothing asked_tenant_def dest: shown split: if_splits)
  then show ?thesis using assms(4) .
qed

text \<open>
  C4. Over the whole HTTP interface a tenant sees only its own events, as long as the cache keys of the queries asked are
  good: whatever requests a gateway over the in-memory queue or without a queue has served before, every event in the
  reply to a native search, a tail or a Loki query belongs to the
  tenant the request names, which for Loki is the header \<open>X-Tenant-ID\<close> before the parameter \<open>tenant\<close>. The
  queries of all these requests satisfy a predicate \<open>asked\<close>, and good keys mean: \<open>json.Marshal\<close> encodes every
  asked query (its times lie in the years 0 to 9999), the tenant can be decoded from the encoding (it is valid UTF-8), and
  no two encodings of asked queries collide under SHA-256.
\<close>

theorem gateway_isolation:
  assumes "greach env asked g" and "ge_B env = MemoryBroker" and "decodes_events env" and "decodes_maps (ee_wal (ge_engine env))"
    and "\<And>q. asked q \<Longrightarrow> \<exists>payload. ee_MarshalRequest (ge_engine env) q = Inr payload \<and> decode payload = q_TenantID q"
    and "inj_on (ee_sha (ge_engine env)) (encodings (ge_engine env) asked)"
    and "\<And>q. asks env tk r q \<Longrightarrow> asked q"
  shows "list_all (\<lambda>e. TenantID e = asked_tenant env r) (shown_events (fst (Gateway_Handler env tk r g)))"
proof -
  have sep: "separates asked (engine_cacheKey (ge_engine env))" by (rule cacheKey_separates [OF assms(5,6)])
  have "(separates asked (engine_cacheKey (ge_engine env)) \<longrightarrow> isolated asked (ge_engine env) (gw_engine g)) \<and> queue_ok g"
    using assms(1)
  proof induction
    case (direct eng)
    then show ?case using ereach_isolated [OF _ sep assms(4)] by (simp add: queue_ok_def Gateway_NewServer_def)
  next
    case (queued eng n)
    then show ?case using ereach_isolated [OF _ sep assms(4)] stores_events_new by (simp add: queue_ok_def NewQueuedServer_def)
  next
    case (request g tk r)
    show ?case by (rule isolation.Handler_kept [OF refl assms(2,3)]) (use request in auto)
  qed
  then have "isolated asked (ge_engine env) (gw_engine g)" using sep by blast
  then show ?thesis using Handler_shows [OF _ sep, of g tk r] assms(7) by (auto simp: list_all_iff)
qed

definition client_gateway :: "(string, fsys, memory_broker, unit) gateway_env" where
  "client_gateway = \<lparr>ge_engine = client_env, ge_B = MemoryBroker, ge_Replay = Some Memory_Replay, ge_errstr = (\<lambda>_. ''error''),
     ge_Sprint = (\<lambda>_. []), ge_uni = id, ge_quote = id, ge_decodeIngest = (\<lambda>_. Inr [client_event]), ge_decodeQuery = (\<lambda>_. Inr client_query),
     ge_decodeTail = (\<lambda>_. Inl (IOError ''eof'')), ge_decodeReplay = (\<lambda>_. Inl (IOError ''eof'')), ge_decodeOTLP = (\<lambda>_. Inr []),
     ge_decodeLoki = (\<lambda>_. Inr [])\<rparr>"

definition client_ticks :: ticks where
  "client_ticks = \<lparr>tk_handler = (\<lambda>_. 9), tk_stamp = (\<lambda>_. 9), tk_publish = (\<lambda>_. 9), tk_consume = (\<lambda>_. 9), tk_engine = (\<lambda>_ _. 9), tk_io = (\<lambda>_. io_ok)\<rparr>"

definition post :: "string \<Rightarrow> http_request" where
  "post path = \<lparr>h_Method = ''POST'', h_Path = path, h_Query = [], h_Header = [], h_Body = ''j''\<rparr>"

lemma client_search:
  "\<exists>res. fst (Gateway_Handler client_gateway client_ticks (post ''/api/native/v1/search'') (Gateway_NewServer client_engine)) = WriteJSON 200 (GwResult res)"
proof -
  obtain res where "fst (Engine_Query client_env (\<lambda>_. 9) client_engine client_query) = Inr res" using client_query_ok by blast
  then show ?thesis
    by (cases "Engine_Query client_env (\<lambda>_. 9) client_engine client_query")
      (simp add: Gateway_Handler_def RegisterBaseRoutes_def post_def handleNativeSearch_def client_gateway_def client_ticks_def Gateway_NewServer_def, blast)
qed

theorem gateway_isolation_witness:
  "\<exists>res. fst (Gateway_Handler client_gateway client_ticks (post ''/api/native/v1/search'') (Gateway_NewServer client_engine)) = WriteJSON 200 (GwResult res) \<and>
     list_all (\<lambda>e. TenantID e = ''t'') (r_Events res)"
proof -
  obtain res where r: "fst (Gateway_Handler client_gateway client_ticks (post ''/api/native/v1/search'') (Gateway_NewServer client_engine)) = WriteJSON 200 (GwResult res)"
    using client_search by blast
  have g: "greach client_gateway (\<lambda>_. True) (Gateway_NewServer client_engine)"
    using client_reached by (intro greach.direct) (simp add: client_gateway_def)
  have "asked_tenant client_gateway (post ''/api/native/v1/search'') = ''t''"
    by (simp add: asked_tenant_def post_def client_gateway_def client_query_def)
  then show ?thesis
    using gateway_isolation [OF g, of id client_ticks "post ''/api/native/v1/search''"] client_wf(1,3) client_keys r
    by (auto simp: client_gateway_def decodes_events_def)
qed

section \<open>The queue between ingest and engine\<close>

definition queued_events :: "ticks \<Rightarrow> nat \<Rightarrow> event list \<Rightarrow> event list" where
  "queued_events tk i events = map (\<lambda>(j, e). queued (tk_stamp tk j) e) (List.enumerate i events)"

text \<open>The work a published event stands for.\<close>

definition new_work :: "event \<Rightarrow> string \<times> event \<times> int" where
  "new_work e = (StreamKey e, Event_Clone e, 0)"

lemma gateway_consumer_event: "gateway_consumer = event_consumer ''gateway-local-writers'' 3 100"
  by (simp add: gateway_consumer_def event_consumer_def NewConsumer_def Let_def)

lemma gateway_group: "co_Group gateway_consumer = ''gateway-local-writers''"
  by (simp add: gateway_consumer_def NewConsumer_def Let_def)

text \<open>Publishing adds the message to what a group has to consume.\<close>

lemma backlog_publish:
  assumes "wf_broker b" and "Memory_Publish now b req = (Inr m, b')" and "pr_Topic req = TopicNormalizedEvents"
  shows "broker_backlog b' g = broker_backlog b g + {#m#}" and "dead_letters b' = dead_letters b" and "wf_broker b'"
proof -
  obtain p where s: "wf_broker b'" "br_partitions b' = br_partitions b" "committedLocked b' = committedLocked b" "p < br_partitions b"
      "broker_logs b' = (broker_logs b)(TopicNormalizedEvents := (broker_logs b TopicNormalizedEvents)(p := broker_logs b TopicNormalizedEvents p @ [m]))"
    using Memory_Publish_spec [OF assms(1,2)] assms(3) by auto
  let ?c = "committedLocked b g TopicNormalizedEvents" and ?L = "broker_logs b TopicNormalizedEvents"
  have "?c p \<le> length (?L p)" using assms(1) by (simp add: wf_broker_def)
  then have "mset (drop (?c q) (broker_logs b' TopicNormalizedEvents q)) = mset (drop (?c q) (?L q)) + (if q = p then {#m#} else {#})" for q
    by (simp add: s(5))
  then have "(\<Sum>q < br_partitions b. mset (drop (?c q) (broker_logs b' TopicNormalizedEvents q))) =
      (\<Sum>q < br_partitions b. mset (drop (?c q) (?L q))) + {#m#}"
    using s(4) by (simp only: sum.distrib) (simp add: sum.delta)
  then show "broker_backlog b' g = broker_backlog b g + {#m#}"
    by (simp add: broker_backlog_def s(2,3) topics_differ(1) [symmetric]) (simp add: s(5) topics_differ(1) [symmetric])
  show "dead_letters b' = dead_letters b" "wf_broker b'" by (simp_all add: dead_letters_def s)
qed

lemma publish_events_spec:
  assumes "wf_broker b"
  shows "\<exists>b'. publish_events MemoryBroker tk i events acc b = (Inr (acc @ queued_events tk i events), b') \<and> wf_broker b' \<and>
     image_mset core (broker_backlog b' g) = image_mset core (broker_backlog b g) + image_mset new_work (mset (queued_events tk i events)) \<and>
     dead_letters b' = dead_letters b"
  using assms
proof (induction events arbitrary: i acc b)
  case Nil
  then show ?case by (simp add: queued_events_def)
next
  case (Cons e events)
  let ?e = "queued (tk_stamp tk i) e"
  let ?req = "\<lparr>pr_Topic = TopicNormalizedEvents, pr_Key = StreamKey ?e, pr_Event = ?e, pr_Attempts = 0, pr_LastError = []\<rparr>"
  obtain m b1 where p: "Memory_Publish (tk_publish tk i) b ?req = (Inr m, b1)" by (simp add: Memory_Publish_def Let_def)
  have s: "broker_backlog b1 g = broker_backlog b g + {#m#}" "dead_letters b1 = dead_letters b" "wf_broker b1"
    using backlog_publish [OF Cons.prems p] by simp_all
  have m: "core m = new_work ?e" using Memory_Publish_spec [OF Cons.prems p] by (simp add: new_work_def)
  show ?case using Cons.IH [OF s(3), of "i + 1" "acc @ [?e]"] p s(1,2) m
    by (auto simp: memory_broker_ops queued_events_def Let_def)
qed

lemma enqueue_spec:
  assumes "wf_broker b" and "ge_B env = MemoryBroker" and "enqueueEvents env tk events b eng = (res, b', eng')"
    and "G = ''gateway-local-writers''" and "H = write_handler env tk"
  shows "wf_broker b' \<and> (\<exists>batch left.
     image_mset core (broker_backlog b G) + image_mset new_work (mset (queued_events tk 0 events)) = image_mset core (mset batch) + left \<and>
     image_mset core (broker_backlog b' G) = left +
       image_mset bumped (mset (filter (\<lambda>m. \<not> last_attempt gateway_consumer m) (failures H (eng, 0) batch))) \<and>
     image_mset core (dead_letters b') = image_mset core (dead_letters b) +
       image_mset bumped (mset (filter (last_attempt gateway_consumer) (failures H (eng, 0) batch))) \<and>
     (batch = [] \<longrightarrow> events = []) \<and> eng' = fst (run_handler H (eng, 0) batch) \<and>
     (if filter (last_attempt gateway_consumer) (failures H (eng, 0) batch) = [] then res = Inr (queued_events tk 0 events)
      else \<exists>err. res = Inl err))"
proof -
  note grp = gateway_group [folded assms(4)]
  obtain b1 where p: "publish_events MemoryBroker tk 0 events [] b = (Inr (queued_events tk 0 events), b1)" "wf_broker b1"
      "image_mset core (broker_backlog b1 G) = image_mset core (broker_backlog b G) + image_mset new_work (mset (queued_events tk 0 events))"
      "dead_letters b1 = dead_letters b"
    using publish_events_spec [OF assms(1), of tk 0 events "[]" G] by auto
  have t: "set (co_Topics gateway_consumer) = {TopicNormalizedEvents, TopicRetryEvents}" "distinct (co_Topics gateway_consumer)"
    by (simp_all add: gateway_consumer_event event_consumer_topics)
  have ne: "\<forall>t \<in> set (co_Topics gateway_consumer). t \<noteq> []" unfolding t by simp
  obtain rep b2 h where c: "ConsumeOnce MemoryBroker H (ge_errstr env) (tk_consume tk) gateway_consumer (int (length events)) b1 (eng, 0) = (None, rep, b2, h)"
    using memory_consumes [OF p(2) ne, of H "ge_errstr env" "tk_consume tk" "int (length events)" "(eng, 0)"] by blast
  have size: "0 < (if int (length events) \<le> 0 then co_BatchSize gateway_consumer else int (length events))"
    unfolding gateway_consumer_event by (rule event_consumer_size)
  obtain batch where s: "wf_broker b2" "mset batch \<subseteq># broker_backlog b1 G" "batch = [] \<longrightarrow> broker_backlog b1 G = {#}"
      "DeadLettered rep = length (filter (last_attempt gateway_consumer) (failures H (eng, 0) batch))" "h = run_handler H (eng, 0) batch"
      "image_mset core (broker_backlog b2 G) = image_mset core (broker_backlog b1 G - mset batch) +
         image_mset bumped (mset (filter (\<lambda>m. \<not> last_attempt gateway_consumer m) (failures H (eng, 0) batch)))"
      "image_mset core (dead_letters b2) = image_mset core (dead_letters b1) +
         image_mset bumped (mset (filter (last_attempt gateway_consumer) (failures H (eng, 0) batch)))"
    using memory_queue.consume_spec [OF p(2) t(2) _ _ size c] unfolding t(1) broker_backlog_eq dead_letters_eq grp by auto
  have out: "b' = b2" "eng' = fst h" "res = (if 0 < DeadLettered rep
      then Inl (Errorf ''%d queued events moved to dead-letter topic'' [show_nat (DeadLettered rep)]) else Inr (queued_events tk 0 events))"
    using assms(2,3,5) p(1) c by (auto simp: enqueueEvents_def split: prod.splits if_splits)
  have "image_mset core (broker_backlog b1 G) = image_mset core (mset batch) + image_mset core (broker_backlog b1 G - mset batch)"
    using s(2) by (metis image_mset_union subset_mset.add_diff_inverse)
  moreover have "events = []" if "batch = []"
  proof -
    have "image_mset core (broker_backlog b G) + image_mset new_work (mset (queued_events tk 0 events)) = {#}"
      using s(3) that p(3) by simp
    then show ?thesis by (simp add: queued_events_def) (metis length_0_conv length_enumerate)
  qed
  ultimately show ?thesis using s p(3,4) out
    by (intro conjI exI [of _ batch] exI [of _ "image_mset core (broker_backlog b1 G - mset batch)"]) auto
qed

text \<open>
  C5. The gateway's queue loses nothing: the work waiting before a request and the events the request brings are, after
  it, exactly the messages the engine was given and accepted, those that failed and wait for another attempt, the new dead letters, and
  what was not polled yet. The request is answered with an error if and only if a message became a dead letter,
  otherwise with the events as they were queued; and the engine has seen every polled message once, in order.
\<close>

theorem queue_conserves:
  assumes "wf_broker b" and "ge_B env = MemoryBroker" and "enqueueEvents env tk events b eng = (res, b', eng')"
    and "G = ''gateway-local-writers''" and "H = write_handler env tk"
  shows "wf_broker b' \<and> (\<exists>batch left.
     image_mset core (broker_backlog b G) + image_mset new_work (mset (queued_events tk 0 events)) = image_mset core (mset batch) + left \<and>
     image_mset core (broker_backlog b' G) = left +
       image_mset bumped (mset (filter (\<lambda>m. \<not> last_attempt gateway_consumer m) (failures H (eng, 0) batch))) \<and>
     image_mset core (dead_letters b') = image_mset core (dead_letters b) +
       image_mset bumped (mset (filter (last_attempt gateway_consumer) (failures H (eng, 0) batch))) \<and>
     (batch = [] \<longrightarrow> events = []) \<and> eng' = fst (run_handler H (eng, 0) batch) \<and>
     (if filter (last_attempt gateway_consumer) (failures H (eng, 0) batch) = [] then res = Inr (queued_events tk 0 events)
      else \<exists>err. res = Inl err))"
  by (rule enqueue_spec [OF assms])

theorem queue_conserves_witness:
  "\<exists>res b' eng'. enqueueEvents client_gateway client_ticks [client_event] (NewMemoryBroker 1) (started []) = (res, b', eng') \<and> wf_broker b' \<and>
     ((\<exists>err. res = Inl err) \<or> res = Inr (queued_events client_ticks 0 [client_event]))"
proof -
  obtain res b' eng' where e: "enqueueEvents client_gateway client_ticks [client_event] (NewMemoryBroker 1) (started []) = (res, b', eng')"
    by (metis prod_cases3)
  have b: "wf_broker (NewMemoryBroker 1)" by (rule wf_NewMemoryBroker) simp
  have m: "ge_B client_gateway = MemoryBroker" by (simp add: client_gateway_def)
  have "(\<exists>err. res = Inl err) \<or> res = Inr (queued_events client_ticks 0 [client_event])"
    using queue_conserves [OF b m e refl refl] by (auto split: if_splits)
  then show ?thesis using queue_conserves [OF b m e refl refl] e by blast
qed

text \<open>
  A consequence for clients: with a queue, an event the engine refuses is answered as accepted. Its first failure only
  makes it wait in the retry topic, and the error reaches whichever request polls it for the last time.
\<close>

lemma refused_event_accepted:
  assumes "wf_broker b" and "ge_B env = MemoryBroker" and "broker_backlog b ''gateway-local-writers'' = {#}"
    and "enqueueEvents env tk [event] b eng = (res, b', eng')"
  shows "res = Inr [queued (tk_stamp tk 0) event]"
proof -
  let ?H = "write_handler env tk"
  obtain batch left where s: "image_mset core (broker_backlog b ''gateway-local-writers'') + image_mset new_work (mset (queued_events tk 0 [event])) = image_mset core (mset batch) + left"
      "if filter (last_attempt gateway_consumer) (failures ?H (eng, 0) batch) = [] then res = Inr (queued_events tk 0 [event]) else \<exists>err. res = Inl err"
    using enqueue_spec [OF assms(1,2,4) refl refl] by blast
  have "\<not> last_attempt gateway_consumer m" if "m \<in> set batch" for m
  proof -
    have "core m \<in># image_mset new_work (mset (queued_events tk 0 [event]))" using that s(1) assms(3) by auto
    then have "msg_Attempts m = 0" by (auto simp: core_def new_work_def)
    then show ?thesis by (simp add: last_attempt_def gateway_consumer_def NewConsumer_def Let_def)
  qed
  moreover have "set (failures ?H h ms) \<subseteq> set ms" for h ms
    by (induction ms arbitrary: h) (auto split: prod.splits option.splits)
  ultimately have "filter (last_attempt gateway_consumer) (failures ?H (eng, 0) batch) = []"
    by (meson filter_False subset_iff)
  then show ?thesis using s(2) by (simp add: queued_events_def)
qed

end
