(* ===== verification/Kafka.thy ===== *)
theory Kafka
  imports Queue Go_Parse
begin

text \<open>
  The Kafka broker of \<open>internal/engine/queue/kafka.go\<close>: the same interface as the in-memory broker over the client of a Kafka
  cluster. The client is a parameter: writing a message, fetching and committing through the reader of a topic, and what a
  reader of one partition finds from its first offset until it fails. What \<open>encoding/json\<close> does with an event and a message is modelled
  on JSON values, from the tags of the two structs; the text of a JSON value, its printing and reading, is a parameter. A context
  that is already done when \<open>Publish\<close> is called is a parameter too.
\<close>

section \<open>Data\<close>

record kafka_config =
  kc_Brokers :: "string list"
  kc_GroupID :: string
  kc_Partitions :: int
  kc_AutoCreate :: bool
  kc_WriteTimeout :: duration

record kafka_message =
  km_Topic :: string
  km_Partition :: nat
  km_Offset :: nat
  km_Key :: string
  km_Value :: string

record 'k kafka_client =
  WriteMessages :: "'k \<Rightarrow> kafka_message \<Rightarrow> goerror option \<times> 'k"
  FetchMessage :: "'k \<Rightarrow> string \<times> string \<Rightarrow> kafka_message result \<times> 'k"
  CommitMessages :: "'k \<Rightarrow> string \<times> string \<Rightarrow> kafka_message \<Rightarrow> goerror option \<times> 'k"
  PartitionMessages :: "'k \<Rightarrow> string \<Rightarrow> nat \<Rightarrow> kafka_message list"

datatype json = J_Null | J_Bool bool | J_Num string | J_Str string | J_Arr "json list" | J_Obj "(string \<times> json) list"

record json_text =
  jt_print :: "json \<Rightarrow> string"
  jt_parse :: "string \<Rightarrow> json result"

text \<open>The readers are kept by topic, with the group they were made for.\<close>

record 'k kafka_broker =
  kb_cfg :: kafka_config
  kb_readers :: "(string, string) gomap"
  kb_pending :: "(string, (nat, (nat, kafka_message) gomap) gomap) gomap"
  kb_commits :: "(string, (string, (nat, nat) gomap) gomap) gomap"
  kb_client :: 'k

definition zero_message :: message where
  "zero_message = \<lparr>msg_Topic = [], msg_Partition = 0, msg_Offset = 0, msg_Key = [], msg_Event = zero_event, msg_Attempts = 0,
     msg_LastError = [], msg_CreatedAt = 0\<rparr>"

definition zero_kafka_message :: kafka_message where
  "zero_kafka_message = \<lparr>km_Topic = [], km_Partition = 0, km_Offset = 0, km_Key = [], km_Value = []\<rparr>"

section \<open>JSON\<close>

text \<open>
  \<open>json.Marshal\<close> of an event: the fields under their tags in the order of the struct, the entries of a map by their keys. A time
  outside the years 0 to 9999 is an error.
\<close>

definition json_of_map :: "strmap \<Rightarrow> json" where
  "json_of_map m = J_Obj (map (\<lambda>(k, v). (k, J_Str v)) (sort_key fst m))"

definition event_json :: "event \<Rightarrow> json result" where
  "event_json e =
     (if four_digit_year (Timestamp e) then Inr (J_Obj
        [(''timestamp'', J_Str (fmt_RFC3339Nano (Timestamp e))), (''tenant_id'', J_Str (TenantID e)), (''stream_labels'', json_of_map (StreamLabels e)),
         (''body'', J_Str (Body e)), (''severity'', J_Str (Severity e)), (''resource_attrs'', json_of_map (ResourceAttrs e)),
         (''log_attrs'', json_of_map (LogAttrs e)), (''parsed_fields'', json_of_map (ParsedFields e)), (''trace_id'', J_Str (TraceID e)),
         (''span_id'', J_Str (SpanID e))])
      else Inl (Errorf ''Time.MarshalJSON: year outside of range [0,9999]'' []))"

definition MarshalEvent :: "json_text \<Rightarrow> event \<Rightarrow> string result" where
  "MarshalEvent J e = (case event_json e of Inl err \<Rightarrow> Inl err | Inr v \<Rightarrow> Inr (jt_print J v))"

text \<open>
  \<open>json.Unmarshal\<close> fills a struct in place. A value of the wrong type is skipped and the first such error is returned at
  the end; the error of a time ends the decoding at once. \<open>null\<close> leaves a field as it is and empties a map.
\<close>

datatype 'a decoding = Filled "goerror option" 'a | Stopped goerror 'a

definition type_error :: "'a \<Rightarrow> 'a decoding" where
  "type_error x = Filled (Some (IOError ''json: cannot unmarshal'')) x"

fun decode_fields :: "(string \<Rightarrow> json \<Rightarrow> 'a \<Rightarrow> 'a decoding) \<Rightarrow> (string \<times> json) list \<Rightarrow> goerror option \<Rightarrow> 'a \<Rightarrow> 'a decoding" where
  "decode_fields field [] saved x = Filled saved x"
| "decode_fields field ((k, v) # fs) saved x = (case field k v x of
     Filled err x \<Rightarrow> decode_fields field fs (case saved of None \<Rightarrow> err | Some _ \<Rightarrow> saved) x
   | Stopped err x \<Rightarrow> Stopped err x)"

definition set_string :: "(string \<Rightarrow> 'a \<Rightarrow> 'a) \<Rightarrow> json \<Rightarrow> 'a \<Rightarrow> 'a decoding" where
  "set_string put v x = (case v of J_Str s \<Rightarrow> Filled None (put s x) | J_Null \<Rightarrow> Filled None x | _ \<Rightarrow> type_error x)"

definition set_int :: "(int \<Rightarrow> 'a \<Rightarrow> 'a) \<Rightarrow> json \<Rightarrow> 'a \<Rightarrow> 'a decoding" where
  "set_int put v x = (case v of J_Num s \<Rightarrow> (case Atoi s of Some n \<Rightarrow> Filled None (put n x) | None \<Rightarrow> type_error x)
     | J_Null \<Rightarrow> Filled None x | _ \<Rightarrow> type_error x)"

definition set_time :: "(time \<Rightarrow> 'a \<Rightarrow> 'a) \<Rightarrow> json \<Rightarrow> 'a \<Rightarrow> 'a decoding" where
  "set_time put v x = (case v of
     J_Str s \<Rightarrow> (case Parse_RFC3339 s of Some t \<Rightarrow> Filled None (put t x) | None \<Rightarrow> Stopped (IOError ''parsing time'') (put 0 x))
   | J_Null \<Rightarrow> Filled None x | _ \<Rightarrow> Stopped (IOError ''Time.UnmarshalJSON: input is not a JSON string'') x)"

definition set_strmap :: "((strmap \<Rightarrow> strmap) \<Rightarrow> 'a \<Rightarrow> 'a) \<Rightarrow> json \<Rightarrow> 'a \<Rightarrow> 'a decoding" where
  "set_strmap upd v x = (case v of
     J_Obj fs \<Rightarrow> decode_fields (\<lambda>k v x. case set_string (\<lambda>s _. s) v [] of
       Filled err s \<Rightarrow> Filled err (upd (AList.update k s) x) | Stopped err s \<Rightarrow> Stopped err x) fs None x
   | J_Null \<Rightarrow> Filled None (upd (\<lambda>_. []) x) | _ \<Rightarrow> type_error x)"

text \<open>
  A name selects the field with that tag, or else the first one that differs from it in the case of letters only; the Kelvin sign
  and the long s count as the letters they fold to. Other names are ignored.
\<close>

fun fold_name :: "string \<Rightarrow> string" where
  "fold_name (c # s) =
     (if take 3 (c # s) = [CHR 0xE2, CHR 0x84, CHR 0xAA] then CHR ''k'' # fold_name (drop 2 s)
      else if take 2 (c # s) = [CHR 0xC5, CHR 0xBF] then CHR ''s'' # fold_name (drop 1 s) else ascii_lower c # fold_name s)"
| "fold_name [] = []"

definition field_named :: "(string \<times> 'b) list \<Rightarrow> string \<Rightarrow> 'b option" where
  "field_named tags k = (case map_of tags k of Some f \<Rightarrow> Some f
     | None \<Rightarrow> map_option snd (find (\<lambda>(tag, _). fold_name tag = fold_name k) tags))"

definition event_fields :: "(string \<times> (json \<Rightarrow> event \<Rightarrow> event decoding)) list" where
  "event_fields =
     [(''timestamp'', set_time (\<lambda>t e. e\<lparr>Timestamp := t\<rparr>)), (''tenant_id'', set_string (\<lambda>s e. e\<lparr>TenantID := s\<rparr>)),
      (''stream_labels'', set_strmap (\<lambda>f e. e\<lparr>StreamLabels := f (StreamLabels e)\<rparr>)), (''body'', set_string (\<lambda>s e. e\<lparr>Body := s\<rparr>)),
      (''severity'', set_string (\<lambda>s e. e\<lparr>Severity := s\<rparr>)), (''resource_attrs'', set_strmap (\<lambda>f e. e\<lparr>ResourceAttrs := f (ResourceAttrs e)\<rparr>)),
      (''log_attrs'', set_strmap (\<lambda>f e. e\<lparr>LogAttrs := f (LogAttrs e)\<rparr>)), (''parsed_fields'', set_strmap (\<lambda>f e. e\<lparr>ParsedFields := f (ParsedFields e)\<rparr>)),
      (''trace_id'', set_string (\<lambda>s e. e\<lparr>TraceID := s\<rparr>)), (''span_id'', set_string (\<lambda>s e. e\<lparr>SpanID := s\<rparr>))]"

definition set_event :: "json \<Rightarrow> message \<Rightarrow> message decoding" where
  "set_event v m = (case v of
     J_Obj fs \<Rightarrow> (case decode_fields (\<lambda>k v e. case field_named event_fields k of Some f \<Rightarrow> f v e | None \<Rightarrow> Filled None e) fs None (msg_Event m) of
       Filled err e \<Rightarrow> Filled err (m\<lparr>msg_Event := e\<rparr>) | Stopped err e \<Rightarrow> Stopped err (m\<lparr>msg_Event := e\<rparr>))
   | J_Null \<Rightarrow> Filled None m | _ \<Rightarrow> type_error m)"

text \<open>The position of the decoded message is a natural number here; \<open>Poll\<close> and \<open>Replay\<close> overwrite it whatever was read.\<close>

definition message_fields :: "(string \<times> (json \<Rightarrow> message \<Rightarrow> message decoding)) list" where
  "message_fields =
     [(''topic'', set_string (\<lambda>s m. m\<lparr>msg_Topic := s\<rparr>)), (''partition'', set_int (\<lambda>n m. m\<lparr>msg_Partition := nat n\<rparr>)),
      (''offset'', set_int (\<lambda>n m. m\<lparr>msg_Offset := nat n\<rparr>)), (''key'', set_string (\<lambda>s m. m\<lparr>msg_Key := s\<rparr>)), (''event'', set_event),
      (''attempts'', set_int (\<lambda>n m. m\<lparr>msg_Attempts := n\<rparr>)), (''last_error'', set_string (\<lambda>s m. m\<lparr>msg_LastError := s\<rparr>)),
      (''created_at'', set_time (\<lambda>t m. m\<lparr>msg_CreatedAt := t\<rparr>))]"

definition UnmarshalMessage :: "json_text \<Rightarrow> string \<Rightarrow> goerror option \<times> message" where
  "UnmarshalMessage J s = (case jt_parse J s of Inl err \<Rightarrow> (Some err, zero_message) | Inr v \<Rightarrow>
     case (case v of J_Obj fs \<Rightarrow> decode_fields (\<lambda>k v m. case field_named message_fields k of Some f \<Rightarrow> f v m | None \<Rightarrow> Filled None m) fs None zero_message
       | J_Null \<Rightarrow> Filled None zero_message | _ \<Rightarrow> type_error zero_message) of
       Filled err m \<Rightarrow> (err, m) | Stopped err m \<Rightarrow> (Some err, m))"

section \<open>Operations\<close>

definition NewKafkaBroker :: "'k \<Rightarrow> kafka_config \<Rightarrow> 'k kafka_broker" where
  "NewKafkaBroker client cfg =
     (let cfg = (if kc_Brokers cfg = [] then cfg\<lparr>kc_Brokers := [''localhost:9092'']\<rparr> else cfg);
          cfg = (if kc_GroupID cfg = [] then cfg\<lparr>kc_GroupID := ''logagg-writers''\<rparr> else cfg);
          cfg = (if kc_Partitions cfg \<le> 0 then cfg\<lparr>kc_Partitions := 1\<rparr> else cfg);
          cfg = (if kc_WriteTimeout cfg \<le> 0 then cfg\<lparr>kc_WriteTimeout := 5 * second\<rparr> else cfg)
      in \<lparr>kb_cfg = cfg, kb_readers = [], kb_pending = [], kb_commits = [], kb_client = client\<rparr>)"

definition kafka_partition :: "'k kafka_broker \<Rightarrow> string \<Rightarrow> nat" where
  "kafka_partition b key = (if key = [] \<or> kc_Partitions (kb_cfg b) = 1 then 0
     else unat (ChecksumIEEE key mod of_int (kc_Partitions (kb_cfg b))))"

definition remember :: "'k kafka_broker \<Rightarrow> string \<Rightarrow> nat \<Rightarrow> nat \<Rightarrow> kafka_message \<Rightarrow> 'k kafka_broker" where
  "remember b topic part offset msg =
     (let topics = (if map_of (kb_pending b) topic = None then AList.update topic [] (kb_pending b) else kb_pending b);
          parts = read [] topics topic;
          parts = (if map_of parts part = None then AList.update part [] parts else parts)
      in b\<lparr>kb_pending := AList.update topic (AList.update part (AList.update offset msg (read [] parts part)) parts) topics\<rparr>)"

definition rememberFetched :: "'k kafka_broker \<Rightarrow> string \<Rightarrow> kafka_message \<Rightarrow> 'k kafka_broker" where
  "rememberFetched b topic msg = remember b topic (km_Partition msg) (km_Offset msg) msg"

definition rememberPending :: "'k kafka_broker \<Rightarrow> string \<Rightarrow> nat \<Rightarrow> kafka_message \<Rightarrow> 'k kafka_broker" where
  "rememberPending b topic part msg = remember b topic part 0 msg"

definition Kafka_Publish ::
  "'k kafka_client \<Rightarrow> json_text \<Rightarrow> goerror option \<Rightarrow> time \<Rightarrow> 'k kafka_broker \<Rightarrow> publish_request \<Rightarrow> message result \<times> 'k kafka_broker" where
  "Kafka_Publish K cd ctxErr now b req =
     (if pr_Topic req = [] then (Inl ErrTopicRequired, b) else
      case ctxErr of Some err \<Rightarrow> (Inl err, b) | None \<Rightarrow>
      case MarshalEvent cd (pr_Event req) of Inl err \<Rightarrow> (Inl err, b) | Inr payload \<Rightarrow>
      let msg = \<lparr>km_Topic = pr_Topic req, km_Partition = 0, km_Offset = 0, km_Key = pr_Key req, km_Value = payload\<rparr> in
      case WriteMessages K (kb_client b) msg of
        (Some err, k) \<Rightarrow> (Inl err, b\<lparr>kb_client := k\<rparr>)
      | (None, k) \<Rightarrow>
          let part = kafka_partition b (pr_Key req) in
          (Inr \<lparr>msg_Topic = pr_Topic req, msg_Partition = part, msg_Offset = 0, msg_Key = pr_Key req, msg_Event = Event_Clone (pr_Event req),
             msg_Attempts = pr_Attempts req, msg_LastError = pr_LastError req, msg_CreatedAt = now\<rparr>,
           rememberPending (b\<lparr>kb_client := k\<rparr>) (pr_Topic req) part msg))"

text \<open>The message a fetched one is turned into.\<close>

definition decode_message :: "json_text \<Rightarrow> time \<Rightarrow> kafka_message \<Rightarrow> message" where
  "decode_message cd now msg =
     (case UnmarshalMessage cd (km_Value msg) of (err, event) \<Rightarrow>
      if err = None \<and> TenantID (msg_Event event) \<noteq> []
      then event\<lparr>msg_Topic := km_Topic msg, msg_Partition := km_Partition msg, msg_Offset := km_Offset msg, msg_Key := km_Key msg, msg_CreatedAt := now\<rparr>
      else \<lparr>msg_Topic = km_Topic msg, msg_Partition = km_Partition msg, msg_Offset = km_Offset msg, msg_Key = km_Key msg,
        msg_Event = msg_Event event, msg_Attempts = 0, msg_LastError = [], msg_CreatedAt = now\<rparr>)"

definition kafka_reader :: "'k kafka_broker \<Rightarrow> string \<Rightarrow> string \<Rightarrow> (string \<times> string) \<times> 'k kafka_broker" where
  "kafka_reader b topic grp = (case map_of (kb_readers b) topic of Some g \<Rightarrow> ((topic, g), b)
     | None \<Rightarrow> ((topic, grp), b\<lparr>kb_readers := AList.update topic grp (kb_readers b)\<rparr>))"

text \<open>The loop of \<open>Poll\<close> with the number of messages still to fetch; \<open>now n\<close> is the clock when \<open>n\<close> of them remain.\<close>

fun fetch_messages ::
  "'k kafka_client \<Rightarrow> json_text \<Rightarrow> (nat \<Rightarrow> time) \<Rightarrow> string \<times> string \<Rightarrow> string \<Rightarrow> nat \<Rightarrow> message list \<Rightarrow> 'k kafka_broker \<Rightarrow>
     message list \<times> goerror option \<times> 'k kafka_broker" where
  "fetch_messages K cd now rd topic 0 out b = (out, None, b)"
| "fetch_messages K cd now rd topic (Suc n) out b =
     (case FetchMessage K (kb_client b) rd of
        (Inl err, k) \<Rightarrow> (out, Some err, b\<lparr>kb_client := k\<rparr>)
      | (Inr msg, k) \<Rightarrow> fetch_messages K cd now rd topic n (out @ [decode_message cd (now n) msg]) (rememberFetched (b\<lparr>kb_client := k\<rparr>) topic msg))"

definition Kafka_Poll ::
  "'k kafka_client \<Rightarrow> json_text \<Rightarrow> (nat \<Rightarrow> time) \<Rightarrow> 'k kafka_broker \<Rightarrow> string \<Rightarrow> string \<Rightarrow> int \<Rightarrow> message list \<times> goerror option \<times> 'k kafka_broker" where
  "Kafka_Poll K cd now b grp topic limit =
     (if topic = [] then ([], Some ErrTopicRequired, b) else
      let limit = (if limit \<le> 0 then 100 else limit) in
      case kafka_reader b topic grp of (rd, b) \<Rightarrow> fetch_messages K cd now rd topic (nat limit) [] b)"

definition Kafka_Commit :: "'k kafka_client \<Rightarrow> 'k kafka_broker \<Rightarrow> string \<Rightarrow> message \<Rightarrow> goerror option \<times> 'k kafka_broker" where
  "Kafka_Commit K b grp msg =
     (case kafka_reader b (msg_Topic msg) grp of (rd, b) \<Rightarrow>
      let stored = read zero_kafka_message (read [] (read [] (kb_pending b) (msg_Topic msg)) (msg_Partition msg)) (msg_Offset msg);
          stored = (if km_Topic stored = [] then \<lparr>km_Topic = msg_Topic msg, km_Partition = msg_Partition msg, km_Offset = msg_Offset msg,
            km_Key = msg_Key msg, km_Value = []\<rparr> else stored);
          topics = read [] (kb_commits b) grp;
          b = b\<lparr>kb_commits := AList.update grp (AList.update (msg_Topic msg)
            (AList.update (msg_Partition msg) (msg_Offset msg + 1) (read [] topics (msg_Topic msg))) topics) (kb_commits b)\<rparr>
      in case CommitMessages K (kb_client b) rd stored of (err, k) \<Rightarrow> (err, b\<lparr>kb_client := k\<rparr>))"

definition committedSnapshot :: "'k kafka_broker \<Rightarrow> string \<Rightarrow> (string, int) gomap" where
  "committedSnapshot b topic = fold (\<lambda>(grp, topics) out.
     if 0 < kc_Partitions (kb_cfg b) then AList.update (grp @ '':'' @ topic)
       (sum_list (map (\<lambda>p. int (read 0 (read [] topics topic) p)) [0..<nat (kc_Partitions (kb_cfg b))])) out else out) (kb_commits b) []"

definition lagSnapshot :: "'k kafka_broker \<Rightarrow> string \<Rightarrow> (string, int) gomap" where
  "lagSnapshot b topic = fold (\<lambda>(grp, _). AList.update (grp @ '':'' @ topic) 0) (kb_commits b) []"

definition Kafka_Stats :: "'k kafka_broker \<Rightarrow> topic_stats list" where
  "Kafka_Stats b = map (\<lambda>(topic, _).
     let partitions = (if kc_Partitions (kb_cfg b) \<le> 0 then 1 else nat (kc_Partitions (kb_cfg b))) in
     \<lparr>tst_Topic = topic, tst_Partitions = partitions, tst_HighWatermark = map (\<lambda>p. (p, 0)) [0..<partitions],
      tst_Committed = committedSnapshot b topic, tst_Lag = lagSnapshot b topic, tst_Messages = 0\<rparr>) (kb_readers b)"

text \<open>The loop of \<open>Replay\<close> over the partitions; \<open>now n\<close> is the clock when \<open>n\<close> messages have been read.\<close>

fun replay_kafka :: "'k kafka_client \<Rightarrow> json_text \<Rightarrow> (nat \<Rightarrow> time) \<Rightarrow> 'k \<Rightarrow> string \<Rightarrow> nat \<Rightarrow> nat list \<Rightarrow> message list \<Rightarrow> message list" where
  "replay_kafka K cd now k topic limit [] out = out"
| "replay_kafka K cd now k topic limit (p # ps) out =
     (if length out < limit then replay_kafka K cd now k topic limit ps
        (fold (\<lambda>msg out. out @ [decode_message cd (now (length out)) msg]) (take (limit - length out) (PartitionMessages K k topic p)) out)
      else out)"

definition Kafka_Replay :: "'k kafka_client \<Rightarrow> json_text \<Rightarrow> (nat \<Rightarrow> time) \<Rightarrow> 'k kafka_broker \<Rightarrow> string \<Rightarrow> int \<Rightarrow> message list result" where
  "Kafka_Replay K cd now b topic limit =
     (if topic = [] then Inl ErrTopicRequired else
      let limit = (if limit \<le> 0 then 100 else limit) in
      Inr (sort_slice replay_before (replay_kafka K cd now (kb_client b) topic (nat limit) [0..<nat (kc_Partitions (kb_cfg b))] [])))"

text \<open>
  The broker the consumer uses; it drops the messages that come with an error. \<open>now\<close> and \<open>ctxErr\<close> are fixed for
  the operation at hand.
\<close>

definition KafkaBroker :: "'k kafka_client \<Rightarrow> json_text \<Rightarrow> goerror option \<Rightarrow> (nat \<Rightarrow> time) \<Rightarrow> 'k kafka_broker broker" where
  "KafkaBroker K cd ctxErr now = \<lparr>Publish = Kafka_Publish K cd ctxErr,
     Poll = (\<lambda>b grp topic limit. case Kafka_Poll K cd now b grp topic limit of (out, err, b) \<Rightarrow>
       (case err of Some e \<Rightarrow> Inl e | None \<Rightarrow> Inr out, b)),
     Commit = Kafka_Commit K, Stats = Kafka_Stats\<rparr>"

section \<open>Properties\<close>

lemma remember_read:
  "read [] (read [] (kb_pending (remember b t p k msg)) t') p' = (if t' = t \<and> p' = p
     then AList.update k msg (read [] (read [] (kb_pending b) t) p) else read [] (read [] (kb_pending b) t') p')"
  by (auto simp: remember_def Let_def read_missing) (simp add: read_def)

lemma remember_simps [simp]:
  "kb_client (remember b t p k msg) = kb_client b" "kb_readers (remember b t p k msg) = kb_readers b" "kb_cfg (remember b t p k msg) = kb_cfg b"
  by (simp_all add: remember_def Let_def)

text \<open>
  A polled message commits the position it came from: whatever was polled before, committing the message made from a
  fetched one hands the reader of its topic that very message, and the committed offset of the group moves behind it.
\<close>

theorem kafka_commit_exact:
  assumes "fst (Kafka_Poll K cd now b grp topic 1) = [m]" and "fst (snd (Kafka_Poll K cd now b grp topic 1)) = None"
    and "snd (snd (Kafka_Poll K cd now b grp topic 1)) = b'"
    and "\<forall>k rd msg k'. FetchMessage K k rd = (Inr msg, k') \<longrightarrow> km_Topic msg = fst rd"
  shows "\<exists>msg k rd. FetchMessage K (kb_client b) rd = (Inr msg, k) \<and> fst rd = topic \<and> m = decode_message cd (now 0) msg \<and>
     fst (Kafka_Commit K b' grp m) = fst (CommitMessages K k rd msg) \<and> kb_client (snd (Kafka_Commit K b' grp m)) = snd (CommitMessages K k rd msg) \<and>
     read 0 (read [] (read [] (kb_commits (snd (Kafka_Commit K b' grp m))) grp) topic) (km_Partition msg) = km_Offset msg + 1"
proof -
  have t: "topic \<noteq> []" using assms(2) by (auto simp: Kafka_Poll_def)
  obtain rd b1 where r: "kafka_reader b topic grp = (rd, b1)" by fastforce
  have rd: "fst rd = topic" "kb_client b1 = kb_client b" "kafka_reader b1 topic grp = (rd, b1)" "map_of (kb_readers b1) topic = Some (snd rd)"
    using r by (auto simp: kafka_reader_def update_conv' split: option.splits)
  have p: "Kafka_Poll K cd now b grp topic 1 = fetch_messages K cd now rd topic (Suc 0) [] b1"
    using t r by (simp add: Kafka_Poll_def)
  obtain msg k where f: "FetchMessage K (kb_client b) rd = (Inr msg, k)"
    using assms(1) p rd(2) by (auto split: sum.splits prod.splits)
  have m: "m = decode_message cd (now 0) msg" and b': "b' = rememberFetched (b1\<lparr>kb_client := k\<rparr>) topic msg"
    using assms(1,3) p f rd(2) by simp_all
  have top: "km_Topic msg = topic" using assms(4) f rd(1) by blast
  have pos: "msg_Topic m = topic" "msg_Partition m = km_Partition msg" "msg_Offset m = km_Offset msg"
    using top by (simp_all add: m decode_message_def split: prod.split)
  have reader: "kafka_reader b' topic grp = (rd, b')"
    using rd(1,4) by (simp add: b' rememberFetched_def kafka_reader_def) (metis prod.collapse)
  have "read zero_kafka_message (read [] (read [] (kb_pending b') topic) (km_Partition msg)) (km_Offset msg) = msg"
    by (simp add: b' rememberFetched_def remember_read)
  moreover have "kb_client b' = k" by (simp add: b' rememberFetched_def)
  ultimately have "fst (Kafka_Commit K b' grp m) = fst (CommitMessages K k rd msg)" "kb_client (snd (Kafka_Commit K b' grp m)) = snd (CommitMessages K k rd msg)"
      "read 0 (read [] (read [] (kb_commits (snd (Kafka_Commit K b' grp m))) grp) topic) (km_Partition msg) = km_Offset msg + 1"
    using reader top t by (simp_all add: Kafka_Commit_def pos Let_def split: prod.split)
  then show ?thesis using f rd(1) m by blast
qed

text \<open>No tag of an event selects a field of a message.\<close>

lemma message_field_none:
  assumes "k \<in> {''timestamp'', ''tenant_id'', ''stream_labels'', ''body'', ''severity'', ''resource_attrs'', ''log_attrs'', ''parsed_fields'', ''trace_id'', ''span_id''}"
  shows "field_named message_fields k = None"
proof -
  have "list_all (\<lambda>k. field_named message_fields k = None) [''timestamp'', ''tenant_id'', ''stream_labels'', ''body'', ''severity'',
    ''resource_attrs'', ''log_attrs'', ''parsed_fields'', ''trace_id'', ''span_id'']"
    unfolding field_named_def message_fields_def by code_simp
  then show ?thesis using assms by auto
qed

lemma decode_unknown:
  "\<forall>k \<in> fst ` set fs. field_named tags k = None \<Longrightarrow>
     decode_fields (\<lambda>k v x. case field_named tags k of Some f \<Rightarrow> f v x | None \<Rightarrow> Filled None x) fs saved x = Filled saved x"
  by (induction fs arbitrary: saved) (auto split: option.split)

text \<open>Reading back the text of an object with plain names finds the same names.\<close>

definition names_kept :: "json_text \<Rightarrow> bool" where
  "names_kept J \<longleftrightarrow> (\<forall>fs. (\<forall>k \<in> fst ` set fs. list_all graphic k) \<longrightarrow>
     (\<exists>fs'. jt_parse J (jt_print J (J_Obj fs)) = Inr (J_Obj fs') \<and> map fst fs' = map fst fs))"

lemma event_read_as_message:
  assumes "names_kept J" and "MarshalEvent J e = Inr s"
  shows "UnmarshalMessage J s = (None, zero_message)"
proof -
  let ?tags = "[''timestamp'', ''tenant_id'', ''stream_labels'', ''body'', ''severity'', ''resource_attrs'', ''log_attrs'', ''parsed_fields'', ''trace_id'', ''span_id'']"
  obtain fs where fs: "s = jt_print J (J_Obj fs)" "map fst fs = ?tags"
    using assms(2) by (auto simp: MarshalEvent_def event_json_def split: if_splits)
  have "list_all (list_all graphic) ?tags" by code_simp
  then have "\<forall>k \<in> set (map fst fs). list_all graphic k" unfolding fs(2) by (simp only: list.pred_set)
  then obtain fs' where fs': "jt_parse J s = Inr (J_Obj fs')" "map fst fs' = ?tags"
    using assms(1) fs unfolding names_kept_def set_map by metis
  have "fst ` set fs' = set ?tags" using fs'(2) by (metis set_map)
  then have "\<forall>k \<in> fst ` set fs'. field_named message_fields k = None" using message_field_none by auto
  then show ?thesis using fs'(1) by (simp add: UnmarshalMessage_def decode_unknown)
qed

text \<open>
  C40. Over Kafka the consumer never sees the event: \<open>Publish\<close> writes the JSON of the event, none of whose tags names a field of
  a message, and \<open>Poll\<close> decodes a message from it. When the reader of the topic fetches the record that was
  written, the polled message has the right key and topic, but an empty event, no attempts and no last error, whatever was
  published. Of the text of JSON values only this is used, that reading the text of an object with names of printable ASCII characters
  gives an object with the same names.
\<close>

theorem kafka_event_lost:
  assumes "Kafka_Publish K J None now b req = (Inr sent, b1)" and "names_kept J"
    and "kafka_reader b (pr_Topic req) grp = (rd, b')"
    and "\<forall>msg k'. WriteMessages K (kb_client b) msg = (None, k') \<longrightarrow> km_Topic msg = pr_Topic req \<longrightarrow>
       (\<exists>p n k''. FetchMessage K k' rd = (Inr (msg\<lparr>km_Partition := p, km_Offset := n\<rparr>), k''))"
  shows "\<exists>m b2. Kafka_Poll K J now' b1 grp (pr_Topic req) 1 = ([m], None, b2) \<and> msg_Key m = pr_Key req \<and> msg_Topic m = pr_Topic req \<and>
     msg_Event m = zero_event \<and> msg_Attempts m = 0 \<and> msg_LastError m = []"
proof -
  have t: "pr_Topic req \<noteq> []" using assms(1) by (auto simp: Kafka_Publish_def)
  obtain payload where p: "MarshalEvent J (pr_Event req) = Inr payload" using assms(1) t by (auto simp: Kafka_Publish_def split: sum.splits)
  let ?msg = "\<lparr>km_Topic = pr_Topic req, km_Partition = 0, km_Offset = 0, km_Key = pr_Key req, km_Value = payload\<rparr>"
  obtain k where w: "WriteMessages K (kb_client b) ?msg = (None, k)" "kb_client b1 = k" "kb_readers b1 = kb_readers b"
    using assms(1) t p by (auto simp: Kafka_Publish_def Let_def rememberPending_def split: prod.splits option.splits)
  obtain q n k2 where f: "FetchMessage K k rd = (Inr (?msg\<lparr>km_Partition := q, km_Offset := n\<rparr>), k2)" using assms(4) w(1) by fastforce
  obtain b2 where rd: "kafka_reader b1 (pr_Topic req) grp = (rd, b2)" "kb_client b2 = k"
    using assms(3) w(2,3) by (auto simp: kafka_reader_def split: option.splits)
  show ?thesis
    using t rd f event_read_as_message [OF assms(2) p] by (simp add: Kafka_Poll_def decode_message_def zero_message_def zero_event_def)
qed

text \<open>A cluster with one log, for concrete runs.\<close>

definition log_client :: "kafka_message list kafka_client" where
  "log_client = \<lparr>WriteMessages = (\<lambda>k msg. (None, k @ [msg\<lparr>km_Offset := length k\<rparr>])),
     FetchMessage = (\<lambda>k rd. case find (\<lambda>m. km_Topic m = fst rd) k of Some m \<Rightarrow> (Inr m, remove1 m k) | None \<Rightarrow> (Inl ErrCanceled, k)),
     CommitMessages = (\<lambda>k rd msg. (None, k)), PartitionMessages = (\<lambda>k topic p. filter (\<lambda>m. km_Topic m = topic) k)\<rparr>"

text \<open>
  A text of JSON values: objects and strings in the usual syntax, where a quote and a backslash are escaped by a
  backslash; every other value is written as \<open>null\<close>.
\<close>

definition quote_char :: char where "quote_char = CHR 0x22"
definition backslash_char :: char where "backslash_char = CHR 0x5C"

definition quoted :: "string \<Rightarrow> string" where
  "quoted s = quote_char # concat (map (\<lambda>c. if c = quote_char \<or> c = backslash_char then [backslash_char, c] else [c]) s) @ [quote_char]"

fun unquoted :: "string \<Rightarrow> (string \<times> string) option" where
  "unquoted [] = None"
| "unquoted (c # s) = (if c = quote_char then Some ([], s)
     else if c = backslash_char then (case s of [] \<Rightarrow> None | d # s \<Rightarrow> map_option (apfst (Cons d)) (unquoted s))
     else map_option (apfst (Cons c)) (unquoted s))"

fun separated :: "string list \<Rightarrow> string" where
  "separated [] = ''}''"
| "separated [x] = x @ ''}''"
| "separated (x # y # xs) = x @ '','' @ separated (y # xs)"

fun print_json :: "json \<Rightarrow> string" where
  "print_json (J_Str s) = quoted s"
| "print_json (J_Obj fs) = ''{'' @ separated (map (\<lambda>(k, v). quoted k @ '':'' @ print_json v) fs)"
| "print_json v = ''null''"

fun parse_json :: "nat \<Rightarrow> string \<Rightarrow> (json \<times> string) option"
  and parse_fields :: "nat \<Rightarrow> string \<Rightarrow> ((string \<times> json) list \<times> string) option" where
  "parse_json 0 s = None"
| "parse_json (Suc n) s = (if take 1 s = [quote_char] then map_option (apfst J_Str) (unquoted (tl s))
     else if take 1 s = ''{'' then map_option (apfst J_Obj) (parse_fields n (tl s))
     else if take 4 s = ''null'' then Some (J_Null, drop 4 s) else None)"
| "parse_fields 0 s = None"
| "parse_fields (Suc n) s = (if take 1 s = ''}'' then Some ([], tl s)
     else if take 1 s = [quote_char] then (case unquoted (tl s) of None \<Rightarrow> None | Some (k, s) \<Rightarrow>
       (case parse_json n (tl s) of None \<Rightarrow> None | Some (v, s) \<Rightarrow>
         map_option (apfst (Cons (k, v))) (parse_fields n (if take 1 s = '','' then tl s else s))))
     else None)"

definition plain_text :: json_text where
  "plain_text = \<lparr>jt_print = print_json,
     jt_parse = (\<lambda>s. case parse_json (length s) s of Some (v, []) \<Rightarrow> Inr v | _ \<Rightarrow> Inl (IOError ''json: syntax error''))\<rparr>"

text \<open>What is left of a value.\<close>

fun strings_of :: "json \<Rightarrow> json" where
  "strings_of (J_Str s) = J_Str s"
| "strings_of (J_Obj fs) = J_Obj (map (\<lambda>(k, v). (k, strings_of v)) fs)"
| "strings_of v = J_Null"

lemma quoted_shape: "\<exists>t. quoted s = quote_char # t \<and> t \<noteq> [] \<and> (\<forall>r. unquoted (t @ r) = Some (s, r))"
proof -
  have "unquoted (concat (map (\<lambda>c. if c = quote_char \<or> c = backslash_char then [backslash_char, c] else [c]) s) @ quote_char # r) = Some (s, r)" for r
    by (induction s) (auto simp: quote_char_def backslash_char_def)
  then show ?thesis by (simp add: quoted_def)
qed

lemma parse_print_fields:
  assumes "\<And>k v n r. (k, v) \<in> set fs \<Longrightarrow> length (print_json v) \<le> n \<Longrightarrow> parse_json n (print_json v @ r) = Some (strings_of v, r)"
    and "length (separated (map (\<lambda>(k, v). quoted k @ '':'' @ print_json v) fs)) \<le> n"
  shows "parse_fields n (separated (map (\<lambda>(k, v). quoted k @ '':'' @ print_json v) fs) @ r) = Some (map (\<lambda>(k, v). (k, strings_of v)) fs, r)"
  using assms
proof (induction fs arbitrary: n)
  case Nil
  then show ?case by (cases n) simp_all
next
  case (Cons f fs)
  obtain k v where f: "f = (k, v)" by fastforce
  let ?rest = "separated (map (\<lambda>(k, v). quoted k @ '':'' @ print_json v) fs)"
  define r' where "r' = (if fs = [] then ''}'' else CHR '','' # ?rest)"
  have s: "separated (map (\<lambda>(k, v). quoted k @ '':'' @ print_json v) (f # fs)) = quoted k @ '':'' @ print_json v @ r'"
    by (cases fs) (simp_all add: f r'_def)
  obtain t where t: "quoted k = quote_char # t" "t \<noteq> []" "\<forall>r. unquoted (t @ r) = Some (k, r)" using quoted_shape by blast
  obtain m where m: "n = Suc m" using Cons.prems(2) unfolding s by (cases n) (simp_all add: t(1))
  have len: "length (print_json v) \<le> m" "length r' \<le> m" using Cons.prems(2) unfolding s m by (simp_all add: t(1))
  have v: "parse_json m (print_json v @ r' @ r) = Some (strings_of v, r' @ r)" using Cons.prems(1) [of k v m] len(1) f by simp
  have "parse_fields m (if take 1 (r' @ r) = '','' then tl (r' @ r) else r' @ r) = Some (map (\<lambda>(k, v). (k, strings_of v)) fs, r)"
  proof (cases "fs = []")
    case True
    then show ?thesis using len(2) by (cases m) (simp_all add: r'_def)
  next
    case False
    have "length ?rest \<le> m" using len(2) False by (simp add: r'_def)
    then have "parse_fields m (?rest @ r) = Some (map (\<lambda>(k, v). (k, strings_of v)) fs, r)" by (intro Cons.IH) (auto intro: Cons.prems(1))
    then show ?thesis using False by (simp add: r'_def)
  qed
  then show ?case
    using v t(3) unfolding s m by (simp add: t(1) f quote_char_def)
qed

lemma parse_print: "length (print_json v) \<le> n \<Longrightarrow> parse_json n (print_json v @ r) = Some (strings_of v, r)"
proof (induction v arbitrary: n r)
  case (J_Str s)
  obtain t where t: "quoted s = quote_char # t" "\<forall>r. unquoted (t @ r) = Some (s, r)" using quoted_shape by blast
  show ?case using J_Str t(2) by (cases n) (simp_all add: t(1))
next
  case (J_Obj fs)
  then show ?case using parse_print_fields [of fs "n - 1" r] by (cases n) (auto simp: quote_char_def)
qed (case_tac n; simp add: quote_char_def)+

lemma plain_text_names: "names_kept plain_text"
  using parse_print [of "J_Obj fs" "length (print_json (J_Obj fs))" "[]" for fs]
  by (force simp: names_kept_def plain_text_def split_def)

definition kafka_start :: "kafka_message list kafka_broker" where
  "kafka_start = NewKafkaBroker [] \<lparr>kc_Brokers = [], kc_GroupID = [], kc_Partitions = 1, kc_AutoCreate = True, kc_WriteTimeout = 0\<rparr>"

definition kafka_filled :: "kafka_message list kafka_broker" where
  "kafka_filled = kafka_start\<lparr>kb_client := [\<lparr>km_Topic = ''t'', km_Partition = 0, km_Offset = 7, km_Key = ''k'', km_Value = ''v''\<rparr>]\<rparr>"

theorem kafka_commit_exact_witness:
  "\<exists>m b'. Kafka_Poll log_client plain_text (\<lambda>_. 5) kafka_filled ''g'' ''t'' 1 = ([m], None, b') \<and>
     read 0 (read [] (read [] (kb_commits (snd (Kafka_Commit log_client b' ''g'' m))) ''g'') ''t'') 0 = 8"
proof -
  obtain m b' where p: "Kafka_Poll log_client plain_text (\<lambda>_. 5) kafka_filled ''g'' ''t'' 1 = ([m], None, b')"
    by (simp add: Kafka_Poll_def kafka_reader_def kafka_filled_def kafka_start_def NewKafkaBroker_def log_client_def)
  have law: "km_Topic msg = fst rd" if "FetchMessage log_client k rd = (Inr msg, k')" for k rd msg k'
    using that by (auto simp: log_client_def find_Some_iff split: option.splits)
  obtain msg k rd where e: "FetchMessage log_client (kb_client kafka_filled) rd = (Inr msg, k)" "fst rd = ''t''"
     "read 0 (read [] (read [] (kb_commits (snd (Kafka_Commit log_client b' ''g'' m))) ''g'') ''t'') (km_Partition msg) = km_Offset msg + 1"
    using kafka_commit_exact [of log_client plain_text "\<lambda>_. 5" kafka_filled "''g''" "''t''" m b'] law p by auto
  have "km_Partition msg = 0" "km_Offset msg = 7" using e(1,2) by (auto simp: log_client_def kafka_filled_def kafka_start_def)
  then show ?thesis using e(3) p by auto
qed

definition lost_request :: publish_request where
  "lost_request = sample_request\<lparr>pr_Event := zero_event\<lparr>TenantID := ''acme'', Body := ''hello''\<rparr>, pr_Attempts := 2\<rparr>"

theorem kafka_event_lost_witness:
  "\<exists>m b2. Kafka_Poll log_client plain_text (\<lambda>_. 5) (snd (Kafka_Publish log_client plain_text None 4 kafka_start lost_request)) ''g'' TopicNormalizedEvents 1 = ([m], None, b2) \<and>
     msg_Key m = ''k'' \<and> msg_Event m = zero_event \<and> msg_Attempts m = 0"
proof -
  have "four_digit_year 0" by code_simp
  then obtain sent b1 where s: "Kafka_Publish log_client plain_text None 4 kafka_start lost_request = (Inr sent, b1)"
    by (simp add: Kafka_Publish_def lost_request_def sample_request_def zero_event_def MarshalEvent_def event_json_def log_client_def Let_def)
  have next_fetch: "\<exists>p n k''. FetchMessage log_client k' (TopicNormalizedEvents, ''g'') = (Inr (msg\<lparr>km_Partition := p, km_Offset := n\<rparr>), k'')"
    if "WriteMessages log_client (kb_client kafka_start) msg = (None, k')" "km_Topic msg = TopicNormalizedEvents" for msg k'
    using that by (intro exI [of _ "km_Partition msg"] exI [of _ 0]) (auto simp: log_client_def kafka_start_def NewKafkaBroker_def)
  have t: "pr_Topic lost_request = TopicNormalizedEvents" "pr_Key lost_request = ''k''" by (simp_all add: lost_request_def sample_request_def)
  obtain b' where r: "kafka_reader kafka_start (pr_Topic lost_request) ''g'' = ((TopicNormalizedEvents, ''g''), b')"
    by (simp add: kafka_reader_def kafka_start_def NewKafkaBroker_def t)
  show ?thesis using kafka_event_lost [OF s plain_text_names r, of "\<lambda>_. 5"] next_fetch s unfolding t by auto
qed

end
