(* ===== verification/Etcd.thy ===== *)
theory Etcd
  imports Ring
begin

text \<open>
  The etcd backend of \<open>internal/coordination/ring/backend.go\<close>: members as JSON values under a prefix, each attached to a lease.
  The client is a parameter, a record of the operations of \<open>LeaseClient\<close>; the predicate \<open>etcd_laws\<close> says what etcd documents of
  them, given the keys and values a state of the cluster holds. The JSON codec of members is a parameter as well.
\<close>

section \<open>Operations\<close>

record 'k lease_client =
  lc_Get :: "'k \<Rightarrow> string \<Rightarrow> (string \<times> string) list result"
  lc_Put :: "'k \<Rightarrow> string \<Rightarrow> string \<Rightarrow> int \<Rightarrow> goerror option \<times> 'k"
  lc_Delete :: "'k \<Rightarrow> string \<Rightarrow> goerror option \<times> 'k"
  lc_Grant :: "'k \<Rightarrow> int \<Rightarrow> int result \<times> 'k"
  lc_KeepAliveOnce :: "'k \<Rightarrow> int \<Rightarrow> goerror option \<times> 'k"
  lc_Revoke :: "'k \<Rightarrow> int \<Rightarrow> goerror option \<times> 'k"

record member_codec =
  me_Marshal :: "member \<Rightarrow> string result"
  me_Unmarshal :: "string \<Rightarrow> member result"

definition memberPrefix :: "string \<Rightarrow> string" where
  "memberPrefix prefx = (if ends_with prefx ''/'' then take (length prefx - 1) prefx else prefx) @ ''/members/''"

definition memberKey :: "string \<Rightarrow> string \<Rightarrow> string" where
  "memberKey prefx ident = memberPrefix prefx @ ident"

definition Etcd_PutMember ::
  "'k lease_client \<Rightarrow> member_codec \<Rightarrow> 'k \<Rightarrow> string \<Rightarrow> member \<Rightarrow> int \<Rightarrow> member result \<times> 'k" where
  "Etcd_PutMember K cd k prefx member ttl =
     (case (if m_LeaseID member = 0 then lc_Grant K k ttl else (Inr (m_LeaseID member), k)) of
        (Inl err, k) \<Rightarrow> (Inl err, k)
      | (Inr leaseID, k) \<Rightarrow>
          let member = member\<lparr>m_LeaseID := leaseID\<rparr> in
          case me_Marshal cd member of Inl err \<Rightarrow> (Inl err, k) | Inr encoded \<Rightarrow>
          case lc_Put K k (memberKey prefx (m_ID member)) encoded leaseID of
            (Some err, k) \<Rightarrow> (Inl err, k)
          | (None, k) \<Rightarrow> (Inr member, k))"

definition Etcd_DeleteMember :: "'k lease_client \<Rightarrow> 'k \<Rightarrow> string \<Rightarrow> string \<Rightarrow> goerror option \<times> 'k" where
  "Etcd_DeleteMember K k prefx memberID = lc_Delete K k (memberKey prefx memberID)"

fun decode_members :: "member_codec \<Rightarrow> (string \<times> string) list \<Rightarrow> member list result" where
  "decode_members cd [] = Inr []"
| "decode_members cd ((key, v) # kvs) =
     (case me_Unmarshal cd v of Inl err \<Rightarrow> Inl err | Inr m \<Rightarrow> map_sum id ((#) m) (decode_members cd kvs))"

definition Etcd_ListMembers :: "'k lease_client \<Rightarrow> member_codec \<Rightarrow> 'k \<Rightarrow> string \<Rightarrow> member list result" where
  "Etcd_ListMembers K cd k prefx =
     (case lc_Get K k (memberPrefix prefx) of Inl err \<Rightarrow> Inl err | Inr kvs \<Rightarrow>
      case decode_members cd kvs of Inl err \<Rightarrow> Inl err | Inr members \<Rightarrow> Inr (sort_slice (\<lambda>x y. m_ID x < m_ID y) members))"

definition Etcd_RefreshLease :: "'k lease_client \<Rightarrow> 'k \<Rightarrow> int \<Rightarrow> goerror option \<times> 'k" where
  "Etcd_RefreshLease K k leaseID = lc_KeepAliveOnce K k leaseID"

definition Etcd_RevokeLease :: "'k lease_client \<Rightarrow> 'k \<Rightarrow> int \<Rightarrow> goerror option \<times> 'k" where
  "Etcd_RevokeLease K k leaseID = lc_Revoke K k leaseID"

definition EtcdBackend :: "'k lease_client \<Rightarrow> member_codec \<Rightarrow> 'k backend" where
  "EtcdBackend K cd = \<lparr>PutMember = Etcd_PutMember K cd, DeleteMember = Etcd_DeleteMember K, ListMembers = Etcd_ListMembers K cd,
     RefreshLease = Etcd_RefreshLease K, RevokeLease = Etcd_RevokeLease K\<rparr>"

section \<open>What etcd documents\<close>

text \<open>
  \<open>kv k\<close> are the keys of a state, each with its value and the lease it is attached to. A read with a prefix returns each key that has
  the prefix once; a put and a delete change the one key; granting and keeping alive a lease change no key; revoking a lease
  removes the keys attached to it, and so does the cluster itself, with \<open>expire\<close>, when the time to live of a lease passes.
\<close>

definition without_lease :: "int \<Rightarrow> (string \<Rightarrow> (string \<times> int) option) \<Rightarrow> string \<Rightarrow> (string \<times> int) option" where
  "without_lease l m key = (case m key of Some (v, l') \<Rightarrow> if l' = l then None else Some (v, l') | None \<Rightarrow> None)"

definition etcd_laws :: "'k lease_client \<Rightarrow> ('k \<Rightarrow> int \<Rightarrow> 'k) \<Rightarrow> ('k \<Rightarrow> string \<Rightarrow> (string \<times> int) option) \<Rightarrow> bool" where
  "etcd_laws K expire kv \<longleftrightarrow>
     (\<forall>k p kvs. lc_Get K k p = Inr kvs \<longrightarrow> distinct (map fst kvs) \<and> set kvs = {(key, v). (\<exists>l. kv k key = Some (v, l)) \<and> starts_with key p}) \<and>
     (\<forall>k key v l k'. lc_Put K k key v l = (None, k') \<longrightarrow> kv k' = (kv k)(key \<mapsto> (v, l))) \<and>
     (\<forall>k key k'. lc_Delete K k key = (None, k') \<longrightarrow> kv k' = (kv k)(key := None)) \<and>
     (\<forall>k ttl. kv (snd (lc_Grant K k ttl)) = kv k) \<and> (\<forall>k l. kv (snd (lc_KeepAliveOnce K k l)) = kv k) \<and>
     (\<forall>k l k'. lc_Revoke K k l = (None, k') \<longrightarrow> kv k' = without_lease l (kv k)) \<and>
     (\<forall>k l. kv (expire k l) = without_lease l (kv k))"

definition codec_laws :: "member_codec \<Rightarrow> bool" where
  "codec_laws cd \<longleftrightarrow> (\<forall>m s. me_Marshal cd m = Inr s \<longrightarrow> me_Unmarshal cd s = Inr m)"

text \<open>
  The members a cluster holds for a ring, and that what is stored under its prefix are members under their own ids, attached to
  their own leases.
\<close>

definition etcd_content :: "member_codec \<Rightarrow> ('k \<Rightarrow> string \<Rightarrow> (string \<times> int) option) \<Rightarrow> 'k \<Rightarrow> string \<Rightarrow> string \<Rightarrow> member option" where
  "etcd_content cd kv k p i = (case kv k (memberKey p i) of None \<Rightarrow> None
     | Some (v, l) \<Rightarrow> (case me_Unmarshal cd v of Inl _ \<Rightarrow> None | Inr m \<Rightarrow> Some m))"

definition etcd_inv :: "member_codec \<Rightarrow> ('k \<Rightarrow> string \<Rightarrow> (string \<times> int) option) \<Rightarrow> string \<Rightarrow> 'k \<Rightarrow> bool" where
  "etcd_inv cd kv p k \<longleftrightarrow> (\<forall>i v l. kv k (memberKey p i) = Some (v, l) \<longrightarrow> (\<exists>m. me_Unmarshal cd v = Inr m \<and> m_ID m = i \<and> m_LeaseID m = l))"

lemma memberKey_inj [simp]: "memberKey p i = memberKey p j \<longleftrightarrow> i = j"
  by (simp add: memberKey_def)

lemma under_prefix: "starts_with key (memberPrefix p) \<longleftrightarrow> (\<exists>i. key = memberKey p i)"
  by (auto simp: starts_with_iff memberKey_def)

lemma decode_members_all:
  assumes "\<forall>kv \<in> set kvs. \<exists>m. me_Unmarshal cd (snd kv) = Inr m"
  shows "\<exists>ms. decode_members cd kvs = Inr ms \<and> set ms = {m. \<exists>kv \<in> set kvs. me_Unmarshal cd (snd kv) = Inr m}"
  using assms
proof (induction kvs)
  case (Cons kv kvs)
  obtain key v where kv: "kv = (key, v)" by fastforce
  obtain m where m: "me_Unmarshal cd v = Inr m" using Cons.prems kv by auto
  obtain ms where ms: "decode_members cd kvs = Inr ms" "set ms = {m. \<exists>kv \<in> set kvs. me_Unmarshal cd (snd kv) = Inr m}"
    using Cons by auto
  have "decode_members cd (kv # kvs) = Inr (m # ms)" using ms(1) m kv by simp
  moreover have "set (m # ms) = {m. \<exists>kv' \<in> set (kv # kvs). me_Unmarshal cd (snd kv') = Inr m}" using ms(2) m kv by auto
  ultimately show ?case by blast
qed simp

section \<open>What happens to a ring\<close>

text \<open>
  The operations on a ring that succeed, and the leases that expire between them; and the members a ring should have then: those put
  last under their ids with the lease they were given, less those deleted and those whose lease was revoked or has expired.
\<close>

datatype ring_event =
    MemberPut member int
  | MemberDeleted string
  | LeaseRefreshed int
  | LeaseRevoked int
  | LeaseExpired int

inductive etcd_run :: "'k lease_client \<Rightarrow> member_codec \<Rightarrow> ('k \<Rightarrow> int \<Rightarrow> 'k) \<Rightarrow> string \<Rightarrow> 'k \<Rightarrow> ring_event list \<Rightarrow> 'k \<Rightarrow> bool" for K cd expire p k0 where
  start: "etcd_run K cd expire p k0 [] k0"
| put: "etcd_run K cd expire p k0 es k \<Longrightarrow> PutMember (EtcdBackend K cd) k p m ttl = (Inr m', k') \<Longrightarrow>
     etcd_run K cd expire p k0 (es @ [MemberPut m (m_LeaseID m')]) k'"
| delete: "etcd_run K cd expire p k0 es k \<Longrightarrow> DeleteMember (EtcdBackend K cd) k p i = (None, k') \<Longrightarrow>
     etcd_run K cd expire p k0 (es @ [MemberDeleted i]) k'"
| refresh: "etcd_run K cd expire p k0 es k \<Longrightarrow> RefreshLease (EtcdBackend K cd) k l = (None, k') \<Longrightarrow>
     etcd_run K cd expire p k0 (es @ [LeaseRefreshed l]) k'"
| revoke: "etcd_run K cd expire p k0 es k \<Longrightarrow> RevokeLease (EtcdBackend K cd) k l = (None, k') \<Longrightarrow>
     etcd_run K cd expire p k0 (es @ [LeaseRevoked l]) k'"
| expired: "etcd_run K cd expire p k0 es k \<Longrightarrow> etcd_run K cd expire p k0 (es @ [LeaseExpired l]) (expire k l)"

fun ring_step :: "(string \<Rightarrow> member option) \<Rightarrow> ring_event \<Rightarrow> string \<Rightarrow> member option" where
  "ring_step c (MemberPut m l) = c(m_ID m \<mapsto> m\<lparr>m_LeaseID := l\<rparr>)"
| "ring_step c (MemberDeleted i) = c(i := None)"
| "ring_step c (LeaseRefreshed l) = c"
| "ring_step c (LeaseRevoked l) = (\<lambda>i. case c i of Some m \<Rightarrow> if m_LeaseID m = l then None else Some m | None \<Rightarrow> None)"
| "ring_step c (LeaseExpired l) = (\<lambda>i. case c i of Some m \<Rightarrow> if m_LeaseID m = l then None else Some m | None \<Rightarrow> None)"

section \<open>Properties\<close>

lemma list_exact:
  assumes "etcd_laws K expire kv" and "etcd_inv cd kv p k" and "Etcd_ListMembers K cd k p = Inr ms"
  shows "set ms = ran (etcd_content cd kv k p)"
proof -
  obtain kvs where g: "lc_Get K k (memberPrefix p) = Inr kvs" using assms(3) by (auto simp: Etcd_ListMembers_def split: sum.splits)
  then have s: "set kvs = {(key, v). (\<exists>l. kv k key = Some (v, l)) \<and> starts_with key (memberPrefix p)}"
    using assms(1) by (auto simp: etcd_laws_def)
  then have "\<forall>kv \<in> set kvs. \<exists>m. me_Unmarshal cd (snd kv) = Inr m"
    using assms(2) unfolding under_prefix etcd_inv_def by fastforce
  then obtain ds where ds: "decode_members cd kvs = Inr ds" "set ds = {m. \<exists>kv \<in> set kvs. me_Unmarshal cd (snd kv) = Inr m}"
    using decode_members_all by blast
  have "set ds = ran (etcd_content cd kv k p)"
  proof (rule set_eqI)
    fix m
    have "etcd_content cd kv k p i = Some m \<longleftrightarrow> (\<exists>v l. kv k (memberKey p i) = Some (v, l) \<and> me_Unmarshal cd v = Inr m)" for i
      by (auto simp: etcd_content_def split: option.splits sum.splits prod.splits)
    then have "m \<in> ran (etcd_content cd kv k p) \<longleftrightarrow> (\<exists>i v l. kv k (memberKey p i) = Some (v, l) \<and> me_Unmarshal cd v = Inr m)"
      by (simp add: ran_def)
    then show "m \<in> set ds \<longleftrightarrow> m \<in> ran (etcd_content cd kv k p)" unfolding ds(2) s under_prefix by auto
  qed
  moreover have "ms = sort_slice (\<lambda>x y. m_ID x < m_ID y) ds" using assms(3) by (simp add: Etcd_ListMembers_def g ds(1))
  ultimately show ?thesis by simp
qed

lemma put_exact:
  assumes "etcd_laws K expire kv" and "codec_laws cd" and "etcd_inv cd kv p k" and "Etcd_PutMember K cd k p m ttl = (Inr m', k')"
  shows "etcd_inv cd kv p k'" and "etcd_content cd kv k' p = (etcd_content cd kv k p)(m_ID m \<mapsto> m\<lparr>m_LeaseID := m_LeaseID m'\<rparr>)"
    and "m_LeaseID m \<noteq> 0 \<longrightarrow> m_LeaseID m' = m_LeaseID m"
proof -
  obtain l k1 where g: "(if m_LeaseID m = 0 then lc_Grant K k ttl else (Inr (m_LeaseID m), k)) = (Inr l, k1)"
    using assms(4) by (auto simp: Etcd_PutMember_def Let_def split: sum.splits prod.splits)
  have kv1: "kv k1 = kv k" using g assms(1) by (auto simp: etcd_laws_def split: if_splits) (metis snd_conv)
  obtain s where s: "me_Marshal cd (m\<lparr>m_LeaseID := l\<rparr>) = Inr s" "lc_Put K k1 (memberKey p (m_ID m)) s l = (None, k')" "m' = m\<lparr>m_LeaseID := l\<rparr>"
    using assms(4) g by (auto simp: Etcd_PutMember_def Let_def split: sum.splits prod.splits option.splits)
  have k': "kv k' = (kv k)(memberKey p (m_ID m) \<mapsto> (s, l))" using s(2) assms(1) kv1 by (auto simp: etcd_laws_def)
  have u: "me_Unmarshal cd s = Inr m'" using assms(2) s(1,3) by (simp add: codec_laws_def)
  show "etcd_inv cd kv p k'" using assms(3) k' u s(3) by (auto simp: etcd_inv_def)
  show "etcd_content cd kv k' p = (etcd_content cd kv k p)(m_ID m \<mapsto> m\<lparr>m_LeaseID := m_LeaseID m'\<rparr>)"
    using k' u s(3) by (auto simp: etcd_content_def fun_eq_iff)
  show "m_LeaseID m \<noteq> 0 \<longrightarrow> m_LeaseID m' = m_LeaseID m" using g s(3) by auto
qed

lemma lease_lost:
  assumes "etcd_inv cd kv p k" and "kv k' = without_lease l (kv k)"
  shows "etcd_inv cd kv p k'" and "etcd_content cd kv k' p = ring_step (etcd_content cd kv k p) (LeaseExpired l)"
proof -
  show "etcd_inv cd kv p k'" using assms by (auto simp: etcd_inv_def without_lease_def split: option.splits if_splits)
  show "etcd_content cd kv k' p = ring_step (etcd_content cd kv k p) (LeaseExpired l)"
  proof
    fix i
    show "etcd_content cd kv k' p i = ring_step (etcd_content cd kv k p) (LeaseExpired l) i"
    proof (cases "kv k (memberKey p i)")
      case (Some x)
      obtain v l' where x: "x = (v, l')" by fastforce
      obtain m where "me_Unmarshal cd v = Inr m" "m_LeaseID m = l'" using assms(1) Some x unfolding etcd_inv_def by blast
      then show ?thesis using Some x by (simp add: etcd_content_def assms(2) without_lease_def)
    qed (simp add: etcd_content_def assms(2) without_lease_def)
  qed
qed

lemma etcd_run_content:
  assumes "etcd_run K cd expire p k0 es k" and "etcd_laws K expire kv" and "codec_laws cd" and "etcd_inv cd kv p k0"
  shows "etcd_inv cd kv p k \<and> etcd_content cd kv k p = foldl ring_step (etcd_content cd kv k0 p) es"
  using assms(1)
proof induction
  case start
  then show ?case using assms(4) by simp
next
  case (put es k m ttl m' k')
  then have "Etcd_PutMember K cd k p m ttl = (Inr m', k')" by (simp add: EtcdBackend_def)
  note put_exact = put_exact [OF assms(2,3) conjunct1 [OF put.IH] this]
  then show ?case using put.IH by (simp del: fun_upd_apply)
next
  case (delete es k i k')
  then have k': "kv k' = (kv k)(memberKey p i := None)" using assms(2) by (simp add: EtcdBackend_def Etcd_DeleteMember_def etcd_laws_def)
  have "etcd_content cd kv k' p = (etcd_content cd kv k p)(i := None)" by (simp add: etcd_content_def k' fun_eq_iff)
  moreover have "etcd_inv cd kv p k'" using delete.IH by (auto simp: etcd_inv_def k')
  ultimately show ?case using delete.IH by simp
next
  case (refresh es k l k')
  then have "kv k' = kv k" using assms(2) unfolding EtcdBackend_def Etcd_RefreshLease_def etcd_laws_def by (metis backend.select_convs(4) snd_conv)
  then have "etcd_inv cd kv p k' = etcd_inv cd kv p k" "etcd_content cd kv k' p = etcd_content cd kv k p"
    by (simp_all add: etcd_inv_def etcd_content_def fun_eq_iff)
  then show ?case using refresh.IH by simp
next
  case (revoke es k l k')
  then have "kv k' = without_lease l (kv k)" using assms(2) by (simp add: EtcdBackend_def Etcd_RevokeLease_def etcd_laws_def)
  then show ?case using lease_lost [of cd kv p k k' l] revoke.IH by simp
next
  case (expired es k l)
  have "kv (expire k l) = without_lease l (kv k)" using assms(2) by (simp add: etcd_laws_def)
  then show ?case using lease_lost [of cd kv p k "expire k l" l] expired.IH by simp
qed

text \<open>
  C33. Members in etcd: on a cluster that behaves as documented, start from a ring without members and take any operations on it
  that succeed, with any leases expiring in between. Then a list that succeeds returns exactly the members put last under their ids, as
  they were put but for the lease they were given, less those that were deleted and those whose lease was revoked or
  has expired; and a put of a member that has a lease keeps this lease.
\<close>

theorem etcd_backend_exact:
  assumes "etcd_laws K expire kv" and "codec_laws cd" and "\<And>i. kv k0 (memberKey p i) = None" and "etcd_run K cd expire p k0 es k"
  shows "(\<forall>ms. ListMembers (EtcdBackend K cd) k p = Inr ms \<longrightarrow> set ms = ran (foldl ring_step (\<lambda>_. None) es)) \<and>
     (\<forall>m ttl m' k'. PutMember (EtcdBackend K cd) k p m ttl = (Inr m', k') \<and> m_LeaseID m \<noteq> 0 \<longrightarrow> m_LeaseID m' = m_LeaseID m)"
proof -
  have i: "etcd_inv cd kv p k0" "etcd_content cd kv k0 p = (\<lambda>_. None)" using assms(3) by (simp_all add: etcd_inv_def etcd_content_def fun_eq_iff)
  note run = etcd_run_content [OF assms(4,1,2) i(1), unfolded i(2)]
  have "ListMembers (EtcdBackend K cd) = Etcd_ListMembers K cd" "PutMember (EtcdBackend K cd) = Etcd_PutMember K cd" by (simp_all add: EtcdBackend_def)
  then show ?thesis using list_exact [OF assms(1), of cd p k] put_exact(3) [OF assms(1,2), of p k] run by metis
qed

text \<open>A cluster whose state is the last lease granted and the map of its keys.\<close>

definition map_client :: "(int \<times> (string, string \<times> int) gomap) lease_client" where
  "map_client = \<lparr>lc_Get = (\<lambda>k p. Inr (map (\<lambda>(key, v, _). (key, v)) (filter (\<lambda>(key, _). starts_with key p) (AList.clearjunk (snd k))))),
     lc_Put = (\<lambda>k key v l. (None, (fst k, AList.update key (v, l) (snd k)))), lc_Delete = (\<lambda>k key. (None, (fst k, AList.delete key (snd k)))),
     lc_Grant = (\<lambda>k ttl. (Inr (fst k + 1), (fst k + 1, snd k))), lc_KeepAliveOnce = (\<lambda>k _. (None, k)),
     lc_Revoke = (\<lambda>k l. (None, (fst k, filter (\<lambda>(_, _, l'). l' \<noteq> l) (AList.clearjunk (snd k)))))\<rparr>"

definition map_expire :: "int \<times> (string, string \<times> int) gomap \<Rightarrow> int \<Rightarrow> int \<times> (string, string \<times> int) gomap" where
  "map_expire k l = (fst k, filter (\<lambda>(_, _, l'). l' \<noteq> l) (AList.clearjunk (snd k)))"

definition member_a :: "int \<Rightarrow> member" where
  "member_a l = \<lparr>m_ID = ''a'', m_Address = ''h:1'', m_Zone = [], m_State = StateReady, m_LeaseID = l, m_UpdatedAt = 0\<rparr>"

text \<open>A codec of members called \<open>a\<close>, who differ in their leases only: it writes the lease.\<close>

definition lease_codec :: member_codec where
  "lease_codec = \<lparr>me_Marshal = (\<lambda>m. if m = member_a (m_LeaseID m) \<and> 0 \<le> m_LeaseID m \<and> m_LeaseID m \<le> max_int64 then Inr (show_nat (nat (m_LeaseID m))) else Inl (IOError ''json'')),
     me_Unmarshal = (\<lambda>s. case Atoi s of None \<Rightarrow> Inl (IOError ''json'') | Some n \<Rightarrow> Inr (member_a n))\<rparr>"

lemma map_of_filter_lease:
  "map_of (filter (\<lambda>(_, _, l'). l' \<noteq> l) (AList.clearjunk m)) = without_lease l (map_of m)"
proof -
  have "distinct (map fst xs) \<Longrightarrow> map_of (filter (\<lambda>(_, _, l'). l' \<noteq> l) xs) key = without_lease l (map_of xs) key" for xs :: "(string, string \<times> int) gomap" and key
    by (induction xs) (auto simp: without_lease_def map_of_eq_None_iff image_iff split: option.splits)
  from this [OF distinct_clearjunk, of m] show ?thesis by (simp add: fun_eq_iff without_lease_def map_of_clearjunk)
qed

lemma map_client_laws: "etcd_laws map_client map_expire (map_of \<circ> snd)"
proof -
  have "set (AList.clearjunk k) = {(key, v). map_of k key = Some v}" for k :: "(string, string \<times> int) gomap"
    using map_of_eq_Some_iff [OF distinct_clearjunk, of k] by (auto simp: map_of_clearjunk)
  then have "set (map (\<lambda>(key, v, _). (key, v)) (filter (\<lambda>(key, _). starts_with key p) (AList.clearjunk k))) =
      {(key, v). (\<exists>l. map_of k key = Some (v, l)) \<and> starts_with key p}" for p and k :: "(string, string \<times> int) gomap"
    by (force simp: image_iff)
  moreover have "distinct (map fst (map (\<lambda>(key, v, _). (key, v)) (filter P (AList.clearjunk k))))" for P and k :: "(string, string \<times> int) gomap"
  proof -
    have "map fst (map (\<lambda>(key, v, _). (key, v)) xs) = map fst xs" for xs :: "(string, string \<times> int) gomap" by (induction xs) auto
    then show ?thesis by (simp only: distinct_map_filter distinct_clearjunk)
  qed
  ultimately show ?thesis
    by (auto simp: etcd_laws_def map_client_def map_expire_def update_conv' delete_conv' map_of_filter_lease)
qed

lemma lease_codec_laws: "codec_laws lease_codec"
  using Atoi_show_nat by (auto simp: codec_laws_def lease_codec_def split: if_splits)

text \<open>A member joins, gets the first lease, joins again with the second, and the first lease expires: the ring lists it with its second lease.\<close>

theorem etcd_backend_exact_witness:
  "\<exists>k ms. etcd_run map_client lease_codec map_expire ''ring'' (0, []) [MemberPut (member_a 0) 1, MemberPut (member_a 0) 2, LeaseExpired 1] k \<and>
     ListMembers (EtcdBackend map_client lease_codec) k ''ring'' = Inr ms \<and> set ms = {member_a 2}"
proof -
  let ?B = "EtcdBackend map_client lease_codec" and ?key = "memberKey ''ring'' ''a''"
  have f: "m_ID (member_a l) = ''a''" "m_LeaseID (member_a l) = l" "(member_a l)\<lparr>m_LeaseID := l'\<rparr> = member_a l'" for l l' by (simp_all add: member_a_def)
  have m: "me_Marshal lease_codec (member_a 1) = Inr (show_nat 1)" "me_Marshal lease_codec (member_a 2) = Inr (show_nat 2)"
    by (simp_all add: lease_codec_def f max_int64_def)
  have "PutMember ?B (0, []) ''ring'' (member_a 0) 30 = (Inr (member_a 1), (1, [(?key, show_nat 1, 1)]))"
    by (simp add: EtcdBackend_def Etcd_PutMember_def map_client_def f m)
  from etcd_run.put [OF etcd_run.start [where expire = map_expire] this]
  have r1: "etcd_run map_client lease_codec map_expire ''ring'' (0, []) [MemberPut (member_a 0) 1] (1, [(?key, show_nat 1, 1)])" by (simp add: f)
  have "PutMember ?B (1, [(?key, show_nat 1, 1)]) ''ring'' (member_a 0) 30 = (Inr (member_a 2), (2, [(?key, show_nat 2, 2)]))"
    by (simp add: EtcdBackend_def Etcd_PutMember_def map_client_def f m)
  from etcd_run.expired [OF etcd_run.put [OF r1 this], of 1]
  have r: "etcd_run map_client lease_codec map_expire ''ring'' (0, []) [MemberPut (member_a 0) 1, MemberPut (member_a 0) 2, LeaseExpired 1]
      (map_expire (2, [(?key, show_nat 2, 2)]) 1)" by (simp add: f)
  have e: "map_expire (2, [(?key, show_nat 2, 2)]) 1 = (2, [(?key, show_nat 2, 2)])" by (simp add: map_expire_def)
  have p: "starts_with ?key (memberPrefix ''ring'')" using under_prefix by blast
  have u: "me_Unmarshal lease_codec (show_nat 2) = Inr (member_a 2)" using Atoi_show_nat [of 2] by (simp add: lease_codec_def max_int64_def)
  obtain ms where l: "ListMembers ?B (2, [(?key, show_nat 2, 2)]) ''ring'' = Inr ms"
    by (simp add: EtcdBackend_def Etcd_ListMembers_def map_client_def p u)
  have "set ms = ran (foldl ring_step (\<lambda>_. None) [MemberPut (member_a 0) 1, MemberPut (member_a 0) 2, LeaseExpired 1])"
    using etcd_backend_exact [OF map_client_laws lease_codec_laws _ r] l e by simp
  also have "\<dots> = {member_a 2}" by (auto simp: f ran_def)
  finally show ?thesis using r l e by metis
qed

end
