(* ===== verification/Postgres.thy ===== *)
theory Postgres
  imports Tenant_Store Manifests
begin

text \<open>
  The PostgreSQL tenant store (\<open>internal/engine/tenant/postgres.go\<close>) and manifest repository
  (\<open>internal/storage/manifests/postgres.go\<close>). Each SQL statement is an operation of the database, a parameter: opening a
  connection, the statements themselves, and for a query the rows with the outcome of scanning each. What PostgreSQL
  documents of the statements are the predicates \<open>tenant_sql_laws\<close> and \<open>manifest_sql_laws\<close> over the contents of the one table.
\<close>

section \<open>Tenants\<close>

record 'd tenant_sql =
  tq_Open :: "string \<Rightarrow> 'd result"
  tq_Ping :: "'d \<Rightarrow> goerror option"
  tq_Migrate :: "'d \<Rightarrow> goerror option \<times> 'd"
  tq_Close :: "'d \<Rightarrow> goerror option"
  tq_Upsert :: "'d \<Rightarrow> string \<times> int \<times> time \<times> string \<Rightarrow> goerror option \<times> 'd"
  tq_Config :: "'d \<Rightarrow> string \<Rightarrow> string option result"
  tq_Version :: "'d \<Rightarrow> string \<Rightarrow> int option result"
  tq_Configs :: "'d \<Rightarrow> string result list result"
  tq_IDs :: "'d \<Rightarrow> string result list result"

record tenant_codec =
  tc_Marshal :: "tenant_config \<Rightarrow> string result"
  tc_Unmarshal :: "string \<Rightarrow> tenant_config result"

definition NewPostgresStore :: "'d tenant_sql \<Rightarrow> string \<Rightarrow> 'd result" where
  "NewPostgresStore T dsn =
     (if dsn = [] then Inl (Errorf ''dsn is required'' []) else
      case tq_Open T dsn of Inl err \<Rightarrow> Inl err | Inr db \<Rightarrow>
      case tq_Ping T db of Some err \<Rightarrow> Inl err | None \<Rightarrow>
      case tq_Migrate T db of (Some err, _) \<Rightarrow> Inl err | (None, db) \<Rightarrow> Inr db)"

definition PostgresStore_Close :: "'d tenant_sql \<Rightarrow> 'd option \<Rightarrow> goerror option" where
  "PostgresStore_Close T s = (case s of None \<Rightarrow> None | Some db \<Rightarrow> tq_Close T db)"

text \<open>A query for one row; \<open>None\<close> is \<open>sql.ErrNoRows\<close>.\<close>

definition versionForTenant :: "'d tenant_sql \<Rightarrow> 'd \<Rightarrow> string \<Rightarrow> int result" where
  "versionForTenant T db tenantID = (case tq_Version T db tenantID of Inl err \<Rightarrow> Inl err | Inr None \<Rightarrow> Inr 0 | Inr (Some v) \<Rightarrow> Inr v)"

definition PostgresStore_Put :: "'d tenant_sql \<Rightarrow> tenant_codec \<Rightarrow> time \<Rightarrow> 'd \<Rightarrow> tenant_config \<Rightarrow> goerror option \<times> 'd" where
  "PostgresStore_Put T cd now db tenant =
     (case TenantConfig_Validate tenant of Some err \<Rightarrow> (Some err, db) | None \<Rightarrow>
      case versionForTenant T db (t_ID tenant) of Inl err \<Rightarrow> (Some err, db) | Inr existingVersion \<Rightarrow>
      let tenant = tenant\<lparr>t_Version := existingVersion + 1, t_UpdatedAt := now\<rparr> in
      case tc_Marshal cd tenant of Inl err \<Rightarrow> (Some err, db) | Inr payload \<Rightarrow>
      tq_Upsert T db (t_ID tenant, t_Version tenant, t_UpdatedAt tenant, payload))"

definition PostgresStore_GetTenant :: "'d tenant_sql \<Rightarrow> tenant_codec \<Rightarrow> 'd \<Rightarrow> string \<Rightarrow> tenant_config result" where
  "PostgresStore_GetTenant T cd db tenantID =
     (case tq_Config T db tenantID of Inl err \<Rightarrow> Inl err | Inr None \<Rightarrow> Inl ErrTenantNotFound
      | Inr (Some payload) \<Rightarrow> tc_Unmarshal cd payload)"

text \<open>Rows that cannot be scanned or decoded are skipped.\<close>

fun decode_tenants :: "tenant_codec \<Rightarrow> string result list \<Rightarrow> tenant_config list" where
  "decode_tenants cd [] = []"
| "decode_tenants cd (row # rows) = (case row of Inl _ \<Rightarrow> decode_tenants cd rows | Inr payload \<Rightarrow>
     (case tc_Unmarshal cd payload of Inl _ \<Rightarrow> decode_tenants cd rows | Inr t \<Rightarrow> t # decode_tenants cd rows))"

definition PostgresStore_List :: "'d tenant_sql \<Rightarrow> tenant_codec \<Rightarrow> 'd \<Rightarrow> tenant_config list" where
  "PostgresStore_List T cd db = (case tq_Configs T db of Inl _ \<Rightarrow> [] | Inr rows \<Rightarrow> decode_tenants cd rows)"

definition PostgresStore_ReloadIfModified :: "bool result" where
  "PostgresStore_ReloadIfModified = Inr False"

fun scan_ids :: "string result list \<Rightarrow> string list result" where
  "scan_ids [] = Inr []"
| "scan_ids (row # rows) = (case row of Inl err \<Rightarrow> Inl err | Inr i \<Rightarrow> map_sum id ((#) i) (scan_ids rows))"

definition ListTenantIDs :: "'d tenant_sql \<Rightarrow> 'd \<Rightarrow> string list result" where
  "ListTenantIDs T db = (case tq_IDs T db of Inl err \<Rightarrow> Inl err | Inr rows \<Rightarrow> map_sum id sort (scan_ids rows))"

section \<open>Manifests\<close>

text \<open>The rows of a listing come with the error that ended it.\<close>

record 'd manifest_sql =
  mq_Open :: "string \<Rightarrow> 'd result"
  mq_Ping :: "'d \<Rightarrow> goerror option"
  mq_Migrate :: "'d \<Rightarrow> goerror option \<times> 'd"
  mq_Close :: "'d \<Rightarrow> goerror option"
  mq_Upsert :: "'d \<Rightarrow> manifest \<Rightarrow> goerror option \<times> 'd"
  mq_Select :: "'d \<Rightarrow> string \<Rightarrow> manifest option result"
  mq_List :: "'d \<Rightarrow> string option \<Rightarrow> (manifest result list \<times> goerror option) result"
  mq_Delete :: "'d \<Rightarrow> string \<Rightarrow> goerror option \<times> 'd"

definition NewPostgresRepository :: "'d manifest_sql \<Rightarrow> string \<Rightarrow> 'd result" where
  "NewPostgresRepository M dsn =
     (if dsn = [] then Inl (Errorf ''dsn is required'' []) else
      case mq_Open M dsn of Inl err \<Rightarrow> Inl err | Inr db \<Rightarrow>
      case mq_Ping M db of Some err \<Rightarrow> Inl err | None \<Rightarrow>
      case mq_Migrate M db of (Some err, _) \<Rightarrow> Inl err | (None, db) \<Rightarrow> Inr db)"

definition PostgresRepository_Close :: "'d manifest_sql \<Rightarrow> 'd option \<Rightarrow> goerror option" where
  "PostgresRepository_Close M s = (case s of None \<Rightarrow> None | Some db \<Rightarrow> mq_Close M db)"

definition PostgresRepository_Get :: "'d manifest_sql \<Rightarrow> 'd \<Rightarrow> string \<Rightarrow> manifest result" where
  "PostgresRepository_Get M db key = (case mq_Select M db key of Inl err \<Rightarrow> Inl err
     | Inr None \<Rightarrow> Inl (Errorf ''manifest not found'' []) | Inr (Some r) \<Rightarrow> Inr r)"

definition PostgresRepository_Put ::
  "'d manifest_sql \<Rightarrow> (string \<Rightarrow> string) \<Rightarrow> time \<Rightarrow> 'd \<Rightarrow> manifest \<Rightarrow> manifest result \<times> 'd" where
  "PostgresRepository_Put M sha now db r =
     (if mr_Key r = [] then (Inl (Errorf ''manifest key is required'' []), db) else
      let r = (if IsZero (mr_CreatedAt r) then r\<lparr>mr_CreatedAt := now\<rparr> else r);
          r = (if mr_Checksum r = [] then r\<lparr>mr_Checksum := Checksum sha (mr_Payload r)\<rparr> else r) in
      if (case PostgresRepository_Get M db (mr_Key r) of Inl _ \<Rightarrow> False | Inr existing \<Rightarrow> mr_Checksum existing \<noteq> mr_Checksum r)
      then (Inl ErrConflict, db)
      else case mq_Upsert M db r of (Some err, db) \<Rightarrow> (Inl err, db) | (None, db) \<Rightarrow> (Inr r, db))"

fun scan_manifests :: "manifest result list \<Rightarrow> goerror option \<Rightarrow> manifest list result" where
  "scan_manifests [] err = (case err of None \<Rightarrow> Inr [] | Some e \<Rightarrow> Inl e)"
| "scan_manifests (row # rows) err = (case row of Inl e \<Rightarrow> Inl e | Inr r \<Rightarrow> map_sum id ((#) r) (scan_manifests rows err))"

text \<open>The argument of the listing is the prefix, to which the statement appends the wildcard; without a prefix there is no condition.\<close>

definition PostgresRepository_List :: "'d manifest_sql \<Rightarrow> 'd \<Rightarrow> string \<Rightarrow> manifest list result" where
  "PostgresRepository_List M db prefx =
     (case mq_List M db (if prefx \<noteq> [] then Some prefx else None) of Inl err \<Rightarrow> Inl err | Inr (rows, err) \<Rightarrow> scan_manifests rows err)"

definition PostgresRepository_Delete :: "'d manifest_sql \<Rightarrow> 'd \<Rightarrow> string \<Rightarrow> goerror option \<times> 'd" where
  "PostgresRepository_Delete M db key = mq_Delete M db key"

section \<open>What PostgreSQL documents\<close>

text \<open>
  The table of tenants: the version and the document under each id. A \<open>jsonb\<close> document is stored in a normal form \<open>norm\<close>. A statement
  that reports an error may have been executed all the same, when the connection was lost after the commit; a statement is executed as a
  whole or not at all. The documents of a listing are documents of the table; a listing may skip rows, as an error while fetching them ends it.
\<close>

definition tenant_sql_laws :: "'d tenant_sql \<Rightarrow> (string \<Rightarrow> string) \<Rightarrow> ('d \<Rightarrow> string \<Rightarrow> (int \<times> string) option) \<Rightarrow> bool" where
  "tenant_sql_laws T norm table \<longleftrightarrow>
     (\<forall>d i x. tq_Config T d i = Inr x \<longrightarrow> x = map_option snd (table d i)) \<and>
     (\<forall>d i x. tq_Version T d i = Inr x \<longrightarrow> x = map_option fst (table d i)) \<and>
     (\<forall>d i v t s d'. tq_Upsert T d (i, v, t, s) = (None, d') \<longrightarrow> table d' = (table d)(i \<mapsto> (v, norm s))) \<and>
     (\<forall>d i v t s e d'. tq_Upsert T d (i, v, t, s) = (Some e, d') \<longrightarrow> table d' = table d \<or> table d' = (table d)(i \<mapsto> (v, norm s))) \<and>
     (\<forall>d rows s. tq_Configs T d = Inr rows \<and> Inr s \<in> set rows \<longrightarrow> (\<exists>i v. table d i = Some (v, s)))"

text \<open>\<open>LIKE\<close>: \<open>%\<close> stands for any text, \<open>_\<close> for any character, a backslash takes the next character as it is.\<close>

fun sql_like :: "string \<Rightarrow> string \<Rightarrow> bool" where
  "sql_like [] s = (s = [])"
| "sql_like (p # ps) [] = (p = CHR ''%'' \<and> sql_like ps [])"
| "sql_like (p # ps) (c # cs) =
     (if p = CHR ''%'' then sql_like ps (c # cs) \<or> sql_like (p # ps) cs
      else if p = CHR ''_'' then sql_like ps cs
      else if p = CHR 0x5C then (case ps of [] \<Rightarrow> False | q # qs \<Rightarrow> q = c \<and> sql_like qs cs)
      else p = c \<and> sql_like ps cs)"

text \<open>
  The table of manifests; \<open>micro\<close> is the rounding of a \<open>timestamptz\<close> to microseconds. A listing has the rows whose key matches, by key.
\<close>

definition stored_row :: "(time \<Rightarrow> time) \<Rightarrow> manifest \<Rightarrow> manifest" where
  "stored_row micro r = r\<lparr>mr_Start := micro (mr_Start r), mr_End := micro (mr_End r), mr_CreatedAt := micro (mr_CreatedAt r)\<rparr>"

definition manifest_sql_laws :: "'d manifest_sql \<Rightarrow> (time \<Rightarrow> time) \<Rightarrow> ('d \<Rightarrow> string \<Rightarrow> manifest option) \<Rightarrow> bool" where
  "manifest_sql_laws M micro table \<longleftrightarrow>
     (\<forall>d k x. mq_Select M d k = Inr x \<longrightarrow> x = table d k) \<and>
     (\<forall>d r d'. mq_Upsert M d r = (None, d') \<longrightarrow> table d' = (table d)(mr_Key r \<mapsto> stored_row micro r)) \<and>
     (\<forall>d k d'. mq_Delete M d k = (None, d') \<longrightarrow> table d' = (table d)(k := None)) \<and>
     (\<forall>d p rows. mq_List M d p = Inr (rows, None) \<longrightarrow> (\<exists>rs. rows = map Inr rs \<and> sorted (map mr_Key rs) \<and>
        set rs = {r. \<exists>k. table d k = Some r \<and> (case p of None \<Rightarrow> True | Some prefx \<Rightarrow> sql_like (prefx @ ''%'') k)}))"

section \<open>Properties\<close>

lemma like_all: "sql_like ''%'' s"
  by (induction s) auto

lemma like_prefix:
  assumes "\<forall>c \<in> set p. c \<notin> {CHR ''%'', CHR ''_'', CHR 0x5C}"
  shows "sql_like (p @ ''%'') s \<longleftrightarrow> starts_with s p"
  using assms
proof (induction p arbitrary: s)
  case Nil
  then show ?case using like_all by simp
next
  case (Cons c p)
  then show ?case by (cases s) (auto simp: starts_with_def)
qed

lemma scan_all: "scan_manifests (map Inr rs) None = Inr rs"
  by (induction rs) auto

lemma stored_version:
  assumes "tenant_sql_laws T norm table" and "versionForTenant T db i = Inr v"
  shows "v = (case table db i of None \<Rightarrow> 0 | Some (v, _) \<Rightarrow> v)"
proof -
  obtain x where x: "tq_Version T db i = Inr x" "v = (case x of None \<Rightarrow> 0 | Some v \<Rightarrow> v)"
    using assms(2) by (auto simp: versionForTenant_def split: sum.splits option.splits)
  then have "x = map_option fst (table db i)" using assms(1) by (simp add: tenant_sql_laws_def)
  then show ?thesis using x(2) by (cases "table db i") auto
qed

lemma put_row:
  assumes "tenant_sql_laws T norm table" and "PostgresStore_Put T cd now db tenant = (err, db')"
  obtains (refused) e where "err = Some e" and "table db' = table db"
  | (stored) v s where "TenantConfig_Validate tenant = None" and "versionForTenant T db (t_ID tenant) = Inr v"
      and "tc_Marshal cd (tenant\<lparr>t_Version := v + 1, t_UpdatedAt := now\<rparr>) = Inr s" and "table db' = (table db)(t_ID tenant \<mapsto> (v + 1, norm s))"
proof (cases "TenantConfig_Validate tenant")
  case (Some e)
  then have "err = Some e \<and> db' = db" using assms(2) unfolding PostgresStore_Put_def Some by simp
  then show thesis using refused by simp
next
  case None
  note valid = this
  show thesis
  proof (cases "versionForTenant T db (t_ID tenant)")
    case (Inl e)
    then show thesis using assms(2) valid refused by (auto simp: PostgresStore_Put_def)
  next
    case (Inr v)
    note version = this
    show thesis
    proof (cases "tc_Marshal cd (tenant\<lparr>t_Version := v + 1, t_UpdatedAt := now\<rparr>)")
      case (Inl e)
      then show thesis using assms(2) valid version refused by (auto simp: PostgresStore_Put_def)
    next
      case (Inr s)
      have "tq_Upsert T db (t_ID tenant, v + 1, now, s) = (err, db')" using assms(2) valid version Inr by (simp add: PostgresStore_Put_def Let_def)
      then have "err \<noteq> None \<and> table db' = table db \<or> table db' = (table db)(t_ID tenant \<mapsto> (v + 1, norm s))"
        using assms(1) by (cases err) (auto simp: tenant_sql_laws_def)
      then show thesis using valid version Inr refused stored by blast
    qed
  qed
qed

lemma get_row:
  assumes "tenant_sql_laws T norm table" and "table db i = Some (v, c)" and "tc_Unmarshal cd c = Inr t"
  shows "case PostgresStore_GetTenant T cd db i of Inr res \<Rightarrow> res = t | Inl e \<Rightarrow> tq_Config T db i = Inl e"
proof (cases "tq_Config T db i")
  case (Inr x)
  then have "x = map_option snd (table db i)" using assms(1) by (simp add: tenant_sql_laws_def)
  then show ?thesis using assms(2,3) Inr by (simp add: PostgresStore_GetTenant_def)
qed (simp add: PostgresStore_GetTenant_def)

lemma decode_tenants_from: "t \<in> set (decode_tenants cd rows) \<Longrightarrow> \<exists>s. Inr s \<in> set rows \<and> tc_Unmarshal cd s = Inr t"
  by (induction rows) (auto split: sum.splits)

lemma listed_row:
  assumes "tenant_sql_laws T norm table" and "t \<in> set (PostgresStore_List T cd db)"
  shows "\<exists>i v c. table db i = Some (v, c) \<and> tc_Unmarshal cd c = Inr t"
proof -
  obtain rows where r: "tq_Configs T db = Inr rows" "t \<in> set (decode_tenants cd rows)"
    using assms(2) by (cases "tq_Configs T db") (auto simp: PostgresStore_List_def)
  obtain s where "Inr s \<in> set rows" "tc_Unmarshal cd s = Inr t" using decode_tenants_from [OF r(2)] by blast
  moreover from this(1) have "\<exists>i v. table db i = Some (v, s)" using assms(1) r(1) unfolding tenant_sql_laws_def by blast
  ultimately show ?thesis by blast
qed

text \<open>
  C35. A tenant in PostgreSQL reads back as it was put: an accepted change is a valid configuration and stores it with the next version of this
  tenant and the time of the change; a change that returned an error either changed nothing or, when the database had committed it, stored
  exactly this row, and an invalid one changed nothing; no change touches another tenant; a read of the tenant after an accepted change returns this
  configuration or the error of the database; and every tenant a listing returns is the configuration of some row.
\<close>

theorem postgres_tenant_exact:
  assumes "tenant_sql_laws T norm table" and "\<forall>t s. tc_Marshal cd t = Inr s \<longrightarrow> tc_Unmarshal cd (norm s) = Inr t"
    and "PostgresStore_Put T cd now db tenant = (err, db')"
    and "new = tenant\<lparr>t_Version := (case table db (t_ID tenant) of None \<Rightarrow> 0 | Some (v, _) \<Rightarrow> v) + 1, t_UpdatedAt := now\<rparr>"
  shows "(err \<noteq> None \<and> table db' = table db \<or>
      TenantConfig_Validate tenant = None \<and> (\<exists>c. table db' (t_ID tenant) = Some (t_Version new, c) \<and> tc_Unmarshal cd c = Inr new)) \<and>
     (\<forall>i. i \<noteq> t_ID tenant \<longrightarrow> table db' i = table db i) \<and>
     (err = None \<longrightarrow> (case PostgresStore_GetTenant T cd db' (t_ID tenant) of Inr res \<Rightarrow> res = new | Inl e \<Rightarrow> tq_Config T db' (t_ID tenant) = Inl e)) \<and>
     (\<forall>t \<in> set (PostgresStore_List T cd db'). \<exists>i v c. table db' i = Some (v, c) \<and> tc_Unmarshal cd c = Inr t)"
proof -
  note rows = listed_row [OF assms(1), of _ cd db']
  from assms(1,3) show ?thesis
  proof (cases rule: put_row)
    case (refused e)
    then show ?thesis using rows by simp
  next
    case (stored v s)
    have v: "new = tenant\<lparr>t_Version := v + 1, t_UpdatedAt := now\<rparr>" using assms(4) stored_version [OF assms(1) stored(2)] by simp
    then have u: "tc_Unmarshal cd (norm s) = Inr new" using assms(2) stored(3) by blast
    have row: "table db' (t_ID tenant) = Some (t_Version new, norm s)" using stored(4) v by simp
    have "case PostgresStore_GetTenant T cd db' (t_ID tenant) of Inr res \<Rightarrow> res = new | Inl e \<Rightarrow> tq_Config T db' (t_ID tenant) = Inl e"
      by (rule get_row [OF assms(1) row u])
    moreover have "table db' i = table db i" if "i \<noteq> t_ID tenant" for i using stored(4) that by simp
    ultimately show ?thesis using stored(1) row u rows by blast
  qed
qed


text \<open>A prefix with an underscore lists keys that do not have it.\<close>

lemma like_wildcard: "sql_like (''seg_'' @ ''%'') ''segments/x'' \<and> \<not> starts_with ''segments/x'' ''seg_''"
  by code_simp

text \<open>Databases that are just their tables, for concrete runs.\<close>

definition table_sql :: "(string, int \<times> string) gomap tenant_sql" where
  "table_sql = \<lparr>tq_Open = (\<lambda>_. Inr []), tq_Ping = (\<lambda>_. None), tq_Migrate = (\<lambda>d. (None, d)), tq_Close = (\<lambda>_. None),
     tq_Upsert = (\<lambda>d (i, v, t, s). (None, AList.update i (v, s) d)), tq_Config = (\<lambda>d i. Inr (map_option snd (map_of d i))),
     tq_Version = (\<lambda>d i. Inr (map_option fst (map_of d i))), tq_Configs = (\<lambda>d. Inr (map (Inr \<circ> snd \<circ> snd) (AList.clearjunk d))),
     tq_IDs = (\<lambda>d. Inr (map (Inr \<circ> fst) d))\<rparr>"

definition stored_tenant :: tenant_config where
  "stored_tenant = (DefaultTenantConfig 3)\<lparr>t_Version := 5, t_UpdatedAt := 7\<rparr>"

definition one_tenant_codec :: tenant_codec where
  "one_tenant_codec = \<lparr>tc_Marshal = (\<lambda>t. if t = stored_tenant then Inr ''j'' else Inl (IOError ''json'')), tc_Unmarshal = (\<lambda>_. Inr stored_tenant)\<rparr>"

theorem postgres_tenant_exact_witness:
  "\<exists>db'. PostgresStore_Put table_sql one_tenant_codec 7 [(t_ID (DefaultTenantConfig 3), (4, ''old''))] (DefaultTenantConfig 3) = (None, db') \<and>
     PostgresStore_GetTenant table_sql one_tenant_codec db' (t_ID (DefaultTenantConfig 3)) = Inr stored_tenant"
proof -
  let ?t = "DefaultTenantConfig 3" and ?db = "[(t_ID (DefaultTenantConfig 3), (4, ''old''))]"
  have rows: "map_of d i = Some (v, s)" if "(i, v, s) \<in> set (AList.clearjunk d)" for d :: "(string, int \<times> string) gomap" and i v s
    using map_of_eq_Some_iff [OF distinct_clearjunk, of d] that by (auto simp: map_of_clearjunk)
  have laws: "tenant_sql_laws table_sql id map_of"
    using rows by (auto simp: tenant_sql_laws_def table_sql_def update_conv') blast
  have codec: "\<forall>t s. tc_Marshal one_tenant_codec t = Inr s \<longrightarrow> tc_Unmarshal one_tenant_codec (id s) = Inr t"
    by (simp add: one_tenant_codec_def)
  have valid: "TenantConfig_Validate ?t = None" using wf_NewStoreWithDefaults [of 3]
    by (simp add: wf_tenants_def NewStoreWithDefaults_def NewTenantStore_def Let_def)
  obtain db' where p: "PostgresStore_Put table_sql one_tenant_codec 7 ?db ?t = (None, db')"
    using valid by (simp add: PostgresStore_Put_def versionForTenant_def table_sql_def one_tenant_codec_def stored_tenant_def)
  have g: "PostgresStore_GetTenant table_sql one_tenant_codec db' (t_ID ?t) = Inr x \<Longrightarrow> x = stored_tenant" for x
    using postgres_tenant_exact [OF laws codec p refl] by (simp add: stored_tenant_def)
  have "\<exists>x. PostgresStore_GetTenant table_sql one_tenant_codec db' (t_ID ?t) = Inr x"
    using p valid by (auto simp: PostgresStore_GetTenant_def PostgresStore_Put_def versionForTenant_def table_sql_def one_tenant_codec_def stored_tenant_def)
  then show ?thesis using p g by auto
qed

text \<open>A table of manifests as a list, the newest row of a key first.\<close>

definition row_of :: "manifest list \<Rightarrow> string \<Rightarrow> manifest option" where
  "row_of d k = find (\<lambda>r. mr_Key r = k) d"

definition table_manifests :: "manifest list manifest_sql" where
  "table_manifests = \<lparr>mq_Open = (\<lambda>_. Inr []), mq_Ping = (\<lambda>_. None), mq_Migrate = (\<lambda>d. (None, d)), mq_Close = (\<lambda>_. None),
     mq_Upsert = (\<lambda>d r. (None, r # d)), mq_Select = (\<lambda>d k. Inr (row_of d k)),
     mq_List = (\<lambda>d p. Inr (map Inr (sort_key mr_Key (filter (\<lambda>r. row_of d (mr_Key r) = Some r \<and>
        (case p of None \<Rightarrow> True | Some prefx \<Rightarrow> sql_like (prefx @ ''%'') (mr_Key r))) d)), None)),
     mq_Delete = (\<lambda>d k. (None, filter (\<lambda>r. mr_Key r \<noteq> k) d))\<rparr>"

lemma row_of_key: "row_of d k = Some r \<Longrightarrow> r \<in> set d \<and> mr_Key r = k"
  by (auto simp: row_of_def find_Some_iff)

lemma row_of_filter: "row_of (filter (\<lambda>r. mr_Key r \<noteq> k) d) = (row_of d)(k := None)"
  by (induction d) (auto simp: row_of_def fun_eq_iff)

lemma table_manifests_laws: "manifest_sql_laws table_manifests id row_of"
proof -
  have "row_of (r # d) = (row_of d)(mr_Key r \<mapsto> r)" for r d by (auto simp: row_of_def fun_eq_iff)
  then show ?thesis
    by (auto simp: manifest_sql_laws_def table_manifests_def stored_row_def row_of_filter dest: row_of_key)
qed

definition one_manifest :: manifest where
  "one_manifest = \<lparr>mr_Key = ''segments/a'', mr_PartitionKey = ''a'', mr_Start = 1, mr_End = 2, mr_Checksum = ''c'', mr_Payload = ''p'', mr_CreatedAt = 3\<rparr>"


end
