(* ===== verification/Authn.thy ===== *)
theory Authn
  imports Service_Http Go_Base64 "HOL-Library.Word"
begin

text \<open>
  Package \<open>internal/platform/authn\<close>: the static bearer token, and OpenID Connect with a key set fetched on demand. The token
  library (\<open>golang-jwt\<close>) is a pair of parameters: \<open>jw_header\<close> reads the algorithm and the key id of a token, \<open>jw_verify\<close>
  checks signature and validity and gives the claims; \<open>ParseWithClaims\<close> calls \<open>keyFunc\<close> between the two. Fetching the key set and decoding its JSON are
  parameters too. An exponent is a 64-bit word, since \<open>rsaPublicKey\<close> shifts without a check.
\<close>

section \<open>Data\<close>

record principal =
  pr_Subject :: string
  pr_Scopes :: "string list"

definition zero_principal :: principal where
  "zero_principal = \<lparr>pr_Subject = [], pr_Scopes = []\<rparr>"

record rsa_key =
  rk_N :: nat
  rk_E :: int

text \<open>A claim of any JSON type: absent or of another type, a string, strings, or a list some of whose items are strings.\<close>

datatype scope_claim =
    ScopeOther
  | ScopeString string
  | ScopeStrings "string list"
  | ScopeAny "string option list"

record oidc_claims =
  cl_Issuer :: string
  cl_Subject :: string
  cl_Audience :: "string list"
  cl_Scope :: scope_claim
  cl_Scp :: scope_claim

record jwk =
  jwk_Kid :: string
  jwk_Kty :: string
  jwk_N :: string
  jwk_E :: string

record oidc_config =
  oc_IssuerURL :: string
  oc_JWKSURL :: string
  oc_Audience :: string
  oc_ScopesClaim :: string

record oidc_authenticator =
  oa_cfg :: oidc_config
  oa_keys :: "(string, rsa_key) gomap"

record auth_env =
  jw_upper :: "string \<Rightarrow> string"
  jw_header :: "string \<Rightarrow> (string \<times> string) result"
  jw_verify :: "rsa_key \<Rightarrow> string \<Rightarrow> oidc_claims result"
  jw_fetch :: "string \<Rightarrow> (nat \<times> string \<times> string) result"
  jw_decode :: "string \<Rightarrow> jwk list result"

datatype authenticator =
    StaticTokenAuthenticator string
  | OIDCAuthenticator oidc_authenticator

section \<open>Scopes and bearer tokens\<close>

definition scope_separator :: "char \<Rightarrow> bool" where
  "scope_separator c \<longleftrightarrow> c = CHR '','' \<or> c = CHR '' '' \<or> c = CHR 0x09"

text \<open>Adding one scope to the list collected so far, which also serves as the set of scopes seen.\<close>

definition add_scope :: "string \<Rightarrow> string list \<Rightarrow> string list" where
  "add_scope scope scopes = (let scope = TrimSpace scope in if scope = [] \<or> scope \<in> set scopes then scopes else scopes @ [scope])"

definition splitScopes :: "string list \<Rightarrow> string list" where
  "splitScopes values = fold (\<lambda>value. fold add_scope (FieldsFunc scope_separator value)) values []"

definition bearer_token :: "http_request \<Rightarrow> string option" where
  "bearer_token r = (let header = TrimSpace (Header_Get r ''Authorization'') in
     if header = [] then None else if starts_with header ''Bearer '' then Some (drop (length ''Bearer '') header) else None)"

definition NewStaticTokenAuthenticator :: "string \<Rightarrow> authenticator" where
  "NewStaticTokenAuthenticator token = StaticTokenAuthenticator (TrimSpace token)"

definition Static_Authenticate :: "string \<Rightarrow> http_request \<Rightarrow> principal result" where
  "Static_Authenticate token r =
     (if token = [] then Inl ErrUnauthorized else
      case bearer_token r of None \<Rightarrow> Inl ErrUnauthorized | Some t \<Rightarrow>
      if t \<noteq> token then Inl ErrUnauthorized
      else Inr \<lparr>pr_Subject = ''static-token'', pr_Scopes = splitScopes (Header_Values r ''X-Scopes'')\<rparr>)"

section \<open>OpenID Connect\<close>

definition NewOIDCAuthenticator :: "oidc_config \<Rightarrow> oidc_authenticator result" where
  "NewOIDCAuthenticator cfg =
     (let cfg = cfg\<lparr>oc_IssuerURL := TrimSpace (oc_IssuerURL cfg), oc_JWKSURL := TrimSpace (oc_JWKSURL cfg), oc_Audience := TrimSpace (oc_Audience cfg)\<rparr> in
      if oc_IssuerURL cfg = [] \<or> oc_JWKSURL cfg = [] then Inl (Errorf ''issuer url and jwks url are required'' [])
      else let cfg = (if oc_ScopesClaim cfg = [] then cfg\<lparr>oc_ScopesClaim := ''scope''\<rparr> else cfg)
           in Inr \<lparr>oa_cfg = cfg, oa_keys = []\<rparr>)"

definition exponent :: "string \<Rightarrow> 64 word" where
  "exponent bytes = foldl (\<lambda>e b. push_bit 8 e + of_int (byte_val b)) 0 bytes"

definition big_endian :: "string \<Rightarrow> nat" where
  "big_endian bytes = foldl (\<lambda>n b. 256 * n + nat (byte_val b)) 0 bytes"

definition rsaPublicKey :: "string \<Rightarrow> string \<Rightarrow> rsa_key result" where
  "rsaPublicKey nValue eValue =
     (case RawURL_DecodeString nValue of None \<Rightarrow> Inl (Errorf ''illegal base64 data'' []) | Some nBytes \<Rightarrow>
      case RawURL_DecodeString eValue of None \<Rightarrow> Inl (Errorf ''illegal base64 data'' []) | Some eBytes \<Rightarrow>
      if length eBytes = 0 then Inl (Errorf ''empty exponent'' [])
      else Inr \<lparr>rk_N = big_endian nBytes, rk_E = sint (exponent eBytes)\<rparr>)"

text \<open>\<open>strings.ToUpper\<close>, with the Unicode case tables beyond ASCII as the parameter.\<close>

definition ToUpper :: "(string \<Rightarrow> string) \<Rightarrow> string \<Rightarrow> string" where
  "ToUpper uni s = (if list_all is_ascii s then map (\<lambda>c. if 97 \<le> byte_val c \<and> byte_val c \<le> 122 then char_of (byte_val c - 32) else c) s else uni s)"

definition add_key :: "auth_env \<Rightarrow> jwk \<Rightarrow> (string, rsa_key) gomap \<Rightarrow> (string, rsa_key) gomap" where
  "add_key env key next =
     (if jwk_Kid key = [] \<or> ToUpper (jw_upper env) (jwk_Kty key) \<noteq> ''RSA'' then next
      else case rsaPublicKey (jwk_N key) (jwk_E key) of Inl _ \<Rightarrow> next | Inr pub \<Rightarrow> AList.update (jwk_Kid key) pub next)"

definition refreshKeys :: "auth_env \<Rightarrow> oidc_authenticator \<Rightarrow> goerror option \<times> oidc_authenticator" where
  "refreshKeys env a =
     (case jw_fetch env (oc_JWKSURL (oa_cfg a)) of Inl err \<Rightarrow> (Some err, a) | Inr (code, status, body) \<Rightarrow>
      if 400 \<le> code then (Some (Errorf ''jwks fetch failed: %s: %s'' [status, TrimSpace (take 4096 body)]), a)
      else case jw_decode env body of Inl err \<Rightarrow> (Some err, a) | Inr doc \<Rightarrow>
      let next = fold (add_key env) doc [] in
      if next = [] then (Some (Errorf ''jwks contained no usable rsa keys'' []), a)
      else (None, a\<lparr>oa_keys := next\<rparr>))"

definition keyFunc :: "auth_env \<Rightarrow> oidc_authenticator \<Rightarrow> string \<Rightarrow> rsa_key result \<times> oidc_authenticator" where
  "keyFunc env a kid =
     (if kid = [] then (Inl ErrUnauthorized, a) else
      case map_of (oa_keys a) kid of Some key \<Rightarrow> (Inr key, a) | None \<Rightarrow>
      case refreshKeys env a of (Some err, a) \<Rightarrow> (Inl err, a) | (None, a) \<Rightarrow>
      case map_of (oa_keys a) kid of Some key \<Rightarrow> (Inr key, a) | None \<Rightarrow> (Inl ErrUnauthorized, a))"

text \<open>\<open>jwt.ParseWithClaims\<close> with the method RS256 only.\<close>

definition parse_with_claims :: "auth_env \<Rightarrow> oidc_authenticator \<Rightarrow> string \<Rightarrow> oidc_claims result \<times> oidc_authenticator" where
  "parse_with_claims env a token =
     (case jw_header env token of Inl err \<Rightarrow> (Inl err, a) | Inr (alg, kid) \<Rightarrow>
      if alg \<noteq> ''RS256'' then (Inl (Errorf ''signing method is invalid'' []), a)
      else case keyFunc env a kid of (Inl err, a) \<Rightarrow> (Inl err, a) | (Inr key, a) \<Rightarrow> (jw_verify env key token, a))"

definition extractScopes :: "oidc_claims \<Rightarrow> string \<Rightarrow> string list" where
  "extractScopes claims claimName =
     (case (if claimName = ''scp'' then cl_Scp claims else cl_Scope claims) of
        ScopeString value \<Rightarrow> splitScopes [value]
      | ScopeStrings value \<Rightarrow> splitScopes value
      | ScopeAny value \<Rightarrow> splitScopes (List.map_filter id value)
      | ScopeOther \<Rightarrow> [])"

definition OIDC_Authenticate :: "auth_env \<Rightarrow> oidc_authenticator \<Rightarrow> http_request \<Rightarrow> principal result \<times> oidc_authenticator" where
  "OIDC_Authenticate env a r =
     (case bearer_token r of None \<Rightarrow> (Inl ErrUnauthorized, a) | Some token \<Rightarrow>
      case parse_with_claims env a token of (Inl _, a) \<Rightarrow> (Inl ErrUnauthorized, a) | (Inr claims, a) \<Rightarrow>
      if cl_Issuer claims \<noteq> oc_IssuerURL (oa_cfg a) then (Inl ErrUnauthorized, a)
      else if oc_Audience (oa_cfg a) \<noteq> [] \<and> \<not> list_ex (\<lambda>aud. aud = oc_Audience (oa_cfg a)) (cl_Audience claims) then (Inl ErrUnauthorized, a)
      else (Inr \<lparr>pr_Subject = cl_Subject claims, pr_Scopes = extractScopes claims (oc_ScopesClaim (oa_cfg a))\<rparr>, a))"

definition Authenticate :: "auth_env \<Rightarrow> authenticator \<Rightarrow> http_request \<Rightarrow> principal result \<times> authenticator" where
  "Authenticate env a r =
     (case a of StaticTokenAuthenticator token \<Rightarrow> (Static_Authenticate token r, a)
      | OIDCAuthenticator oa \<Rightarrow> apsnd OIDCAuthenticator (OIDC_Authenticate env oa r))"

section \<open>What authentication guarantees\<close>

text \<open>
  A key is published when the document at the address of the key set names it: an RSA key under that id.
\<close>

definition published :: "auth_env \<Rightarrow> string \<Rightarrow> string \<Rightarrow> rsa_key \<Rightarrow> bool" where
  "published env url kid key \<longleftrightarrow> kid \<noteq> [] \<and> (\<exists>code status body doc. jw_fetch env url = Inr (code, status, body) \<and> code < 400 \<and> jw_decode env body = Inr doc \<and>
     (\<exists>k \<in> set doc. jwk_Kid k = kid \<and> ToUpper (jw_upper env) (jwk_Kty k) = ''RSA'' \<and> rsaPublicKey (jwk_N k) (jwk_E k) = Inr key))"

text \<open>
  What a request must present to be authenticated, and who it is then: with a static token that token, and the scopes the
  client names in the header \<open>X-Scopes\<close>; with OpenID Connect a token signed with the published key its header names, for the
  issuer and the audience, and the subject and scopes of its claims.
\<close>

definition credentials :: "auth_env \<Rightarrow> authenticator \<Rightarrow> http_request \<Rightarrow> principal \<Rightarrow> bool" where
  "credentials env a r p \<longleftrightarrow> (\<exists>token. bearer_token r = Some token \<and>
     (case a of
        StaticTokenAuthenticator t \<Rightarrow> token = t \<and> t \<noteq> [] \<and> p = \<lparr>pr_Subject = ''static-token'', pr_Scopes = splitScopes (Header_Values r ''X-Scopes'')\<rparr>
      | OIDCAuthenticator oa \<Rightarrow> (\<exists>kid key claims. jw_header env token = Inr (''RS256'', kid) \<and> published env (oc_JWKSURL (oa_cfg oa)) kid key \<and>
          jw_verify env key token = Inr claims \<and> cl_Issuer claims = oc_IssuerURL (oa_cfg oa) \<and>
          (oc_Audience (oa_cfg oa) = [] \<or> oc_Audience (oa_cfg oa) \<in> set (cl_Audience claims)) \<and>
          p = \<lparr>pr_Subject = cl_Subject claims, pr_Scopes = extractScopes claims (oc_ScopesClaim (oa_cfg oa))\<rparr>)))"

text \<open>The keys an authenticator holds are published ones.\<close>

definition keys_published :: "auth_env \<Rightarrow> oidc_authenticator \<Rightarrow> bool" where
  "keys_published env oa \<longleftrightarrow> (\<forall>kid key. map_of (oa_keys oa) kid = Some key \<longrightarrow> published env (oc_JWKSURL (oa_cfg oa)) kid key)"

lemma fold_add_key:
  assumes "map_of (fold (add_key env) doc next) kid = Some key"
  shows "map_of next kid = Some key \<or> kid \<noteq> [] \<and> (\<exists>k \<in> set doc. jwk_Kid k = kid \<and> ToUpper (jw_upper env) (jwk_Kty k) = ''RSA'' \<and> rsaPublicKey (jwk_N k) (jwk_E k) = Inr key)"
  using assms
proof (induction doc arbitrary: "next")
  case (Cons k doc)
  have "map_of (add_key env k next) kid = Some key \<Longrightarrow> map_of next kid = Some key \<or>
      kid \<noteq> [] \<and> jwk_Kid k = kid \<and> ToUpper (jw_upper env) (jwk_Kty k) = ''RSA'' \<and> rsaPublicKey (jwk_N k) (jwk_E k) = Inr key"
    by (auto simp: add_key_def update_conv' split: if_splits sum.splits)
  moreover have "map_of (fold (add_key env) doc (add_key env k next)) kid = Some key" using Cons.prems by simp
  ultimately show ?case using Cons.IH [of "add_key env k next"] by (metis list.set_intros)
qed simp

lemma refreshKeys_published:
  assumes "keys_published env a" and "refreshKeys env a = (err, a')"
  shows "keys_published env a'"
proof (cases err)
  case None
  then obtain code status body doc where d: "jw_fetch env (oc_JWKSURL (oa_cfg a)) = Inr (code, status, body)" "code < 400" "jw_decode env body = Inr doc"
      "a' = a\<lparr>oa_keys := fold (add_key env) doc []\<rparr>"
    using assms(2) by (auto simp: refreshKeys_def Let_def split: sum.splits prod.splits if_splits)
  show ?thesis unfolding keys_published_def published_def
  proof (intro allI impI)
    fix kid key assume "map_of (oa_keys a') kid = Some key"
    then have "kid \<noteq> [] \<and> (\<exists>k \<in> set doc. jwk_Kid k = kid \<and> ToUpper (jw_upper env) (jwk_Kty k) = ''RSA'' \<and> rsaPublicKey (jwk_N k) (jwk_E k) = Inr key)"
      using fold_add_key [of env doc "[]"] by (auto simp: d(4))
    then show "kid \<noteq> [] \<and> (\<exists>code status body doc. jw_fetch env (oc_JWKSURL (oa_cfg a')) = Inr (code, status, body) \<and> code < 400 \<and> jw_decode env body = Inr doc \<and>
        (\<exists>k \<in> set doc. jwk_Kid k = kid \<and> ToUpper (jw_upper env) (jwk_Kty k) = ''RSA'' \<and> rsaPublicKey (jwk_N k) (jwk_E k) = Inr key))"
      using d by auto
  qed
next
  case (Some e)
  then show ?thesis using assms by (auto simp: refreshKeys_def Let_def split: sum.splits prod.splits if_splits)
qed

lemma refreshKeys_cfg: "oa_cfg (snd (refreshKeys env a)) = oa_cfg a"
  by (simp add: refreshKeys_def Let_def split: sum.split prod.split)

lemma keyFunc_cfg: "oa_cfg (snd (keyFunc env a kid)) = oa_cfg a"
  using refreshKeys_cfg [of env a] by (auto simp: keyFunc_def split: option.split prod.split)

lemma parse_cfg: "parse_with_claims env a token = (res, a') \<Longrightarrow> oa_cfg a' = oa_cfg a"
  using keyFunc_cfg [of env a] by (auto simp: parse_with_claims_def split: sum.splits prod.splits if_splits) (metis snd_conv)+

lemma keyFunc_published:
  assumes "keys_published env a" and "keyFunc env a kid = (res, a')"
  shows "keys_published env a'" and "res = Inr key \<Longrightarrow> published env (oc_JWKSURL (oa_cfg a)) kid key"
proof -
  have r: "keys_published env a1" "oa_cfg a1 = oa_cfg a" if "refreshKeys env a = (err, a1)" for err a1
    using refreshKeys_published [OF assms(1) that] refreshKeys_cfg [of env a] that by simp_all
  show "keys_published env a'"
    using assms by (auto simp: keyFunc_def dest: r(1) split: if_splits option.splits prod.splits)
  show "res = Inr key \<Longrightarrow> published env (oc_JWKSURL (oa_cfg a)) kid key"
  proof -
    assume res: "res = Inr key"
    show "published env (oc_JWKSURL (oa_cfg a)) kid key"
    proof (cases "map_of (oa_keys a) kid")
      case None
      then obtain a1 where "refreshKeys env a = (None, a1)" "map_of (oa_keys a1) kid = Some key"
        using assms(2) res by (auto simp: keyFunc_def split: if_splits option.splits prod.splits)
      then show ?thesis using r [of None a1] unfolding keys_published_def by metis
    next
      case (Some k)
      then have "k = key" using assms(2) res by (auto simp: keyFunc_def split: if_splits)
      then show ?thesis using Some assms(1) unfolding keys_published_def by blast
    qed
  qed
qed

lemma parse_published:
  assumes "keys_published env a" and "parse_with_claims env a token = (res, a')"
  shows "keys_published env a'"
    and "res = Inr claims \<Longrightarrow> \<exists>kid key. jw_header env token = Inr (''RS256'', kid) \<and> published env (oc_JWKSURL (oa_cfg a)) kid key \<and> jw_verify env key token = Inr claims"
proof -
  show "keys_published env a'"
    using assms by (auto simp: parse_with_claims_def split: sum.splits prod.splits if_splits dest: keyFunc_published(1) [OF assms(1)])
  show "\<exists>kid key. jw_header env token = Inr (''RS256'', kid) \<and> published env (oc_JWKSURL (oa_cfg a)) kid key \<and> jw_verify env key token = Inr claims"
    if ok: "res = Inr claims"
  proof -
    obtain kid key a1 where k: "jw_header env token = Inr (''RS256'', kid)" "keyFunc env a kid = (Inr key, a1)" "jw_verify env key token = Inr claims"
      using assms(2) ok by (auto simp: parse_with_claims_def split: sum.splits prod.splits if_splits)
    then show ?thesis using keyFunc_published(2) [OF assms(1) k(2) refl] by blast
  qed
qed

text \<open>The keys of an authenticator of either kind.\<close>

definition holds_published :: "auth_env \<Rightarrow> authenticator \<Rightarrow> bool" where
  "holds_published env a \<longleftrightarrow> (case a of StaticTokenAuthenticator _ \<Rightarrow> True | OIDCAuthenticator oa \<Rightarrow> keys_published env oa)"

lemma Authenticate_published: "holds_published env a \<Longrightarrow> holds_published env (snd (Authenticate env a r))"
  by (auto simp: holds_published_def Authenticate_def OIDC_Authenticate_def split: authenticator.splits option.splits sum.splits prod.splits dest: parse_published(1))

lemma authenticated:
  assumes "Authenticate env a r = (Inr p, a')" and "holds_published env a"
  shows "credentials env a r p"
proof (cases a)
  case (StaticTokenAuthenticator t)
  then show ?thesis
    using assms(1) by (auto simp: Authenticate_def Static_Authenticate_def credentials_def split: if_splits option.splits)
next
  case (OIDCAuthenticator oa)
  then have k: "keys_published env oa" using assms(2) by (simp add: holds_published_def)
  obtain token claims oa' where t: "bearer_token r = Some token" "parse_with_claims env oa token = (Inr claims, oa')"
      "cl_Issuer claims = oc_IssuerURL (oa_cfg oa')" "oc_Audience (oa_cfg oa') = [] \<or> oc_Audience (oa_cfg oa') \<in> set (cl_Audience claims)"
      "p = \<lparr>pr_Subject = cl_Subject claims, pr_Scopes = extractScopes claims (oc_ScopesClaim (oa_cfg oa'))\<rparr>"
    using assms(1) OIDCAuthenticator
    by (auto simp: Authenticate_def OIDC_Authenticate_def list_ex_iff apsnd_def map_prod_def split: if_splits option.splits prod.splits sum.splits)
  then show ?thesis
    using parse_published(2) [OF k t(2) refl] parse_cfg [OF t(2)] OIDCAuthenticator by (auto simp: credentials_def)
qed

text \<open>Keys come from the key set of the configured issuer, and no empty set replaces one that was fetched.\<close>

lemma refresh_keeps_keys:
  assumes "oa_keys a \<noteq> []"
  shows "oa_keys (snd (refreshKeys env a)) \<noteq> []"
  using assms by (simp add: refreshKeys_def Let_def split: sum.split prod.split)

text \<open>An exponent of more than eight bytes wraps around to a key that was never published.\<close>

lemma exponent_wraps:
  "rsaPublicKey ''AQ'' ''AQAAAAAAAAAD'' = Inr \<lparr>rk_N = 1, rk_E = 3\<rparr>"
  by code_simp

lemma add_scope_distinct: "distinct scopes \<Longrightarrow> distinct (add_scope s scopes)"
  by (simp add: add_scope_def Let_def)

lemma fold_add_scope_distinct: "distinct scopes \<Longrightarrow> distinct (fold add_scope fs scopes)"
  by (induction fs arbitrary: scopes) (simp_all add: add_scope_distinct)

lemma splitScopes_distinct: "distinct (splitScopes values)"
proof -
  have "distinct scopes \<Longrightarrow> distinct (fold (\<lambda>value. fold add_scope (FieldsFunc scope_separator value)) values scopes)" for scopes
    by (induction "values" arbitrary: scopes) (simp_all add: fold_add_scope_distinct)
  then show ?thesis by (simp add: splitScopes_def)
qed

end
