(* ===== verification/Go_Duration.thy ===== *)
theory Go_Duration
  imports Complex_Main Go_Format Go_Parse
begin

text \<open>
  Reading durations: \<open>time.ParseDuration\<close>. Its sums are kept in a \<open>uint64\<close>; the part after a decimal point is computed in
  floating point, whose rounding \<open>fl\<close> is a parameter. \<open>None\<close> is an error.
\<close>

section \<open>Operations\<close>

fun leadingInt :: "nat \<Rightarrow> string \<Rightarrow> (nat \<times> string) option" where
  "leadingInt x [] = Some (x, [])"
| "leadingInt x (c # s) =
     (if \<not> is_digit c then Some (x, c # s)
      else if 2 ^ 63 div 10 < x then None
      else let x = 10 * x + digit_val c in if 2 ^ 63 < x then None else leadingInt x s)"

text \<open>The digits after the point and the power of ten they are to be divided by; digits that do not fit are skipped.\<close>

fun leadingFraction :: "bool \<Rightarrow> nat \<Rightarrow> nat \<Rightarrow> string \<Rightarrow> nat \<times> nat \<times> string" where
  "leadingFraction overflow x scale [] = (x, scale, [])"
| "leadingFraction overflow x scale (c # s) =
     (if \<not> is_digit c then (x, scale, c # s)
      else if overflow then leadingFraction True x scale s
      else if (2 ^ 63 - 1) div 10 < x then leadingFraction True x scale s
      else let y = 10 * x + digit_val c in
        if 2 ^ 63 < y then leadingFraction True x scale s else leadingFraction False y (10 * scale) s)"

definition unitMap :: "string \<Rightarrow> nat option" where
  "unitMap u = map_of [(''ns'', 1), (''us'', 1000), ([CHR 0xC2, CHR 0xB5, CHR ''s''], 1000), ([CHR 0xCE, CHR 0xBC, CHR ''s''], 1000),
     (''ms'', 1000000), (''s'', 1000000000), (''m'', 60000000000), (''h'', 3600000000000)] u"

definition number_char :: "char \<Rightarrow> bool" where
  "number_char c \<longleftrightarrow> c = CHR ''.'' \<or> is_digit c"

text \<open>The text after an optional fraction, with the fraction and whether it had digits.\<close>

definition read_point :: "string \<Rightarrow> nat \<times> nat \<times> bool \<times> string" where
  "read_point s = (case s of c # r \<Rightarrow>
       (if c = CHR ''.'' then (case leadingFraction False 0 1 r of (f, scale, rest) \<Rightarrow> (f, scale, length r \<noteq> length rest, rest))
        else (0, 1, False, s))
     | [] \<Rightarrow> (0, 1, False, s))"

text \<open>One number with its unit.\<close>

definition duration_item :: "(rat \<Rightarrow> rat) \<Rightarrow> string \<Rightarrow> (nat \<times> string) option" where
  "duration_item fl s =
     (if s = [] \<or> \<not> number_char (hd s) then None else
      case leadingInt 0 s of None \<Rightarrow> None | Some (v, s1) \<Rightarrow>
      case read_point s1 of (f, scale, post, s2) \<Rightarrow>
      if length s = length s1 \<and> \<not> post then None else
      let u = takeWhile (\<lambda>c. \<not> number_char c) s2; rest = dropWhile (\<lambda>c. \<not> number_char c) s2 in
      if u = [] then None else
      case unitMap u of None \<Rightarrow> None | Some unit \<Rightarrow>
      if 2 ^ 63 div unit < v then None else
      let v = v * unit;
          v = (if 0 < f then v + nat \<lfloor>fl (fl (of_nat f) * fl (of_nat unit / of_nat scale))\<rfloor> else v)
      in if 0 < f \<and> 2 ^ 63 < v then None else Some (v, rest))"

lemma leadingInt_rest: "leadingInt x s = Some (v, r) \<Longrightarrow> length r \<le> length s"
  by (induction x s rule: leadingInt.induct) (auto simp: Let_def split: if_splits)

lemma leadingFraction_rest: "leadingFraction o' x sc s = (f, sc', r) \<Longrightarrow> length r \<le> length s"
  by (induction o' x sc s rule: leadingFraction.induct) (auto simp: Let_def split: if_splits)

lemma read_point_rest: "read_point s = (f, sc, p, r) \<Longrightarrow> length r \<le> length s"
  by (auto simp: read_point_def split: list.splits if_splits prod.splits dest!: leadingFraction_rest)

lemma duration_item_shorter:
  assumes "duration_item fl s = Some (v, rest)"
  shows "length rest < length s"
proof -
  obtain v0 s1 f scale post s2 where i: "leadingInt 0 s = Some (v0, s1)" "read_point s1 = (f, scale, post, s2)"
      "takeWhile (\<lambda>c. \<not> number_char c) s2 \<noteq> []" "rest = dropWhile (\<lambda>c. \<not> number_char c) s2"
    using assms by (auto simp: duration_item_def Let_def split: if_splits option.splits prod.splits)
  have "length rest < length s2"
    using i(3,4) by (metis add_less_cancel_right add_0 length_append length_greater_0_conv takeWhile_dropWhile_id)
  then show ?thesis using leadingInt_rest [OF i(1)] read_point_rest [OF i(2)] by linarith
qed

function duration_loop :: "(rat \<Rightarrow> rat) \<Rightarrow> nat \<Rightarrow> string \<Rightarrow> nat option" where
  "duration_loop fl d s =
     (if s = [] then Some d else
      case duration_item fl s of None \<Rightarrow> None
      | Some (v, rest) \<Rightarrow> let d = (d + v) mod 2 ^ 64 in if 2 ^ 63 < d then None else duration_loop fl d rest)"
  by pat_completeness auto
termination
  by (relation "measure (\<lambda>(fl, d, s). length s)") (auto dest: duration_item_shorter)

declare duration_loop.simps [simp del]

definition ParseDuration :: "(rat \<Rightarrow> rat) \<Rightarrow> string \<Rightarrow> duration option" where
  "ParseDuration fl s =
     (let neg = starts_with s ''-'';
          s = (if neg \<or> starts_with s ''+'' then drop 1 s else s) in
      if s = ''0'' then Some 0
      else if s = [] then None
      else case duration_loop fl 0 s of None \<Rightarrow> None
      | Some d \<Rightarrow> if neg then Some (- int d) else if 2 ^ 63 - 1 < d then None else Some (int d))"

section \<open>Bounds and round trips\<close>

lemma duration_loop_bound: "duration_loop fl d s = Some e \<Longrightarrow> d \<le> 2 ^ 63 \<Longrightarrow> e \<le> 2 ^ 63"
proof (induction fl d s rule: duration_loop.induct)
  case (1 fl d s)
  show ?case
  proof (cases "s = []")
    case True
    then show ?thesis using "1.prems" by (simp add: duration_loop.simps [of fl d "[]"])
  next
    case False
    obtain v r where i: "duration_item fl s = Some (v, r)" "\<not> 2 ^ 63 < (d + v) mod 2 ^ 64" "duration_loop fl ((d + v) mod 2 ^ 64) r = Some e"
      using "1.prems"(1) False by (auto simp: duration_loop.simps [of fl d s] Let_def split: option.splits if_splits)
    then show ?thesis using "1.IH" [OF False i(1) refl refl i(2,3)] by simp
  qed
qed

lemma ParseDuration_range: "ParseDuration fl s = Some d \<Longrightarrow> min_int64 \<le> d \<and> d \<le> max_int64"
  using duration_loop_bound
  by (fastforce simp: ParseDuration_def Let_def min_int64_def max_int64_def split: if_splits option.splits)

lemma leadingInt_digits:
  assumes "list_all is_digit ds" and "foldl (\<lambda>a c. 10 * a + digit_val c) x ds \<le> 2 ^ 63" and "r = [] \<or> \<not> is_digit (hd r)"
  shows "leadingInt x (ds @ r) = Some (foldl (\<lambda>a c. 10 * a + digit_val c) x ds, r)"
  using assms
proof (induction ds arbitrary: x)
  case Nil
  then show ?case by (cases r) auto
next
  case (Cons c ds)
  let ?x = "10 * x + digit_val c"
  have mono: "y \<le> foldl (\<lambda>a c. 10 * a + digit_val c) y ds" for y
  proof (induction ds arbitrary: y)
    case (Cons d ds)
    have "y \<le> 10 * y + digit_val d" by simp
    then show ?case using Cons.IH [of "10 * y + digit_val d"] by (simp del: add_leE)
  qed simp
  have x: "?x \<le> 2 ^ 63" using Cons.prems(2) mono [of ?x] by simp
  then have "\<not> 2 ^ 63 div 10 < x" by simp
  then show ?case using Cons x by (simp add: Let_def)
qed

lemma leadingInt_show: "n \<le> 2 ^ 63 \<Longrightarrow> r = [] \<or> \<not> is_digit (hd r) \<Longrightarrow> leadingInt 0 (show_nat n @ r) = Some (n, r)"
  using leadingInt_digits [of "show_nat n" 0 r] show_nat_digits [of n] by (simp add: digits_val_def)

lemma item_show:
  assumes "unitMap [u] = Some unit" and "u \<noteq> CHR ''.''" "\<not> is_digit u" and "n * unit \<le> 2 ^ 63" and "0 < unit" and "r = [] \<or> number_char (hd r)"
  shows "duration_item fl (show_nat n @ u # r) = Some (n * unit, r)"
proof -
  obtain c cs where s: "show_nat n = c # cs" "is_digit c" using show_nat_digits [of n] by (cases "show_nat n") auto
  have "n \<le> n * unit" using assms(5) by simp
  then have n: "n \<le> 2 ^ 63" using assms(4) by linarith
  have i: "leadingInt 0 (show_nat n @ u # r) = Some (n, u # r)" using leadingInt_show [OF n, of "u # r"] assms(3) by simp
  have p: "read_point (u # r) = (0, 1, False, u # r)" using assms(2) by (simp add: read_point_def)
  have nu: "\<not> number_char u" using assms(2,3) by (simp add: number_char_def)
  have t: "takeWhile (\<lambda>c. \<not> number_char c) (u # r) = [u]" "dropWhile (\<lambda>c. \<not> number_char c) (u # r) = r"
    using nu assms(6) by (cases r; simp)+
  have "n \<le> 2 ^ 63 div unit" using assms(4,5) by (simp add: less_eq_div_iff_mult_less_eq)
  then show ?thesis using i p t assms(1) s by (simp add: duration_item_def number_char_def Let_def)
qed

lemma unit_chars:
  "unitMap ''h'' = Some 3600000000000" "unitMap ''m'' = Some 60000000000" "unitMap ''s'' = Some 1000000000"
  by (simp_all add: unitMap_def)

lemma loop_item:
  assumes "duration_item fl s = Some (v, r)" and "d + v \<le> 2 ^ 63"
  shows "duration_loop fl d s = duration_loop fl (d + v) r"
proof -
  have "s \<noteq> []" using duration_item_shorter [OF assms(1)] by auto
  moreover have "(d + v) mod 2 ^ 64 = d + v" using assms(2) by (intro mod_less) simp
  ultimately show ?thesis using assms by (simp add: duration_loop.simps [of fl d s] Let_def)
qed

lemma loop_unit:
  assumes "unitMap [u] = Some unit" and "u \<in> {CHR ''h'', CHR ''m'', CHR ''s''}" and "0 < unit" and "d + n * unit \<le> 2 ^ 63" and "r = [] \<or> number_char (hd r)"
  shows "duration_loop fl d (show_nat n @ u # r) = duration_loop fl (d + n * unit) r"
proof -
  have "\<not> is_digit u" "u \<noteq> CHR ''.''" using assms(2) by (auto simp: is_digit_def byte_val_def)
  then have "duration_item fl (show_nat n @ u # r) = Some (n * unit, r)" using item_show [of u unit n r fl] assms by simp
  then show ?thesis using loop_item assms(4) by blast
qed

lemma show_nat_number: "number_char (hd (show_nat n @ r))"
  using show_nat_digits [of n] by (cases "show_nat n") (auto simp: number_char_def)

lemma ParseDuration_String:
  assumes "0 \<le> n" and "n * second \<le> max_int64"
  shows "ParseDuration fl (Duration_String (n * second)) = Some (n * second)"
proof (cases "n = 0")
  case True
  have "show_nat 0 = ''0''" by code_simp
  then have "duration_loop fl 0 ''0s'' = Some 0"
    using loop_unit [OF unit_chars(3), of 0 0 "[]" fl] by (simp add: duration_loop.simps [of _ _ "[]"])
  then have "ParseDuration fl ''0s'' = Some 0" by (simp add: ParseDuration_def starts_with_def)
  then show ?thesis using True by (simp add: Duration_String_def)
next
  case False
  define secs where "secs = nat n"
  define h where "h = secs div 3600"
  define m where "m = secs div 60 mod 60"
  let ?hs = "if 0 < h then show_nat h @ ''h'' else []" and ?ms = "if 0 < secs div 60 then show_nat m @ ''m'' else []"
  let ?ss = "show_nat (secs mod 60) @ ''s''"
  have n: "0 < n" "nat \<bar>n * second\<bar> = secs * 1000000000" using False assms(1) by (simp_all add: secs_def second_def nat_mult_distrib)
  have z: "frac_digits 9 0 = []" by code_simp
  have "n * second > 0" using n(1) by (simp add: second_def)
  moreover have "n \<noteq> 0" "second \<noteq> 0" using n(1) by (simp_all add: second_def)
  moreover have "\<not> secs * 1000000000 < 1000000000" using n(1) by (simp add: secs_def)
  ultimately have str: "Duration_String (n * second) = ?hs @ ?ms @ ?ss"
    unfolding Duration_String_def Let_def n(2) by (simp add: z h_def m_def)
  have total: "h * 3600 + m * 60 + secs mod 60 = secs"
  proof -
    have "secs div 3600 = secs div 60 div 60" using div_mult2_eq [of secs 60 60] by simp
    moreover have "secs div 60 div 60 * 60 + secs div 60 mod 60 = secs div 60" "secs div 60 * 60 + secs mod 60 = secs" by simp_all
    ultimately show ?thesis unfolding h_def m_def by linarith
  qed
  have top: "secs * 1000000000 \<le> 2 ^ 63 - 1"
  proof -
    have "int (secs * 1000000000) = n * second" using n(1) by (simp add: secs_def second_def)
    then show ?thesis using assms(2) by (simp add: max_int64_def)
  qed
  have le: "h * 3600000000000 + m * 60000000000 + (secs mod 60) * 1000000000 = secs * 1000000000" using total by linarith
  have s: "duration_loop fl (h * 3600000000000 + m * 60000000000) ?ss = Some (secs * 1000000000)"
    using loop_unit [OF unit_chars(3), of "h * 3600000000000 + m * 60000000000" "secs mod 60" "[]" fl] le top
    by (simp add: duration_loop.simps [of _ _ "[]"])
  have ms: "duration_loop fl (h * 3600000000000) (?ms @ ?ss) = Some (secs * 1000000000)"
  proof (cases "0 < secs div 60")
    case True
    then show ?thesis using loop_unit [OF unit_chars(2), of "h * 3600000000000" m ?ss fl] s le top show_nat_number by simp
  next
    case F: False
    then show ?thesis using s by (simp add: m_def)
  qed
  have num: "number_char (hd (?ms @ ?ss))" using show_nat_number by (simp add: append_assoc)
  have all: "duration_loop fl 0 (?hs @ ?ms @ ?ss) = Some (secs * 1000000000)"
  proof (cases "0 < h")
    case True
    then show ?thesis using loop_unit [OF unit_chars(1), of 0 h "?ms @ ?ss" fl] ms num le top by simp
  next
    case F: False
    then show ?thesis using ms by simp
  qed
  have hd: "number_char (hd (?hs @ ?ms @ ?ss))" using num show_nat_number by simp
  have "?hs @ ?ms @ ?ss \<noteq> ''0''"
  proof
    assume e: "?hs @ ?ms @ ?ss = ''0''"
    have "last (?hs @ ?ms @ ?ss) = CHR ''s''" by simp
    then show False unfolding e by simp
  qed
  moreover have "\<not> starts_with (?hs @ ?ms @ ?ss) ''-''" "\<not> starts_with (?hs @ ?ms @ ?ss) ''+''" "?hs @ ?ms @ ?ss \<noteq> []"
    using hd by (cases "?hs @ ?ms @ ?ss"; auto simp: starts_with_def number_char_def)+
  moreover have "int (secs * 1000000000) = n * second" using n(2) \<open>n * second > 0\<close> by linarith
  moreover have "\<not> 2 ^ 63 - 1 < secs * 1000000000" using top by simp
  ultimately show ?thesis unfolding str ParseDuration_def Let_def using all by simp
qed

end
