(* ===== verification/Config.thy ===== *)
theory Config
  imports Authn Go_Duration
begin

text \<open>
  Package \<open>internal/platform/config\<close>: the configuration every service reads from its environment, and the choice of the
  authenticator from it (\<open>internal/platform/authn/factory.go\<close>). Lower case beyond ASCII and the rounding of floating-point numbers
  are parameters.
\<close>

section \<open>Data\<close>

record config =
  cf_ServiceName :: string
  cf_HTTPAddr :: string
  cf_LogLevel :: string
  cf_Environment :: string
  cf_DataDir :: string
  cf_ChunkMaxEvents :: int
  cf_ChunkMaxBytes :: int
  cf_ChunkMaxDuration :: duration
  cf_JSONIgnoreError :: bool
  cf_EnableLogfmt :: bool
  cf_WALMaxSegmentBytes :: int
  cf_WALSyncMode :: string
  cf_SegmentBucket :: duration
  cf_QueuePartitions :: int
  cf_QueueBackend :: string
  cf_KafkaBrokers :: "string list"
  cf_ObjectStoreRetries :: int
  cf_ObjectStoreBackoff :: duration
  cf_QueryCacheEntries :: int
  cf_QueryCacheTTL :: duration
  cf_ChunkCacheEntries :: int
  cf_TenantDSN :: string
  cf_ManifestDSN :: string
  cf_QuerierURLs :: "string list"
  cf_AuthRequired :: bool
  cf_AuthMode :: string
  cf_AuthBearerToken :: string
  cf_OIDCIssuerURL :: string
  cf_OIDCJWKSURL :: string
  cf_OIDCAudience :: string
  cf_OIDCScopesClaim :: string
  cf_AuditLogPath :: string
  cf_TLSEnabled :: bool
  cf_TLSCertFile :: string
  cf_TLSKeyFile :: string
  cf_TLSClientCAFile :: string
  cf_TLSRequireClientCert :: bool
  cf_TLSClientCertFile :: string
  cf_TLSClientKeyFile :: string
  cf_TLSRootCAFile :: string
  cf_TLSServerName :: string
  cf_TLSSkipVerify :: bool
  cf_TraceEnabled :: bool
  cf_TraceExporter :: string
  cf_TraceEndpoint :: string
  cf_TraceInsecure :: bool
  cf_ShutdownTimeout :: duration
  cf_ReadTimeout :: duration
  cf_WriteTimeout :: duration
  cf_BuildVersion :: string
  cf_Port :: int

section \<open>Reading the environment\<close>

type_synonym environment = "(string, string) gomap"

definition getenv :: "environment \<Rightarrow> string \<Rightarrow> string \<Rightarrow> string" where
  "getenv env key fallback = (case map_of env key of Some v \<Rightarrow> (if v \<noteq> [] then v else fallback) | None \<Rightarrow> fallback)"

definition getDuration :: "(rat \<Rightarrow> rat) \<Rightarrow> environment \<Rightarrow> string \<Rightarrow> duration \<Rightarrow> duration" where
  "getDuration fl env key fallback = (case ParseDuration fl (getenv env key (Duration_String fallback)) of None \<Rightarrow> fallback | Some d \<Rightarrow> d)"

definition getPort :: "string \<Rightarrow> int" where
  "getPort httpAddr = (case httpAddr of [] \<Rightarrow> 8080
     | c # rest \<Rightarrow> if c = CHR '':'' then (case Atoi rest of Some port \<Rightarrow> port | None \<Rightarrow> 8080) else 8080)"

definition getInt :: "environment \<Rightarrow> string \<Rightarrow> int \<Rightarrow> int" where
  "getInt env key fallback = (let v = getenv env key [] in if v = [] then fallback else case Atoi v of None \<Rightarrow> fallback | Some n \<Rightarrow> n)"

definition getInt64 :: "environment \<Rightarrow> string \<Rightarrow> int \<Rightarrow> int" where
  "getInt64 env key fallback = (let v = getenv env key [] in if v = [] then fallback else case Atoi v of None \<Rightarrow> fallback | Some n \<Rightarrow> n)"

definition getBool :: "(string \<Rightarrow> string) \<Rightarrow> environment \<Rightarrow> string \<Rightarrow> bool \<Rightarrow> bool" where
  "getBool uni env key fallback =
     (let v = TrimSpace (getenv env key []) in
      if v = [] then fallback
      else let v = ToLower uni v in
        if v \<in> {''1'', ''true'', ''yes'', ''on''} then True
        else if v \<in> {''0'', ''false'', ''no'', ''off''} then False
        else fallback)"

definition splitCSV :: "string \<Rightarrow> string list" where
  "splitCSV v = (let v = TrimSpace v in if v = [] then [] else filter (\<lambda>part. part \<noteq> []) (map TrimSpace (split_char (CHR '','') v)))"

definition FromEnv :: "(string \<Rightarrow> string) \<Rightarrow> (rat \<Rightarrow> rat) \<Rightarrow> environment \<Rightarrow> string \<Rightarrow> config" where
  "FromEnv uni fl env serviceName =
     (let httpAddr = getenv env ''SERVICE_HTTP_ADDR'' '':8080'';
          authRequired = getBool uni env ''AUTH_REQUIRED'' False;
          authMode = ToLower uni (getenv env ''AUTH_MODE'' []);
          authMode = (if authMode = [] then (if authRequired then ''static'' else ''off'') else authMode)
      in \<lparr>cf_ServiceName = serviceName,
       cf_HTTPAddr = httpAddr,
       cf_LogLevel = getenv env ''LOG_LEVEL'' ''info'',
       cf_Environment = getenv env ''APP_ENV'' ''development'',
       cf_DataDir = getenv env ''DATA_DIR'' ''.data'',
       cf_ChunkMaxEvents = getInt env ''CHUNK_MAX_EVENTS'' 1000,
       cf_ChunkMaxBytes = getInt env ''CHUNK_MAX_BYTES'' (256 * 1024),
       cf_ChunkMaxDuration = getDuration fl env ''CHUNK_MAX_DURATION'' minute,
       cf_JSONIgnoreError = getBool uni env ''PIPELINE_JSON_IGNORE_ERROR'' True,
       cf_EnableLogfmt = getBool uni env ''PIPELINE_ENABLE_LOGFMT'' True,
       cf_WALMaxSegmentBytes = getInt64 env ''WAL_MAX_SEGMENT_BYTES'' (8 * 1024 * 1024),
       cf_WALSyncMode = getenv env ''WAL_SYNC_MODE'' ''always'',
       cf_SegmentBucket = getDuration fl env ''SEGMENT_BUCKET_DURATION'' hour,
       cf_QueuePartitions = getInt env ''QUEUE_PARTITIONS'' 8,
       cf_QueueBackend = getenv env ''QUEUE_BACKEND'' ''memory'',
       cf_KafkaBrokers = splitCSV (getenv env ''KAFKA_BROKERS'' []),
       cf_ObjectStoreRetries = getInt env ''OBJECT_STORE_RETRIES'' 3,
       cf_ObjectStoreBackoff = getDuration fl env ''OBJECT_STORE_BACKOFF'' (50 * millisecond),
       cf_QueryCacheEntries = getInt env ''QUERY_CACHE_ENTRIES'' 256,
       cf_QueryCacheTTL = getDuration fl env ''QUERY_CACHE_TTL'' (30 * second),
       cf_ChunkCacheEntries = getInt env ''CHUNK_CACHE_ENTRIES'' 512,
       cf_TenantDSN = getenv env ''TENANT_DSN'' [],
       cf_ManifestDSN = getenv env ''MANIFEST_DSN'' [],
       cf_QuerierURLs = splitCSV (getenv env ''QUERIER_URLS'' []),
       cf_AuthRequired = authRequired,
       cf_AuthMode = authMode,
       cf_AuthBearerToken = getenv env ''AUTH_BEARER_TOKEN'' [],
       cf_OIDCIssuerURL = getenv env ''OIDC_ISSUER_URL'' [],
       cf_OIDCJWKSURL = getenv env ''OIDC_JWKS_URL'' [],
       cf_OIDCAudience = getenv env ''OIDC_AUDIENCE'' [],
       cf_OIDCScopesClaim = getenv env ''OIDC_SCOPES_CLAIM'' ''scope'',
       cf_AuditLogPath = getenv env ''AUDIT_LOG_PATH'' [],
       cf_TLSEnabled = getBool uni env ''TLS_ENABLED'' False,
       cf_TLSCertFile = getenv env ''TLS_CERT_FILE'' [],
       cf_TLSKeyFile = getenv env ''TLS_KEY_FILE'' [],
       cf_TLSClientCAFile = getenv env ''TLS_CLIENT_CA_FILE'' [],
       cf_TLSRequireClientCert = getBool uni env ''TLS_REQUIRE_CLIENT_CERT'' False,
       cf_TLSClientCertFile = getenv env ''TLS_CLIENT_CERT_FILE'' [],
       cf_TLSClientKeyFile = getenv env ''TLS_CLIENT_KEY_FILE'' [],
       cf_TLSRootCAFile = getenv env ''TLS_ROOT_CA_FILE'' [],
       cf_TLSServerName = getenv env ''TLS_SERVER_NAME'' [],
       cf_TLSSkipVerify = getBool uni env ''TLS_SKIP_VERIFY'' False,
       cf_TraceEnabled = getBool uni env ''TRACE_ENABLED'' False,
       cf_TraceExporter = getenv env ''TRACE_EXPORTER'' ''stdout'',
       cf_TraceEndpoint = getenv env ''OTEL_EXPORTER_OTLP_ENDPOINT'' [],
       cf_TraceInsecure = getBool uni env ''OTEL_EXPORTER_OTLP_INSECURE'' True,
       cf_ShutdownTimeout = getDuration fl env ''SHUTDOWN_TIMEOUT'' (10 * second),
       cf_ReadTimeout = getDuration fl env ''HTTP_READ_TIMEOUT'' (15 * second),
       cf_WriteTimeout = getDuration fl env ''HTTP_WRITE_TIMEOUT'' (15 * second),
       cf_BuildVersion = getenv env ''BUILD_VERSION'' ''0.1.0-dev'',
       cf_Port = getPort httpAddr\<rparr>)"

section \<open>The authenticator of a configuration\<close>

text \<open>\<open>None\<close> is the nil authenticator of a service without authentication.\<close>

definition FromConfig :: "(string \<Rightarrow> string) \<Rightarrow> config \<Rightarrow> authenticator option result" where
  "FromConfig uni cfg =
     (if \<not> cf_AuthRequired cfg then Inr None else
      let mode = ToLower uni (TrimSpace (cf_AuthMode cfg)) in
      if mode \<in> {[], ''static''} then Inr (Some (NewStaticTokenAuthenticator (cf_AuthBearerToken cfg)))
      else if mode = ''oidc'' then
        (case NewOIDCAuthenticator \<lparr>oc_IssuerURL = cf_OIDCIssuerURL cfg, oc_JWKSURL = cf_OIDCJWKSURL cfg, oc_Audience = cf_OIDCAudience cfg,
            oc_ScopesClaim = cf_OIDCScopesClaim cfg\<rparr> of Inl err \<Rightarrow> Inl err | Inr a \<Rightarrow> Inr (Some (OIDCAuthenticator a)))
      else Inl (Errorf ''unsupported auth mode: %s'' [cf_AuthMode cfg]))"

section \<open>Settings and the environment\<close>

text \<open>The environment that asks for a configuration: every field under its variable, numbers, durations and lists as the program prints them.\<close>

definition switch :: "bool \<Rightarrow> string" where
  "switch b = (if b then ''true'' else ''false'')"

definition environ_of :: "config \<Rightarrow> environment" where
  "environ_of cfg = [
     (''SERVICE_HTTP_ADDR'', cf_HTTPAddr cfg), (''AUTH_REQUIRED'', switch (cf_AuthRequired cfg)), (''AUTH_MODE'', cf_AuthMode cfg),
     (''LOG_LEVEL'', cf_LogLevel cfg), (''APP_ENV'', cf_Environment cfg), (''DATA_DIR'', cf_DataDir cfg),
     (''CHUNK_MAX_EVENTS'', show_nat (nat (cf_ChunkMaxEvents cfg))), (''CHUNK_MAX_BYTES'', show_nat (nat (cf_ChunkMaxBytes cfg))), (''CHUNK_MAX_DURATION'', Duration_String (cf_ChunkMaxDuration cfg)),
     (''PIPELINE_JSON_IGNORE_ERROR'', switch (cf_JSONIgnoreError cfg)), (''PIPELINE_ENABLE_LOGFMT'', switch (cf_EnableLogfmt cfg)), (''WAL_MAX_SEGMENT_BYTES'', show_nat (nat (cf_WALMaxSegmentBytes cfg))),
     (''WAL_SYNC_MODE'', cf_WALSyncMode cfg), (''SEGMENT_BUCKET_DURATION'', Duration_String (cf_SegmentBucket cfg)), (''QUEUE_PARTITIONS'', show_nat (nat (cf_QueuePartitions cfg))),
     (''QUEUE_BACKEND'', cf_QueueBackend cfg), (''KAFKA_BROKERS'', Join (cf_KafkaBrokers cfg) '',''), (''OBJECT_STORE_RETRIES'', show_nat (nat (cf_ObjectStoreRetries cfg))),
     (''OBJECT_STORE_BACKOFF'', Duration_String (cf_ObjectStoreBackoff cfg)), (''QUERY_CACHE_ENTRIES'', show_nat (nat (cf_QueryCacheEntries cfg))), (''QUERY_CACHE_TTL'', Duration_String (cf_QueryCacheTTL cfg)),
     (''CHUNK_CACHE_ENTRIES'', show_nat (nat (cf_ChunkCacheEntries cfg))), (''TENANT_DSN'', cf_TenantDSN cfg), (''MANIFEST_DSN'', cf_ManifestDSN cfg),
     (''QUERIER_URLS'', Join (cf_QuerierURLs cfg) '',''), (''AUTH_BEARER_TOKEN'', cf_AuthBearerToken cfg), (''OIDC_ISSUER_URL'', cf_OIDCIssuerURL cfg),
     (''OIDC_JWKS_URL'', cf_OIDCJWKSURL cfg), (''OIDC_AUDIENCE'', cf_OIDCAudience cfg), (''OIDC_SCOPES_CLAIM'', cf_OIDCScopesClaim cfg),
     (''AUDIT_LOG_PATH'', cf_AuditLogPath cfg), (''TLS_ENABLED'', switch (cf_TLSEnabled cfg)), (''TLS_CERT_FILE'', cf_TLSCertFile cfg),
     (''TLS_KEY_FILE'', cf_TLSKeyFile cfg), (''TLS_CLIENT_CA_FILE'', cf_TLSClientCAFile cfg), (''TLS_REQUIRE_CLIENT_CERT'', switch (cf_TLSRequireClientCert cfg)),
     (''TLS_CLIENT_CERT_FILE'', cf_TLSClientCertFile cfg), (''TLS_CLIENT_KEY_FILE'', cf_TLSClientKeyFile cfg), (''TLS_ROOT_CA_FILE'', cf_TLSRootCAFile cfg),
     (''TLS_SERVER_NAME'', cf_TLSServerName cfg), (''TLS_SKIP_VERIFY'', switch (cf_TLSSkipVerify cfg)), (''TRACE_ENABLED'', switch (cf_TraceEnabled cfg)),
     (''TRACE_EXPORTER'', cf_TraceExporter cfg), (''OTEL_EXPORTER_OTLP_ENDPOINT'', cf_TraceEndpoint cfg), (''OTEL_EXPORTER_OTLP_INSECURE'', switch (cf_TraceInsecure cfg)),
     (''SHUTDOWN_TIMEOUT'', Duration_String (cf_ShutdownTimeout cfg)), (''HTTP_READ_TIMEOUT'', Duration_String (cf_ReadTimeout cfg)), (''HTTP_WRITE_TIMEOUT'', Duration_String (cf_WriteTimeout cfg)),
     (''BUILD_VERSION'', cf_BuildVersion cfg)]"

text \<open>The configuration of an environment that sets nothing.\<close>

definition default_config :: "string \<Rightarrow> config" where
  "default_config name = \<lparr>
     cf_ServiceName = name, cf_HTTPAddr = '':8080'', cf_LogLevel = ''info'',
     cf_Environment = ''development'', cf_DataDir = ''.data'', cf_ChunkMaxEvents = 1000,
     cf_ChunkMaxBytes = 256 * 1024, cf_ChunkMaxDuration = minute, cf_JSONIgnoreError = True,
     cf_EnableLogfmt = True, cf_WALMaxSegmentBytes = 8 * 1024 * 1024, cf_WALSyncMode = ''always'',
     cf_SegmentBucket = hour, cf_QueuePartitions = 8, cf_QueueBackend = ''memory'',
     cf_KafkaBrokers = [], cf_ObjectStoreRetries = 3, cf_ObjectStoreBackoff = 50 * millisecond,
     cf_QueryCacheEntries = 256, cf_QueryCacheTTL = 30 * second, cf_ChunkCacheEntries = 512,
     cf_TenantDSN = [], cf_ManifestDSN = [], cf_QuerierURLs = [],
     cf_AuthRequired = False, cf_AuthMode = ''off'', cf_AuthBearerToken = [],
     cf_OIDCIssuerURL = [], cf_OIDCJWKSURL = [], cf_OIDCAudience = [],
     cf_OIDCScopesClaim = ''scope'', cf_AuditLogPath = [], cf_TLSEnabled = False,
     cf_TLSCertFile = [], cf_TLSKeyFile = [], cf_TLSClientCAFile = [],
     cf_TLSRequireClientCert = False, cf_TLSClientCertFile = [], cf_TLSClientKeyFile = [],
     cf_TLSRootCAFile = [], cf_TLSServerName = [], cf_TLSSkipVerify = False,
     cf_TraceEnabled = False, cf_TraceExporter = ''stdout'', cf_TraceEndpoint = [],
     cf_TraceInsecure = True, cf_ShutdownTimeout = 10 * second, cf_ReadTimeout = 15 * second,
     cf_WriteTimeout = 15 * second, cf_BuildVersion = ''0.1.0-dev'', cf_Port = 8080\<rparr>"

text \<open>
  What an environment can ask for: non-negative 64-bit numbers, durations of whole seconds, no blank where blank means the default,
  addresses without blanks and commas, a lower-case mode, and a port as the address.
\<close>

definition address :: "string \<Rightarrow> bool" where
  "address s \<longleftrightarrow> s \<noteq> [] \<and> list_all graphic s \<and> CHR '','' \<notin> set s"

definition expressible :: "(string \<Rightarrow> string) \<Rightarrow> config \<Rightarrow> bool" where
  "expressible uni cfg \<longleftrightarrow>
     list_all (\<lambda>s. s \<noteq> []) [cf_LogLevel cfg, cf_Environment cfg, cf_DataDir cfg, cf_WALSyncMode cfg, cf_QueueBackend cfg, cf_OIDCScopesClaim cfg, cf_TraceExporter cfg, cf_BuildVersion cfg] \<and>
     list_all (\<lambda>n. 0 \<le> n \<and> n \<le> max_int64) [cf_ChunkMaxEvents cfg, cf_ChunkMaxBytes cfg, cf_WALMaxSegmentBytes cfg, cf_QueuePartitions cfg, cf_ObjectStoreRetries cfg, cf_QueryCacheEntries cfg, cf_ChunkCacheEntries cfg, cf_Port cfg] \<and>
     list_all (\<lambda>d. 0 \<le> d \<and> d \<le> max_int64 \<and> second dvd d) [cf_ChunkMaxDuration cfg, cf_SegmentBucket cfg, cf_ObjectStoreBackoff cfg, cf_QueryCacheTTL cfg, cf_ShutdownTimeout cfg, cf_ReadTimeout cfg, cf_WriteTimeout cfg] \<and>
     list_all address (cf_KafkaBrokers cfg) \<and> list_all address (cf_QuerierURLs cfg) \<and>
     cf_AuthMode cfg \<noteq> [] \<and> ToLower uni (cf_AuthMode cfg) = cf_AuthMode cfg \<and> cf_HTTPAddr cfg = CHR '':'' # show_nat (nat (cf_Port cfg))"

lemma getInt_show:
  assumes "map_of env key = Some (show_nat (nat n))" and "0 \<le> n" and "n \<le> max_int64"
  shows "getInt env key fallback = n" and "getInt64 env key fallback = n"
  using assms Atoi_show_nat [of "nat n"] by (simp_all add: getInt_def getInt64_def getenv_def)

lemma getDuration_show:
  assumes "map_of env key = Some (Duration_String d)" and "0 \<le> d" and "d \<le> max_int64" and "second dvd d"
  shows "getDuration fl env key fallback = d"
proof -
  obtain n where n: "d = n * second" using assms(4) by (auto simp: dvd_def mult.commute)
  then have "0 \<le> n" using assms(2) by (simp add: second_def zero_le_mult_iff)
  then have p: "ParseDuration fl (Duration_String d) = Some d" using ParseDuration_String [of n fl] assms(3) by (simp add: n)
  have "Duration_String d \<noteq> []"
  proof
    assume "Duration_String d = []"
    then show False using p by (simp add: ParseDuration_def starts_with_def)
  qed
  then show ?thesis using p assms(1) by (simp add: getDuration_def getenv_def)
qed

lemma getDuration_unset:
  assumes "map_of env key = None" and "0 \<le> d" and "d \<le> max_int64" and "second dvd d"
  shows "getDuration fl env key d = d"
  using getDuration_show [of "[(key, Duration_String d)]" key d fl d] assms by (simp add: getDuration_def getenv_def split: if_splits)

lemma switch_lower: "TrimSpace (switch b) = switch b" "ToLower uni (switch b) = switch b"
  by (cases b; simp add: switch_def; code_simp)+

lemma getBool_switch:
  assumes "map_of env key = Some (switch b)"
  shows "getBool uni env key fallback = b"
proof -
  have "getenv env key [] = switch b" using assms by (simp add: getenv_def switch_def)
  then show ?thesis unfolding getBool_def Let_def switch_lower by (cases b) (simp_all only:, simp_all add: switch_lower, simp_all add: switch_def)
qed

lemma Join_ends: "cs \<noteq> [] \<Longrightarrow> \<forall>c \<in> set cs. c \<noteq> [] \<Longrightarrow> Join cs sep \<noteq> [] \<and> hd (Join cs sep) = hd (hd cs) \<and> last (Join cs sep) = last (last cs)"
  by (induction cs sep rule: Join.induct) auto

lemma splitCSV_Join:
  assumes "list_all address cs"
  shows "splitCSV (Join cs '','') = cs"
proof (cases "cs = []")
  case True
  then show ?thesis by (simp add: splitCSV_def TrimSpace_def)
next
  case False
  have a: "address c" if "c \<in> set cs" for c using that assms by (simp add: list_all_iff)
  have edges: "graphic (hd c)" "graphic (last c)" "c \<noteq> []" if "c \<in> set cs" for c
    using a [OF that] by (auto simp: address_def list_all_iff)
  have "Join cs '','' \<noteq> []" "hd (Join cs '','') = hd (hd cs)" "last (Join cs '','') = last (last cs)"
    using Join_ends [OF False, of "'',''"] edges(3) by auto
  then have t: "TrimSpace (Join cs '','') = Join cs '',''"
    using edges(1) [OF hd_in_set [OF False]] edges(2) [OF last_in_set [OF False]] by (intro TrimSpace_graphic) simp_all
  have "map TrimSpace cs = cs" using edges by (intro map_idI TrimSpace_graphic)
  moreover have "split_char CHR '','' (Join cs '','') = cs" using split_Join [OF False] a by (auto simp: address_def)
  moreover have "filter (\<lambda>c. c \<noteq> []) cs = cs" using edges(3) by (simp add: filter_id_conv)
  ultimately show ?thesis using t \<open>Join cs '','' \<noteq> []\<close> by (simp add: splitCSV_def)
qed

lemma getDuration_milliseconds: "getDuration fl [] key (50 * millisecond) = 50 * millisecond"
proof -
  have "show_nat 50 = ''50''" "frac_digits 6 0 = []" by code_simp+
  then have "Duration_String (50 * millisecond) = ''50ms''"
    by (simp add: Duration_String_def millisecond_def Let_def)
  moreover have "ParseDuration fl ''50ms'' = Some (50 * millisecond)"
    by (simp add: ParseDuration_def starts_with_def duration_loop.simps duration_item_def number_char_def is_digit_def byte_val_def
        read_point_def unitMap_def Let_def digit_val_def millisecond_def)
  ultimately show ?thesis by (simp add: getDuration_def getenv_def)
qed

text \<open>The variables have different names, so each is found whatever else the environment holds.\<close>

lemma environ_of_distinct: "distinct (map fst (environ_of cfg))"
  unfolding environ_of_def by simp

lemma environ_of_get: "(k, v) \<in> set (environ_of cfg) \<Longrightarrow> map_of (environ_of cfg @ env) k = Some v"
  using environ_of_distinct by (simp add: map_of_append map_add_def)

lemma environ_vars:
  "map_of (environ_of cfg @ env) ''SERVICE_HTTP_ADDR'' = Some (cf_HTTPAddr cfg)" "map_of (environ_of cfg @ env) ''AUTH_REQUIRED'' = Some (switch (cf_AuthRequired cfg))"
  "map_of (environ_of cfg @ env) ''AUTH_MODE'' = Some (cf_AuthMode cfg)" "map_of (environ_of cfg @ env) ''LOG_LEVEL'' = Some (cf_LogLevel cfg)"
  "map_of (environ_of cfg @ env) ''APP_ENV'' = Some (cf_Environment cfg)" "map_of (environ_of cfg @ env) ''DATA_DIR'' = Some (cf_DataDir cfg)"
  "map_of (environ_of cfg @ env) ''CHUNK_MAX_EVENTS'' = Some (show_nat (nat (cf_ChunkMaxEvents cfg)))" "map_of (environ_of cfg @ env) ''CHUNK_MAX_BYTES'' = Some (show_nat (nat (cf_ChunkMaxBytes cfg)))"
  "map_of (environ_of cfg @ env) ''CHUNK_MAX_DURATION'' = Some (Duration_String (cf_ChunkMaxDuration cfg))" "map_of (environ_of cfg @ env) ''PIPELINE_JSON_IGNORE_ERROR'' = Some (switch (cf_JSONIgnoreError cfg))"
  "map_of (environ_of cfg @ env) ''PIPELINE_ENABLE_LOGFMT'' = Some (switch (cf_EnableLogfmt cfg))" "map_of (environ_of cfg @ env) ''WAL_MAX_SEGMENT_BYTES'' = Some (show_nat (nat (cf_WALMaxSegmentBytes cfg)))"
  "map_of (environ_of cfg @ env) ''WAL_SYNC_MODE'' = Some (cf_WALSyncMode cfg)" "map_of (environ_of cfg @ env) ''SEGMENT_BUCKET_DURATION'' = Some (Duration_String (cf_SegmentBucket cfg))"
  "map_of (environ_of cfg @ env) ''QUEUE_PARTITIONS'' = Some (show_nat (nat (cf_QueuePartitions cfg)))" "map_of (environ_of cfg @ env) ''QUEUE_BACKEND'' = Some (cf_QueueBackend cfg)"
  "map_of (environ_of cfg @ env) ''KAFKA_BROKERS'' = Some (Join (cf_KafkaBrokers cfg) '','')" "map_of (environ_of cfg @ env) ''OBJECT_STORE_RETRIES'' = Some (show_nat (nat (cf_ObjectStoreRetries cfg)))"
  "map_of (environ_of cfg @ env) ''OBJECT_STORE_BACKOFF'' = Some (Duration_String (cf_ObjectStoreBackoff cfg))" "map_of (environ_of cfg @ env) ''QUERY_CACHE_ENTRIES'' = Some (show_nat (nat (cf_QueryCacheEntries cfg)))"
  "map_of (environ_of cfg @ env) ''QUERY_CACHE_TTL'' = Some (Duration_String (cf_QueryCacheTTL cfg))" "map_of (environ_of cfg @ env) ''CHUNK_CACHE_ENTRIES'' = Some (show_nat (nat (cf_ChunkCacheEntries cfg)))"
  "map_of (environ_of cfg @ env) ''TENANT_DSN'' = Some (cf_TenantDSN cfg)" "map_of (environ_of cfg @ env) ''MANIFEST_DSN'' = Some (cf_ManifestDSN cfg)"
  "map_of (environ_of cfg @ env) ''QUERIER_URLS'' = Some (Join (cf_QuerierURLs cfg) '','')" "map_of (environ_of cfg @ env) ''AUTH_BEARER_TOKEN'' = Some (cf_AuthBearerToken cfg)"
  "map_of (environ_of cfg @ env) ''OIDC_ISSUER_URL'' = Some (cf_OIDCIssuerURL cfg)" "map_of (environ_of cfg @ env) ''OIDC_JWKS_URL'' = Some (cf_OIDCJWKSURL cfg)"
  "map_of (environ_of cfg @ env) ''OIDC_AUDIENCE'' = Some (cf_OIDCAudience cfg)" "map_of (environ_of cfg @ env) ''OIDC_SCOPES_CLAIM'' = Some (cf_OIDCScopesClaim cfg)"
  "map_of (environ_of cfg @ env) ''AUDIT_LOG_PATH'' = Some (cf_AuditLogPath cfg)" "map_of (environ_of cfg @ env) ''TLS_ENABLED'' = Some (switch (cf_TLSEnabled cfg))"
  "map_of (environ_of cfg @ env) ''TLS_CERT_FILE'' = Some (cf_TLSCertFile cfg)" "map_of (environ_of cfg @ env) ''TLS_KEY_FILE'' = Some (cf_TLSKeyFile cfg)"
  "map_of (environ_of cfg @ env) ''TLS_CLIENT_CA_FILE'' = Some (cf_TLSClientCAFile cfg)" "map_of (environ_of cfg @ env) ''TLS_REQUIRE_CLIENT_CERT'' = Some (switch (cf_TLSRequireClientCert cfg))"
  "map_of (environ_of cfg @ env) ''TLS_CLIENT_CERT_FILE'' = Some (cf_TLSClientCertFile cfg)" "map_of (environ_of cfg @ env) ''TLS_CLIENT_KEY_FILE'' = Some (cf_TLSClientKeyFile cfg)"
  "map_of (environ_of cfg @ env) ''TLS_ROOT_CA_FILE'' = Some (cf_TLSRootCAFile cfg)" "map_of (environ_of cfg @ env) ''TLS_SERVER_NAME'' = Some (cf_TLSServerName cfg)"
  "map_of (environ_of cfg @ env) ''TLS_SKIP_VERIFY'' = Some (switch (cf_TLSSkipVerify cfg))" "map_of (environ_of cfg @ env) ''TRACE_ENABLED'' = Some (switch (cf_TraceEnabled cfg))"
  "map_of (environ_of cfg @ env) ''TRACE_EXPORTER'' = Some (cf_TraceExporter cfg)" "map_of (environ_of cfg @ env) ''OTEL_EXPORTER_OTLP_ENDPOINT'' = Some (cf_TraceEndpoint cfg)"
  "map_of (environ_of cfg @ env) ''OTEL_EXPORTER_OTLP_INSECURE'' = Some (switch (cf_TraceInsecure cfg))" "map_of (environ_of cfg @ env) ''SHUTDOWN_TIMEOUT'' = Some (Duration_String (cf_ShutdownTimeout cfg))"
  "map_of (environ_of cfg @ env) ''HTTP_READ_TIMEOUT'' = Some (Duration_String (cf_ReadTimeout cfg))" "map_of (environ_of cfg @ env) ''HTTP_WRITE_TIMEOUT'' = Some (Duration_String (cf_WriteTimeout cfg))"
  "map_of (environ_of cfg @ env) ''BUILD_VERSION'' = Some (cf_BuildVersion cfg)"
  by (rule environ_of_get, simp add: environ_of_def)+

lemma getenv_set: "map_of env key = Some v \<Longrightarrow> v \<noteq> [] \<or> fallback = [] \<Longrightarrow> getenv env key fallback = v"
  by (auto simp: getenv_def)

text \<open>
  C17. The settings of a service mean what they say: a service started in the environment that writes every field of a configuration
  under its variable (numbers and whole seconds as the program prints them, switches as \<open>true\<close> and \<open>false\<close>, lists with commas) has exactly this
  configuration, whatever else is set, provided the environment can express it: numbers are non-negative 64-bit integers, durations whole
  seconds, texts with a default are not empty, list entries are printable ASCII without blanks and commas, the
  authentication mode is in lower case and the address is a port. And in an empty environment every setting has its default.
\<close>

theorem config_settings_roundtrip:
  "(expressible uni cfg \<longrightarrow> FromEnv uni fl (environ_of cfg @ env) (cf_ServiceName cfg) = cfg) \<and> FromEnv uni fl [] name = default_config name"
proof (intro conjI impI)
  let ?E = "environ_of cfg @ env" and ?cfg = "FromEnv uni fl (environ_of cfg @ env) (cf_ServiceName cfg)"
  assume x: "expressible uni cfg"
  note reads = environ_vars(7,8,15,18,20,22) [THEN getInt_show(1)] environ_vars(12) [THEN getInt_show(2)] environ_vars(9,14,19,21,46,47,48) [THEN getDuration_show]
    environ_vars(2,10,11,32,36,41,42,45) [THEN getBool_switch] environ_vars(1,3,4,5,6,13,16,17,23,24,25,26,27,28,29,30,31,33,34,35,37,38,39,40,43,44,49) [THEN getenv_set] splitCSV_Join
  have port: "getPort (CHR '':'' # show_nat (nat (cf_Port cfg))) = cf_Port cfg"
    using x Atoi_show_nat [of "nat (cf_Port cfg)"] by (simp add: expressible_def getPort_def)
  show "?cfg = cfg"
    using x unfolding expressible_def
    by (intro config.equality) (simp_all add: FromEnv_def Let_def reads port)
next
  have e: "getenv [] k d = d" "getInt [] k n = n" "getInt64 [] k n = n" "getBool uni [] k b = b" "splitCSV [] = []" for k d n b
    by (simp_all add: getenv_def getInt_def getInt64_def getBool_def splitCSV_def TrimSpace_def)
  have d: "getDuration fl [] k minute = minute" "getDuration fl [] k hour = hour" "getDuration fl [] k (30 * second) = 30 * second"
      "getDuration fl [] k (10 * second) = 10 * second" "getDuration fl [] k (15 * second) = 15 * second" for k
    by (rule getDuration_unset; simp add: time_units max_int64_def)+
  have p: "getPort '':8080'' = 8080" by code_simp
  have l: "ToLower uni [] = []" by (simp add: ToLower_def)
  show "FromEnv uni fl [] name = default_config name"
    unfolding FromEnv_def default_config_def Let_def e d p l getDuration_milliseconds by simp
qed

definition chosen_config :: config where
  "chosen_config = (default_config ''gateway'')\<lparr>cf_HTTPAddr := '':80'', cf_Port := 80, cf_KafkaBrokers := [''k1:9092'', ''k2:9092''], cf_QueueBackend := ''kafka'',
     cf_ObjectStoreBackoff := 2 * second, cf_AuthRequired := True, cf_AuthMode := ''oidc'', cf_TenantDSN := ''postgres://db''\<rparr>"

theorem config_settings_roundtrip_witness:
  "FromEnv id id (environ_of chosen_config @ [(''TENANT_DSN'', ''other'')]) ''gateway'' = chosen_config"
proof -
  have "show_nat 80 = ''80''" by code_simp
  moreover have "list_all address [''k1:9092'', ''k2:9092'']" by code_simp
  moreover have "ToLower id ''oidc'' = ''oidc''" by code_simp
  ultimately have "expressible id chosen_config"
    by (simp add: expressible_def chosen_config_def default_config_def time_units max_int64_def)
  moreover have "cf_ServiceName chosen_config = ''gateway''" by (simp add: chosen_config_def default_config_def)
  ultimately show ?thesis using config_settings_roundtrip [of id chosen_config id] by metis
qed

text \<open>
  A duration in the environment means what it says: a whole number of seconds written as the program prints it is
  read back, a value that cannot be read or is not set gives the default.
\<close>

theorem duration_setting_roundtrip:
  assumes "0 \<le> n" and "n * second \<le> max_int64"
  shows "getDuration fl ((key, Duration_String (n * second)) # env) key fallback = n * second \<and>
     (map_of env key = None \<longrightarrow> getDuration fl env key (n * second) = n * second) \<and>
     (ParseDuration fl v = None \<longrightarrow> getDuration fl ((key, v) # env) key (n * second) = n * second)"
proof -
  note p = ParseDuration_String [OF assms, of fl]
  have "Duration_String (n * second) \<noteq> []"
  proof
    assume "Duration_String (n * second) = []"
    then show False using p by (simp add: ParseDuration_def starts_with_def)
  qed
  then show ?thesis using p by (auto simp: getDuration_def getenv_def)
qed

theorem duration_setting_roundtrip_witness:
  "getDuration id [(''HTTP_READ_TIMEOUT'', Duration_String (90 * second))] ''HTTP_READ_TIMEOUT'' 0 = 90 * second"
  using duration_setting_roundtrip [of 90 id "''HTTP_READ_TIMEOUT''" "[]" 0] by (simp add: second_def max_int64_def)

section \<open>Authentication that is asked for\<close>

lemma AuthRequired_yes:
  assumes "map_of env ''AUTH_REQUIRED'' = Some v" and "ToLower uni (TrimSpace v) \<in> {''1'', ''true'', ''yes'', ''on''}"
  shows "cf_AuthRequired (FromEnv uni fl env name)"
proof -
  have "ToLower uni [] = []" by (simp add: ToLower_def)
  then have t: "TrimSpace v \<noteq> []" using assms(2) by auto
  then have "v \<noteq> []" by (auto simp: TrimSpace_def)
  then have "getenv env ''AUTH_REQUIRED'' [] = v" using assms(1) by (simp add: getenv_def)
  then have "getBool uni env ''AUTH_REQUIRED'' False" using t assms(2) by (simp add: getBool_def)
  then show ?thesis by (simp add: FromEnv_def Let_def)
qed

text \<open>The lock an environment asks for: its bearer token, or tokens of its issuer for its audience, signed with the keys of its key set.\<close>

definition lock_of_env :: "environment \<Rightarrow> authenticator \<Rightarrow> bool" where
  "lock_of_env env a \<longleftrightarrow> (case a of
      StaticTokenAuthenticator token \<Rightarrow> token = TrimSpace (getenv env ''AUTH_BEARER_TOKEN'' [])
    | OIDCAuthenticator oa \<Rightarrow> oc_IssuerURL (oa_cfg oa) = TrimSpace (getenv env ''OIDC_ISSUER_URL'' []) \<and> oc_IssuerURL (oa_cfg oa) \<noteq> [] \<and>
        oc_Audience (oa_cfg oa) = TrimSpace (getenv env ''OIDC_AUDIENCE'' []) \<and>
        oc_JWKSURL (oa_cfg oa) = TrimSpace (getenv env ''OIDC_JWKS_URL'' []) \<and> oc_ScopesClaim (oa_cfg oa) = getenv env ''OIDC_SCOPES_CLAIM'' ''scope'')"

lemma FromConfig_lock:
  assumes "FromConfig uni (FromEnv uni fl env name) = Inr auth" and "cf_AuthRequired (FromEnv uni fl env name)"
  shows "\<exists>a. auth = Some a \<and> lock_of_env env a"
proof -
  let ?cfg = "FromEnv uni fl env name"
  have "cf_AuthBearerToken ?cfg = getenv env ''AUTH_BEARER_TOKEN'' []" "cf_OIDCIssuerURL ?cfg = getenv env ''OIDC_ISSUER_URL'' []"
    "cf_OIDCAudience ?cfg = getenv env ''OIDC_AUDIENCE'' []" "cf_OIDCJWKSURL ?cfg = getenv env ''OIDC_JWKS_URL'' []"
    "cf_OIDCScopesClaim ?cfg = getenv env ''OIDC_SCOPES_CLAIM'' ''scope''" "getenv env ''OIDC_SCOPES_CLAIM'' ''scope'' \<noteq> []"
    by (simp_all add: FromEnv_def Let_def getenv_def split: option.split)
  then show ?thesis
    using assms by (auto simp: FromConfig_def lock_of_env_def Let_def NewStaticTokenAuthenticator_def NewOIDCAuthenticator_def
        split: sum.splits if_splits)
qed

text \<open>A value that is neither a yes nor a no counts as not set, so a misspelled \<open>AUTH_REQUIRED\<close> leaves the service open.\<close>

lemma misspelled_switch_opens:
  "FromConfig id (FromEnv id fl [(''AUTH_REQUIRED'', ''enabled''), (''AUTH_MODE'', ''oidc'')] name) = Inr None"
proof -
  have "\<not> getBool id [(''AUTH_REQUIRED'', ''enabled''), (''AUTH_MODE'', ''oidc'')] ''AUTH_REQUIRED'' False" by code_simp
  then show ?thesis by (simp add: FromConfig_def FromEnv_def Let_def)
qed

end
