(* ===== verification/Http_Guard.thy ===== *)
theory Http_Guard
  imports Authn Audit_Trail Admission
begin

text \<open>
  Package \<open>internal/platform/httpguard\<close>: the wrapper around every service's handler that authenticates a request, checks its
  scopes, writes the audit trail and counts requests. The wrapped handler is a parameter with its own state. A float64 is a
  rational with the rounding \<open>fl\<close>, as in \<open>Admission\<close>. The metrics page is the list of its samples; their
  layout as text is not modelled. The audit path is a list of components, empty when it is blank.
\<close>

section \<open>Data\<close>

record scope_rule =
  sr_Method :: string
  sr_Path :: string
  sr_Prefix :: string
  sr_Scopes :: "string list"

record latency_metric =
  lm_buckets :: "nat list"
  lm_sum :: rat
  lm_count :: nat

record guard_metrics =
  gm_service :: string
  gm_requests :: "(string, nat) gomap"
  gm_hist :: "(string, latency_metric) gomap"

record guard =
  gd_service :: string
  gd_authRequired :: bool
  gd_authenticator :: "authenticator option"
  gd_auditPath :: path
  gd_pathRules :: "scope_rule list"
  gd_metrics :: guard_metrics
  gd_buckets :: "rat list"
  gd_fs :: fsys

record audit_entry =
  ae_timestamp :: time
  ae_service :: string
  ae_subject :: string
  ae_method :: string
  ae_path :: string
  ae_status :: nat
  ae_duration_ms :: int
  ae_required_scopes :: "string list"
  ae_reason :: "goerror option"

record guard_env =
  ge_auth :: auth_env
  ge_fl :: "rat \<Rightarrow> rat"
  ge_marshal :: "audit_entry \<Rightarrow> string result"

text \<open>The samples of the metrics page: service, method, path and status, then the value.\<close>

datatype sample =
    RequestsTotal string string string string nat
  | DurationBucket string string string string "rat option" nat
  | DurationSum string string string string rat
  | DurationCount string string string string nat
  | CustomMetric string

datatype 'b guard_reply =
    GuardError goerror
  | GuardMetrics "sample list"
  | Inner 'b

section \<open>Construction\<close>

definition DefaultScopeRules :: "scope_rule list" where
  "DefaultScopeRules =
     map (\<lambda>(path, method, scope). \<lparr>sr_Method = method, sr_Path = path, sr_Prefix = [], sr_Scopes = [scope]\<rparr>)
       [(''/api/native/v1/ingest'', ''POST'', ''ingest:write''), (''/otlp/v1/logs'', ''POST'', ''ingest:write''),
        (''/loki/api/v1/push'', ''POST'', ''ingest:write''), (''/internal/v1/append'', ''POST'', ''ingest:write''),
        (''/api/native/v1/search'', ''POST'', ''query:read''), (''/api/native/v1/tail'', ''POST'', ''query:read''),
        (''/api/native/v1/explain'', ''POST'', ''query:read''), (''/internal/v1/query'', ''POST'', ''query:read''),
        (''/api/v1/query'', ''GET'', ''query:read''), (''/api/v1/query_range'', ''GET'', ''query:read'')]"

definition newMetrics :: "string \<Rightarrow> guard_metrics" where
  "newMetrics service = \<lparr>gm_service = service, gm_requests = [], gm_hist = []\<rparr>"

text \<open>The bounds are the decimal literals of the source, rounded to float64.\<close>

definition Guard_New :: "(rat \<Rightarrow> rat) \<Rightarrow> string \<Rightarrow> bool \<Rightarrow> authenticator option \<Rightarrow> path \<Rightarrow> scope_rule list \<Rightarrow> fsys \<Rightarrow> guard" where
  "Guard_New fl service authRequired auth auditPath scopesByRoute fs =
     \<lparr>gd_service = service, gd_authRequired = authRequired, gd_authenticator = auth, gd_auditPath = auditPath,
      gd_pathRules = (if scopesByRoute = [] then DefaultScopeRules else scopesByRoute), gd_metrics = newMetrics service,
      gd_buckets = map fl [5 / 1000, 10 / 1000, 25 / 1000, 50 / 1000, 100 / 1000, 250 / 1000, 500 / 1000, 1, 2, 5], gd_fs = fs\<rparr>"

section \<open>Authorization\<close>

definition rule_applies :: "string \<Rightarrow> string \<Rightarrow> scope_rule \<Rightarrow> bool" where
  "rule_applies method path rule \<longleftrightarrow>
     (sr_Path rule \<noteq> [] \<and> path = sr_Path rule \<or> sr_Prefix rule \<noteq> [] \<and> starts_with path (sr_Prefix rule)) \<and>
     (sr_Method rule = [] \<or> sr_Method rule = method)"

definition admin_scope :: "string \<Rightarrow> string list" where
  "admin_scope method = (if method = ''GET'' then [''admin:read''] else [''admin:write''])"

definition requiredScopes :: "scope_rule list \<Rightarrow> http_request \<Rightarrow> string list" where
  "requiredScopes rules r =
     (let path = h_Path r; method = h_Method r in
      if path \<in> {''/healthz'', ''/readyz'', ''/info''} then []
      else if path = ''/metrics'' then []
      else if path \<in> {''/otlp/v1/logs'', ''/loki/api/v1/push'', ''/api/native/v1/ingest'', ''/internal/v1/append''} then [''ingest:write'']
      else if path \<in> {''/api/native/v1/search'', ''/api/native/v1/tail'', ''/api/native/v1/explain'', ''/internal/v1/query'', ''/api/v1/query'', ''/api/v1/query_range''} then [''query:read'']
      else if starts_with path ''/api/admin/'' then admin_scope method
      else if starts_with path ''/internal/v1/members'' then admin_scope method
      else if path \<in> {''/internal/v1/ring'', ''/internal/v1/assignment'', ''/internal/v1/rebalance''} then [''admin:read'']
      else if starts_with path ''/api/'' \<or> starts_with path ''/internal/'' then admin_scope method
      else (case find (rule_applies method path) rules of Some rule \<Rightarrow> sr_Scopes rule | None \<Rightarrow> []))"

definition granted :: "string list \<Rightarrow> string list" where
  "granted values = filter (\<lambda>scope. scope \<noteq> []) (map TrimSpace (concat (map (FieldsFunc scope_separator) values)))"

definition hasScopes :: "string list \<Rightarrow> string list \<Rightarrow> bool" where
  "hasScopes headerValues required =
     (if length required = 0 then True
      else list_all (\<lambda>scope. scope \<in> set (granted headerValues)) required)"

text \<open>\<open>None\<close> stands for status 0, a request that may go on.\<close>

definition authorize :: "guard_env \<Rightarrow> guard \<Rightarrow> http_request \<Rightarrow> principal \<times> (nat \<times> goerror) option \<times> guard" where
  "authorize env g r =
     (if \<not> gd_authRequired g then (zero_principal, None, g) else
      case gd_authenticator g of
        None \<Rightarrow> (zero_principal, Some (401, Errorf ''auth is enabled but no authenticator is configured'' []), g)
      | Some a \<Rightarrow>
          (case Authenticate (ge_auth env) a r of
             (Inl err, a) \<Rightarrow> (zero_principal, Some (401, err), g\<lparr>gd_authenticator := Some a\<rparr>)
           | (Inr who, a) \<Rightarrow>
               let g = g\<lparr>gd_authenticator := Some a\<rparr>; required = requiredScopes (gd_pathRules g) r in
               if required = [] then (who, None, g)
               else if \<not> hasScopes (pr_Scopes who) required
               then (zero_principal, Some (403, Errorf ''missing required scopes: %s'' [Join required '','']), g)
               else (who, None, g)))"

section \<open>Audit and metrics\<close>

definition isPrivilegedPath :: "scope_rule list \<Rightarrow> http_request \<Rightarrow> bool" where
  "isPrivilegedPath rules r \<longleftrightarrow> 0 < length (requiredScopes rules r) \<or> starts_with (h_Path r) ''/api/admin/'' \<or> starts_with (h_Path r) ''/internal/v1/''"

text \<open>Writing the line may fail; the result is dropped.\<close>

definition writeAuditLine :: "time \<Rightarrow> guard \<Rightarrow> string \<Rightarrow> guard" where
  "writeAuditLine now g data = g\<lparr>gd_fs := snd (append_line now (gd_fs g) (gd_auditPath g) data)\<rparr>"

definition audit_request :: "guard_env \<Rightarrow> time \<Rightarrow> guard \<Rightarrow> http_request \<Rightarrow> nat \<Rightarrow> duration \<Rightarrow> principal \<Rightarrow> goerror option \<Rightarrow> guard" where
  "audit_request env now g r status elapsed who reason =
     (if gd_auditPath g = [] then g
      else if \<not> isPrivilegedPath (gd_pathRules g) r then g
      else case ge_marshal env \<lparr>ae_timestamp = now, ae_service = gd_service g, ae_subject = pr_Subject who, ae_method = h_Method r,
          ae_path = h_Path r, ae_status = status, ae_duration_ms = quot elapsed millisecond,
          ae_required_scopes = requiredScopes (gd_pathRules g) r, ae_reason = reason\<rparr> of
        Inl _ \<Rightarrow> g | Inr data \<Rightarrow> writeAuditLine now g data)"

definition metric_key :: "string \<Rightarrow> string \<Rightarrow> nat \<Rightarrow> string" where
  "metric_key method path status = method @ ''|'' @ path @ ''|'' @ show_nat status"

definition record_metric :: "(rat \<Rightarrow> rat) \<Rightarrow> guard_metrics \<Rightarrow> string \<Rightarrow> string \<Rightarrow> nat \<Rightarrow> duration \<Rightarrow> rat list \<Rightarrow> guard_metrics" where
  "record_metric fl m method path status elapsed buckets =
     (let key = metric_key method path status;
          n = (case map_of (gm_requests m) key of None \<Rightarrow> 0 | Some n \<Rightarrow> n);
          h = (case map_of (gm_hist m) key of Some h \<Rightarrow> h
            | None \<Rightarrow> \<lparr>lm_buckets = replicate (length buckets) 0, lm_sum = 0, lm_count = 0\<rparr>);
          seconds = Seconds fl elapsed;
          h = h\<lparr>lm_count := lm_count h + 1, lm_sum := fl (lm_sum h + seconds),
            lm_buckets := map2 (\<lambda>upper n. if seconds \<le> upper then n + 1 else n) buckets (lm_buckets h)\<rparr>
      in m\<lparr>gm_requests := AList.update key (n + 1) (gm_requests m), gm_hist := AList.update key h (gm_hist m)\<rparr>)"

definition splitMetricKey :: "string \<Rightarrow> string \<times> string \<times> string" where
  "splitMetricKey key = (case Cut key ''|'' of None \<Rightarrow> ([], [], []) | Some (method, rest) \<Rightarrow>
     case Cut rest ''|'' of None \<Rightarrow> ([], [], []) | Some (path, status) \<Rightarrow> (method, path, status))"

definition render :: "guard_metrics \<Rightarrow> rat list \<Rightarrow> sample list" where
  "render m buckets =
     map (\<lambda>key. case splitMetricKey key of (method, path, status) \<Rightarrow>
         RequestsTotal (gm_service m) method path status (the (map_of (gm_requests m) key))) (sort (map fst (gm_requests m))) @
     concat (map (\<lambda>key. case splitMetricKey key of (method, path, status) \<Rightarrow>
         let h = the (map_of (gm_hist m) key) in
         map2 (\<lambda>upper n. DurationBucket (gm_service m) method path status (Some upper) n) buckets (lm_buckets h) @
         [DurationBucket (gm_service m) method path status None (lm_count h),
          DurationSum (gm_service m) method path status (lm_sum h),
          DurationCount (gm_service m) method path status (lm_count h)]) (sort (map fst (gm_hist m))))"

text \<open>\<open>providers\<close> are the lines of the metric providers that are not nil.\<close>

definition renderMetrics :: "guard \<Rightarrow> string list list \<Rightarrow> sample list" where
  "renderMetrics g providers = render (gd_metrics g) (gd_buckets g) @
     map (\<lambda>line. CustomMetric (if ends_with line [newline] then line else line @ [newline]))
       (filter (\<lambda>line. TrimSpace line \<noteq> []) (concat providers))"

definition handleMetrics :: "guard \<Rightarrow> string list list \<Rightarrow> 'b guard_reply http_response" where
  "handleMetrics g providers =
     \<lparr>h_Status = 200, h_Reply = [(''Content-Type'', ''text/plain; version=0.0.4'')], h_Payload = Some (GuardMetrics (renderMetrics g providers))\<rparr>"

section \<open>The wrapper\<close>

text \<open>\<open>now n\<close> is the \<open>n\<close>th clock reading; \<open>next\<close> is the handler of the service.\<close>

definition Guard_Wrap ::
  "guard_env \<Rightarrow> (nat \<Rightarrow> time) \<Rightarrow> ('s \<Rightarrow> http_request \<Rightarrow> 'b http_response \<times> 's) \<Rightarrow> string list list \<Rightarrow> guard \<Rightarrow> 's \<Rightarrow> http_request \<Rightarrow>
     'b guard_reply http_response \<times> guard \<times> 's" where
  "Guard_Wrap env now next providers g s r =
     (if h_Path r = ''/metrics'' then
        (if h_Method r \<noteq> ''GET'' then (WriteHeader 405, g, s) else (handleMetrics g providers, g, s))
      else case authorize env g r of
        (_, Some (status, err), g) \<Rightarrow>
          let g = audit_request env (now 2) g r status (time_sub (now 1) (now 0)) zero_principal (Some err)
          in (WriteJSON status (GuardError err),
              g\<lparr>gd_metrics := record_metric (ge_fl env) (gd_metrics g) (h_Method r) (h_Path r) status (time_sub (now 3) (now 0)) (gd_buckets g)\<rparr>, s)
      | (who, None, g) \<Rightarrow>
          (case next s r of (res, s) \<Rightarrow>
           let elapsed = time_sub (now 1) (now 0);
               g = audit_request env (now 2) g r (h_Status res) elapsed who None
           in (lift_reply Inner res,
               g\<lparr>gd_metrics := record_metric (ge_fl env) (gd_metrics g) (h_Method r) (h_Path r) (h_Status res) elapsed (gd_buckets g)\<rparr>, s)))"

section \<open>What the wrapper guarantees\<close>

lemma authorize_passes:
  assumes "authorize env g r = (p, None, g')" and "gd_authRequired g" and "pred_option (holds_published (ge_auth env)) (gd_authenticator g)"
  shows "\<exists>a. gd_authenticator g = Some a \<and> credentials (ge_auth env) a r p \<and>
     set (requiredScopes (gd_pathRules g) r) \<subseteq> set (granted (pr_Scopes p))"
  using assms
  by (auto simp: authorize_def Let_def hasScopes_def list_all_iff split: option.splits prod.splits sum.splits if_splits dest: authenticated)

lemma authorize_refuses: "authorize env g r = (p, Some (status, err), g') \<Longrightarrow> status \<in> {401, 403}"
  by (auto simp: authorize_def Let_def split: option.splits prod.splits sum.splits if_splits)

text \<open>The counter and the histogram of a route agree, and no bucket exceeds the count.\<close>

definition wf_metrics :: "guard_metrics \<Rightarrow> bool" where
  "wf_metrics m \<longleftrightarrow> (\<forall>key. map_of (gm_requests m) key = map_option lm_count (map_of (gm_hist m) key) \<and>
     (\<forall>h. map_of (gm_hist m) key = Some h \<longrightarrow> list_all (\<lambda>n. n \<le> lm_count h) (lm_buckets h)))"

lemma wf_newMetrics: "wf_metrics (newMetrics service)"
  by (simp add: wf_metrics_def newMetrics_def)

lemma zip_zeros: "(a, b) \<in> set (zip bs (replicate n 0)) \<Longrightarrow> b = 0"
  by (auto dest: set_zip_rightD)

lemma map2_bounded:
  assumes "list_all (\<lambda>n. n \<le> c) ns"
  shows "list_all (\<lambda>n. n \<le> Suc c) (map2 (\<lambda>upper n. if x \<le> upper then n + 1 else n) bs ns)"
  using assms by (auto simp: list_all_iff dest!: set_zip_rightD split: if_splits)

lemma wf_record_metric [go_inv]:
  assumes "wf_metrics m"
  shows "wf_metrics (record_metric fl m method path status elapsed bs)"
proof -
  let ?k = "metric_key method path status"
  have r: "map_of (gm_requests m) ?k = map_option lm_count (map_of (gm_hist m) ?k)"
    and b: "map_of (gm_hist m) ?k = Some h \<Longrightarrow> list_all (\<lambda>n. n \<le> lm_count h) (lm_buckets h)" for h
    using assms by (auto simp: wf_metrics_def)
  show ?thesis
  proof (cases "map_of (gm_hist m) ?k")
    case None
    then show ?thesis using assms r
      by (auto simp: wf_metrics_def record_metric_def Let_def update_conv' list_all_iff dest: zip_zeros)
  next
    case (Some h)
    then show ?thesis using assms r map2_bounded [OF b [OF Some]]
      by (auto simp: wf_metrics_def record_metric_def Let_def update_conv')
  qed
qed

lemma audit_metrics [simp]: "gd_metrics (audit_request env now g r status elapsed p reason) = gd_metrics g"
  by (simp add: audit_request_def writeAuditLine_def split: sum.split)

lemma authorize_metrics: "authorize env g r = (p, d, g') \<Longrightarrow> gd_metrics g' = gd_metrics g"
  by (auto simp: authorize_def Let_def split: option.splits prod.splits sum.splits if_splits)

lemma wf_Wrap [go_inv]:
  assumes "wf_metrics (gd_metrics g)" and "Guard_Wrap env now next providers g s r = (res, g', s')"
  shows "wf_metrics (gd_metrics g')"
  using assms by (auto simp: Guard_Wrap_def Let_def dest!: authorize_metrics intro!: wf_record_metric split: if_splits prod.splits option.splits)

text \<open>
  When authentication is required, the wrapped handler runs only for a request whose authenticator accepts it and whose principal has
  every scope of the route; any other request leaves the service as it was.
\<close>

lemma wrap_authorized:
  assumes "Guard_Wrap env now next providers g s r = (res, g', s')" and "gd_authRequired g" and "pred_option (holds_published (ge_auth env)) (gd_authenticator g)"
  shows "(\<exists>a p inner. gd_authenticator g = Some a \<and> credentials (ge_auth env) a r p \<and>
        set (requiredScopes (gd_pathRules g) r) \<subseteq> set (granted (pr_Scopes p)) \<and> next s r = (inner, s') \<and> res = lift_reply Inner inner) \<or>
     s' = s \<and> (h_Status res \<in> {401, 403} \<or> h_Path r = ''/metrics'' \<and> h_Status res \<in> {200, 405})"
proof (cases "h_Path r = ''/metrics''")
  case True
  then show ?thesis using assms(1) by (auto simp: Guard_Wrap_def handleMetrics_def split: if_splits)
next
  case False
  obtain p d g1 where a: "authorize env g r = (p, d, g1)" by (cases "authorize env g r") auto
  show ?thesis
  proof (cases d)
    case None
    obtain inner s1 where n: "next s r = (inner, s1)" by (cases "next s r")
    show ?thesis using authorize_passes [OF a [unfolded None] assms(2,3)] assms(1) False a None n by (auto simp: Guard_Wrap_def Let_def)
  next
    case (Some x)
    obtain status err where "x = (status, err)" by (cases x)
    then show ?thesis using authorize_refuses [of env g r p status err g1] assms(1) False a Some by (auto simp: Guard_Wrap_def Let_def)
  qed
qed

definition sample_auth :: auth_env where
  "sample_auth = \<lparr>jw_upper = id, jw_header = (\<lambda>_. Inl ErrUnauthorized), jw_verify = (\<lambda>_ _. Inl ErrUnauthorized), jw_fetch = (\<lambda>_. Inl ErrNotExist),
     jw_decode = (\<lambda>_. Inl ErrNotExist)\<rparr>"

definition sample_guard_env :: guard_env where
  "sample_guard_env = \<lparr>ge_auth = sample_auth, ge_fl = id, ge_marshal = (\<lambda>e. Inr (ae_path e))\<rparr>"

definition sample_guard :: guard where
  "sample_guard = Guard_New id ''gateway'' True (Some (NewStaticTokenAuthenticator ''secret'')) [] [] \<lparr>fs_files = [], fs_dirs = [], fs_faults = []\<rparr>"

definition sample_admin_request :: "string list \<Rightarrow> http_request" where
  "sample_admin_request scopes = \<lparr>h_Method = ''PUT'', h_Path = ''/api/admin/tenants/default/limits'', h_Query = [],
     h_Header = [(''Authorization'', [''Bearer secret'']), (''X-Scopes'', scopes)], h_Body = []\<rparr>"

text \<open>
  With the static token the scopes are those the client claims in a header of its own request: the
  same client that is refused without the header passes with it.
\<close>

lemma scopes_self_asserted:
  "map_option fst (fst (snd (authorize sample_guard_env sample_guard (sample_admin_request [])))) = Some 403"
  "map_option fst (fst (snd (authorize sample_guard_env sample_guard (sample_admin_request [''admin:write''])))) = None"
  by code_simp+

end
