(* ===== verification/Runtime.thy ===== *)
theory Runtime
  imports Config Http_Guard
begin

text \<open>
  How a service starts: \<open>internal/platform/tlsconfig\<close>, \<open>internal/platform/tracing\<close> and \<open>internal/platform/runtime\<close>. Reading certificates
  and the tracing library are parameters; the listener itself and the shutdown on a signal are not modelled. A request that
  arrives runs through the tracing wrapper and the guard into the handler of the service.
\<close>

section \<open>TLS\<close>

record ('c, 'p) tls_env =
  tl_LoadX509KeyPair :: "string \<Rightarrow> string \<Rightarrow> 'c result"
  tl_ReadFile :: "string \<Rightarrow> string result"
  tl_AppendCertsFromPEM :: "string \<Rightarrow> 'p option"

datatype client_auth = NoClientCert | VerifyClientCertIfGiven | RequireAndVerifyClientCert

record ('c, 'p) tls_config =
  tls_Certificates :: "'c list"
  tls_MinVersion :: nat
  tls_ClientCAs :: "'p option"
  tls_ClientAuth :: client_auth
  tls_InsecureSkipVerify :: bool
  tls_ServerName :: string
  tls_RootCAs :: "'p option"

definition VersionTLS12 :: nat where "VersionTLS12 = 0x0303"

definition loadCertPool :: "('c, 'p) tls_env \<Rightarrow> string \<Rightarrow> 'p result" where
  "loadCertPool env path = (case tl_ReadFile env path of Inl err \<Rightarrow> Inl err | Inr data \<Rightarrow>
     (case tl_AppendCertsFromPEM env data of None \<Rightarrow> Inl (Errorf ''failed to parse certificates from %s'' [path]) | Some pool \<Rightarrow> Inr pool))"

text \<open>A nil configuration, which leaves the service on plain HTTP, is \<open>None\<close>.\<close>

definition ServerConfig :: "('c, 'p) tls_env \<Rightarrow> config \<Rightarrow> ('c, 'p) tls_config option result" where
  "ServerConfig env cfg =
     (if \<not> cf_TLSEnabled cfg \<and> cf_TLSCertFile cfg = [] \<and> cf_TLSKeyFile cfg = [] \<and> cf_TLSClientCAFile cfg = [] then Inr None
      else if cf_TLSCertFile cfg = [] \<or> cf_TLSKeyFile cfg = [] then Inl (Errorf ''tls cert and key files are required when tls is enabled'' [])
      else case tl_LoadX509KeyPair env (cf_TLSCertFile cfg) (cf_TLSKeyFile cfg) of Inl err \<Rightarrow> Inl err | Inr cert \<Rightarrow>
      let tlsCfg = \<lparr>tls_Certificates = [cert], tls_MinVersion = VersionTLS12, tls_ClientCAs = None, tls_ClientAuth = NoClientCert,
            tls_InsecureSkipVerify = False, tls_ServerName = [], tls_RootCAs = None\<rparr> in
      if TrimSpace (cf_TLSClientCAFile cfg) \<noteq> [] then
        (case loadCertPool env (cf_TLSClientCAFile cfg) of Inl err \<Rightarrow> Inl err | Inr pool \<Rightarrow>
         Inr (Some (tlsCfg\<lparr>tls_ClientCAs := Some pool,
           tls_ClientAuth := (if cf_TLSRequireClientCert cfg then RequireAndVerifyClientCert else VerifyClientCertIfGiven)\<rparr>)))
      else if cf_TLSRequireClientCert cfg then Inl (Errorf ''tls client ca file is required when client certs are required'' [])
      else Inr (Some tlsCfg))"

definition ClientConfig :: "('c, 'p) tls_env \<Rightarrow> config \<Rightarrow> ('c, 'p) tls_config option result" where
  "ClientConfig env cfg =
     (if cf_TLSClientCertFile cfg = [] \<and> cf_TLSClientKeyFile cfg = [] \<and> cf_TLSRootCAFile cfg = [] \<and> \<not> cf_TLSSkipVerify cfg \<and> cf_TLSServerName cfg = []
      then Inr None else
      let tlsCfg = \<lparr>tls_Certificates = [], tls_MinVersion = VersionTLS12, tls_ClientCAs = None, tls_ClientAuth = NoClientCert,
            tls_InsecureSkipVerify = cf_TLSSkipVerify cfg, tls_ServerName = cf_TLSServerName cfg, tls_RootCAs = None\<rparr> in
      case (if TrimSpace (cf_TLSRootCAFile cfg) \<noteq> [] then map_sum id (\<lambda>pool. tlsCfg\<lparr>tls_RootCAs := Some pool\<rparr>) (loadCertPool env (cf_TLSRootCAFile cfg))
            else Inr tlsCfg) of
        Inl err \<Rightarrow> Inl err
      | Inr tlsCfg \<Rightarrow>
          if cf_TLSClientCertFile cfg \<noteq> [] \<or> cf_TLSClientKeyFile cfg \<noteq> [] then
            (if cf_TLSClientCertFile cfg = [] \<or> cf_TLSClientKeyFile cfg = [] then Inl (Errorf ''tls client cert and key files are both required'' [])
             else case tl_LoadX509KeyPair env (cf_TLSClientCertFile cfg) (cf_TLSClientKeyFile cfg) of Inl err \<Rightarrow> Inl err
             | Inr cert \<Rightarrow> Inr (Some (tlsCfg\<lparr>tls_Certificates := [cert]\<rparr>)))
          else Inr (Some tlsCfg))"

text \<open>The client is given by the TLS configuration of its transport, the default one where there is none.\<close>

definition HTTPClient :: "('c, 'p) tls_env \<Rightarrow> config \<Rightarrow> ('c, 'p) tls_config option result" where
  "HTTPClient env cfg = (case ClientConfig env cfg of Inl err \<Rightarrow> Inl err | Inr None \<Rightarrow> Inr None | Inr (Some tlsCfg) \<Rightarrow> Inr (Some tlsCfg))"

section \<open>Tracing\<close>

datatype exporter = OTLPExporter string bool | StdoutExporter

record 'x tracing_env =
  tr_NewExporter :: "exporter \<Rightarrow> 'x result"
  tr_NewResource :: "string \<Rightarrow> goerror option"

record tracing_config =
  tc_ServiceName :: string
  tc_Enabled :: bool
  tc_Exporter :: string
  tc_Endpoint :: string
  tc_Insecure :: bool

record span =
  sp_Name :: string
  sp_Method :: string
  sp_Path :: string
  sp_Status :: nat
  sp_Error :: "goerror option"

text \<open>\<open>strings.EqualFold\<close> with a text none of whose letters has another case outside ASCII.\<close>

definition EqualFold :: "string \<Rightarrow> string \<Rightarrow> bool" where
  "EqualFold s t \<longleftrightarrow> map ascii_lower s = map ascii_lower t"

definition buildExporter :: "'x tracing_env \<Rightarrow> tracing_config \<Rightarrow> 'x result" where
  "buildExporter env cfg = (if EqualFold (tc_Exporter cfg) ''otlp'' \<and> TrimSpace (tc_Endpoint cfg) \<noteq> []
     then tr_NewExporter env (OTLPExporter (tc_Endpoint cfg) (tc_Insecure cfg)) else tr_NewExporter env StdoutExporter)"

text \<open>\<open>None\<close> is tracing switched off.\<close>

definition Setup :: "'x tracing_env \<Rightarrow> tracing_config \<Rightarrow> 'x option result" where
  "Setup env cfg =
     (if \<not> tc_Enabled cfg then Inr None else
      case buildExporter env cfg of Inl err \<Rightarrow> Inl err | Inr ex \<Rightarrow>
      case tr_NewResource env (tc_ServiceName cfg) of Some err \<Rightarrow> Inl err | None \<Rightarrow> Inr (Some ex))"

definition WrapHandler :: "('s \<Rightarrow> http_request \<Rightarrow> 'b http_response \<times> 's) \<Rightarrow> 's \<Rightarrow> http_request \<Rightarrow> 'b http_response \<times> 's \<times> span" where
  "WrapHandler next s r = (case next s r of (res, s) \<Rightarrow>
     (res, s, \<lparr>sp_Name = h_Method r @ '' '' @ h_Path r, sp_Method = h_Method r, sp_Path = h_Path r, sp_Status = h_Status res,
        sp_Error = (if 500 \<le> h_Status res then Some (Errorf ''http %s %s returned %d'' [h_Method r, h_Path r, show_nat (h_Status res)]) else None)\<rparr>))"

section \<open>Starting a service\<close>

record ('c, 'p, 'x) runtime_env =
  re_uni :: "string \<Rightarrow> string"
  re_tls :: "('c, 'p) tls_env"
  re_tracing :: "'x tracing_env"
  re_path :: "string \<Rightarrow> path"
  re_guard :: guard_env

text \<open>
  What \<open>RunHTTP\<close> builds before it listens: the guard around the handler and the TLS configuration of the listener. The empty path of
  an audit log is the blank text, for which the guard writes none.
\<close>

definition RunHTTP :: "('c, 'p, 'x) runtime_env \<Rightarrow> config \<Rightarrow> fsys \<Rightarrow> (guard \<times> ('c, 'p) tls_config option) result" where
  "RunHTTP env cfg fs =
     (case FromConfig (re_uni env) cfg of Inl err \<Rightarrow> Inl err | Inr auth \<Rightarrow>
      case Setup (re_tracing env) \<lparr>tc_ServiceName = cf_ServiceName cfg, tc_Enabled = cf_TraceEnabled cfg, tc_Exporter = cf_TraceExporter cfg,
          tc_Endpoint = cf_TraceEndpoint cfg, tc_Insecure = cf_TraceInsecure cfg\<rparr> of Inl err \<Rightarrow> Inl err | Inr _ \<Rightarrow>
      case ServerConfig (re_tls env) cfg of Inl err \<Rightarrow> Inl err | Inr serverTLS \<Rightarrow>
      Inr (Guard_New (ge_fl (re_guard env)) (cf_ServiceName cfg) (cf_AuthRequired cfg) auth
        (if TrimSpace (cf_AuditLogPath cfg) = [] then [] else re_path env (cf_AuditLogPath cfg)) [] fs, serverTLS))"

text \<open>The handler the server is given; its state is the guard's and the service's.\<close>

definition serve ::
  "('c, 'p, 'x) runtime_env \<Rightarrow> (nat \<Rightarrow> time) \<Rightarrow> ('s \<Rightarrow> http_request \<Rightarrow> 'b http_response \<times> 's) \<Rightarrow> string list list \<Rightarrow> guard \<times> 's \<Rightarrow> http_request \<Rightarrow>
     'b guard_reply http_response \<times> (guard \<times> 's) \<times> span" where
  "serve env now next providers = WrapHandler (\<lambda>(g, s) r. Guard_Wrap (re_guard env) now next providers g s r)"

text \<open>
  How \<open>RunHTTP\<close> ends. The listener stops with an error, which is sent on unless it reports the shutdown itself; or the process is
  interrupted and the server is shut down. \<open>None\<close> is a service that still serves.
\<close>

datatype http_event = ListenerStopped goerror | Interrupted

definition ErrServerClosed :: goerror where
  "ErrServerClosed = IOError ''http: Server closed''"

fun await_http :: "goerror option \<Rightarrow> http_event list \<Rightarrow> goerror option option" where
  "await_http shutdown [] = None"
| "await_http shutdown (ListenerStopped err # es) = (if errors_is err ErrServerClosed then await_http shutdown es else Some (Some err))"
| "await_http shutdown (Interrupted # es) = Some shutdown"

lemma await_returns:
  "await_http shutdown es \<noteq> None \<longleftrightarrow> Interrupted \<in> set es \<or> (\<exists>err. ListenerStopped err \<in> set es \<and> \<not> errors_is err ErrServerClosed)"
  by (induction shutdown es rule: await_http.induct) auto

section \<open>What a running service guarantees\<close>

text \<open>The guards a service goes through while it serves requests.\<close>

inductive serving :: "('c, 'p, 'x) runtime_env \<Rightarrow> ('s \<Rightarrow> http_request \<Rightarrow> 'b http_response \<times> 's) \<Rightarrow> guard \<Rightarrow> guard \<times> 's \<Rightarrow> bool" for env H g0 where
  started: "serving env H g0 (g0, s)"
| request: "serving env H g0 st \<Longrightarrow> serving env H g0 (fst (snd (serve env now H providers st r)))"

text \<open>Two states of an authenticator that ask for the same credentials.\<close>

definition same_lock :: "authenticator option \<Rightarrow> authenticator option \<Rightarrow> bool" where
  "same_lock a b \<longleftrightarrow> (case (a, b) of (None, None) \<Rightarrow> True | (Some (StaticTokenAuthenticator t), Some (StaticTokenAuthenticator u)) \<Rightarrow> t = u
     | (Some (OIDCAuthenticator o1), Some (OIDCAuthenticator o2)) \<Rightarrow> oa_cfg o1 = oa_cfg o2 | _ \<Rightarrow> False)"

lemma same_lock_refl [simp]: "same_lock a a"
  by (auto simp: same_lock_def split: option.split authenticator.split)

lemma same_lock_trans: "same_lock a b \<Longrightarrow> same_lock b c \<Longrightarrow> same_lock a c"
  by (auto simp: same_lock_def split: option.splits authenticator.splits)

lemma same_lock_credentials: "same_lock (Some a) (Some b) \<Longrightarrow> credentials env b r p \<Longrightarrow> credentials env a r p"
  by (auto simp: same_lock_def credentials_def split: authenticator.splits)

lemma OIDC_cfg: "oa_cfg (snd (OIDC_Authenticate env a r)) = oa_cfg a"
  by (auto simp: OIDC_Authenticate_def split: option.splits sum.splits prod.splits dest: parse_cfg)

lemma Authenticate_lock: "same_lock (Some a) (Some (snd (Authenticate env a r)))"
  using OIDC_cfg by (auto simp: same_lock_def Authenticate_def split: authenticator.splits)

lemma authorize_lock:
  assumes "authorize env g r = (p, d, g')"
  shows "gd_authRequired g' = gd_authRequired g" "gd_pathRules g' = gd_pathRules g" "same_lock (gd_authenticator g) (gd_authenticator g')"
    "pred_option (holds_published (ge_auth env)) (gd_authenticator g) \<Longrightarrow> pred_option (holds_published (ge_auth env)) (gd_authenticator g')"
  using assms Authenticate_lock [of "the (gd_authenticator g)" "ge_auth env" r] Authenticate_published [of "ge_auth env" "the (gd_authenticator g)" r]
  by (auto simp: authorize_def Let_def split: option.splits prod.splits sum.splits if_splits)

lemma audit_lock [simp]:
  "gd_authRequired (audit_request env now g r status elapsed p reason) = gd_authRequired g"
  "gd_pathRules (audit_request env now g r status elapsed p reason) = gd_pathRules g"
  "gd_authenticator (audit_request env now g r status elapsed p reason) = gd_authenticator g"
  by (simp_all add: audit_request_def writeAuditLine_def split: sum.split)

lemma Wrap_lock:
  assumes "Guard_Wrap env now H providers g s r = (res, g', s')"
  shows "gd_authRequired g' = gd_authRequired g \<and> gd_pathRules g' = gd_pathRules g \<and> same_lock (gd_authenticator g) (gd_authenticator g') \<and>
    (pred_option (holds_published (ge_auth env)) (gd_authenticator g) \<longrightarrow> pred_option (holds_published (ge_auth env)) (gd_authenticator g'))"
proof -
  obtain p d g1 where a: "authorize env g r = (p, d, g1)" by (cases "authorize env g r") auto
  show ?thesis using assms authorize_lock [OF a] a by (auto simp: Guard_Wrap_def Let_def split: if_splits prod.splits option.splits)
qed

text \<open>Serving requests changes neither what the guard asks for nor from whom.\<close>

lemma serving_lock:
  assumes "serving env H g0 st" and "pred_option (holds_published (ge_auth (re_guard env))) (gd_authenticator g0)"
  shows "gd_authRequired (fst st) = gd_authRequired g0 \<and> gd_pathRules (fst st) = gd_pathRules g0 \<and>
     same_lock (gd_authenticator g0) (gd_authenticator (fst st)) \<and> pred_option (holds_published (ge_auth (re_guard env))) (gd_authenticator (fst st))"
  using assms(1)
proof (induction rule: serving.induct)
  case (started s)
  then show ?case using assms(2) by simp
next
  case (request st now providers r)
  obtain g s where st: "st = (g, s)" by (cases st)
  obtain res g' s' where w: "Guard_Wrap (re_guard env) now H providers g s r = (res, g', s')" by (metis prod.exhaust)
  show ?case using request.IH Wrap_lock [OF w] w st by (auto simp: serve_def WrapHandler_def intro: same_lock_trans)
qed

lemma RunHTTP_guard:
  assumes "RunHTTP env cfg fs = Inr (g, tls)"
  shows "FromConfig (re_uni env) cfg = Inr (gd_authenticator g)" "gd_authRequired g = cf_AuthRequired cfg" "gd_pathRules g = DefaultScopeRules"
  using assms by (auto simp: RunHTTP_def Guard_New_def split: sum.splits)

text \<open>A service starts without any key.\<close>

lemma FromConfig_published: "FromConfig uni cfg = Inr a \<Longrightarrow> pred_option (holds_published aenv) a"
  by (auto simp: FromConfig_def NewStaticTokenAuthenticator_def NewOIDCAuthenticator_def holds_published_def keys_published_def Let_def
      split: sum.splits if_splits)

text \<open>Asking for client certificates without a certificate of its own leaves a service on plain HTTP.\<close>

lemma client_certificates_not_required:
  assumes "\<not> cf_TLSEnabled cfg" and "cf_TLSCertFile cfg = []" and "cf_TLSKeyFile cfg = []" and "cf_TLSClientCAFile cfg = []"
  shows "ServerConfig env (cfg\<lparr>cf_TLSRequireClientCert := True\<rparr>) = Inr None"
  using assms by (simp add: ServerConfig_def)

section \<open>Property\<close>


definition guarded_environ :: environment where
  "guarded_environ = [(''AUTH_REQUIRED'', ''true''), (''AUTH_BEARER_TOKEN'', ''secret''), (''QUEUE_PARTITIONS'', ''1'')]"

definition sample_runtime :: "(unit, unit, unit) runtime_env" where
  "sample_runtime = \<lparr>re_uni = id, re_tls = \<lparr>tl_LoadX509KeyPair = (\<lambda>_ _. Inl ErrNotExist), tl_ReadFile = (\<lambda>_. Inl ErrNotExist), tl_AppendCertsFromPEM = (\<lambda>_. None)\<rparr>,
     re_tracing = \<lparr>tr_NewExporter = (\<lambda>_. Inr ()), tr_NewResource = (\<lambda>_. None)\<rparr>, re_path = (\<lambda>_. []), re_guard = sample_guard_env\<rparr>"

definition counting :: "nat \<Rightarrow> http_request \<Rightarrow> unit http_response \<times> nat" where
  "counting s r = (WriteHeader 204, s + 1)"

lemma guarded_runs:
  "RunHTTP sample_runtime (FromEnv id id guarded_environ name) fs = Inr (Guard_New id name True (Some (NewStaticTokenAuthenticator ''secret'')) [] [] fs, None)"
proof -
  let ?cfg = "FromEnv id id guarded_environ name"
  have "cf_AuthRequired ?cfg" "cf_AuthMode ?cfg = ''static''" "cf_AuthBearerToken ?cfg = ''secret''" "\<not> cf_TraceEnabled ?cfg"
    "\<not> cf_TLSEnabled ?cfg" "cf_TLSCertFile ?cfg = []" "cf_TLSKeyFile ?cfg = []" "cf_TLSClientCAFile ?cfg = []" "cf_ServiceName ?cfg = name"
    unfolding FromEnv_def Let_def guarded_environ_def by (simp_all add: getenv_def, code_simp+)
  moreover have "ToLower id (TrimSpace ''static'') = ''static''" by code_simp
  ultimately show ?thesis
    by (simp add: RunHTTP_def FromConfig_def Setup_def ServerConfig_def sample_runtime_def sample_guard_env_def)
qed

lemma sample_service:
  "RunHTTP sample_runtime (FromEnv id id guarded_environ ''gateway'') \<lparr>fs_files = [], fs_dirs = [], fs_faults = []\<rparr> = Inr (sample_guard, None)"
  by (simp add: guarded_runs sample_guard_def)


end
