(* ===== verification/Commands.thy ===== *)
theory Commands
  imports Runtime Gateway_Correct Kafka Query_Frontend Compactor Control_Plane Distributor
begin

text \<open>
  The commands of \<open>cmd/*/main.go\<close>: from the environment of a process to the service it runs. A command that calls \<open>log.Fatal\<close> is
  \<open>Fatal\<close>; one that listens is \<open>Running\<close>, with its server, its guard and the TLS configuration. The
  engine and the compactor are modelled over the files below their data directory: a command whose configuration names a database is
  \<open>OnDatabase\<close>. The remaining parts of the compactor and of the query frontend that take a configuration are here too.
\<close>

section \<open>The engine of a command\<close>

datatype 'a process = Fatal goerror | Running 'a | OnDatabase

definition on_files :: "config \<Rightarrow> bool" where
  "on_files cfg \<longleftrightarrow> cf_TenantDSN cfg = [] \<and> cf_ManifestDSN cfg = []"

text \<open>The log distinguishes the empty text, \<open>always\<close> and everything else.\<close>

definition SyncMode :: "string \<Rightarrow> sync_mode" where
  "SyncMode mode = (if mode = [] then SyncUnset else if mode = ''always'' then SyncAlways else SyncNever)"

definition command_options :: "config \<Rightarrow> engine_options" where
  "command_options cfg = \<lparr>ChunkMaxEvents = cf_ChunkMaxEvents cfg, ChunkMaxBytes = cf_ChunkMaxBytes cfg, ChunkMaxDuration = cf_ChunkMaxDuration cfg,
     eo_QueryCacheEntries = cf_QueryCacheEntries cfg, eo_QueryCacheTTL = cf_QueryCacheTTL cfg, eo_ChunkCacheEntries = cf_ChunkCacheEntries cfg,
     JSONIgnoreError = cf_JSONIgnoreError cfg, EnableLogfmt = cf_EnableLogfmt cfg, WALMaxSegmentBytes = cf_WALMaxSegmentBytes cfg,
     WALSyncMode = SyncMode (cf_WALSyncMode cfg), SegmentBucket = cf_SegmentBucket cfg\<rparr>"

text \<open>The options \<open>ObjectStoreRetries\<close> and \<open>ObjectStoreBackoff\<close> shape the object store of the engine.\<close>

definition command_env :: "('re, fsys) engine_env \<Rightarrow> (duration \<Rightarrow> goerror option) \<Rightarrow> config \<Rightarrow> ('re, fsys) engine_env" where
  "command_env env sleep cfg = env\<lparr>ee_ops := default_objects (ee_sha env) sleep (cf_ObjectStoreRetries cfg) (cf_ObjectStoreBackoff cfg)\<rparr>"

definition start_engine ::
  "('re, fsys) engine_env \<Rightarrow> wal_io \<Rightarrow> time \<Rightarrow> (string, string) gomap \<times> fsys \<times> fsys \<Rightarrow> config \<Rightarrow> fsys engine result" where
  "start_engine env io now dir cfg =
     (case NewWithOptions env io now dir (command_options cfg) of Inl err \<Rightarrow> Inl err | Inr eng \<Rightarrow>
      case Engine_Replay env eng of (Inl err, eng) \<Rightarrow> Inl err | (Inr _, eng) \<Rightarrow> Inr eng)"

text \<open>The last step of every command.\<close>

definition run_service ::
  "('c, 'p, 'x) runtime_env \<Rightarrow> config \<Rightarrow> fsys \<Rightarrow> 's \<Rightarrow> ('s \<times> guard \<times> ('c, 'p) tls_config option) process" where
  "run_service renv cfg fs server = (case RunHTTP renv cfg fs of Inl err \<Rightarrow> Fatal err | Inr (guard, tls) \<Rightarrow> Running (server, guard, tls))"

section \<open>The gateway\<close>

datatype ('o, 'k) gateway_server = OverMemory "('o, memory_broker) gateway" | OverKafka "('o, 'k kafka_broker) gateway"

definition gateway_main ::
  "('re, fsys) engine_env \<Rightarrow> (duration \<Rightarrow> goerror option) \<Rightarrow> ('c, 'p, 'x) runtime_env \<Rightarrow> (rat \<Rightarrow> rat) \<Rightarrow> wal_io \<Rightarrow> time \<Rightarrow>
     (string, string) gomap \<times> fsys \<times> fsys \<Rightarrow> 'k \<Rightarrow> fsys \<Rightarrow> environment \<Rightarrow>
     ((fsys, 'k) gateway_server \<times> guard \<times> ('c, 'p) tls_config option) process" where
  "gateway_main env sleep renv fl io now dir client fs environ =
     (let cfg = FromEnv (re_uni renv) fl environ ''gateway'' in
      if \<not> on_files cfg then OnDatabase else
      case start_engine (command_env env sleep cfg) io now dir cfg of Inl err \<Rightarrow> Fatal err | Inr eng \<Rightarrow>
      run_service renv cfg fs
        (if cf_QueueBackend cfg = ''kafka''
         then OverKafka (NewQueuedServer eng (NewKafkaBroker client \<lparr>kc_Brokers = cf_KafkaBrokers cfg, kc_GroupID = ''gateway-local-writers'',
           kc_Partitions = cf_QueuePartitions cfg, kc_AutoCreate = True, kc_WriteTimeout = 0\<rparr>))
         else OverMemory (NewQueuedServer eng (NewMemoryBroker (cf_QueuePartitions cfg)))))"

text \<open>A request to a running gateway passes the tracing wrapper and the guard, whose metrics include those of the queue.\<close>

definition gateway_serves ::
  "('c, 'p, 'x) runtime_env \<Rightarrow> ('re, 'o, memory_broker, 'v) gateway_env \<Rightarrow> guard \<times> ('o, memory_broker) gateway \<Rightarrow> (nat \<Rightarrow> time) \<times> ticks \<times> http_request \<Rightarrow>
     guard \<times> ('o, memory_broker) gateway" where
  "gateway_serves renv env = (\<lambda>(guard, g) (now, tk, r).
     fst (snd (serve renv now (\<lambda>g r. Gateway_Handler env tk r g) [CustomMetrics env g] (guard, g) r)))"

section \<open>The query frontend and the querier\<close>

text \<open>\<open>dial\<close> is the transport of a client with the given TLS configuration.\<close>

record ('c, 'p) client_env =
  cl_marshal :: "query_request \<Rightarrow> string result"
  cl_bad_url :: "string \<Rightarrow> goerror option"
  cl_dial :: "('c, 'p) tls_config option \<Rightarrow> string \<Rightarrow> http_request \<Rightarrow> (nat \<times> string \<times> string result) result"
  cl_unmarshal :: "string \<Rightarrow> query_result result"

definition NewHTTPQuerierClientFromConfig :: "('c, 'p) client_env \<Rightarrow> ('c, 'p) tls_env \<Rightarrow> string \<Rightarrow> config \<Rightarrow> querier_client result" where
  "NewHTTPQuerierClientFromConfig cl tls baseURL cfg =
     (case HTTPClient tls cfg of Inl err \<Rightarrow> Inl err | Inr conf \<Rightarrow>
      Inr (NewHTTPQuerierClient baseURL (cl_marshal cl) (cl_bad_url cl) (cl_dial cl conf) (cl_unmarshal cl)))"

definition query_frontend_main ::
  "('re, fsys) engine_env \<Rightarrow> (duration \<Rightarrow> goerror option) \<Rightarrow> ('c, 'p, 'x) runtime_env \<Rightarrow> (rat \<Rightarrow> rat) \<Rightarrow> wal_io \<Rightarrow> time \<Rightarrow>
     (string, string) gomap \<times> fsys \<times> fsys \<Rightarrow> ('c, 'p) client_env \<Rightarrow> fsys \<Rightarrow> environment \<Rightarrow>
     ((fsys engine \<times> worker list) \<times> guard \<times> ('c, 'p) tls_config option) process" where
  "query_frontend_main env sleep renv fl io now dir cl fs environ =
     (let cfg = FromEnv (re_uni renv) fl environ ''query-frontend'' in
      if \<not> on_files cfg then OnDatabase else
      case start_engine (command_env env sleep cfg) io now dir cfg of Inl err \<Rightarrow> Fatal err | Inr eng \<Rightarrow>
      case collect (\<lambda>url. NewHTTPQuerierClientFromConfig cl (re_tls renv) url cfg) (cf_QuerierURLs cfg) of Inl err \<Rightarrow> Fatal err | Inr clients \<Rightarrow>
      run_service renv cfg fs (eng, map (\<lambda>c _. Client_Execute c) clients))"

definition querier_main ::
  "('re, fsys) engine_env \<Rightarrow> (duration \<Rightarrow> goerror option) \<Rightarrow> ('c, 'p, 'x) runtime_env \<Rightarrow> (rat \<Rightarrow> rat) \<Rightarrow> wal_io \<Rightarrow> time \<Rightarrow>
     (string, string) gomap \<times> fsys \<times> fsys \<Rightarrow> fsys \<Rightarrow> environment \<Rightarrow> (fsys engine \<times> guard \<times> ('c, 'p) tls_config option) process" where
  "querier_main env sleep renv fl io now dir fs environ =
     (let cfg = FromEnv (re_uni renv) fl environ ''querier'' in
      if \<not> on_files cfg then OnDatabase else
      case start_engine (command_env env sleep cfg) io now dir cfg of Inl err \<Rightarrow> Fatal err | Inr eng \<Rightarrow> run_service renv cfg fs eng)"

section \<open>The control plane and the distributor\<close>

definition control_plane_main ::
  "control_env \<Rightarrow> ('c, 'p, 'x) runtime_env \<Rightarrow> (rat \<Rightarrow> rat) \<Rightarrow> time \<Rightarrow> fsys \<Rightarrow> fsys \<Rightarrow> environment \<Rightarrow>
     (control_plane \<times> guard \<times> ('c, 'p) tls_config option) process" where
  "control_plane_main env renv fl now dir fs environ =
     (case ControlPlane_NewServer env now dir of Inl err \<Rightarrow> Fatal err | Inr server \<Rightarrow>
      run_service renv (FromEnv (re_uni renv) fl environ ''control-plane'') fs server)"

definition distributor_main ::
  "snapshot_codec \<Rightarrow> ('c, 'p, 'x) runtime_env \<Rightarrow> (rat \<Rightarrow> rat) \<Rightarrow> (nat \<Rightarrow> time) \<Rightarrow> fsys \<Rightarrow> fsys \<Rightarrow> environment \<Rightarrow>
     (memory_backend distributor \<times> guard \<times> ('c, 'p) tls_config option) process" where
  "distributor_main codec renv fl now dir fs environ =
     run_service renv (FromEnv (re_uni renv) fl environ ''distributor'') fs (Distributor_NewServer codec now dir)"

section \<open>The compactor\<close>

text \<open>\<open>None\<close> is a repository in a database.\<close>

definition buildTenantRepo :: "snapshot_codec \<Rightarrow> time \<Rightarrow> fsys \<Rightarrow> config \<Rightarrow> tenant_store option result" where
  "buildTenantRepo codec now dir cfg =
     (if cf_TenantDSN cfg \<noteq> [] then Inr None
      else map_sum id Some (fst (NewPersistentStore codec now dir [''control'', ''tenants.json''])))"

definition buildManifestRepo :: "config \<Rightarrow> memory_repository option" where
  "buildManifestRepo cfg = (if cf_ManifestDSN cfg \<noteq> [] then None else Some NewMemoryRepository)"

definition compactor_objects :: "(string \<Rightarrow> string) \<Rightarrow> (duration \<Rightarrow> goerror option) \<Rightarrow> config \<Rightarrow> fsys object_ops" where
  "compactor_objects sha sleep cfg =
     (let retries = NewRetryingStore (cf_ObjectStoreRetries cfg) (cf_ObjectStoreBackoff cfg) in
      \<lparr>oo_Put = RetryingStore_Put sleep retries (FileStore_Put sha), oo_Get = (\<lambda>fs key. fst (RetryingStore_Get (FileStore_Get sha) fs key)),
       oo_List = (\<lambda>fs prefx. fst (RetryingStore_List (FileStore_List sha) fs prefx)),
       oo_Delete = RetryingStore_Delete sleep retries FileStore_Delete\<rparr>)"

definition Compactor_NewServer :: "snapshot_codec \<Rightarrow> time \<Rightarrow> fsys \<times> fsys \<Rightarrow> config \<Rightarrow> fsys compactor option result" where
  "Compactor_NewServer codec now dir cfg =
     (case buildTenantRepo codec now (fst dir) cfg of Inl err \<Rightarrow> Inl err | Inr tenants \<Rightarrow>
      case (tenants, buildManifestRepo cfg) of
        (Some tenants, Some manifests) \<Rightarrow> Inr (Some \<lparr>cp_tenants = tenants, cp_manifests = Some manifests, cp_objects = snd dir,
            cp_dataDir = cf_DataDir cfg, cp_lastRun = zero_metrics\<rparr>)
      | _ \<Rightarrow> Inr None)"

datatype compactor_reply = CompactorBase base_reply | CompactorReply compact_reply

definition Compactor_Handler ::
  "('m, 'o) compactor_env \<Rightarrow> (string \<Rightarrow> compact_request result) \<Rightarrow> time \<times> time \<times> time \<Rightarrow> (nat \<Rightarrow> nat \<Rightarrow> time) \<Rightarrow> 'o compactor \<Rightarrow> http_request \<Rightarrow>
     compactor_reply http_response \<times> 'o compactor" where
  "Compactor_Handler env decode clock now s r =
     (case RegisterBaseRoutes Compactor_Descriptor (fst clock) r of Some res \<Rightarrow> (lift_reply CompactorBase res, s) | None \<Rightarrow>
      if h_Path r = ''/internal/v1/compact'' then apfst (lift_reply CompactorReply) (handleCompact env decode clock now s r)
      else if h_Path r = ''/internal/v1/status'' then (lift_reply CompactorReply (handleStatus s r), s)
      else (NotFound, s))"

definition compactor_metric :: "(string \<Rightarrow> string) \<Rightarrow> string \<Rightarrow> string \<Rightarrow> string" where
  "compactor_metric quote name v = name @ ''{service='' @ Quote quote ''compactor'' @ ''} '' @ v @ [newline]"

text \<open>\<open>fmt_g\<close> prints a float64 with the verb \<open>%g\<close>.\<close>

definition Compactor_CustomMetrics :: "(string \<Rightarrow> string) \<Rightarrow> (rat \<Rightarrow> rat) \<Rightarrow> (rat \<Rightarrow> string) \<Rightarrow> 'o compactor \<Rightarrow> string list" where
  "Compactor_CustomMetrics quote fl fmt_g s =
     (let snapshot = cp_lastRun s; resp = rm_Response snapshot in
      [''# HELP logagg_compactor_last_success_timestamp_seconds Unix timestamp of the last successful compaction run.'' @ [newline],
       ''# TYPE logagg_compactor_last_success_timestamp_seconds gauge'' @ [newline],
       ''# HELP logagg_compactor_last_run_duration_seconds Duration of the last successful compaction run.'' @ [newline],
       ''# TYPE logagg_compactor_last_run_duration_seconds gauge'' @ [newline],
       ''# HELP logagg_compactor_scanned_manifests Compaction manifests scanned by the last successful run.'' @ [newline],
       ''# TYPE logagg_compactor_scanned_manifests gauge'' @ [newline],
       ''# HELP logagg_compactor_deleted_manifests Compaction manifests deleted by the last successful run.'' @ [newline],
       ''# TYPE logagg_compactor_deleted_manifests gauge'' @ [newline],
       ''# HELP logagg_compactor_deleted_chunks Compaction chunks deleted by the last successful run.'' @ [newline],
       ''# TYPE logagg_compactor_deleted_chunks gauge'' @ [newline],
       ''# HELP logagg_compactor_delete_manifests Delete manifests written by the last successful run.'' @ [newline],
       ''# TYPE logagg_compactor_delete_manifests gauge'' @ [newline],
       compactor_metric quote ''logagg_compactor_last_success_timestamp_seconds'' (show_int (Unix (rm_FinishedAt snapshot))),
       compactor_metric quote ''logagg_compactor_last_run_duration_seconds'' (fmt_g (Seconds fl (rm_Duration snapshot))),
       compactor_metric quote ''logagg_compactor_scanned_manifests'' (show_nat (ScannedManifests resp)),
       compactor_metric quote ''logagg_compactor_deleted_manifests'' (show_nat (DeletedManifests resp)),
       compactor_metric quote ''logagg_compactor_deleted_chunks'' (show_nat (DeletedChunks resp)),
       compactor_metric quote ''logagg_compactor_delete_manifests'' (show_nat (DeleteManifests resp))])"

definition compactor_main ::
  "snapshot_codec \<Rightarrow> ('c, 'p, 'x) runtime_env \<Rightarrow> (rat \<Rightarrow> rat) \<Rightarrow> time \<Rightarrow> fsys \<times> fsys \<Rightarrow> fsys \<Rightarrow> environment \<Rightarrow>
     (fsys compactor \<times> guard \<times> ('c, 'p) tls_config option) process" where
  "compactor_main codec renv fl now dir fs environ =
     (let cfg = FromEnv (re_uni renv) fl environ ''compactor'' in
      case Compactor_NewServer codec now dir cfg of Inl err \<Rightarrow> Fatal err | Inr None \<Rightarrow> OnDatabase | Inr (Some server) \<Rightarrow>
      run_service renv cfg fs server)"


section \<open>A gateway can be restarted\<close>

lemma Wal_Append_fails: "Wal_Append cd io_ok w e = (Some err, w') \<Longrightarrow> w' = w"
  by (auto simp: Wal_Append_def file_write_def rotateLocked_def openCurrentSegment_def io_ok_def Let_def split: sum.splits if_splits)

lemma Engine_Append_unlogged:
  assumes "GetTenant (en_tenants eng) (TenantID event) = Inr tenant"
    and "Process (ee_stages env) tenant event (pipelineForTenant eng tenant) (en_parser eng) = (Inr e, stats)"
    and "mget (LogAttrs e) ''_pipeline_drop'' \<noteq> ''true''" and "ValidateWithLimits e (t_Limits tenant) = None"
    and "Wal_Append (ee_wal env) io (en_wal eng) e = (Some err, wal)"
  shows "snd (Engine_Append env io now eng event) = eng\<lparr>en_parser := stats, en_wal := wal\<rparr>"
  using assms by (simp add: Engine_Append_def Let_def)

text \<open>
  An engine whose log and index agree, as long as the log can hold the indexed events: each fits a record, and there are segments enough for
  them.
\<close>

definition loggable :: "wal_codec \<Rightarrow> event list \<Rightarrow> bool" where
  "loggable cd es \<longleftrightarrow> list_all (recordable cd) es \<and> length es < 1000000"

definition restorable :: "('re, 'o) engine_env \<Rightarrow> 'o engine \<Rightarrow> bool" where
  "restorable env eng \<longleftrightarrow> (loggable (ee_wal env) (ix_events (en_index eng)) \<longrightarrow>
     (\<exists>groups. engine_holds env eng groups \<and> length groups \<le> Suc (length (concat groups))))"

lemma restorable_cong: "en_wal b = en_wal a \<Longrightarrow> en_index b = en_index a \<Longrightarrow> restorable env b = restorable env a"
  by (simp add: restorable_def engine_holds_def)

lemma restorable_keeps: "keeps a b \<Longrightarrow> restorable env a \<Longrightarrow> restorable env b"
  using restorable_cong [of b a env] by (simp add: keeps_def)

lemma holds_events: "engine_holds env eng groups \<Longrightarrow> ix_events (en_index eng) = concat groups"
  using index_all_wf by (simp add: engine_holds_def)

lemma restorable_append:
  assumes "restorable env eng" and "wf_event event"
  shows "restorable env (snd (Engine_Append env io_ok now eng event))"
proof (cases rule: accepted_event_cases [of env eng event io_ok now])
  case refused
  then show ?thesis using assms(1) by (auto intro: restorable_cong [THEN iffD1])
next
  case (logged e tenant stats)
  let ?eng' = "snd (Engine_Append env io_ok now eng event)"
  obtain err wal where w: "Wal_Append (ee_wal env) io_ok (en_wal eng) e = (err, wal)" by fastforce
  show ?thesis
  proof (cases err)
    case (Some x)
    then have "wal = en_wal eng" using Wal_Append_fails w by blast
    then show ?thesis
      using assms(1) Engine_Append_unlogged [OF logged(2-5) w [unfolded Some]] restorable_cong [of ?eng' eng env] by simp
  next
    case None
    have "Event_Clone e = e" using Process_frame [OF assms(2) logged(3)] Clone_id by blast
    then have ix: "ix_events (en_index ?eng') = ix_events (en_index eng) @ [e]"
      using Engine_Append_logged [OF logged(2-5) w [unfolded None], of now] by (auto simp: MemoryIndex_Index_def Let_def)
    show ?thesis
      unfolding restorable_def
    proof
      assume l: "loggable (ee_wal env) (ix_events (en_index ?eng'))"
      then have "loggable (ee_wal env) (ix_events (en_index eng))" by (simp add: ix loggable_def)
      then obtain groups where g: "engine_holds env eng groups" "length groups \<le> Suc (length (concat groups))"
        using assms(1) by (auto simp: restorable_def)
      have "length groups < 1000000" using l g(2) holds_events [OF g(1)] by (simp add: ix loggable_def)
      then obtain gs where "engine_holds env ?eng' gs" "concat gs = concat groups @ [e]" "length gs \<le> length groups + 1"
        using Engine_Append_holds [OF g(1) assms(2), of now] l logged(1) by (auto simp: ix loggable_def)
      then show "\<exists>groups. engine_holds env ?eng' groups \<and> length groups \<le> Suc (length (concat groups))"
        using g(2) by (intro exI [of _ gs]) simp
    qed
  qed
qed

interpretation restart: engine_invariant E "restorable E" "\<lambda>io. io = io_ok" "\<lambda>_. True" for E :: "('re, 'o) engine_env"
  by unfold_locales (auto intro: restorable_append restorable_keeps queries_keep)


lemma serve_state: "snd (fst (snd (serve renv now H providers (g, s) r))) = s \<or> snd (fst (snd (serve renv now H providers (g, s) r))) = snd (H s r)"
  by (auto simp: serve_def WrapHandler_def Guard_Wrap_def Let_def split: prod.splits option.splits if_splits)

lemma gateway_run_restorable:
  assumes "ge_B env = MemoryBroker" and "decodes_events env" and "\<forall>(now, tk, r) \<in> set reqs. \<forall>i. tk_io tk i = io_ok"
    and "restorable (ge_engine env) (gw_engine (snd st))" and "queue_ok (snd st)"
  shows "restorable (ge_engine env) (gw_engine (snd (foldl (gateway_serves renv env) st reqs))) \<and> queue_ok (snd (foldl (gateway_serves renv env) st reqs))"
  using assms(3-5)
proof (induction reqs arbitrary: st)
  case (Cons req reqs)
  obtain now tk r where req: "req = (now, tk, r)" by (cases req)
  obtain guard g where st: "st = (guard, g)" by (cases st)
  have io: "tk_io tk i = io_ok" for i using Cons.prems(1) req by auto
  have "restorable (ge_engine env) (gw_engine (snd (gateway_serves renv env st req))) \<and> queue_ok (snd (gateway_serves renv env st req))"
    using serve_state [of renv now "\<lambda>g r. Gateway_Handler env tk r g" "[CustomMetrics env g]" guard g r]
      restart.Handler_kept [OF refl assms(1,2) io, of g r] Cons.prems(2,3) req st
    by (auto simp: gateway_serves_def)
  then show ?case using Cons by simp
qed simp

lemma log_reopens:
  assumes "wal_holds cd w groups" and "w_prefix w = log_prefix base"
  shows "\<exists>w'. Wal_OpenWithOptions io_ok (w_files w) base opts = Inr w' \<and> Wal_Replay cd w' = Inr (concat groups)"
proof -
  have "groups \<noteq> []" using assms(1) by (auto simp: wal_holds_def)
  then obtain w' where "Wal_OpenWithOptions io_ok (w_files w) base opts = Inr w'" "wal_holds cd w' groups"
    using wal_open_existing [of "w_prefix w" base "w_files w" groups cd opts] assms by (auto simp: wal_holds_def)
  then show ?thesis using wal_holds_replay by blast
qed

lemma start_engine_holds:
  assumes "start_engine env io_ok now (w_files (en_wal eng), fs, objects) cfg = Inr eng1" and "engine_holds env eng groups"
  shows "engine_holds env eng1 groups"
proof -
  obtain eng0 es where n: "NewWithOptions env io_ok now (w_files (en_wal eng), fs, objects) (command_options cfg) = Inr eng0"
      and r: "Engine_Replay env eng0 = (Inr es, eng1)"
    using assms(1) by (auto simp: start_engine_def split: sum.splits prod.splits)
  show ?thesis
    using Engine_Replay_index [of env eng0 groups] NewWithOptions_reopened [OF assms(2) n] assms(2) r by (simp add: engine_holds_def)
qed

lemma start_engine_fresh:
  assumes "start_engine env io_ok now ([], fs, objects) cfg = Inr eng"
  shows "restorable env eng"
proof -
  obtain eng0 where n: "NewWithOptions env io_ok now ([], fs, objects) (command_options cfg) = Inr eng0" and r: "snd (Engine_Replay env eng0) = eng"
    using assms by (auto simp: start_engine_def split: sum.splits prod.splits)
  have "engine_holds env eng [[]]"
    using Engine_Replay_index [of env eng0 "[[]]"] NewWithOptions_fresh [OF n] n r
    by (auto simp: engine_holds_def NewWithOptions_def Let_def index_all_def split: sum.splits)
  then show ?thesis by (auto simp: restorable_def intro: exI [of _ "[[]]"])
qed

definition server_engine :: "('o, 'k) gateway_server \<Rightarrow> 'o engine" where
  "server_engine server = (case server of OverMemory g \<Rightarrow> gw_engine g | OverKafka g \<Rightarrow> gw_engine g)"

lemma gateway_main_started:
  assumes "gateway_main env sleep renv fl io now dir client fs environ = Running (server, guard, tls)"
  shows "start_engine (command_env env sleep (FromEnv (re_uni renv) fl environ ''gateway'')) io now dir (FromEnv (re_uni renv) fl environ ''gateway'') =
       Inr (server_engine server)"
    and "server = OverMemory g \<Longrightarrow> queue_ok g"
  using assms stores_events_new
  by (auto simp: gateway_main_def run_service_def server_engine_def NewQueuedServer_def queue_ok_def Let_def split: if_splits sum.splits)

lemma command_wal [simp]: "ee_wal (command_env env sleep cfg) = ee_wal env"
  by (simp add: command_env_def)

lemma engine_holds_wal: "ee_wal env' = ee_wal env \<Longrightarrow> engine_holds env' = engine_holds env"
  by (simp add: engine_holds_def fun_eq_iff)

section \<open>Properties\<close>

text \<open>
  C7. A gateway survives a crash: take a gateway started by its command on an empty log with the queue in memory, after any
  requests, whatever their order, their clients and their credentials, in which the calls of the log's files succeed. If the log
  can hold what is indexed (the codec carries every event, its record is shorter than 64 KiB, and there are fewer than 1000000), then the
  log opens again and replays exactly the indexed events in their order; and when the command, run again on the
  log with any environment, tenants and objects, comes up, its index is the index from before the crash.
\<close>

theorem gateway_restart:
  assumes "gateway_main E sleep renv fl io_ok t ([], tenants, objects) client fs environ = Running (OverMemory g0, guard0, tls)"
    and "ge_engine env = command_env E sleep (FromEnv (re_uni renv) fl environ ''gateway'')" and "ge_B env = MemoryBroker" and "decodes_events env"
    and "\<forall>(now, tk, r) \<in> set reqs. \<forall>i. tk_io tk i = io_ok" and "foldl (gateway_serves renv env) (guard0, g0) reqs = (guard, g)"
    and "loggable (ee_wal E) (ix_events (en_index (gw_engine g)))" and "files = w_files (en_wal (gw_engine g))"
  shows "(\<exists>w. Wal_OpenWithOptions io_ok files ''events.log'' opts = Inr w \<and> Wal_Replay (ee_wal E) w = Inr (ix_events (en_index (gw_engine g)))) \<and>
     (\<forall>server guard' tls'. gateway_main E sleep' renv' fl' io_ok t' (files, tenants', objects') client' fs' environ' = Running (server, guard', tls') \<longrightarrow>
        en_index (server_engine server) = en_index (gw_engine g))"
proof -
  have "restorable (ge_engine env) (gw_engine g0)" "queue_ok g0"
    using start_engine_fresh [of "ge_engine env"] gateway_main_started [OF assms(1)] by (auto simp: assms(2) server_engine_def)
  then have "restorable (ge_engine env) (gw_engine g)"
    using gateway_run_restorable [OF assms(3-5), of "(guard0, g0)" renv] assms(6) by simp
  then obtain groups where h: "engine_holds (ge_engine env) (gw_engine g) groups"
    using assms(2,7) by (auto simp: restorable_def)
  have "wal_holds (ee_wal E) (en_wal (gw_engine g)) groups" "w_prefix (en_wal (gw_engine g)) = ''events''"
    using h assms(2) by (auto simp: engine_holds_def)
  then have "\<exists>w. Wal_OpenWithOptions io_ok files ''events.log'' opts = Inr w \<and> Wal_Replay (ee_wal E) w = Inr (concat groups)"
    using log_reopens [of "ee_wal E" "en_wal (gw_engine g)" groups "''events.log''" opts] assms(8) by simp
  moreover have "en_index (server_engine server) = en_index (gw_engine g)"
    if "gateway_main E sleep' renv' fl' io_ok t' (files, tenants', objects') client' fs' environ' = Running (server, guard', tls')" for server guard' tls'
  proof -
    let ?E' = "command_env E sleep' (FromEnv (re_uni renv') fl' environ' ''gateway'')"
    have "engine_holds ?E' (gw_engine g) groups" using h engine_holds_wal [of ?E' "ge_engine env"] assms(2) by simp
    then have "engine_holds ?E' (server_engine server) groups"
      using start_engine_holds gateway_main_started(1) [OF that] unfolding assms(8) by blast
    then show ?thesis using h by (simp add: engine_holds_def)
  qed
  ultimately show ?thesis using holds_events [OF h] by auto
qed


subsection \<open>An instance: one event through guard, queue and engine, and a restart\<close>

lemma unset_duration:
  assumes "map_of env key = None" and "0 \<le> n" and "n * second \<le> max_int64"
  shows "getDuration fl env key (n * second) = n * second"
  using ParseDuration_String [OF assms(2,3)] assms(1) by (simp add: getDuration_def getenv_def)

lemma default_backoff: "ParseDuration fl (Duration_String (50 * millisecond)) = Some (50 * millisecond)"
proof -
  have sh: "show_nat 50 = ''50''" "frac_digits 6 0 = []" by code_simp+
  have s: "Duration_String (50 * millisecond) = ''50ms''" by (simp add: Duration_String_def millisecond_def sh)
  have i: "leadingInt 0 ''50ms'' = Some (50, ''ms'')"
    using leadingInt_show [of 50 "''ms''"] sh by (simp add: is_digit_def byte_val_def)
  have u: "\<not> number_char (CHR ''m'')" "\<not> number_char (CHR ''s'')" "number_char (CHR ''5'')" by code_simp+
  have "unitMap ''ms'' = Some 1000000" by (simp add: unitMap_def)
  then have "duration_item fl ''50ms'' = Some (50000000, [])"
    using i u by (simp add: duration_item_def read_point_def Let_def)
  then have "duration_loop fl 0 ''50ms'' = Some 50000000"
    using loop_item [of fl "''50ms''" 50000000 "[]" 0] by (simp add: duration_loop.simps [of _ _ "[]"])
  then show ?thesis unfolding s by (simp add: ParseDuration_def starts_with_def Let_def millisecond_def)
qed

lemma guarded_settings:
  "command_options (FromEnv id id guarded_environ name) = default_options" "on_files (FromEnv id id guarded_environ name)"
  "cf_QueueBackend (FromEnv id id guarded_environ name) = ''memory''" "cf_QueuePartitions (FromEnv id id guarded_environ name) = 1"
  "cf_ObjectStoreRetries (FromEnv id id guarded_environ name) = 3" "cf_ObjectStoreBackoff (FromEnv id id guarded_environ name) = 50 * millisecond"
proof -
  have d: "getDuration id guarded_environ ''CHUNK_MAX_DURATION'' minute = minute" "getDuration id guarded_environ ''SEGMENT_BUCKET_DURATION'' hour = hour"
      "getDuration id guarded_environ ''QUERY_CACHE_TTL'' (30 * second) = 30 * second"
    using unset_duration [of guarded_environ "''CHUNK_MAX_DURATION''" 60] unset_duration [of guarded_environ "''SEGMENT_BUCKET_DURATION''" 3600]
      unset_duration [of guarded_environ "''QUERY_CACHE_TTL''" 30]
    by (simp_all add: guarded_environ_def time_units max_int64_def)
  have b: "getBool id guarded_environ ''PIPELINE_JSON_IGNORE_ERROR'' True" "getBool id guarded_environ ''PIPELINE_ENABLE_LOGFMT'' True" by code_simp+
  have "getDuration id guarded_environ ''OBJECT_STORE_BACKOFF'' (50 * millisecond) = 50 * millisecond"
    using default_backoff by (simp add: getDuration_def getenv_def guarded_environ_def)
  then show "cf_ObjectStoreBackoff (FromEnv id id guarded_environ name) = 50 * millisecond" by (simp add: FromEnv_def Let_def)
  show "command_options (FromEnv id id guarded_environ name) = default_options"
    using d b by (simp add: command_options_def default_options_def FromEnv_def SyncMode_def Let_def)
      (simp add: guarded_environ_def getenv_def getInt_def getInt64_def)
  have "Atoi ''1'' = Some 1" by code_simp
  then show "cf_QueuePartitions (FromEnv id id guarded_environ name) = 1" by (simp add: FromEnv_def Let_def guarded_environ_def getenv_def getInt_def)
qed (simp_all add: on_files_def FromEnv_def Let_def guarded_environ_def getenv_def getInt_def)

definition restart_env :: "(string, fsys) engine_env" where
  "restart_env = client_env\<lparr>ee_ops := default_objects id (\<lambda>_. None) 3 (50 * millisecond)\<rparr>"

definition restart_engine :: "(string, string) gomap \<Rightarrow> fsys engine" where
  "restart_engine files = snd (Engine_Replay restart_env (projr (NewWithOptions restart_env io_ok 3 (files, client_fs, empty_fs []) default_options)))"

definition restart_gateway :: "(string, string) gomap \<Rightarrow> (fsys, memory_broker) gateway" where
  "restart_gateway files = NewQueuedServer (restart_engine files) (NewMemoryBroker 1)"

lemma restart_runs:
  assumes "\<not> isl (NewWithOptions restart_env io_ok 3 (files, client_fs, empty_fs []) default_options)"
    and "\<not> isl (fst (Engine_Replay restart_env (projr (NewWithOptions restart_env io_ok 3 (files, client_fs, empty_fs []) default_options))))"
  shows "gateway_main client_env (\<lambda>_. None) sample_runtime id io_ok 3 (files, client_fs, empty_fs []) () \<lparr>fs_files = [], fs_dirs = [], fs_faults = []\<rparr> guarded_environ =
     Running (OverMemory (restart_gateway files), sample_guard, None)"
proof -
  let ?cfg = "FromEnv id id guarded_environ ''gateway''"
  have e: "command_env client_env (\<lambda>_. None) ?cfg = restart_env"
    by (simp add: command_env_def restart_env_def guarded_settings) (simp add: client_env_def)
  have "start_engine restart_env io_ok 3 (files, client_fs, empty_fs []) ?cfg = Inr (restart_engine files)"
    using projr_eq [OF assms(1)] projr_eq [OF assms(2)]
    by (auto simp: start_engine_def guarded_settings restart_engine_def split: sum.splits prod.splits)
  moreover have "re_uni sample_runtime = id" by (simp add: sample_runtime_def)
  ultimately show ?thesis
    using sample_service e by (simp add: gateway_main_def run_service_def guarded_settings restart_gateway_def Let_def)
qed


definition restart_client :: "(string, fsys, memory_broker, unit) gateway_env" where
  "restart_client = client_gateway\<lparr>ge_engine := restart_env\<rparr>"

definition ingest_request :: http_request where
  "ingest_request = \<lparr>h_Method = ''POST'', h_Path = ''/api/native/v1/ingest'', h_Query = [],
     h_Header = [(''Authorization'', [''Bearer secret'']), (''X-Scopes'', [''ingest:write''])], h_Body = ''j''\<rparr>"

definition ingest_outcome :: "event list result \<times> memory_broker \<times> fsys engine" where
  "ingest_outcome = enqueueEvents restart_client client_ticks [client_event] (NewMemoryBroker 1) (restart_engine [])"

lemma serve_authorized:
  assumes "authorize (re_guard renv) guard r = (who, None, guard1)" and "h_Path r \<noteq> ''/metrics''"
  shows "snd (fst (snd (serve renv now H providers (guard, s) r))) = snd (H s r)"
  using assms by (simp add: serve_def WrapHandler_def Guard_Wrap_def Let_def split: prod.split)

lemma ingest_served:
  "gw_engine (snd (gateway_serves sample_runtime restart_client (sample_guard, restart_gateway []) (\<lambda>_. 9, client_ticks, ingest_request))) = snd (snd ingest_outcome)"
proof -
  have "fst (snd (authorize sample_guard_env sample_guard ingest_request)) = None" by code_simp
  then obtain who guard1 where a: "authorize (re_guard sample_runtime) sample_guard ingest_request = (who, None, guard1)"
    by (metis prod.collapse runtime_env.select_convs(5) sample_runtime_def)
  have "h_Path ingest_request \<noteq> ''/metrics''" by (simp add: ingest_request_def)
  note s = serve_authorized [OF a this]
  have "gw_engine (snd (Gateway_Handler restart_client client_ticks ingest_request (restart_gateway []))) = snd (snd ingest_outcome)"
    by (auto simp: Gateway_Handler_def RegisterBaseRoutes_def ingest_request_def handleNativeIngest_def appendEvents_def restart_gateway_def NewQueuedServer_def
        ingest_outcome_def restart_client_def client_gateway_def split: prod.split sum.split)
  then show ?thesis by (simp add: gateway_serves_def s)
qed


definition ingest_files :: "(string, string) gomap" where
  "ingest_files = [(''events.000000.wal'', [CHR ''x'', CHR 0x0A])]"

definition reopened_engine :: "fsys engine" where
  "reopened_engine = projr (NewWithOptions restart_env io_ok 3 (ingest_files, client_fs, empty_fs []) default_options)"

lemma ingest_indexed:
  "ix_events (en_index (snd (snd ingest_outcome))) = [client_event]" "w_files (en_wal (snd (snd ingest_outcome))) = ingest_files"
  by code_simp+

lemma reopened:
  "\<not> isl (NewWithOptions restart_env io_ok 3 (ingest_files, client_fs, empty_fs []) default_options)" "\<not> en_replayed reopened_engine"
  "fst (case restoreSegments restart_env (reopened_engine\<lparr>en_index := ix\<rparr>) of (Some err, eng) \<Rightarrow> (Some err, eng) | (None, eng) \<Rightarrow>
      let eng = eng\<lparr>en_manifestRevision := []\<rparr> in
      case WarmRecentChunks (planner_env_of restart_env eng) (en_plan eng) 32 of (err, plan) \<Rightarrow> (err, eng)) = None"
  by code_simp+

lemma reopened_replays:
  assumes "Wal_OpenWithOptions io_ok ingest_files ''events.log'' \<lparr>MaxSegmentBytes = WALMaxSegmentBytes default_options, wo_SyncMode = WALSyncMode default_options\<rparr> = Inr w"
    and "Wal_Replay (ee_wal client_env) w = Inr events"
  shows "\<not> isl (fst (Engine_Replay restart_env reopened_engine))"
proof -
  have "en_wal reopened_engine = w"
    using projr_eq [OF reopened(1)] assms(1) by (auto simp: NewWithOptions_def Let_def reopened_engine_def split: sum.splits)
  moreover have "ee_wal restart_env = ee_wal client_env" by (simp add: restart_env_def)
  ultimately show ?thesis
    using reopened(2) assms(2) reopened(3) [of "fold (\<lambda>e m. MemoryIndex_Index m e) events (en_index reopened_engine)"]
    by (auto simp: Engine_Replay_def Let_def split: prod.splits option.splits)
qed

theorem gateway_restart_witness:
  "\<exists>server. gateway_main client_env (\<lambda>_. None) sample_runtime id io_ok 3 (w_files (en_wal (snd (snd ingest_outcome))), client_fs, empty_fs []) ()
       \<lparr>fs_files = [], fs_dirs = [], fs_faults = []\<rparr> guarded_environ = Running (server, sample_guard, None) \<and>
     ix_events (en_index (server_engine server)) = [client_event]"
proof -
  let ?opts = "\<lparr>MaxSegmentBytes = WALMaxSegmentBytes default_options, wo_SyncMode = WALSyncMode default_options\<rparr>"
  let ?req = "(\<lambda>_ :: nat. 9 :: time, client_ticks, ingest_request)"
  have fresh: "\<not> isl (NewWithOptions restart_env io_ok 3 ([], client_fs, empty_fs []) default_options)"
      "\<not> isl (fst (Engine_Replay restart_env (projr (NewWithOptions restart_env io_ok 3 ([], client_fs, empty_fs []) default_options))))"
    by code_simp+
  note start = restart_runs [OF fresh]
  obtain guard g where run: "foldl (gateway_serves sample_runtime restart_client) (sample_guard, restart_gateway []) [?req] = (guard, g)" by fastforce
  then have g: "gw_engine g = snd (snd ingest_outcome)" using ingest_served by simp
  have env: "ge_engine restart_client = command_env client_env (\<lambda>_. None) (FromEnv (re_uni sample_runtime) id guarded_environ ''gateway'')"
    by (simp add: restart_client_def restart_env_def sample_runtime_def command_env_def guarded_settings) (simp add: client_env_def)
  have b: "ge_B restart_client = MemoryBroker" "decodes_events restart_client"
    using client_wf(1) by (simp_all add: restart_client_def client_gateway_def decodes_events_def)
  have io: "\<forall>(now, tk, r) \<in> set [?req]. \<forall>i. tk_io tk i = io_ok" by (simp add: client_ticks_def)
  have log: "loggable (ee_wal client_env) (ix_events (en_index (gw_engine g)))" using client_wf(2) by (simp add: g ingest_indexed loggable_def)
  note again = gateway_restart [OF start env b io run log refl]
  obtain w where "Wal_OpenWithOptions io_ok ingest_files ''events.log'' ?opts = Inr w" "Wal_Replay (ee_wal client_env) w = Inr [client_event]"
    using conjunct1 [OF again [of ?opts]] unfolding g ingest_indexed by blast
  then have runs: "gateway_main client_env (\<lambda>_. None) sample_runtime id io_ok 3 (ingest_files, client_fs, empty_fs []) () \<lparr>fs_files = [], fs_dirs = [], fs_faults = []\<rparr> guarded_environ =
      Running (OverMemory (restart_gateway ingest_files), sample_guard, None)"
    using restart_runs [OF reopened(1)] reopened_replays unfolding reopened_engine_def by blast
  then have "en_index (server_engine (OverMemory (restart_gateway ingest_files) :: (fsys, unit) gateway_server)) = en_index (gw_engine g)"
    by (intro conjunct2 [OF again, rule_format]) (simp add: g ingest_indexed)
  then show ?thesis using runs g ingest_indexed by auto
qed


lemma empty_listing: "cp_manifests s = Some NewMemoryRepository \<Longrightarrow> manifestRecords env s part = Inr []"
  by (simp add: manifestRecords_def Manifest_List_def NewMemoryRepository_def Let_def)

lemma empty_repository:
  assumes "cp_manifests s = Some NewMemoryRepository" and "s' = snd (Compactor_Handler env decode clock now s r)"
  shows "cp_manifests s' = Some NewMemoryRepository \<and> cp_objects s' = cp_objects s"
  using assms empty_listing [OF assms(1), of env]
  by (auto simp: Compactor_Handler_def handleCompact_def Compact_def Let_def split: option.split sum.splits prod.splits)

text \<open>
  C12. Without databases for tenants and manifests the compactor does nothing: its command gives it a manifest repository of its own that is empty
  and that no other process writes to, so whatever objects are expired below its data directory and whatever
  runs are requested, no object is deleted, and every run reports that it scanned no manifest.
\<close>

theorem compactor_idle:
  assumes "compactor_main codec renv fl t (tenants, objects) fs environ = Running (s0, guard, tls)"
    and "s = foldl (\<lambda>s (clock, now, r). snd (Compactor_Handler env decode clock now s r)) s0 reqs" and "decode (h_Body r) = Inr req"
    and "h_Method r = ''POST''" and "h_Path r = ''/internal/v1/compact''"
  shows "cp_objects s = objects \<and> (\<exists>resp. fst (Compactor_Handler env decode clock now s r) = WriteJSON 200 (CompactorReply (CompactDone resp)) \<and>
     ScannedManifests resp = 0 \<and> DeletedManifests resp = 0 \<and> DeletedChunks resp = 0)"
proof -
  have start: "cp_manifests s0 = Some NewMemoryRepository \<and> cp_objects s0 = objects"
    using assms(1) by (auto simp: compactor_main_def Compactor_NewServer_def buildManifestRepo_def run_service_def Let_def split: sum.splits option.splits if_splits)
  have s: "cp_manifests s = Some NewMemoryRepository \<and> cp_objects s = objects"
    unfolding assms(2)
    by (rule foldl_inv [where P = "\<lambda>s. cp_manifests s = Some NewMemoryRepository \<and> cp_objects s = objects", OF start])
      (use empty_repository in \<open>force split: prod.splits\<close>)
  then show ?thesis
    using empty_listing [of s env] assms(3-5)
    by (cases clock) (simp add: Compactor_Handler_def RegisterBaseRoutes_def handleCompact_def Compact_def zero_response_def Let_def lift_reply_def WriteJSON_def)
qed

text \<open>A store with an object of the year 1, which stays.\<close>

definition old_objects :: fsys where
  "old_objects = \<lparr>fs_files = [([''segments'', ''old.json''], (''m'', 0))], fs_dirs = [[], [''segments'']], fs_faults = []\<rparr>"

definition old_compactor :: "(unit, fsys) compactor_env" where
  "old_compactor = \<lparr>ce_ops = compactor_objects id (\<lambda>_. None) (FromEnv id id guarded_environ ''compactor''),
     ce_UnmarshalManifest = (\<lambda>_. Inl ErrNotExist), ce_MarshalDelete = (\<lambda>_. Inl ErrNotExist), ce_sha = id\<rparr>"

definition compact_request_of :: http_request where
  "compact_request_of = \<lparr>h_Method = ''POST'', h_Path = ''/internal/v1/compact'', h_Query = [], h_Header = [], h_Body = []\<rparr>"

theorem compactor_idle_witness:
  "\<exists>s0 guard tls. compactor_main (ee_tenants client_env) sample_runtime id 3 (client_fs, old_objects) \<lparr>fs_files = [], fs_dirs = [], fs_faults = []\<rparr> guarded_environ =
       Running (s0, guard, tls) \<and>
     cp_objects (snd (Compactor_Handler old_compactor (\<lambda>_. Inr \<lparr>cq_TenantID = [], cq_DryRun = False, cq_PartitionKey = [], cq_DeleteOnlyOld = False\<rparr>)
       (10 ^ 18, 10 ^ 18, 10 ^ 18) (\<lambda>_ _. 10 ^ 18) s0 compact_request_of)) = old_objects"
proof -
  let ?cfg = "FromEnv id id guarded_environ ''compactor''"
  have u: "re_uni sample_runtime = id" by (simp add: sample_runtime_def)
  have "cf_TenantDSN ?cfg = []" "cf_ManifestDSN ?cfg = []" using guarded_settings(2) by (simp_all add: on_files_def)
  moreover obtain ts where "fst (NewPersistentStore (ee_tenants client_env) 3 client_fs [''control'', ''tenants.json'']) = Inr ts"
    using client_tenants by blast
  ultimately obtain s0 where s0: "Compactor_NewServer (ee_tenants client_env) 3 (client_fs, old_objects) ?cfg = Inr (Some s0)"
    by (simp add: Compactor_NewServer_def buildTenantRepo_def buildManifestRepo_def)
  obtain guard tls where "RunHTTP sample_runtime ?cfg \<lparr>fs_files = [], fs_dirs = [], fs_faults = []\<rparr> = Inr (guard, tls)"
    using guarded_runs by blast
  then have m: "compactor_main (ee_tenants client_env) sample_runtime id 3 (client_fs, old_objects) \<lparr>fs_files = [], fs_dirs = [], fs_faults = []\<rparr> guarded_environ =
      Running (s0, guard, tls)"
    using s0 by (simp add: compactor_main_def run_service_def u Let_def)
  let ?d = "\<lambda>_ :: string. Inr \<lparr>cq_TenantID = [], cq_DryRun = False, cq_PartitionKey = [], cq_DeleteOnlyOld = False\<rparr>"
  have "cp_objects (foldl (\<lambda>s (clock, now, r). snd (Compactor_Handler old_compactor ?d clock now s r)) s0
      [((10 ^ 18, 10 ^ 18, 10 ^ 18), \<lambda>_ _. 10 ^ 18, compact_request_of)]) = old_objects"
    by (rule conjunct1 [OF compactor_idle [where r = compact_request_of, OF m refl refl]]) (simp_all add: compact_request_of_def)
  then show ?thesis using m by auto
qed

end
