(* ===== verification/Spec2Isabelle.thy ===== *)
theory Spec2Isabelle
  imports Segment Mem_Index Cache Object_Store Manifests Planner Wal Pipeline Quota Ring Tenant_Store Admission Queue Engine_Correct
    Compactor Query_Frontend Control_Plane Distributor Gateway_Correct Kafka Etcd Postgres Runtime Commands
begin

text \<open>
  A verification development of the log aggregation system: a Go program that ingests log events of many
  tenants, keeps them in a write-ahead log, a hot in-memory index and compressed chunks in an object
  store, and answers queries over both.

  \<^bold>\<open>The program and how its parts interact.\<close> The gateway receives events and queries. An event runs
  through the tenant's parse pipeline, is checked against the tenant's limits, written to the write-ahead log,
  indexed, and added to the chunk builder of its stream; a full chunk is stored as an object, filed in the
  segment of its hour, and the segment's manifest is written to the object store and the manifest
  repository. A query is planned over the segments (pruned by chunk summaries), the chunks are
  read through a cache, merged with the answer of the hot index, deduplicated, sorted and paged; results
  are cached. The query frontend splits a plan into fragments for queriers and merges their results. The
  distributor rate-limits events and places their streams on ring members by rendezvous hashing. The control
  plane administers tenants; the compactor applies retention. A queue with a consumer decouples
  ingest where it is configured.

  \<^bold>\<open>Theories and the code they model\<close> (paths under \<open>src/internal\<close>).
  \<^item> \<open>Go_Prelude\<close>, \<open>Go_Time\<close>, \<open>Go_Format\<close>, \<open>Go_Parse\<close>, \<open>Go_Duration\<close>, \<open>Go_Base64\<close>: what the code uses of the language and its
    library: errors as values, maps as association lists, strings as byte lists, sorting, number parsing, instants as
    nanoseconds, printing and parsing of times and durations, quoting, base 64.
  \<^item> \<open>Core_Model\<close>: \<open>core/model\<close>: events, tenants, pipelines, queries, their validation, the stream key.
  \<^item> \<open>Chunk\<close>, \<open>Segment\<close>, \<open>Mem_Index\<close>, \<open>Cache\<close>, \<open>Planner\<close>, \<open>Query_Common\<close>: \<open>engine/chunk\<close> (builder, metadata, Bloom filter),
    \<open>engine/segment\<close>, \<open>engine/index\<close>, \<open>engine/cache\<close>, \<open>engine/planner\<close>.
  \<^item> \<open>Object_Store\<close>, \<open>Manifests\<close>: \<open>storage/object\<close> over a file system with faults, \<open>storage/manifests\<close> (memory).
  \<^item> \<open>Wal\<close>, \<open>Pipeline\<close>, \<open>Quota\<close>: \<open>engine/wal\<close> with rotation and recovery, \<open>engine/pipeline\<close>, \<open>engine/quota\<close> under
    every interleaving of its callers.
  \<^item> \<open>Ring\<close>, \<open>Tenant_Store\<close>, \<open>Admission\<close>, \<open>Queue\<close>: \<open>coordination/ring\<close> and the router, \<open>engine/tenant\<close>, the ingest limiter of
    \<open>engine/distribution\<close>, \<open>engine/queue\<close> (memory broker and consumer).
  \<^item> \<open>Engine\<close>, \<open>Engine_Correct\<close>: \<open>engine/singlenode\<close>, the composition of all of these, and its correctness.
  \<^item> \<open>Service_Http\<close>, \<open>Descriptors\<close>, \<open>Audit_Trail\<close>: \<open>platform/servicehttp\<close>, the descriptors of the services, append-only files.
  \<^item> \<open>Compactor\<close>, \<open>Query_Frontend\<close>, \<open>Control_Plane\<close>, \<open>Distributor\<close>, \<open>Gateway\<close>, \<open>Gateway_Correct\<close>: the services of \<open>services\<close>;
    the gateway takes native, OTLP and Loki requests, directly into the engine or through the queue.
  \<^item> \<open>Kafka\<close>, \<open>Etcd\<close>, \<open>Postgres\<close>: the other implementations of the broker (\<open>engine/queue/kafka.go\<close>), the ring backend
    (\<open>coordination/ring/backend.go\<close>), and the tenant and manifest repositories (\<open>engine/tenant/postgres.go\<close>,
    \<open>storage/manifests/postgres.go\<close>), each over a client whose documented behaviour is a hypothesis.
  \<^item> \<open>Authn\<close>, \<open>Http_Guard\<close>, \<open>Config\<close>, \<open>Runtime\<close>: \<open>platform/authn\<close>, \<open>platform/httpguard\<close>, \<open>platform/config\<close>, and from \<open>platform/tlsconfig\<close>,
    \<open>platform/tracing\<close> and \<open>platform/runtime\<close> what a service is given before it listens and how it ends.
  \<^item> \<open>Commands\<close>: the \<open>main\<close> functions of \<open>src/cmd\<close>, from the environment of a process to its running service.

  \<^bold>\<open>How the model corresponds to the code.\<close> A struct is a record, an operation a function that takes the state
  and returns it updated with the result, an error a value of \<open>goerror\<close> in \<open>Inl\<close>, \<open>Some\<close> or \<open>None\<close>. Names are the
  source's, with a package prefix where two packages use the same. A clock reading is an argument. Code outside the
  repository is a parameter: JSON and zstd, SHA-256, regular expressions, JSON web tokens, the clients of Kafka, etcd and PostgreSQL, Unicode case mapping beyond ASCII,
  floating-point rounding, the operating system's answers; what a theorem needs of it is a named
  hypothesis (a round trip of the codec, the sign and size of a rounding error, the expiry of a lease), with a witness that
  instantiates it. The key of the query cache is computed as the code does, from the encoding of the request, which may
  fail; in \<open>Kafka\<close> the encoding of an event and the decoding of a message are modelled from the tags of the structs. Integers are unbounded where the code cannot overflow in practice (counters, lengths) and words where wrapping
  is intended (the hash of the Bloom filter) or happens (the exponent of a key).

  \<^bold>\<open>What the lemmas show.\<close> Each theory proves an invariant of its state and that every operation keeps it, the behaviour
  of the operations on every branch, and the theorem that makes the component correct. The contracts
  between components are locales, interpreted on the model: the paged query executor, the manifest and tenant
  repositories, the ring backend, the broker, the object store the compactor relies on, and what the gateway needs of an
  invariant of its engine (\<open>engine_invariant\<close>, interpreted for the separation of tenants and for durability). The engine's theorems compose
  them: no acknowledged event is lost as long as every record fits what recovery can read, no tenant sees another's events as long as
  the requests can be encoded (those that cannot share one cache key), a client reads its own writes. Above it, the gateway keeps tenants apart on every route and its queue loses
  nothing, distributed queries equal those of one engine, administration changes only what a request names, and
  a service that is asked to authenticate lets no other request through; a gateway command run again on the
  log of a crashed one holds the same events.

  \<^bold>\<open>Loops and fuel.\<close> Recursion is structural or has a termination proof. Fuel appears only in specifications that follow a
  client or a consumer round by round (\<open>follow_cursor\<close>, \<open>consume_rounds\<close>), where the theorems show that the number of matches plus one, or of attempts left,
  is enough.

  \<^bold>\<open>Not modelled.\<close> The network listener and the signals of a process, which are events of the model; the texts of SQL statements;
  an engine or a compactor over repositories in a database (the repositories themselves are in \<open>Postgres\<close>), which \<open>Commands\<close> sets
  apart as \<open>OnDatabase\<close>; the JSON decoders of requests and records, which are parameters; \<open>core/ports\<close>, interfaces that no component uses. Goroutine
  interleavings are modelled where the code relies on them (\<open>Quota\<close>, the arrival of results in \<open>Query_Frontend\<close>); elsewhere a lock
  makes an operation atomic and it is one step.
\<close>

end
